(* ===== verification/Prelude.thy ===== *)
theory Prelude
  imports Main "HOL-Library.Word" "HOL-Library.Monad_Syntax"
begin

text \<open>
  Shared vocabulary of the development: the machine-integer limits and the saturating and
  checked operations of Rust's integers and of \<^verbatim>\<open>std::time::Duration\<close>, the collections of
  simplification rules the component theories use, and generic lemmas on options and lists.

  Counters of type \<^verbatim>\<open>u32\<close> and \<^verbatim>\<open>u64\<close> are \<^typ>\<open>nat\<close> with the limit written out where
  the code saturates or where it would overflow; the workspace's release profile sets
  \<^verbatim>\<open>overflow-checks = true\<close>, so an overflow is a panic, which is the value \<^term>\<open>None\<close> of
  an \<^verbatim>\<open>option\<close>. Identifiers and generator states, where the code works bitwise or wraps,
  are words. A \<^verbatim>\<open>Duration\<close> is its number of nanoseconds.
\<close>

named_theorems limits \<open>the limits of the integer types\<close>
named_theorems sat_simps \<open>unfolding of saturating arithmetic\<close>

type_synonym cid = "64 word"
type_synonym millis = nat
type_synonym duration = nat

definition u8_max :: nat where [limits]: "u8_max = 255"
definition u16_max :: nat where [limits]: "u16_max = 65535"
definition u32_max :: nat where [limits]: "u32_max = 4294967295"
definition u64_max :: nat where [limits]: "u64_max = 18446744073709551615"

text \<open>The largest \<^verbatim>\<open>Duration\<close>: \<^verbatim>\<open>u64::MAX\<close> seconds and 999999999 nanoseconds.\<close>

definition duration_max :: duration where [limits]:
  "duration_max = u64_max * 1000000000 + 999999999"

definition sat_add :: "nat \<Rightarrow> nat \<Rightarrow> nat \<Rightarrow> nat" where [sat_simps]:
  "sat_add mx a b = min mx (a + b)"

definition sat_mul :: "nat \<Rightarrow> nat \<Rightarrow> nat \<Rightarrow> nat" where [sat_simps]:
  "sat_mul mx a b = min mx (a * b)"

definition checked_add :: "nat \<Rightarrow> nat \<Rightarrow> nat \<Rightarrow> nat option" where
  "checked_add mx a b = (if a + b \<le> mx then Some (a + b) else None)"

definition checked_sub :: "nat \<Rightarrow> nat \<Rightarrow> nat option" where
  "checked_sub a b = (if b \<le> a then Some (a - b) else None)"

text \<open>\<^verbatim>\<open>1u32.checked_shl(n).unwrap_or(u32::MAX)\<close>.\<close>

definition shl_or_max :: "nat \<Rightarrow> nat" where
  "shl_or_max n = (if n < 32 then 2 ^ n else u32_max)"

definition from_millis :: "nat \<Rightarrow> duration" where "from_millis ms = ms * 1000000"
definition from_secs :: "nat \<Rightarrow> duration" where "from_secs s = s * 1000000000"
definition as_millis :: "duration \<Rightarrow> nat" where "as_millis d = d div 1000000"

lemma as_millis_from_millis [simp]: "as_millis (from_millis ms) = ms"
  by (simp add: as_millis_def from_millis_def)

lemma as_millis_mono: "a \<le> b \<Longrightarrow> as_millis a \<le> as_millis b"
  by (simp add: as_millis_def div_le_mono)

lemma from_millis_le_iff: "from_millis a \<le> d \<longleftrightarrow> a \<le> as_millis d"
  unfolding from_millis_def as_millis_def by (simp add: less_eq_div_iff_mult_less_eq)

lemma from_millis_mono: "a \<le> b \<Longrightarrow> from_millis a \<le> from_millis b"
  by (simp add: from_millis_def)

lemma sat_add_le [simp]: "sat_add mx a b \<le> mx"
  by (simp add: sat_add_def)

lemma sat_add_ge: "a \<le> mx \<Longrightarrow> a \<le> sat_add mx a b"
  by (simp add: sat_add_def)

lemma sat_add_exact: "a + b \<le> mx \<Longrightarrow> sat_add mx a b = a + b"
  by (simp add: sat_add_def)

lemma sat_add_mono: "b \<le> c \<Longrightarrow> sat_add mx a b \<le> sat_add mx a c"
  by (simp add: sat_add_def min_le_iff_disj)

lemma sat_mul_le [simp]: "sat_mul mx a b \<le> mx"
  by (simp add: sat_mul_def)

lemma shl_or_max_pos [simp]: "0 < shl_or_max n"
  by (simp add: shl_or_max_def u32_max_def)

lemma shl_or_max_mono: "a \<le> b \<Longrightarrow> shl_or_max a \<le> shl_or_max b"
proof -
  assume ab: "a \<le> b"
  have pow: "(2::nat) ^ n \<le> 2 ^ 31" if "n < 32" for n
    using that by (intro power_increasing) simp_all
  show ?thesis
  proof (cases "b < 32")
    case True
    with ab show ?thesis by (simp add: shl_or_max_def power_increasing)
  next
    case False
    have "a < 32 \<Longrightarrow> (2::nat) ^ a \<le> 4294967295" using pow [of a] by simp
    with False show ?thesis by (simp add: shl_or_max_def u32_max_def)
  qed
qed

lemma checked_add_Some_iff [simp]:
  "checked_add mx a b = Some c \<longleftrightarrow> a + b \<le> mx \<and> c = a + b"
  by (auto simp: checked_add_def)

lemma checked_sub_Some_iff [simp]:
  "checked_sub a b = Some c \<longleftrightarrow> b \<le> a \<and> c = a - b"
  by (auto simp: checked_sub_def)

lemma checked_sub_exact [simp]: "b \<le> a \<Longrightarrow> checked_sub a b = Some (a - b)"
  by (simp add: checked_sub_def)

text \<open>
  The components compose fallible steps with \<^verbatim>\<open>do\<close>; a bound computation succeeds exactly
  when both of its parts do, which the simplifier uses on every equation of that shape.
\<close>

declare bind_eq_Some_conv [simp]

lemma bind_Some_total:
  "(\<exists>x. m = Some x) \<Longrightarrow> (\<And>x. m = Some x \<Longrightarrow> \<exists>y. f x = Some y) \<Longrightarrow> \<exists>y. Option.bind m f = Some y"
  by auto

text \<open>\<^verbatim>\<open>Option::is_some_and\<close>.\<close>

definition is_some_and :: "'a option \<Rightarrow> ('a \<Rightarrow> bool) \<Rightarrow> bool" where
  "is_some_and x P = (case x of None \<Rightarrow> False | Some v \<Rightarrow> P v)"

lemma is_some_and_simps [simp]:
  "is_some_and None P = False"
  "is_some_and (Some v) P = P v"
  by (simp_all add: is_some_and_def)

lemma is_some_and_iff: "is_some_and x P \<longleftrightarrow> (\<exists>v. x = Some v \<and> P v)"
  by (cases x) simp_all

text \<open>Iterators over a map's values, and over an option.\<close>

lemma in_concat_values:
  "x \<in> set (concat (map (\<lambda>(_, v). f v) kvs)) \<longleftrightarrow> (\<exists>kv \<in> set kvs. x \<in> set (f (snd kv)))"
  by (induction kvs) auto

lemma in_option_list: "x \<in> set (case m of Some y \<Rightarrow> [y] | None \<Rightarrow> []) \<longleftrightarrow> m = Some x"
  by (cases m) auto

text \<open>Rust's \<^verbatim>\<open>?\<close> on a \<^verbatim>\<open>Result\<close>: go on with the value, or return the error.\<close>

definition and_then :: "'e + 'a \<Rightarrow> ('a \<Rightarrow> 'e + 'b) \<Rightarrow> 'e + 'b" where
  "and_then r f = (case r of Inl e \<Rightarrow> Inl e | Inr x \<Rightarrow> f x)"

lemma and_then_simps [simp]:
  "and_then (Inl e) f = Inl e"
  "and_then (Inr x) f = f x"
  by (simp_all add: and_then_def)

lemma and_then_Inr_iff [simp]: "and_then r f = Inr y \<longleftrightarrow> (\<exists>x. r = Inr x \<and> f x = Inr y)"
  by (cases r) simp_all

lemma and_thenE:
  "and_then r f = Inr y \<Longrightarrow> (\<And>x. r = Inr x \<Longrightarrow> f x = Inr y \<Longrightarrow> thesis) \<Longrightarrow> thesis"
  by auto

lemma guardE: "(if b then Inl e else r) = Inr y \<Longrightarrow> (\<not> b \<Longrightarrow> r = Inr y \<Longrightarrow> thesis) \<Longrightarrow> thesis"
  by (cases b) simp_all

lemma and_then_cong [fundef_cong]:
  "r = r' \<Longrightarrow> (\<And>x. r' = Inr x \<Longrightarrow> f x = g x) \<Longrightarrow> and_then r f = and_then r' g"
  by (cases r') simp_all

text \<open>Reading one component of a computed result.\<close>

lemma map_option_SomeD: "map_option f m = Some y \<Longrightarrow> m = Some x \<Longrightarrow> f x = y"
  by simp

end
