(* ===== verification/BTreeMap.thy ===== *)
theory BTreeMap
  imports Prelude
begin

text \<open>
  Rust's \<^verbatim>\<open>BTreeMap\<close> as the components use it: its entries in key order, which is the order
  its iterators give and on which the supervisor's jitter depends. The locale
  \<^verbatim>\<open>key_map\<close> states what a client may rely on (what a lookup returns after each operation,
  and that every operation keeps the representation well formed); the sorted association list
  below is interpreted as one, and the facts the components use come from that interpretation.
\<close>

locale key_map =
  fixes get :: "'m \<Rightarrow> 'k \<Rightarrow> 'v option"
    and ins :: "'k \<Rightarrow> 'v \<Rightarrow> 'm \<Rightarrow> 'm"
    and del :: "'k \<Rightarrow> 'm \<Rightarrow> 'm"
    and wf :: "'m \<Rightarrow> bool"
  assumes get_ins: "wf m \<Longrightarrow> get (ins k v m) j = (if j = k then Some v else get m j)"
    and get_del: "wf m \<Longrightarrow> get (del k m) j = (if j = k then None else get m j)"
    and wf_ins: "wf m \<Longrightarrow> wf (ins k v m)"
    and wf_del: "wf m \<Longrightarrow> wf (del k m)"
begin

lemma get_ins_same: "wf m \<Longrightarrow> get (ins k v m) k = Some v"
  by (simp add: get_ins)

lemma get_ins_other: "wf m \<Longrightarrow> j \<noteq> k \<Longrightarrow> get (ins k v m) j = get m j"
  by (simp add: get_ins)

lemma get_ins_twice: "wf m \<Longrightarrow> get (ins k v (ins k w m)) j = get (ins k v m) j"
  by (simp add: get_ins wf_ins)

lemma get_del_ins: "wf m \<Longrightarrow> get (del k (ins k v m)) j = get (del k m) j"
  by (simp add: get_ins get_del wf_ins)

lemma get_fold_ins:
  "wf m \<Longrightarrow> wf (fold (\<lambda>(k, v). ins k v) kvs m) \<and>
    get (fold (\<lambda>(k, v). ins k v) kvs m) j =
      (case map_of (rev kvs) j of Some v \<Rightarrow> Some v | None \<Rightarrow> get m j)"
proof (induction kvs arbitrary: m)
  case (Cons kv kvs)
  obtain k v where kv: "kv = (k, v)" by fastforce
  from Cons.IH [OF wf_ins [OF Cons.prems, of k v]] show ?case
    using get_ins [OF Cons.prems, of k v j] by (simp add: kv map_add_def split: option.split)
qed simp

end

type_synonym ('k, 'v) btree = "('k \<times> 'v) list"

fun bt_get :: "('k, 'v) btree \<Rightarrow> 'k \<Rightarrow> 'v option" where
  "bt_get [] j = None"
| "bt_get ((k, v) # m) j = (if j = k then Some v else bt_get m j)"

fun bt_insert :: "'k::linorder \<Rightarrow> 'v \<Rightarrow> ('k, 'v) btree \<Rightarrow> ('k, 'v) btree" where
  "bt_insert k v [] = [(k, v)]"
| "bt_insert k v ((j, w) # m) =
     (if k < j then (k, v) # (j, w) # m
      else if k = j then (k, v) # m
      else (j, w) # bt_insert k v m)"

fun bt_remove :: "'k \<Rightarrow> ('k, 'v) btree \<Rightarrow> ('k, 'v) btree" where
  "bt_remove k [] = []"
| "bt_remove k ((j, w) # m) = (if k = j then m else (j, w) # bt_remove k m)"

definition bt_retain :: "('k \<Rightarrow> 'v \<Rightarrow> bool) \<Rightarrow> ('k, 'v) btree \<Rightarrow> ('k, 'v) btree" where
  "bt_retain P m = filter (\<lambda>(k, v). P k v) m"

definition bt_map :: "('k \<Rightarrow> 'v \<Rightarrow> 'w) \<Rightarrow> ('k, 'v) btree \<Rightarrow> ('k, 'w) btree" where
  "bt_map f m = map (\<lambda>(k, v). (k, f k v)) m"

definition bt_wf :: "('k::linorder, 'v) btree \<Rightarrow> bool" where
  "bt_wf m \<longleftrightarrow> sorted_wrt (<) (map fst m)"

lemma bt_wf_simps [simp]:
  "bt_wf []"
  "bt_wf ((k, v) # m) \<longleftrightarrow> (\<forall>p \<in> set m. k < fst p) \<and> bt_wf m"
  by (auto simp: bt_wf_def)

lemma bt_get_eq_map_of: "bt_get m = map_of m"
proof
  fix j show "bt_get m j = map_of m j"
    by (induction m j rule: bt_get.induct) auto
qed

lemma bt_get_SomeD: "bt_get m k = Some v \<Longrightarrow> (k, v) \<in> set m"
  by (simp add: bt_get_eq_map_of map_of_SomeD)

lemma bt_get_None: "bt_get m k = None \<longleftrightarrow> k \<notin> fst ` set m"
  by (simp add: bt_get_eq_map_of map_of_eq_None_iff)

lemma bt_wf_distinct: "bt_wf m \<Longrightarrow> distinct (map fst m)"
  unfolding bt_wf_def by (simp add: strict_sorted_iff)

lemma bt_get_iff: "bt_wf m \<Longrightarrow> bt_get m k = Some v \<longleftrightarrow> (k, v) \<in> set m"
  by (simp add: bt_get_eq_map_of bt_wf_distinct)

lemma bt_insert_keys: "fst ` set (bt_insert k v m) = insert k (fst ` set m)"
  by (induction k v m rule: bt_insert.induct) auto

lemma bt_insert_set:
  "p \<in> set (bt_insert k v m) \<Longrightarrow> p = (k, v) \<or> p \<in> set m"
  by (induction k v m rule: bt_insert.induct) (auto split: if_splits)

lemma bt_wf_insert [simp]: "bt_wf m \<Longrightarrow> bt_wf (bt_insert k v m)"
proof (induction k v m rule: bt_insert.induct)
  case (2 k v j w m)
  then show ?case
    by (auto dest!: bt_insert_set split: if_splits)
qed simp

lemma bt_get_insert [simp]:
  "bt_wf m \<Longrightarrow> bt_get (bt_insert k v m) j = (if j = k then Some v else bt_get m j)"
proof (induction k v m rule: bt_insert.induct)
  case (2 k v j' w m)
  then show ?case
    by (auto simp: bt_get_None [symmetric] split: if_splits)
qed simp

lemma bt_insert_again [simp]: "bt_insert k v (bt_insert k w m) = bt_insert k v m"
  by (induction k w m rule: bt_insert.induct) auto

lemma bt_remove_set: "p \<in> set (bt_remove k m) \<Longrightarrow> p \<in> set m"
  by (induction k m rule: bt_remove.induct) (auto split: if_splits)

lemma bt_wf_remove [simp]: "bt_wf m \<Longrightarrow> bt_wf (bt_remove k m)"
  by (induction k m rule: bt_remove.induct) (auto dest: bt_remove_set)

lemma bt_get_remove [simp]:
  "bt_wf m \<Longrightarrow> bt_get (bt_remove k m) j = (if j = k then None else bt_get m j)"
proof (induction k m rule: bt_remove.induct)
  case (2 k j' w m)
  then have "bt_get m j' = None" by (force simp: bt_get_None)
  with 2 show ?case by auto
qed simp

lemma bt_wf_retain [simp]: "bt_wf m \<Longrightarrow> bt_wf (bt_retain P m)"
  by (induction m) (auto simp: bt_retain_def)

lemma bt_get_retain [simp]:
  "bt_wf m \<Longrightarrow> bt_get (bt_retain P m) j =
    (case bt_get m j of None \<Rightarrow> None | Some v \<Rightarrow> if P j v then Some v else None)"
proof (induction m)
  case Nil
  then show ?case by (simp add: bt_retain_def)
next
  case (Cons p m)
  then show ?case
    by (cases p) (auto simp: bt_retain_def bt_get_None split: option.splits)
qed

lemma fst_bt_map [simp]: "map fst (bt_map f m) = map fst m"
  by (simp add: bt_map_def case_prod_unfold)

lemma bt_wf_map [simp]: "bt_wf (bt_map f m) = bt_wf m"
  by (simp add: bt_wf_def)

lemma bt_get_map [simp]: "bt_get (bt_map f m) j = map_option (f j) (bt_get m j)"
  by (induction m j rule: bt_get.induct) (auto simp: bt_map_def)

interpretation bt: key_map bt_get bt_insert bt_remove bt_wf
  by unfold_locales simp_all

text \<open>A map is determined by its lookups: equal lookups of well-formed maps are equal maps.\<close>

lemma bt_eqI:
  assumes "bt_wf m" "bt_wf n" "\<And>k. bt_get m k = bt_get n k"
  shows "m = n"
proof (rule map_sorted_distinct_set_unique [where f = fst])
  have "set m = set n"
  proof (intro set_eqI)
    fix p :: "'a \<times> 'b"
    show "p \<in> set m \<longleftrightarrow> p \<in> set n"
      using bt_get_iff [OF assms(1), of "fst p" "snd p"] bt_get_iff [OF assms(2), of "fst p" "snd p"]
        assms(3) [of "fst p"] by simp
  qed
  then show "set m = set n" .
  show "sorted (map fst m)" "sorted (map fst n)"
    using assms(1,2) by (simp_all add: bt_wf_def strict_sorted_imp_sorted)
  show "distinct (map fst m)" "distinct (map fst n)"
    using assms(1,2) by (simp_all add: bt_wf_distinct)
  show "inj_on fst (set m \<union> set n)"
  proof (rule inj_onI)
    fix p q assume pq: "p \<in> set m \<union> set n" "q \<in> set m \<union> set n" "fst p = fst q"
    with \<open>set m = set n\<close> have "p \<in> set m" "q \<in> set m" by auto
    then have "bt_get m (fst p) = Some (snd p)" "bt_get m (fst q) = Some (snd q)"
      using bt_get_iff [OF assms(1)] by simp_all
    with pq(3) show "p = q" by (simp add: prod_eq_iff)
  qed
qed

end
