(* ===== verification/Supervisor_Types.thy ===== *)
theory Supervisor_Types
  imports BTreeMap
begin

text \<open>
  The vocabulary of the connection supervisor
  (\<^verbatim>\<open>citadel-internal-service/src/kernel/supervisor/types.rs\<close> and \<^verbatim>\<open>policy.rs\<close>): its
  clock, what goes into its core and what comes out, and every number it decides by.
\<close>

section \<open>The supervisor's clock\<close>

text \<open>
  \<^verbatim>\<open>Millis\<close> is a \<^verbatim>\<open>u64\<close> of milliseconds. \<^verbatim>\<open>after\<close> saturates the wait and the sum at
  \<^verbatim>\<open>u64::MAX\<close>; \<^verbatim>\<open>since\<close> is a saturating difference, as truncating subtraction is.
\<close>

definition after :: "millis \<Rightarrow> duration \<Rightarrow> millis" where
  "after t wait = sat_add u64_max t (min u64_max (as_millis wait))"

definition since :: "millis \<Rightarrow> millis \<Rightarrow> duration" where
  "since t earlier = from_millis (t - earlier)"

section \<open>Inputs, commands and events\<close>

datatype p2p_path_report = Direct | Turn | ServerRelay

datatype link_status = Up | Reconnecting | Ended

datatype probe_outcome = ProbeOk duration | ProbeTimeout | ProbeError

datatype dial_outcome = Connected | Failed | InProgress

datatype sup_input =
    Tick millis
  | NetworkChanged millis
  | ServerProbe millis probe_outcome
  | ServerLink millis link_status
  | ForceFailed millis
  | PeerLost millis cid
  | PeerReleased millis cid
  | PeerUp millis cid p2p_path_report
  | PeerReachable millis cid
  | PeerPath millis cid p2p_path_report
  | DialResult millis cid dial_outcome
  | Backlog cid nat
  | Interest cid millis

datatype heal_cause = LinkLost | ProbesMissed

datatype supervisor_event =
    Healing heal_cause
  | Healed
  | PeerDialing cid
  | PeerRestored cid p2p_path_report
  | Degraded cid

datatype sup_command =
    ProbeServer
  | ForceReconnect
  | RebindTransports
  | DialPeer cid
  | UpgradePath cid bool
  | Report supervisor_event

text \<open>What windows are told: the peer it is about, if any, and the state.\<close>

datatype supervisor_state = StHealing | StHealed | StDegraded

fun wire :: "supervisor_event \<Rightarrow> cid option \<times> supervisor_state" where
  "wire (Healing _) = (None, StHealing)"
| "wire Healed = (None, StHealed)"
| "wire (PeerDialing p) = (Some p, StHealing)"
| "wire (PeerRestored p _) = (Some p, StHealed)"
| "wire (Degraded p) = (Some p, StDegraded)"

section \<open>The policy\<close>

record backoff =
  b_initial :: duration
  b_max :: duration

record supervisor_policy =
  probe_interval :: duration
  probe_timeout :: duration
  missed_probes :: nat
  dial_backoff :: backoff
  unreachable_after :: nat
  unreachable_backoff :: backoff
  upgrade_backoff :: backoff
  stable_after :: duration
  redial_window :: duration
  interest_ceiling :: duration
  backlog_poll :: duration
  jitter_seed :: "64 word"
  jitter_permille :: nat
  dial_peers :: bool

definition AGENT_SUPERVISOR :: supervisor_policy where
  "AGENT_SUPERVISOR = \<lparr>
     probe_interval = from_secs 15,
     probe_timeout = from_secs 5,
     missed_probes = 2,
     dial_backoff = \<lparr>b_initial = from_secs 1, b_max = from_secs 30\<rparr>,
     unreachable_after = 3,
     unreachable_backoff = \<lparr>b_initial = from_secs 60, b_max = from_secs 900\<rparr>,
     upgrade_backoff = \<lparr>b_initial = from_secs 5, b_max = from_secs 300\<rparr>,
     stable_after = from_secs 60,
     redial_window = from_secs 600,
     interest_ceiling = from_secs 120,
     backlog_poll = from_secs 2,
     jitter_seed = 0x9E3779B97F4A7C15,
     jitter_permille = 250,
     dial_peers = True\<rparr>"

section \<open>Laws of the clock\<close>

lemma after_le [simp]: "after t w \<le> u64_max"
  by (simp add: after_def)

lemma after_ge: "t \<le> u64_max \<Longrightarrow> t \<le> after t w"
  by (simp add: after_def sat_add_ge)

lemma after_gt: "t < u64_max \<Longrightarrow> 0 < as_millis w \<Longrightarrow> t < after t w"
  by (simp add: after_def sat_add_def u64_max_def)

lemma after_mono: "w \<le> w' \<Longrightarrow> after t w \<le> after t w'"
  unfolding after_def by (intro sat_add_mono min.mono order_refl as_millis_mono)

lemma since_zero [simp]: "t \<le> e \<Longrightarrow> since t e = 0"
  by (simp add: since_def from_millis_def)

lemma since_mono: "t \<le> t' \<Longrightarrow> since t e \<le> since t' e"
  by (simp add: since_def from_millis_def diff_le_mono)

text \<open>
  Reading back the time that passed since a moment \<^verbatim>\<open>after\<close> gives: a wait of whole
  milliseconds that did not saturate is read back exactly.
\<close>

lemma since_after:
  assumes "t + ms \<le> u64_max"
  shows "since (after t (from_millis ms)) t = from_millis ms"
proof -
  have "min u64_max ms = ms" using assms by simp
  with assms show ?thesis by (simp add: after_def since_def sat_add_exact)
qed

end
