(* ===== verification/Supervisor_Core.thy ===== *)
theory Supervisor_Core
  imports Supervisor_Types
begin

text \<open>
  The supervisor's decisions as the code has them, a deterministic state machine
  (\<^verbatim>\<open>kernel/supervisor/core/mod.rs\<close>, \<^verbatim>\<open>peer.rs\<close>, \<^verbatim>\<open>handlers.rs\<close>, \<^verbatim>\<open>link.rs\<close>,
  \<^verbatim>\<open>drive.rs\<close>): one definition per method of \<^verbatim>\<open>Core\<close>, composed as \<^verbatim>\<open>step\<close> composes
  them. A method that mutates \<^verbatim>\<open>self\<close> returns the new core; the commands are returned
  beside it. \<^term>\<open>None\<close> is an arithmetic panic, which only the jitter of a policy with more
  than 1000 permille and a counter at its limit can cause (\<^verbatim>\<open>Supervisor_Props\<close> shows
  that a sane policy never does).
\<close>

unbundle bit_operations_syntax

section \<open>One peer, and the backoff arithmetic (core/peer.rs)\<close>

record retry =
  r_attempts :: nat
  r_next_at :: millis
  r_in_flight :: bool

definition retry_new :: "millis \<Rightarrow> retry" where
  "retry_new t = \<lparr>r_attempts = 0, r_next_at = t, r_in_flight = False\<rparr>"

record peer =
  p_connected :: bool
  p_path :: "p2p_path_report option"
  p_since :: "millis option"
  p_lost_at :: "millis option"
  p_backlog :: nat
  p_interest_until :: "millis option"
  p_dial :: retry
  p_failed_dials :: nat
  p_upgrade :: retry
  p_dialing_reported :: bool
  p_degraded_reported :: bool

definition peer_new :: "millis \<Rightarrow> peer" where
  "peer_new t = \<lparr>p_connected = False, p_path = None, p_since = None, p_lost_at = None,
     p_backlog = 0, p_interest_until = None, p_dial = retry_new t, p_failed_dials = 0,
     p_upgrade = retry_new t, p_dialing_reported = False, p_degraded_reported = False\<rparr>"

definition has_interest :: "peer \<Rightarrow> millis \<Rightarrow> bool" where
  "has_interest e t \<longleftrightarrow> is_some_and (p_interest_until e) (\<lambda>until. until > t)"

definition in_use :: "peer \<Rightarrow> millis \<Rightarrow> bool" where
  "in_use e t \<longleftrightarrow> p_backlog e > 0 \<or> has_interest e t"

definition wanted :: "peer \<Rightarrow> millis \<Rightarrow> duration \<Rightarrow> bool" where
  "wanted e t window \<longleftrightarrow> in_use e t \<or> is_some_and (p_lost_at e) (\<lambda>lost. since t lost < window)"

definition on_relay :: "peer \<Rightarrow> bool" where
  "on_relay e \<longleftrightarrow> p_connected e \<and> p_path e = Some ServerRelay"

type_synonym rng = "64 word"

definition rng_seeded :: "64 word \<Rightarrow> cid \<Rightarrow> rng" where
  "rng_seeded seed c = seed XOR c"

text \<open>splitmix64: the new state and the number drawn; word arithmetic wraps.\<close>

definition rng_next :: "rng \<Rightarrow> rng \<times> 64 word" where
  "rng_next s =
     (let s' = s + 0x9E3779B97F4A7C15;
          z = s';
          z = (z XOR drop_bit 30 z) * 0xBF58476D1CE4E5B9;
          z = (z XOR drop_bit 27 z) * 0x94D049BB133111EB
      in (s', z XOR drop_bit 31 z))"

text \<open>The draw below \<^verbatim>\<open>span\<close>: no number is drawn when the span is empty.\<close>

definition rng_cut :: "rng \<Rightarrow> nat \<Rightarrow> rng \<times> nat" where
  "rng_cut r span =
     (if span = 0 then (r, 0) else (let (r', z) = rng_next r in (r', unat z mod span)))"

definition backoff_millis :: "backoff \<Rightarrow> nat \<Rightarrow> nat" where
  "backoff_millis b attempts =
     (let doubled = sat_mul duration_max (b_initial b) (shl_or_max attempts);
          capped = min doubled (b_max b)
      in min u64_max (as_millis capped))"

definition delay :: "rng \<Rightarrow> backoff \<Rightarrow> nat \<Rightarrow> nat \<Rightarrow> (rng \<times> duration) option" where
  "delay r b attempts permille =
     (let ms = backoff_millis b attempts;
          span = sat_mul u64_max ms permille div 1000;
          (r', cut) = rng_cut r span
      in do { d \<leftarrow> checked_sub ms cut; Some (r', from_millis d) })"

section \<open>The core's state (core/mod.rs)\<close>

record probe =
  pb_next_at :: "millis option"
  pb_in_flight :: bool
  pb_missed :: nat
  pb_recheck :: bool

definition probe_default :: probe where
  "probe_default = \<lparr>pb_next_at = None, pb_in_flight = False, pb_missed = 0, pb_recheck = False\<rparr>"

record core =
  c_policy :: supervisor_policy
  c_link :: link_status
  c_now :: millis
  c_probe :: probe
  c_peers :: "(cid, peer) btree"
  c_rng :: rng
  c_healing :: bool
  c_forcing :: bool
  c_after_change :: bool

type_synonym stepped = "(core \<times> sup_command list) option"

definition core_new :: "supervisor_policy \<Rightarrow> cid \<Rightarrow> core" where
  "core_new pol c = \<lparr>c_policy = pol, c_link = Up, c_now = 0, c_probe = probe_default,
     c_peers = [], c_rng = rng_seeded (jitter_seed pol) c, c_healing = False,
     c_forcing = False, c_after_change = False\<rparr>"

text \<open>\<^verbatim>\<open>Core::peer\<close>: the entry of a peer, made as of the last time seen when there is none.\<close>

definition peer_entry :: "core \<Rightarrow> cid \<Rightarrow> peer" where
  "peer_entry c p = (case bt_get (c_peers c) p of Some e \<Rightarrow> e | None \<Rightarrow> peer_new (c_now c))"

definition put_peer :: "core \<Rightarrow> cid \<Rightarrow> peer \<Rightarrow> core" where
  "put_peer c p e = c\<lparr>c_peers := bt_insert p e (c_peers c)\<rparr>"

section \<open>Peer inputs (core/handlers.rs)\<close>

definition settle_entry :: "supervisor_policy \<Rightarrow> millis \<Rightarrow> peer \<Rightarrow> peer" where
  "settle_entry pol t e =
     (let held = p_connected e \<and> is_some_and (p_since e) (\<lambda>s. since t s \<ge> stable_after pol)
      in if held \<and> p_path e \<noteq> Some ServerRelay
         then e\<lparr>p_upgrade := (p_upgrade e)\<lparr>r_attempts := 0\<rparr>\<rparr> else e)"

definition settle :: "core \<Rightarrow> millis \<Rightarrow> core" where
  "settle c t = c\<lparr>c_peers := bt_map (\<lambda>_. settle_entry (c_policy c) t) (c_peers c)\<rparr>"

definition lost_entry :: "supervisor_policy \<Rightarrow> millis \<Rightarrow> rng \<Rightarrow> peer \<Rightarrow> (rng \<times> peer) option" where
  "lost_entry pol t r e = do {
     (r, e) \<leftarrow>
       (if p_connected e then
          (if is_some_and (p_since e) (\<lambda>s. since t s \<ge> stable_after pol) then
             Some (r, e\<lparr>p_dial := (p_dial e)\<lparr>r_attempts := 0, r_next_at := t\<rparr>,
                        p_lost_at := Some t\<rparr>)
           else do {
             (r, w) \<leftarrow> delay r (dial_backoff pol) (r_attempts (p_dial e)) (jitter_permille pol);
             Some (r, e\<lparr>p_dial := (p_dial e)\<lparr>r_next_at := after t w,
                                       r_attempts := sat_add u32_max (r_attempts (p_dial e)) 1\<rparr>,
                        p_lost_at := Some t\<rparr>) })
        else Some (r, e));
     Some (r, e\<lparr>p_connected := False, p_path := None, p_since := None,
                p_dial := (p_dial e)\<lparr>r_in_flight := False\<rparr>\<rparr>) }"

definition lost :: "core \<Rightarrow> cid \<Rightarrow> millis \<Rightarrow> core option" where
  "lost c p t = do {
     (r, e) \<leftarrow> lost_entry (c_policy c) t (c_rng c) (peer_entry c p);
     Some ((put_peer c p e)\<lparr>c_rng := r\<rparr>) }"

definition released :: "core \<Rightarrow> cid \<Rightarrow> millis \<Rightarrow> core option" where
  "released c p t = do {
     c \<leftarrow> lost c p t;
     Some (put_peer c p ((peer_entry c p)\<lparr>p_lost_at := None, p_interest_until := None\<rparr>)) }"

definition reachable :: "core \<Rightarrow> cid \<Rightarrow> millis \<Rightarrow> core" where
  "reachable c p t =
     (let e = peer_entry c p;
          e = e\<lparr>p_failed_dials := 0, p_dial := (p_dial e)\<lparr>r_attempts := 0\<rparr>\<rparr>;
          e = (if \<not> p_connected e then e\<lparr>p_dial := (p_dial e)\<lparr>r_next_at := t\<rparr>\<rparr> else e)
      in put_peer c p e)"

definition path_changed :: "core \<Rightarrow> cid \<Rightarrow> p2p_path_report \<Rightarrow> millis \<Rightarrow> core option" where
  "path_changed c p path t =
     (let pol = c_policy c; e = peer_entry c p; was_relay = on_relay e;
          e = e\<lparr>p_path := Some path\<rparr>
      in if path = ServerRelay \<and> \<not> was_relay then do {
           (r, w) \<leftarrow> delay (c_rng c) (upgrade_backoff pol) (r_attempts (p_upgrade e))
                       (jitter_permille pol);
           Some ((put_peer c p (e\<lparr>p_upgrade := (p_upgrade e)\<lparr>r_next_at := after t w\<rparr>\<rparr>))
                   \<lparr>c_rng := r\<rparr>) }
         else Some (put_peer c p e))"

definition up :: "core \<Rightarrow> cid \<Rightarrow> p2p_path_report \<Rightarrow> millis \<Rightarrow> stepped" where
  "up c p path t =
     (let e = peer_entry c p; restored = (p_lost_at e \<noteq> None);
          e = e\<lparr>p_connected := True, p_since := Some t,
                p_dial := (p_dial e)\<lparr>r_in_flight := False\<rparr>, p_failed_dials := 0,
                p_dialing_reported := False, p_degraded_reported := False, p_lost_at := None\<rparr>
      in do {
        c \<leftarrow> path_changed (put_peer c p e) p path t;
        Some (c, if restored then [Report (PeerRestored p path)] else []) })"

definition dial_wait :: "supervisor_policy \<Rightarrow> rng \<Rightarrow> peer \<Rightarrow> (rng \<times> duration) option" where
  "dial_wait pol r e =
     (if p_failed_dials e \<ge> unreachable_after pol then
        delay r (unreachable_backoff pol) (p_failed_dials e - unreachable_after pol)
          (jitter_permille pol)
      else delay r (dial_backoff pol) (r_attempts (p_dial e)) (jitter_permille pol))"

definition dialed :: "core \<Rightarrow> cid \<Rightarrow> dial_outcome \<Rightarrow> millis \<Rightarrow> stepped" where
  "dialed c p outcome t =
     (let pol = c_policy c; e = peer_entry c p;
          e = e\<lparr>p_dial := (p_dial e)\<lparr>r_in_flight := False\<rparr>\<rparr>
      in case outcome of
           Connected \<Rightarrow>
             (if p_connected e then Some (put_peer c p e, [])
              else up (put_peer c p e) p ServerRelay t)
         | InProgress \<Rightarrow> do {
             (r, w) \<leftarrow> delay (c_rng c) (dial_backoff pol) (r_attempts (p_dial e))
                         (jitter_permille pol);
             Some ((put_peer c p (e\<lparr>p_dial := (p_dial e)\<lparr>r_next_at := after t w\<rparr>\<rparr>))\<lparr>c_rng := r\<rparr>,
                   []) }
         | Failed \<Rightarrow>
             (let e = e\<lparr>p_failed_dials := sat_add u32_max (p_failed_dials e) 1\<rparr>
              in do {
                (r, w) \<leftarrow> dial_wait pol (c_rng c) e;
                Some ((put_peer c p
                        (e\<lparr>p_dial := (p_dial e)\<lparr>r_next_at := after t w,
                                    r_attempts := sat_add u32_max (r_attempts (p_dial e)) 1\<rparr>,
                           p_degraded_reported := True\<rparr>))\<lparr>c_rng := r\<rparr>,
                      if p_degraded_reported e then [] else [Report (Degraded p)]) }))"

section \<open>The server link (core/link.rs)\<close>

definition network_changed :: "core \<Rightarrow> core \<times> sup_command list" where
  "network_changed c =
     (let c = c\<lparr>c_probe := (c_probe c)\<lparr>pb_missed := 0\<rparr>, c_after_change := True\<rparr>
      in if c_link c = Up \<and> \<not> c_forcing c then
           (if pb_in_flight (c_probe c) then
              (c\<lparr>c_probe := (c_probe c)\<lparr>pb_recheck := True\<rparr>\<rparr>, [RebindTransports])
            else (c\<lparr>c_probe := (c_probe c)\<lparr>pb_in_flight := True\<rparr>\<rparr>,
                  [RebindTransports, ProbeServer]))
         else (c, [RebindTransports]))"

text \<open>
  \<^verbatim>\<open>rearm_relayed\<close>'s loop: the peers in key order, the generator threaded through, the
  relayed ones re-armed and each named in a command.
\<close>

fun rearm_peers ::
  "supervisor_policy \<Rightarrow> millis \<Rightarrow> rng \<Rightarrow> (cid, peer) btree \<Rightarrow>
     (rng \<times> (cid, peer) btree \<times> sup_command list) option" where
  "rearm_peers pol t r [] = Some (r, [], [])"
| "rearm_peers pol t r ((p, e) # ps) =
     (if on_relay e then do {
        (r, w) \<leftarrow> delay r (upgrade_backoff pol) 0 (jitter_permille pol);
        (r, ps, cs) \<leftarrow> rearm_peers pol t r ps;
        Some (r, (p, e\<lparr>p_upgrade := (p_upgrade e)\<lparr>r_attempts := 0, r_next_at := after t w\<rparr>\<rparr>) # ps,
              UpgradePath p True # cs) }
      else do {
        (r, ps, cs) \<leftarrow> rearm_peers pol t r ps;
        Some (r, (p, e) # ps, cs) })"

definition rearm_relayed :: "core \<Rightarrow> stepped" where
  "rearm_relayed c =
     (if \<not> c_after_change c then Some (c, [])
      else do {
        (r, ps, cs) \<leftarrow> rearm_peers (c_policy c) (c_now c) (c_rng c) (c_peers c);
        Some (c\<lparr>c_after_change := False, c_rng := r, c_peers := ps\<rparr>, cs) })"

definition probed :: "core \<Rightarrow> probe_outcome \<Rightarrow> stepped" where
  "probed c outcome =
     (let c = c\<lparr>c_probe := (c_probe c)\<lparr>pb_in_flight := False\<rparr>\<rparr>
      in if c_link c \<noteq> Up then Some (c, [])
         else if pb_recheck (c_probe c) then
           Some (c\<lparr>c_probe := (c_probe c)\<lparr>pb_recheck := False, pb_in_flight := True\<rparr>\<rparr>,
                 [ProbeServer])
         else case outcome of
           ProbeOk _ \<Rightarrow>
             (let c = c\<lparr>c_probe := (c_probe c)\<lparr>pb_missed := 0,
                          pb_next_at := Some (after (c_now c) (probe_interval (c_policy c)))\<rparr>\<rparr>
              in do {
                (c, cs) \<leftarrow> rearm_relayed c;
                Some (c\<lparr>c_healing := False\<rparr>, cs @ (if c_healing c then [Report Healed] else [])) })
         | ProbeError \<Rightarrow>
             Some (c\<lparr>c_probe := (c_probe c)\<lparr>
                      pb_next_at := Some (after (c_now c) (probe_interval (c_policy c)))\<rparr>\<rparr>, [])
         | ProbeTimeout \<Rightarrow> do {
             missed \<leftarrow> checked_add u32_max (pb_missed (c_probe c)) 1;
             if missed < missed_probes (c_policy c) then
               Some (c\<lparr>c_probe := (c_probe c)\<lparr>pb_missed := missed, pb_in_flight := True\<rparr>\<rparr>,
                     [ProbeServer])
             else
               Some (c\<lparr>c_probe := (c_probe c)\<lparr>pb_missed := 0\<rparr>, c_after_change := False,
                        c_forcing := True, c_healing := True\<rparr>,
                     ForceReconnect #
                       (if c_healing c then [] else [Report (Healing ProbesMissed)])) })"

fun lost_all :: "core \<Rightarrow> cid list \<Rightarrow> millis \<Rightarrow> core option" where
  "lost_all c [] t = Some c"
| "lost_all c (p # ps) t = do { c \<leftarrow> lost c p t; lost_all c ps t }"

definition lose_link :: "core \<Rightarrow> heal_cause \<Rightarrow> stepped" where
  "lose_link c cause =
     (let c = c\<lparr>c_link := Reconnecting, c_forcing := False, c_probe := probe_default\<rparr>;
          connected = map fst (filter (\<lambda>(_, e). p_connected e) (c_peers c))
      in do {
        c \<leftarrow> lost_all c connected (c_now c);
        Some (c\<lparr>c_healing := True\<rparr>,
              if c_healing c then [] else [Report (Healing cause)]) })"

definition link_changed :: "core \<Rightarrow> link_status \<Rightarrow> millis \<Rightarrow> stepped" where
  "link_changed c state t =
     (case state of
        Up \<Rightarrow>
          Some (c\<lparr>c_link := Up, c_forcing := False,
                   c_probe := probe_default\<lparr>
                     pb_next_at := Some (after t (probe_interval (c_policy c)))\<rparr>,
                   c_healing := False\<rparr>,
                if c_healing c then [Report Healed] else [])
      | Reconnecting \<Rightarrow> lose_link c LinkLost
      | Ended \<Rightarrow> Some (c\<lparr>c_link := Ended, c_peers := []\<rparr>, []))"

definition force_failed :: "core \<Rightarrow> millis \<Rightarrow> core" where
  "force_failed c t =
     c\<lparr>c_forcing := False,
       c_probe := probe_default\<lparr>
         pb_next_at := Some (after t (probe_interval (c_policy c)))\<rparr>\<rparr>"

section \<open>What is due now (core/drive.rs)\<close>

definition dial_due :: "supervisor_policy \<Rightarrow> millis \<Rightarrow> peer \<Rightarrow> bool" where
  "dial_due pol t e \<longleftrightarrow>
     dial_peers pol \<and> \<not> p_connected e \<and> \<not> r_in_flight (p_dial e) \<and>
     wanted e t (redial_window pol) \<and> r_next_at (p_dial e) \<le> t"

definition drive_peer ::
  "supervisor_policy \<Rightarrow> millis \<Rightarrow> cid \<Rightarrow> rng \<Rightarrow> peer \<Rightarrow>
     (rng \<times> peer \<times> sup_command list) option" where
  "drive_peer pol t p r e =
     (let (e, dials) =
            (if dial_due pol t e then
               (e\<lparr>p_dial := (p_dial e)\<lparr>r_in_flight := True\<rparr>, p_dialing_reported := True\<rparr>,
                (if p_dialing_reported e then [] else [Report (PeerDialing p)]) @ [DialPeer p])
             else (e, []))
      in if on_relay e \<and> in_use e t \<and> r_next_at (p_upgrade e) \<le> t then
           (let attempts = sat_add u32_max (r_attempts (p_upgrade e)) 1
            in do {
              (r, w) \<leftarrow> delay r (upgrade_backoff pol) attempts (jitter_permille pol);
              Some (r, e\<lparr>p_upgrade := (p_upgrade e)\<lparr>r_attempts := attempts,
                                                 r_next_at := after t w\<rparr>\<rparr>,
                    dials @ [UpgradePath p True]) })
         else Some (r, e, dials))"

fun drive_peers ::
  "supervisor_policy \<Rightarrow> millis \<Rightarrow> rng \<Rightarrow> (cid, peer) btree \<Rightarrow>
     (rng \<times> (cid, peer) btree \<times> sup_command list) option" where
  "drive_peers pol t r [] = Some (r, [], [])"
| "drive_peers pol t r ((p, e) # ps) = do {
     (r, e, cs) \<leftarrow> drive_peer pol t p r e;
     (r, ps, cs') \<leftarrow> drive_peers pol t r ps;
     Some (r, (p, e) # ps, cs @ cs') }"

definition drive :: "core \<Rightarrow> millis \<Rightarrow> stepped" where
  "drive c t =
     (if c_link c \<noteq> Up \<or> c_forcing c then Some (c, [])
      else
        (let armed = (case pb_next_at (c_probe c) of
                        Some at \<Rightarrow> at
                      | None \<Rightarrow> after t (probe_interval (c_policy c)));
             pb = (c_probe c)\<lparr>pb_next_at := Some armed\<rparr>;
             fire = (\<not> pb_in_flight pb \<and> armed \<le> t);
             pb = (if fire then pb\<lparr>pb_in_flight := True\<rparr> else pb)
         in do {
           (r, ps, cs) \<leftarrow> drive_peers (c_policy c) t (c_rng c) (c_peers c);
           Some (c\<lparr>c_probe := pb, c_peers := ps, c_rng := r\<rparr>,
                 (if fire then [ProbeServer] else []) @ cs) }))"

definition peer_wakes :: "core \<Rightarrow> peer \<Rightarrow> millis list" where
  "peer_wakes c e =
     (if dial_peers (c_policy c) \<and> \<not> p_connected e \<and> \<not> r_in_flight (p_dial e) \<and>
         wanted e (c_now c) (redial_window (c_policy c))
      then [r_next_at (p_dial e)] else []) @
     (if on_relay e \<and> in_use e (c_now c) then [r_next_at (p_upgrade e)] else [])"

definition wakes :: "core \<Rightarrow> millis list" where
  "wakes c =
     (if \<not> pb_in_flight (c_probe c)
      then (case pb_next_at (c_probe c) of Some t \<Rightarrow> [t] | None \<Rightarrow> []) else []) @
     concat (map (\<lambda>(_, e). peer_wakes c e) (c_peers c))"

definition next_wake :: "core \<Rightarrow> millis option" where
  "next_wake c =
     (if c_link c \<noteq> Up \<or> c_forcing c then None
      else case wakes c of [] \<Rightarrow> None | t # ts \<Rightarrow> Some (fold min ts t))"

section \<open>One input (handlers.rs, handle; mod.rs, step)\<close>

definition handle :: "core \<Rightarrow> sup_input \<Rightarrow> millis \<Rightarrow> stepped" where
  "handle c input t =
     (case input of
        Tick _ \<Rightarrow> Some (settle c t, [])
      | NetworkChanged _ \<Rightarrow> Some (network_changed c)
      | ServerProbe _ outcome \<Rightarrow> probed c outcome
      | ServerLink _ state \<Rightarrow> link_changed c state t
      | ForceFailed _ \<Rightarrow> Some (force_failed c t, [])
      | PeerLost _ p \<Rightarrow> map_option (\<lambda>c. (c, [])) (lost c p t)
      | PeerReleased _ p \<Rightarrow> map_option (\<lambda>c. (c, [])) (released c p t)
      | PeerUp _ p path \<Rightarrow> up c p path t
      | PeerReachable _ p \<Rightarrow> Some (reachable c p t, [])
      | PeerPath _ p path \<Rightarrow> map_option (\<lambda>c. (c, [])) (path_changed c p path t)
      | DialResult _ p outcome \<Rightarrow> dialed c p outcome t
      | Backlog p pending \<Rightarrow>
          Some (put_peer c p ((peer_entry c p)\<lparr>p_backlog := pending\<rparr>), [])
      | Interest p until \<Rightarrow>
          (let e = peer_entry c p
           in Some (put_peer c p (e\<lparr>p_interest_until :=
                      Some (case p_interest_until e of None \<Rightarrow> until | Some had \<Rightarrow> max had until)\<rparr>),
                    [])))"

fun input_time :: "core \<Rightarrow> sup_input \<Rightarrow> millis" where
  "input_time c (Tick t) = t"
| "input_time c (NetworkChanged t) = t"
| "input_time c (ServerProbe t _) = t"
| "input_time c (ServerLink t _) = t"
| "input_time c (ForceFailed t) = t"
| "input_time c (PeerLost t _) = t"
| "input_time c (PeerReleased t _) = t"
| "input_time c (PeerUp t _ _) = t"
| "input_time c (PeerReachable t _) = t"
| "input_time c (PeerPath t _ _) = t"
| "input_time c (DialResult t _ _) = t"
| "input_time c (Backlog _ _) = c_now c"
| "input_time c (Interest _ _) = c_now c"

definition step :: "core \<Rightarrow> sup_input \<Rightarrow> stepped" where
  "step c input =
     (if c_link c = Ended then Some (c, [])
      else
        (let t = input_time c input; c = c\<lparr>c_now := t\<rparr>
         in do {
           (c, cs) \<leftarrow> handle c input t;
           (c, cs') \<leftarrow> drive c t;
           Some (c, cs @ cs') }))"

text \<open>A whole run: the inputs in order, the commands of every step in order.\<close>

fun run :: "core \<Rightarrow> sup_input list \<Rightarrow> stepped" where
  "run c [] = Some (c, [])"
| "run c (i # is) = do {
     (c, cs) \<leftarrow> step c i;
     (c, cs') \<leftarrow> run c is;
     Some (c, cs @ cs') }"

text \<open>The definitions a concrete run is evaluated by.\<close>

lemmas core_eval = step_def core_new_def handle_def peer_entry_def put_peer_def drive_def
  drive_peer_def dial_due_def wanted_def in_use_def has_interest_def AGENT_SUPERVISOR_def
  probe_default_def peer_new_def retry_new_def on_relay_def after_def since_def from_millis_def
  from_secs_def as_millis_def u64_max_def u32_max_def sat_add_def sat_mul_def probed_def
  rearm_relayed_def settle_def settle_entry_def bt_map_def checked_add_def checked_sub_def
  dialed_def dial_wait_def delay_def backoff_millis_def shl_or_max_def duration_max_def
  rng_cut_def rng_next_def rng_seeded_def

end
