(* ===== verification/Supervisor_Frame.thy ===== *)
theory Supervisor_Frame
  imports Supervisor_Core
begin

text \<open>
  The library under the supervisor's properties: the bounds of the jittered backoff, and for
  every method of the core what it changes and what it leaves alone.
\<close>

section \<open>The jittered backoff\<close>

lemma rng_cut_le: "rng_cut r n = (r', x) \<Longrightarrow> x \<le> n"
  by (auto simp: rng_cut_def split: if_splits prod.splits)

lemma rng_cut_less: "rng_cut r n = (r', x) \<Longrightarrow> 0 < n \<Longrightarrow> x < n"
  by (auto simp: rng_cut_def split: if_splits prod.splits)

lemma span_le: "jp \<le> 1000 \<Longrightarrow> sat_mul u64_max ms jp div 1000 \<le> ms"
proof -
  assume "jp \<le> 1000"
  then have "ms * jp \<le> ms * 1000" by (rule mult_le_mono2)
  then have "ms * jp div 1000 \<le> ms" by (simp add: div_le_mono [of _ "ms * 1000" 1000, simplified])
  then show ?thesis by (simp add: sat_mul_def div_le_mono le_trans [OF div_le_mono])
qed

lemma delay_SomeE:
  assumes "delay r b a jp = Some (r', d)"
  obtains cut where "rng_cut r (sat_mul u64_max (backoff_millis b a) jp div 1000) = (r', cut)"
    and "cut \<le> backoff_millis b a" and "d = from_millis (backoff_millis b a - cut)"
  using assms by (auto simp: delay_def Let_def split: prod.splits)

lemma delay_total:
  assumes "jp \<le> 1000"
  shows "\<exists>r' d. delay r b a jp = Some (r', d)"
proof -
  obtain r' cut where cut: "rng_cut r (sat_mul u64_max (backoff_millis b a) jp div 1000) = (r', cut)"
    by fastforce
  from rng_cut_le [OF cut] span_le [OF assms] have "cut \<le> backoff_millis b a"
    by (rule le_trans)
  with cut show ?thesis by (simp add: delay_def Let_def)
qed

lemma backoff_millis_le: "from_millis (backoff_millis b a) \<le> b_max b"
  by (simp add: backoff_millis_def from_millis_le_iff Let_def min.coboundedI2 as_millis_mono)

lemma delay_le_millis: "delay r b a jp = Some (r', d) \<Longrightarrow> as_millis d \<le> backoff_millis b a"
  by (auto elim!: delay_SomeE)

lemma delay_le_max: "delay r b a jp = Some (r', d) \<Longrightarrow> d \<le> b_max b"
  by (auto elim!: delay_SomeE intro!: le_trans [OF _ backoff_millis_le [of b a]] from_millis_mono)

lemma delay_pos:
  assumes d: "delay r b a jp = Some (r', d)" and "jp \<le> 1000" and pos: "0 < backoff_millis b a"
  shows "0 < as_millis d"
proof -
  let ?span = "sat_mul u64_max (backoff_millis b a) jp div 1000"
  from d obtain cut where cut: "rng_cut r ?span = (r', cut)"
      and dd: "d = from_millis (backoff_millis b a - cut)"
    by (rule delay_SomeE)
  have "cut < backoff_millis b a"
  proof (cases "?span = 0")
    case True
    with cut pos show ?thesis by (simp add: rng_cut_def)
  next
    case False
    with rng_cut_less [OF cut] span_le [OF assms(2), of "backoff_millis b a"] show ?thesis by simp
  qed
  with dd show ?thesis by simp
qed

text \<open>Jitter removes at most its fraction: the rest of the backoff is always waited.\<close>

lemma delay_lower:
  assumes d: "delay r b a jp = Some (r', d)"
  shows "backoff_millis b a * (1000 - jp) \<le> as_millis d * 1000"
proof -
  let ?ms = "backoff_millis b a"
  from d obtain cut where cut: "rng_cut r (sat_mul u64_max ?ms jp div 1000) = (r', cut)"
      and "cut \<le> ?ms" and dd: "d = from_millis (?ms - cut)"
    by (rule delay_SomeE)
  have "cut * 1000 \<le> (sat_mul u64_max ?ms jp div 1000) * 1000"
    using rng_cut_le [OF cut] by simp
  also have "\<dots> \<le> sat_mul u64_max ?ms jp" by simp
  also have "\<dots> \<le> ?ms * jp" by (simp add: sat_mul_def)
  finally have "cut * 1000 \<le> ?ms * jp" .
  then have "?ms * 1000 - ?ms * jp \<le> ?ms * 1000 - cut * 1000" by (rule diff_le_mono2)
  then show ?thesis by (simp add: dd diff_mult_distrib diff_mult_distrib2)
qed

section \<open>What each method leaves alone\<close>

text \<open>
  \<^verbatim>\<open>peers_only\<close>: only the peer table and the generator changed. \<^verbatim>\<open>touches p\<close>: moreover,
  only the entry of \<^verbatim>\<open>p\<close>, and the table's invariant is kept. Every peer input is of the
  second kind.
\<close>

definition peer_inv :: "peer \<Rightarrow> bool" where
  "peer_inv e \<longleftrightarrow>
     (p_connected e \<longrightarrow>
        \<not> r_in_flight (p_dial e) \<and> p_since e \<noteq> None \<and> p_path e \<noteq> None \<and> p_lost_at e = None)"

definition peers_inv :: "(cid, peer) btree \<Rightarrow> bool" where
  "peers_inv ps \<longleftrightarrow> bt_wf ps \<and> (\<forall>(_, e) \<in> set ps. peer_inv e)"

definition peers_only :: "core \<Rightarrow> core \<Rightarrow> bool" where
  "peers_only c c' \<longleftrightarrow>
     c_policy c' = c_policy c \<and> c_link c' = c_link c \<and> c_now c' = c_now c \<and>
     c_probe c' = c_probe c \<and> c_healing c' = c_healing c \<and> c_forcing c' = c_forcing c \<and>
     c_after_change c' = c_after_change c"

definition touches :: "cid \<Rightarrow> core \<Rightarrow> core \<Rightarrow> bool" where
  "touches p c c' \<longleftrightarrow>
     peers_only c c' \<and>
     (peers_inv (c_peers c) \<longrightarrow> peers_inv (c_peers c')) \<and>
     (bt_wf (c_peers c) \<longrightarrow>
        bt_wf (c_peers c') \<and> (\<forall>q. q \<noteq> p \<longrightarrow> bt_get (c_peers c') q = bt_get (c_peers c) q))"

named_theorems frame \<open>fields a method leaves alone\<close>

lemma peers_only_fields [frame]:
  assumes "peers_only c c'"
  shows "c_policy c' = c_policy c" "c_link c' = c_link c" "c_now c' = c_now c"
    "c_probe c' = c_probe c" "c_healing c' = c_healing c" "c_forcing c' = c_forcing c"
    "c_after_change c' = c_after_change c"
  using assms by (simp_all add: peers_only_def)

lemma peers_only_refl [simp]: "peers_only c c"
  by (simp add: peers_only_def)

lemma peers_only_update [simp]:
  "peers_only c (c\<lparr>c_peers := ps\<rparr>)" "peers_only c (c\<lparr>c_peers := ps, c_rng := r\<rparr>)"
  "peers_only c (c\<lparr>c_rng := r, c_peers := ps\<rparr>)"
  by (simp_all add: peers_only_def)

lemma peers_only_put [simp]: "peers_only c (put_peer c p e)"
  "peers_only c ((put_peer c p e)\<lparr>c_rng := r\<rparr>)"
  by (simp_all add: put_peer_def peers_only_def)

lemma peers_only_trans: "peers_only c d \<Longrightarrow> peers_only d e \<Longrightarrow> peers_only c e"
  by (simp add: peers_only_def)

lemma touches_trans: "touches p c d \<Longrightarrow> touches p d e \<Longrightarrow> touches p c e"
  unfolding touches_def by (auto intro: peers_only_trans)

lemma touches_only: "touches p c c' \<Longrightarrow> peers_only c c'"
  by (simp add: touches_def)

lemma peers_inv_insert [simp]:
  "peers_inv ps \<Longrightarrow> peer_inv e \<Longrightarrow> peers_inv (bt_insert p e ps)"
  by (auto simp: peers_inv_def dest!: bt_insert_set)

lemma peers_inv_get: "peers_inv ps \<Longrightarrow> bt_get ps p = Some e \<Longrightarrow> peer_inv e"
  by (auto simp: peers_inv_def dest!: bt_get_SomeD)

lemma peers_invI:
  "bt_wf ps \<Longrightarrow> (\<And>p e. bt_get ps p = Some e \<Longrightarrow> peer_inv e) \<Longrightarrow> peers_inv ps"
  by (auto simp: peers_inv_def bt_get_iff)

lemma peers_inv_wf: "peers_inv ps \<Longrightarrow> bt_wf ps"
  by (simp add: peers_inv_def)

lemma same_keys_get:
  "map fst ps' = map fst ps \<Longrightarrow> bt_get ps' p = Some e' \<Longrightarrow> \<exists>e. bt_get ps p = Some e"
  by (metis bt_get_None not_None_eq list.set_map)

lemma peer_inv_new [simp]: "peer_inv (peer_new t)"
  by (simp add: peer_inv_def peer_new_def)

lemma peer_inv_entry [simp]: "peers_inv (c_peers c) \<Longrightarrow> peer_inv (peer_entry c p)"
  by (auto simp: peer_entry_def peers_inv_get split: option.splits)

lemma touches_put:
  "(peer_inv (peer_entry c p) \<Longrightarrow> peer_inv e) \<Longrightarrow> touches p c ((put_peer c p e)\<lparr>c_rng := r\<rparr>)"
  "(peer_inv (peer_entry c p) \<Longrightarrow> peer_inv e) \<Longrightarrow> touches p c (put_peer c p e)"
  by (simp_all add: touches_def put_peer_def)

lemma entry_put [simp]: "bt_wf (c_peers c) \<Longrightarrow> peer_entry (put_peer c p e) p = e"
  "bt_wf (c_peers c) \<Longrightarrow> peer_entry ((put_peer c p e)\<lparr>c_rng := r\<rparr>) p = e"
  by (simp_all add: peer_entry_def put_peer_def)

lemma put_put [simp]: "put_peer (put_peer c p e) p e' = put_peer c p e'"
  by (simp add: put_peer_def)

lemma lost_entry_effect:
  assumes "lost_entry pol t r e = Some (r', e')"
  shows "\<not> p_connected e'" "\<not> r_in_flight (p_dial e')" "p_backlog e' = p_backlog e"
    "p_interest_until e' = p_interest_until e"
    "p_lost_at e' = (if p_connected e then Some t else p_lost_at e)"
  using assms by (auto simp: lost_entry_def split: if_splits)

lemma lost_touches: "lost c p t = Some c' \<Longrightarrow> touches p c c'"
  by (auto simp: lost_def peer_inv_def dest: lost_entry_effect(1) intro!: touches_put)

lemma reachable_touches: "touches p c (reachable c p t)"
  unfolding reachable_def Let_def by (rule touches_put) (simp add: peer_inv_def)

lemma path_changed_touches: "path_changed c p path t = Some c' \<Longrightarrow> touches p c c'"
  by (auto simp: path_changed_def Let_def peer_inv_def split: if_splits intro!: touches_put)

lemma released_touches:
  assumes "released c p t = Some c'"
  shows "touches p c c'"
proof -
  from assms obtain d where d: "lost c p t = Some d"
    and c': "c' = put_peer d p ((peer_entry d p)\<lparr>p_lost_at := None, p_interest_until := None\<rparr>)"
    by (auto simp: released_def)
  have "touches p d c'" unfolding c' by (rule touches_put) (simp add: peer_inv_def)
  with lost_touches [OF d] show ?thesis by (rule touches_trans)
qed

lemma path_changed_shape:
  assumes "path_changed c p path t = Some c'"
  shows "\<exists>u r. c' = (put_peer c p ((peer_entry c p)\<lparr>p_path := Some path, p_upgrade := u\<rparr>))
                    \<lparr>c_rng := r\<rparr>"
proof (cases "path = ServerRelay \<and> \<not> on_relay (peer_entry c p)")
  case True
  with assms show ?thesis by (auto simp: path_changed_def Let_def)
next
  case False
  with assms have "c' = put_peer c p ((peer_entry c p)\<lparr>p_path := Some path\<rparr>)"
    by (auto simp: path_changed_def Let_def split: if_splits)
  then have "c' = (put_peer c p ((peer_entry c p)\<lparr>p_path := Some path,
      p_upgrade := p_upgrade (peer_entry c p)\<rparr>))\<lparr>c_rng := c_rng c\<rparr>"
    by (cases c, cases "peer_entry c p") (simp add: put_peer_def)
  then show ?thesis by blast
qed

text \<open>The entry \<^verbatim>\<open>up\<close> writes before the path is recorded.\<close>

definition up_entry :: "peer \<Rightarrow> millis \<Rightarrow> peer" where
  "up_entry e t = e\<lparr>p_connected := True, p_since := Some t,
     p_dial := (p_dial e)\<lparr>r_in_flight := False\<rparr>, p_failed_dials := 0,
     p_dialing_reported := False, p_degraded_reported := False, p_lost_at := None\<rparr>"

lemma up_eq:
  "up c p path t = do {
     c' \<leftarrow> path_changed (put_peer c p (up_entry (peer_entry c p) t)) p path t;
     Some (c', if p_lost_at (peer_entry c p) \<noteq> None then [Report (PeerRestored p path)] else []) }"
  by (simp add: up_def up_entry_def Let_def)

lemma up_shape:
  assumes "up c p path t = Some (c', cs)" and "bt_wf (c_peers c)"
  shows "\<exists>u r. c' = (put_peer c p
             ((up_entry (peer_entry c p) t)\<lparr>p_path := Some path, p_upgrade := u\<rparr>))\<lparr>c_rng := r\<rparr> \<and>
           cs = (if p_lost_at (peer_entry c p) \<noteq> None then [Report (PeerRestored p path)] else [])"
proof -
  from assms(1) obtain d where d: "path_changed (put_peer c p (up_entry (peer_entry c p) t)) p path t = Some d"
    and "c' = d" "cs = (if p_lost_at (peer_entry c p) \<noteq> None then [Report (PeerRestored p path)] else [])"
    by (auto simp: up_eq simp del: split_paired_Ex)
  with path_changed_shape [OF d] assms(2) show ?thesis by simp
qed

lemma up_peers_only:
  assumes "up c p path t = Some (c', cs)"
  shows "peers_only c c'"
proof -
  from assms have "path_changed (put_peer c p (up_entry (peer_entry c p) t)) p path t = Some c'"
    by (auto simp: up_eq)
  then show ?thesis
    by (rule peers_only_trans [OF peers_only_put(1) path_changed_touches [THEN touches_only]])
qed

lemma up_touches: "up c p path t = Some (c', cs) \<Longrightarrow> touches p c c'"
  unfolding touches_def
proof (intro conjI impI)
  assume up: "up c p path t = Some (c', cs)"
  then show "peers_only c c'" by (rule up_peers_only)
  show "peers_inv (c_peers c')" if "peers_inv (c_peers c)"
    using up_shape [OF up] that
    by (auto simp: put_peer_def peer_inv_def up_entry_def peers_inv_def [of "c_peers c"]
             intro!: peers_inv_insert)
  assume wf: "bt_wf (c_peers c)"
  then show "bt_wf (c_peers c')" "\<forall>q. q \<noteq> p \<longrightarrow> bt_get (c_peers c') q = bt_get (c_peers c) q"
    using up_shape [OF up wf] by (auto simp: put_peer_def)
qed

lemma up_landed:
  assumes "up c p path t = Some (c', cs)" and "bt_wf (c_peers c)"
  shows "\<exists>e. bt_get (c_peers c') p = Some e \<and> p_connected e \<and> p_lost_at e = None \<and>
      p_path e = Some path \<and> \<not> r_in_flight (p_dial e)"
  using up_shape [OF assms] assms(2) by (auto simp: put_peer_def up_entry_def)

lemma dialed_touches:
  assumes "dialed c p outcome t = Some (c', cs)"
  shows "touches p c c'"
proof (cases outcome)
  case Connected
  let ?c = "put_peer c p ((peer_entry c p)\<lparr>p_dial := (p_dial (peer_entry c p))\<lparr>r_in_flight := False\<rparr>\<rparr>)"
  have "touches p c ?c" by (rule touches_put) (simp add: peer_inv_def)
  with Connected assms show ?thesis
    by (auto simp: dialed_def Let_def split: if_splits dest!: up_touches intro: touches_trans)
next
  case InProgress
  with assms show ?thesis
    by (auto simp: dialed_def Let_def peer_inv_def intro!: touches_put)
next
  case Failed
  with assms show ?thesis
    by (auto simp: dialed_def Let_def peer_inv_def intro!: touches_put)
qed

section \<open>The loop over the peers\<close>

lemma drive_peer_effect:
  assumes "drive_peer pol t p r e = Some (r', e', cs)"
  shows "p_connected e' = p_connected e" "p_path e' = p_path e" "p_since e' = p_since e"
    "p_lost_at e' = p_lost_at e" "p_backlog e' = p_backlog e"
    "p_interest_until e' = p_interest_until e"
    "r_next_at (p_dial e') = r_next_at (p_dial e)"
    "r_in_flight (p_dial e') = (dial_due pol t e \<or> r_in_flight (p_dial e))"
    "count_list cs (DialPeer p) = (if dial_due pol t e then 1 else 0)"
    "set cs \<subseteq> {Report (PeerDialing p), DialPeer p, UpgradePath p True}"
  using assms by (auto simp: drive_peer_def Let_def split: if_splits)

lemma drive_peer_inv: "drive_peer pol t p r e = Some (r', e', cs) \<Longrightarrow> peer_inv e \<Longrightarrow> peer_inv e'"
  by (auto simp: peer_inv_def drive_peer_effect dial_due_def)

lemma wanted_drive_peer [simp]:
  assumes "drive_peer pol t p r e = Some (r', e', cs)"
  shows "wanted e' u w = wanted e u w" "in_use e' u = in_use e u" "on_relay e' = on_relay e"
  using drive_peer_effect [OF assms]
  by (simp_all add: wanted_def in_use_def has_interest_def on_relay_def)

lemma drive_peers_keys: "drive_peers pol t r ps = Some (r', ps', cs) \<Longrightarrow> map fst ps' = map fst ps"
  by (induction pol t r ps arbitrary: r' ps' cs rule: drive_peers.induct) auto

lemma drive_peers_wf: "drive_peers pol t r ps = Some (r', ps', cs) \<Longrightarrow> bt_wf ps' = bt_wf ps"
  by (simp add: bt_wf_def drive_peers_keys)

lemma drive_peers_cmds:
  "drive_peers pol t r ps = Some (r', ps', cs) \<Longrightarrow> x \<in> set cs \<Longrightarrow>
    \<exists>p \<in> fst ` set ps. x \<in> {Report (PeerDialing p), DialPeer p, UpgradePath p True}"
proof (induction pol t r ps arbitrary: r' ps' cs rule: drive_peers.induct)
  case (2 pol t r p e ps)
  from "2.prems"(1) obtain r1 e' cs1 ps1 cs2 where
      d: "drive_peer pol t p r e = Some (r1, e', cs1)"
      and ds: "drive_peers pol t r1 ps = Some (r', ps1, cs2)" and "cs = cs1 @ cs2"
    by auto
  show ?case
  proof (cases "x \<in> set cs1")
    case True
    with drive_peer_effect(10) [OF d] show ?thesis by auto
  next
    case False
    with "2.prems"(2) \<open>cs = cs1 @ cs2\<close> have "x \<in> set cs2" by simp
    with "2.IH" d ds show ?thesis by fastforce
  qed
qed simp

lemma count_list_notin: "x \<notin> set xs \<Longrightarrow> count_list xs x = 0"
  by (simp add: count_list_0_iff)

lemma count_list_append2: "count_list (xs @ ys) x = count_list xs x + count_list ys x"
  by simp

text \<open>
  What the loop does at one key: exactly what \<^verbatim>\<open>drive_peer\<close> does to its entry, with the
  commands about it.
\<close>

lemma drive_peers_at:
  assumes "drive_peers pol t r ps = Some (r', ps', cs)" and "bt_wf ps" and "bt_get ps p = Some e"
  shows "\<exists>r1 r2 e' csp. drive_peer pol t p r1 e = Some (r2, e', csp) \<and> bt_get ps' p = Some e' \<and>
    count_list cs (DialPeer p) = count_list csp (DialPeer p) \<and> set csp \<subseteq> set cs"
  using assms
proof (induction pol t r ps arbitrary: r' ps' cs rule: drive_peers.induct)
  case (2 pol t r q e0 ps)
  from "2.prems"(1) obtain r1 e' cs1 ps1 cs2 where
      d: "drive_peer pol t q r e0 = Some (r1, e', cs1)"
      and ds: "drive_peers pol t r1 ps = Some (r', ps1, cs2)"
      and res: "cs = cs1 @ cs2" "ps' = (q, e') # ps1"
    by auto
  show ?case
  proof (cases "p = q")
    case True
    have "DialPeer p \<notin> set cs2"
    proof
      assume "DialPeer p \<in> set cs2"
      from drive_peers_cmds [OF ds this] have "p \<in> fst ` set ps" by auto
      with "2.prems"(2) True show False by auto
    qed
    with True d res "2.prems"(3) show ?thesis by (auto simp: count_list_notin)
  next
    case False
    have "DialPeer p \<notin> set cs1" using drive_peer_effect(10) [OF d] False by auto
    moreover have "\<exists>r1 r2 e' csp. drive_peer pol t p r1 e = Some (r2, e', csp) \<and>
        bt_get ps1 p = Some e' \<and> count_list cs2 (DialPeer p) = count_list csp (DialPeer p) \<and>
        set csp \<subseteq> set cs2"
      using "2.IH" [OF d refl refl ds] "2.prems"(2,3) False by simp
    ultimately show ?thesis using False res by (fastforce simp: count_list_notin)
  qed
qed simp

lemma drive_peers_none:
  "drive_peers pol t r ps = Some (r', ps', cs) \<Longrightarrow> bt_get ps p = None \<Longrightarrow> DialPeer p \<notin> set cs"
  by (auto simp: bt_get_None dest!: drive_peers_cmds)

lemma drive_peers_inv:
  assumes d: "drive_peers pol t r ps = Some (r', ps', cs)" and inv: "peers_inv ps"
  shows "peers_inv ps'"
proof (rule peers_invI)
  show "bt_wf ps'" using drive_peers_wf [OF d] peers_inv_wf [OF inv] by simp
  fix p e' assume e': "bt_get ps' p = Some e'"
  then obtain e where e: "bt_get ps p = Some e"
    using same_keys_get [OF drive_peers_keys [OF d]] by blast
  from drive_peers_at [OF d peers_inv_wf [OF inv] e] e' obtain r1 r2 csp where
    "drive_peer pol t p r1 e = Some (r2, e', csp)" by auto
  then show "peer_inv e'" using peers_inv_get [OF inv e] by (rule drive_peer_inv)
qed

lemma rearm_peers_keys: "rearm_peers pol t r ps = Some (r', ps', cs) \<Longrightarrow> map fst ps' = map fst ps"
  by (induction pol t r ps arbitrary: r' ps' cs rule: rearm_peers.induct) (auto split: if_splits)

lemma rearm_peers_cmds:
  "rearm_peers pol t r ps = Some (r', ps', cs) \<Longrightarrow> x \<in> set cs \<Longrightarrow> \<exists>p. x = UpgradePath p True"
  by (induction pol t r ps arbitrary: r' ps' cs rule: rearm_peers.induct) (auto split: if_splits)

text \<open>The re-arming loop only moves the upgrade schedule of an entry.\<close>

lemma rearm_peers_ConsE:
  assumes "rearm_peers pol t r ((q, e) # ps) = Some (r', ps', cs)"
  obtains u ps1 r1 cs1 where "ps' = (q, e\<lparr>p_upgrade := u\<rparr>) # ps1"
    and "rearm_peers pol t r1 ps = Some (r', ps1, cs1)"
proof (cases "on_relay e")
  case True
  with assms that show thesis by auto
next
  case False
  have "e = e\<lparr>p_upgrade := p_upgrade e\<rparr>" by simp
  with False assms that [of "p_upgrade e"] show thesis by auto
qed

lemma rearm_peers_at:
  "rearm_peers pol t r ps = Some (r', ps', cs) \<Longrightarrow>
    \<exists>u. bt_get ps' p = map_option (\<lambda>e. e\<lparr>p_upgrade := u\<rparr>) (bt_get ps p)"
proof (induction ps arbitrary: r ps' cs)
  case (Cons qe ps)
  obtain q e where qe: "qe = (q, e)" by (cases qe)
  from Cons.prems qe obtain u ps1 r1 cs1 where "ps' = (q, e\<lparr>p_upgrade := u\<rparr>) # ps1"
      and "rearm_peers pol t r1 ps = Some (r', ps1, cs1)"
    by (blast elim: rearm_peers_ConsE)
  with Cons.IH [of r1 ps1 cs1] qe show ?case by (cases "p = q") auto
qed simp

lemma rearm_peers_inv:
  assumes d: "rearm_peers pol t r ps = Some (r', ps', cs)" and inv: "peers_inv ps"
  shows "peers_inv ps'"
proof (rule peers_invI)
  show "bt_wf ps'" using rearm_peers_keys [OF d] peers_inv_wf [OF inv] by (simp add: bt_wf_def)
  fix p e' assume e': "bt_get ps' p = Some e'"
  with rearm_peers_at [OF d, of p] obtain e u where "bt_get ps p = Some e" "e' = e\<lparr>p_upgrade := u\<rparr>"
    by (cases "bt_get ps p") auto
  with peers_inv_get [OF inv] show "peer_inv e'" by (auto simp: peer_inv_def)
qed

end
