(* ===== verification/Supervisor_Props.thy ===== *)
theory Supervisor_Props
  imports Supervisor_Frame
begin

text \<open>
  What the supervisor's core keeps true: it never panics under a sane policy, its invariant
  holds in every reachable state, what it reports is a well-formed history, it never dials or
  probes when it must not, it dials when it should, it never spins, and what it waits is
  bounded by the policy.
\<close>

section \<open>The vocabulary of the properties\<close>

text \<open>
  A policy the agent can run with: the jitter is a fraction, and the number of probes it
  counts fits its counter.
\<close>

definition sane_policy :: "supervisor_policy \<Rightarrow> bool" where
  "sane_policy pol \<longleftrightarrow> jitter_permille pol \<le> 1000 \<and> missed_probes pol \<le> u32_max"

text \<open>
  The invariant of the reachable states: the peer table is a map whose connected entries are
  consistent; the run of missed probes stays below the number that forces a reconnect; a probe
  is only rechecked while one is out; and while the link reconnects, the core is healing, no
  probe is out and no forced reconnect is pending.
\<close>

definition core_inv :: "core \<Rightarrow> bool" where
  "core_inv c \<longleftrightarrow>
     peers_inv (c_peers c) \<and>
     (pb_missed (c_probe c) = 0 \<or> pb_missed (c_probe c) < missed_probes (c_policy c)) \<and>
     (pb_recheck (c_probe c) \<longrightarrow> pb_in_flight (c_probe c)) \<and>
     (c_link c = Reconnecting \<longrightarrow>
        c_healing c \<and> \<not> c_forcing c \<and> \<not> pb_in_flight (c_probe c)) \<and>
     (c_link c = Ended \<longrightarrow> c_peers c = [])"

text \<open>
  The reports of one healing: \<^verbatim>\<open>Healing\<close> opens it, \<^verbatim>\<open>Healed\<close> closes it; opening an open
  one or closing a closed one is no history of the core (\<^term>\<open>None\<close>).
\<close>

fun heal_track :: "bool \<Rightarrow> sup_command list \<Rightarrow> bool option" where
  "heal_track h [] = Some h"
| "heal_track h (Report (Healing _) # cs) = (if h then None else heal_track True cs)"
| "heal_track h (Report Healed # cs) = (if h then heal_track False cs else None)"
| "heal_track h (_ # cs) = heal_track h cs"

definition heal_free :: "sup_command \<Rightarrow> bool" where
  "heal_free x = (case x of Report (Healing _) \<Rightarrow> False | Report Healed \<Rightarrow> False | _ \<Rightarrow> True)"

fun mentions :: "cid \<Rightarrow> sup_input \<Rightarrow> bool" where
  "mentions p (PeerLost _ q) = (p = q)"
| "mentions p (PeerReleased _ q) = (p = q)"
| "mentions p (PeerUp _ q _) = (p = q)"
| "mentions p (PeerReachable _ q) = (p = q)"
| "mentions p (PeerPath _ q _) = (p = q)"
| "mentions p (DialResult _ q _) = (p = q)"
| "mentions p (Backlog q _) = (p = q)"
| "mentions p (Interest q _) = (p = q)"
| "mentions p _ = False"

section \<open>Reports of healing\<close>

lemma heal_track_append:
  "heal_track h (xs @ ys) = (case heal_track h xs of None \<Rightarrow> None | Some h' \<Rightarrow> heal_track h' ys)"
  by (induction h xs rule: heal_track.induct) auto

lemma heal_track_free: "\<forall>x \<in> set cs. heal_free x \<Longrightarrow> heal_track h cs = Some h"
  by (induction h cs rule: heal_track.induct) (auto simp: heal_free_def)

section \<open>Each method and the link's half of the state\<close>

lemma settle_only [simp]: "peers_only c (settle c t)"
  by (simp add: settle_def)

lemma settle_entry_keeps [simp]:
  "p_connected (settle_entry pol t e) = p_connected e"
  "p_path (settle_entry pol t e) = p_path e" "p_since (settle_entry pol t e) = p_since e"
  "p_lost_at (settle_entry pol t e) = p_lost_at e" "p_dial (settle_entry pol t e) = p_dial e"
  "p_backlog (settle_entry pol t e) = p_backlog e"
  "p_interest_until (settle_entry pol t e) = p_interest_until e"
  "r_next_at (p_upgrade (settle_entry pol t e)) = r_next_at (p_upgrade e)"
  by (simp_all add: settle_entry_def Let_def)

lemma settle_inv: "peers_inv (c_peers c) \<Longrightarrow> peers_inv (c_peers (settle c t))"
  by (rule peers_invI) (auto simp: settle_def peers_inv_wf peer_inv_def dest!: peers_inv_get)

lemma lost_all_only: "lost_all c ps t = Some c' \<Longrightarrow> peers_only c c'"
  by (induction ps arbitrary: c)
     (auto dest!: lost_touches [THEN touches_only] intro: peers_only_trans)

lemma lost_all_inv:
  "lost_all c ps t = Some c' \<Longrightarrow> peers_inv (c_peers c) \<Longrightarrow> peers_inv (c_peers c')"
  by (induction ps arbitrary: c) (auto dest!: lost_touches simp: touches_def)

lemma lost_all_other:
  "lost_all c ps t = Some c' \<Longrightarrow> bt_wf (c_peers c) \<Longrightarrow> p \<notin> set ps \<Longrightarrow>
    bt_get (c_peers c') p = bt_get (c_peers c) p"
proof (induction ps arbitrary: c)
  case (Cons q ps)
  then obtain d where d: "lost c q t = Some d" "lost_all d ps t = Some c'" by auto
  from lost_touches [OF d(1)] Cons.prems have "bt_wf (c_peers d)" "bt_get (c_peers d) p = bt_get (c_peers c) p"
    by (auto simp: touches_def)
  with Cons.IH [OF d(2)] Cons.prems show ?case by simp
qed simp

lemma rearm_relayed_shape:
  assumes "rearm_relayed c = Some (c', cs)"
  shows "\<exists>r ps. c' = c\<lparr>c_after_change := False, c_rng := r, c_peers := ps\<rparr> \<and>
    (\<forall>x \<in> set cs. \<exists>p. x = UpgradePath p True) \<and>
    (peers_inv (c_peers c) \<longrightarrow> peers_inv ps) \<and>
    (\<forall>p. \<exists>u. bt_get ps p = map_option (\<lambda>e. e\<lparr>p_upgrade := u\<rparr>) (bt_get (c_peers c) p))"
proof (cases "c_after_change c")
  case False
  with assms have "c' = c\<lparr>c_after_change := False, c_rng := c_rng c, c_peers := c_peers c\<rparr>" "cs = []"
    by (simp_all add: rearm_relayed_def)
  moreover have "map_option (\<lambda>e. e\<lparr>p_upgrade := p_upgrade (the (bt_get (c_peers c) p))\<rparr>)
      (bt_get (c_peers c) p) = bt_get (c_peers c) p" for p
    by (cases "bt_get (c_peers c) p") simp_all
  then have "\<forall>p. \<exists>u. bt_get (c_peers c) p = map_option (\<lambda>e. e\<lparr>p_upgrade := u\<rparr>) (bt_get (c_peers c) p)"
    by metis
  ultimately show ?thesis by (intro exI [of _ "c_rng c"] exI [of _ "c_peers c"]) simp
next
  case True
  with assms obtain r ps where
      d: "rearm_peers (c_policy c) (c_now c) (c_rng c) (c_peers c) = Some (r, ps, cs)"
      and c': "c' = c\<lparr>c_after_change := False, c_rng := r, c_peers := ps\<rparr>"
    by (auto simp: rearm_relayed_def)
  with rearm_peers_cmds [OF d] rearm_peers_inv [OF d] rearm_peers_at [OF d] show ?thesis by blast
qed

text \<open>
  The commands of a method that handles a peer's input, and what drive does to the half of the
  state about the link.
\<close>

lemma up_cmds: "up c p path t = Some (c', cs) \<Longrightarrow> set cs \<subseteq> {Report (PeerRestored p path)}"
  by (auto simp: up_eq split: if_splits)

lemma dialed_cmds:
  "dialed c p outcome t = Some (c', cs) \<Longrightarrow> x \<in> set cs \<Longrightarrow>
    x = Report (Degraded p) \<or> x = Report (PeerRestored p ServerRelay)"
  by (auto simp: dialed_def Let_def split: dial_outcome.splits if_splits dest!: up_cmds)

definition probe_fires :: "core \<Rightarrow> millis \<Rightarrow> bool" where
  "probe_fires c t \<longleftrightarrow>
     c_link c = Up \<and> \<not> c_forcing c \<and> \<not> pb_in_flight (c_probe c) \<and>
     (case pb_next_at (c_probe c) of Some at \<Rightarrow> at \<le> t
      | None \<Rightarrow> after t (probe_interval (c_policy c)) \<le> t)"

lemma drive_idle: "c_link c \<noteq> Up \<or> c_forcing c \<Longrightarrow> drive c t = Some (c, [])"
  by (simp add: drive_def)

lemma drive_upE:
  assumes "drive c t = Some (c', cs)" and "c_link c = Up" and "\<not> c_forcing c"
  obtains r ps cs1 at where
    "drive_peers (c_policy c) t (c_rng c) (c_peers c) = Some (r, ps, cs1)"
    and "c' = c\<lparr>c_probe := (c_probe c)\<lparr>pb_next_at := Some at,
                 pb_in_flight := pb_in_flight (c_probe c) \<or> probe_fires c t\<rparr>,
               c_peers := ps, c_rng := r\<rparr>"
    and "cs = (if probe_fires c t then [ProbeServer] else []) @ cs1"
    and "at = (case pb_next_at (c_probe c) of Some at \<Rightarrow> at
               | None \<Rightarrow> after t (probe_interval (c_policy c)))"
proof -
  define at where "at = (case pb_next_at (c_probe c) of Some at \<Rightarrow> at
               | None \<Rightarrow> after t (probe_interval (c_policy c)))"
  have fire: "probe_fires c t \<longleftrightarrow> \<not> pb_in_flight (c_probe c) \<and> at \<le> t"
    using assms(2,3) by (simp add: probe_fires_def at_def split: option.splits)
  show thesis
    using assms that [of _ _ _ at] unfolding drive_def at_def [symmetric]
    by (auto simp: Let_def fire at_def split: if_splits)
qed


section \<open>Handling one input\<close>

text \<open>The inputs about one peer: only that peer's entry changes, and no healing is reported.\<close>

lemma handle_peer:
  assumes "handle c i t = Some (c', cs)" and "mentions p i"
  shows "touches p c c' \<and> (\<forall>x \<in> set cs. heal_free x \<and> (\<forall>q. x \<noteq> DialPeer q) \<and> x \<noteq> ProbeServer)"
proof (cases i)
  case (DialResult u q outcome)
  with assms have d: "dialed c p outcome t = Some (c', cs)" by (simp add: handle_def)
  have "heal_free x \<and> (\<forall>q. x \<noteq> DialPeer q) \<and> x \<noteq> ProbeServer" if "x \<in> set cs" for x
    using dialed_cmds [OF d that] by (auto simp: heal_free_def)
  with dialed_touches [OF d] show ?thesis by blast
next
  case (PeerUp u q path)
  with assms have d: "up c p path t = Some (c', cs)" by (simp add: handle_def)
  from up_touches [OF d] up_cmds [OF d] show ?thesis by (auto simp: heal_free_def)
next
  case (Interest q until)
  with assms show ?thesis
    by (auto simp: handle_def Let_def peer_inv_def intro!: touches_put)
next
  case (Backlog q n)
  with assms show ?thesis
    by (auto simp: handle_def peer_inv_def intro!: touches_put)
qed (use assms in \<open>auto simp: handle_def dest: lost_touches released_touches path_changed_touches
       intro: reachable_touches\<close>)

lemma mentions_cases:
  "(\<exists>p. mentions p i) \<or> (\<exists>t. i = Tick t) \<or> (\<exists>t. i = NetworkChanged t) \<or>
    (\<exists>t x. i = ServerProbe t x) \<or> (\<exists>t s. i = ServerLink t s) \<or> (\<exists>t. i = ForceFailed t)"
  by (cases i) auto

lemma probedE:
  assumes "probed c outcome = Some (c', cs)"
  obtains (Away) "c_link c \<noteq> Up" "c' = c\<lparr>c_probe := (c_probe c)\<lparr>pb_in_flight := False\<rparr>\<rparr>" "cs = []"
  | (Again) "c_link c = Up" "cs = [ProbeServer]"
      "c' = c\<lparr>c_probe := (c_probe c)\<lparr>pb_recheck := False, pb_in_flight := True\<rparr>\<rparr>"
  | (Ok) r ps cs1 where "c_link c = Up" "\<not> pb_recheck (c_probe c)"
      "c' = c\<lparr>c_probe := (c_probe c)\<lparr>pb_in_flight := False, pb_missed := 0,
                pb_next_at := Some (after (c_now c) (probe_interval (c_policy c)))\<rparr>,
              c_after_change := False, c_rng := r, c_peers := ps, c_healing := False\<rparr>"
      "cs = cs1 @ (if c_healing c then [Report Healed] else [])"
      "\<forall>x \<in> set cs1. \<exists>p. x = UpgradePath p True"
      "peers_inv (c_peers c) \<longrightarrow> peers_inv ps"
      "\<forall>p. \<exists>u. bt_get ps p = map_option (\<lambda>e. e\<lparr>p_upgrade := u\<rparr>) (bt_get (c_peers c) p)"
  | (Error) "c_link c = Up" "\<not> pb_recheck (c_probe c)" "cs = []"
      "c' = c\<lparr>c_probe := (c_probe c)\<lparr>pb_in_flight := False,
                pb_next_at := Some (after (c_now c) (probe_interval (c_policy c)))\<rparr>\<rparr>"
  | (Retry) "c_link c = Up" "\<not> pb_recheck (c_probe c)" "cs = [ProbeServer]"
      "pb_missed (c_probe c) + 1 < missed_probes (c_policy c)"
      "c' = c\<lparr>c_probe := (c_probe c)\<lparr>pb_missed := pb_missed (c_probe c) + 1, pb_in_flight := True\<rparr>\<rparr>"
  | (Force) "c_link c = Up" "\<not> pb_recheck (c_probe c)"
      "missed_probes (c_policy c) \<le> pb_missed (c_probe c) + 1"
      "cs = ForceReconnect # (if c_healing c then [] else [Report (Healing ProbesMissed)])"
      "c' = c\<lparr>c_probe := (c_probe c)\<lparr>pb_in_flight := False, pb_missed := 0\<rparr>,
              c_after_change := False, c_forcing := True, c_healing := True\<rparr>"
proof (cases "c_link c = Up \<and> \<not> pb_recheck (c_probe c)")
  case False
  with assms Away Again show thesis
    by (auto simp: probed_def Let_def split: if_splits)
next
  case True
  let ?c = "c\<lparr>c_probe := (c_probe c)\<lparr>pb_in_flight := False\<rparr>\<rparr>"
  show thesis
  proof (cases outcome)
    case (ProbeOk rtt)
    let ?d = "c\<lparr>c_probe := (c_probe c)\<lparr>pb_in_flight := False, pb_missed := 0,
                pb_next_at := Some (after (c_now c) (probe_interval (c_policy c)))\<rparr>\<rparr>"
    from ProbeOk True assms obtain d cs1 where d: "rearm_relayed ?d = Some (d, cs1)"
        and "c' = d\<lparr>c_healing := False\<rparr>" "cs = cs1 @ (if c_healing d then [Report Healed] else [])"
      by (auto simp: probed_def Let_def)
    with rearm_relayed_shape [OF d] True Ok show thesis by auto
  next
    case ProbeError
    with True assms Error show thesis by (auto simp: probed_def Let_def)
  next
    case ProbeTimeout
    with True assms Retry Force show thesis
      by (auto simp: probed_def Let_def split: if_splits)
  qed
qed


lemma lose_linkE:
  assumes "lose_link c cause = Some (c', cs)"
  obtains d where
    "lost_all (c\<lparr>c_link := Reconnecting, c_forcing := False, c_probe := probe_default\<rparr>)
       (map fst (filter (\<lambda>(_, e). p_connected e) (c_peers c))) (c_now c) = Some d"
    and "c' = d\<lparr>c_healing := True\<rparr>"
    and "cs = (if c_healing c then [] else [Report (Healing cause)])"
    and "c_policy d = c_policy c" "c_link d = Reconnecting" "c_now d = c_now c"
      "c_probe d = probe_default" "\<not> c_forcing d"
proof -
  from assms obtain d where
    d: "lost_all (c\<lparr>c_link := Reconnecting, c_forcing := False, c_probe := probe_default\<rparr>)
       (map fst (filter (\<lambda>(_, e). p_connected e) (c_peers c))) (c_now c) = Some d"
    and r: "c' = d\<lparr>c_healing := True\<rparr>" "cs = (if c_healing d then [] else [Report (Healing cause)])"
    by (auto simp: lose_link_def Let_def)
  from d r peers_only_fields [OF lost_all_only [OF d]] show thesis
    by (intro that) simp_all
qed

definition heal_sound :: "core \<Rightarrow> core \<Rightarrow> sup_command list \<Rightarrow> bool" where
  "heal_sound c c' cs \<longleftrightarrow>
     c_policy c' = c_policy c \<and> c_now c' = c_now c \<and>
     heal_track (c_healing c) cs = Some (c_healing c') \<and> (\<forall>q. DialPeer q \<notin> set cs)"

lemma upgrade_free: "\<forall>x \<in> set cs. \<exists>p. x = UpgradePath p True \<Longrightarrow> heal_track h cs = Some h"
  by (rule heal_track_free) (auto simp: heal_free_def)

lemma probed_sound: "probed c outcome = Some (c', cs) \<Longrightarrow> heal_sound c c' cs"
  by (erule probedE) (auto simp: heal_sound_def heal_track_append upgrade_free)

lemma link_changed_sound: "link_changed c s t = Some (c', cs) \<Longrightarrow> heal_sound c c' cs"
  by (cases s) (auto simp: link_changed_def heal_sound_def elim!: lose_linkE split: if_splits)

lemma network_changed_sound: "network_changed c = (c', cs) \<Longrightarrow> heal_sound c c' cs"
  by (auto simp: network_changed_def heal_sound_def Let_def split: if_splits)

lemma handle_sound:
  assumes "handle c i t = Some (c', cs)"
  shows "heal_sound c c' cs"
  using mentions_cases [of i]
proof (elim disjE exE)
  fix p assume "mentions p i"
  from handle_peer [OF assms this] have "touches p c c'" and free: "\<forall>x \<in> set cs. heal_free x"
    and "\<forall>q. DialPeer q \<notin> set cs" by auto
  then show ?thesis
    using peers_only_fields [OF touches_only, of p c c'] heal_track_free [OF free]
    by (simp add: heal_sound_def)
next
  fix u assume "i = Tick u"
  with assms show ?thesis
    using peers_only_fields [OF settle_only [of c t]] by (auto simp: handle_def heal_sound_def)
next
  fix u assume "i = ForceFailed u"
  with assms show ?thesis by (auto simp: handle_def heal_sound_def force_failed_def)
qed (use assms in \<open>auto simp: handle_def dest: probed_sound link_changed_sound network_changed_sound\<close>)

lemma probed_inv:
  "probed c outcome = Some (c', cs) \<Longrightarrow> core_inv c \<Longrightarrow> c_link c \<noteq> Ended \<Longrightarrow> core_inv c'"
  by (erule probedE) (cases "c_link c"; auto simp: core_inv_def)+

lemma link_changed_inv:
  assumes "link_changed c s t = Some (c', cs)" and "core_inv c"
  shows "core_inv c'"
proof (cases s)
  case Reconnecting
  with assms(1) obtain d where d: "lost_all (c\<lparr>c_link := Reconnecting, c_forcing := False, c_probe := probe_default\<rparr>)
       (map fst (filter (\<lambda>(_, e). p_connected e) (c_peers c))) (c_now c) = Some d"
    and c': "c' = d\<lparr>c_healing := True\<rparr>" "c_link d = Reconnecting" "c_probe d = probe_default" "\<not> c_forcing d"
    by (auto simp: link_changed_def elim!: lose_linkE)
  from lost_all_inv [OF d] assms(2) c' show ?thesis by (simp add: core_inv_def probe_default_def)
qed (use assms in \<open>auto simp: link_changed_def core_inv_def probe_default_def peers_inv_def\<close>)

lemma handle_inv:
  assumes "handle c i t = Some (c', cs)" and "core_inv c" and "c_link c \<noteq> Ended"
  shows "core_inv c'"
  using mentions_cases [of i]
proof (elim disjE exE)
  fix p assume "mentions p i"
  from handle_peer [OF assms(1) this] have "touches p c c'" by blast
  with assms(2,3) peers_only_fields [OF touches_only, of p c c'] show ?thesis
    by (simp add: core_inv_def touches_def)
next
  fix u assume "i = Tick u"
  with assms show ?thesis
    using peers_only_fields [OF settle_only [of c t]] by (auto simp: handle_def core_inv_def settle_inv)
next
  fix u assume "i = ForceFailed u"
  with assms show ?thesis by (auto simp: handle_def core_inv_def force_failed_def probe_default_def)
next
  fix u assume "i = NetworkChanged u"
  with assms show ?thesis
    by (auto simp: handle_def core_inv_def network_changed_def Let_def split: if_splits)
qed (use assms in \<open>auto simp: handle_def dest: probed_inv link_changed_inv\<close>)


section \<open>Driving, and a whole step\<close>

lemma drive_keeps:
  assumes "drive c t = Some (c', cs)"
  shows "c_policy c' = c_policy c \<and> c_link c' = c_link c \<and> c_now c' = c_now c \<and>
    c_healing c' = c_healing c \<and> c_forcing c' = c_forcing c"
proof (cases "c_link c = Up \<and> \<not> c_forcing c")
  case True
  with assms show ?thesis by (auto elim: drive_upE)
qed (use assms in \<open>simp add: drive_def\<close>)

lemma drive_heal_free:
  assumes "drive c t = Some (c', cs)"
  shows "\<forall>x \<in> set cs. heal_free x"
proof (cases "c_link c = Up \<and> \<not> c_forcing c")
  case True
  with assms obtain r ps cs1 where
      d: "drive_peers (c_policy c) t (c_rng c) (c_peers c) = Some (r, ps, cs1)"
      and cs: "cs = (if probe_fires c t then [ProbeServer] else []) @ cs1"
    by (auto elim: drive_upE)
  have "heal_free x" if "x \<in> set cs1" for x
    using drive_peers_cmds [OF d that] by (auto simp: heal_free_def)
  with cs show ?thesis by (auto simp: heal_free_def split: if_splits)
qed (use assms in \<open>simp add: drive_def\<close>)

lemma drive_inv:
  assumes "drive c t = Some (c', cs)" and "core_inv c"
  shows "core_inv c'"
proof (cases "c_link c = Up \<and> \<not> c_forcing c")
  case True
  with assms(1) obtain r ps cs1 at where
      d: "drive_peers (c_policy c) t (c_rng c) (c_peers c) = Some (r, ps, cs1)"
      and c': "c' = c\<lparr>c_probe := (c_probe c)\<lparr>pb_next_at := Some at,
                 pb_in_flight := pb_in_flight (c_probe c) \<or> probe_fires c t\<rparr>,
               c_peers := ps, c_rng := r\<rparr>"
    by (auto elim: drive_upE)
  with drive_peers_inv [OF d] assms(2) True show ?thesis by (simp add: core_inv_def)
qed (use assms in \<open>simp add: drive_def\<close>)

lemma stepE:
  assumes "step c i = Some (c', cs)" and "c_link c \<noteq> Ended"
  obtains d cs1 cs2 where
    "handle (c\<lparr>c_now := input_time c i\<rparr>) i (input_time c i) = Some (d, cs1)"
    and "drive d (input_time c i) = Some (c', cs2)" and "cs = cs1 @ cs2"
  using assms by (auto simp: step_def Let_def)

lemma step_ended: "c_link c = Ended \<Longrightarrow> step c i = Some (c, [])"
  by (simp add: step_def)

lemma core_inv_now [simp]: "core_inv (c\<lparr>c_now := t\<rparr>) = core_inv c"
  by (simp add: core_inv_def)

lemma step_inv: "step c i = Some (c', cs) \<Longrightarrow> core_inv c \<Longrightarrow> core_inv c'"
proof (cases "c_link c = Ended")
  case False
  assume "step c i = Some (c', cs)" and inv: "core_inv c"
  then obtain d cs1 cs2 where h: "handle (c\<lparr>c_now := input_time c i\<rparr>) i (input_time c i) = Some (d, cs1)"
      and v: "drive d (input_time c i) = Some (c', cs2)"
    using False by (blast elim: stepE)
  from handle_inv [OF h] inv False drive_inv [OF v] show ?thesis by simp
qed (simp add: step_ended)

lemma step_policy: "step c i = Some (c', cs) \<Longrightarrow> c_policy c' = c_policy c"
proof (cases "c_link c = Ended")
  case False
  assume "step c i = Some (c', cs)"
  then show ?thesis using False
    by (rule stepE) (auto dest!: handle_sound drive_keeps simp: heal_sound_def)
qed (simp add: step_ended)

lemma step_heal: "step c i = Some (c', cs) \<Longrightarrow> heal_track (c_healing c) cs = Some (c_healing c')"
proof (cases "c_link c = Ended")
  case False
  assume "step c i = Some (c', cs)"
  then obtain d cs1 cs2 where h: "handle (c\<lparr>c_now := input_time c i\<rparr>) i (input_time c i) = Some (d, cs1)"
      and v: "drive d (input_time c i) = Some (c', cs2)" and cs: "cs = cs1 @ cs2"
    using False by (rule stepE)
  from heal_track_free [OF drive_heal_free [OF v]] drive_keeps [OF v] handle_sound [OF h] cs
  show ?thesis by (simp add: heal_track_append heal_sound_def)
qed (simp add: step_ended)

section \<open>No step panics\<close>

lemma delay_Some:
  assumes "sane_policy pol"
  obtains r' d where "delay r b a (jitter_permille pol) = Some (r', d)"
  using assms delay_total by (fastforce simp: sane_policy_def)

lemma lost_total: "sane_policy (c_policy c) \<Longrightarrow> \<exists>c'. lost c p t = Some c'"
  by (rule delay_Some [of "c_policy c" "c_rng c" "dial_backoff (c_policy c)" "r_attempts (p_dial (peer_entry c p))"])
     (auto simp: lost_def lost_entry_def)

lemma path_changed_total: "sane_policy (c_policy c) \<Longrightarrow> \<exists>c'. path_changed c p path t = Some c'"
  by (rule delay_Some [of "c_policy c" "c_rng c" "upgrade_backoff (c_policy c)" "r_attempts (p_upgrade (peer_entry c p))"])
     (auto simp: path_changed_def Let_def)

lemma up_total: "sane_policy (c_policy c) \<Longrightarrow> \<exists>c' cs. up c p path t = Some (c', cs)"
  using path_changed_total [of "put_peer c p (up_entry (peer_entry c p) t)" p path t]
  by (auto simp: up_eq put_peer_def)

lemma dial_wait_total: "sane_policy pol \<Longrightarrow> \<exists>r' d. dial_wait pol r e = Some (r', d)"
  by (simp add: dial_wait_def delay_total sane_policy_def)

lemma dialed_total:
  assumes "sane_policy (c_policy c)"
  shows "\<exists>c' cs. dialed c p outcome t = Some (c', cs)"
proof (cases outcome)
  case Connected
  have "sane_policy (c_policy (put_peer c p e))" for e using assms by (simp add: put_peer_def)
  with Connected show ?thesis by (simp add: dialed_def Let_def up_total)
next
  case InProgress
  with assms show ?thesis by (simp add: dialed_def Let_def delay_total sane_policy_def)
next
  case Failed
  let ?e = "peer_entry c p"
  obtain r d where "dial_wait (c_policy c) (c_rng c) (?e\<lparr>p_dial := (p_dial ?e)\<lparr>r_in_flight := False\<rparr>,
      p_failed_dials := sat_add u32_max (p_failed_dials ?e) 1\<rparr>) = Some (r, d)"
    using dial_wait_total [OF assms] by blast
  with Failed show ?thesis by (simp add: dialed_def Let_def)
qed

lemma rearm_peers_total:
  "sane_policy pol \<Longrightarrow> \<exists>r' ps' cs. rearm_peers pol t r ps = Some (r', ps', cs)"
proof (induction ps arbitrary: r)
  case (Cons qe ps)
  obtain q e where qe: "qe = (q, e)" by (cases qe)
  obtain r1 d where d: "delay r (upgrade_backoff pol) 0 (jitter_permille pol) = Some (r1, d)"
    using delay_Some [OF Cons.prems] .
  obtain r2 ps2 cs2 where "rearm_peers pol t r1 ps = Some (r2, ps2, cs2)" using Cons by blast
  moreover obtain r3 ps3 cs3 where "rearm_peers pol t r ps = Some (r3, ps3, cs3)" using Cons by blast
  ultimately show ?case using d qe by simp
qed simp

lemma rearm_relayed_total: "sane_policy (c_policy c) \<Longrightarrow> \<exists>c' cs. rearm_relayed c = Some (c', cs)"
  using rearm_peers_total [of "c_policy c" "c_now c" "c_rng c" "c_peers c"]
  by (auto simp: rearm_relayed_def)

lemma lost_all_total: "sane_policy (c_policy c) \<Longrightarrow> \<exists>c'. lost_all c ps t = Some c'"
proof (induction ps arbitrary: c)
  case (Cons p ps)
  then obtain d where "lost c p t = Some d" using lost_total by blast
  moreover from this have "c_policy d = c_policy c"
    using peers_only_fields(1) lost_touches touches_only by blast
  ultimately show ?case using Cons by auto
qed simp

lemma probed_total:
  assumes "sane_policy (c_policy c)" and "core_inv c"
  shows "\<exists>c' cs. probed c outcome = Some (c', cs)"
proof (cases "c_link c = Up \<and> \<not> pb_recheck (c_probe c)")
  case True
  show ?thesis
  proof (cases outcome)
    case (ProbeOk rtt)
    have "\<exists>c' cs. rearm_relayed (c\<lparr>c_probe := pb\<rparr>) = Some (c', cs)" for pb
      using assms(1) by (simp add: rearm_relayed_total)
    with True ProbeOk show ?thesis by (fastforce simp: probed_def Let_def)
  next
    case ProbeTimeout
    from assms have "pb_missed (c_probe c) + 1 \<le> u32_max"
      by (auto simp: core_inv_def sane_policy_def u32_max_def)
    with True ProbeTimeout show ?thesis by (simp add: probed_def Let_def checked_add_def)
  qed (use True in \<open>simp add: probed_def Let_def\<close>)
qed (auto simp: probed_def Let_def)

lemma link_changed_total:
  assumes "sane_policy (c_policy c)"
  shows "\<exists>c' cs. link_changed c s t = Some (c', cs)"
proof (cases s)
  case Reconnecting
  have "\<exists>d. lost_all (c\<lparr>c_link := Reconnecting, c_forcing := False, c_probe := probe_default\<rparr>) ps u = Some d"
    for ps u using assms by (simp add: lost_all_total)
  with Reconnecting show ?thesis by (fastforce simp: link_changed_def lose_link_def Let_def)
qed (simp_all add: link_changed_def)


lemma handle_total:
  assumes "sane_policy (c_policy c)" and "core_inv c"
  shows "\<exists>c' cs. handle c i t = Some (c', cs)"
proof (cases i)
  case (PeerReleased u p)
  obtain d where "lost c p t = Some d" using lost_total [OF assms(1)] by blast
  with PeerReleased show ?thesis by (simp add: handle_def released_def)
next
  case (PeerLost u p)
  obtain d where "lost c p t = Some d" using lost_total [OF assms(1)] by blast
  with PeerLost show ?thesis by (simp add: handle_def)
next
  case (PeerPath u p path)
  obtain d where "path_changed c p path t = Some d" using path_changed_total [OF assms(1)] by blast
  with PeerPath show ?thesis by (simp add: handle_def)
next
  case (NetworkChanged u)
  then show ?thesis by (cases "network_changed c") (simp add: handle_def)
qed (use assms in \<open>simp_all add: handle_def Let_def probed_total link_changed_total up_total dialed_total\<close>)

lemma drive_peer_total:
  assumes "sane_policy pol"
  obtains r' e' cs where "drive_peer pol t p r e = Some (r', e', cs)"
proof (cases "drive_peer pol t p r e")
  case None
  obtain r1 w where d: "delay r (upgrade_backoff pol) (sat_add u32_max (r_attempts (p_upgrade e)) 1)
      (jitter_permille pol) = Some (r1, w)"
    using delay_Some [OF assms] .
  from None show thesis unfolding drive_peer_def Let_def
    by (auto simp: d split: if_splits simp del: One_nat_def)
next
  case (Some x)
  then show thesis using that by (cases x) auto
qed

lemma drive_peers_total:
  "sane_policy pol \<Longrightarrow> \<exists>r' ps' cs. drive_peers pol t r ps = Some (r', ps', cs)"
proof (induction ps arbitrary: r)
  case (Cons qe ps)
  obtain q e where qe: "qe = (q, e)" by (cases qe)
  obtain r1 e1 cs1 where "drive_peer pol t q r e = Some (r1, e1, cs1)"
    using drive_peer_total [OF Cons.prems] .
  moreover obtain r2 ps2 cs2 where "drive_peers pol t r1 ps = Some (r2, ps2, cs2)" using Cons by blast
  ultimately show ?case using qe by simp
qed simp

lemma drive_total: "sane_policy (c_policy c) \<Longrightarrow> \<exists>c' cs. drive c t = Some (c', cs)"
  using drive_peers_total [of "c_policy c" t "c_rng c" "c_peers c"]
  by (auto simp: drive_def Let_def)

lemma step_total:
  assumes "sane_policy (c_policy c)" and "core_inv c"
  shows "\<exists>c' cs. step c i = Some (c', cs)"
proof (cases "c_link c = Ended")
  case False
  let ?t = "input_time c i"
  obtain d cs where h: "handle (c\<lparr>c_now := ?t\<rparr>) i ?t = Some (d, cs)"
    using handle_total [of "c\<lparr>c_now := ?t\<rparr>" i ?t] assms by auto
  moreover from handle_sound [OF h] have "c_policy d = c_policy c" by (simp add: heal_sound_def)
  then obtain c' cs' where "drive d ?t = Some (c', cs')" using drive_total [of d ?t] assms by auto
  ultimately show ?thesis by (simp add: step_def Let_def)
qed (simp add: step_ended)

lemma core_inv_new [simp]: "core_inv (core_new pol c)"
  by (simp add: core_inv_def core_new_def probe_default_def peers_inv_def)

lemma run_ConsE:
  assumes "run c (i # is) = Some (c', cs)"
  obtains d cs1 cs2 where "step c i = Some (d, cs1)" "run d is = Some (c', cs2)" "cs = cs1 @ cs2"
  using assms by auto

lemma run_keeps:
  "run c is = Some (c', cs) \<Longrightarrow> core_inv c \<Longrightarrow> core_inv c' \<and> c_policy c' = c_policy c"
  by (induction "is" arbitrary: c cs)
     (force dest: step_inv step_policy)+

lemma run_heal: "run c is = Some (c', cs) \<Longrightarrow> heal_track (c_healing c) cs = Some (c_healing c')"
proof (induction "is" arbitrary: c cs)
  case (Cons i "is")
  from Cons.prems obtain d cs1 cs2 where "step c i = Some (d, cs1)" "run d is = Some (c', cs2)" "cs = cs1 @ cs2"
    by (rule run_ConsE)
  with Cons.IH step_heal show ?case by (simp add: heal_track_append)
qed simp

lemma run_total: "sane_policy (c_policy c) \<Longrightarrow> core_inv c \<Longrightarrow> \<exists>c' cs. run c is = Some (c', cs)"
proof (induction "is" arbitrary: c)
  case (Cons i "is")
  then obtain d cs1 where d: "step c i = Some (d, cs1)" using step_total by blast
  from Cons.prems step_inv [OF d] step_policy [OF d] Cons.IH [of d] d show ?case by auto
qed simp


section \<open>What becomes of one peer's entry\<close>

lemma drive_at:
  assumes "drive c t = Some (c', cs)" and "bt_wf (c_peers c)" and e: "bt_get (c_peers c) p = Some e"
  obtains e' where "bt_get (c_peers c') p = Some e'"
    and "count_list cs (DialPeer p) =
          (if c_link c = Up \<and> \<not> c_forcing c \<and> dial_due (c_policy c) t e then 1 else 0)"
    and "r_in_flight (p_dial e') \<longleftrightarrow> r_in_flight (p_dial e) \<or> DialPeer p \<in> set cs"
    and "p_connected e' = p_connected e" "p_lost_at e' = p_lost_at e" "p_backlog e' = p_backlog e"
      "p_interest_until e' = p_interest_until e" "r_next_at (p_dial e') = r_next_at (p_dial e)"
proof (cases "c_link c = Up \<and> \<not> c_forcing c")
  case False
  with assms(1) have "c' = c" "cs = []" by (auto simp: drive_def)
  with False e that [of e] show thesis by auto
next
  case True
  with assms(1) obtain r ps cs1 at where
      d: "drive_peers (c_policy c) t (c_rng c) (c_peers c) = Some (r, ps, cs1)"
      and c': "c_peers c' = ps" and cs: "cs = (if probe_fires c t then [ProbeServer] else []) @ cs1"
    by (auto elim: drive_upE)
  from drive_peers_at [OF d assms(2) e] obtain r1 r2 e' csp where
      de: "drive_peer (c_policy c) t p r1 e = Some (r2, e', csp)" and e': "bt_get ps p = Some e'"
      and cnt: "count_list cs1 (DialPeer p) = count_list csp (DialPeer p)" by blast
  from cs cnt drive_peer_effect(9) [OF de]
  have n: "count_list cs (DialPeer p) = (if dial_due (c_policy c) t e then 1 else 0)" by simp
  then have "DialPeer p \<in> set cs \<longleftrightarrow> dial_due (c_policy c) t e"
    by (metis count_list_0_iff zero_neq_one)
  with n drive_peer_effect [OF de] e' c' True that [of e'] show thesis by auto
qed

lemma drive_absent:
  assumes "drive c t = Some (c', cs)" and "bt_get (c_peers c) p = None"
  shows "DialPeer p \<notin> set cs"
proof (cases "c_link c = Up \<and> \<not> c_forcing c")
  case True
  with assms(1) obtain r ps cs1 at where
      d: "drive_peers (c_policy c) t (c_rng c) (c_peers c) = Some (r, ps, cs1)"
      and cs: "cs = (if probe_fires c t then [ProbeServer] else []) @ cs1"
    by (auto elim: drive_upE)
  from drive_peers_none [OF d assms(2)] cs show ?thesis by simp
qed (use assms in \<open>simp add: drive_def\<close>)

text \<open>
  A peer that is not connected keeps its entry, its upgrade schedule apart, through every input
  that is not about it; only the end of the session clears it.
\<close>

lemma same_entry: "\<exists>u. e = e\<lparr>p_upgrade := u\<rparr>"
  by (rule exI [of _ "p_upgrade e"]) simp

lemma settle_upgrade: "\<exists>u. settle_entry pol t e = e\<lparr>p_upgrade := u\<rparr>"
  using same_entry [of e] by (auto simp: settle_entry_def Let_def)

lemma handle_other:
  assumes h: "handle c i t = Some (c', cs)" and wf: "bt_wf (c_peers c)" and "\<not> mentions p i"
    and e: "bt_get (c_peers c) p = Some e" and "\<not> p_connected e"
  shows "c_link c' = Ended \<or> (\<exists>u. bt_get (c_peers c') p = Some (e\<lparr>p_upgrade := u\<rparr>))"
  using mentions_cases [of i]
proof (elim disjE exE)
  fix q assume q: "mentions q i"
  with assms(3) have "p \<noteq> q" by blast
  with handle_peer [OF h q] wf e show ?thesis using same_entry [of e] by (auto simp: touches_def)
next
  fix u assume "i = Tick u"
  with h e settle_upgrade [of "c_policy c" t e] show ?thesis by (auto simp: handle_def settle_def)
next
  fix u assume "i = NetworkChanged u"
  with h e same_entry [of e] show ?thesis
    by (auto simp: handle_def network_changed_def Let_def split: if_splits)
next
  fix u assume "i = ForceFailed u"
  with h e same_entry [of e] show ?thesis by (auto simp: handle_def force_failed_def)
next
  fix u x assume "i = ServerProbe u x"
  with h have "probed c x = Some (c', cs)" by (simp add: handle_def)
  then show ?thesis
  proof (cases rule: probedE)
    case (Ok r ps cs1)
    then obtain u where "bt_get ps p = map_option (\<lambda>e. e\<lparr>p_upgrade := u\<rparr>) (bt_get (c_peers c) p)"
      by blast
    with Ok e show ?thesis by auto
  qed (use e same_entry [of e] in auto)
next
  fix u s assume i: "i = ServerLink u s"
  show ?thesis
  proof (cases s)
    case Reconnecting
    with i h obtain d where
      d: "lost_all (c\<lparr>c_link := Reconnecting, c_forcing := False, c_probe := probe_default\<rparr>)
         (map fst (filter (\<lambda>(_, e). p_connected e) (c_peers c))) (c_now c) = Some d"
      and c': "c' = d\<lparr>c_healing := True\<rparr>"
      by (auto simp: handle_def link_changed_def elim!: lose_linkE)
    have "p \<notin> set (map fst (filter (\<lambda>(_, e). p_connected e) (c_peers c)))"
      using e wf assms(5) by (auto simp: bt_get_iff [OF wf, symmetric])
    with lost_all_other [OF d, of p] wf e have "bt_get (c_peers c') p = Some e" by (simp add: c')
    with same_entry [of e] show ?thesis by auto
  qed (use i h e same_entry [of e] in \<open>auto simp: handle_def link_changed_def\<close>)
qed

end
