(* ===== verification/Supervisor_Safety.thy ===== *)
theory Supervisor_Safety
  imports Supervisor_Props
begin

text \<open>
  The properties of the connection supervisor, over single steps and over whole runs of inputs,
  each from the library of the two theories below it.
\<close>

section \<open>Helpers\<close>

text \<open>The inputs that end a dial: its result, the connection itself, or the peer's loss.\<close>

fun answers :: "cid \<Rightarrow> sup_input \<Rightarrow> bool" where
  "answers p (PeerLost _ q) = (p = q)"
| "answers p (PeerReleased _ q) = (p = q)"
| "answers p (PeerUp _ q _) = (p = q)"
| "answers p (DialResult _ q _) = (p = q)"
| "answers p _ = False"

definition dialing :: "core \<Rightarrow> cid \<Rightarrow> bool" where
  "dialing c p \<longleftrightarrow> (\<exists>e. bt_get (c_peers c) p = Some e \<and> r_in_flight (p_dial e))"

text \<open>A peer nobody wants: no connection, nothing queued, no interest, and not lost.\<close>

definition let_go :: "core \<Rightarrow> cid \<Rightarrow> bool" where
  "let_go c p \<longleftrightarrow>
     (\<exists>e. bt_get (c_peers c) p = Some e \<and> \<not> p_connected e \<and> p_backlog e = 0 \<and>
          p_interest_until e = None \<and> p_lost_at e = None)"

lemma core_inv_wf: "core_inv c \<Longrightarrow> bt_wf (c_peers c)"
  by (simp add: core_inv_def peers_inv_wf)

lemma touches_wf: "touches p c c' \<Longrightarrow> bt_wf (c_peers c) \<Longrightarrow> bt_wf (c_peers c')"
  by (simp add: touches_def)

lemma not_ended_drive: "drive c t = Some (c', cs) \<Longrightarrow> c_link c' = c_link c"
  by (simp add: drive_keeps)

lemma step_partsE:
  assumes "step c i = Some (c', cs)" and "core_inv c" and "c_link c \<noteq> Ended"
  obtains d cs1 cs2 where
    "handle (c\<lparr>c_now := input_time c i\<rparr>) i (input_time c i) = Some (d, cs1)"
    and "drive d (input_time c i) = Some (c', cs2)" and "cs = cs1 @ cs2"
    and "core_inv d" "c_policy d = c_policy c" "c_now d = input_time c i"
    and "c_policy c' = c_policy c" "c_now c' = input_time c i" "c_link c' = c_link d"
      "c_forcing c' = c_forcing d"
    and "\<forall>p. count_list cs (DialPeer p) = count_list cs2 (DialPeer p)"
      "\<forall>p. DialPeer p \<in> set cs \<longleftrightarrow> DialPeer p \<in> set cs2"
proof -
  from assms(1,3) obtain d cs1 cs2 where
    h: "handle (c\<lparr>c_now := input_time c i\<rparr>) i (input_time c i) = Some (d, cs1)"
    and v: "drive d (input_time c i) = Some (c', cs2)" and cs: "cs = cs1 @ cs2"
    by (rule stepE)
  from handle_inv [OF h] assms(2,3) have "core_inv d" by simp
  with handle_sound [OF h] drive_keeps [OF v] h v cs that show thesis
    by (simp add: heal_sound_def count_list_notin)
qed

text \<open>A peer the core does not know is not dialled by an input that is not about it.\<close>

lemma handle_in_flight:
  assumes h: "handle c i t = Some (c', cs)" and inv: "core_inv c" and "\<not> answers p i"
    and e: "bt_get (c_peers c) p = Some e" "r_in_flight (p_dial e)"
  shows "c_link c' = Ended \<or> dialing c' p"
proof (cases "mentions p i")
  case False
  have "\<not> p_connected e" using inv e peers_inv_get by (auto simp: core_inv_def peer_inv_def)
  from handle_other [OF h core_inv_wf [OF inv] False e(1) this] e(2) show ?thesis
    by (auto simp: dialing_def)
next
  case True
  note wf = core_inv_wf [OF inv]
  have entry: "peer_entry c p = e" using e(1) by (simp add: peer_entry_def)
  show ?thesis
  proof (cases i)
    case (PeerPath u q path)
    with h True have "path_changed c p path t = Some c'" by (auto simp: handle_def)
    from path_changed_shape [OF this] wf e(2) entry show ?thesis
      by (auto simp: dialing_def put_peer_def)
  next
    case (PeerReachable u q)
    with h True wf e(2) entry show ?thesis
      by (auto simp: handle_def reachable_def dialing_def put_peer_def Let_def)
  qed (use True assms(3) h wf e(2) entry in
      \<open>auto simp: handle_def dialing_def put_peer_def Let_def\<close>)
qed

lemma step_in_flight:
  assumes s: "step c i = Some (c', cs)" and inv: "core_inv c" and na: "\<not> answers p i" and f: "dialing c p"
  shows "DialPeer p \<notin> set cs \<and> (c_link c' = Ended \<or> dialing c' p)"
proof (cases "c_link c = Ended")
  case False
  from f obtain e where e: "bt_get (c_peers c) p = Some e" "r_in_flight (p_dial e)"
    by (auto simp: dialing_def)
  from s inv False obtain d cs1 cs2 where
      h: "handle (c\<lparr>c_now := input_time c i\<rparr>) i (input_time c i) = Some (d, cs1)"
      and v: "drive d (input_time c i) = Some (c', cs2)" and invd: "core_inv d"
      and link: "c_link c' = c_link d"
      and mem: "\<forall>p. DialPeer p \<in> set cs \<longleftrightarrow> DialPeer p \<in> set cs2"
    by (rule step_partsE)
  show ?thesis
  proof (cases "c_link d = Ended")
    case True
    with v have "cs2 = []" by (simp add: drive_idle)
    with mem link True show ?thesis by simp
  next
    case False
    with handle_in_flight [OF h _ na] e inv obtain e' where
        e': "bt_get (c_peers d) p = Some e'" "r_in_flight (p_dial e')"
      by (auto simp: dialing_def)
    from v core_inv_wf [OF invd] e'(1) show ?thesis
    proof (rule drive_at)
      fix e2 assume "bt_get (c_peers c') p = Some e2"
        and "count_list cs2 (DialPeer p) =
          (if c_link d = Up \<and> \<not> c_forcing d \<and> dial_due (c_policy d) (input_time c i) e' then 1 else 0)"
        and "r_in_flight (p_dial e2) \<longleftrightarrow> r_in_flight (p_dial e') \<or> DialPeer p \<in> set cs2"
      with e'(2) mem show ?thesis by (auto simp: dialing_def dial_due_def count_list_0_iff)
    qed
  qed
qed (use assms in \<open>simp add: step_ended\<close>)

lemma step_let_go:
  assumes s: "step c i = Some (c', cs)" and inv: "core_inv c" and nm: "\<not> mentions p i" and f: "let_go c p"
  shows "DialPeer p \<notin> set cs \<and> (c_link c' = Ended \<or> let_go c' p)"
proof (cases "c_link c = Ended")
  case False
  from f obtain e where e: "bt_get (c_peers c) p = Some e" "\<not> p_connected e" "p_backlog e = 0"
      "p_interest_until e = None" "p_lost_at e = None"
    by (auto simp: let_go_def)
  from s inv False obtain d cs1 cs2 where
      h: "handle (c\<lparr>c_now := input_time c i\<rparr>) i (input_time c i) = Some (d, cs1)"
      and v: "drive d (input_time c i) = Some (c', cs2)" and invd: "core_inv d"
      and link: "c_link c' = c_link d"
      and mem: "\<forall>p. DialPeer p \<in> set cs \<longleftrightarrow> DialPeer p \<in> set cs2"
    by (rule step_partsE)
  show ?thesis
  proof (cases "c_link d = Ended")
    case True
    with v have "cs2 = []" by (simp add: drive_idle)
    with mem link True show ?thesis by simp
  next
    case False
    with handle_other [OF h _ nm _ e(2)] e(1) core_inv_wf [OF inv] obtain u where
        e': "bt_get (c_peers d) p = Some (e\<lparr>p_upgrade := u\<rparr>)"
      by auto
    from v core_inv_wf [OF invd] e' show ?thesis
    proof (rule drive_at)
      fix e2 assume "bt_get (c_peers c') p = Some e2"
        and "count_list cs2 (DialPeer p) =
          (if c_link d = Up \<and> \<not> c_forcing d \<and>
              dial_due (c_policy d) (input_time c i) (e\<lparr>p_upgrade := u\<rparr>) then 1 else 0)"
        and "p_connected e2 = p_connected (e\<lparr>p_upgrade := u\<rparr>)"
          "p_lost_at e2 = p_lost_at (e\<lparr>p_upgrade := u\<rparr>)" "p_backlog e2 = p_backlog (e\<lparr>p_upgrade := u\<rparr>)"
          "p_interest_until e2 = p_interest_until (e\<lparr>p_upgrade := u\<rparr>)"
      with e mem show ?thesis
        by (auto simp: let_go_def dial_due_def wanted_def in_use_def has_interest_def count_list_0_iff)
    qed
  qed
qed (use assms in \<open>simp add: step_ended\<close>)

lemma run_silent:
  assumes keep: "\<And>c i c' cs. step c i = Some (c', cs) \<Longrightarrow> core_inv c \<Longrightarrow> Q i \<Longrightarrow> P c \<Longrightarrow>
      x \<notin> set cs \<and> (c_link c' = Ended \<or> P c')"
  shows "run c is = Some (c', cs) \<Longrightarrow> core_inv c \<Longrightarrow> \<forall>i \<in> set is. Q i \<Longrightarrow> c_link c = Ended \<or> P c \<Longrightarrow>
    x \<notin> set cs"
proof (induction "is" arbitrary: c cs)
  case (Cons i "is")
  from Cons.prems(1) obtain d cs1 cs2 where
      s: "step c i = Some (d, cs1)" and r: "run d is = Some (c', cs2)" and cs: "cs = cs1 @ cs2"
    by (rule run_ConsE)
  have "x \<notin> set cs1 \<and> (c_link d = Ended \<or> P d)"
    using Cons.prems(3,4) s keep [OF s Cons.prems(2)] by (auto simp: step_ended)
  moreover from this have "x \<notin> set cs2"
    using Cons.IH [OF r step_inv [OF s Cons.prems(2)]] Cons.prems(3) by simp
  ultimately show ?case using cs by simp
qed simp


lemma run_in_flight:
  "run c is = Some (c', cs) \<Longrightarrow> core_inv c \<Longrightarrow> \<forall>i \<in> set is. \<not> answers p i \<Longrightarrow>
    c_link c = Ended \<or> dialing c p \<Longrightarrow> DialPeer p \<notin> set cs"
  by (rule run_silent [where Q = "\<lambda>i. \<not> answers p i" and P = "\<lambda>c. dialing c p"])
     (rule step_in_flight)

lemma run_let_go:
  "run c is = Some (c', cs) \<Longrightarrow> core_inv c \<Longrightarrow> \<forall>i \<in> set is. \<not> mentions p i \<Longrightarrow>
    c_link c = Ended \<or> let_go c p \<Longrightarrow> DialPeer p \<notin> set cs"
  by (rule run_silent [where Q = "\<lambda>i. \<not> mentions p i" and P = "\<lambda>c. let_go c p"])
     (rule step_let_go)

text \<open>No command is due and nothing is drawn: the loop over the peers leaves all as it is.\<close>

definition upgrade_due :: "millis \<Rightarrow> peer \<Rightarrow> bool" where
  "upgrade_due t e \<longleftrightarrow> on_relay e \<and> in_use e t \<and> r_next_at (p_upgrade e) \<le> t"

lemma drive_peer_quiet:
  "\<not> dial_due pol t e \<Longrightarrow> \<not> upgrade_due t e \<Longrightarrow> drive_peer pol t p r e = Some (r, e, [])"
  unfolding drive_peer_def upgrade_due_def Let_def by (simp only: if_False prod.case)

lemma drive_peers_quiet:
  "\<forall>(p, e) \<in> set ps. \<not> dial_due pol t e \<and> \<not> upgrade_due t e \<Longrightarrow>
    drive_peers pol t r ps = Some (r, ps, [])"
proof (induction ps)
  case (Cons qe ps)
  obtain q e where qe: "qe = (q, e)" by (cases qe)
  with Cons.prems have "drive_peer pol t q r e = Some (r, e, [])" by (simp add: drive_peer_quiet)
  with Cons qe show ?case by simp
qed simp

lemma has_interest_antimono: "has_interest e t' \<Longrightarrow> t \<le> t' \<Longrightarrow> has_interest e t"
  by (auto simp: has_interest_def is_some_and_iff)

lemma in_use_antimono: "in_use e t' \<Longrightarrow> t \<le> t' \<Longrightarrow> in_use e t"
  by (auto simp: in_use_def intro: has_interest_antimono)

lemma wanted_antimono: "wanted e t' w \<Longrightarrow> t \<le> t' \<Longrightarrow> wanted e t w"
  by (auto simp: wanted_def is_some_and_iff intro: in_use_antimono le_less_trans [OF since_mono])

lemma fold_min_le: "x \<in> set (t # ts) \<Longrightarrow> fold min ts (t::nat) \<le> x"
  by (simp flip: Min.set_eq_fold)

lemma fold_min_in: "fold min ts (t::nat) \<in> set (t # ts)"
  using Min_in [of "set (t # ts)"] by (simp flip: Min.set_eq_fold)

lemma next_wake_le:
  assumes "c_link c = Up" "\<not> c_forcing c" "x \<in> set (wakes c)"
  shows "\<exists>w. next_wake c = Some w \<and> w \<le> x"
proof (cases "wakes c")
  case (Cons t ts)
  with assms show ?thesis using fold_min_le [of x t ts] by (simp add: next_wake_def)
qed (use assms in simp)

lemma next_wake_in:
  assumes "next_wake c = Some w"
  shows "c_link c = Up \<and> \<not> c_forcing c \<and> w \<in> set (wakes c)"
proof (cases "wakes c")
  case (Cons t ts)
  with assms show ?thesis using fold_min_in [of ts t] by (auto simp: next_wake_def split: if_splits)
qed (use assms in \<open>simp add: next_wake_def split: if_splits\<close>)

lemma backoff_millis_pos:
  assumes "from_millis 1 \<le> b_initial b" and "from_millis 1 \<le> b_max b"
  shows "0 < backoff_millis b a"
proof -
  have "from_millis 1 \<le> b_initial b * shl_or_max a"
    by (rule le_trans [OF assms(1)]) (simp add: Suc_leI)
  with assms(2) have "from_millis 1 \<le> min (sat_mul duration_max (b_initial b) (shl_or_max a)) (b_max b)"
    by (simp add: sat_mul_def limits from_millis_def)
  then have "1 \<le> as_millis (min (sat_mul duration_max (b_initial b) (shl_or_max a)) (b_max b))"
    by (rule iffD1 [OF from_millis_le_iff])
  then show ?thesis by (simp add: backoff_millis_def u64_max_def)
qed

lemma drive_peer_wakes:
  assumes d: "drive_peer pol t p r e = Some (r', e', cs)"
    and "jitter_permille pol \<le> 1000" and "t < u64_max" and "\<forall>a. 0 < backoff_millis (upgrade_backoff pol) a"
  shows "\<not> dial_due pol t e' \<and> \<not> upgrade_due t e'"
proof
  show "\<not> dial_due pol t e'"
    using drive_peer_effect(1,7,8) [OF d] wanted_drive_peer(1) [OF d] by (auto simp: dial_due_def)
  show "\<not> upgrade_due t e'"
  proof (cases "upgrade_due t e")
    case False
    then have "p_upgrade e' = p_upgrade e" using d
      by (auto simp: upgrade_due_def drive_peer_def Let_def on_relay_def in_use_def has_interest_def
          split: if_splits)
    with False wanted_drive_peer [OF d] show ?thesis by (simp add: upgrade_due_def)
  next
    case True
    with d obtain r1 a w where w: "delay r1 (upgrade_backoff pol) a (jitter_permille pol) = Some (r', w)"
        and e': "r_next_at (p_upgrade e') = after t w"
      by (auto simp: upgrade_due_def drive_peer_def Let_def on_relay_def in_use_def has_interest_def
          split: if_splits)
    with delay_pos [OF w assms(2)] assms(3,4) after_gt show ?thesis by (simp add: upgrade_due_def not_le)
  qed
qed


lemma in_wakes:
  "x \<in> set (wakes c) \<longleftrightarrow>
     \<not> pb_in_flight (c_probe c) \<and> pb_next_at (c_probe c) = Some x \<or>
     (\<exists>pe \<in> set (c_peers c). x \<in> set (peer_wakes c (snd pe)))"
  unfolding wakes_def set_append Un_iff in_concat_values by (simp only: in_option_list split: if_split) auto

lemma drive_wakes:
  assumes v: "drive d t = Some (c', cs)" and inv: "core_inv d" and now: "c_now d = t"
    and up: "c_link d = Up" "\<not> c_forcing d"
    and pol: "jitter_permille (c_policy d) \<le> 1000" "\<forall>a. 0 < backoff_millis (upgrade_backoff (c_policy d)) a"
    and t: "t < u64_max" and x: "x \<in> set (wakes c')"
  shows "t < x"
proof -
  from v up obtain r ps cs1 at where
      d: "drive_peers (c_policy d) t (c_rng d) (c_peers d) = Some (r, ps, cs1)"
      and c': "c' = d\<lparr>c_probe := (c_probe d)\<lparr>pb_next_at := Some at,
                 pb_in_flight := pb_in_flight (c_probe d) \<or> probe_fires d t\<rparr>, c_peers := ps, c_rng := r\<rparr>"
      and at: "at = (case pb_next_at (c_probe d) of Some at \<Rightarrow> at
               | None \<Rightarrow> after t (probe_interval (c_policy d)))"
    by (rule drive_upE)
  have peer: "t < y" if e': "(p, e') \<in> set ps" and y: "y \<in> set (peer_wakes c' e')" for p e' y
  proof -
    from e' have g: "bt_get ps p = Some e'"
      using drive_peers_wf [OF d] core_inv_wf [OF inv] by (simp add: bt_get_iff)
    then obtain e where e: "bt_get (c_peers d) p = Some e"
      using same_keys_get [OF drive_peers_keys [OF d]] by blast
    from drive_peers_at [OF d core_inv_wf [OF inv] e] g obtain r1 r2 csp where
      "drive_peer (c_policy d) t p r1 e = Some (r2, e', csp)" by auto
    from drive_peer_wakes [OF this pol(1) t pol(2)] y show ?thesis
      by (auto simp: peer_wakes_def c' now dial_due_def upgrade_due_def not_le split: if_splits)
  qed
  have probe: "t < at" if "\<not> pb_in_flight (c_probe d)" "\<not> probe_fires d t"
    using that up by (auto simp: probe_fires_def at split: option.splits)
  have fields: "c_peers c' = ps" "pb_next_at (c_probe c') = Some at"
    "pb_in_flight (c_probe c') \<longleftrightarrow> pb_in_flight (c_probe d) \<or> probe_fires d t" by (simp_all add: c')
  from x consider "x = at" "\<not> pb_in_flight (c_probe d)" "\<not> probe_fires d t"
    | pe where "pe \<in> set ps" "x \<in> set (peer_wakes c' (snd pe))"
    unfolding in_wakes fields by blast
  then show ?thesis using probe peer [of "fst pe" "snd pe" for pe] by cases auto
qed

lemma drive_quiet:
  assumes "c_link c \<noteq> Up \<or> c_forcing c \<or> pb_next_at (c_probe c) \<noteq> None"
    and w: "c_link c = Up \<Longrightarrow> \<not> c_forcing c \<Longrightarrow> \<forall>x \<in> set (wakes c). t < x"
    and now: "c_now c \<le> t"
  shows "\<exists>c'. drive ((settle c t)\<lparr>c_now := u\<rparr>) t = Some (c', [])"
proof (cases "c_link c = Up \<and> \<not> c_forcing c")
  case False
  then show ?thesis using peers_only_fields [OF settle_only [of c t]] by (auto simp: drive_def)
next
  case True
  have lo: "\<forall>x \<in> set (wakes c). t < x" using w True by simp
  have quiet: "\<not> dial_due (c_policy c) t e \<and> \<not> upgrade_due t e" if e: "(p, e) \<in> set (c_peers c)" for p e
  proof -
    have "y \<in> set (wakes c)" if "y \<in> set (peer_wakes c e)" for y
      unfolding in_wakes by (rule disjI2, rule bexI [OF _ e]) (simp add: that)
    with lo have *: "y \<in> set (peer_wakes c e) \<Longrightarrow> t < y" for y by blast
    show ?thesis
      using now wanted_antimono [of e t _ "c_now c"] in_use_antimono [of e t "c_now c"]
        * [of "r_next_at (p_dial e)"] * [of "r_next_at (p_upgrade e)"]
      by (auto simp: peer_wakes_def dial_due_def upgrade_due_def)
  qed
  have same: "dial_due pol t (settle_entry pol' t e) = dial_due pol t e"
    "upgrade_due t (settle_entry pol' t e) = upgrade_due t e" for pol pol' e
    by (simp_all add: dial_due_def upgrade_due_def wanted_def in_use_def has_interest_def on_relay_def)
  have d: "drive_peers (c_policy c) t r (c_peers (settle c t)) = Some (r, c_peers (settle c t), [])" for r
  proof (rule drive_peers_quiet, rule ballI, rule case_prodI2)
    fix pe p e assume "pe \<in> set (c_peers (settle c t))" "pe = (p, e)"
    then obtain e0 where "(p, e0) \<in> set (c_peers c)" "e = settle_entry (c_policy c) t e0"
      by (auto simp: settle_def bt_map_def)
    with quiet show "\<not> dial_due (c_policy c) t e \<and> \<not> upgrade_due t e" by (simp add: same)
  qed
  from True assms(1) obtain at where at: "pb_next_at (c_probe c) = Some at" by auto
  have "at \<in> set (wakes c)" if "\<not> pb_in_flight (c_probe c)"
    unfolding in_wakes using that at by simp
  with lo have "pb_in_flight (c_probe c) \<or> \<not> at \<le> t" by (auto simp: not_le)
  with True at d [of "c_rng c"] show ?thesis
    unfolding drive_def Let_def by (simp add: settle_def)
qed


lemma step_released:
  assumes s: "step c (PeerReleased t p) = Some (c', cs)" and inv: "core_inv c"
    and "p_backlog (peer_entry c p) = 0"
  shows "DialPeer p \<notin> set cs \<and> (c_link c' = Ended \<or> let_go c' p)"
proof (cases "c_link c = Ended")
  case False
  let ?c = "c\<lparr>c_now := t\<rparr>"
  from s inv False obtain d cs1 cs2 where
      h: "handle ?c (PeerReleased t p) t = Some (d, cs1)"
      and v: "drive d t = Some (c', cs2)" and invd: "core_inv d"
      and mem: "\<forall>p. DialPeer p \<in> set cs \<longleftrightarrow> DialPeer p \<in> set cs2"
    by (rule step_partsE) simp
  have backlog: "p_backlog (peer_entry ?c p) = 0"
    using assms(3) by (auto simp: peer_entry_def peer_new_def split: option.splits)
  from h obtain l where l: "lost ?c p t = Some l"
    and d: "d = put_peer l p ((peer_entry l p)\<lparr>p_lost_at := None, p_interest_until := None\<rparr>)"
    by (auto simp: handle_def released_def)
  from l obtain r e where le: "lost_entry (c_policy c) t (c_rng c) (peer_entry ?c p) = Some (r, e)"
    and "l = (put_peer ?c p e)\<lparr>c_rng := r\<rparr>" by (auto simp: lost_def)
  with d core_inv_wf [OF inv]
  have e: "bt_get (c_peers d) p = Some (e\<lparr>p_lost_at := None, p_interest_until := None\<rparr>)"
    by (simp add: put_peer_def peer_entry_def)
  from v core_inv_wf [OF invd] e show ?thesis
    by (rule drive_at)
       (use lost_entry_effect [OF le] backlog mem in
         \<open>auto simp: let_go_def dial_due_def wanted_def in_use_def has_interest_def count_list_0_iff\<close>)
qed (use s in \<open>simp add: step_ended\<close>)

text \<open>After a step on a live link the next probe is scheduled.\<close>

lemma drive_schedules:
  assumes "drive d t = Some (c', cs)"
  shows "c_link c' \<noteq> Up \<or> c_forcing c' \<or> pb_next_at (c_probe c') \<noteq> None"
proof (cases "c_link d = Up \<and> \<not> c_forcing d")
  case True
  with assms show ?thesis by (auto elim!: drive_upE)
qed (use assms in \<open>auto simp: drive_def\<close>)

lemma settle_now: "(settle (c\<lparr>c_now := t\<rparr>) t) = (settle c t)\<lparr>c_now := t\<rparr>"
  by (simp add: settle_def)

text \<open>One more timeout, below the limit.\<close>

lemma timeout_step:
  assumes "step c (ServerProbe t ProbeTimeout) = Some (c', cs)"
    and up: "c_link c = Up" "\<not> c_forcing c" "\<not> pb_recheck (c_probe c)"
    and less: "pb_missed (c_probe c) + 1 < missed_probes (c_policy c)"
  shows "c_link c' = Up \<and> \<not> c_forcing c' \<and> \<not> pb_recheck (c_probe c') \<and>
    pb_missed (c_probe c') = pb_missed (c_probe c) + 1 \<and> c_policy c' = c_policy c \<and>
    ForceReconnect \<notin> set cs \<and> count_list cs ProbeServer = 1"
proof -
  let ?c = "c\<lparr>c_now := t, c_probe := (c_probe c)\<lparr>pb_missed := pb_missed (c_probe c) + 1, pb_in_flight := True\<rparr>\<rparr>"
  from assms(1) up less obtain cs2 where v: "drive ?c t = Some (c', cs2)" and cs: "cs = ProbeServer # cs2"
    by (auto simp: step_def handle_def probed_def Let_def split: if_splits)
  from v up obtain r ps at where
      d: "drive_peers (c_policy c) t (c_rng c) (c_peers c) = Some (r, ps, cs2)"
      and c': "c' = ?c\<lparr>c_probe := (c_probe ?c)\<lparr>pb_next_at := Some at, pb_in_flight := True\<rparr>,
               c_peers := ps, c_rng := r\<rparr>"
    by (rule_tac drive_upE [OF v]) (auto simp: probe_fires_def)
  have "ForceReconnect \<notin> set cs2" "ProbeServer \<notin> set cs2"
    using drive_peers_cmds [OF d] by blast+
  with c' cs up show ?thesis by (simp add: count_list_notin)
qed

lemma timeouts_run:
  "run c (map (\<lambda>t. ServerProbe t ProbeTimeout) ts) = Some (c', cs) \<Longrightarrow>
    c_link c = Up \<Longrightarrow> \<not> c_forcing c \<Longrightarrow> \<not> pb_recheck (c_probe c) \<Longrightarrow>
    pb_missed (c_probe c) + length ts < missed_probes (c_policy c) \<Longrightarrow>
    c_link c' = Up \<and> \<not> c_forcing c' \<and> \<not> pb_recheck (c_probe c') \<and>
    pb_missed (c_probe c') = pb_missed (c_probe c) + length ts \<and> c_policy c' = c_policy c \<and>
    ForceReconnect \<notin> set cs \<and> count_list cs ProbeServer = length ts"
proof (induction ts arbitrary: c cs)
  case (Cons t ts)
  from Cons.prems(1) obtain d cs1 cs2 where s: "step c (ServerProbe t ProbeTimeout) = Some (d, cs1)"
      and r: "run d (map (\<lambda>t. ServerProbe t ProbeTimeout) ts) = Some (c', cs2)" and cs: "cs = cs1 @ cs2"
    by auto
  from timeout_step [OF s] Cons.prems have "c_link d = Up \<and> \<not> c_forcing d \<and> \<not> pb_recheck (c_probe d) \<and>
    pb_missed (c_probe d) = pb_missed (c_probe c) + 1 \<and> c_policy d = c_policy c \<and>
    ForceReconnect \<notin> set cs1 \<and> count_list cs1 ProbeServer = 1" by simp
  with Cons.IH [OF r] Cons.prems cs show ?case by simp
qed simp


section \<open>Probes\<close>

text \<open>The inputs that end a probe: its result, or a link that starts afresh.\<close>

fun probe_ends :: "sup_input \<Rightarrow> bool" where
  "probe_ends (ServerProbe _ _) = True"
| "probe_ends (ServerLink _ _) = True"
| "probe_ends (ForceFailed _) = True"
| "probe_ends _ = False"

definition probe_sound :: "core \<Rightarrow> sup_input \<Rightarrow> core \<Rightarrow> sup_command list \<Rightarrow> bool" where
  "probe_sound c i d cs \<longleftrightarrow>
     count_list cs ProbeServer \<le> 1 \<and>
     (ProbeServer \<in> set cs \<longrightarrow> pb_in_flight (c_probe d) \<and> c_link d = Up) \<and>
     (pb_in_flight (c_probe c) \<and> \<not> probe_ends i \<longrightarrow> ProbeServer \<notin> set cs \<and> pb_in_flight (c_probe d))"

lemma upgrades_no_probe: "\<forall>x \<in> set cs. \<exists>p. x = UpgradePath p True \<Longrightarrow> ProbeServer \<notin> set cs"
  by blast

lemma handle_probe:
  assumes h: "handle c i t = Some (d, cs)"
  shows "probe_sound c i d cs"
  using mentions_cases [of i]
proof (elim disjE exE)
  fix p assume p: "mentions p i"
  from handle_peer [OF h p] have "touches p c d" "ProbeServer \<notin> set cs" by auto
  with peers_only_fields [OF touches_only, of p c d] show ?thesis
    by (simp add: probe_sound_def count_list_notin)
next
  fix u assume "i = Tick u"
  with h peers_only_fields [OF settle_only [of c t]] show ?thesis
    by (auto simp: handle_def probe_sound_def)
next
  fix u assume "i = NetworkChanged u"
  with h show ?thesis
    by (auto simp: handle_def probe_sound_def network_changed_def Let_def split: if_splits)
next
  fix u assume "i = ForceFailed u"
  with h show ?thesis by (auto simp: handle_def probe_sound_def)
next
  fix u x assume i: "i = ServerProbe u x"
  with h have "probed c x = Some (d, cs)" by (simp add: handle_def)
  then show ?thesis
    by (cases rule: probedE) (auto simp: probe_sound_def i count_list_notin dest: upgrades_no_probe)
next
  fix u s assume i: "i = ServerLink u s"
  with h show ?thesis
    by (cases s) (auto simp: handle_def link_changed_def probe_sound_def elim!: lose_linkE split: if_splits)
qed

lemma drive_probe:
  assumes v: "drive d t = Some (c', cs)"
  shows "count_list cs ProbeServer = (if probe_fires d t then 1 else 0) \<and>
    pb_in_flight (c_probe c') = (pb_in_flight (c_probe d) \<or> probe_fires d t)"
proof (cases "c_link d = Up \<and> \<not> c_forcing d")
  case True
  with v obtain r ps cs1 at where
      d: "drive_peers (c_policy d) t (c_rng d) (c_peers d) = Some (r, ps, cs1)"
      and c': "c' = d\<lparr>c_probe := (c_probe d)\<lparr>pb_next_at := Some at,
                 pb_in_flight := pb_in_flight (c_probe d) \<or> probe_fires d t\<rparr>, c_peers := ps, c_rng := r\<rparr>"
      and cs: "cs = (if probe_fires d t then [ProbeServer] else []) @ cs1"
    by (auto elim: drive_upE)
  have "ProbeServer \<notin> set cs1" using drive_peers_cmds [OF d] by blast
  with c' cs show ?thesis by (simp add: count_list_notin)
qed (use v in \<open>auto simp: drive_def probe_fires_def\<close>)

section \<open>The agent's own policy\<close>

lemma agent_sane: "sane_policy AGENT_SUPERVISOR"
  by (simp add: sane_policy_def AGENT_SUPERVISOR_def u32_max_def)

lemma agent_run_total: "\<exists>c' cs. run (core_new AGENT_SUPERVISOR me) is = Some (c', cs)"
proof (rule run_total)
  show "sane_policy (c_policy (core_new AGENT_SUPERVISOR me))" by (simp add: core_new_def agent_sane)
qed simp

lemma agent_step_total: "\<exists>c' cs. step (core_new AGENT_SUPERVISOR me) i = Some (c', cs)"
proof (rule step_total)
  show "sane_policy (c_policy (core_new AGENT_SUPERVISOR me))" by (simp add: core_new_def agent_sane)
qed simp

text \<open>An agent that knows one peer.\<close>

definition agent_with :: "cid \<Rightarrow> peer \<Rightarrow> core" where
  "agent_with p e = (core_new AGENT_SUPERVISOR 7)\<lparr>c_peers := [(p, e)]\<rparr>"

lemma agent_with_inv: "peer_inv e \<Longrightarrow> core_inv (agent_with p e)"
  by (simp add: agent_with_def core_inv_def core_new_def probe_default_def peers_inv_def)

lemma agent_with_sane: "sane_policy (c_policy (agent_with p e))"
  using agent_sane by (simp add: agent_with_def core_new_def)

lemma agent_with_step: "core_inv (agent_with p e) \<Longrightarrow> \<exists>c' cs. step (agent_with p e) i = Some (c', cs)"
  using step_total [OF agent_with_sane] by blast

lemma agent_with_run: "core_inv (agent_with p e) \<Longrightarrow> \<exists>c' cs. run (agent_with p e) is = Some (c', cs)"
  using run_total [OF agent_with_sane] by blast

text \<open>An agent whose probe is out.\<close>

definition agent_probing :: "millis \<Rightarrow> core" where
  "agent_probing t = (core_new AGENT_SUPERVISOR 7)\<lparr>c_now := t,
     c_probe := probe_default\<lparr>pb_in_flight := True, pb_next_at := Some 15000\<rparr>\<rparr>"

lemma agent_probing: "core_inv (agent_probing t)" "sane_policy (c_policy (agent_probing t))"
  using agent_sane
  by (simp_all add: agent_probing_def core_inv_def core_new_def probe_default_def peers_inv_def)

section \<open>Properties\<close>

text \<open>
  C1. No run of the core panics: from a new core under a policy whose jitter is at most 1000
  permille and whose probe limit fits a u32, every sequence of inputs, at any times, is handled
  (the checked counter and the checked subtraction of the jitter never fail).
\<close>

theorem supervisor_never_panics:
  "sane_policy pol \<Longrightarrow> \<exists>c' cs. run (core_new pol me) is = Some (c', cs)"
  by (rule run_total) (simp add: core_new_def, rule core_inv_new)

theorem supervisor_never_panics_witness:
  "\<exists>c' cs. run (core_new AGENT_SUPERVISOR 7)
     [ServerLink 0 Up, Interest 9 9000, Tick 5, ServerProbe 20000 ProbeTimeout,
      ServerProbe 25000 ProbeTimeout] = Some (c', cs)"
  by (rule supervisor_never_panics) (simp add: sane_policy_def AGENT_SUPERVISOR_def u32_max_def)

text \<open>
  C2. The invariant of every reachable core: a connected peer has a path and a connection time,
  has no dial out and is not marked lost; the missed-probe count is below the policy's limit; a
  recheck only waits behind a probe that is out; while the link reconnects the core is healing
  with no probe out and no forced reconnect pending; after the end it holds no peers.
\<close>

theorem supervisor_reachable_inv:
  "run (core_new pol me) is = Some (c', cs) \<Longrightarrow> core_inv c'"
  by (drule run_keeps) simp_all

theorem supervisor_reachable_inv_witness:
  "\<exists>c' cs. run (core_new AGENT_SUPERVISOR 7)
     [Interest 9 9000, PeerUp 10 9 ServerRelay, NetworkChanged 20, ServerLink 30 Reconnecting] = Some (c', cs) \<and>
     core_inv c'"
proof -
  obtain c' cs where r: "run (core_new AGENT_SUPERVISOR 7)
     [Interest 9 9000, PeerUp 10 9 ServerRelay, NetworkChanged 20, ServerLink 30 Reconnecting] = Some (c', cs)"
    using agent_run_total by blast
  from supervisor_reachable_inv [OF r] r show ?thesis by blast
qed

text \<open>
  What windows are told of healing is a well-formed history: over any run, Healing and
  Healed strictly alternate starting with Healing, whatever caused them (a lost link, missed
  probes, a forced reconnect, a probe that answers), and the core's own flag is whether the last
  one opened a healing.
\<close>

theorem supervisor_heal_history:
  "run (core_new pol me) is = Some (c', cs) \<Longrightarrow> heal_track False cs = Some (c_healing c')"
  by (drule run_heal) (simp add: core_new_def)

theorem supervisor_heal_history_witness:
  "\<exists>c' cs. run (core_new AGENT_SUPERVISOR 7)
     [Tick 0, Tick 15000, ServerProbe 20000 ProbeTimeout, ServerProbe 25000 ProbeTimeout,
      ServerLink 26000 Reconnecting, ServerLink 27000 Up] = Some (c', cs) \<and>
     filter (\<lambda>x. \<not> heal_free x) cs = [Report (Healing ProbesMissed), Report Healed] \<and>
     heal_track False cs = Some (c_healing c')"
proof -
  let ?is = "[Tick 0, Tick 15000, ServerProbe 20000 ProbeTimeout, ServerProbe 25000 ProbeTimeout,
      ServerLink 26000 Reconnecting, ServerLink 27000 Up]"
  obtain c' cs where r: "run (core_new AGENT_SUPERVISOR 7) ?is = Some (c', cs)"
    using agent_run_total by blast
  have "map_option snd (run (core_new AGENT_SUPERVISOR 7) ?is) =
      Some [ProbeServer, ProbeServer, ForceReconnect, Report (Healing ProbesMissed), Report Healed]"
    by (simp add: core_eval link_changed_def lose_link_def)
  from map_option_SomeD [OF this r]
  have "filter (\<lambda>x. \<not> heal_free x) cs = [Report (Healing ProbesMissed), Report Healed]"
    by (simp add: heal_free_def)
  with r supervisor_heal_history [OF r] show ?thesis by blast
qed

text \<open>
  C3. A dial is only made when it must be: a step that emits DialPeer emits it once, on a live
  link with no forced reconnect pending, under a policy that dials, for a peer that is known,
  not connected, wanted (backlog, unexpired interest, or lost within the redial window) and past
  its backoff; afterwards that dial is in flight.
\<close>

theorem supervisor_dial_safe:
  assumes "core_inv c" and "step c i = Some (c', cs)" and "DialPeer p \<in> set cs"
  shows "count_list cs (DialPeer p) = 1 \<and> c_link c' = Up \<and> \<not> c_forcing c' \<and> dial_peers (c_policy c) \<and>
    (\<exists>e. bt_get (c_peers c') p = Some e \<and> \<not> p_connected e \<and> r_in_flight (p_dial e) \<and>
      wanted e (c_now c') (redial_window (c_policy c)) \<and> r_next_at (p_dial e) \<le> c_now c')"
proof -
  have ne: "c_link c \<noteq> Ended" using assms(2,3) by (auto simp: step_ended)
  from assms(2,1) ne obtain d cs1 cs2 where v: "drive d (input_time c i) = Some (c', cs2)"
      and inv: "core_inv d" and pol: "c_policy d = c_policy c"
      and now: "c_now c' = input_time c i" and link: "c_link c' = c_link d" "c_forcing c' = c_forcing d"
      and cnt: "\<forall>p. count_list cs (DialPeer p) = count_list cs2 (DialPeer p)"
      and mem: "\<forall>p. DialPeer p \<in> set cs \<longleftrightarrow> DialPeer p \<in> set cs2"
    by (rule step_partsE)
  from assms(3) mem have in2: "DialPeer p \<in> set cs2" by simp
  with drive_absent [OF v] obtain e where e: "bt_get (c_peers d) p = Some e" by fastforce
  from v core_inv_wf [OF inv] e show ?thesis
  proof (rule drive_at)
    fix e' assume e': "bt_get (c_peers c') p = Some e'"
      "p_connected e' = p_connected e" "p_lost_at e' = p_lost_at e" "p_backlog e' = p_backlog e"
      "p_interest_until e' = p_interest_until e" "r_next_at (p_dial e') = r_next_at (p_dial e)"
      and n: "count_list cs2 (DialPeer p) =
        (if c_link d = Up \<and> \<not> c_forcing d \<and> dial_due (c_policy d) (input_time c i) e then 1 else 0)"
      and f: "r_in_flight (p_dial e') \<longleftrightarrow> r_in_flight (p_dial e) \<or> DialPeer p \<in> set cs2"
    from in2 have "count_list cs2 (DialPeer p) \<noteq> 0" by (simp add: count_list_0_iff)
    with n have due: "c_link d = Up \<and> \<not> c_forcing d \<and> dial_due (c_policy c) (input_time c i) e"
      and one: "count_list cs2 (DialPeer p) = 1" by (auto simp: pol split: if_splits)
    then have "wanted e' (c_now c') (redial_window (c_policy c))"
      by (simp add: e' now dial_due_def wanted_def in_use_def has_interest_def)
    with due one e' f in2 cnt link now show ?thesis by (auto simp: dial_due_def)
  qed
qed

theorem supervisor_dial_safe_witness:
  "\<exists>c' cs e. step (core_new AGENT_SUPERVISOR 7) (Interest 9 9000) = Some (c', cs) \<and>
     DialPeer 9 \<in> set cs \<and> count_list cs (DialPeer 9) = 1 \<and> c_link c' = Up \<and>
     bt_get (c_peers c') 9 = Some e \<and> r_in_flight (p_dial e)"
proof -
  obtain c' cs where s: "step (core_new AGENT_SUPERVISOR 7) (Interest 9 9000) = Some (c', cs)"
    using agent_step_total by blast
  have "map_option snd (step (core_new AGENT_SUPERVISOR 7) (Interest 9 9000)) =
      Some [Report (PeerDialing 9), DialPeer 9]"
    by (simp add: core_eval)
  from map_option_SomeD [OF this s] have "DialPeer 9 \<in> set cs" by simp
  with s supervisor_dial_safe [OF core_inv_new s this] show ?thesis by blast
qed

text \<open>
  A dial that is due is made: a peer whose dial is due at the step's time is dialled by
  whatever input wakes the core then, exactly once, as long as the input is not about that peer
  and the link is live after it.
\<close>

theorem supervisor_due_dialled:
  assumes "core_inv c" and "step c i = Some (c', cs)" and "\<not> mentions p i"
    and "bt_get (c_peers c) p = Some e" and "dial_due (c_policy c) (input_time c i) e"
    and "c_link c \<noteq> Ended" and "c_link c' = Up" and "\<not> c_forcing c'"
  shows "count_list cs (DialPeer p) = 1"
proof -
  from assms(2,1,6) obtain d cs1 cs2 where
      h: "handle (c\<lparr>c_now := input_time c i\<rparr>) i (input_time c i) = Some (d, cs1)"
      and v: "drive d (input_time c i) = Some (c', cs2)"
      and inv: "core_inv d" and pol: "c_policy d = c_policy c"
      and link: "c_link c' = c_link d" "c_forcing c' = c_forcing d"
      and cnt: "\<forall>p. count_list cs (DialPeer p) = count_list cs2 (DialPeer p)"
    by (rule step_partsE)
  from handle_other [OF h _ assms(3) _, of e] assms(1,4,5,7) link obtain u where
      "bt_get (c_peers d) p = Some (e\<lparr>p_upgrade := u\<rparr>)"
    by (auto simp: dial_due_def core_inv_wf)
  moreover have "dial_due (c_policy d) (input_time c i) (e\<lparr>p_upgrade := u\<rparr>)"
    using assms(5) by (simp add: pol dial_due_def wanted_def in_use_def has_interest_def)
  ultimately show ?thesis
    using drive_at [OF v core_inv_wf [OF inv]] cnt link assms(7,8) by (metis (full_types))
qed

theorem supervisor_due_dialled_witness:
  "\<exists>c' cs. step (agent_with 9 ((peer_new 0)\<lparr>p_backlog := 1\<rparr>)) (Tick 5) = Some (c', cs) \<and>
     count_list cs (DialPeer 9) = 1"
proof -
  let ?c = "agent_with 9 ((peer_new 0)\<lparr>p_backlog := 1\<rparr>)"
  have inv: "core_inv ?c" by (rule agent_with_inv) (simp add: peer_inv_def peer_new_def)
  obtain c' cs where s: "step ?c (Tick 5) = Some (c', cs)"
    using agent_with_step [OF inv] by blast
  have "map_option (\<lambda>(c, _). (c_link c, c_forcing c)) (step ?c (Tick 5)) = Some (Up, False)"
    by (simp add: agent_with_def core_eval)
  from map_option_SomeD [OF this s] have "c_link c' = Up" "\<not> c_forcing c'" by simp_all
  then have "count_list cs (DialPeer 9) = 1"
    by (intro supervisor_due_dialled [OF inv s, of 9 "(peer_new 0)\<lparr>p_backlog := 1\<rparr>"])
       (simp_all add: agent_with_def core_eval)
  with s show ?thesis by blast
qed

text \<open>
  A dial is not repeated while it is out: over any run of inputs none of which is the
  dial's result, the connection, or the loss or release of that peer, the core sends no second
  DialPeer for a peer it is dialling, whatever happens to the link, the network or the clock.
\<close>

theorem supervisor_dial_not_repeated:
  assumes "run c is = Some (c', cs)" and "core_inv c" and "dialing c p"
    and "\<forall>i \<in> set is. \<not> answers p i"
  shows "DialPeer p \<notin> set cs"
  using run_in_flight [OF assms(1,2,4)] assms(3) by blast

theorem supervisor_dial_not_repeated_witness:
  "\<exists>c' cs. run (agent_with 9 ((peer_new 0)\<lparr>p_backlog := 1, p_dial := (retry_new 0)\<lparr>r_in_flight := True\<rparr>\<rparr>))
     [Tick 5, ServerLink 10 Reconnecting, ServerLink 20 Up, PeerReachable 30 9] = Some (c', cs) \<and>
     DialPeer 9 \<notin> set cs"
proof -
  let ?e = "(peer_new 0)\<lparr>p_backlog := 1, p_dial := (retry_new 0)\<lparr>r_in_flight := True\<rparr>\<rparr>"
  have inv: "core_inv (agent_with 9 ?e)" by (rule agent_with_inv) (simp add: peer_inv_def peer_new_def)
  obtain c' cs where r: "run (agent_with 9 ?e)
      [Tick 5, ServerLink 10 Reconnecting, ServerLink 20 Up, PeerReachable 30 9] = Some (c', cs)"
    using agent_with_run [OF inv] by blast
  have "dialing (agent_with 9 ?e) 9" by (simp add: dialing_def agent_with_def)
  then have "DialPeer 9 \<notin> set cs" by (rule supervisor_dial_not_repeated [OF r inv]) simp
  with r show ?thesis by blast
qed

text \<open>
  C4. A released peer stays let go: after PeerReleased for a peer with no backlog, no run of
  inputs that leaves that peer alone dials it, not even a lost and restored link.
\<close>

theorem supervisor_released_not_redialled:
  assumes "core_inv c" and "step c (PeerReleased t p) = Some (d, cs0)"
    and "p_backlog (peer_entry c p) = 0"
    and "run d is = Some (c', cs)" and "\<forall>i \<in> set is. \<not> mentions p i"
  shows "DialPeer p \<notin> set (cs0 @ cs)"
proof -
  have "DialPeer p \<notin> set cs0 \<and> (c_link d = Ended \<or> let_go d p)"
    using step_released [OF assms(2,1,3)] .
  with run_let_go [OF assms(4) step_inv [OF assms(2,1)] assms(5)] show ?thesis by auto
qed


theorem supervisor_released_not_redialled_witness:
  "\<exists>d cs0 c' cs. step (core_new AGENT_SUPERVISOR 7) (PeerReleased 5 9) = Some (d, cs0) \<and>
     run d [Tick 6, ServerLink 7 Reconnecting, ServerLink 8 Up, Tick 900000] = Some (c', cs) \<and>
     DialPeer 9 \<notin> set (cs0 @ cs)"
proof -
  obtain d cs0 where s: "step (core_new AGENT_SUPERVISOR 7) (PeerReleased 5 9) = Some (d, cs0)"
    using agent_step_total by blast
  have "sane_policy (c_policy d)" using step_policy [OF s] agent_sane by (simp add: core_new_def)
  then obtain c' cs where r: "run d [Tick 6, ServerLink 7 Reconnecting, ServerLink 8 Up, Tick 900000] = Some (c', cs)"
    using run_total step_inv [OF s core_inv_new] by blast
  have "p_backlog (peer_entry (core_new AGENT_SUPERVISOR 7) 9) = 0"
    by (simp add: peer_entry_def core_new_def peer_new_def)
  then have "DialPeer 9 \<notin> set (cs0 @ cs)"
    by (rule supervisor_released_not_redialled [OF core_inv_new s _ r]) simp
  with s r show ?thesis by blast
qed

text \<open>
  At most one probe of the server is out: a step sends at most one, only on a live link,
  and notes it as in flight; while one is in flight no input sends another but the probe's own
  result and the inputs that start the link afresh.
\<close>

theorem supervisor_one_probe:
  assumes "step c i = Some (c', cs)" and "core_inv c"
  shows "count_list cs ProbeServer \<le> 1 \<and>
    (ProbeServer \<in> set cs \<longrightarrow> pb_in_flight (c_probe c') \<and> c_link c' = Up) \<and>
    (pb_in_flight (c_probe c) \<and> \<not> probe_ends i \<longrightarrow> ProbeServer \<notin> set cs)"
proof (cases "c_link c = Ended")
  case False
  with assms obtain d cs1 cs2 where
      h: "handle (c\<lparr>c_now := input_time c i\<rparr>) i (input_time c i) = Some (d, cs1)"
      and v: "drive d (input_time c i) = Some (c', cs2)" and cs: "cs = cs1 @ cs2"
      and link: "c_link c' = c_link d"
    by (auto elim!: step_partsE)
  have "ProbeServer \<in> set cs2 \<longleftrightarrow> probe_fires d (input_time c i)"
    using drive_probe [OF v] by (metis count_list_0_iff zero_neq_one)
  with handle_probe [OF h] drive_probe [OF v] cs link show ?thesis
    by (auto simp: probe_sound_def probe_fires_def count_list_0_iff split: if_splits)
qed (use assms in \<open>simp add: step_ended\<close>)

theorem supervisor_one_probe_witness:
  "\<exists>c' cs. step (agent_probing 0) (NetworkChanged 5) = Some (c', cs) \<and>
     pb_in_flight (c_probe (agent_probing 0)) \<and> ProbeServer \<notin> set cs"
proof -
  obtain c' cs where s: "step (agent_probing 0) (NetworkChanged 5) = Some (c', cs)"
    using step_total [OF agent_probing(2,1)] by blast
  have "pb_in_flight (c_probe (agent_probing 0))" by (simp add: agent_probing_def)
  with supervisor_one_probe [OF s agent_probing(1)] s show ?thesis by auto
qed

text \<open>
  C5. A silent server is given exactly the policy's number of chances: on a live link with no
  probe missed yet, that many timeouts in a row (and no fewer) force one reconnect, every
  timeout before the last one sends the next probe at once, and the last one leaves the core
  healing with the reconnect pending.
\<close>

theorem supervisor_forces_after_missed:
  assumes "c_link c = Up" and "\<not> c_forcing c" and "\<not> pb_recheck (c_probe c)"
    and "pb_missed (c_probe c) = 0" and "length ts + 1 = missed_probes (c_policy c)"
    and "run c (map (\<lambda>t. ServerProbe t ProbeTimeout) ts) = Some (d, cs)"
    and "step d (ServerProbe t ProbeTimeout) = Some (c', cs')"
  shows "ForceReconnect \<notin> set cs \<and> count_list cs ProbeServer = length ts \<and> \<not> c_forcing d \<and>
    cs' = ForceReconnect # (if c_healing d then [] else [Report (Healing ProbesMissed)]) \<and>
    c_forcing c' \<and> c_healing c' \<and> pb_missed (c_probe c') = 0"
proof -
  from timeouts_run [OF assms(6,1,2,3)] assms(4,5)
  have d: "c_link d = Up" "\<not> c_forcing d" "\<not> pb_recheck (c_probe d)"
    "pb_missed (c_probe d) = length ts" "c_policy d = c_policy c"
    and cs: "ForceReconnect \<notin> set cs" "count_list cs ProbeServer = length ts" by auto
  from assms(7) d assms(5) show ?thesis
    by (auto simp: step_def handle_def probed_def Let_def drive_def cs split: if_splits)
qed

theorem supervisor_forces_after_missed_witness:
  "\<exists>d cs c' cs'. run (agent_probing 0) [ServerProbe 20000 ProbeTimeout] = Some (d, cs) \<and>
     step d (ServerProbe 25000 ProbeTimeout) = Some (c', cs') \<and>
     ForceReconnect \<notin> set cs \<and> ForceReconnect \<in> set cs' \<and> c_forcing c'"
proof -
  obtain d cs where r: "run (agent_probing 0) [ServerProbe 20000 ProbeTimeout] = Some (d, cs)"
    using run_total [OF agent_probing(2,1)] by blast
  from run_keeps [OF r agent_probing(1)] have "core_inv d" "sane_policy (c_policy d)"
    using agent_probing(2) by simp_all
  then obtain c' cs' where s: "step d (ServerProbe 25000 ProbeTimeout) = Some (c', cs')"
    using step_total by blast
  have "ForceReconnect \<notin> set cs \<and> count_list cs ProbeServer = length [20000::nat] \<and> \<not> c_forcing d \<and>
    cs' = ForceReconnect # (if c_healing d then [] else [Report (Healing ProbesMissed)]) \<and>
    c_forcing c' \<and> c_healing c' \<and> pb_missed (c_probe c') = 0"
  proof (rule supervisor_forces_after_missed [where ts = "[20000]" and c = "agent_probing 0"])
    show "run (agent_probing 0) (map (\<lambda>t. ServerProbe t ProbeTimeout) [20000]) = Some (d, cs)"
      using r by simp
  qed (rule s | simp add: agent_probing_def core_new_def probe_default_def AGENT_SUPERVISOR_def)+
  with r s show ?thesis by (metis list.set_intros(1))
qed

text \<open>
  The core never spins: after any step before the end of the clock, the moment it asks to
  be woken at is strictly later than now, under a policy whose upgrade backoff is at least a
  millisecond and whose jitter is at most 1000 permille.
\<close>

theorem supervisor_wakes_later:
  assumes "core_inv c" and "step c i = Some (c', cs)" and "next_wake c' = Some w"
    and "sane_policy (c_policy c)" and "from_millis 1 \<le> b_initial (upgrade_backoff (c_policy c))"
    and "from_millis 1 \<le> b_max (upgrade_backoff (c_policy c))" and "input_time c i < u64_max"
  shows "input_time c i < w"
proof -
  have ne: "c_link c \<noteq> Ended" using assms(2,3) by (auto simp: step_ended next_wake_def)
  from assms(2,1) ne obtain d cs1 cs2 where v: "drive d (input_time c i) = Some (c', cs2)"
      and inv: "core_inv d" and pol: "c_policy d = c_policy c" and now: "c_now d = input_time c i"
      and link: "c_link c' = c_link d" "c_forcing c' = c_forcing d"
    by (rule step_partsE)
  from next_wake_in [OF assms(3)] have "w \<in> set (wakes c')" "c_link d = Up" "\<not> c_forcing d"
    by (simp_all add: link)
  with drive_wakes [OF v inv now] assms(4-7) pol show ?thesis
    by (simp add: sane_policy_def backoff_millis_pos)
qed

theorem supervisor_wakes_later_witness:
  "\<exists>c' cs. step (core_new AGENT_SUPERVISOR 7) (Tick 5) = Some (c', cs) \<and> next_wake c' = Some 15005 \<and>
     (5::nat) < 15005"
proof -
  obtain c' cs where s: "step (core_new AGENT_SUPERVISOR 7) (Tick 5) = Some (c', cs)"
    using agent_step_total by blast
  have "map_option (\<lambda>(c, _). next_wake c) (step (core_new AGENT_SUPERVISOR 7) (Tick 5)) = Some (Some 15005)"
    by (simp add: core_eval next_wake_def wakes_def)
  from map_option_SomeD [OF this s] have w: "next_wake c' = Some 15005" by simp
  have "input_time (core_new AGENT_SUPERVISOR 7) (Tick 5) < 15005"
    by (rule supervisor_wakes_later [OF core_inv_new s w])
       (simp_all add: core_new_def agent_sane, simp_all add: AGENT_SUPERVISOR_def from_secs_def
          from_millis_def u64_max_def)
  with s w show ?thesis by simp
qed

text \<open>
  Nothing is missed between wake-ups: after any step, a tick at any later moment before the
  one the core asked to be woken at (or at any moment, when it asked for none) is handled and
  produces no command at all.
\<close>

theorem supervisor_quiet_until_wake:
  assumes "core_inv c0" and "step c0 i = Some (c, cs)" and "c_now c \<le> t"
    and "\<forall>w. next_wake c = Some w \<longrightarrow> t < w"
  shows "\<exists>c'. step c (Tick t) = Some (c', [])"
proof (cases "c_link c = Ended")
  case False
  then have ne: "c_link c0 \<noteq> Ended" using assms(2) by (auto simp: step_ended)
  from assms(2,1) ne obtain d cs2 where v: "drive d (input_time c0 i) = Some (c, cs2)"
    by (rule step_partsE)
  have late: "\<forall>x \<in> set (wakes c). t < x" if "c_link c = Up" "\<not> c_forcing c"
    using next_wake_le [OF that] assms(4) by fastforce
  from drive_quiet [OF drive_schedules [OF v] late assms(3)] False show ?thesis
    by (simp add: step_def handle_def settle_now)
qed (simp add: step_ended)

theorem supervisor_quiet_until_wake_witness:
  "\<exists>c cs c'. step (core_new AGENT_SUPERVISOR 7) (Tick 5) = Some (c, cs) \<and>
     next_wake c = Some 15005 \<and> step c (Tick 15004) = Some (c', [])"
proof -
  obtain c cs where s: "step (core_new AGENT_SUPERVISOR 7) (Tick 5) = Some (c, cs)"
    using agent_step_total by blast
  have "map_option (\<lambda>(c, _). (next_wake c, c_now c)) (step (core_new AGENT_SUPERVISOR 7) (Tick 5)) =
      Some (Some 15005, 5)"
    by (simp add: core_eval next_wake_def wakes_def)
  from map_option_SomeD [OF this s] have w: "next_wake c = Some 15005" "c_now c = 5" by simp_all
  obtain c' where "step c (Tick 15004) = Some (c', [])"
    using supervisor_quiet_until_wake [OF core_inv_new s, of 15004] w by auto
  with s w show ?thesis by blast
qed

text \<open>
  What a failed dial costs: the peer's failures are counted (saturating), it is reported
  as degraded unless it already was, and the next dial waits the jittered backoff of the policy,
  the unreachable one once enough dials failed, between its share that jitter must leave and the
  policy's maximum.
\<close>

theorem supervisor_failed_dial_backoff:
  assumes "core_inv c" and "dialed c p Failed t = Some (c', cs)"
    and "e = peer_entry c p" and "n = min u32_max (p_failed_dials e + 1)"
    and "(b, a) = (if unreachable_after (c_policy c) \<le> n
                   then (unreachable_backoff (c_policy c), n - unreachable_after (c_policy c))
                   else (dial_backoff (c_policy c), r_attempts (p_dial e)))"
  shows "\<exists>e' w. bt_get (c_peers c') p = Some e' \<and> p_failed_dials e' = n \<and>
    \<not> r_in_flight (p_dial e') \<and> p_degraded_reported e' \<and>
    r_next_at (p_dial e') = after t w \<and> w \<le> b_max b \<and>
    backoff_millis b a * (1000 - jitter_permille (c_policy c)) \<le> as_millis w * 1000 \<and>
    cs = (if p_degraded_reported e then [] else [Report (Degraded p)])"
proof -
  let ?e = "e\<lparr>p_dial := (p_dial e)\<lparr>r_in_flight := False\<rparr>, p_failed_dials := n\<rparr>"
  have n: "sat_add u32_max (p_failed_dials e) 1 = n" by (simp add: assms(4) sat_add_def)
  from assms(2) n obtain r w where w: "dial_wait (c_policy c) (c_rng c) ?e = Some (r, w)"
    and c': "c' = (put_peer c p (?e\<lparr>p_dial := (p_dial ?e)\<lparr>r_next_at := after t w,
        r_attempts := sat_add u32_max (r_attempts (p_dial ?e)) 1\<rparr>, p_degraded_reported := True\<rparr>))\<lparr>c_rng := r\<rparr>"
    and cs: "cs = (if p_degraded_reported e then [] else [Report (Degraded p)])"
    by (auto simp: dialed_def Let_def assms(3) [symmetric])
  from w have d: "delay (c_rng c) b a (jitter_permille (c_policy c)) = Some (r, w)"
    using assms(5) by (auto simp: dial_wait_def split: if_splits)
  from c' core_inv_wf [OF assms(1)] cs delay_le_max [OF d] delay_lower [OF d] show ?thesis
    by (auto simp: put_peer_def)
qed


theorem supervisor_failed_dial_backoff_witness:
  "\<exists>c' cs e' w. dialed (core_new AGENT_SUPERVISOR 7) 9 Failed 100 = Some (c', cs) \<and>
     bt_get (c_peers c') 9 = Some e' \<and> p_failed_dials e' = 1 \<and>
     r_next_at (p_dial e') = after 100 w \<and> w \<le> from_secs 30 \<and> 1000 * 750 \<le> as_millis w * 1000"
proof -
  let ?c = "core_new AGENT_SUPERVISOR 7" and ?b = "dial_backoff AGENT_SUPERVISOR"
  have "sane_policy (c_policy ?c)" using agent_sane by (simp add: core_new_def)
  then obtain c' cs where d: "dialed ?c 9 Failed 100 = Some (c', cs)" using dialed_total by blast
  have "(?b, 0::nat) = (if unreachable_after (c_policy ?c) \<le> 1
      then (unreachable_backoff (c_policy ?c), 1 - unreachable_after (c_policy ?c))
      else (dial_backoff (c_policy ?c), r_attempts (p_dial (peer_entry ?c 9))))"
    "(1::nat) = min u32_max (p_failed_dials (peer_entry ?c 9) + 1)"
    by (simp_all add: core_new_def peer_entry_def peer_new_def retry_new_def AGENT_SUPERVISOR_def u32_max_def)
  from supervisor_failed_dial_backoff [OF core_inv_new d refl this(2,1)] obtain e' w where
    "bt_get (c_peers c') 9 = Some e'" "p_failed_dials e' = 1" "r_next_at (p_dial e') = after 100 w"
    "w \<le> b_max ?b" "backoff_millis ?b 0 * (1000 - jitter_permille (c_policy ?c)) \<le> as_millis w * 1000"
    by blast
  moreover have "b_max ?b = from_secs 30" "backoff_millis ?b 0 = 1000" "jitter_permille (c_policy ?c) = 250"
    by (simp_all add: core_eval)
  ultimately show ?thesis using d by auto
qed

end
