(* ===== verification/Byte_Strings.thy ===== *)
theory Byte_Strings
  imports Prelude
begin

text \<open>
  Rust's \<^verbatim>\<open>str\<close> as the parsers use it: a string is the list of its UTF-8 bytes, so that
  \<^verbatim>\<open>len\<close> is \<^const>\<open>length\<close> and a search for an ASCII byte cannot match inside a longer
  character. The string operations of the standard library that the sources call, decimal
  numbers in canonical form, and the laws the component theories use.
\<close>

definition byte :: "char \<Rightarrow> nat" where "byte c = of_char c"

definition is_ascii_digit :: "char \<Rightarrow> bool" where
  "is_ascii_digit c \<longleftrightarrow> 48 \<le> byte c \<and> byte c \<le> 57"

definition is_ascii_lowercase :: "char \<Rightarrow> bool" where
  "is_ascii_lowercase c \<longleftrightarrow> 97 \<le> byte c \<and> byte c \<le> 122"

definition is_ascii_uppercase :: "char \<Rightarrow> bool" where
  "is_ascii_uppercase c \<longleftrightarrow> 65 \<le> byte c \<and> byte c \<le> 90"

definition is_ascii_graphic :: "char \<Rightarrow> bool" where
  "is_ascii_graphic c \<longleftrightarrow> 33 \<le> byte c \<and> byte c \<le> 126"

definition to_lower :: "char \<Rightarrow> char" where
  "to_lower c = (if is_ascii_uppercase c then char_of (byte c + 32) else c)"

definition to_ascii_lowercase :: "string \<Rightarrow> string" where
  "to_ascii_lowercase s = map to_lower s"

lemmas char_class_defs = is_ascii_digit_def is_ascii_lowercase_def is_ascii_uppercase_def
  is_ascii_graphic_def byte_def

lemma byte_less [simp]: "byte c < 256"
  by (simp add: byte_def)

lemma byte_char_of [simp]: "n < 256 \<Longrightarrow> byte (char_of n) = n"
  by (simp add: byte_def)

lemma byte_inj: "byte c = byte d \<longleftrightarrow> c = d"
  by (simp add: byte_def)

lemma to_lower_byte: "byte (to_lower c) = (if is_ascii_uppercase c then byte c + 32 else byte c)"
  by (simp add: to_lower_def is_ascii_uppercase_def)

lemma to_lower_idem [simp]: "to_lower (to_lower c) = to_lower c"
  by (simp add: to_lower_def is_ascii_uppercase_def)

lemma to_lower_not_upper: "\<not> is_ascii_uppercase (to_lower c)"
  by (simp add: to_lower_def is_ascii_uppercase_def)

lemma to_lower_id [simp]: "\<not> is_ascii_uppercase c \<Longrightarrow> to_lower c = c"
  by (simp add: to_lower_def)

lemma to_ascii_lowercase_idem [simp]: "to_ascii_lowercase (to_ascii_lowercase s) = to_ascii_lowercase s"
  by (simp add: to_ascii_lowercase_def)

lemma to_ascii_lowercase_id: "\<forall>c \<in> set s. \<not> is_ascii_uppercase c \<Longrightarrow> to_ascii_lowercase s = s"
  by (induction s) (simp_all add: to_ascii_lowercase_def)

section \<open>Searching and splitting\<close>

definition starts_with :: "string \<Rightarrow> string \<Rightarrow> bool" where
  "starts_with s p \<longleftrightarrow> take (length p) s = p"

definition ends_with :: "string \<Rightarrow> string \<Rightarrow> bool" where
  "ends_with s p \<longleftrightarrow> length p \<le> length s \<and> drop (length s - length p) s = p"

definition strip_prefix :: "string \<Rightarrow> string \<Rightarrow> string option" where
  "strip_prefix s p = (if starts_with s p then Some (drop (length p) s) else None)"

text \<open>\<^verbatim>\<open>str::split\<close> at one byte: never empty, one part more than separators.\<close>

fun split_on :: "char \<Rightarrow> string \<Rightarrow> string list" where
  "split_on c [] = [[]]"
| "split_on c (x # xs) =
     (if x = c then [] # split_on c xs
      else case split_on c xs of p # ps \<Rightarrow> (x # p) # ps | [] \<Rightarrow> [[x]])"

fun join_with :: "char \<Rightarrow> string list \<Rightarrow> string" where
  "join_with c [] = []"
| "join_with c [p] = p"
| "join_with c (p # q # ps) = p @ c # join_with c (q # ps)"

text \<open>\<^verbatim>\<open>str::rsplit_once\<close>: around the last occurrence.\<close>

definition rsplit_once :: "char \<Rightarrow> string \<Rightarrow> (string \<times> string) option" where
  "rsplit_once c s =
     (if c \<in> set s then
        (let after = rev (takeWhile (\<lambda>x. x \<noteq> c) (rev s))
         in Some (take (length s - length after - 1) s, after))
      else None)"

lemma starts_with_iff: "starts_with s p \<longleftrightarrow> (\<exists>t. s = p @ t)"
  by (auto simp: starts_with_def) (metis append_take_drop_id)

lemma starts_with_append [simp]: "starts_with (p @ s) p"
  by (simp add: starts_with_def)

lemma ends_with_iff: "ends_with s p \<longleftrightarrow> (\<exists>t. s = t @ p)"
  by (auto simp: ends_with_def) (metis append_take_drop_id)

lemma strip_prefix_Some_iff: "strip_prefix s p = Some t \<longleftrightarrow> s = p @ t"
  by (auto simp: strip_prefix_def starts_with_def) (metis append_take_drop_id)

lemma strip_prefix_append [simp]: "strip_prefix (p @ t) p = Some t"
  by (simp add: strip_prefix_Some_iff)

lemma split_on_not_Nil [simp]: "split_on c s \<noteq> []"
  by (induction s) (auto split: list.splits)

lemma split_on_parts: "p \<in> set (split_on c s) \<Longrightarrow> c \<notin> set p"
  by (induction s arbitrary: p) (auto split: if_splits list.splits)

lemma join_split [simp]: "join_with c (split_on c s) = s"
proof (induction s)
  case (Cons x xs)
  obtain p ps where "split_on c xs = p # ps" by (cases "split_on c xs") auto
  with Cons show ?case by (cases ps) auto
qed simp

lemma split_on_free: "c \<notin> set p \<Longrightarrow> split_on c p = [p]"
  by (induction p) auto

lemma split_on_append: "c \<notin> set p \<Longrightarrow> split_on c (p @ c # s) = p # split_on c s"
  by (induction p) auto

lemma split_join:
  "ps \<noteq> [] \<Longrightarrow> \<forall>p \<in> set ps. c \<notin> set p \<Longrightarrow> split_on c (join_with c ps) = ps"
  by (induction c ps rule: join_with.induct) (auto simp: split_on_free split_on_append)

lemma set_join: "x \<in> set (join_with c ps) \<Longrightarrow> x = c \<or> (\<exists>p \<in> set ps. x \<in> set p)"
  by (induction c ps rule: join_with.induct) auto

lemma split_on_set: "x \<in> set s \<Longrightarrow> x = c \<or> (\<exists>p \<in> set (split_on c s). x \<in> set p)"
  using set_join [of x c "split_on c s"] by simp

lemma split_on_subset: "p \<in> set (split_on c s) \<Longrightarrow> set p \<subseteq> set s"
  by (induction s arbitrary: p) (fastforce split: if_splits list.splits)+

lemma rsplit_once_app:
  assumes "c \<notin> set t"
  shows "rsplit_once c (h @ c # t) = Some (h, t)"
proof -
  have "takeWhile (\<lambda>x. x \<noteq> c) (rev t @ c # rev h) = rev t"
    using assms by (subst takeWhile_append2) auto
  then show ?thesis by (simp add: rsplit_once_def Let_def)
qed

lemma rsplit_once_Some:
  assumes "rsplit_once c s = Some (h, t)"
  shows "s = h @ c # t" "c \<notin> set t"
proof -
  from assms have "c \<in> set s" by (simp add: rsplit_once_def split: if_splits)
  then obtain h' t' where s: "s = h' @ c # t'" "c \<notin> set t'" by (metis split_list_last)
  with rsplit_once_app assms have "h = h'" "t = t'" by auto
  with s show "s = h @ c # t" "c \<notin> set t" by simp_all
qed

lemma rsplit_once_None: "rsplit_once c s = None \<longleftrightarrow> c \<notin> set s"
  by (simp add: rsplit_once_def Let_def)

section \<open>Decimal numbers\<close>

definition digit_value :: "char \<Rightarrow> nat" where "digit_value c = byte c - 48"

definition digit_char :: "nat \<Rightarrow> char" where "digit_char n = char_of (48 + n)"

definition dec_value :: "string \<Rightarrow> nat" where
  "dec_value s = foldl (\<lambda>n c. n * 10 + digit_value c) 0 s"

text \<open>\<^verbatim>\<open>parse::<uN>\<close> of a string of digits.\<close>

definition parse_dec :: "nat \<Rightarrow> string \<Rightarrow> nat option" where
  "parse_dec mx s = (if dec_value s \<le> mx then Some (dec_value s) else None)"

fun show_nat :: "nat \<Rightarrow> string" where
  "show_nat n = (if n < 10 then [digit_char n] else show_nat (n div 10) @ [digit_char (n mod 10)])"

declare show_nat.simps [simp del]

text \<open>Decimal digits, at least one, and no leading zero but in \<^verbatim>\<open>0\<close> itself.\<close>

definition decimal_ok :: "string \<Rightarrow> bool" where
  "decimal_ok s \<longleftrightarrow>
     s \<noteq> [] \<and> list_all is_ascii_digit s \<and> \<not> (1 < length s \<and> starts_with s ''0'')"

lemma digit_char_value [simp]: "n < 10 \<Longrightarrow> digit_value (digit_char n) = n"
  by (simp add: digit_value_def digit_char_def)

lemma digit_value_char [simp]: "is_ascii_digit c \<Longrightarrow> digit_char (digit_value c) = c"
  by (simp add: digit_value_def digit_char_def is_ascii_digit_def byte_def)

lemma is_digit_digit_char [simp]: "n < 10 \<Longrightarrow> is_ascii_digit (digit_char n)"
  by (simp add: is_ascii_digit_def digit_char_def)

lemma digit_value_less: "is_ascii_digit c \<Longrightarrow> digit_value c < 10"
  by (auto simp: is_ascii_digit_def digit_value_def)

lemma dec_value_snoc [simp]: "dec_value (s @ [c]) = dec_value s * 10 + digit_value c"
  by (simp add: dec_value_def)

lemma dec_value_Nil [simp]: "dec_value [] = 0"
  by (simp add: dec_value_def)

lemma dec_value_show [simp]: "dec_value (show_nat n) = n"
proof (induction n rule: show_nat.induct)
  case (1 n)
  show ?case
  proof (cases "n < 10")
    case True
    then show ?thesis by (subst show_nat.simps) (simp add: dec_value_def)
  next
    case False
    with 1 show ?thesis by (subst show_nat.simps) simp
  qed
qed

lemma show_nat_digits: "list_all is_ascii_digit (show_nat n)"
proof (induction n rule: show_nat.induct)
  case (1 n)
  then show ?case by (cases "n < 10"; subst show_nat.simps) simp_all
qed

lemma show_nat_not_Nil [simp]: "show_nat n \<noteq> []"
  by (subst show_nat.simps) simp

lemma digit_char_0: "digit_char 0 = CHR ''0''"
proof -
  have "byte (digit_char 0) = byte CHR ''0''" unfolding digit_char_def by (simp add: byte_def)
  then show ?thesis by (simp only: byte_inj)
qed

lemma digit_char_zero_iff: "n < 10 \<Longrightarrow> digit_char n = CHR ''0'' \<longleftrightarrow> n = 0"
  by (metis digit_char_0 digit_char_value zero_less_numeral)

lemma hd_show_nat: "hd (show_nat n) = CHR ''0'' \<longleftrightarrow> n = 0"
proof (induction n rule: show_nat.induct)
  case (1 n)
  then show ?case
    by (cases "n < 10"; subst show_nat.simps) (auto simp: digit_char_zero_iff)
qed

lemma starts_with_zero: "s \<noteq> [] \<Longrightarrow> starts_with s ''0'' \<longleftrightarrow> hd s = CHR ''0''"
  by (cases s) (auto simp: starts_with_def)

lemma decimal_ok_show [simp]: "decimal_ok (show_nat n)"
proof -
  have "\<not> 1 < length (show_nat 0)" by (simp add: show_nat.simps)
  then have "\<not> (1 < length (show_nat n) \<and> n = 0)" by (cases "n = 0") simp_all
  then show ?thesis
    unfolding decimal_ok_def starts_with_zero [OF show_nat_not_Nil] hd_show_nat
    by (simp add: show_nat_digits)
qed

lemma dec_value_pos:
  "s \<noteq> [] \<Longrightarrow> list_all is_ascii_digit s \<Longrightarrow> hd s \<noteq> CHR ''0'' \<Longrightarrow> 0 < dec_value s"
proof (induction s rule: rev_induct)
  case (snoc c s)
  show ?case
  proof (cases "s = []")
    case True
    with snoc.prems digit_value_char [of c] show ?thesis
      by (cases "digit_value c = 0") (simp_all add: digit_char_0 dec_value_def)
  qed (use snoc in simp)
qed simp

lemma show_dec_value: "decimal_ok s \<Longrightarrow> show_nat (dec_value s) = s"
proof (induction s rule: rev_induct)
  case (snoc c s)
  then have c: "is_ascii_digit c" by (simp add: decimal_ok_def)
  show ?case
  proof (cases "s = []")
    case True
    with c show ?thesis
      by (simp add: dec_value_def show_nat.simps [of "digit_value c"] digit_value_less)
  next
    case False
    with snoc.prems have hd: "hd s \<noteq> CHR ''0''" and all: "list_all is_ascii_digit s"
      by (auto simp: decimal_ok_def starts_with_zero)
    then have "decimal_ok s" using False by (simp add: decimal_ok_def starts_with_zero)
    with snoc.IH have "show_nat (dec_value s) = s" .
    moreover from dec_value_pos [OF False all hd] have "\<not> dec_value (s @ [c]) < 10" by simp
    ultimately show ?thesis using c digit_value_less [OF c] by (subst show_nat.simps) simp
  qed
qed (simp add: decimal_ok_def)

lemma parse_dec_show [simp]: "n \<le> mx \<Longrightarrow> parse_dec mx (show_nat n) = Some n"
  by (simp add: parse_dec_def)

lemma parse_dec_SomeD: "parse_dec mx s = Some n \<Longrightarrow> n = dec_value s \<and> n \<le> mx"
  by (auto simp: parse_dec_def split: if_splits)

lemma digits_no: "list_all is_ascii_digit s \<Longrightarrow> \<not> is_ascii_digit c \<Longrightarrow> c \<notin> set s"
  by (auto simp: list_all_iff)

lemma not_digit_punct [simp]: "\<not> is_ascii_digit CHR ''.''" "\<not> is_ascii_digit CHR '':''"
  "\<not> is_ascii_digit CHR ''/''" "\<not> is_ascii_digit CHR ''-''"
  by (simp_all add: char_class_defs)

lemmas string_eval = char_class_defs starts_with_def ends_with_def strip_prefix_def
  parse_dec_def dec_value_def digit_value_def decimal_ok_def rsplit_once_def
  to_ascii_lowercase_def to_lower_def

end
