(* ===== verification/Net_Address.thy ===== *)
theory Net_Address
  imports Prelude
begin

text \<open>
  What kind of address an IP is (\<^verbatim>\<open>citadel-app-net-policy/src/ranges.rs\<close>): the two prefix
  tables, in order, and the IPv4 addresses an IPv6 address may carry. An IPv4 address is the
  32-bit and an IPv6 address the 128-bit number its octets and segments spell, big-endian. The
  tables are then read back as plain conditions on octets, without masks.
\<close>

unbundle bit_operations_syntax

datatype ip_addr = V4 "32 word" | V6 "128 word"

datatype private_range = Loopback | Rfc1918 | LinkLocal | Shared | UniqueLocal | SiteLocal

datatype forbidden_range =
    ThisNetwork | Unspecified | IetfProtocol | Benchmarking | Documentation | Multicast | Reserved
  | Ipv4Compatible | Teredo | Discard

datatype address_class = Public | Private private_range | Forbidden forbidden_range

text \<open>\<^verbatim>\<open>Ipv4Addr::new\<close>, \<^verbatim>\<open>Ipv6Addr::from([u16; 8])\<close> and \<^verbatim>\<open>segments()[i]\<close>.\<close>

definition ipv4_new :: "8 word \<Rightarrow> 8 word \<Rightarrow> 8 word \<Rightarrow> 8 word \<Rightarrow> 32 word" where
  "ipv4_new a b c d = word_of_nat (unat a * 2 ^ 24 + unat b * 2 ^ 16 + unat c * 2 ^ 8 + unat d)"

definition ipv6_new :: "16 word list \<Rightarrow> 128 word" where
  "ipv6_new ss = foldl (\<lambda>w s. w * 2 ^ 16 + ucast s) 0 ss"

definition segment :: "128 word \<Rightarrow> nat \<Rightarrow> 16 word" where
  "segment w i = ucast (drop_bit (16 * (7 - i)) w)"

definition hi8 :: "16 word \<Rightarrow> 8 word" where "hi8 s = ucast (drop_bit 8 s)"
definition lo8 :: "16 word \<Rightarrow> 8 word" where "lo8 s = ucast s"

definition embedded_v4 :: "128 word \<Rightarrow> 32 word option" where
  "embedded_v4 w =
     (let s = segment w;
          low = ipv4_new (hi8 (s 6)) (lo8 (s 6)) (hi8 (s 7)) (lo8 (s 7))
      in if map s [0..<5] = [0, 0, 0, 0, 0] \<and> s 5 = 0xffff then Some low
         else if map s [0..<6] = [0x64, 0xff9b, 0, 0, 0, 0] then Some low
         else if s 0 = 0x2002 then Some (ipv4_new (hi8 (s 1)) (lo8 (s 1)) (hi8 (s 2)) (lo8 (s 2)))
         else None)"

definition canonical :: "ip_addr \<Rightarrow> ip_addr" where
  "canonical ip =
     (case ip of
        V4 _ \<Rightarrow> ip
      | V6 w \<Rightarrow> (case embedded_v4 w of Some v \<Rightarrow> V4 v | None \<Rightarrow> ip))"

definition in_v4 :: "32 word \<Rightarrow> 32 word \<Rightarrow> nat \<Rightarrow> bool" where
  "in_v4 ip net prefix =
     (let mask = (if prefix = 0 then 0 else push_bit (32 - prefix) (- 1))
      in ip AND mask = net AND mask)"

definition in_v6 :: "128 word \<Rightarrow> 128 word \<Rightarrow> nat \<Rightarrow> bool" where
  "in_v6 ip net prefix =
     (let mask = (if prefix = 0 then 0 else push_bit (128 - prefix) (- 1))
      in ip AND mask = net AND mask)"

definition V4_TABLE :: "(32 word \<times> nat \<times> address_class) list" where
  "V4_TABLE = [
     (ipv4_new 0 0 0 0, 8, Forbidden ThisNetwork),
     (ipv4_new 10 0 0 0, 8, Private Rfc1918),
     (ipv4_new 100 64 0 0, 10, Private Shared),
     (ipv4_new 127 0 0 0, 8, Private Loopback),
     (ipv4_new 169 254 0 0, 16, Private LinkLocal),
     (ipv4_new 172 16 0 0, 12, Private Rfc1918),
     (ipv4_new 192 0 0 0, 24, Forbidden IetfProtocol),
     (ipv4_new 192 0 2 0, 24, Forbidden Documentation),
     (ipv4_new 192 88 99 0, 24, Forbidden Reserved),
     (ipv4_new 192 168 0 0, 16, Private Rfc1918),
     (ipv4_new 198 18 0 0, 15, Forbidden Benchmarking),
     (ipv4_new 198 51 100 0, 24, Forbidden Documentation),
     (ipv4_new 203 0 113 0, 24, Forbidden Documentation),
     (ipv4_new 224 0 0 0, 4, Forbidden Multicast),
     (ipv4_new 240 0 0 0, 4, Forbidden Reserved),
     (ipv4_new 255 255 255 255, 32, Forbidden Reserved)]"

definition V6_TABLE :: "(128 word \<times> nat \<times> address_class) list" where
  "V6_TABLE = [
     (ipv6_new [0, 0, 0, 0, 0, 0, 0, 0], 128, Forbidden Unspecified),
     (ipv6_new [0, 0, 0, 0, 0, 0, 0, 1], 128, Private Loopback),
     (ipv6_new [0, 0, 0, 0, 0, 0, 0, 0], 96, Forbidden Ipv4Compatible),
     (ipv6_new [0x64, 0xff9b, 1, 0, 0, 0, 0, 0], 48, Forbidden Reserved),
     (ipv6_new [0x100, 0, 0, 0, 0, 0, 0, 0], 64, Forbidden Discard),
     (ipv6_new [0x2001, 0xdb8, 0, 0, 0, 0, 0, 0], 32, Forbidden Documentation),
     (ipv6_new [0x2001, 0, 0, 0, 0, 0, 0, 0], 32, Forbidden Teredo),
     (ipv6_new [0x2000, 0, 0, 0, 0, 0, 0, 0], 3, Public),
     (ipv6_new [0xfc00, 0, 0, 0, 0, 0, 0, 0], 7, Private UniqueLocal),
     (ipv6_new [0xfe80, 0, 0, 0, 0, 0, 0, 0], 10, Private LinkLocal),
     (ipv6_new [0xfec0, 0, 0, 0, 0, 0, 0, 0], 10, Private SiteLocal),
     (ipv6_new [0xff00, 0, 0, 0, 0, 0, 0, 0], 8, Forbidden Multicast)]"

definition classify_v4 :: "32 word \<Rightarrow> address_class" where
  "classify_v4 ip =
     (case List.find (\<lambda>(net, prefix, _). in_v4 ip net prefix) V4_TABLE of
        Some (_, _, c) \<Rightarrow> c | None \<Rightarrow> Public)"

definition classify_v6 :: "128 word \<Rightarrow> address_class" where
  "classify_v6 ip =
     (case List.find (\<lambda>(net, prefix, _). in_v6 ip net prefix) V6_TABLE of
        Some (_, _, c) \<Rightarrow> c | None \<Rightarrow> Forbidden Reserved)"

definition classify :: "ip_addr \<Rightarrow> address_class" where
  "classify ip = (case canonical ip of V4 v \<Rightarrow> classify_v4 v | V6 w \<Rightarrow> classify_v6 w)"

section \<open>Prefixes as quotients\<close>

lemma mask_eq_drop_bit:
  fixes v w :: "'a::len word"
  shows "v AND push_bit k (- 1) = w AND push_bit k (- 1) \<longleftrightarrow> drop_bit k v = drop_bit k w"
proof
  assume eq: "v AND push_bit k (- 1) = w AND push_bit k (- 1)"
  have "bit v (k + n) = bit w (k + n)" for n
  proof (cases "k + n < LENGTH('a)")
    case True
    with arg_cong [OF eq, of "\<lambda>x. bit x (k + n)"] show ?thesis by (simp add: bit_simps)
  next
    case False
    then show ?thesis by (auto dest: bit_imp_le_length)
  qed
  then show "drop_bit k v = drop_bit k w"
    by (intro bit_word_eqI) (simp add: bit_drop_bit_eq)
next
  assume eq: "drop_bit k v = drop_bit k w"
  have "bit v n = bit w n" if "k \<le> n" for n
    using arg_cong [OF eq, of "\<lambda>x. bit x (n - k)"] that by (simp add: bit_drop_bit_eq)
  then show "v AND push_bit k (- 1) = w AND push_bit k (- 1)"
    by (intro bit_word_eqI) (auto simp: bit_simps)
qed

lemma unat_drop_bit: "unat (drop_bit k w) = unat w div 2 ^ k"
  unfolding unat_drop_bit_eq by (rule drop_bit_eq_div)

lemma drop_bit_quot: "drop_bit k v = drop_bit k w \<longleftrightarrow> unat v div 2 ^ k = unat w div 2 ^ k"
  by (simp add: word_unat_eq_iff unat_drop_bit)

lemma in_v4_div: "0 < p \<Longrightarrow> in_v4 ip net p \<longleftrightarrow> unat ip div 2 ^ (32 - p) = unat net div 2 ^ (32 - p)"
  unfolding in_v4_def Let_def by (simp only: neq0_conv [symmetric] if_False mask_eq_drop_bit drop_bit_quot)

lemma in_v6_div: "0 < p \<Longrightarrow> in_v6 ip net p \<longleftrightarrow> unat ip div 2 ^ (128 - p) = unat net div 2 ^ (128 - p)"
  unfolding in_v6_def Let_def by (simp only: neq0_conv [symmetric] if_False mask_eq_drop_bit drop_bit_quot)

lemma octet_less: "unat (a :: 8 word) < 256"
  using unsigned_less [of a] by simp

lemma unat_ipv4:
  "unat (ipv4_new a b c d) = unat a * 2 ^ 24 + unat b * 2 ^ 16 + unat c * 2 ^ 8 + unat d"
proof -
  let ?n = "unat a * 2 ^ 24 + unat b * 2 ^ 16 + unat c * 2 ^ 8 + unat d"
  have "?n < 2 ^ 32" using octet_less [of a] octet_less [of b] octet_less [of c] octet_less [of d] by simp
  then show ?thesis unfolding ipv4_new_def unat_of_nat by simp
qed

section \<open>The tables in octets\<close>

text \<open>The quotients of an address by the table's prefixes, in its octets.\<close>

lemma quad_div:
  fixes a b c d :: nat
  assumes "a < 256" "b < 256" "c < 256" "d < 256"
  defines "n \<equiv> a * 2 ^ 24 + b * 2 ^ 16 + c * 2 ^ 8 + d"
  shows "n div 2 ^ 24 = a" "n div 2 ^ 16 = a * 256 + b" "n div 2 ^ 8 = (a * 256 + b) * 256 + c"
    "n div 2 ^ 28 = a div 16" "n div 2 ^ 22 = a * 4 + b div 64" "n div 2 ^ 20 = a * 16 + b div 16"
    "n div 2 ^ 17 = a * 128 + b div 2"
proof -
  show d8: "n div 2 ^ 8 = (a * 256 + b) * 256 + c" using assms(4) by (simp add: n_def)
  have "n div 2 ^ 16 = n div 2 ^ 8 div 2 ^ 8" by (simp add: div_mult2_eq [symmetric])
  then show d16: "n div 2 ^ 16 = a * 256 + b" using assms(3) by (simp only: d8) simp
  have "n div 2 ^ 24 = n div 2 ^ 16 div 2 ^ 8" by (simp add: div_mult2_eq [symmetric])
  then show d24: "n div 2 ^ 24 = a" using assms(2) by (simp only: d16) simp
  have "n div 2 ^ 28 = n div 2 ^ 24 div 2 ^ 4" by (simp add: div_mult2_eq [symmetric])
  then show "n div 2 ^ 28 = a div 16" by (simp only: d24) simp
  have "n div 2 ^ 22 = n div 2 ^ 16 div 2 ^ 6" by (simp add: div_mult2_eq [symmetric])
  then show "n div 2 ^ 22 = a * 4 + b div 64" by (simp only: d16) simp
  have "n div 2 ^ 20 = n div 2 ^ 16 div 2 ^ 4" by (simp add: div_mult2_eq [symmetric])
  then show "n div 2 ^ 20 = a * 16 + b div 16" by (simp only: d16) simp
  have "n div 2 ^ 17 = n div 2 ^ 16 div 2 ^ 1" by (simp add: div_mult2_eq [symmetric])
  then show "n div 2 ^ 17 = a * 128 + b div 2" by (simp only: d16) simp
qed

lemma ipv4_div:
  "unat (ipv4_new a b c d) div 2 ^ 24 = unat a"
  "unat (ipv4_new a b c d) div 2 ^ 16 = unat a * 256 + unat b"
  "unat (ipv4_new a b c d) div 2 ^ 8 = (unat a * 256 + unat b) * 256 + unat c"
  "unat (ipv4_new a b c d) div 2 ^ 28 = unat a div 16"
  "unat (ipv4_new a b c d) div 2 ^ 22 = unat a * 4 + unat b div 64"
  "unat (ipv4_new a b c d) div 2 ^ 20 = unat a * 16 + unat b div 16"
  "unat (ipv4_new a b c d) div 2 ^ 17 = unat a * 128 + unat b div 2"
  unfolding unat_ipv4
  by (rule quad_div [OF octet_less octet_less octet_less octet_less])+

lemma digit_eq:
  fixes a b x y k :: nat
  shows "b < k \<Longrightarrow> y < k \<Longrightarrow> a * k + b = x * k + y \<longleftrightarrow> a = x \<and> b = y"
  by (metis div_mult_self3 mod_less mod_mult_self3 div_less add_0_right not_less_zero gr_implies_not0 mult.commute add.commute)

text \<open>
  The public IPv4 addresses, written in octets: not this-network, private, loopback, shared,
  link-local, documentation, benchmarking, protocol-assignment or 6to4-relay space, and below
  the multicast and reserved blocks.
\<close>

definition public_octets :: "nat \<Rightarrow> nat \<Rightarrow> nat \<Rightarrow> bool" where
  "public_octets a b c \<longleftrightarrow>
     1 \<le> a \<and> a < 224 \<and> a \<noteq> 10 \<and> a \<noteq> 127 \<and>
     \<not> (a = 100 \<and> 64 \<le> b \<and> b < 128) \<and>
     \<not> (a = 169 \<and> b = 254) \<and>
     \<not> (a = 172 \<and> 16 \<le> b \<and> b < 32) \<and>
     \<not> (a = 192 \<and> b = 168) \<and>
     \<not> (a = 198 \<and> (b = 18 \<or> b = 19)) \<and>
     (a, b, c) \<notin> {(192, 0, 0), (192, 0, 2), (192, 88, 99), (198, 51, 100), (203, 0, 113)}"

lemma in_v4_rows:
  "in_v4 (ipv4_new a b c d) (ipv4_new x 0 0 0) 8 \<longleftrightarrow> unat a = unat x"
  "in_v4 (ipv4_new a b c d) (ipv4_new x y 0 0) 16 \<longleftrightarrow> unat a = unat x \<and> unat b = unat y"
  "in_v4 (ipv4_new a b c d) (ipv4_new x y z 0) 24 \<longleftrightarrow> unat a = unat x \<and> unat b = unat y \<and> unat c = unat z"
  "in_v4 (ipv4_new a b c d) (ipv4_new x y 0 0) 4 \<longleftrightarrow> unat a div 16 = unat x div 16"
  "in_v4 (ipv4_new a b c d) (ipv4_new x y 0 0) 10 \<longleftrightarrow> unat a = unat x \<and> unat b div 64 = unat y div 64"
  "in_v4 (ipv4_new a b c d) (ipv4_new x y 0 0) 12 \<longleftrightarrow> unat a = unat x \<and> unat b div 16 = unat y div 16"
  "in_v4 (ipv4_new a b c d) (ipv4_new x y 0 0) 15 \<longleftrightarrow> unat a = unat x \<and> unat b div 2 = unat y div 2"
proof -
  have less: "unat b div 64 < 4" "unat b div 16 < 16" "unat b div 2 < 128" for b :: "8 word"
    using octet_less [of b] by (simp_all add: div_less_iff_less_mult)
  show "in_v4 (ipv4_new a b c d) (ipv4_new x 0 0 0) 8 \<longleftrightarrow> unat a = unat x"
    using ipv4_div(1) [of a b c d] ipv4_div(1) [of x 0 0 0] by (simp add: in_v4_div)
  show "in_v4 (ipv4_new a b c d) (ipv4_new x y 0 0) 4 \<longleftrightarrow> unat a div 16 = unat x div 16"
    using ipv4_div(4) [of a b c d] ipv4_div(4) [of x y 0 0] by (simp add: in_v4_div)
  show "in_v4 (ipv4_new a b c d) (ipv4_new x y 0 0) 16 \<longleftrightarrow> unat a = unat x \<and> unat b = unat y"
    using ipv4_div(2) [of a b c d] ipv4_div(2) [of x y 0 0] digit_eq [OF octet_less octet_less]
    by (simp add: in_v4_div)
  show "in_v4 (ipv4_new a b c d) (ipv4_new x y z 0) 24 \<longleftrightarrow> unat a = unat x \<and> unat b = unat y \<and> unat c = unat z"
  proof -
    have "unat (ipv4_new a b c d) div 2 ^ 8 = unat (ipv4_new x y z 0) div 2 ^ 8 \<longleftrightarrow>
        unat a = unat x \<and> unat b = unat y \<and> unat c = unat z"
      by (simp only: ipv4_div(3) digit_eq [OF octet_less octet_less] conj_assoc)
    then show ?thesis by (simp add: in_v4_div)
  qed
  show "in_v4 (ipv4_new a b c d) (ipv4_new x y 0 0) 10 \<longleftrightarrow> unat a = unat x \<and> unat b div 64 = unat y div 64"
    using ipv4_div(5) [of a b c d] ipv4_div(5) [of x y 0 0] digit_eq [OF less(1) less(1)]
    by (simp add: in_v4_div)
  show "in_v4 (ipv4_new a b c d) (ipv4_new x y 0 0) 12 \<longleftrightarrow> unat a = unat x \<and> unat b div 16 = unat y div 16"
    using ipv4_div(6) [of a b c d] ipv4_div(6) [of x y 0 0] digit_eq [OF less(2) less(2)]
    by (simp add: in_v4_div)
  show "in_v4 (ipv4_new a b c d) (ipv4_new x y 0 0) 15 \<longleftrightarrow> unat a = unat x \<and> unat b div 2 = unat y div 2"
    using ipv4_div(7) [of a b c d] ipv4_div(7) [of x y 0 0] digit_eq [OF less(3) less(3)]
    by (simp add: in_v4_div)
qed

lemma classify_v4_public:
  "classify_v4 ip = Public \<longleftrightarrow> (\<forall>(net, p, _) \<in> set V4_TABLE. \<not> in_v4 ip net p)"
proof -
  have "(\<forall>(net, p, c) \<in> set V4_TABLE. c \<noteq> Public)" by (simp add: V4_TABLE_def)
  then show ?thesis unfolding classify_v4_def
    by (fastforce simp: find_Some_iff find_None_iff split: option.splits dest: nth_mem)
qed

lemma div_range:
  fixes n k :: nat
  shows "0 < k \<Longrightarrow> n div k = q \<longleftrightarrow> q * k \<le> n \<and> n < (q + 1) * k"
  by (metis div_nat_eqI div_times_less_eq_dividend dividend_less_div_times mult.commute add.commute
      mult_Suc_right Suc_eq_plus1)

lemma classify_v4_octets:
  "classify_v4 (ipv4_new a b c d) = Public \<longleftrightarrow> public_octets (unat a) (unat b) (unat c)"
proof -
  have hi: "unat a < 224 \<longleftrightarrow> unat a div 16 \<noteq> 14 \<and> unat a div 16 \<noteq> 15"
    using octet_less [of a] by (simp add: div_range) linarith
  have last: "in_v4 (ipv4_new a b c d) (ipv4_new 255 255 255 255) 32 \<Longrightarrow> unat a div 16 = 15"
    using ipv4_div(4) [of a b c d] ipv4_div(4) [of 255 255 255 255]
      drop_bit_quot [of 28 "ipv4_new a b c d"] by (simp add: in_v4_div)
  have div: "unat b div 64 = 1 \<longleftrightarrow> 64 \<le> unat b \<and> unat b < 128"
    "unat b div 16 = 1 \<longleftrightarrow> 16 \<le> unat b \<and> unat b < 32"
    "unat b div 2 = 9 \<longleftrightarrow> unat b = 18 \<or> unat b = 19" by (simp_all add: div_range) linarith
  have pos: "1 \<le> unat a \<longleftrightarrow> unat a \<noteq> 0" by linarith
  have "classify_v4 (ipv4_new a b c d) = Public \<longleftrightarrow>
    unat a \<noteq> 0 \<and> unat a \<noteq> 10 \<and> \<not> (unat a = 100 \<and> unat b div 64 = 1) \<and> unat a \<noteq> 127 \<and>
    \<not> (unat a = 169 \<and> unat b = 254) \<and> \<not> (unat a = 172 \<and> unat b div 16 = 1) \<and>
    \<not> (unat a = 192 \<and> unat b = 0 \<and> unat c = 0) \<and> \<not> (unat a = 192 \<and> unat b = 0 \<and> unat c = 2) \<and>
    \<not> (unat a = 192 \<and> unat b = 88 \<and> unat c = 99) \<and> \<not> (unat a = 192 \<and> unat b = 168) \<and>
    \<not> (unat a = 198 \<and> unat b div 2 = 9) \<and> \<not> (unat a = 198 \<and> unat b = 51 \<and> unat c = 100) \<and>
    \<not> (unat a = 203 \<and> unat b = 0 \<and> unat c = 113) \<and> unat a div 16 \<noteq> 14 \<and> unat a div 16 \<noteq> 15 \<and>
    \<not> in_v4 (ipv4_new a b c d) (ipv4_new 255 255 255 255) 32"
    unfolding classify_v4_public V4_TABLE_def by (simp add: in_v4_rows)
  then show ?thesis
    unfolding public_octets_def insert_iff prod.inject empty_iff div pos hi using last by argo
qed

section \<open>IPv4 inside IPv6\<close>

lemma unat_segment: "unat (segment w i) = unat w div 2 ^ (16 * (7 - i)) mod 2 ^ 16"
  by (simp add: segment_def unsigned_ucast_eq unat_drop_bit take_bit_eq_mod)

lemma segment_eq_iff: "segment w i = s \<longleftrightarrow> unat w div 2 ^ (16 * (7 - i)) mod 2 ^ 16 = unat s"
  by (simp only: word_unat_eq_iff unat_segment)

lemma unat_hi8: "unat (hi8 s) = unat s div 256"
proof -
  have "unat s div 256 < 256" using unsigned_less [of s] by (simp add: div_less_iff_less_mult)
  then show ?thesis by (simp add: hi8_def unsigned_ucast_eq unat_drop_bit take_bit_eq_mod)
qed

lemma unat_lo8: "unat (lo8 s) = unat s mod 256"
  by (simp add: lo8_def unsigned_ucast_eq take_bit_eq_mod)

lemma bytes_join:
  fixes x y :: nat
  shows "x div 256 * 2 ^ 24 + x mod 256 * 2 ^ 16 + y div 256 * 2 ^ 8 + y mod 256 = x * 2 ^ 16 + y"
proof -
  have "x div 256 * 2 ^ 24 + x mod 256 * 2 ^ 16 = (x div 256 * 256 + x mod 256) * 2 ^ 16"
    "y div 256 * 2 ^ 8 + y mod 256 = y div 256 * 256 + y mod 256"
    by (simp_all only: add_mult_distrib mult.assoc) simp_all
  then show ?thesis by (simp only: add.assoc div_mult_mod_eq)
qed

lemma ipv4_of_segments:
  "unat (ipv4_new (hi8 x) (lo8 x) (hi8 y) (lo8 y)) = unat x * 2 ^ 16 + unat y"
  unfolding unat_ipv4 unat_hi8 unat_lo8 by (rule bytes_join)

definition mapped_v6 :: "32 word \<Rightarrow> 128 word" where
  "mapped_v6 v = word_of_nat (0xffff * 2 ^ 32 + unat v)"

definition nat64_v6 :: "32 word \<Rightarrow> 128 word" where
  "nat64_v6 v = word_of_nat (0x64ff9b * 2 ^ 96 + unat v)"

definition sixtofour_v6 :: "32 word \<Rightarrow> nat \<Rightarrow> 128 word" where
  "sixtofour_v6 v h = word_of_nat (0x2002 * 2 ^ 112 + unat v * 2 ^ 80 + h mod 2 ^ 80)"

lemma v4_less: "unat (v :: 32 word) < 2 ^ 32"
  using unsigned_less [of v] by simp

lemma unat_mapped: "unat (mapped_v6 v) = 0xffff * 2 ^ 32 + unat v"
proof -
  have "0xffff * 2 ^ 32 + unat v < 2 ^ 128" using v4_less [of v] by simp
  then show ?thesis unfolding mapped_v6_def unat_of_nat by simp
qed

lemma unat_nat64: "unat (nat64_v6 v) = 0x64ff9b * 2 ^ 96 + unat v"
proof -
  have "0x64ff9b * 2 ^ 96 + unat v < 2 ^ 128" using v4_less [of v] by simp
  then show ?thesis unfolding nat64_v6_def unat_of_nat by simp
qed

lemma unat_sixtofour: "unat (sixtofour_v6 v h) = 0x2002 * 2 ^ 112 + unat v * 2 ^ 80 + h mod 2 ^ 80"
proof -
  have "h mod 2 ^ 80 < 2 ^ 80" by simp
  then have "0x2002 * 2 ^ 112 + unat v * 2 ^ 80 + h mod 2 ^ 80 < 2 ^ 128"
    using v4_less [of v] by simp
  then show ?thesis unfolding sixtofour_v6_def unat_of_nat by simp
qed

lemma low_word:
  assumes "unat w mod 2 ^ 32 = unat v"
  shows "ipv4_new (hi8 (segment w 6)) (lo8 (segment w 6)) (hi8 (segment w 7)) (lo8 (segment w 7)) = v"
proof -
  have "unat w div 2 ^ 16 mod 2 ^ 16 = unat v div 2 ^ 16" "unat w mod 2 ^ 16 = unat v mod 2 ^ 16"
    using assms mod_mult2_eq [of "unat w" "2 ^ 16" "2 ^ 16"] by simp_all
  then show ?thesis
    unfolding word_unat_eq_iff [of _ v] ipv4_of_segments unat_segment
    using div_mult_mod_eq [of "unat v" "2 ^ 16"] by simp
qed

lemma mod_drop: "k mod m = 0 \<Longrightarrow> (k + x) mod m = x mod (m::nat)"
  by (metis add_0 mod_add_left_eq)

lemma div_drop: "k mod m = 0 \<Longrightarrow> (k + x) div m = k div m + x div (m::nat)"
  by (simp add: div_add1_eq)

lemma embedded_mapped: "embedded_v4 (mapped_v6 v) = Some v"
proof -
  have "unat (mapped_v6 v) mod 2 ^ 32 = unat v" using v4_less [of v] by (simp add: unat_mapped mod_drop)
  moreover have "map (segment (mapped_v6 v)) [0..<5] = [0, 0, 0, 0, 0]" "segment (mapped_v6 v) 5 = 0xffff"
    using v4_less [of v] by (simp_all add: upt_rec segment_eq_iff unat_mapped)
  ultimately show ?thesis by (simp add: embedded_v4_def Let_def low_word)
qed

lemma embedded_nat64: "embedded_v4 (nat64_v6 v) = Some v"
proof -
  have "unat (nat64_v6 v) mod 2 ^ 32 = unat v" using v4_less [of v] by (simp add: unat_nat64 mod_drop)
  moreover have "segment (nat64_v6 v) 0 = 0x64" "map (segment (nat64_v6 v)) [0..<6] = [0x64, 0xff9b, 0, 0, 0, 0]"
  proof -
    have q: "unat (nat64_v6 v) div 2 ^ 32 = 0x64ff9b * 2 ^ 64"
      using v4_less [of v] by (simp add: unat_nat64 div_drop)
    have "unat (nat64_v6 v) div 2 ^ (32 + k) = 0x64ff9b * 2 ^ 64 div 2 ^ k" for k
      by (simp only: power_add div_mult2_eq q)
    from this [of 0] this [of 16] this [of 32] this [of 48] this [of 64] this [of 80]
    show "segment (nat64_v6 v) 0 = 0x64" "map (segment (nat64_v6 v)) [0..<6] = [0x64, 0xff9b, 0, 0, 0, 0]"
      by (simp_all add: upt_rec segment_eq_iff)
  qed
  ultimately show ?thesis by (simp add: embedded_v4_def Let_def low_word upt_rec)
qed

lemma embedded_sixtofour: "embedded_v4 (sixtofour_v6 v h) = Some v"
proof -
  let ?w = "sixtofour_v6 v h"
  have low: "h mod 2 ^ 80 < 2 ^ 80" by simp
  have "unat ?w div 2 ^ 80 = 0x2002 * 2 ^ 32 + unat v" using low by (simp add: unat_sixtofour)
  moreover have "unat ?w div 2 ^ 96 = unat ?w div 2 ^ 80 div 2 ^ 16"
    "unat ?w div 2 ^ 112 = unat ?w div 2 ^ 80 div 2 ^ 32" by (simp_all add: div_mult2_eq [symmetric])
  ultimately have s: "unat (segment ?w 0) = 0x2002"
      "unat (segment ?w 1) = unat v div 2 ^ 16" "unat (segment ?w 2) = unat v mod 2 ^ 16"
    using v4_less [of v] by (simp_all add: unat_segment div_less_iff_less_mult mod_drop div_drop)
  have "ipv4_new (hi8 (segment ?w 1)) (lo8 (segment ?w 1)) (hi8 (segment ?w 2)) (lo8 (segment ?w 2)) = v"
    unfolding word_unat_eq_iff [of _ v] ipv4_of_segments s by (rule div_mult_mod_eq)
  moreover have "segment ?w 0 = 0x2002" using s(1) by (simp add: word_unat_eq_iff)
  ultimately show ?thesis by (simp add: embedded_v4_def Let_def upt_rec)
qed

section \<open>Properties\<close>

text \<open>
  The IPv4 table read in octets: an address is public exactly when its octets are outside
  every special-use block the policy names; in particular no private, loopback, link-local,
  shared, multicast or reserved address is ever public.
\<close>

theorem public_v4_octets:
  "classify (V4 (ipv4_new a b c d)) = Public \<longleftrightarrow> public_octets (unat a) (unat b) (unat c)"
  by (simp add: classify_def canonical_def classify_v4_octets)

text \<open>
  An IPv4 address cannot be smuggled inside IPv6: its mapped, NAT64 and 6to4 spellings
  (whatever the 80 bits after a 6to4 prefix) are judged as the IPv4 address itself.
\<close>

theorem embedded_v4_judged_as_itself:
  "classify (V6 (mapped_v6 v)) = classify (V4 v) \<and>
   classify (V6 (nat64_v6 v)) = classify (V4 v) \<and>
   classify (V6 (sixtofour_v6 v h)) = classify (V4 v)"
  by (simp add: classify_def canonical_def embedded_mapped embedded_nat64 embedded_sixtofour)

end
