(* ===== verification/Net_Url.thy ===== *)
theory Net_Url
  imports Byte_Strings Net_Address
begin

text \<open>
  The one URL shape an app may ask for (\<^verbatim>\<open>citadel-app-net-policy/src/url.rs\<close>): the strict
  parser, its host and port grammars, and what holds of everything it accepts. Errors are the
  left injection; the order of the checks is the source's.
\<close>

datatype scheme = Https | Http

fun default_port :: "scheme \<Rightarrow> nat" where
  "default_port Https = 443"
| "default_port Http = 80"

datatype url_fault = TooLong | Character | SchemeFault | Credentials | Fragment | HostFault | PortFault

record target_url =
  t_scheme :: scheme
  t_host :: string
  t_port :: nat
  t_path :: string

definition MAX_URL_BYTES :: nat where "MAX_URL_BYTES = 8192"

definition parse_port :: "string \<Rightarrow> url_fault + nat" where
  "parse_port text =
     (let digits = (text \<noteq> [] \<and> list_all is_ascii_digit text)
      in if \<not> digits \<or> (1 < length text \<and> starts_with text ''0'') then Inl PortFault
         else case parse_dec u16_max text of
                None \<Rightarrow> Inl PortFault
              | Some port \<Rightarrow> if port = 0 then Inl PortFault else Inr port)"

text \<open>The loop over the four parts: the first that is no octet ends it.\<close>

fun parse_octets :: "string list \<Rightarrow> nat list option" where
  "parse_octets [] = Some []"
| "parse_octets (part # parts) =
     (let decimal = (part \<noteq> [] \<and> list_all is_ascii_digit part)
      in if \<not> decimal \<or> (1 < length part \<and> starts_with part ''0'') then None
         else do {
           v \<leftarrow> parse_dec u8_max part;
           vs \<leftarrow> parse_octets parts;
           Some (v # vs) })"

definition canonical_ipv4 :: "string \<Rightarrow> 32 word option" where
  "canonical_ipv4 text =
     (let parts = split_on CHR ''.'' text
      in if length parts \<noteq> 4 then None
         else case parse_octets parts of
                Some [a, b, c, d] \<Rightarrow>
                  Some (ipv4_new (word_of_nat a) (word_of_nat b) (word_of_nat c) (word_of_nat d))
              | _ \<Rightarrow> None)"

definition host_label_ok :: "string \<Rightarrow> bool" where
  "host_label_ok l \<longleftrightarrow>
     l \<noteq> [] \<and> length l \<le> 63 \<and> hd l \<noteq> CHR ''-'' \<and> last l \<noteq> CHR ''-'' \<and>
     list_all (\<lambda>b. is_ascii_lowercase b \<or> is_ascii_digit b \<or> b = CHR ''-'') l"

definition parse_host :: "string \<Rightarrow> url_fault + string" where
  "parse_host text =
     (let host = to_ascii_lowercase text
      in if canonical_ipv4 host \<noteq> None then Inr host
         else if host = [] \<or> 253 < length host then Inl HostFault
         else
           (let labels = split_on CHR ''.'' host
            in if \<not> list_all host_label_ok labels then Inl HostFault
               else if \<not> list_ex is_ascii_lowercase (last labels) \<or> starts_with (last labels) ''0x''
                 then Inl HostFault
               else Inr host))"

definition split_host_port :: "string \<Rightarrow> url_fault + string \<times> nat option" where
  "split_host_port authority =
     (if starts_with authority ''['' then Inl HostFault
      else case rsplit_once CHR '':'' authority of
             Some (host, port) \<Rightarrow>
               (case parse_port port of
                  Inl e \<Rightarrow> Inl e
                | Inr p \<Rightarrow> (case parse_host host of Inl e \<Rightarrow> Inl e | Inr h \<Rightarrow> Inr (h, Some p)))
           | None \<Rightarrow> (case parse_host authority of Inl e \<Rightarrow> Inl e | Inr h \<Rightarrow> Inr (h, None)))"

definition split_scheme :: "string \<Rightarrow> (scheme \<times> string) option" where
  "split_scheme text =
     (case strip_prefix text ''https://'' of
        Some rest \<Rightarrow> Some (Https, rest)
      | None \<Rightarrow>
          (case strip_prefix text ''http://'' of Some rest \<Rightarrow> Some (Http, rest) | None \<Rightarrow> None))"

definition in_authority :: "char \<Rightarrow> bool" where
  "in_authority c \<longleftrightarrow> c \<noteq> CHR ''/'' \<and> c \<noteq> CHR ''?''"

definition path_and_query :: "string \<Rightarrow> string" where
  "path_and_query tail =
     (case strip_prefix tail ''?'' of
        Some query \<Rightarrow> ''/?'' @ query
      | None \<Rightarrow> if tail = [] then ''/'' else tail)"

definition url_byte_ok :: "char \<Rightarrow> bool" where
  "url_byte_ok b \<longleftrightarrow> is_ascii_graphic b \<and> b \<noteq> CHR 0x5C"

definition url_parse :: "string \<Rightarrow> url_fault + target_url" where
  "url_parse text =
     (if length text > MAX_URL_BYTES then Inl TooLong
      else if \<not> list_all url_byte_ok text then Inl Character
      else if CHR ''#'' \<in> set text then Inl Fragment
      else case split_scheme text of
             None \<Rightarrow> Inl SchemeFault
           | Some (scheme, rest) \<Rightarrow>
               (let authority = takeWhile in_authority rest; tail = dropWhile in_authority rest
                in if CHR ''@'' \<in> set authority then Inl Credentials
                   else case split_host_port authority of
                          Inl e \<Rightarrow> Inl e
                        | Inr (host, port) \<Rightarrow>
                            Inr \<lparr>t_scheme = scheme, t_host = host,
                                 t_port = (case port of Some p \<Rightarrow> p | None \<Rightarrow> default_port scheme),
                                 t_path = path_and_query tail\<rparr>))"

definition ip_literal :: "target_url \<Rightarrow> 32 word option" where
  "ip_literal t = canonical_ipv4 (t_host t)"

section \<open>Ports and hosts\<close>

lemma parse_port_Inr:
  "parse_port s = Inr p \<longleftrightarrow> decimal_ok s \<and> p = dec_value s \<and> 1 \<le> p \<and> p \<le> u16_max"
  by (auto simp: parse_port_def decimal_ok_def parse_dec_def Let_def split: option.splits if_splits)

lemma parse_port_show: "1 \<le> p \<Longrightarrow> p \<le> u16_max \<Longrightarrow> parse_port (show_nat p) = Inr p"
  by (simp add: parse_port_Inr)

definition host_byte :: "char \<Rightarrow> bool" where
  "host_byte c \<longleftrightarrow> is_ascii_lowercase c \<or> is_ascii_digit c \<or> c = CHR ''-'' \<or> c = CHR ''.''"

lemma parse_octets_digits: "parse_octets ps = Some vs \<Longrightarrow> p \<in> set ps \<Longrightarrow> list_all is_ascii_digit p"
  by (induction ps arbitrary: vs) (auto simp: Let_def split: if_splits)

lemma parse_octets_bounds:
  "parse_octets ps = Some vs \<Longrightarrow> length vs = length ps \<and> (\<forall>v \<in> set vs. v \<le> u8_max)"
  by (induction ps arbitrary: vs) (auto simp: Let_def dest: parse_dec_SomeD split: if_splits)

lemma canonical_ipv4_bytes:
  assumes "canonical_ipv4 h = Some v"
  shows "list_all host_byte h" "h \<noteq> []"
proof -
  let ?ps = "split_on CHR ''.'' h"
  from assms obtain vs where vs: "parse_octets ?ps = Some vs" "length ?ps = 4"
    by (auto simp: canonical_ipv4_def Let_def split: option.splits if_splits)
  have "host_byte c" if "c \<in> set h" for c
  proof -
    from split_on_set [OF that, of "CHR ''.''"] parse_octets_digits [OF vs(1)]
    show ?thesis by (auto simp: host_byte_def list_all_iff)
  qed
  then show "list_all host_byte h" by (simp add: list_all_iff)
  show "h \<noteq> []" using vs(2) by auto
qed

lemma labels_bytes:
  assumes "list_all host_label_ok (split_on CHR ''.'' h)"
  shows "list_all host_byte h"
proof -
  have "host_byte c" if "c \<in> set h" for c
    using split_on_set [OF that, of "CHR ''.''"] assms
    by (auto simp: host_byte_def list_all_iff host_label_ok_def)
  then show ?thesis by (simp add: list_all_iff)
qed

lemma parse_host_lower: "parse_host (to_ascii_lowercase s) = parse_host s"
  by (simp add: parse_host_def)

lemma parse_host_cases:
  "parse_host s = Inr h \<Longrightarrow>
    (\<exists>v. canonical_ipv4 h = Some v) \<or> h \<noteq> [] \<and> list_all host_label_ok (split_on CHR ''.'' h)"
  by (auto simp: parse_host_def Let_def split: if_splits)

lemma parse_host_Inr:
  assumes "parse_host s = Inr h"
  shows "h = to_ascii_lowercase s" "list_all host_byte h" "h \<noteq> []" "parse_host h = Inr h"
proof -
  from assms show h: "h = to_ascii_lowercase s"
    by (auto simp: parse_host_def Let_def split: if_splits)
  from parse_host_cases [OF assms] show "list_all host_byte h" "h \<noteq> []"
    using canonical_ipv4_bytes labels_bytes by blast+
  show "parse_host h = Inr h" using assms unfolding h parse_host_lower .
qed

lemma host_byte_not: "host_byte c \<Longrightarrow> c \<notin> {CHR '':'', CHR ''/'', CHR ''?'', CHR ''@'', CHR ''['', CHR ''#'', CHR 0x5C}"
  by (auto simp: host_byte_def char_class_defs)

lemma host_byte_ok: "host_byte c \<Longrightarrow> url_byte_ok c \<and> in_authority c"
proof -
  assume c: "host_byte c"
  then have "is_ascii_graphic c" by (auto simp: host_byte_def char_class_defs)
  with host_byte_not [OF c] show ?thesis by (simp add: url_byte_ok_def in_authority_def)
qed

lemma url_byte_ok_punct: "url_byte_ok CHR ''/''" "url_byte_ok CHR ''?''" "url_byte_ok CHR '':''"
  by (simp_all add: url_byte_ok_def char_class_defs)

lemma digit_url: "is_ascii_digit c \<Longrightarrow> in_authority c \<and> url_byte_ok c \<and> c \<noteq> CHR ''@'' \<and> c \<noteq> CHR ''#''"
  by (auto simp: in_authority_def url_byte_ok_def char_class_defs)

lemma split_host_port_Inr:
  assumes "split_host_port a = Inr (h, port)"
  shows "parse_host h = Inr h" "list_all host_byte h" "h \<noteq> []"
    "\<And>p. port = Some p \<Longrightarrow> 1 \<le> p \<and> p \<le> u16_max"
  using assms
  by (auto simp: split_host_port_def parse_port_Inr dest: parse_host_Inr(2-4)
      split: if_splits option.splits sum.splits)

lemma split_host_port_render:
  assumes "parse_host h = Inr h" and "1 \<le> p" and "p \<le> u16_max"
  shows "split_host_port (h @ CHR '':'' # show_nat p) = Inr (h, Some p)"
proof -
  from parse_host_Inr(2,3) [OF assms(1)] obtain c h' where h: "h = c # h'" "host_byte c"
    by (cases h) auto
  then have "\<not> starts_with (h @ CHR '':'' # show_nat p) ''[''"
    using host_byte_not [of c] by (auto simp: starts_with_def)
  moreover have "rsplit_once CHR '':'' (h @ CHR '':'' # show_nat p) = Some (h, show_nat p)"
    by (rule rsplit_once_app) (rule digits_no [OF show_nat_digits not_digit_punct(2)])
  ultimately show ?thesis using assms by (simp add: split_host_port_def parse_port_show)
qed

section \<open>What the parser accepts\<close>

lemma url_parseE:
  assumes "url_parse s = Inr t"
  obtains rest port where "length s \<le> MAX_URL_BYTES" "list_all url_byte_ok s" "CHR ''#'' \<notin> set s"
    "split_scheme s = Some (t_scheme t, rest)"
    "CHR ''@'' \<notin> set (takeWhile in_authority rest)"
    "split_host_port (takeWhile in_authority rest) = Inr (t_host t, port)"
    "t_port t = (case port of Some p \<Rightarrow> p | None \<Rightarrow> default_port (t_scheme t))"
    "t_path t = path_and_query (dropWhile in_authority rest)"
  using assms that by (auto simp: url_parse_def Let_def split: if_splits option.splits sum.splits)

lemma split_scheme_suffix: "split_scheme s = Some (sc, rest) \<Longrightarrow> \<exists>p. s = p @ rest"
  by (auto simp: split_scheme_def strip_prefix_Some_iff split: option.splits)

lemma path_and_query_slash:
  assumes "tail = [] \<or> \<not> in_authority (hd tail)"
  shows "\<exists>r. path_and_query tail = CHR ''/'' # r \<and> set r \<subseteq> insert CHR ''?'' (set tail)"
proof (cases tail)
  case Nil
  then show ?thesis by (simp add: path_and_query_def strip_prefix_def starts_with_def)
next
  case (Cons c cs)
  with assms have "c = CHR ''/'' \<or> c = CHR ''?''" by (auto simp: in_authority_def)
  with Cons show ?thesis by (auto simp: path_and_query_def strip_prefix_def starts_with_def)
qed

definition render_url :: "target_url \<Rightarrow> string" where
  "render_url t = (case t_scheme t of Https \<Rightarrow> ''https'' | Http \<Rightarrow> ''http'') @ ''://'' @
     t_host t @ '':'' @ show_nat (t_port t) @ t_path t"

definition target_ok :: "target_url \<Rightarrow> bool" where
  "target_ok t \<longleftrightarrow> parse_host (t_host t) = Inr (t_host t) \<and> 1 \<le> t_port t \<and> t_port t \<le> u16_max \<and>
     starts_with (t_path t) ''/'' \<and> list_all url_byte_ok (t_path t) \<and> CHR ''#'' \<notin> set (t_path t)"

lemma url_parse_target_ok:
  assumes "url_parse s = Inr t"
  shows "target_ok t"
proof -
  from assms obtain rest port where p: "list_all url_byte_ok s" "CHR ''#'' \<notin> set s"
    "split_scheme s = Some (t_scheme t, rest)"
    "split_host_port (takeWhile in_authority rest) = Inr (t_host t, port)"
    "t_port t = (case port of Some p \<Rightarrow> p | None \<Rightarrow> default_port (t_scheme t))"
    "t_path t = path_and_query (dropWhile in_authority rest)"
    by (rule url_parseE)
  let ?tail = "dropWhile in_authority rest"
  have port: "1 \<le> t_port t \<and> t_port t \<le> u16_max"
    using split_host_port_Inr(4) [OF p(4)] by (cases "t_scheme t") (auto simp: p(5) u16_max_def split: option.splits)
  from split_scheme_suffix [OF p(3)] have sub: "set rest \<subseteq> set s" by auto
  have "?tail = [] \<or> \<not> in_authority (hd ?tail)" using hd_dropWhile by blast
  then obtain r where r: "t_path t = CHR ''/'' # r" "set r \<subseteq> insert CHR ''?'' (set ?tail)"
    using path_and_query_slash p(6) by metis
  have "set ?tail \<subseteq> set s" using sub set_dropWhileD by fastforce
  with r have "set (t_path t) \<subseteq> {CHR ''/'', CHR ''?''} \<union> set s" by auto
  then have "list_all url_byte_ok (t_path t)" "CHR ''#'' \<notin> set (t_path t)"
    using p(1,2) url_byte_ok_punct unfolding list_all_iff by blast+
  with port r split_host_port_Inr(1) [OF p(4)] show ?thesis
    by (simp add: target_ok_def starts_with_def)
qed

lemma url_parse_render:
  assumes ok: "target_ok t" and len: "length (render_url t) \<le> MAX_URL_BYTES"
  shows "url_parse (render_url t) = Inr t"
proof -
  let ?a = "t_host t @ CHR '':'' # show_nat (t_port t)"
  let ?rest = "?a @ t_path t"
  note h = parse_host_Inr [OF conjunct1 [OF ok [unfolded target_ok_def]]]
  from ok obtain r where path: "t_path t = CHR ''/'' # r" by (auto simp: target_ok_def starts_with_iff)
  have auth: "list_all in_authority ?a" "list_all url_byte_ok ?a" "CHR ''@'' \<notin> set ?a" "CHR ''#'' \<notin> set ?a"
  proof -
    have "in_authority c \<and> url_byte_ok c \<and> c \<noteq> CHR ''@'' \<and> c \<noteq> CHR ''#''" if "c \<in> set ?a" for c
    proof -
      from that h(2) show_nat_digits [of "t_port t"]
      consider "host_byte c" | "c = CHR '':''" | "is_ascii_digit c" by (auto simp: list_all_iff)
      then show ?thesis
        using host_byte_ok [of c] host_byte_not [of c] digit_url [of c] url_byte_ok_punct
        by cases (auto simp: in_authority_def)
    qed
    then show "list_all in_authority ?a" "list_all url_byte_ok ?a" "CHR ''@'' \<notin> set ?a" "CHR ''#'' \<notin> set ?a"
      unfolding list_all_iff by blast+
  qed
  have tw: "takeWhile in_authority ?rest = ?a" "dropWhile in_authority ?rest = t_path t"
    using auth(1) path
    by (auto simp: takeWhile_append2 dropWhile_append2 list_all_iff in_authority_def)
  have sp: "split_scheme (render_url t) = Some (t_scheme t, ?rest)"
    by (cases "t_scheme t") (simp_all add: render_url_def split_scheme_def strip_prefix_def starts_with_def)
  have bytes: "list_all url_byte_ok (render_url t)" "CHR ''#'' \<notin> set (render_url t)"
    using auth ok by (cases "t_scheme t"; simp add: render_url_def target_ok_def url_byte_ok_def char_class_defs)+
  have "path_and_query (t_path t) = t_path t"
    using path by (simp add: path_and_query_def strip_prefix_def starts_with_def)
  then show ?thesis
    using len bytes sp tw auth(3) split_host_port_render [of "t_host t" "t_port t"] ok
    by (simp add: url_parse_def target_ok_def)
qed

end
