(* ===== verification/Net_Policy.thy ===== *)
theory Net_Policy
  imports Net_Url
begin

text \<open>
  The egress policy of an app (\<^verbatim>\<open>citadel-app-net-policy/src/grant.rs\<close>, \<^verbatim>\<open>headers.rs\<close>,
  \<^verbatim>\<open>decide.rs\<close>, \<^verbatim>\<open>lib.rs\<close>): what an install was granted, which request headers it may
  set, and the decision, with every refusal the source has, in its order.
\<close>

definition AGENT_PORT :: nat where "AGENT_PORT = 12345"
definition AGENT_LOOPBACK_HOST :: string where "AGENT_LOOPBACK_HOST = ''local.avarok.net''"
definition DEFAULT_PORTS :: "nat list" where "DEFAULT_PORTS = [443, 8443]"
definition MAX_HOSTS :: nat where "MAX_HOSTS = 8"
definition MAX_REDIRECTS :: nat where "MAX_REDIRECTS = 3"
definition MAX_REQUEST_BODY_BYTES :: nat where "MAX_REQUEST_BODY_BYTES = 4 * 1024 * 1024"
definition MAX_HEADERS :: nat where "MAX_HEADERS = 32"
definition MAX_HEADER_BYTES :: nat where "MAX_HEADER_BYTES = 1024"

section \<open>Grants (grant.rs)\<close>

datatype egress = HostEgress bool | ServerEgress

record allowed_host =
  ah_host :: string
  ah_port :: "nat option"

datatype grant_fault =
    NoHosts | TooManyHosts | Wildcard string | Malformed string | Duplicate string

definition allowed_host_parse :: "string \<Rightarrow> grant_fault + allowed_host" where
  "allowed_host_parse entry =
     (if CHR ''*'' \<in> set entry then Inl (Wildcard entry)
      else if CHR ''/'' \<in> set entry \<or> CHR ''@'' \<in> set entry \<or> CHR ''?'' \<in> set entry \<or>
              CHR ''#'' \<in> set entry \<or> entry \<noteq> to_ascii_lowercase entry
        then Inl (Malformed entry)
      else case split_host_port entry of
             Inl _ \<Rightarrow> Inl (Malformed entry)
           | Inr (host, port) \<Rightarrow> Inr \<lparr>ah_host = host, ah_port = port\<rparr>)"

definition host_admits :: "allowed_host \<Rightarrow> string \<Rightarrow> nat \<Rightarrow> bool" where
  "host_admits a host port \<longleftrightarrow>
     ah_host a = host \<and>
     (case ah_port a of Some listed \<Rightarrow> listed = port | None \<Rightarrow> List.member DEFAULT_PORTS port)"

record net_grant =
  g_egress :: egress
  g_hosts :: "allowed_host list"

text \<open>The loop of \<^verbatim>\<open>NetGrant::new\<close>: the hosts so far, then the entries left.\<close>

fun parse_entries :: "allowed_host list \<Rightarrow> string list \<Rightarrow> grant_fault + allowed_host list" where
  "parse_entries hosts [] = Inr hosts"
| "parse_entries hosts (entry # entries) =
     (case allowed_host_parse entry of
        Inl e \<Rightarrow> Inl e
      | Inr host \<Rightarrow>
          if List.member hosts host then Inl (Duplicate entry)
          else parse_entries (hosts @ [host]) entries)"

definition net_grant_new :: "egress \<Rightarrow> string list \<Rightarrow> grant_fault + net_grant" where
  "net_grant_new eg entries =
     (if entries = [] then Inl NoHosts
      else if length entries > MAX_HOSTS then Inl TooManyHosts
      else case parse_entries [] entries of
             Inl e \<Rightarrow> Inl e
           | Inr hosts \<Rightarrow> Inr \<lparr>g_egress = eg, g_hosts = hosts\<rparr>)"

definition grant_private :: "net_grant \<Rightarrow> bool" where
  "grant_private g \<longleftrightarrow> g_egress g = HostEgress True"

definition grant_admits :: "net_grant \<Rightarrow> string \<Rightarrow> nat \<Rightarrow> bool" where
  "grant_admits g host port = list_ex (\<lambda>e. host_admits e host port) (g_hosts g)"

record deployment =
  page_origin_host :: string

section \<open>Headers (headers.rs)\<close>

definition ALLOWED_HEADERS :: "string list" where
  "ALLOWED_HEADERS = [''accept'', ''accept-language'', ''authorization'', ''cache-control'',
     ''content-language'', ''content-type'', ''cookie'', ''if-match'', ''if-modified-since'',
     ''if-none-match'', ''if-range'', ''if-unmodified-since'', ''pragma'', ''range'', ''user-agent'']"

definition name_allowed :: "string \<Rightarrow> bool" where
  "name_allowed name =
     (let token = (name \<noteq> [] \<and>
            list_all (\<lambda>b. is_ascii_lowercase b \<or> is_ascii_digit b \<or> b = CHR ''-'') name)
      in if \<not> token then False
         else if List.member ALLOWED_HEADERS name then True
         else starts_with name ''x-'' \<and> length name > 2 \<and>
              \<not> starts_with name ''x-forwarded-'' \<and> name \<noteq> ''x-real-ip'')"

definition value_allowed :: "string \<Rightarrow> bool" where
  "value_allowed v = list_all (\<lambda>b. byte b = 9 \<or> (0x20 \<le> byte b \<and> byte b \<le> 0x7e)) v"

definition headers_allowed :: "(string \<times> string) list \<Rightarrow> bool" where
  "headers_allowed hs \<longleftrightarrow>
     length hs \<le> MAX_HEADERS \<and>
     list_all (\<lambda>(name, v). length name + length v \<le> MAX_HEADER_BYTES \<and>
                 name_allowed name \<and> value_allowed v) hs"

definition DENIED_RESPONSE_HEADERS :: "string list" where
  "DENIED_RESPONSE_HEADERS = [''set-cookie'', ''set-cookie2'', ''www-authenticate'',
     ''proxy-authenticate'', ''content-length'', ''transfer-encoding'', ''connection'',
     ''keep-alive'', ''upgrade'', ''te'', ''trailer'', ''proxy-connection'']"

definition response_header_ok :: "string \<Rightarrow> bool" where
  "response_header_ok name =
     (\<not> list_ex (\<lambda>denied. to_ascii_lowercase denied = to_ascii_lowercase name) DENIED_RESPONSE_HEADERS)"

section \<open>The decision (decide.rs)\<close>

definition METADATA :: "ip_addr list" where
  "METADATA = [V4 (ipv4_new 169 254 169 254), V4 (ipv4_new 100 100 100 200),
     V6 (ipv6_new [0xfd00, 0xec2, 0, 0, 0, 0, 0, 0x254])]"

definition METHODS :: "string list" where
  "METHODS = [''GET'', ''POST'', ''PUT'', ''DELETE'', ''PATCH'', ''HEAD'']"

record egress_request =
  q_method :: string
  q_url :: string
  q_headers :: "(string \<times> string) list"
  q_body_len :: nat

datatype deny_reason =
    DenyUrl url_fault | DenyScheme | DenyMethod | DenyBody | DenyHeaders | NotListed | AgentHost
  | PageOrigin | NoAddress | AgentPort | Metadata ip_addr | Address ip_addr address_class
  | TooManyRedirects | RedirectOffHost | RedirectDowngrade

record allowed =
  a_target :: target_url
  a_connect :: "(ip_addr \<times> nat) list"

datatype verdict = Allow allowed | Policy deny_reason

definition follow :: "allowed \<Rightarrow> string \<Rightarrow> string" where
  "follow a location =
     (if starts_with location ''/'' \<and> \<not> starts_with location ''//'' then
        (case t_scheme (a_target a) of Https \<Rightarrow> ''https'' | Http \<Rightarrow> ''http'') @ ''://'' @
        t_host (a_target a) @ '':'' @ show_nat (t_port (a_target a)) @ location
      else location)"

definition is_agent_host :: "string \<Rightarrow> bool" where
  "is_agent_host host \<longleftrightarrow> host = AGENT_LOOPBACK_HOST \<or> ends_with host (''.'' @ AGENT_LOOPBACK_HOST)"

definition check_address :: "ip_addr \<Rightarrow> net_grant \<Rightarrow> deny_reason option" where
  "check_address address g =
     (let plain = canonical address
      in if List.member METADATA plain \<or> List.member METADATA address then Some (Metadata address)
         else case classify address of
                Public \<Rightarrow> None
              | Private r \<Rightarrow> if grant_private g then None else Some (Address address (Private r))
              | Forbidden r \<Rightarrow> Some (Address address (Forbidden r)))"

fun check_addresses :: "ip_addr list \<Rightarrow> net_grant \<Rightarrow> deny_reason option" where
  "check_addresses [] g = None"
| "check_addresses (a # as) g =
     (case check_address a g of Some e \<Rightarrow> Some e | None \<Rightarrow> check_addresses as g)"

definition check ::
  "egress_request \<Rightarrow> ip_addr list \<Rightarrow> net_grant \<Rightarrow> deployment \<Rightarrow> deny_reason + allowed" where
  "check req resolved g dep =
     (case url_parse (q_url req) of
        Inl e \<Rightarrow> Inl (DenyUrl e)
      | Inr target \<Rightarrow>
          if is_agent_host (t_host target) then Inl AgentHost
          else if t_host target = page_origin_host dep then Inl PageOrigin
          else if t_port target = AGENT_PORT then Inl AgentPort
          else if t_scheme target = Http \<and> \<not> grant_private g then Inl DenyScheme
          else if \<not> List.member METHODS (q_method req) then Inl DenyMethod
          else
            (let bodiless = (q_method req = ''GET'' \<or> q_method req = ''HEAD'')
             in if q_body_len req > MAX_REQUEST_BODY_BYTES \<or> (bodiless \<and> q_body_len req > 0) then Inl DenyBody
                else if \<not> headers_allowed (q_headers req) then Inl DenyHeaders
                else if \<not> grant_admits g (t_host target) (t_port target) then Inl NotListed
                else
                  (let addresses = (case ip_literal target of Some v \<Rightarrow> [V4 v] | None \<Rightarrow> resolved)
                   in if addresses = [] then Inl NoAddress
                      else case check_addresses addresses g of
                             Some e \<Rightarrow> Inl e
                           | None \<Rightarrow> Inr \<lparr>a_target = target,
                                          a_connect = map (\<lambda>ip. (ip, t_port target)) addresses\<rparr>)))"

definition decide ::
  "egress_request \<Rightarrow> ip_addr list \<Rightarrow> net_grant \<Rightarrow> deployment \<Rightarrow> verdict" where
  "decide req resolved g dep =
     (case check req resolved g dep of Inr a \<Rightarrow> Allow a | Inl e \<Rightarrow> Policy e)"

definition decide_redirect ::
  "allowed \<Rightarrow> nat \<Rightarrow> egress_request \<Rightarrow> ip_addr list \<Rightarrow> net_grant \<Rightarrow> deployment \<Rightarrow> verdict" where
  "decide_redirect previous hop nxt resolved g dep =
     (if hop = 0 \<or> hop > MAX_REDIRECTS then Policy TooManyRedirects
      else case url_parse (q_url nxt) of
             Inl e \<Rightarrow> Policy (DenyUrl e)
           | Inr target \<Rightarrow>
               if t_host target \<noteq> t_host (a_target previous) then Policy RedirectOffHost
               else if t_scheme (a_target previous) = Https \<and> t_scheme target = Http
                 then Policy RedirectDowngrade
               else decide nxt resolved g dep)"

section \<open>Addresses and grants\<close>

definition address_permitted :: "net_grant \<Rightarrow> ip_addr \<Rightarrow> bool" where
  "address_permitted g ip \<longleftrightarrow>
     canonical ip \<notin> set METADATA \<and> ip \<notin> set METADATA \<and>
     (classify ip = Public \<or> grant_private g \<and> (\<exists>r. classify ip = Private r))"

lemma check_address_None: "check_address ip g = None \<longleftrightarrow> address_permitted g ip"
  by (auto simp: check_address_def address_permitted_def Let_def List.member_iff
      split: address_class.splits)

lemma check_addresses_None: "check_addresses ips g = None \<longleftrightarrow> list_all (address_permitted g) ips"
  by (induction ips) (auto simp: check_address_None [symmetric] split: option.splits)

lemma checkE:
  assumes "check req resolved g dep = Inr a"
  obtains "url_parse (q_url req) = Inr (a_target a)"
    "\<not> is_agent_host (t_host (a_target a))" "t_host (a_target a) \<noteq> page_origin_host dep"
    "t_port (a_target a) \<noteq> AGENT_PORT" "t_scheme (a_target a) = Https \<or> grant_private g"
    "List.member METHODS (q_method req)" "q_body_len req \<le> MAX_REQUEST_BODY_BYTES"
    "headers_allowed (q_headers req)" "grant_admits g (t_host (a_target a)) (t_port (a_target a))"
    "a_connect a \<noteq> []"
    "a_connect a = map (\<lambda>ip. (ip, t_port (a_target a)))
        (case ip_literal (a_target a) of Some v \<Rightarrow> [V4 v] | None \<Rightarrow> resolved)"
    "list_all (address_permitted g) (map fst (a_connect a))"
proof -
  have sch: "t_scheme t \<noteq> Http \<longleftrightarrow> t_scheme t = Https" for t by (cases "t_scheme t") simp_all
  from assms show thesis
    by (intro that)
       (auto simp: check_def Let_def check_addresses_None check_address_None sch comp_def
          split: sum.splits if_splits option.splits)
qed


lemma parse_entries_Inr:
  assumes "parse_entries hosts entries = Inr hs"
  shows "\<exists>new. hs = hosts @ new \<and> length new = length entries \<and>
    (distinct hosts \<longrightarrow> distinct hs) \<and>
    list_all2 (\<lambda>e h. allowed_host_parse e = Inr h) entries new"
  using assms
proof (induction hosts entries rule: parse_entries.induct)
  case (2 hosts e es)
  from "2.prems" obtain h where h: "allowed_host_parse e = Inr h" "\<not> List.member hosts h"
      "parse_entries (hosts @ [h]) es = Inr hs"
    by (auto split: sum.splits if_splits)
  from "2.IH" [OF h] obtain new where "hs = (hosts @ [h]) @ new" "length new = length es"
      "distinct (hosts @ [h]) \<longrightarrow> distinct hs" "list_all2 (\<lambda>e h. allowed_host_parse e = Inr h) es new"
    by blast
  with h show ?case by (intro exI [of _ "h # new"]) (auto simp: List.member_iff)
qed simp

lemma allowed_host_parse_Inr:
  assumes "allowed_host_parse e = Inr h"
  shows "list_all host_byte (ah_host h)" "ah_host h \<noteq> []" "CHR ''*'' \<notin> set e" "to_ascii_lowercase e = e"
    "\<And>p. ah_port h = Some p \<Longrightarrow> 1 \<le> p \<and> p \<le> u16_max"
  using assms
  by (auto simp: allowed_host_parse_def dest: split_host_port_Inr(2-4) split: if_splits sum.splits)

lemma host_admits_iff:
  "host_admits h host port \<longleftrightarrow> ah_host h = host \<and>
     (ah_port h = Some port \<or> ah_port h = None \<and> (port = 443 \<or> port = 8443))"
  by (cases "ah_port h") (auto simp: host_admits_def DEFAULT_PORTS_def)

lemma list_all2_right: "list_all2 P xs ys \<Longrightarrow> y \<in> set ys \<Longrightarrow> \<exists>x \<in> set xs. P x y"
  by (induction xs ys rule: list_all2_induct) auto

lemma list_all2_left: "list_all2 P xs ys \<Longrightarrow> x \<in> set xs \<Longrightarrow> \<exists>y \<in> set ys. P x y"
  by (induction xs ys rule: list_all2_induct) auto

lemma follow_render:
  assumes "starts_with location ''/''" "\<not> starts_with location ''//''"
  shows "follow a location = render_url ((a_target a)\<lparr>t_path := location\<rparr>)"
  using assms by (simp add: follow_def render_url_def)

section \<open>A concrete install\<close>

definition acme_grant :: net_grant where
  "acme_grant = \<lparr>g_egress = HostEgress False, g_hosts = [\<lparr>ah_host = ''api.acme.com'', ah_port = None\<rparr>]\<rparr>"

definition acme_page :: deployment where "acme_page = \<lparr>page_origin_host = ''acme.work.avarok.net''\<rparr>"

definition acme_get :: "string \<Rightarrow> egress_request" where
  "acme_get u = \<lparr>q_method = ''GET'', q_url = u, q_headers = [(''accept'', ''*'')], q_body_len = 0\<rparr>"

lemmas policy_eval = decide_def check_def acme_grant_def acme_page_def acme_get_def url_parse_def
  split_scheme_def split_host_port_def parse_host_def parse_port_def canonical_ipv4_def host_label_ok_def
  MAX_URL_BYTES_def url_byte_ok_def in_authority_def path_and_query_def is_agent_host_def
  AGENT_LOOPBACK_HOST_def AGENT_PORT_def grant_private_def METHODS_def MAX_REQUEST_BODY_BYTES_def
  headers_allowed_def MAX_HEADERS_def MAX_HEADER_BYTES_def name_allowed_def value_allowed_def
  ALLOWED_HEADERS_def grant_admits_def host_admits_def DEFAULT_PORTS_def ip_literal_def

definition acme_target :: "string \<Rightarrow> target_url" where
  "acme_target path = \<lparr>t_scheme = Https, t_host = ''api.acme.com'', t_port = 443, t_path = path\<rparr>"

definition acme_ip :: ip_addr where "acme_ip = V4 (ipv4_new 93 184 216 34)"

lemma acme_url: "url_parse ''https://api.acme.com/v1'' = Inr (acme_target ''/v1'')"
  by (simp add: policy_eval string_eval acme_target_def)

lemma acme_permitted: "address_permitted acme_grant acme_ip"
proof -
  have "classify acme_ip = Public"
    unfolding acme_ip_def classify_def canonical_def
    by (simp add: classify_v4_octets public_octets_def)
  moreover have "canonical acme_ip = acme_ip" by (simp add: acme_ip_def canonical_def)
  moreover have "acme_ip \<notin> set METADATA" by (simp add: acme_ip_def METADATA_def ipv4_new_def)
  ultimately show ?thesis by (simp add: address_permitted_def)
qed

lemma acme_allowed:
  "decide (acme_get ''https://api.acme.com/v1'') [acme_ip] acme_grant acme_page =
     Allow \<lparr>a_target = acme_target ''/v1'', a_connect = [(acme_ip, 443)]\<rparr>"
proof -
  have "check_addresses [acme_ip] acme_grant = None"
    using acme_permitted by (simp add: check_addresses_None del: check_addresses.simps)
  moreover have "ip_literal (acme_target ''/v1'') = None"
    by (simp add: ip_literal_def acme_target_def canonical_ipv4_def)
  ultimately show ?thesis
    using acme_url unfolding decide_def check_def
    by (simp add: acme_get_def del: check_addresses.simps)
       (simp add: policy_eval string_eval acme_target_def del: check_addresses.simps)
qed

section \<open>Properties\<close>

text \<open>
  C7. What an allowed request may touch. Every address it may connect to carries the target's
  port and is permitted: neither it nor the IPv4 address it carries is a cloud metadata
  endpoint, and it is public, or private under host egress granted private. The addresses are
  exactly the ones the caller resolved (or the literal), never empty, so one refused answer
  refuses them all; the target is on the install's list, is not the agent's port or name nor the
  page's own host, and is https unless private was granted.
\<close>

theorem egress_decision_safe:
  assumes "decide req resolved g dep = Allow a"
  shows "a_connect a \<noteq> [] \<and>
    map fst (a_connect a) = (case ip_literal (a_target a) of Some v \<Rightarrow> [V4 v] | None \<Rightarrow> resolved) \<and>
    (\<forall>(ip, port) \<in> set (a_connect a). port = t_port (a_target a) \<and> port \<noteq> 12345 \<and>
       canonical ip \<notin> set METADATA \<and>
       (classify ip = Public \<or> g_egress g = HostEgress True \<and> (\<exists>r. classify ip = Private r))) \<and>
    url_parse (q_url req) = Inr (a_target a) \<and>
    grant_admits g (t_host (a_target a)) (t_port (a_target a)) \<and>
    t_host (a_target a) \<noteq> ''local.avarok.net'' \<and> \<not> ends_with (t_host (a_target a)) ''.local.avarok.net'' \<and>
    t_host (a_target a) \<noteq> page_origin_host dep \<and>
    (t_scheme (a_target a) = Https \<or> g_egress g = HostEgress True)"
proof -
  from assms have "check req resolved g dep = Inr a" by (auto simp: decide_def split: sum.splits)
  then show ?thesis
    by (rule checkE)
       (auto simp: list_all_iff address_permitted_def grant_private_def is_agent_host_def
          AGENT_LOOPBACK_HOST_def AGENT_PORT_def comp_def split: option.splits)
qed

theorem egress_decision_safe_witness:
  "decide (acme_get ''https://api.acme.com/v1'') [acme_ip] acme_grant acme_page =
     Allow \<lparr>a_target = acme_target ''/v1'', a_connect = [(acme_ip, 443)]\<rparr> \<and>
   classify acme_ip = Public \<and> grant_admits acme_grant ''api.acme.com'' 443"
  using acme_allowed egress_decision_safe [OF acme_allowed]
  by (simp add: acme_grant_def acme_target_def)

text \<open>
  A redirect cannot leave what was allowed: an allowed hop is one of the first three, stays
  on the previous request's host, never goes from https to http, and is decided like any other
  request.
\<close>

theorem redirect_decision_safe:
  assumes "decide_redirect previous hop nxt resolved g dep = Allow a"
  shows "1 \<le> hop \<and> hop \<le> 3 \<and> t_host (a_target a) = t_host (a_target previous) \<and>
    (t_scheme (a_target previous) = Https \<longrightarrow> t_scheme (a_target a) = Https) \<and>
    decide nxt resolved g dep = Allow a"
proof -
  from assms obtain t where t: "url_parse (q_url nxt) = Inr t" "hop \<noteq> 0" "hop \<le> MAX_REDIRECTS"
      "t_host t = t_host (a_target previous)"
      "\<not> (t_scheme (a_target previous) = Https \<and> t_scheme t = Http)" "decide nxt resolved g dep = Allow a"
    by (auto simp: decide_redirect_def split: if_splits sum.splits)
  from t(6) have "check nxt resolved g dep = Inr a" by (auto simp: decide_def split: sum.splits)
  then have "a_target a = t" using t(1) by (auto elim: checkE)
  with t show ?thesis by (cases "t_scheme t") (simp_all add: MAX_REDIRECTS_def)
qed

theorem redirect_decision_safe_witness:
  "decide_redirect \<lparr>a_target = acme_target ''/'', a_connect = [(acme_ip, 443)]\<rparr> 1
     (acme_get ''https://api.acme.com/v1'') [acme_ip] acme_grant acme_page =
     Allow \<lparr>a_target = acme_target ''/v1'', a_connect = [(acme_ip, 443)]\<rparr> \<and>
   t_host (acme_target ''/v1'') = t_host (acme_target ''/'')"
proof -
  have d: "decide_redirect \<lparr>a_target = acme_target ''/'', a_connect = [(acme_ip, 443)]\<rparr> 1
     (acme_get ''https://api.acme.com/v1'') [acme_ip] acme_grant acme_page =
     Allow \<lparr>a_target = acme_target ''/v1'', a_connect = [(acme_ip, 443)]\<rparr>"
    using acme_url acme_allowed unfolding decide_redirect_def
    by (simp add: acme_get_def acme_target_def MAX_REDIRECTS_def)
  with redirect_decision_safe [OF d] show ?thesis by simp
qed

text \<open>
  Reading a URL and writing it back is the identity: what the parser accepted, written as
  scheme, host, port and path, is accepted again and read as the same target (when it still
  fits). In particular a Location that is an absolute path, joined to an allowed request, is
  read as the same scheme, host and port with that path.
\<close>

theorem url_follow_roundtrip:
  assumes "url_parse s = Inr t"
  shows "(length (render_url t) \<le> MAX_URL_BYTES \<longrightarrow> url_parse (render_url t) = Inr t) \<and>
    (a_target a = t \<and> starts_with loc ''/'' \<and> \<not> starts_with loc ''//'' \<and>
     list_all url_byte_ok loc \<and> CHR ''#'' \<notin> set loc \<and> length (follow a loc) \<le> MAX_URL_BYTES \<longrightarrow>
       url_parse (follow a loc) = Inr (t\<lparr>t_path := loc\<rparr>))"
proof (intro conjI impI)
  note ok = url_parse_target_ok [OF assms]
  show "url_parse (render_url t) = Inr t" if "length (render_url t) \<le> MAX_URL_BYTES"
    using url_parse_render [OF ok that] .
  assume loc: "a_target a = t \<and> starts_with loc ''/'' \<and> \<not> starts_with loc ''//'' \<and>
     list_all url_byte_ok loc \<and> CHR ''#'' \<notin> set loc \<and> length (follow a loc) \<le> MAX_URL_BYTES"
  then have "target_ok (t\<lparr>t_path := loc\<rparr>)" using ok by (simp add: target_ok_def)
  moreover have "follow a loc = render_url (t\<lparr>t_path := loc\<rparr>)" using follow_render loc by metis
  ultimately show "url_parse (follow a loc) = Inr (t\<lparr>t_path := loc\<rparr>)"
    using url_parse_render [of "t\<lparr>t_path := loc\<rparr>"] loc by simp
qed

theorem url_follow_roundtrip_witness:
  "url_parse (follow \<lparr>a_target = acme_target ''/v1'', a_connect = []\<rparr> ''/login?next=1'') =
     Inr (acme_target ''/login?next=1'')"
proof -
  let ?a = "\<lparr>a_target = acme_target ''/v1'', a_connect = []\<rparr> :: allowed" and ?loc = "''/login?next=1''"
  have len: "length (follow ?a ?loc) \<le> MAX_URL_BYTES"
    by (simp add: follow_def acme_target_def starts_with_def show_nat.simps MAX_URL_BYTES_def)
  have "list_all url_byte_ok ?loc" by (simp add: url_byte_ok_def char_class_defs)
  with url_follow_roundtrip [OF acme_url, of ?a ?loc] len show ?thesis
    by (simp add: starts_with_def acme_target_def)
qed

text \<open>
  A grant that was built is a grant as documented: one to eight entries, all distinct, each
  the reading of one entry with no wildcard, upper case, scheme, path or credentials in it, its
  host made of lower-case letters, digits, hyphens and dots, its port (if any) a real port; and
  it admits a host and port exactly when an entry names that host and that port, or that host
  without a port and the port is 443 or 8443.
\<close>

theorem net_grant_wellformed:
  assumes "net_grant_new eg entries = Inr g"
  shows "g_egress g = eg \<and> 1 \<le> length (g_hosts g) \<and> length (g_hosts g) \<le> 8 \<and> distinct (g_hosts g) \<and>
    list_all2 (\<lambda>e h. allowed_host_parse e = Inr h) entries (g_hosts g) \<and>
    list_all (\<lambda>e. CHR ''*'' \<notin> set e \<and> to_ascii_lowercase e = e) entries \<and>
    list_all (\<lambda>h. list_all host_byte (ah_host h) \<and> ah_host h \<noteq> []) (g_hosts g) \<and>
    (grant_admits g host port \<longleftrightarrow>
       (\<exists>h \<in> set (g_hosts g). ah_host h = host \<and>
          (ah_port h = Some port \<or> ah_port h = None \<and> (port = 443 \<or> port = 8443))))"
proof -
  from assms obtain hs where hs: "parse_entries [] entries = Inr hs" and g: "g = \<lparr>g_egress = eg, g_hosts = hs\<rparr>"
      and n: "entries \<noteq> []" "length entries \<le> 8"
    by (auto simp: net_grant_new_def MAX_HOSTS_def split: if_splits sum.splits)
  from parse_entries_Inr [OF hs] have h: "length hs = length entries" "distinct hs"
      "list_all2 (\<lambda>e h. allowed_host_parse e = Inr h) entries hs" by auto
  have entry: "CHR ''*'' \<notin> set e \<and> to_ascii_lowercase e = e" if "e \<in> set entries" for e
    using list_all2_left [OF h(3) that] allowed_host_parse_Inr(3,4) by blast
  have host: "list_all host_byte (ah_host x) \<and> ah_host x \<noteq> []" if "x \<in> set hs" for x
    using list_all2_right [OF h(3) that] allowed_host_parse_Inr(1,2) by blast
  have "grant_admits g host port \<longleftrightarrow>
      (\<exists>h \<in> set hs. ah_host h = host \<and> (ah_port h = Some port \<or> ah_port h = None \<and> (port = 443 \<or> port = 8443)))"
    by (simp only: g grant_admits_def list_ex_iff host_admits_iff net_grant.simps)
  moreover have "1 \<le> length hs" "length hs \<le> 8" using n h(1) by (simp_all add: Suc_le_eq)
  moreover have "list_all (\<lambda>e. CHR ''*'' \<notin> set e \<and> to_ascii_lowercase e = e) entries"
    "list_all (\<lambda>h. list_all host_byte (ah_host h) \<and> ah_host h \<noteq> []) hs"
    using entry host unfolding list_all_iff by blast+
  ultimately show ?thesis using h(2,3) by (simp add: g)
qed

theorem net_grant_wellformed_witness:
  "net_grant_new (HostEgress False) [''api.acme.com''] = Inr acme_grant \<and> distinct (g_hosts acme_grant) \<and>
   grant_admits acme_grant ''api.acme.com'' 8443 \<and> \<not> grant_admits acme_grant ''api.acme.com'' 80"
proof -
  have n: "net_grant_new (HostEgress False) [''api.acme.com''] = Inr acme_grant"
    by (simp add: net_grant_new_def MAX_HOSTS_def allowed_host_parse_def policy_eval string_eval)
  with net_grant_wellformed [OF n, of "''api.acme.com''" 8443]
    net_grant_wellformed [OF n, of "''api.acme.com''" 80]
  show ?thesis by (simp add: acme_grant_def)
qed

text \<open>
  No header an app may set carries framing or routing: of every allowed header the name is
  lower-case token text, is none of host, content-length, transfer-encoding, connection,
  upgrade, forwarded, origin, te or x-real-ip and does not start with x-forwarded-, proxy- or
  sec-, and the value holds no carriage return, line feed or NUL.
\<close>

theorem headers_cannot_frame:
  assumes "headers_allowed hs" and "(name, v) \<in> set hs"
  shows "name \<notin> {''host'', ''content-length'', ''transfer-encoding'', ''connection'', ''upgrade'',
      ''forwarded'', ''origin'', ''te'', ''x-real-ip''} \<and>
    \<not> starts_with name ''x-forwarded-'' \<and> \<not> starts_with name ''proxy-'' \<and> \<not> starts_with name ''sec-'' \<and>
    {CHR 0x0D, CHR 0x0A, CHR 0x00} \<inter> set v = {} \<and> length name + length v \<le> 1024"
proof -
  from assms have n: "name_allowed name" and v: "value_allowed v" and len: "length name + length v \<le> 1024"
    by (auto simp: headers_allowed_def list_all_iff MAX_HEADER_BYTES_def)
  have "name \<in> set ALLOWED_HEADERS \<or> starts_with name ''x-'' \<and> \<not> starts_with name ''x-forwarded-'' \<and> name \<noteq> ''x-real-ip''"
    using n by (auto simp: name_allowed_def Let_def List.member_iff split: if_splits)
  moreover have "{CHR 0x0D, CHR 0x0A, CHR 0x00} \<inter> set v = {}"
    using v by (auto simp: value_allowed_def list_all_iff byte_def)
  moreover have "name \<notin> set ALLOWED_HEADERS" if "name \<in> {''host'', ''content-length'', ''transfer-encoding'',
      ''connection'', ''upgrade'', ''forwarded'', ''origin'', ''te''}"
    using that by (auto simp: ALLOWED_HEADERS_def)
  moreover have "\<not> starts_with name ''x-forwarded-'' \<and> \<not> starts_with name ''proxy-'' \<and> \<not> starts_with name ''sec-''"
    if "name \<in> set ALLOWED_HEADERS" using that by (auto simp: ALLOWED_HEADERS_def starts_with_def)
  moreover have "\<not> starts_with name ''proxy-'' \<and> \<not> starts_with name ''sec-''" if "starts_with name ''x-''"
    using that by (auto simp: starts_with_iff)
  moreover have "\<not> starts_with name ''x-''" if "name \<in> {''host'', ''content-length'', ''transfer-encoding'',
      ''connection'', ''upgrade'', ''forwarded'', ''origin'', ''te''}"
    using that by (auto simp: starts_with_def)
  moreover have "''x-real-ip'' \<notin> set ALLOWED_HEADERS" by (simp add: ALLOWED_HEADERS_def)
  ultimately show ?thesis using len unfolding insert_iff empty_iff by metis
qed

theorem headers_cannot_frame_witness:
  "headers_allowed [(''accept'', ''text/html''), (''x-app'', ''1'')] \<and>
   {CHR 0x0D, CHR 0x0A, CHR 0x00} \<inter> set ''text/html'' = {}"
proof -
  have h: "headers_allowed [(''accept'', ''text/html''), (''x-app'', ''1'')]"
    by (simp add: policy_eval string_eval)
  with headers_cannot_frame [OF h, of "''accept''" "''text/html''"] show ?thesis by simp
qed

end
