(* ===== verification/Hash_Map.thy ===== *)
theory Hash_Map
  imports BTreeMap
begin

text \<open>
  Rust's \<^verbatim>\<open>HashMap\<close> as the components use it: its entries in no particular order, here the
  order of insertion. The same interface as the ordered map's, interpreted on an association
  list with distinct keys.
\<close>

type_synonym ('k, 'v) hmap = "('k \<times> 'v) list"

fun hm_get :: "('k, 'v) hmap \<Rightarrow> 'k \<Rightarrow> 'v option" where
  "hm_get [] j = None"
| "hm_get ((k, v) # m) j = (if j = k then Some v else hm_get m j)"

fun hm_insert :: "'k \<Rightarrow> 'v \<Rightarrow> ('k, 'v) hmap \<Rightarrow> ('k, 'v) hmap" where
  "hm_insert k v [] = [(k, v)]"
| "hm_insert k v ((j, w) # m) = (if k = j then (k, v) # m else (j, w) # hm_insert k v m)"

fun hm_remove :: "'k \<Rightarrow> ('k, 'v) hmap \<Rightarrow> ('k, 'v) hmap" where
  "hm_remove k [] = []"
| "hm_remove k ((j, w) # m) = (if k = j then m else (j, w) # hm_remove k m)"

definition hm_wf :: "('k, 'v) hmap \<Rightarrow> bool" where
  "hm_wf m \<longleftrightarrow> distinct (map fst m)"

definition hm_retain :: "('k \<Rightarrow> 'v \<Rightarrow> bool) \<Rightarrow> ('k, 'v) hmap \<Rightarrow> ('k, 'v) hmap" where
  "hm_retain P m = filter (\<lambda>(k, v). P k v) m"

text \<open>\<^verbatim>\<open>retain\<close> whose closure also updates the values it keeps.\<close>

definition hm_retain_map :: "('k \<Rightarrow> 'v \<Rightarrow> 'v option) \<Rightarrow> ('k, 'v) hmap \<Rightarrow> ('k, 'v) hmap" where
  "hm_retain_map f m = concat (map (\<lambda>(k, v). case f k v of Some w \<Rightarrow> [(k, w)] | None \<Rightarrow> []) m)"

lemma hm_get_None: "hm_get m k = None \<longleftrightarrow> k \<notin> fst ` set m"
  by (induction m k rule: hm_get.induct) auto

lemma hm_wf_simps [simp]:
  "hm_wf []" "hm_wf ((k, v) # m) \<longleftrightarrow> hm_get m k = None \<and> hm_wf m"
  by (auto simp: hm_wf_def hm_get_None image_iff)

lemma hm_insert_keys: "fst ` set (hm_insert k v m) = insert k (fst ` set m)"
  by (induction k v m rule: hm_insert.induct) auto

lemma hm_get_insert [simp]: "hm_get (hm_insert k v m) j = (if j = k then Some v else hm_get m j)"
  by (induction k v m rule: hm_insert.induct) auto

lemma hm_wf_insert [simp]: "hm_wf m \<Longrightarrow> hm_wf (hm_insert k v m)"
  by (induction k v m rule: hm_insert.induct) (auto split: if_splits)

lemma hm_get_remove [simp]:
  "hm_wf m \<Longrightarrow> hm_get (hm_remove k m) j = (if j = k then None else hm_get m j)"
  by (induction k m rule: hm_remove.induct) auto

lemma hm_wf_remove [simp]: "hm_wf m \<Longrightarrow> hm_wf (hm_remove k m)"
  by (induction k m rule: hm_remove.induct) auto

interpretation hm: key_map hm_get hm_insert hm_remove hm_wf
  by unfold_locales simp_all

lemma retain_absent: "hm_get m k = None \<Longrightarrow> hm_get (hm_retain P m) k = None"
  by (auto simp: hm_get_None hm_retain_def)

lemma retain_map_absent: "hm_get m k = None \<Longrightarrow> hm_get (hm_retain_map f m) k = None"
  by (auto simp: hm_get_None hm_retain_map_def image_iff split: option.splits)

lemma hm_retain_Cons:
  "hm_retain P ((k, v) # m) = (if P k v then (k, v) # hm_retain P m else hm_retain P m)"
  by (simp add: hm_retain_def)

lemma hm_get_retain [simp]:
  "hm_wf m \<Longrightarrow> hm_get (hm_retain P m) j =
    (case hm_get m j of None \<Rightarrow> None | Some v \<Rightarrow> if P j v then Some v else None)"
proof (induction m j rule: hm_get.induct)
  case (2 k v m j)
  then show ?case by (auto simp: hm_retain_Cons retain_absent split: option.splits)
qed (simp add: hm_retain_def)

lemma hm_wf_retain [simp]: "hm_wf m \<Longrightarrow> hm_wf (hm_retain P m)"
proof (induction m)
  case (Cons kv m)
  then show ?case by (cases kv) (auto simp: hm_retain_def hm_get_None image_iff)
qed (simp add: hm_retain_def)

lemma hm_retain_map_Cons:
  "hm_retain_map f ((k, v) # m) =
    (case f k v of Some w \<Rightarrow> (k, w) # hm_retain_map f m | None \<Rightarrow> hm_retain_map f m)"
  by (simp add: hm_retain_map_def split: option.split)

lemma hm_get_retain_map [simp]:
  "hm_wf m \<Longrightarrow> hm_get (hm_retain_map f m) j =
    (case hm_get m j of None \<Rightarrow> None | Some v \<Rightarrow> f j v)"
proof (induction m j rule: hm_get.induct)
  case (1 j)
  then show ?case by (simp add: hm_retain_map_def)
next
  case (2 k v m j)
  then show ?case by (auto simp: hm_retain_map_Cons retain_map_absent split: option.splits)
qed

lemma hm_wf_retain_map [simp]: "hm_wf m \<Longrightarrow> hm_wf (hm_retain_map f m)"
proof (induction m)
  case (Cons kv m)
  then show ?case by (cases kv) (auto simp: hm_retain_map_Cons split: option.splits)
qed (simp add: hm_retain_map_def)

lemma length_retain_map: "length (hm_retain_map f m) \<le> length m"
proof (induction m)
  case (Cons kv m)
  then show ?case by (cases kv) (auto simp: hm_retain_map_Cons split: option.splits)
qed (simp add: hm_retain_map_def)

lemma length_insert:
  "length (hm_insert k v m) = (if hm_get m k = None then length m + 1 else length m)"
  by (induction k v m rule: hm_insert.induct) auto

end
