(* ===== verification/Rate_Limit.thy ===== *)
theory Rate_Limit
  imports Hash_Map
begin

text \<open>
  The requests-per-minute limit of host egress and its byte meter
  (\<^verbatim>\<open>kernel/apps/net/rate.rs\<close>, \<^verbatim>\<open>meter.rs\<close>). The limiter's state is the map of maps of
  queues the code keeps behind its lock; \<^verbatim>\<open>admit\<close> is one locked call, so a history of calls
  is a sequence of them. A queue is a list with its front first.
\<close>

definition MAX_REQUESTS_PER_MINUTE :: nat where "MAX_REQUESTS_PER_MINUTE = 60"
definition WINDOW_MS :: nat where "WINDOW_MS = 60000"
definition MAX_APPS_PER_ACCOUNT :: nat where "MAX_APPS_PER_ACCOUNT = 16"

type_synonym app_windows = "(string, nat list) hmap"
type_synonym limiter = "(cid, app_windows) hmap"

text \<open>The closure of \<^verbatim>\<open>retain\<close>: expired times leave the front, an emptied queue is dropped.\<close>

definition prune :: "nat \<Rightarrow> nat list \<Rightarrow> nat list" where
  "prune now ts = dropWhile (\<lambda>t. now - t \<ge> WINDOW_MS) ts"

definition retain_live :: "nat \<Rightarrow> app_windows \<Rightarrow> app_windows" where
  "retain_live now apps =
     hm_retain_map (\<lambda>_ ts. let ts = prune now ts in if ts = [] then None else Some ts) apps"

definition admit :: "limiter \<Rightarrow> cid \<Rightarrow> string \<Rightarrow> nat \<Rightarrow> limiter \<times> bool" where
  "admit lim c app now =
     (let apps = retain_live now (case hm_get lim c of Some apps \<Rightarrow> apps | None \<Rightarrow> [])
      in if hm_get apps app = None \<and> length apps \<ge> MAX_APPS_PER_ACCOUNT
         then (hm_insert c apps lim, False)
         else
           (let ts = (case hm_get apps app of Some ts \<Rightarrow> ts | None \<Rightarrow> [])
            in if length ts \<ge> MAX_REQUESTS_PER_MINUTE
               then (hm_insert c (hm_insert app ts apps) lim, False)
               else (hm_insert c (hm_insert app (ts @ [now]) apps) lim, True)))"

section \<open>The meter\<close>

record usage =
  bytes_in :: nat
  bytes_out :: nat
  requests :: nat
  refusals :: nat

type_synonym install_key = "cid \<times> string"
type_synonym meter = "(install_key, usage) hmap"

definition usage_default :: usage where
  "usage_default = \<lparr>bytes_in = 0, bytes_out = 0, requests = 0, refusals = 0\<rparr>"

definition meter_read :: "meter \<Rightarrow> install_key \<Rightarrow> usage" where
  "meter_read m k = (case hm_get m k of Some u \<Rightarrow> u | None \<Rightarrow> usage_default)"

definition meter_with :: "meter \<Rightarrow> install_key \<Rightarrow> (usage \<Rightarrow> usage) \<Rightarrow> meter" where
  "meter_with m k f = hm_insert k (f (meter_read m k)) m"

definition meter_request :: "meter \<Rightarrow> install_key \<Rightarrow> meter" where
  "meter_request m k = meter_with m k (\<lambda>u. u\<lparr>requests := sat_add u64_max (requests u) 1\<rparr>)"

definition meter_refused :: "meter \<Rightarrow> install_key \<Rightarrow> meter" where
  "meter_refused m k = meter_with m k (\<lambda>u. u\<lparr>refusals := sat_add u64_max (refusals u) 1\<rparr>)"

definition meter_sent :: "meter \<Rightarrow> install_key \<Rightarrow> nat \<Rightarrow> meter" where
  "meter_sent m k n = meter_with m k (\<lambda>u. u\<lparr>bytes_out := sat_add u64_max (bytes_out u) n\<rparr>)"

definition meter_received :: "meter \<Rightarrow> install_key \<Rightarrow> nat \<Rightarrow> meter" where
  "meter_received m k n = meter_with m k (\<lambda>u. u\<lparr>bytes_in := sat_add u64_max (bytes_in u) n\<rparr>)"

section \<open>A history of calls\<close>

type_synonym request = "cid \<times> string \<times> nat"

fun admit_run :: "limiter \<Rightarrow> request list \<Rightarrow> limiter \<times> bool list" where
  "admit_run lim [] = (lim, [])"
| "admit_run lim ((c, app, now) # rs) =
     (let (lim, ok) = admit lim c app now; (lim, oks) = admit_run lim rs in (lim, ok # oks))"

text \<open>The times at which requests of one account's app were admitted, in order.\<close>

definition admitted_times :: "cid \<Rightarrow> string \<Rightarrow> request list \<Rightarrow> bool list \<Rightarrow> nat list" where
  "admitted_times c app rs oks =
     map (\<lambda>((_, _, t), _). t) (filter (\<lambda>((c', app', _), ok). ok \<and> c' = c \<and> app' = app) (zip rs oks))"

definition window_of :: "limiter \<Rightarrow> cid \<Rightarrow> string \<Rightarrow> nat list" where
  "window_of lim c app =
     (case hm_get lim c of None \<Rightarrow> []
      | Some apps \<Rightarrow> (case hm_get apps app of None \<Rightarrow> [] | Some ts \<Rightarrow> ts))"

definition in_window :: "nat \<Rightarrow> nat \<Rightarrow> bool" where
  "in_window t x \<longleftrightarrow> t \<le> x \<and> x < t + WINDOW_MS"

text \<open>
  The state of one account's app: the history is what was dropped followed by the window, what
  was dropped is out of reach of the present, the window is within the limit, and the history
  never exceeded it in any minute.
\<close>

definition app_inv :: "nat \<Rightarrow> nat list \<Rightarrow> nat list \<Rightarrow> bool" where
  "app_inv now hist win \<longleftrightarrow>
     (\<exists>old. hist = old @ win \<and> (\<forall>x \<in> set old. x + WINDOW_MS \<le> now)) \<and>
     (\<forall>x \<in> set hist. x \<le> now) \<and> sorted hist \<and> length win \<le> MAX_REQUESTS_PER_MINUTE \<and>
     (\<forall>t. length (filter (in_window t) hist) \<le> MAX_REQUESTS_PER_MINUTE)"

definition lim_wf :: "limiter \<Rightarrow> bool" where
  "lim_wf lim \<longleftrightarrow> hm_wf lim \<and>
     (\<forall>c apps. hm_get lim c = Some apps \<longrightarrow> hm_wf apps \<and> length apps \<le> MAX_APPS_PER_ACCOUNT)"

lemma lim_wf_Nil [simp]: "lim_wf []"
  by (simp add: lim_wf_def)

lemma prune_suffix: "\<exists>old. ts = old @ prune now ts \<and> (\<forall>x \<in> set old. WINDOW_MS \<le> now - x)"
  by (intro exI [of _ "takeWhile (\<lambda>t. now - t \<ge> WINDOW_MS) ts"])
     (auto simp: prune_def dest: set_takeWhileD)

lemma prune_Nil [simp]: "prune now [] = []"
  by (simp add: prune_def)

lemma retain_live_get:
  "hm_wf apps \<Longrightarrow> (case hm_get (retain_live now apps) app of None \<Rightarrow> [] | Some ts \<Rightarrow> ts) =
    prune now (case hm_get apps app of None \<Rightarrow> [] | Some ts \<Rightarrow> ts)"
  by (cases "hm_get apps app") (auto simp: retain_live_def Let_def)

lemma admit_wf:
  assumes "admit lim c app now = (lim', ok)" and "lim_wf lim"
  shows "lim_wf lim'"
proof -
  let ?apps = "retain_live now (case hm_get lim c of Some apps \<Rightarrow> apps | None \<Rightarrow> [])"
  have wf: "hm_wf ?apps" and len: "length ?apps \<le> MAX_APPS_PER_ACCOUNT"
    using assms(2)
    by (auto simp: lim_wf_def retain_live_def split: option.splits intro: le_trans [OF length_retain_map])
  obtain apps' where l: "lim' = hm_insert c apps' lim" "hm_wf apps'" "length apps' \<le> MAX_APPS_PER_ACCOUNT"
    using assms(1) wf len by (auto simp: admit_def Let_def length_insert split: if_splits)
  with assms(2) show ?thesis by (auto simp: lim_wf_def)
qed

text \<open>What a call does to the window it is about, and to the others.\<close>

lemma admit_window:
  assumes "admit lim c app now = (lim', ok)" and wf: "lim_wf lim"
  shows "window_of lim' c app = prune now (window_of lim c app) @ (if ok then [now] else [])"
    and "ok \<Longrightarrow> length (prune now (window_of lim c app)) < MAX_REQUESTS_PER_MINUTE"
    and "a \<noteq> app \<Longrightarrow> window_of lim' c a = prune now (window_of lim c a)"
    and "c' \<noteq> c \<Longrightarrow> window_of lim' c' a = window_of lim c' a"
proof -
  let ?old = "case hm_get lim c of Some apps \<Rightarrow> apps | None \<Rightarrow> []"
  have "hm_wf ?old" using wf by (auto simp: lim_wf_def split: option.splits)
  note live = retain_live_get [OF this]
  have old: "window_of lim c b = (case hm_get ?old b of None \<Rightarrow> [] | Some ts \<Rightarrow> ts)" for b
    by (simp add: window_of_def split: option.splits)
  from assms(1) live [of now app] live [of now a]
  show "window_of lim' c app = prune now (window_of lim c app) @ (if ok then [now] else [])"
    "ok \<Longrightarrow> length (prune now (window_of lim c app)) < MAX_REQUESTS_PER_MINUTE"
    "a \<noteq> app \<Longrightarrow> window_of lim' c a = prune now (window_of lim c a)"
    unfolding old by (auto simp: admit_def Let_def window_of_def split: if_splits option.splits)
  from assms(1) show "c' \<noteq> c \<Longrightarrow> window_of lim' c' a = window_of lim c' a"
    by (auto simp: admit_def Let_def window_of_def split: if_splits)
qed


lemma app_inv_later: "app_inv now hist win \<Longrightarrow> now \<le> now' \<Longrightarrow> app_inv now' hist win"
  unfolding app_inv_def by (fastforce intro: le_trans)

lemma app_inv_prune:
  assumes "app_inv now hist win" and "now \<le> now'"
  shows "app_inv now' hist (prune now' win)"
proof -
  from app_inv_later [OF assms] obtain old where old: "hist = old @ win" "\<forall>x \<in> set old. x + WINDOW_MS \<le> now'"
      and le: "\<forall>x \<in> set hist. x \<le> now'" "length win \<le> MAX_REQUESTS_PER_MINUTE" "sorted hist"
        "\<forall>t. length (filter (in_window t) hist) \<le> MAX_REQUESTS_PER_MINUTE"
    by (auto simp: app_inv_def)
  from prune_suffix [of win now'] obtain gone where
    g: "win = gone @ prune now' win" "\<forall>x \<in> set gone. WINDOW_MS \<le> now' - x" by blast
  have "\<forall>x \<in> set (old @ gone). x + WINDOW_MS \<le> now'" using old g(2) by (auto simp: WINDOW_MS_def)
  moreover have "hist = (old @ gone) @ prune now' win" using old(1) g(1) by simp
  moreover have "length (prune now' win) \<le> MAX_REQUESTS_PER_MINUTE"
    using le(2) arg_cong [OF g(1), of length] by simp
  ultimately show ?thesis using le unfolding app_inv_def by blast
qed

lemma app_inv_push:
  assumes inv: "app_inv now hist win" and less: "length win < MAX_REQUESTS_PER_MINUTE"
  shows "app_inv now (hist @ [now]) (win @ [now])"
proof -
  from inv obtain old where old: "hist = old @ win" "\<forall>x \<in> set old. x + WINDOW_MS \<le> now"
    by (auto simp: app_inv_def)
  have "length (filter (in_window t) (hist @ [now])) \<le> MAX_REQUESTS_PER_MINUTE" for t
  proof (cases "in_window t now")
    case True
    then have "filter (in_window t) old = []" using old(2) by (force simp: in_window_def filter_empty_conv)
    moreover have "length (filter (in_window t) win) < MAX_REQUESTS_PER_MINUTE"
      using less by (rule le_less_trans [OF length_filter_le])
    ultimately show ?thesis using True by (simp add: old(1))
  next
    case False
    then show ?thesis using inv by (simp add: app_inv_def)
  qed
  with inv less old show ?thesis by (auto simp: app_inv_def sorted_append)
qed

lemma admit_app_inv:
  assumes a: "admit lim c' app' now' = (lim', ok)" and wf: "lim_wf lim" and le: "now \<le> now'"
    and inv: "app_inv now hist (window_of lim c app)"
  shows "app_inv now' (hist @ (if ok \<and> c' = c \<and> app' = app then [now'] else [])) (window_of lim' c app)"
proof (cases "c' = c")
  case False
  with app_inv_later [OF inv le] admit_window(4) [OF a wf, of c] show ?thesis by simp
next
  case c: True
  note pruned = app_inv_prune [OF inv le]
  show ?thesis
  proof (cases "app' = app")
    case False
    with pruned admit_window(3) [OF a wf, of app] c show ?thesis by simp
  next
    case True
    with c admit_window(1,2) [OF a wf] pruned app_inv_push [OF pruned] show ?thesis by simp
  qed
qed

lemma admit_run_inv:
  "admit_run lim rs = (lim', oks) \<Longrightarrow> lim_wf lim \<Longrightarrow> sorted (now # map (\<lambda>(_, _, t). t) rs) \<Longrightarrow>
    app_inv now hist (window_of lim c app) \<Longrightarrow>
    lim_wf lim' \<and> (\<exists>now'. app_inv now' (hist @ admitted_times c app rs oks) (window_of lim' c app))"
proof (induction lim rs arbitrary: now hist oks rule: admit_run.induct)
  case (1 lim)
  then show ?case by (auto simp: admitted_times_def)
next
  case (2 lim c' app' now' rs)
  obtain lim1 ok where a: "admit lim c' app' now' = (lim1, ok)" by fastforce
  with "2.prems"(1) obtain oks1 where r: "admit_run lim1 rs = (lim', oks1)" "oks = ok # oks1"
    by (auto split: prod.splits)
  let ?new = "if ok \<and> c' = c \<and> app' = app then [now'] else []"
  have "app_inv now' (hist @ ?new) (window_of lim1 c app)"
    using admit_app_inv [OF a "2.prems"(2) _ "2.prems"(4)] "2.prems"(3) by simp
  from "2.IH" [OF a [symmetric] refl r(1) admit_wf [OF a "2.prems"(2)] _ this] "2.prems"(3)
  have "lim_wf lim' \<and> (\<exists>n. app_inv n ((hist @ ?new) @ admitted_times c app rs oks1) (window_of lim' c app))"
    by simp
  moreover have "admitted_times c app ((c', app', now') # rs) oks = ?new @ admitted_times c app rs oks1"
    by (simp add: admitted_times_def r(2))
  ultimately show ?case by simp
qed

section \<open>Properties\<close>

text \<open>
  C8. At most 60 requests a minute: over any history of calls on a monotonic clock, for any
  account, app and moment, no more than 60 of that app's requests were admitted in the 60
  seconds that begin there, and no account ever has more than 16 apps with live windows.
\<close>

theorem rate_limit_sliding_window:
  assumes "sorted (map (\<lambda>(_, _, t). t) rs)" and "admit_run [] rs = (lim, oks)"
  shows "length (filter (\<lambda>x. t \<le> x \<and> x < t + 60000) (admitted_times c app rs oks)) \<le> 60 \<and>
    (case hm_get lim c of None \<Rightarrow> True | Some apps \<Rightarrow> length apps \<le> 16)"
proof -
  have "app_inv 0 [] (window_of [] c app)" by (simp add: app_inv_def window_of_def)
  then have "lim_wf lim \<and> (\<exists>n. app_inv n ([] @ admitted_times c app rs oks) (window_of lim c app))"
    by (intro admit_run_inv [OF assms(2) lim_wf_Nil, of 0]) (use assms(1) in simp_all)
  then have wf: "lim_wf lim"
    and "length (filter (in_window t) (admitted_times c app rs oks)) \<le> MAX_REQUESTS_PER_MINUTE"
    by (auto simp: app_inv_def)
  moreover have "in_window t = (\<lambda>x. t \<le> x \<and> x < t + 60000)" by (auto simp: in_window_def WINDOW_MS_def)
  ultimately show ?thesis
    by (auto simp: MAX_REQUESTS_PER_MINUTE_def MAX_APPS_PER_ACCOUNT_def lim_wf_def split: option.splits)
qed

theorem rate_limit_sliding_window_witness:
  "length (filter (\<lambda>x. 0 \<le> x \<and> x < 0 + 60000) (admitted_times 7 ''a''
     [(7, ''a'', 5), (8, ''a'', 6), (7, ''a'', 9)] (snd (admit_run [] [(7, ''a'', 5), (8, ''a'', 6), (7, ''a'', 9)]))))
   \<le> 60"
proof -
  let ?rs = "[(7, ''a'', 5), (8, ''a'', 6), (7, ''a'', 9)] :: request list"
  obtain lim oks where r: "admit_run [] ?rs = (lim, oks)" by fastforce
  then have "snd (admit_run [] ?rs) = oks" by simp
  with rate_limit_sliding_window [OF _ r, of 0 7 "''a''"] show ?thesis by simp
qed

text \<open>
  A request the window has room for is admitted: if the app is among the account's live
  ones or fewer than 16 are live, and fewer than 60 of its requests are within the last 60
  seconds, the call admits it and remembers it; a refused call changes no app's window but for
  dropping what has expired.
\<close>

theorem rate_limit_admits_with_room:
  assumes "lim_wf lim" and "admit lim c app now = (lim', ok)"
  shows "(ok \<longleftrightarrow> length (prune now (window_of lim c app)) < 60 \<and>
      (prune now (window_of lim c app) \<noteq> [] \<or>
       length (retain_live now (case hm_get lim c of Some apps \<Rightarrow> apps | None \<Rightarrow> [])) < 16)) \<and>
    window_of lim' c app = prune now (window_of lim c app) @ (if ok then [now] else []) \<and>
    (a \<noteq> app \<longrightarrow> window_of lim' c a = prune now (window_of lim c a)) \<and>
    (c' \<noteq> c \<longrightarrow> window_of lim' c' a = window_of lim c' a)"
proof -
  let ?old = "case hm_get lim c of Some apps \<Rightarrow> apps | None \<Rightarrow> []"
  let ?apps = "retain_live now ?old"
  have wf: "hm_wf ?old" using assms(1) by (auto simp: lim_wf_def split: option.splits)
  have win: "window_of lim c app = (case hm_get ?old app of None \<Rightarrow> [] | Some ts \<Rightarrow> ts)"
    by (simp add: window_of_def split: option.splits)
  have live: "prune now (window_of lim c app) = (case hm_get ?apps app of None \<Rightarrow> [] | Some ts \<Rightarrow> ts)"
    unfolding win retain_live_get [OF wf] ..
  have "hm_get ?apps app \<noteq> Some []" using wf by (auto simp: retain_live_def Let_def split: option.splits)
  then have "hm_get ?apps app = None \<longleftrightarrow> prune now (window_of lim c app) = []"
    unfolding live by (auto split: option.splits)
  with assms(2) live have "ok \<longleftrightarrow> length (prune now (window_of lim c app)) < 60 \<and>
      (prune now (window_of lim c app) \<noteq> [] \<or> length ?apps < 16)"
    by (auto simp: admit_def Let_def MAX_APPS_PER_ACCOUNT_def MAX_REQUESTS_PER_MINUTE_def split: if_splits)
  with admit_window [OF assms(2,1)] show ?thesis by blast
qed

theorem rate_limit_admits_with_room_witness:
  "snd (admit [] 7 ''a'' 5)"
proof -
  obtain lim ok where a: "admit [] 7 ''a'' 5 = (lim, ok)" by fastforce
  with rate_limit_admits_with_room [OF lim_wf_Nil a] show ?thesis
    by (simp add: window_of_def prune_def retain_live_def hm_retain_map_def)
qed

end
