(* ===== verification/Grant_Cache.thy ===== *)
theory Grant_Cache
  imports Hash_Map
begin

text \<open>
  What the server last said each install may reach (\<^verbatim>\<open>kernel/apps/net/grants.rs\<close>,
  \<^verbatim>\<open>authority.rs\<close>). The cache is shared behind a lock, so every locked section is one
  operation here: \<^verbatim>\<open>resolve\<close> is its first section (answer from memory, refuse, or ask) and
  the sections that give a question up; the frames of the server and the link's changes are the
  others. The codec of the workspace protocol is not part of this repository: frames appear as
  the signal its \<^verbatim>\<open>classify\<close> returns. Times are milliseconds of one clock.
\<close>

definition GRANT_TTL_MS :: nat where "GRANT_TTL_MS = 60000"

record kernel_grant =
  kg_app_id :: string
  kg_hosts :: "string list"
  kg_private :: bool

datatype authority_signal =
    Unrelated
  | GrantAnswer string "64 word" "kernel_grant option"
  | InstallsChanged

record cache_state =
  entries :: "(cid \<times> string, kernel_grant option \<times> nat) hmap"
  pending :: "(64 word, cid \<times> string) hmap"
  down :: "cid set"
  next_tag :: "64 word"

definition cache_init :: cache_state where
  "cache_init = \<lparr>entries = [], pending = [], down = {}, next_tag = 0\<rparr>"

definition forget :: "cid \<Rightarrow> cache_state \<Rightarrow> cache_state" where
  "forget c st = st\<lparr>entries := hm_retain (\<lambda>(owner, _) _. owner \<noteq> c) (entries st),
                    pending := hm_retain (\<lambda>_ (owner, _). owner \<noteq> c) (pending st)\<rparr>"

datatype resolved = FromMemory "kernel_grant option" | LinkIsDown | Asked "64 word"

text \<open>The first locked section of \<^verbatim>\<open>resolve\<close>.\<close>

definition resolve_begin :: "cache_state \<Rightarrow> cid \<Rightarrow> string \<Rightarrow> nat \<Rightarrow> cache_state \<times> resolved" where
  "resolve_begin st c install now =
     (if c \<in> down st then (st, LinkIsDown)
      else
        (let ask = (let tag = next_tag st
                    in (st\<lparr>next_tag := tag + 1, pending := hm_insert tag (c, install) (pending st)\<rparr>,
                        Asked tag))
         in case hm_get (entries st) (c, install) of
              Some (grant, at) \<Rightarrow> if now - at < GRANT_TTL_MS then (st, FromMemory grant) else ask
            | None \<Rightarrow> ask))"

text \<open>The question could not be sent, or was not answered in time.\<close>

definition give_up :: "cache_state \<Rightarrow> 64 word \<Rightarrow> cache_state" where
  "give_up st tag = st\<lparr>pending := hm_remove tag (pending st)\<rparr>"

definition on_server_frame :: "cache_state \<Rightarrow> cid \<Rightarrow> authority_signal \<Rightarrow> nat \<Rightarrow> cache_state \<times> bool" where
  "on_server_frame st c signal now =
     (case signal of
        Unrelated \<Rightarrow> (st, True)
      | InstallsChanged \<Rightarrow>
          (st\<lparr>entries := hm_retain (\<lambda>(owner, _) _. owner \<noteq> c) (entries st)\<rparr>, True)
      | GrantAnswer install tag grant \<Rightarrow>
          if is_some_and (hm_get (pending st) tag) (\<lambda>p. p = (c, install)) then
            (st\<lparr>pending := hm_remove tag (pending st),
                entries := hm_insert (c, install) (grant, now) (entries st)\<rparr>, False)
          else (st, True))"

definition link_up :: "cid \<Rightarrow> cache_state \<Rightarrow> cache_state" where
  "link_up c st = (let st = forget c st in st\<lparr>down := down st - {c}\<rparr>)"

definition link_down :: "cid \<Rightarrow> cache_state \<Rightarrow> cache_state" where
  "link_down c st = (let st = forget c st in st\<lparr>down := insert c (down st)\<rparr>)"

definition session_ended :: "cid \<Rightarrow> cache_state \<Rightarrow> cache_state" where
  "session_ended c st = (let st = forget c st in st\<lparr>down := down st - {c}\<rparr>)"

section \<open>Interleavings\<close>

text \<open>
  The locked sections of all tasks, in the order the lock was taken.
\<close>

datatype cache_event =
    EvResolve cid string nat
  | EvGiveUp "64 word"
  | EvFrame cid authority_signal nat
  | EvLinkUp cid
  | EvLinkDown cid
  | EvSessionEnded cid

definition cache_step :: "cache_state \<Rightarrow> cache_event \<Rightarrow> cache_state" where
  "cache_step st ev =
     (case ev of
        EvResolve c install now \<Rightarrow> fst (resolve_begin st c install now)
      | EvGiveUp tag \<Rightarrow> give_up st tag
      | EvFrame c signal now \<Rightarrow> fst (on_server_frame st c signal now)
      | EvLinkUp c \<Rightarrow> link_up c st
      | EvLinkDown c \<Rightarrow> link_down c st
      | EvSessionEnded c \<Rightarrow> session_ended c st)"

inductive cache_reach :: "cache_event list \<Rightarrow> cache_state \<Rightarrow> bool" where
  init: "cache_reach [] cache_init"
| more: "cache_reach evs st \<Longrightarrow> cache_reach (evs @ [ev]) (cache_step st ev)"

inductive_cases cache_reach_snocE: "cache_reach (evs @ [ev]) st"

text \<open>What makes an answer for an account no longer usable.\<close>

definition clears :: "cid \<Rightarrow> cache_event \<Rightarrow> bool" where
  "clears c ev \<longleftrightarrow>
     ev = EvLinkUp c \<or> ev = EvLinkDown c \<or> ev = EvSessionEnded c \<or>
     (\<exists>now. ev = EvFrame c InstallsChanged now)"

definition asked :: "cid \<Rightarrow> string \<Rightarrow> cache_event list \<Rightarrow> bool" where
  "asked c install evs \<longleftrightarrow> (\<exists>now. EvResolve c install now \<in> set evs)"

text \<open>
  A question is open after a history, and an event answers one: it is a grant frame, on the
  asking account's link, for the asked install, under the tag of a question still open.
\<close>

definition open_question :: "cache_event list \<Rightarrow> 64 word \<Rightarrow> cid \<Rightarrow> string \<Rightarrow> bool" where
  "open_question evs tag c install \<longleftrightarrow>
     hm_get (pending (foldl cache_step cache_init evs)) tag = Some (c, install)"

definition answers :: "cid \<Rightarrow> string \<Rightarrow> cache_event list \<Rightarrow> cache_event \<Rightarrow> bool" where
  "answers c install evs ev \<longleftrightarrow>
     (\<exists>tag g at. ev = EvFrame c (GrantAnswer install tag g) at \<and> open_question evs tag c install)"

text \<open>
  An answer stands: it answered an open question, and in what followed nothing cleared the
  account and no other answer for the install was accepted.
\<close>

definition stands :: "cid \<Rightarrow> string \<Rightarrow> kernel_grant option \<Rightarrow> nat \<Rightarrow> cache_event list \<Rightarrow> bool" where
  "stands c install g at evs \<longleftrightarrow>
     (\<exists>pre tag post. evs = pre @ EvFrame c (GrantAnswer install tag g) at # post \<and>
        open_question pre tag c install \<and>
        (\<forall>mid ev rest. post = mid @ ev # rest \<longrightarrow>
           \<not> clears c ev \<and>
           \<not> answers c install (pre @ EvFrame c (GrantAnswer install tag g) at # mid) ev))"

lemma stands_snoc:
  "stands c i g at (evs @ [ev]) \<longleftrightarrow>
     (\<exists>tag. ev = EvFrame c (GrantAnswer i tag g) at \<and> open_question evs tag c i) \<or>
     (stands c i g at evs \<and> \<not> clears c ev \<and> \<not> answers c i evs ev)" (is "?l \<longleftrightarrow> ?now \<or> ?still")
proof
  assume ?l
  then obtain pre tag post where eq: "evs @ [ev] = pre @ EvFrame c (GrantAnswer i tag g) at # post"
    and op: "open_question pre tag c i"
    and later: "\<And>mid ev rest. post = mid @ ev # rest \<Longrightarrow>
      \<not> clears c ev \<and> \<not> answers c i (pre @ EvFrame c (GrantAnswer i tag g) at # mid) ev"
    unfolding stands_def by blast
  show "?now \<or> ?still"
  proof (cases post rule: rev_cases)
    case Nil
    with eq op show ?thesis by auto
  next
    case (snoc post' last)
    with eq have ev: "evs = pre @ EvFrame c (GrantAnswer i tag g) at # post'" "last = ev" by simp_all
    from later [of post' ev "[]"] snoc ev have "\<not> clears c ev" "\<not> answers c i evs ev" by simp_all
    moreover have "stands c i g at evs"
      unfolding stands_def using ev(1) op later snoc
      by (intro exI [of _ pre] exI [of _ tag] exI [of _ post']) auto
    ultimately show ?thesis by blast
  qed
next
  assume "?now \<or> ?still"
  then show ?l
  proof
    assume ?now
    then show ?l unfolding stands_def by (metis append_is_Nil_conv list.discI)
  next
    assume still: ?still
    then obtain pre tag post where eq: "evs = pre @ EvFrame c (GrantAnswer i tag g) at # post"
      and op: "open_question pre tag c i"
      and later: "\<And>mid ev rest. post = mid @ ev # rest \<Longrightarrow>
        \<not> clears c ev \<and> \<not> answers c i (pre @ EvFrame c (GrantAnswer i tag g) at # mid) ev"
      unfolding stands_def by blast
    have "\<not> clears c e \<and> \<not> answers c i (pre @ EvFrame c (GrantAnswer i tag g) at # mid) e"
      if "post @ [ev] = mid @ e # rest" for mid e rest
    proof (cases rest rule: rev_cases)
      case Nil
      with that eq still show ?thesis by auto
    next
      case (snoc rest' last)
      with that have "post = mid @ e # rest'" by simp
      then show ?thesis by (rule later)
    qed
    with eq op show ?l
      unfolding stands_def by (intro exI [of _ pre] exI [of _ tag] exI [of _ "post @ [ev]"]) simp
  qed
qed

text \<open>What one section does to the two maps.\<close>

definition cache_wf :: "cache_state \<Rightarrow> bool" where
  "cache_wf st \<longleftrightarrow> hm_wf (entries st) \<and> hm_wf (pending st)"

lemmas cache_sections = cache_step_def resolve_begin_def give_up_def on_server_frame_def link_up_def
  link_down_def session_ended_def forget_def Let_def is_some_and_iff

lemma cache_step_wf: "cache_wf st \<Longrightarrow> cache_wf (cache_step st ev)"
  by (cases ev) (auto simp: cache_wf_def cache_sections split: option.split authority_signal.split)

lemma cache_step_pending:
  assumes "cache_wf st" and "hm_get (pending (cache_step st ev)) tag = Some (c, i)"
  shows "hm_get (pending st) tag = Some (c, i) \<or> (\<exists>now. ev = EvResolve c i now)"
  using assms
  by (cases ev)
     (auto simp: cache_wf_def cache_sections split: option.splits authority_signal.splits if_splits)

lemma cache_step_entries:
  assumes "cache_wf st"
  shows "hm_get (entries (cache_step st ev)) (c, i) = Some (g, at) \<longleftrightarrow>
     (\<exists>tag. ev = EvFrame c (GrantAnswer i tag g) at \<and> hm_get (pending st) tag = Some (c, i)) \<or>
     (hm_get (entries st) (c, i) = Some (g, at) \<and> \<not> clears c ev \<and>
      \<not> (\<exists>tag g at. ev = EvFrame c (GrantAnswer i tag g) at \<and> hm_get (pending st) tag = Some (c, i)))"
proof (cases ev)
  case (EvFrame d signal now)
  with assms show ?thesis
    by (cases signal) (auto simp: cache_wf_def cache_sections clears_def split: option.split)
qed (use assms in \<open>auto simp: cache_wf_def cache_sections clears_def split: option.split\<close>)

text \<open>
  Along every history: the maps keep their keys distinct, an entry is in memory exactly when its
  answer stands, and an open question was asked.
\<close>

definition cache_inv :: "cache_event list \<Rightarrow> cache_state \<Rightarrow> bool" where
  "cache_inv evs st \<longleftrightarrow>
     cache_wf st \<and> st = foldl cache_step cache_init evs \<and>
     (\<forall>c i g at. hm_get (entries st) (c, i) = Some (g, at) \<longleftrightarrow> stands c i g at evs) \<and>
     (\<forall>tag c i. hm_get (pending st) tag = Some (c, i) \<longrightarrow> asked c i evs)"

lemma cache_step_inv:
  assumes inv: "cache_inv evs st"
  shows "cache_inv (evs @ [ev]) (cache_step st ev)"
  unfolding cache_inv_def
proof (intro conjI allI impI)
  from inv have wf: "cache_wf st" and st: "st = foldl cache_step cache_init evs"
    and mem: "\<And>c i g at. hm_get (entries st) (c, i) = Some (g, at) \<longleftrightarrow> stands c i g at evs"
    and ask: "\<And>tag c i. hm_get (pending st) tag = Some (c, i) \<Longrightarrow> asked c i evs"
    unfolding cache_inv_def by blast+
  show "cache_wf (cache_step st ev)" by (rule cache_step_wf [OF wf])
  show "cache_step st ev = foldl cache_step cache_init (evs @ [ev])" using st by simp
  show "hm_get (entries (cache_step st ev)) (c, i) = Some (g, at) \<longleftrightarrow> stands c i g at (evs @ [ev])"
    for c i g at
    unfolding cache_step_entries [OF wf] stands_snoc answers_def open_question_def st [symmetric] mem ..
  show "asked c i (evs @ [ev])" if "hm_get (pending (cache_step st ev)) tag = Some (c, i)" for tag c i
    using cache_step_pending [OF wf that] ask [of tag c i] by (auto simp: asked_def)
qed

lemma cache_reach_inv: "cache_reach evs st \<Longrightarrow> cache_inv evs st"
proof (induction rule: cache_reach.induct)
  case init
  show ?case by (simp add: cache_inv_def cache_wf_def cache_init_def stands_def)
next
  case (more evs st ev)
  show ?case by (rule cache_step_inv [OF more.IH])
qed

lemma open_question_asked:
  assumes "open_question evs tag c i"
  shows "asked c i evs"
proof -
  have "cache_reach evs (foldl cache_step cache_init evs)"
    by (induction evs rule: rev_induct) (auto intro: cache_reach.intros)
  from cache_reach_inv [OF this] assms show ?thesis by (auto simp: cache_inv_def open_question_def)
qed

text \<open>Whether an account's link is down, read off the history.\<close>

definition is_link_event :: "cid \<Rightarrow> cache_event \<Rightarrow> bool" where
  "is_link_event c ev \<longleftrightarrow> ev = EvLinkUp c \<or> ev = EvLinkDown c \<or> ev = EvSessionEnded c"

definition last_link_down :: "cid \<Rightarrow> cache_event list \<Rightarrow> bool" where
  "last_link_down c evs \<longleftrightarrow>
     (case filter (is_link_event c) (rev evs) of [] \<Rightarrow> False | ev # _ \<Rightarrow> ev = EvLinkDown c)"

lemma cache_step_down:
  "c \<in> down (cache_step st ev) \<longleftrightarrow> (if is_link_event c ev then ev = EvLinkDown c else c \<in> down st)"
  by (cases ev)
     (auto simp: cache_step_def is_link_event_def resolve_begin_def give_up_def on_server_frame_def
       link_up_def link_down_def session_ended_def forget_def Let_def
       split: option.splits if_splits authority_signal.splits)

lemma cache_reach_down: "cache_reach evs st \<Longrightarrow> c \<in> down st \<longleftrightarrow> last_link_down c evs"
proof (induction rule: cache_reach.induct)
  case init
  show ?case by (simp add: cache_init_def last_link_down_def)
next
  case (more evs st ev)
  then show ?case by (auto simp: cache_step_down last_link_down_def)
qed

section \<open>Properties\<close>

text \<open>
  C9. An answer from memory is the last one the server gave, and still good. In every
  interleaving of the cache's sections a resolve answers from memory with a grant exactly when
  that grant came in a frame on the account's own link, as the answer to a question for that
  install that was still open, less than 60 seconds ago; since that frame no other answer for the
  install has been accepted and no change of installs, link change or session end has come for
  the account; and the link is not down. The question had been asked by a resolve for that install.
\<close>

theorem cached_grant_is_current:
  assumes "cache_reach evs st"
  shows "snd (resolve_begin st c install now) = FromMemory g \<longleftrightarrow>
    (\<exists>pre tag at post. evs = pre @ EvFrame c (GrantAnswer install tag g) at # post \<and>
       (\<exists>t. EvResolve c install t \<in> set pre) \<and> open_question pre tag c install \<and>
       (\<forall>mid ev rest. post = mid @ ev # rest \<longrightarrow>
          \<not> clears c ev \<and>
          \<not> answers c install (pre @ EvFrame c (GrantAnswer install tag g) at # mid) ev) \<and>
       now - at < 60000) \<and> \<not> last_link_down c evs"
proof -
  have "snd (resolve_begin st c install now) = FromMemory g \<longleftrightarrow>
      (\<exists>at. hm_get (entries st) (c, install) = Some (g, at) \<and> now - at < 60000) \<and> c \<notin> down st"
    by (auto simp: resolve_begin_def Let_def GRANT_TTL_MS_def split: option.split)
  also have "\<dots> \<longleftrightarrow> (\<exists>at. stands c install g at evs \<and> now - at < 60000) \<and> \<not> last_link_down c evs"
    using cache_reach_inv [OF assms] cache_reach_down [OF assms, of c] unfolding cache_inv_def by blast
  also have "(\<exists>at. stands c install g at evs \<and> now - at < 60000) \<longleftrightarrow>
    (\<exists>pre tag at post. evs = pre @ EvFrame c (GrantAnswer install tag g) at # post \<and>
       (\<exists>t. EvResolve c install t \<in> set pre) \<and> open_question pre tag c install \<and>
       (\<forall>mid ev rest. post = mid @ ev # rest \<longrightarrow>
          \<not> clears c ev \<and>
          \<not> answers c install (pre @ EvFrame c (GrantAnswer install tag g) at # mid) ev) \<and>
       now - at < 60000)"
  proof -
    define S where "S pre tag at post \<longleftrightarrow> evs = pre @ EvFrame c (GrantAnswer install tag g) at # post \<and>
       open_question pre tag c install \<and>
       (\<forall>mid ev rest. post = mid @ ev # rest \<longrightarrow>
          \<not> clears c ev \<and>
          \<not> answers c install (pre @ EvFrame c (GrantAnswer install tag g) at # mid) ev)" for pre tag at post
    have "(\<exists>at. stands c install g at evs \<and> now - at < 60000) \<longleftrightarrow>
        (\<exists>pre tag at post. S pre tag at post \<and> now - at < 60000)"
      unfolding stands_def S_def [symmetric] by blast
    also have "\<dots> \<longleftrightarrow> (\<exists>pre tag at post. evs = pre @ EvFrame c (GrantAnswer install tag g) at # post \<and>
       (\<exists>t. EvResolve c install t \<in> set pre) \<and> open_question pre tag c install \<and>
       (\<forall>mid ev rest. post = mid @ ev # rest \<longrightarrow>
          \<not> clears c ev \<and>
          \<not> answers c install (pre @ EvFrame c (GrantAnswer install tag g) at # mid) ev) \<and>
       now - at < 60000)"
      using open_question_asked [of _ _ c install] unfolding S_def asked_def
      by (intro ex_cong1) (rule iffI; elim conjE; intro conjI; assumption?; blast)
    finally show ?thesis .
  qed
  finally show ?thesis .
qed

theorem cached_grant_is_current_witness:
  "let g = \<lparr>kg_app_id = ''com.acme.kanban'', kg_hosts = [''api.acme.com''], kg_private = False\<rparr>;
       evs = [EvResolve 7 ''i1'' 100, EvResolve 7 ''i1'' 110,
              EvFrame 7 (GrantAnswer ''i1'' 0 (Some g)) 150, EvFrame 7 (GrantAnswer ''i1'' 1 None) 160];
       st = foldl cache_step cache_init evs
   in cache_reach evs st \<and> snd (resolve_begin st 7 ''i1'' 200) = FromMemory None \<and> \<not> last_link_down 7 evs"
proof -
  let ?g = "\<lparr>kg_app_id = ''com.acme.kanban'', kg_hosts = [''api.acme.com''], kg_private = False\<rparr> :: kernel_grant"
  let ?evs = "[EvResolve 7 ''i1'' 100, EvResolve 7 ''i1'' 110,
    EvFrame 7 (GrantAnswer ''i1'' 0 (Some ?g)) 150, EvFrame 7 (GrantAnswer ''i1'' 1 None) 160]"
  let ?st = "foldl cache_step cache_init ?evs"
  have r: "cache_reach ?evs ?st"
    using cache_reach.more [OF cache_reach.more [OF cache_reach.more [OF cache_reach.more
      [OF cache_reach.init, of "EvResolve 7 ''i1'' 100"], of "EvResolve 7 ''i1'' 110"],
      of "EvFrame 7 (GrantAnswer ''i1'' 0 (Some ?g)) 150"], of "EvFrame 7 (GrantAnswer ''i1'' 1 None) 160"]
    by simp
  have m: "snd (resolve_begin ?st 7 ''i1'' 200) = FromMemory None"
    by (simp add: cache_sections cache_init_def GRANT_TTL_MS_def)
  from m cached_grant_is_current [OF r, of 7 "''i1''" 200 None] have "\<not> last_link_down 7 ?evs" by blast
  with r m show ?thesis by (simp add: Let_def)
qed

text \<open>
  Only the agent's own answers stop at the agent: a frame is kept from the session's windows
  exactly when it answers a question pending on that very link for that very install; then the
  question is closed and its grant remembered, and in every other case a grant frame changes
  nothing.
\<close>

theorem server_frame_consumed_iff_own:
  assumes "cache_reach evs st" and "on_server_frame st c signal now = (st', onward)"
  shows "(\<not> onward \<longleftrightarrow> (\<exists>i tag g. signal = GrantAnswer i tag g \<and> hm_get (pending st) tag = Some (c, i))) \<and>
    (\<forall>i tag g. signal = GrantAnswer i tag g \<longrightarrow>
       (if onward then st' = st
        else asked c i evs \<and> hm_get (entries st') (c, i) = Some (g, now) \<and> hm_get (pending st') tag = None))"
proof (cases signal)
  case (GrantAnswer i tag g)
  have "hm_wf (pending st)" "hm_get (pending st) tag = Some (c, i) \<Longrightarrow> asked c i evs"
    using cache_reach_inv [OF assms(1)] by (auto simp: cache_inv_def cache_wf_def)
  with GrantAnswer assms(2) show ?thesis
    by (cases "hm_get (pending st) tag = Some (c, i)")
       (auto simp: on_server_frame_def is_some_and_iff split: if_splits)
qed (use assms(2) in \<open>auto simp: on_server_frame_def\<close>)

theorem server_frame_consumed_iff_own_witness:
  "let st = cache_step cache_init (EvResolve 7 ''i1'' 100)
   in \<not> snd (on_server_frame st 7 (GrantAnswer ''i1'' 0 None) 150) \<and>
      snd (on_server_frame st 8 (GrantAnswer ''i1'' 0 None) 150)"
proof -
  let ?st = "cache_step cache_init (EvResolve 7 ''i1'' 100)"
  have r: "cache_reach [EvResolve 7 ''i1'' 100] ?st"
    using cache_reach.more [OF cache_reach.init] by fastforce
  have p: "hm_get (pending ?st) 0 = Some (7, ''i1'')"
    by (simp add: cache_step_def resolve_begin_def cache_init_def Let_def)
  obtain s1 o1 where f1: "on_server_frame ?st 7 (GrantAnswer ''i1'' 0 None) 150 = (s1, o1)" by fastforce
  obtain s2 o2 where f2: "on_server_frame ?st 8 (GrantAnswer ''i1'' 0 None) 150 = (s2, o2)" by fastforce
  from server_frame_consumed_iff_own [OF r f1] server_frame_consumed_iff_own [OF r f2] f1 f2 p
  show ?thesis by simp
qed

end
