(* ===== verification/Host_Fetch.thy ===== *)
theory Host_Fetch
  imports Net_Policy Rate_Limit Grant_Cache
begin

text \<open>
  Host egress (\<^verbatim>\<open>kernel/apps/net/mod.rs\<close>, \<^verbatim>\<open>authorize.rs\<close>, \<^verbatim>\<open>fetch.rs\<close>, \<^verbatim>\<open>body.rs\<close>):
  what a fetch may reach, the decision over every deployment, the redirect loop and the buffered
  body. The resolver, the connector and the upstream body are the ports of
  \<^verbatim>\<open>ports.rs\<close>, implemented outside this logic: they are function arguments, a result of
  \<^term>\<open>None\<close> being the deadline passing. Every request handed to the connector is returned in a
  trace, so that what was contacted can be stated.
\<close>

datatype fetch_limit = LimitRate | LimitResponseBody | LimitTime | LimitCredit

datatype fetch_unavailable =
  NotConfigured | Network | Cancelled | SessionGone | DuplicateStream | Authority

datatype fetch_refusal = PolicyRefusal | Limit fetch_limit | Unavailable fetch_unavailable

section \<open>What a fetch may reach (authorize.rs)\<close>

definition eq_ignore_ascii_case :: "string \<Rightarrow> string \<Rightarrow> bool" where
  "eq_ignore_ascii_case a b \<longleftrightarrow> to_ascii_lowercase a = to_ascii_lowercase b"

record reach =
  r_app_id :: string
  r_hosts :: "string list"
  r_private :: bool

definition narrowed :: "string list \<Rightarrow> string list \<Rightarrow> string list" where
  "narrowed page server =
     filter (\<lambda>asked. list_ex (\<lambda>allowed. eq_ignore_ascii_case allowed asked) server) page"

record page_grant =
  pg_hosts :: "string list"
  pg_private :: bool

definition member_allows_private :: "string + bool option \<Rightarrow> bool" where
  "member_allows_private member = (case member of Inr granted \<Rightarrow> granted = Some True | Inl _ \<Rightarrow> False)"

definition authorize ::
  "string + kernel_grant option \<Rightarrow> string \<Rightarrow> page_grant \<Rightarrow> string + bool option \<Rightarrow> fetch_refusal + reach" where
  "authorize answer app_id page member =
     (case answer of
        Inl _ \<Rightarrow> Inl (Unavailable Authority)
      | Inr None \<Rightarrow> Inl PolicyRefusal
      | Inr (Some server) \<Rightarrow>
          if kg_app_id server \<noteq> app_id then Inl PolicyRefusal
          else Inr \<lparr>r_app_id = kg_app_id server, r_hosts = narrowed (pg_hosts page) (kg_hosts server),
                    r_private = (pg_private page \<and> kg_private server \<and> member_allows_private member)\<rparr>)"

section \<open>One hop (fetch.rs)\<close>

record app_net =
  n_deployments :: "deployment list"
  n_agent_port :: nat

definition app_net_new :: "string list \<Rightarrow> nat \<Rightarrow> app_net option" where
  "app_net_new page_origin_hosts port =
     (if page_origin_hosts = [] then None
      else Some \<lparr>n_deployments = map (\<lambda>h. \<lparr>page_origin_host = to_ascii_lowercase h\<rparr>) page_origin_hosts,
                 n_agent_port = port\<rparr>)"

record hop =
  h_request :: egress_request
  h_previous :: "allowed option"
  h_number :: nat

definition decide_hop :: "hop \<Rightarrow> ip_addr list \<Rightarrow> net_grant \<Rightarrow> deployment \<Rightarrow> verdict" where
  "decide_hop h rs g dep =
     (case h_previous h of
        None \<Rightarrow> decide (h_request h) rs g dep
      | Some previous \<Rightarrow> decide_redirect previous (h_number h) (h_request h) rs g dep)"

fun decide_loop :: "hop \<Rightarrow> ip_addr list \<Rightarrow> net_grant \<Rightarrow> allowed option \<Rightarrow> deployment list \<Rightarrow> verdict" where
  "decide_loop h rs g acc [] = (case acc of Some a \<Rightarrow> Allow a | None \<Rightarrow> Policy NoAddress)"
| "decide_loop h rs g acc (dep # deps) =
     (case decide_hop h rs g dep of
        Allow a \<Rightarrow> decide_loop h rs g (Some a) deps
      | Policy e \<Rightarrow> Policy e)"

definition decide_all :: "app_net \<Rightarrow> hop \<Rightarrow> ip_addr list \<Rightarrow> net_grant \<Rightarrow> verdict" where
  "decide_all net h rs g = decide_loop h rs g None (n_deployments net)"

type_synonym resolver = "nat \<Rightarrow> string \<Rightarrow> nat \<Rightarrow> (string + ip_addr list) option"

definition agent_port_check :: "app_net \<Rightarrow> allowed \<Rightarrow> fetch_refusal + allowed" where
  "agent_port_check net a =
     (if t_port (a_target a) = n_agent_port net then Inl PolicyRefusal else Inr a)"

definition check_hop :: "app_net \<Rightarrow> resolver \<Rightarrow> hop \<Rightarrow> net_grant \<Rightarrow> fetch_refusal + allowed" where
  "check_hop net resolve h g =
     (case decide_all net h [] g of
        Allow a \<Rightarrow> agent_port_check net a
      | Policy NoAddress \<Rightarrow>
          (case url_parse (q_url (h_request h)) of
             Inl _ \<Rightarrow> Inl PolicyRefusal
           | Inr target \<Rightarrow>
               (case resolve (h_number h) (t_host target) (t_port target) of
                  None \<Rightarrow> Inl (Limit LimitTime)
                | Some answer \<Rightarrow>
                    (let rs = (case answer of Inr ips \<Rightarrow> ips | Inl _ \<Rightarrow> [])
                     in case decide_all net h rs g of
                          Allow a \<Rightarrow> agent_port_check net a
                        | Policy _ \<Rightarrow> Inl PolicyRefusal)))
      | Policy _ \<Rightarrow> Inl PolicyRefusal)"

section \<open>The redirect loop\<close>

record pinned_request =
  pr_method :: string
  pr_url :: string
  pr_host :: string
  pr_connect :: "(ip_addr \<times> nat) list"
  pr_headers :: "(string \<times> string) list"
  pr_body :: string

record 'b upstream =
  u_status :: nat
  u_headers :: "(string \<times> string) list"
  u_body :: 'b

definition upstream_header :: "'b upstream \<Rightarrow> string \<Rightarrow> string option" where
  "upstream_header u name = map_option snd (List.find (\<lambda>(n, _). n = name) (u_headers u))"

definition REDIRECT_STATUSES :: "nat list" where "REDIRECT_STATUSES = [301, 302, 303, 307, 308]"

type_synonym 'b connector = "nat \<Rightarrow> pinned_request \<Rightarrow> (string + 'b upstream) option"

definition pinned_of :: "egress_request \<Rightarrow> string \<Rightarrow> allowed \<Rightarrow> pinned_request" where
  "pinned_of req body a =
     \<lparr>pr_method = q_method req, pr_url = render_url (a_target a), pr_host = t_host (a_target a),
      pr_connect = a_connect a, pr_headers = q_headers req, pr_body = body\<rparr>"

record 'b opened =
  o_upstream :: "'b upstream"
  o_redirects :: nat

definition hop_of :: "(string \<times> string) list \<Rightarrow> string \<Rightarrow> string \<Rightarrow> string \<Rightarrow> allowed option \<Rightarrow> nat \<Rightarrow> hop" where
  "hop_of headers meth body url previous number =
     \<lparr>h_request = \<lparr>q_method = meth, q_url = url, q_headers = headers, q_body_len = length body\<rparr>,
      h_previous = previous, h_number = number\<rparr>"

lemma decide_loop_Allow:
  assumes "decide_loop h rs g acc deps = Allow a"
  shows "list_all (\<lambda>dep. \<exists>b. decide_hop h rs g dep = Allow b) deps \<and>
    (deps = [] \<and> acc = Some a \<or> deps \<noteq> [] \<and> decide_hop h rs g (last deps) = Allow a)"
  using assms
  by (induction h rs g acc deps rule: decide_loop.induct) (auto split: verdict.splits option.splits)

lemma decide_hop_late: "h_previous h = Some p \<Longrightarrow> 3 < h_number h \<Longrightarrow> decide_hop h rs g dep = Policy TooManyRedirects"
  by (simp add: decide_hop_def decide_redirect_def MAX_REDIRECTS_def)

lemma check_hop_Inr:
  assumes "check_hop net resolve h g = Inr a"
  shows "\<exists>rs. decide_all net h rs g = Allow a \<and> t_port (a_target a) \<noteq> n_agent_port net"
  using assms
  by (auto simp: check_hop_def agent_port_check_def Let_def
      split: verdict.splits deny_reason.splits sum.splits option.splits if_splits)

lemma check_hop_number:
  assumes "check_hop net resolve h g = Inr a" and "h_previous h = Some p"
  shows "h_number h \<le> 3"
proof (rule ccontr)
  assume "\<not> h_number h \<le> 3"
  with check_hop_Inr [OF assms(1)] decide_hop_late [OF assms(2)] show False
    by (auto simp: decide_all_def dest!: decide_loop_Allow)
qed

text \<open>
  The loop ends by itself: a hop after the third redirect is refused, so its measure is the
  number of hops left, one more for the first.
\<close>

function (sequential) open_loop ::
  "app_net \<Rightarrow> resolver \<Rightarrow> 'b connector \<Rightarrow> install_key \<Rightarrow> net_grant \<Rightarrow> (string \<times> string) list \<Rightarrow>
     string \<Rightarrow> string \<Rightarrow> string \<Rightarrow> allowed option \<Rightarrow> nat \<Rightarrow> meter \<Rightarrow>
     pinned_request list \<times> meter \<times> (fetch_refusal + 'b opened)" where
  "open_loop net resolve connect key g headers meth body url previous number m =
     (let h = hop_of headers meth body url previous number
      in case check_hop net resolve h g of
           Inl e \<Rightarrow> ([], m, Inl e)
         | Inr a \<Rightarrow>
             (let pinned = pinned_of (h_request h) body a;
                  m = meter_sent m key (length body)
              in case connect number pinned of
                   None \<Rightarrow> ([pinned], m, Inl (Limit LimitTime))
                 | Some (Inl _) \<Rightarrow> ([pinned], m, Inl (Unavailable Network))
                 | Some (Inr up) \<Rightarrow>
                     (let status = u_status up;
                          location = (if List.member REDIRECT_STATUSES status
                                      then upstream_header up ''location'' else None)
                      in case location of
                           None \<Rightarrow> ([pinned], m, Inr \<lparr>o_upstream = up, o_redirects = number\<rparr>)
                         | Some loc \<Rightarrow>
                             (let get = (status = 303 \<or> (status = 301 \<or> status = 302) \<and> meth = ''POST'');
                                  (pins, m, r) =
                                    open_loop net resolve connect key g headers
                                      (if get then ''GET'' else meth) (if get then [] else body)
                                      (follow a loc) (Some a) (sat_add u8_max number 1) m
                              in (pinned # pins, m, r)))))"
  by pat_completeness auto

termination
proof (relation "measure (\<lambda>(net, resolve, connect, key, g, headers, meth, body, url, previous, number, m).
    (if previous = None then 1 else 0) + (5 - number))", goal_cases)
  case (2 net resolve connect key g headers meth body url previous number m h a)
  have "number \<le> 3" if "previous \<noteq> None"
    using that check_hop_number [of net resolve h g] 2 by (auto simp: hop_of_def)
  then show ?case by (auto simp: sat_add_def u8_max_def)
qed simp

declare open_loop.simps [simp del]


section \<open>A whole fetch (fetch.rs, body.rs)\<close>

record fetch_state =
  fs_rate :: limiter
  fs_meter :: meter

record fetch_input =
  fi_key :: install_key
  fi_app_id :: string
  fi_page :: page_grant
  fi_method :: string
  fi_url :: string
  fi_headers :: "(string \<times> string) list"
  fi_body :: string

definition open_hops ::
  "app_net \<Rightarrow> resolver \<Rightarrow> 'b connector \<Rightarrow> string + kernel_grant option \<Rightarrow> string + bool option \<Rightarrow> nat \<Rightarrow>
     fetch_input \<Rightarrow> fetch_state \<Rightarrow> pinned_request list \<times> fetch_state \<times> (fetch_refusal + 'b opened)" where
  "open_hops net resolve connect answer member now inp st =
     (case authorize answer (fi_app_id inp) (fi_page inp) member of
        Inl e \<Rightarrow> ([], st, Inl e)
      | Inr reach \<Rightarrow>
          (let (rate, ok) = admit (fs_rate st) (fst (fi_key inp)) (r_app_id reach) now;
               st = st\<lparr>fs_rate := rate\<rparr>
           in if \<not> ok then ([], st, Inl (Limit LimitRate))
              else case net_grant_new (HostEgress (r_private reach)) (r_hosts reach) of
                     Inl _ \<Rightarrow> ([], st, Inl PolicyRefusal)
                   | Inr g \<Rightarrow>
                       (let (pins, m, r) =
                              open_loop net resolve connect (fi_key inp) g (fi_headers inp)
                                (fi_method inp) (fi_body inp) (fi_url inp) None 0 (fs_meter st)
                        in (pins, st\<lparr>fs_meter := m\<rparr>, r))))"

definition open_fetch ::
  "app_net \<Rightarrow> resolver \<Rightarrow> 'b connector \<Rightarrow> string + kernel_grant option \<Rightarrow> string + bool option \<Rightarrow> nat \<Rightarrow>
     fetch_input \<Rightarrow> fetch_state \<Rightarrow> pinned_request list \<times> fetch_state \<times> (fetch_refusal + 'b opened)" where
  "open_fetch net resolve connect answer member now inp st =
     (let st = st\<lparr>fs_meter := meter_request (fs_meter st) (fi_key inp)\<rparr>;
          (pins, st, r) = open_hops net resolve connect answer member now inp st
      in (pins,
          (case r of
             Inl PolicyRefusal \<Rightarrow> st\<lparr>fs_meter := meter_refused (fs_meter st) (fi_key inp)\<rparr>
           | Inl (Limit _) \<Rightarrow> st\<lparr>fs_meter := meter_refused (fs_meter st) (fi_key inp)\<rparr>
           | _ \<Rightarrow> st),
          r))"

text \<open>What the upstream body's next read gives; a body that stops answering times out.\<close>

datatype chunk_result = ChunkTimeout | ChunkFailed | Chunk string | BodyEnd

definition MAX_RESPONSE_BODY_BYTES :: nat where "MAX_RESPONSE_BODY_BYTES = 16 * 1024 * 1024"

fun read_body :: "install_key \<Rightarrow> string \<Rightarrow> chunk_result list \<Rightarrow> meter \<Rightarrow> meter \<times> (fetch_refusal + string)" where
  "read_body key acc [] m = (meter_refused m key, Inl (Limit LimitTime))"
| "read_body key acc (ChunkTimeout # cs) m = (meter_refused m key, Inl (Limit LimitTime))"
| "read_body key acc (ChunkFailed # cs) m = (m, Inl (Unavailable Network))"
| "read_body key acc (BodyEnd # cs) m = (m, Inr acc)"
| "read_body key acc (Chunk bytes # cs) m =
     (let m = meter_received m key (length bytes)
      in if length acc + length bytes > MAX_RESPONSE_BODY_BYTES
         then (meter_refused m key, Inl (Limit LimitResponseBody))
         else read_body key (acc @ bytes) cs m)"

definition shown_headers :: "(string \<times> string) list \<Rightarrow> (string \<times> string) list" where
  "shown_headers hs =
     take MAX_HEADERS
       (filter (\<lambda>(name, v). response_header_ok name \<and> length name + length v \<le> MAX_HEADER_BYTES) hs)"

record fetched =
  f_status :: nat
  f_headers :: "(string \<times> string) list"
  f_body :: string
  f_redirects :: nat

definition fetch ::
  "app_net \<Rightarrow> resolver \<Rightarrow> chunk_result list connector \<Rightarrow> string + kernel_grant option \<Rightarrow> string + bool option \<Rightarrow>
     nat \<Rightarrow> fetch_input \<Rightarrow> fetch_state \<Rightarrow> pinned_request list \<times> fetch_state \<times> (fetch_refusal + fetched)" where
  "fetch net resolve connect answer member now inp st =
     (let (pins, st, r) = open_fetch net resolve connect answer member now inp st
      in case r of
           Inl e \<Rightarrow> (pins, st, Inl e)
         | Inr opened \<Rightarrow>
             (let (m, body) = read_body (fi_key inp) [] (u_body (o_upstream opened)) (fs_meter st);
                  st = st\<lparr>fs_meter := m\<rparr>
              in case body of
                   Inl e \<Rightarrow> (pins, st, Inl e)
                 | Inr bytes \<Rightarrow>
                     (pins, st, Inr \<lparr>f_status = u_status (o_upstream opened),
                        f_headers = shown_headers (u_headers (o_upstream opened)),
                        f_body = bytes, f_redirects = o_redirects opened\<rparr>)))"

section \<open>What the loop contacts\<close>

text \<open>A request that may be made: every address permitted, no deployment's own host or port.\<close>

definition may_contact :: "app_net \<Rightarrow> net_grant \<Rightarrow> pinned_request \<Rightarrow> bool" where
  "may_contact net g p \<longleftrightarrow>
     (\<exists>t. pr_url p = render_url t \<and> pr_host p = t_host t \<and> target_ok t \<and>
        grant_admits g (t_host t) (t_port t) \<and> t_port t \<noteq> n_agent_port net \<and>
        pr_connect p \<noteq> [] \<and>
        list_all (\<lambda>(ip, port). port = t_port t \<and> port \<noteq> AGENT_PORT \<and> address_permitted g ip) (pr_connect p) \<and>
        list_all (\<lambda>dep. t_host t \<noteq> page_origin_host dep) (n_deployments net))"

lemma decide_hop_check:
  "decide_hop h rs g dep = Allow a \<Longrightarrow> check (h_request h) rs g dep = Inr a"
  by (auto simp: decide_hop_def decide_redirect_def decide_def split: option.splits if_splits sum.splits)

lemma decide_hop_target:
  "decide_hop h rs g dep = Allow a \<Longrightarrow> decide_hop h rs g dep' = Allow b \<Longrightarrow> a_target a = a_target b"
  by (auto dest!: decide_hop_check elim!: checkE)

lemma redirect_host:
  "decide_redirect p n req rs g dep = Allow a \<Longrightarrow> t_host (a_target a) = t_host (a_target p)"
  by (auto simp: decide_redirect_def decide_def elim!: checkE split: if_splits sum.splits)

lemma check_hop_may_contact:
  assumes "check_hop net resolve h g = Inr a"
  shows "may_contact net g (pinned_of (h_request h) body a)"
    "h_previous h = Some p \<Longrightarrow> t_host (a_target a) = t_host (a_target p)"
proof -
  from check_hop_Inr [OF assms] obtain rs where d: "decide_loop h rs g None (n_deployments net) = Allow a"
      and port: "t_port (a_target a) \<noteq> n_agent_port net" by (auto simp: decide_all_def)
  from decide_loop_Allow [OF d] have all: "\<And>dep. dep \<in> set (n_deployments net) \<Longrightarrow> \<exists>b. decide_hop h rs g dep = Allow b"
      and last: "decide_hop h rs g (last (n_deployments net)) = Allow a" by (auto simp: list_all_iff)
  have dep: "t_host (a_target a) \<noteq> page_origin_host dep" if "dep \<in> set (n_deployments net)" for dep
  proof -
    from all [OF that] obtain b where b: "decide_hop h rs g dep = Allow b" by blast
    from decide_hop_check [OF b] have "t_host (a_target b) \<noteq> page_origin_host dep" by (rule checkE)
    with decide_hop_target [OF last b] show ?thesis by simp
  qed
  from decide_hop_check [OF last] show "may_contact net g (pinned_of (h_request h) body a)"
    by (rule checkE)
       (use dep port url_parse_target_ok in
         \<open>auto simp: may_contact_def pinned_of_def list_all_iff intro!: exI [of _ "a_target a"]\<close>)
  show "t_host (a_target a) = t_host (a_target p)" if "h_previous h = Some p"
    using last that redirect_host by (auto simp: decide_hop_def)
qed

lemma open_loop_contacts:
  "open_loop net resolve connect key g headers meth body url previous number m = (pins, m', r) \<Longrightarrow>
    (previous = None \<longrightarrow> number = 0) \<Longrightarrow>
    list_all (may_contact net g) pins \<and> length pins \<le> 4 - number \<and>
    (\<forall>p. previous = Some p \<longrightarrow> list_all (\<lambda>q. pr_host q = t_host (a_target p)) pins) \<and>
    (\<forall>q \<in> set pins. pr_host q = pr_host (hd pins)) \<and>
    (\<forall>opened. r = Inr opened \<longrightarrow> number + length pins = o_redirects opened + 1 \<and> o_redirects opened \<le> 3)"
proof (induction net resolve connect key g headers meth body url previous number m
    arbitrary: pins m' r rule: open_loop.induct)
  case (1 net resolve connect key g headers meth body url previous number m)
  let ?h = "hop_of headers meth body url previous number"
  show ?case
  proof (cases "check_hop net resolve ?h g")
    case (Inl e)
    with "1.prems"(1) have "pins = []" "r = Inl e" by (simp_all add: open_loop.simps Let_def)
    then show ?thesis by simp
  next
    case (Inr a)
    let ?p = "pinned_of (h_request ?h) body a"
    have prev: "h_previous ?h = previous" "h_number ?h = number" by (simp_all add: hop_of_def)
    have num: "number \<le> 3"
      using "1.prems"(2) check_hop_number [OF Inr] prev by (cases previous) auto
    note ok = check_hop_may_contact [OF Inr, unfolded prev]
    have host: "pr_host ?p = t_host (a_target a)" by (simp add: pinned_of_def)
    show ?thesis
    proof (cases "\<exists>up loc. connect number ?p = Some (Inr up) \<and>
        (if List.member REDIRECT_STATUSES (u_status up) then upstream_header up ''location'' else None) = Some loc")
      case False
      with "1.prems"(1) Inr have "pins = [?p]"
          and "r = Inl (Limit LimitTime) \<or> r = Inl (Unavailable Network) \<or> (\<exists>up. r = Inr \<lparr>o_upstream = up, o_redirects = number\<rparr>)"
        by (auto simp: open_loop.simps Let_def split: option.splits sum.splits)
      with ok num host show ?thesis by auto
    next
      case True
      then obtain up loc where up: "connect number ?p = Some (Inr up)"
          "(if List.member REDIRECT_STATUSES (u_status up) then upstream_header up ''location'' else None) = Some loc"
        by blast
      let ?get = "u_status up = 303 \<or> (u_status up = 301 \<or> u_status up = 302) \<and> meth = ''POST''"
      obtain pins1 m1 r1 where rec: "open_loop net resolve connect key g headers
          (if ?get then ''GET'' else meth) (if ?get then [] else body) (follow a loc) (Some a)
          (sat_add u8_max number 1) (meter_sent m key (length body)) = (pins1, m1, r1)"
        by (metis prod_cases3)
      have res: "pins = ?p # pins1" "r = r1"
        using "1.prems"(1) Inr up rec by (simp_all add: open_loop.simps [of _ _ _ _ _ _ _ _ _ previous] Let_def)
      have sat: "sat_add u8_max number 1 = number + 1" using num by (simp add: sat_add_def u8_max_def)
      have ih: "list_all (may_contact net g) pins1 \<and> length pins1 \<le> 4 - (number + 1) \<and>
          list_all (\<lambda>q. pr_host q = t_host (a_target a)) pins1 \<and>
          (\<forall>opened. r1 = Inr opened \<longrightarrow> number + 1 + length pins1 = o_redirects opened + 1 \<and> o_redirects opened \<le> 3)"
        using "1.IH" [OF refl Inr refl refl up(1) refl refl refl up(2) refl rec] sat by simp
      then have hosts: "\<forall>q \<in> set pins. pr_host q = t_host (a_target a)"
        using host by (simp add: res list_all_iff)
      have "\<forall>p. previous = Some p \<longrightarrow> list_all (\<lambda>q. pr_host q = t_host (a_target p)) pins"
        using hosts ok(2) by (auto simp: list_all_iff)
      moreover have "\<forall>q \<in> set pins. pr_host q = pr_host (hd pins)" using hosts by (simp add: res)
      moreover have "list_all (may_contact net g) pins" using ih ok(1) by (simp add: res)
      moreover have "length pins \<le> 4 - number" using ih num by (simp add: res) linarith
      moreover have "\<forall>opened. r = Inr opened \<longrightarrow>
          number + length pins = o_redirects opened + 1 \<and> o_redirects opened \<le> 3"
        using ih by (simp add: res)
      ultimately show ?thesis by blast
    qed
  qed
qed


lemma open_fetch_pins:
  assumes "open_fetch net resolve connect answer member now inp st = (pins, st', r)"
  shows "pins = [] \<and> (\<forall>opened. r \<noteq> Inr opened) \<or>
    (\<exists>server g m m'. answer = Inr (Some server) \<and> kg_app_id server = fi_app_id inp \<and>
      net_grant_new (HostEgress (pg_private (fi_page inp) \<and> kg_private server \<and> member_allows_private member))
        (narrowed (pg_hosts (fi_page inp)) (kg_hosts server)) = Inr g \<and>
      open_loop net resolve connect (fi_key inp) g (fi_headers inp) (fi_method inp) (fi_body inp)
        (fi_url inp) None 0 m = (pins, m', r))"
proof -
  let ?st = "st\<lparr>fs_meter := meter_request (fs_meter st) (fi_key inp)\<rparr>"
  from assms obtain st1 where o: "open_hops net resolve connect answer member now inp ?st = (pins, st1, r)"
    by (auto simp: open_fetch_def Let_def split: prod.splits)
  show ?thesis
  proof (cases "authorize answer (fi_app_id inp) (fi_page inp) member")
    case (Inl e)
    with o show ?thesis by (auto simp: open_hops_def)
  next
    case (Inr reach)
    then obtain server where sv: "answer = Inr (Some server)" "kg_app_id server = fi_app_id inp"
        "reach = \<lparr>r_app_id = kg_app_id server, r_hosts = narrowed (pg_hosts (fi_page inp)) (kg_hosts server),
           r_private = (pg_private (fi_page inp) \<and> kg_private server \<and> member_allows_private member)\<rparr>"
      by (auto simp: authorize_def split: sum.splits option.splits if_splits)
    obtain rate ok where ad: "admit (fs_rate ?st) (fst (fi_key inp)) (r_app_id reach) now = (rate, ok)" by fastforce
    show ?thesis
    proof (cases "\<exists>g. ok \<and> net_grant_new (HostEgress (r_private reach)) (r_hosts reach) = Inr g")
      case True
      then obtain g where g: "ok" "net_grant_new (HostEgress (r_private reach)) (r_hosts reach) = Inr g" by blast
      obtain pins1 m1 r1 where l: "open_loop net resolve connect (fi_key inp) g (fi_headers inp) (fi_method inp)
          (fi_body inp) (fi_url inp) None 0 (fs_meter ?st) = (pins1, m1, r1)" by (metis prod_cases3)
      with o Inr ad g have "pins = pins1" "r = r1" by (auto simp: open_hops_def)
      with l g sv show ?thesis by auto
    next
      case False
      with o Inr ad have "pins = [] \<and> (\<forall>opened. r \<noteq> Inr opened)"
        by (cases ok; cases "net_grant_new (HostEgress (r_private reach)) (r_hosts reach)")
           (auto simp: open_hops_def)
      then show ?thesis by blast
    qed
  qed
qed

lemma may_contact_parses:
  assumes "may_contact net g p" and "length (pr_url p) \<le> MAX_URL_BYTES"
  shows "\<exists>t. url_parse (pr_url p) = Inr t \<and> t_host t = pr_host p \<and>
    list_all (\<lambda>(_, port). port = t_port t) (pr_connect p)"
  using assms url_parse_render by (fastforce simp: may_contact_def list_all_iff)

lemma narrowed_grant:
  assumes "net_grant_new eg (narrowed page server) = Inr g" and "grant_admits g host port"
  shows "\<exists>entry h. entry \<in> set page \<and> list_ex (\<lambda>s. eq_ignore_ascii_case s entry) server \<and>
    allowed_host_parse entry = Inr h \<and> host_admits h host port"
proof -
  from assms(1) obtain hs where "parse_entries [] (narrowed page server) = Inr hs" "g_hosts g = hs"
    by (auto simp: net_grant_new_def split: if_splits sum.splits)
  then have l: "list_all2 (\<lambda>e h. allowed_host_parse e = Inr h) (narrowed page server) (g_hosts g)"
    using parse_entries_Inr by fastforce
  from assms(2) obtain h where h: "h \<in> set (g_hosts g)" "host_admits h host port"
    by (auto simp: grant_admits_def list_ex_iff)
  from list_all2_right [OF l h(1)] obtain e where "e \<in> set (narrowed page server)" "allowed_host_parse e = Inr h"
    by blast
  with h(2) show ?thesis by (intro exI [of _ e] exI [of _ h]) (simp add: narrowed_def)
qed

lemma read_body_bound:
  "read_body key acc cs m = (m', Inr body) \<Longrightarrow> length acc \<le> MAX_RESPONSE_BODY_BYTES \<Longrightarrow>
    length body \<le> MAX_RESPONSE_BODY_BYTES"
  by (induction key acc cs m rule: read_body.induct) (auto simp: Let_def split: if_splits)

section \<open>A concrete fetch\<close>

definition acme_net :: app_net where "acme_net = \<lparr>n_deployments = [acme_page], n_agent_port = 50051\<rparr>"

definition acme_server :: kernel_grant where
  "acme_server = \<lparr>kg_app_id = ''com.acme.crm'', kg_hosts = [''api.acme.com''], kg_private = False\<rparr>"

definition acme_resolver :: resolver where "acme_resolver n host port = Some (Inr [acme_ip])"

definition acme_connector :: "chunk_result list connector" where
  "acme_connector n p = Some (Inr \<lparr>u_status = 200,
     u_headers = [(''set-cookie'', ''a=1''), (''etag'', ''7'')], u_body = [Chunk ''hi'', BodyEnd]\<rparr>)"

definition acme_input :: fetch_input where
  "acme_input = \<lparr>fi_key = (7, ''i1''), fi_app_id = ''com.acme.crm'',
     fi_page = \<lparr>pg_hosts = [''api.acme.com''], pg_private = False\<rparr>, fi_method = ''GET'',
     fi_url = ''https://api.acme.com/v1'', fi_headers = [(''accept'', ''*'')], fi_body = []\<rparr>"

definition acme_state :: fetch_state where "acme_state = \<lparr>fs_rate = [], fs_meter = []\<rparr>"

lemma acme_check_hop:
  "check_hop acme_net acme_resolver
     (hop_of [(''accept'', ''*'')] ''GET'' [] ''https://api.acme.com/v1'' None 0) acme_grant =
   Inr \<lparr>a_target = acme_target ''/v1'', a_connect = [(acme_ip, 443)]\<rparr>"
proof -
  have "decide (acme_get ''https://api.acme.com/v1'') [] acme_grant acme_page = Policy NoAddress"
    using acme_url unfolding decide_def check_def
    by (simp add: acme_get_def) (simp add: policy_eval string_eval acme_target_def)
  with acme_allowed acme_url show ?thesis
    by (simp add: check_hop_def decide_all_def decide_hop_def hop_of_def acme_net_def acme_resolver_def
        acme_get_def agent_port_check_def acme_target_def)
qed

lemma acme_open_loop:
  "open_loop acme_net acme_resolver acme_connector key acme_grant [(''accept'', ''*'')] ''GET'' []
     ''https://api.acme.com/v1'' None 0 m =
   ([pinned_of (acme_get ''https://api.acme.com/v1'') [] \<lparr>a_target = acme_target ''/v1'', a_connect = [(acme_ip, 443)]\<rparr>],
    meter_sent m key 0,
    Inr \<lparr>o_upstream = \<lparr>u_status = 200, u_headers = [(''set-cookie'', ''a=1''), (''etag'', ''7'')],
           u_body = [Chunk ''hi'', BodyEnd]\<rparr>, o_redirects = 0\<rparr>)"
  using acme_check_hop
  by (simp add: open_loop.simps acme_connector_def REDIRECT_STATUSES_def Let_def)
     (simp add: hop_of_def acme_get_def)

lemma acme_grant_new: "net_grant_new (HostEgress False) [''api.acme.com''] = Inr acme_grant"
  by (simp add: net_grant_new_def MAX_HOSTS_def allowed_host_parse_def policy_eval string_eval)

lemma acme_admitted: "snd (admit [] c app now)"
  by (simp add: admit_def retain_live_def hm_retain_map_def MAX_APPS_PER_ACCOUNT_def MAX_REQUESTS_PER_MINUTE_def)

lemma acme_authorize:
  "authorize (Inr (Some acme_server)) (fi_app_id acme_input) (fi_page acme_input) member =
     Inr \<lparr>r_app_id = ''com.acme.crm'', r_hosts = [''api.acme.com''], r_private = False\<rparr>"
  by (simp add: authorize_def acme_server_def acme_input_def narrowed_def eq_ignore_ascii_case_def string_eval)

lemma acme_open_fetch:
  "\<exists>st'. open_fetch acme_net acme_resolver acme_connector (Inr (Some acme_server)) (Inr None) 5 acme_input acme_state =
   ([pinned_of (acme_get ''https://api.acme.com/v1'') [] \<lparr>a_target = acme_target ''/v1'', a_connect = [(acme_ip, 443)]\<rparr>],
    st', Inr \<lparr>o_upstream = \<lparr>u_status = 200, u_headers = [(''set-cookie'', ''a=1''), (''etag'', ''7'')],
           u_body = [Chunk ''hi'', BodyEnd]\<rparr>, o_redirects = 0\<rparr>)"
proof -
  obtain rate where "admit [] 7 ''com.acme.crm'' 5 = (rate, True)"
    using acme_admitted [of 7 "''com.acme.crm''" 5] by (metis prod.collapse)
  then show ?thesis
    unfolding open_fetch_def open_hops_def acme_authorize
    by (simp add: acme_input_def acme_open_loop acme_state_def acme_grant_new)
qed

section \<open>Properties\<close>

text \<open>
  C6. What host egress contacts: over the whole fetch, redirects included, at most four requests
  reach the connector, all to one host. Each is pinned to addresses that are no cloud metadata
  endpoint in any spelling and are public, or private with the page asking, the server allowing
  and the member having granted it; never to the policy's or this agent's own port, never to a
  page origin; and its host is one the page asked for, named by the server's list for the very
  app the page says it is. No word from the server means nothing is contacted.
\<close>

theorem host_fetch_contacts_only_permitted:
  assumes "open_fetch net resolve connect answer member now inp st = (pins, st', r)"
  shows "length pins \<le> 4 \<and> (\<forall>p \<in> set pins. pr_host p = pr_host (hd pins)) \<and>
    (\<forall>p \<in> set pins. \<exists>server entry h. answer = Inr (Some server) \<and> kg_app_id server = fi_app_id inp \<and>
       entry \<in> set (pg_hosts (fi_page inp)) \<and> list_ex (\<lambda>s. eq_ignore_ascii_case s entry) (kg_hosts server) \<and>
       allowed_host_parse entry = Inr h \<and> ah_host h = pr_host p \<and>
       list_all (\<lambda>dep. pr_host p \<noteq> page_origin_host dep) (n_deployments net) \<and> pr_connect p \<noteq> [] \<and>
       (\<forall>(ip, port) \<in> set (pr_connect p). port \<noteq> 12345 \<and> port \<noteq> n_agent_port net \<and>
          canonical ip \<notin> set METADATA \<and>
          (classify ip = Public \<or> (\<exists>rg. classify ip = Private rg) \<and> pg_private (fi_page inp) \<and>
             kg_private server \<and> member = Inr (Some True))))"
proof (cases "pins = []")
  case False
  with open_fetch_pins [OF assms] obtain server g m m' where sv: "answer = Inr (Some server)"
      "kg_app_id server = fi_app_id inp"
    and g: "net_grant_new (HostEgress (pg_private (fi_page inp) \<and> kg_private server \<and> member_allows_private member))
        (narrowed (pg_hosts (fi_page inp)) (kg_hosts server)) = Inr g"
    and l: "open_loop net resolve connect (fi_key inp) g (fi_headers inp) (fi_method inp) (fi_body inp)
        (fi_url inp) None 0 m = (pins, m', r)" by blast
  from open_loop_contacts [OF l] have all: "list_all (may_contact net g) pins" and "length pins \<le> 4"
      "\<forall>p \<in> set pins. pr_host p = pr_host (hd pins)" by simp_all
  have priv: "grant_private g \<Longrightarrow> pg_private (fi_page inp) \<and> kg_private server \<and> member = Inr (Some True)"
    using g by (auto simp: grant_private_def net_grant_new_def member_allows_private_def
        split: if_splits sum.splits)
  have "\<exists>entry h. entry \<in> set (pg_hosts (fi_page inp)) \<and> list_ex (\<lambda>s. eq_ignore_ascii_case s entry) (kg_hosts server) \<and>
       allowed_host_parse entry = Inr h \<and> ah_host h = pr_host p \<and>
       list_all (\<lambda>dep. pr_host p \<noteq> page_origin_host dep) (n_deployments net) \<and> pr_connect p \<noteq> [] \<and>
       (\<forall>(ip, port) \<in> set (pr_connect p). port \<noteq> 12345 \<and> port \<noteq> n_agent_port net \<and>
          canonical ip \<notin> set METADATA \<and>
          (classify ip = Public \<or> (\<exists>rg. classify ip = Private rg) \<and> pg_private (fi_page inp) \<and>
             kg_private server \<and> member = Inr (Some True)))" if "p \<in> set pins" for p
  proof -
    from all that have "may_contact net g p" by (simp add: list_all_iff)
    then obtain t :: target_url where t: "pr_host p = t_host t" "grant_admits g (t_host t) (t_port t)"
        "t_port t \<noteq> n_agent_port net" "pr_connect p \<noteq> []"
        "list_all (\<lambda>(ip, port). port = t_port t \<and> port \<noteq> AGENT_PORT \<and> address_permitted g ip) (pr_connect p)"
        "list_all (\<lambda>dep. t_host t \<noteq> page_origin_host dep) (n_deployments net)"
      unfolding may_contact_def by blast
    from narrowed_grant [OF g t(2)] obtain entry h where e: "entry \<in> set (pg_hosts (fi_page inp))"
        "list_ex (\<lambda>s. eq_ignore_ascii_case s entry) (kg_hosts server)" "allowed_host_parse entry = Inr h"
        "ah_host h = pr_host p" by (auto simp: host_admits_iff t(1))
    have "\<forall>(ip, port) \<in> set (pr_connect p). port \<noteq> 12345 \<and> port \<noteq> n_agent_port net \<and>
          canonical ip \<notin> set METADATA \<and>
          (classify ip = Public \<or> (\<exists>rg. classify ip = Private rg) \<and> pg_private (fi_page inp) \<and>
             kg_private server \<and> member = Inr (Some True))"
    proof (rule ballI, rule case_prodI2)
      fix x ip port assume "x \<in> set (pr_connect p)" "x = (ip, port)"
      with t(5) have "port = t_port t" "port \<noteq> 12345" "address_permitted g ip"
        by (auto simp: list_all_iff AGENT_PORT_def)
      with t(3) priv show "port \<noteq> 12345 \<and> port \<noteq> n_agent_port net \<and> canonical ip \<notin> set METADATA \<and>
          (classify ip = Public \<or> (\<exists>rg. classify ip = Private rg) \<and> pg_private (fi_page inp) \<and>
             kg_private server \<and> member = Inr (Some True))"
        unfolding address_permitted_def by (elim conjE disjE) simp_all
    qed
    with e t show ?thesis by (intro exI [of _ entry] exI [of _ h]) simp
  qed
  with sv \<open>length pins \<le> 4\<close> \<open>\<forall>p \<in> set pins. pr_host p = pr_host (hd pins)\<close> show ?thesis by blast
qed simp

theorem host_fetch_contacts_only_permitted_witness:
  "\<exists>pins st' r. open_fetch acme_net acme_resolver acme_connector (Inr (Some acme_server)) (Inr None) 5
      acme_input acme_state = (pins, st', r) \<and> length pins = 1 \<and> pr_host (hd pins) = ''api.acme.com'' \<and>
    list_all (\<lambda>(ip, port). port \<noteq> 50051 \<and> classify ip = Public) (pr_connect (hd pins))"
proof -
  from acme_open_fetch obtain st' r where o: "open_fetch acme_net acme_resolver acme_connector
      (Inr (Some acme_server)) (Inr None) 5 acme_input acme_state =
      ([pinned_of (acme_get ''https://api.acme.com/v1'') []
         \<lparr>a_target = acme_target ''/v1'', a_connect = [(acme_ip, 443)]\<rparr>], st', r)"
    by blast
  from host_fetch_contacts_only_permitted [OF o] have "classify acme_ip = Public"
    by (simp add: pinned_of_def) blast
  with o show ?thesis by (simp add: pinned_of_def acme_target_def)
qed

text \<open>
  What an app is given: a fetch that succeeds followed at most three redirects (one fewer
  than the requests made), its body is within 16 MiB, and of the response headers it shows at
  most 32, each within 1024 bytes and none a cookie, an authentication challenge or framing, in
  any case of letters.
\<close>

theorem host_fetch_result_bounded:
  assumes "fetch net resolve connect answer member now inp st = (pins, st', Inr f)"
  shows "f_redirects f \<le> 3 \<and> length pins = f_redirects f + 1 \<and>
    length (f_body f) \<le> 16777216 \<and> length (f_headers f) \<le> 32 \<and>
    list_all (\<lambda>(name, v). length name + length v \<le> 1024 \<and>
      to_ascii_lowercase name \<notin> {''set-cookie'', ''set-cookie2'', ''www-authenticate'', ''proxy-authenticate'',
        ''content-length'', ''transfer-encoding'', ''connection''}) (f_headers f)"
proof -
  from assms obtain st1 opened m' where o: "open_fetch net resolve connect answer member now inp st = (pins, st1, Inr opened)"
      and b: "read_body (fi_key inp) [] (u_body (o_upstream opened)) (fs_meter st1) = (m', Inr (f_body f))"
      and f: "f_headers f = shown_headers (u_headers (o_upstream opened))" "f_redirects f = o_redirects opened"
    by (auto simp: fetch_def Let_def split: prod.splits sum.splits)
  from open_fetch_pins [OF o] obtain g m m' where "open_loop net resolve connect (fi_key inp) g (fi_headers inp)
      (fi_method inp) (fi_body inp) (fi_url inp) None 0 m = (pins, m', Inr opened)" by blast
  from open_loop_contacts [OF this] f have "f_redirects f \<le> 3 \<and> length pins = f_redirects f + 1" by simp
  moreover have "length (f_body f) \<le> 16777216"
    using read_body_bound [OF b] by (simp add: MAX_RESPONSE_BODY_BYTES_def)
  moreover have "length (f_headers f) \<le> 32" by (simp add: f shown_headers_def MAX_HEADERS_def)
  moreover have "length name + length v \<le> 1024 \<and>
      to_ascii_lowercase name \<notin> {''set-cookie'', ''set-cookie2'', ''www-authenticate'', ''proxy-authenticate'',
        ''content-length'', ''transfer-encoding'', ''connection''}" if "(name, v) \<in> set (f_headers f)" for name v
  proof -
    from that have "response_header_ok name" "length name + length v \<le> 1024"
      by (auto simp: f shown_headers_def MAX_HEADER_BYTES_def dest: in_set_takeD)
    then show ?thesis
      by (auto simp: response_header_ok_def DENIED_RESPONSE_HEADERS_def string_eval)
  qed
  ultimately show ?thesis by (auto simp: list_all_iff)
qed

theorem host_fetch_result_bounded_witness:
  "\<exists>pins st' f. fetch acme_net acme_resolver acme_connector (Inr (Some acme_server)) (Inr None) 5
      acme_input acme_state = (pins, st', Inr f) \<and> f_body f = ''hi'' \<and>
    (''set-cookie'', ''a=1'') \<notin> set (f_headers f) \<and> f_redirects f \<le> 3"
proof -
  from acme_open_fetch obtain pins st' f where f: "fetch acme_net acme_resolver acme_connector
      (Inr (Some acme_server)) (Inr None) 5 acme_input acme_state = (pins, st', Inr f)" "f_body f = ''hi''"
    by (auto simp: fetch_def Let_def acme_input_def MAX_RESPONSE_BODY_BYTES_def)
  from host_fetch_result_bounded [OF f(1)] have "f_redirects f \<le> 3" "(''set-cookie'', ''a=1'') \<notin> set (f_headers f)"
    by (auto simp: list_all_iff string_eval)
  with f show ?thesis by blast
qed

end
