(* ===== verification/Host_Stream.thy ===== *)
theory Host_Stream
  imports Host_Fetch
begin

text \<open>
  The streamed form of host egress (\<^verbatim>\<open>kernel/apps/net/stream.rs\<close>): the registry of open
  streams, and the pump that moves the upstream body to the page against its credit. The pump is
  a state machine: its state is the function's local variables and the point it is at, and each
  event is what the awaited or polled port answered there. What was emitted to the sink and what
  was read from upstream are kept beside it.
\<close>

definition INITIAL_CREDIT :: nat where "INITIAL_CREDIT = 4"
definition MAX_CREDIT_GRANT :: nat where "MAX_CREDIT_GRANT = 64"
definition MAX_BODY_CHUNK_BYTES :: nat where "MAX_BODY_CHUNK_BYTES = 65536"

datatype control = Credit nat | Cancel

section \<open>Open streams\<close>

text \<open>
  An open stream is its channel: the controls sent and not yet received, and whether the
  receiving end still exists.
\<close>

type_synonym stream_key = "nat \<times> nat"
type_synonym streams = "(stream_key, control list \<times> bool) hmap"

definition register :: "streams \<Rightarrow> stream_key \<Rightarrow> streams \<times> bool" where
  "register st k = (if hm_get st k \<noteq> None then (st, False) else (hm_insert k ([], True) st, True))"

definition send_control :: "streams \<Rightarrow> stream_key \<Rightarrow> control \<Rightarrow> streams \<times> bool" where
  "send_control st k c =
     (case hm_get st k of
        Some (queue, True) \<Rightarrow> (hm_insert k (queue @ [c], True) st, True)
      | _ \<Rightarrow> (st, False))"

definition close_stream :: "streams \<Rightarrow> stream_key \<Rightarrow> streams" where
  "close_stream st k = hm_remove k st"

section \<open>The pump\<close>

definition apply_control :: "nat \<Rightarrow> control \<Rightarrow> fetch_refusal + nat" where
  "apply_control credit c =
     (case c of
        Credit n \<Rightarrow> if 1 \<le> n \<and> n \<le> MAX_CREDIT_GRANT then Inr (sat_add u32_max credit n)
                    else Inl (Limit LimitCredit)
      | Cancel \<Rightarrow> Inl (Unavailable Cancelled))"

text \<open>\<^verbatim>\<open>slice::chunks\<close>.\<close>

function chunks :: "nat \<Rightarrow> string \<Rightarrow> string list" where
  "chunks n bytes = (if bytes = [] \<or> n = 0 then [] else take n bytes # chunks n (drop n bytes))"
  by pat_completeness auto

termination by (relation "measure (\<lambda>(_, bytes). length bytes)") auto

declare chunks.simps [simp del]

datatype pump_phase = Draining | WaitingCredit | Reading | Sending | Finished "fetch_refusal + nat"

record pump =
  p_phase :: pump_phase
  p_credit :: nat
  p_pieces :: "string list"
  p_total :: nat
  p_seq :: nat
  p_meter :: meter
  p_emitted :: "(nat \<times> string) list"
  p_read :: "string list"

definition pump_start :: "meter \<Rightarrow> pump" where
  "pump_start m = \<lparr>p_phase = Draining, p_credit = INITIAL_CREDIT, p_pieces = [], p_total = 0, p_seq = 0,
     p_meter = m, p_emitted = [], p_read = []\<rparr>"

datatype pump_event =
    TryRecv "control option"
  | Recv "control option option"
  | NextChunk chunk_result
  | Emitted bool

text \<open>\<^verbatim>\<open>refuse\<close> and \<^verbatim>\<open>limit\<close>: a limit is counted against the install, anything else is not.\<close>

definition pump_refuse :: "install_key \<Rightarrow> pump \<Rightarrow> fetch_refusal \<Rightarrow> pump" where
  "pump_refuse key p e =
     p\<lparr>p_phase := Finished (Inl e),
       p_meter := (case e of Limit _ \<Rightarrow> meter_refused (p_meter p) key | _ \<Rightarrow> p_meter p)\<rparr>"

definition pump_control :: "install_key \<Rightarrow> pump \<Rightarrow> control \<Rightarrow> pump" where
  "pump_control key p c =
     (case apply_control (p_credit p) c of
        Inl e \<Rightarrow> pump_refuse key p e
      | Inr credit \<Rightarrow> p\<lparr>p_phase := Draining, p_credit := credit\<rparr>)"

text \<open>Where the loop goes once no control is left to take.\<close>

definition pump_next :: "pump \<Rightarrow> pump_phase" where
  "pump_next p = (if p_credit p = 0 then WaitingCredit else if p_pieces p = [] then Reading else Sending)"

definition pump_chunk :: "install_key \<Rightarrow> pump \<Rightarrow> string \<Rightarrow> pump" where
  "pump_chunk key p bytes =
     (let p = p\<lparr>p_meter := meter_received (p_meter p) key (length bytes),
                p_total := p_total p + length bytes, p_read := p_read p @ [bytes]\<rparr>
      in if p_total p > MAX_RESPONSE_BODY_BYTES then pump_refuse key p (Limit LimitResponseBody)
         else p\<lparr>p_phase := Draining, p_pieces := p_pieces p @ chunks MAX_BODY_CHUNK_BYTES bytes\<rparr>)"

definition pump_step :: "install_key \<Rightarrow> pump \<Rightarrow> pump_event \<Rightarrow> pump option" where
  "pump_step key p ev =
     (case (p_phase p, ev) of
        (Draining, TryRecv (Some c)) \<Rightarrow> Some (pump_control key p c)
      | (Draining, TryRecv None) \<Rightarrow> Some (p\<lparr>p_phase := pump_next p\<rparr>)
      | (WaitingCredit, Recv None) \<Rightarrow> Some (pump_refuse key p (Limit LimitTime))
      | (WaitingCredit, Recv (Some None)) \<Rightarrow> Some (pump_refuse key p (Unavailable Cancelled))
      | (WaitingCredit, Recv (Some (Some c))) \<Rightarrow> Some (pump_control key p c)
      | (Reading, NextChunk ChunkTimeout) \<Rightarrow> Some (pump_refuse key p (Limit LimitTime))
      | (Reading, NextChunk ChunkFailed) \<Rightarrow> Some (pump_refuse key p (Unavailable Network))
      | (Reading, NextChunk BodyEnd) \<Rightarrow> Some (p\<lparr>p_phase := Finished (Inr (p_total p))\<rparr>)
      | (Reading, NextChunk (Chunk bytes)) \<Rightarrow> Some (pump_chunk key p bytes)
      | (Sending, Emitted ok) \<Rightarrow>
          (case p_pieces p of
             [] \<Rightarrow> None
           | bytes # pieces \<Rightarrow>
               (let p = p\<lparr>p_pieces := pieces, p_emitted := p_emitted p @ [(p_seq p, bytes)]\<rparr>
                in if \<not> ok then Some (pump_refuse key p (Unavailable Cancelled))
                   else Some (p\<lparr>p_phase := Draining, p_seq := sat_add u32_max (p_seq p) 1,
                                p_credit := p_credit p - 1\<rparr>)))
      | _ \<Rightarrow> None)"

inductive pump_reaches :: "install_key \<Rightarrow> meter \<Rightarrow> pump_event list \<Rightarrow> pump \<Rightarrow> bool" for key m where
  start: "pump_reaches key m [] (pump_start m)"
| step: "pump_reaches key m evs p \<Longrightarrow> pump_step key p ev = Some p' \<Longrightarrow> pump_reaches key m (evs @ [ev]) p'"

inductive_cases pump_reaches_snocE: "pump_reaches key m (evs @ [ev]) p"

text \<open>What the page sees: the head, the chunks, and one last event when the pump is done.\<close>

datatype stream_event =
    StreamHead nat "(string \<times> string) list" nat
  | StreamChunk nat string
  | StreamEnd nat
  | StreamFailure fetch_refusal

definition stream_seen :: "'b opened \<Rightarrow> pump \<Rightarrow> stream_event list" where
  "stream_seen o' p =
     StreamHead (u_status (o_upstream o')) (shown_headers (u_headers (o_upstream o'))) (o_redirects o') #
     map (\<lambda>(seq, bytes). StreamChunk seq bytes) (p_emitted p) @
     (case p_phase p of
        Finished (Inr n) \<Rightarrow> [StreamEnd n]
      | Finished (Inl e) \<Rightarrow> [StreamFailure e]
      | _ \<Rightarrow> [])"

section \<open>Chunks\<close>

lemma concat_chunks: "0 < n \<Longrightarrow> concat (chunks n bytes) = bytes"
  by (induction n bytes rule: chunks.induct) (subst chunks.simps, simp)

lemma chunks_one: "b \<noteq> [] \<Longrightarrow> length b \<le> n \<Longrightarrow> chunks n b = [b]"
  by (cases b; subst chunks.simps, subst chunks.simps) auto

lemma chunks_bounds: "c \<in> set (chunks n bytes) \<Longrightarrow> c \<noteq> [] \<and> length c \<le> n"
proof (induction n bytes rule: chunks.induct)
  case (1 n bytes)
  show ?case
  proof (cases "bytes = [] \<or> n = 0")
    case True
    with "1.prems" show ?thesis by (subst (asm) chunks.simps) simp
  next
    case False
    with "1.prems" consider "c = take n bytes" | "c \<in> set (chunks n (drop n bytes))"
      by (subst (asm) chunks.simps) auto
    then show ?thesis using False "1.IH" by cases auto
  qed
qed

section \<open>What the pump keeps\<close>

text \<open>The credit the page has granted so far, of the grants the pump took.\<close>

fun granted :: "pump_event list \<Rightarrow> nat" where
  "granted [] = 0"
| "granted (ev # evs) =
     (case ev of
        TryRecv (Some (Credit n)) \<Rightarrow> n
      | Recv (Some (Some (Credit n))) \<Rightarrow> n
      | _ \<Rightarrow> 0) + granted evs"

lemma granted_snoc [simp]: "granted (evs @ [ev]) = granted evs + granted [ev]"
  by (induction evs) simp_all

definition pieces_ok :: "string list \<Rightarrow> bool" where
  "pieces_ok ps \<longleftrightarrow> list_all (\<lambda>b. b \<noteq> [] \<and> length b \<le> MAX_BODY_CHUNK_BYTES) ps"

definition seqs_ok :: "(nat \<times> string) list \<Rightarrow> bool" where
  "seqs_ok es \<longleftrightarrow> map fst es = map (min u32_max) [0..<length es]"

text \<open>While the pump runs: nothing read is lost or reordered, and nothing is sent beyond the credit.\<close>

definition running :: "pump_event list \<Rightarrow> pump \<Rightarrow> bool" where
  "running evs p \<longleftrightarrow>
     concat (map snd (p_emitted p)) @ concat (p_pieces p) = concat (p_read p) \<and>
     p_total p = length (concat (p_read p)) \<and> p_total p \<le> MAX_RESPONSE_BODY_BYTES \<and>
     p_seq p = min u32_max (length (p_emitted p)) \<and> seqs_ok (p_emitted p) \<and>
     pieces_ok (map snd (p_emitted p)) \<and> pieces_ok (p_pieces p) \<and>
     length (p_emitted p) + p_credit p \<le> INITIAL_CREDIT + granted evs"

text \<open>Once it has failed: what was sent is still a prefix of what was read, within the credit.\<close>

definition failed :: "pump_event list \<Rightarrow> pump \<Rightarrow> bool" where
  "failed evs p \<longleftrightarrow>
     (\<exists>rest. concat (map snd (p_emitted p)) @ rest = concat (p_read p)) \<and>
     seqs_ok (p_emitted p) \<and> pieces_ok (map snd (p_emitted p)) \<and>
     length (p_emitted p) \<le> INITIAL_CREDIT + granted evs"

definition pump_inv :: "pump_event list \<Rightarrow> pump \<Rightarrow> bool" where
  "pump_inv evs p \<longleftrightarrow>
     (case p_phase p of
        Finished (Inl e) \<Rightarrow> failed evs p
      | Finished (Inr n) \<Rightarrow> running evs p \<and> p_pieces p = [] \<and> n = p_total p
      | Draining \<Rightarrow> running evs p
      | ph \<Rightarrow> running evs p \<and> ph = pump_next p)"

lemma seqs_ok_snoc: "seqs_ok es \<Longrightarrow> n = min u32_max (length es) \<Longrightarrow> seqs_ok (es @ [(n, b)])"
  by (simp add: seqs_ok_def)

lemma running_failed: "running evs p \<Longrightarrow> failed (evs @ [ev]) p"
  by (auto simp: running_def failed_def)

lemma failed_frame:
  assumes "failed evs p" "p_emitted q = p_emitted p" "p_read q = p_read p @ extra"
  shows "failed evs q"
proof -
  from assms(1) obtain rest where "concat (map snd (p_emitted p)) @ rest = concat (p_read p)"
    by (auto simp: failed_def)
  with assms(2,3) have "concat (map snd (p_emitted q)) @ (rest @ concat extra) = concat (p_read q)"
    by (simp flip: append.assoc)
  with assms(1,2) show ?thesis by (auto simp: failed_def)
qed

lemma pump_refuse_inv:
  "running evs p \<Longrightarrow> pump_inv (evs @ [ev]) (pump_refuse key p e)"
  by (simp add: pump_inv_def pump_refuse_def) (rule failed_frame [OF running_failed, where extra = "[]"], simp_all)

lemma pump_control_inv:
  assumes "running evs p" and "granted [ev] = (case c of Credit n \<Rightarrow> n | Cancel \<Rightarrow> 0)"
  shows "pump_inv (evs @ [ev]) (pump_control key p c)"
proof (cases "apply_control (p_credit p) c")
  case (Inl e)
  with pump_refuse_inv [OF assms(1)] show ?thesis by (simp add: pump_control_def)
next
  case (Inr credit)
  then obtain n where "c = Credit n" "credit \<le> p_credit p + n"
    by (auto simp: apply_control_def sat_add_def split: control.splits if_splits)
  with Inr assms show ?thesis by (auto simp: pump_control_def pump_inv_def running_def)
qed

lemma pump_chunk_inv:
  assumes "running evs p" and "p_pieces p = []" and "granted [ev] = 0"
  shows "pump_inv (evs @ [ev]) (pump_chunk key p bytes)"
proof -
  let ?p = "p\<lparr>p_meter := meter_received (p_meter p) key (length bytes),
              p_total := p_total p + length bytes, p_read := p_read p @ [bytes]\<rparr>"
  have chunks: "concat (chunks MAX_BODY_CHUNK_BYTES bytes) = bytes" "pieces_ok (chunks MAX_BODY_CHUNK_BYTES bytes)"
    using concat_chunks [of MAX_BODY_CHUNK_BYTES bytes] chunks_bounds [of _ MAX_BODY_CHUNK_BYTES bytes]
    by (auto simp: pieces_ok_def list_all_iff MAX_BODY_CHUNK_BYTES_def)
  show ?thesis
  proof (cases "p_total ?p > MAX_RESPONSE_BODY_BYTES")
    case True
    have "failed (evs @ [ev]) ?p" by (rule failed_frame [OF running_failed [OF assms(1)]]) simp_all
    then have "failed (evs @ [ev]) (pump_refuse key ?p (Limit LimitResponseBody))"
      by (rule failed_frame [where extra = "[]"]) (simp_all add: pump_refuse_def)
    with True show ?thesis by (simp add: pump_chunk_def pump_inv_def pump_refuse_def)
  next
    case False
    with assms chunks show ?thesis by (auto simp: pump_chunk_def pump_inv_def running_def)
  qed
qed

lemma pump_send_inv:
  assumes "running evs p" and "p_pieces p = b # ps" and "0 < p_credit p"
    and "pump_step key p (Emitted ok) = Some p'" and "p_phase p = Sending"
  shows "pump_inv (evs @ [Emitted ok]) p'"
proof -
  let ?p = "p\<lparr>p_pieces := ps, p_emitted := p_emitted p @ [(p_seq p, b)]\<rparr>"
  have sent: "concat (map snd (p_emitted ?p)) @ concat ps = concat (p_read ?p)" "seqs_ok (p_emitted ?p)"
      "pieces_ok (map snd (p_emitted ?p))" "pieces_ok ps" "length (p_emitted ?p) + (p_credit p - 1) \<le> INITIAL_CREDIT + granted evs"
    using assms(1-3) seqs_ok_snoc [of "p_emitted p" "p_seq p" b] by (auto simp: running_def pieces_ok_def)
  show ?thesis
  proof (cases ok)
    case True
    with assms(2,4,5) have p': "p' = ?p\<lparr>p_phase := Draining, p_seq := sat_add u32_max (p_seq p) 1, p_credit := p_credit p - 1\<rparr>"
      by (simp add: pump_step_def)
    from sent assms(1) show ?thesis
      unfolding p' by (auto simp: pump_inv_def running_def sat_add_def min_def)
  next
    case False
    with assms(2,4,5) have p': "p' = pump_refuse key ?p (Unavailable Cancelled)" by (simp add: pump_step_def)
    have "failed (evs @ [Emitted ok]) ?p" unfolding failed_def using sent by (intro conjI exI [of _ "concat ps"]) auto
    then show ?thesis unfolding p' by (auto simp: pump_inv_def pump_refuse_def elim: failed_frame [where extra = "[]"])
  qed
qed

lemma pump_step_inv:
  assumes "pump_inv evs p" and "pump_step key p ev = Some p'"
  shows "pump_inv (evs @ [ev]) p'"
proof (cases "p_phase p")
  case Draining
  with assms(1) have r: "running evs p" by (simp add: pump_inv_def)
  show ?thesis
  proof (cases "\<exists>c. ev = TryRecv (Some c)")
    case True
    then obtain c where c: "ev = TryRecv (Some c)" by blast
    with assms(2) Draining have "p' = pump_control key p c" by (simp add: pump_step_def)
    with pump_control_inv [OF r, of ev c] c show ?thesis by (simp split: control.splits)
  next
    case False
    with assms(2) Draining have "ev = TryRecv None" "p' = p\<lparr>p_phase := pump_next p\<rparr>"
      by (auto simp: pump_step_def split: pump_event.splits option.splits)
    with r show ?thesis by (auto simp: pump_inv_def running_def pump_next_def)
  qed
next
  case WaitingCredit
  with assms(1) have r: "running evs p" by (simp add: pump_inv_def)
  show ?thesis
  proof (cases "\<exists>c. ev = Recv (Some (Some c))")
    case True
    then obtain c where c: "ev = Recv (Some (Some c))" by blast
    with assms(2) WaitingCredit have "p' = pump_control key p c" by (simp add: pump_step_def)
    with pump_control_inv [OF r, of ev c] c show ?thesis by (simp split: control.splits)
  next
    case False
    with assms(2) WaitingCredit have "\<exists>e. p' = pump_refuse key p e"
      by (auto simp: pump_step_def split: pump_event.splits option.splits)
    with pump_refuse_inv [OF r] show ?thesis by blast
  qed
next
  case Reading
  with assms(1) have r: "running evs p" "p_pieces p = []" by (auto simp: pump_inv_def pump_next_def split: if_splits)
  from assms(2) Reading obtain c where ev: "ev = NextChunk c"
    by (auto simp: pump_step_def split: pump_event.splits)
  show ?thesis
  proof (cases c)
    case (Chunk bytes)
    with assms(2) Reading ev have "p' = pump_chunk key p bytes" by (simp add: pump_step_def)
    with pump_chunk_inv [OF r, of ev] ev show ?thesis by simp
  next
    case BodyEnd
    with assms(2) Reading ev r show ?thesis by (auto simp: pump_step_def pump_inv_def running_def)
  qed (use assms(2) Reading ev pump_refuse_inv [OF r(1), of ev key] in \<open>auto simp: pump_step_def\<close>)
next
  case Sending
  with assms(1) have r: "running evs p" "0 < p_credit p" "p_pieces p \<noteq> []"
    by (auto simp: pump_inv_def pump_next_def split: if_splits)
  from assms(2) Sending obtain ok where ev: "ev = Emitted ok"
    by (auto simp: pump_step_def split: pump_event.splits)
  from r(3) obtain b ps where "p_pieces p = b # ps" by (cases "p_pieces p") auto
  with pump_send_inv [OF r(1) _ r(2)] assms(2) Sending ev show ?thesis by blast
next
  case (Finished r)
  with assms(2) show ?thesis by (simp add: pump_step_def)
qed

lemma pump_reaches_inv: "pump_reaches key m evs p \<Longrightarrow> pump_inv evs p"
proof (induction rule: pump_reaches.induct)
  case start
  show ?case by (simp add: pump_start_def pump_inv_def running_def seqs_ok_def pieces_ok_def)
next
  case (step evs p ev p')
  from pump_step_inv [OF step(3,2)] show ?case .
qed

text \<open>What upstream sent, read off the events.\<close>

fun received :: "pump_event list \<Rightarrow> string" where
  "received [] = []"
| "received (ev # evs) = (case ev of NextChunk (Chunk bytes) \<Rightarrow> bytes | _ \<Rightarrow> []) @ received evs"

lemma received_snoc: "received (evs @ [ev]) = received evs @ received [ev]"
  by (induction evs) simp_all

lemma pump_step_read:
  "pump_step key p ev = Some p' \<Longrightarrow> concat (p_read p') = concat (p_read p) @ received [ev]"
  by (cases "p_phase p"; cases ev)
     (auto simp: pump_step_def pump_control_def pump_refuse_def pump_chunk_def Let_def
       split: option.splits sum.splits chunk_result.splits list.splits if_splits)

lemma pump_reaches_read: "pump_reaches key m evs p \<Longrightarrow> concat (p_read p) = received evs"
  by (induction rule: pump_reaches.induct) (simp_all add: pump_start_def received_snoc pump_step_read)

section \<open>Properties\<close>

text \<open>
  C14. A stream delivers the body: at every moment of a stream what the page was sent, in order,
  is a prefix of what upstream sent, in pieces of 1 to 65536 bytes numbered from zero upwards;
  and when the stream ends without a failure it is all of it, at most 16 MiB, the number of bytes
  announced at the end being exactly its length.
\<close>

theorem stream_delivers_body:
  assumes "pump_reaches key m evs p"
  shows "(\<exists>rest. concat (map snd (p_emitted p)) @ rest = received evs) \<and>
    list_all (\<lambda>(_, b). b \<noteq> [] \<and> length b \<le> 65536) (p_emitted p) \<and>
    map fst (p_emitted p) = map (min 4294967295) [0..<length (p_emitted p)] \<and>
    (p_phase p = Finished (Inr n) \<longrightarrow>
       concat (map snd (p_emitted p)) = received evs \<and> n = length (received evs) \<and> n \<le> 16777216)"
proof -
  note inv = pump_reaches_inv [OF assms] and read = pump_reaches_read [OF assms]
  then have "failed evs p"
    by (auto simp: pump_inv_def running_def failed_def split: pump_phase.splits sum.splits)
  then show ?thesis
    using inv read
    by (auto simp: failed_def seqs_ok_def pieces_ok_def list_all_iff u32_max_def MAX_BODY_CHUNK_BYTES_def
        pump_inv_def running_def MAX_RESPONSE_BODY_BYTES_def)
qed

fun pump_run :: "install_key \<Rightarrow> pump \<Rightarrow> pump_event list \<Rightarrow> pump option" where
  "pump_run key p [] = Some p"
| "pump_run key p (ev # evs) = (case pump_step key p ev of None \<Rightarrow> None | Some p \<Rightarrow> pump_run key p evs)"

lemma pump_run_reaches:
  "pump_reaches key m evs p \<Longrightarrow> pump_run key p evs' = Some p' \<Longrightarrow> pump_reaches key m (evs @ evs') p'"
proof (induction evs' arbitrary: evs p)
  case (Cons ev evs')
  then obtain q where "pump_step key p ev = Some q" "pump_run key q evs' = Some p'" by (auto split: option.splits)
  with Cons.IH [OF pump_reaches.step [OF Cons.prems(1)]] show ?case by fastforce
qed simp

definition short_stream :: "pump_event list" where
  "short_stream = [TryRecv None, NextChunk (Chunk ''ab''), TryRecv (Some (Credit 2)), TryRecv None, Emitted True,
     TryRecv None, NextChunk BodyEnd]"

lemma short_stream_run:
  "map_option (\<lambda>p. (p_phase p, p_emitted p)) (pump_run (7, ''i'') (pump_start []) short_stream) =
     Some (Finished (Inr 2), [(0, ''ab'')])"
  by (simp add: short_stream_def pump_start_def pump_step_def pump_next_def pump_control_def apply_control_def
      MAX_CREDIT_GRANT_def sat_add_def u32_max_def pump_chunk_def MAX_RESPONSE_BODY_BYTES_def chunks_one
      MAX_BODY_CHUNK_BYTES_def INITIAL_CREDIT_def)

lemma short_stream_reaches:
  obtains p where "pump_reaches (7, ''i'') [] short_stream p" "p_phase p = Finished (Inr 2)" "p_emitted p = [(0, ''ab'')]"
proof -
  obtain p where p: "pump_run (7, ''i'') (pump_start []) short_stream = Some p"
    using short_stream_run by (cases "pump_run (7, ''i'') (pump_start []) short_stream") simp_all
  from map_option_SomeD [OF short_stream_run p] have "p_phase p = Finished (Inr 2)" "p_emitted p = [(0, ''ab'')]"
    by simp_all
  moreover have "pump_reaches (7, ''i'') [] ([] @ short_stream) p"
    by (rule pump_run_reaches [OF pump_reaches.start p])
  ultimately show thesis using that by simp
qed

theorem stream_delivers_body_witness:
  "\<exists>p. pump_reaches (7, ''i'') [] short_stream p \<and> concat (map snd (p_emitted p)) = received short_stream \<and>
     length (received short_stream) = 2"
proof -
  from short_stream_reaches obtain p where p: "pump_reaches (7, ''i'') [] short_stream p" "p_phase p = Finished (Inr 2)" .
  from stream_delivers_body [OF p(1), of 2] p(2)
  have "concat (map snd (p_emitted p)) = received short_stream" "length (received short_stream) = 2" by simp_all
  with p(1) show ?thesis by blast
qed

text \<open>
  Credit is respected and the stream is never stuck: the number of chunks a stream has sent
  is at most four more than the credit granted to it; a chunk is sent only while credit is left;
  a grant of none or of more than 64, and a cancellation, end the stream; and a stream that is
  not finished always has an answer of the port it waits for that takes it on.
\<close>

theorem stream_within_credit:
  assumes "pump_reaches key m evs p"
  shows "length (p_emitted p) \<le> 4 + granted evs \<and>
    (pump_step key p (Emitted ok) \<noteq> None \<longrightarrow> 0 < p_credit p) \<and>
    (p_phase p = Draining \<and> (c = Cancel \<or> (\<exists>n. c = Credit n \<and> (n = 0 \<or> 64 < n))) \<longrightarrow>
       (\<exists>p' e. pump_step key p (TryRecv (Some c)) = Some p' \<and> p_phase p' = Finished (Inl e))) \<and>
    ((\<forall>r. p_phase p \<noteq> Finished r) \<longrightarrow> (\<exists>ev p'. pump_step key p ev = Some p'))"
proof (intro conjI impI)
  note inv = pump_reaches_inv [OF assms]
  show "length (p_emitted p) \<le> 4 + granted evs"
    using inv by (auto simp: pump_inv_def running_def failed_def INITIAL_CREDIT_def split: pump_phase.splits sum.splits)
  show "0 < p_credit p" if "pump_step key p (Emitted ok) \<noteq> None"
    using that inv by (cases "p_phase p") (auto simp: pump_step_def pump_inv_def pump_next_def split: if_splits)
  show "\<exists>p' e. pump_step key p (TryRecv (Some c)) = Some p' \<and> p_phase p' = Finished (Inl e)"
    if "p_phase p = Draining \<and> (c = Cancel \<or> (\<exists>n. c = Credit n \<and> (n = 0 \<or> 64 < n)))"
    using that by (auto simp: pump_step_def pump_control_def apply_control_def MAX_CREDIT_GRANT_def pump_refuse_def)
  assume "\<forall>r. p_phase p \<noteq> Finished r"
  then show "\<exists>ev p'. pump_step key p ev = Some p'"
  proof (cases "p_phase p")
    case Draining
    then have "pump_step key p (TryRecv None) = Some (p\<lparr>p_phase := pump_next p\<rparr>)" by (simp add: pump_step_def)
    then show ?thesis by blast
  next
    case WaitingCredit
    then have "pump_step key p (Recv None) = Some (pump_refuse key p (Limit LimitTime))" by (simp add: pump_step_def)
    then show ?thesis by blast
  next
    case Reading
    then have "pump_step key p (NextChunk ChunkTimeout) = Some (pump_refuse key p (Limit LimitTime))"
      by (simp add: pump_step_def)
    then show ?thesis by blast
  next
    case Sending
    with inv obtain b ps where "p_pieces p = b # ps"
      by (cases "p_pieces p") (auto simp: pump_inv_def pump_next_def split: if_splits)
    with Sending have "pump_step key p (Emitted True) \<noteq> None" by (simp add: pump_step_def Let_def)
    then show ?thesis by blast
  qed simp
qed

theorem stream_within_credit_witness:
  "\<exists>p. pump_reaches (7, ''i'') [] short_stream p \<and> length (p_emitted p) \<le> 4 + granted short_stream \<and>
     granted short_stream = 2"
proof -
  from short_stream_reaches obtain p where p: "pump_reaches (7, ''i'') [] short_stream p" .
  from stream_within_credit [OF p] have "length (p_emitted p) \<le> 4 + granted short_stream" by blast
  with p show ?thesis by (auto simp: short_stream_def)
qed

end
