(* ===== verification/Float64.thy ===== *)
theory Float64
  imports Prelude
begin

text \<open>
  The part of Rust's \<^verbatim>\<open>f64\<close> the conversation code uses. A value is its IEEE 754 binary64
  bit pattern, which is what \<^verbatim>\<open>to_be_bytes\<close> and \<^verbatim>\<open>from_be_bytes\<close> move and what a
  comparison or a conversion to and from an integer reads. Conversions are exact where the
  standard says so and round to nearest, ties to even, where it does not. Which NaN an operation
  returns is unspecified in Rust, so operations that may return one take it as an argument.
\<close>

type_synonym f64 = "64 word"

definition f64_sign :: "f64 \<Rightarrow> bool" where "f64_sign x \<longleftrightarrow> 2 ^ 63 \<le> unat x"
definition f64_exponent :: "f64 \<Rightarrow> nat" where "f64_exponent x = unat x div 2 ^ 52 mod 2 ^ 11"
definition f64_fraction :: "f64 \<Rightarrow> nat" where "f64_fraction x = unat x mod 2 ^ 52"

definition f64_make :: "bool \<Rightarrow> nat \<Rightarrow> nat \<Rightarrow> f64" where
  "f64_make s e f = word_of_nat ((if s then 2 ^ 63 else 0) + e * 2 ^ 52 + f)"

definition f64_zero :: f64 where "f64_zero = 0"
definition f64_infinity :: "bool \<Rightarrow> f64" where "f64_infinity s = f64_make s 2047 0"

definition is_nan :: "f64 \<Rightarrow> bool" where
  "is_nan x \<longleftrightarrow> f64_exponent x = 2047 \<and> f64_fraction x \<noteq> 0"

definition is_finite :: "f64 \<Rightarrow> bool" where "is_finite x \<longleftrightarrow> f64_exponent x \<noteq> 2047"

text \<open>The order of the values that are not NaN is the order of sign and magnitude.\<close>

definition f64_key :: "f64 \<Rightarrow> int" where
  "f64_key x = (let m = int (unat x mod 2 ^ 63) in if f64_sign x then - m else m)"

definition f64_ge :: "f64 \<Rightarrow> f64 \<Rightarrow> bool" where
  "f64_ge x y \<longleftrightarrow> \<not> is_nan x \<and> \<not> is_nan y \<and> f64_key y \<le> f64_key x"

text \<open>The position of a number's highest set bit.\<close>

fun top_bit :: "nat \<Rightarrow> nat" where
  "top_bit m = (if m < 2 then 0 else Suc (top_bit (m div 2)))"

declare top_bit.simps [simp del]

text \<open>The value \<^verbatim>\<open>m * 2^e\<close> with a sign, for an \<^verbatim>\<open>m\<close> that fits the significand.\<close>

definition f64_dyadic :: "bool \<Rightarrow> nat \<Rightarrow> int \<Rightarrow> f64" where
  "f64_dyadic s m e =
     (if m = 0 then f64_make s 0 0
      else
        (let p = top_bit m;
             sig = (if p \<le> 52 then m * 2 ^ (52 - p) else m div 2 ^ (p - 52))
         in f64_make s (nat (int p + e + 1023)) (sig - 2 ^ 52)))"

definition round_even :: "nat \<Rightarrow> nat \<Rightarrow> nat" where
  "round_even m k =
     (let q = m div 2 ^ k; r = m mod 2 ^ k
      in if 2 ^ k < 2 * r \<or> 2 * r = 2 ^ k \<and> odd q then q + 1 else q)"

text \<open>\<^verbatim>\<open>n as f64\<close>: the nearest number with 53 significant bits.\<close>

definition f64_rounded :: "nat \<Rightarrow> nat" where
  "f64_rounded m = (let p = top_bit m in if p \<le> 52 then m else round_even m (p - 52) * 2 ^ (p - 52))"

definition f64_of_nat :: "bool \<Rightarrow> nat \<Rightarrow> f64" where
  "f64_of_nat s m = f64_dyadic s (f64_rounded m) 0"

text \<open>\<^verbatim>\<open>-1.0 - n as f64\<close>, each operation rounding.\<close>

definition f64_neg_succ :: "nat \<Rightarrow> f64" where
  "f64_neg_succ n = f64_of_nat True (f64_rounded n + 1)"

text \<open>
  The integer a finite value with no fractional part is; \<^term>\<open>None\<close> for every other value. A
  value is \<^verbatim>\<open>mantissa * 2^(exponent - 1075)\<close>.
\<close>

definition f64_mantissa :: "f64 \<Rightarrow> nat" where
  "f64_mantissa x = (if f64_exponent x = 0 then f64_fraction x else 2 ^ 52 + f64_fraction x)"

definition f64_magnitude :: "f64 \<Rightarrow> nat option" where
  "f64_magnitude x =
     (let e = (if f64_exponent x = 0 then 1 else f64_exponent x); m = f64_mantissa x
      in if \<not> is_finite x then None
         else if 1075 \<le> e then Some (m * 2 ^ (e - 1075))
         else if m mod 2 ^ (1075 - e) = 0 then Some (m div 2 ^ (1075 - e))
         else None)"

definition f64_int :: "f64 \<Rightarrow> int option" where
  "f64_int x = map_option (\<lambda>n. if f64_sign x then - int n else int n) (f64_magnitude x)"

section \<open>Bit patterns\<close>

lemma finite_not_nan: "is_finite x \<Longrightarrow> \<not> is_nan x"
  by (simp add: is_finite_def is_nan_def)

lemma f64_parts:
  "unat x = (if f64_sign x then 2 ^ 63 else 0) + f64_exponent x * 2 ^ 52 + f64_fraction x"
proof -
  define q where "q = unat x div 2 ^ 52"
  have "unat x < 2 ^ 12 * 2 ^ 52" using unsigned_less [of x] by simp
  then have "q < 2 ^ 12" unfolding q_def by (rule less_mult_imp_div_less)
  then have q: "q = (if 2 ^ 11 \<le> q then 2 ^ 11 else 0) + q mod 2 ^ 11"
    by (simp add: le_mod_geq)
  have "f64_sign x \<longleftrightarrow> 2 ^ 11 \<le> q"
    unfolding q_def f64_sign_def by (simp add: less_eq_div_iff_mult_less_eq)
  moreover have "unat x = q * 2 ^ 52 + f64_fraction x" by (simp add: q_def f64_fraction_def)
  moreover have "f64_exponent x = q mod 2 ^ 11" by (simp add: q_def f64_exponent_def)
  ultimately show ?thesis using q by (cases "2 ^ 11 \<le> q") simp_all
qed

lemma f64_make_parts: "f64_make (f64_sign x) (f64_exponent x) (f64_fraction x) = x"
  unfolding f64_make_def f64_parts [of x, symmetric] by simp

lemma f64_fraction_less: "f64_fraction x < 2 ^ 52"
  by (simp add: f64_fraction_def)

lemma top_bit_unique: "2 ^ p \<le> m \<Longrightarrow> m < 2 ^ Suc p \<Longrightarrow> top_bit m = p"
proof (induction p arbitrary: m)
  case 0
  then show ?case by (subst top_bit.simps) simp
next
  case (Suc p)
  have "(2::nat) \<le> 2 ^ Suc p" by simp
  then have "2 \<le> m" using Suc.prems by linarith
  moreover have "top_bit (m div 2) = p" using Suc.prems by (intro Suc.IH) simp_all
  ultimately show ?case by (subst top_bit.simps) simp
qed

lemma top_bit_bounds: "0 < m \<Longrightarrow> 2 ^ top_bit m \<le> m \<and> m < 2 ^ Suc (top_bit m)"
proof (induction m rule: top_bit.induct)
  case (1 m)
  show ?case
  proof (cases "m < 2")
    case True
    with 1(2) show ?thesis by (subst (1 2) top_bit.simps) simp
  next
    case False
    with 1(1) have ih: "2 ^ top_bit (m div 2) \<le> m div 2" "m div 2 < 2 ^ Suc (top_bit (m div 2))" by simp_all
    have eq: "top_bit m = Suc (top_bit (m div 2))" using False by (subst top_bit.simps) simp
    show ?thesis unfolding eq using ih by (auto simp: power_Suc)
  qed
qed

lemma f64_rounded_small: "m < 2 ^ 53 \<Longrightarrow> f64_rounded m = m"
proof (cases "m = 0")
  case False
  assume m: "m < 2 ^ 53"
  have "top_bit m \<le> 52"
  proof (rule ccontr)
    assume "\<not> top_bit m \<le> 52"
    then have "(2::nat) ^ 53 \<le> 2 ^ top_bit m" by (intro power_increasing) simp_all
    with top_bit_bounds [of m] False m show False by linarith
  qed
  then show ?thesis by (simp add: f64_rounded_def)
qed (simp add: f64_rounded_def top_bit.simps)

text \<open>An integral value below \<^verbatim>\<open>2^52\<close> is its magnitude written back with its sign.\<close>

lemma f64_magnitude_back:
  assumes "f64_magnitude x = Some n" and "0 < n" and "n < 2 ^ 52"
  shows "f64_of_nat (f64_sign x) n = x"
proof -
  let ?e = "f64_exponent x" and ?f = "f64_fraction x"
  have f: "?f < 2 ^ 52" by (rule f64_fraction_less)
  have e0: "?e \<noteq> 0"
  proof
    assume e: "?e = 0"
    with assms(1) have "2 ^ 1074 dvd ?f" "n = ?f div 2 ^ 1074"
      by (auto simp: f64_magnitude_def f64_mantissa_def is_finite_def Let_def split: if_splits)
    moreover have "(2::nat) ^ 52 \<le> 2 ^ 1074" by (intro power_increasing) simp_all
    ultimately show False using f assms(2) by (simp add: div_less)
  qed
  define m where "m = 2 ^ 52 + ?f"
  have m: "2 ^ 52 \<le> m" "m < 2 ^ 53" using f by (simp_all add: m_def)
  have "\<not> 1075 \<le> ?e"
  proof
    assume "1075 \<le> ?e"
    with assms(1) e0 have "n = m * 2 ^ (?e - 1075)"
      by (auto simp: f64_magnitude_def f64_mantissa_def m_def Let_def split: if_splits)
    then have "m \<le> n" by simp
    with m(1) assms(3) show False by linarith
  qed
  then obtain k where k: "?e + k = 1075" by (metis le_add_diff_inverse nat_le_linear)
  then have ek: "1075 - ?e = k" "0 < k" using \<open>\<not> 1075 \<le> ?e\<close> by auto
  with assms(1) e0 \<open>\<not> 1075 \<le> ?e\<close> have "m mod 2 ^ k = 0" "n = m div 2 ^ k"
    by (auto simp: f64_magnitude_def f64_mantissa_def m_def Let_def split: if_splits)
  then have mn: "m = n * 2 ^ k" by (metis add.right_neutral div_mult_mod_eq)
  have "k \<le> 52"
  proof (rule ccontr)
    assume "\<not> k \<le> 52"
    then have "(2::nat) ^ 53 \<le> 2 ^ k" by (intro power_increasing) simp_all
    also have "\<dots> \<le> n * 2 ^ k" using assms(2) by simp
    finally show False using mn m(2) by linarith
  qed
  then obtain p where p: "52 = p + k" by (metis le_add_diff_inverse2)
  have "2 ^ p \<le> n" "n < 2 ^ Suc p"
  proof -
    have "2 ^ p * 2 ^ k \<le> n * 2 ^ k" using m(1) unfolding mn p power_add .
    then show "2 ^ p \<le> n" by simp
    have "53 = Suc p + k" using p by simp
    then have "n * 2 ^ k < 2 ^ Suc p * 2 ^ k" using m(2) unfolding mn by (simp only: power_add)
    then show "n < 2 ^ Suc p" by simp
  qed
  then have tb: "top_bit n = p" by (rule top_bit_unique)
  have "n < 2 ^ 53" using assms(3) by simp
  moreover have "52 - p = k" "p \<le> 52" using p by simp_all
  moreover have "n * 2 ^ k - 2 ^ 52 = ?f" using mn m_def by simp
  moreover have "nat (int p + 0 + 1023) = ?e" using p k by linarith
  ultimately have "f64_of_nat (f64_sign x) n = f64_make (f64_sign x) ?e ?f"
    using assms(2) by (simp add: f64_of_nat_def f64_rounded_small f64_dyadic_def tb Let_def)
  then show ?thesis by (simp add: f64_make_parts)
qed

lemma f64_magnitude_zero: "f64_magnitude x = Some 0 \<Longrightarrow> x = f64_make (f64_sign x) 0 0"
proof -
  assume z: "f64_magnitude x = Some 0"
  let ?m = "f64_mantissa x" and ?e = "if f64_exponent x = 0 then 1 else f64_exponent x"
  have "?m = 0"
  proof (cases "1075 \<le> ?e")
    case True
    with z show ?thesis unfolding f64_magnitude_def Let_def by (auto split: if_splits)
  next
    case False
    with z have "?m mod 2 ^ (1075 - ?e) = 0" "?m div 2 ^ (1075 - ?e) = 0"
      unfolding f64_magnitude_def Let_def by (auto split: if_splits)
    then show ?thesis by (metis div_mult_mod_eq mult_zero_left add_0)
  qed
  then have "f64_exponent x = 0" "f64_fraction x = 0" by (auto simp: f64_mantissa_def split: if_splits)
  then show ?thesis using f64_make_parts [of x] by simp
qed

end
