(* ===== verification/Cbor.thy ===== *)
theory Cbor
  imports Float64
begin

unbundle bit_operations_syntax

text \<open>
  The CBOR codec of the conversation engine (\<^verbatim>\<open>kernel/conversations/cbor.rs\<close>,
  \<^verbatim>\<open>cbor_decode.rs\<close>): the value type with the header widths it keeps, the encoder, and the
  reader with its depth limit. A \<^verbatim>\<open>Reader\<close> is the number of bytes read and the bytes left; a
  \<^verbatim>\<open>String\<close> is its UTF-8 bytes. The text of an error is reduced to what it reports.
\<close>

type_synonym octet = "8 word"

datatype width = Inline | One | Two | Four | Eight

datatype cvalue =
    Uint "64 word" width
  | Nint "64 word" width
  | Bytes "octet list"
  | Text "octet list"
  | Array "cvalue list"
  | Map "(cvalue \<times> cvalue) list" width
  | Tag "64 word" cvalue
  | Bool bool
  | Null
  | Undefined
  | Float f64

section \<open>Big-endian bytes\<close>

primrec be_bytes :: "nat \<Rightarrow> nat \<Rightarrow> octet list" where
  "be_bytes 0 n = []"
| "be_bytes (Suc k) n = be_bytes k (n div 256) @ [word_of_nat n]"

definition of_be :: "octet list \<Rightarrow> nat" where
  "of_be bs = foldl (\<lambda>a b. a * 256 + unat b) 0 bs"

section \<open>The encoder (cbor.rs)\<close>

definition minimal :: "64 word \<Rightarrow> width" where
  "minimal n =
     (if unat n \<le> 23 then Inline
      else if unat n \<le> 0xff then One
      else if unat n \<le> 0xffff then Two
      else if unat n \<le> 0xffffffff then Four
      else Eight)"

definition head :: "octet \<Rightarrow> 64 word \<Rightarrow> width \<Rightarrow> octet list" where
  "head major n w =
     (let m = push_bit 5 major
      in case w of
           Inline \<Rightarrow> [m OR word_of_nat (unat n)]
         | One \<Rightarrow> [m OR 24, word_of_nat (unat n)]
         | Two \<Rightarrow> (m OR 25) # be_bytes 2 (unat n)
         | Four \<Rightarrow> (m OR 26) # be_bytes 4 (unat n)
         | Eight \<Rightarrow> (m OR 27) # be_bytes 8 (unat n))"

definition head_len :: "octet \<Rightarrow> nat \<Rightarrow> octet list" where
  "head_len major n = head major (word_of_nat n) (minimal (word_of_nat n))"

primrec encode :: "cvalue \<Rightarrow> octet list" where
  "encode (Uint n w) = head 0 n w"
| "encode (Nint n w) = head 1 n w"
| "encode (Bytes b) = head_len 2 (length b) @ b"
| "encode (Text t) = head_len 3 (length t) @ t"
| "encode (Array items) = head_len 4 (length items) @ concat (map encode items)"
| "encode (Map entries w) =
     head 5 (word_of_nat (length entries)) w @
     concat (map (\<lambda>(k, v). k @ v) (map (map_prod encode encode) entries))"
| "encode (Tag tag inner) = head 6 tag (minimal tag) @ encode inner"
| "encode (Bool b) = [if b then 0xf5 else 0xf4]"
| "encode Null = [0xf6]"
| "encode Undefined = [0xf7]"
| "encode (Float f) = 0xfb # be_bytes 8 (unat f)"

section \<open>Values as JavaScript has them\<close>

definition bigint :: "64 word \<Rightarrow> cvalue" where "bigint v = Uint v Eight"

text \<open>
  \<^verbatim>\<open>Value::number\<close>: a finite value with no fraction that is in the range of \<^verbatim>\<open>u32\<close> or
  \<^verbatim>\<open>i32\<close> is an integer, any other a float.
\<close>

definition number :: "f64 \<Rightarrow> cvalue" where
  "number x =
     (case f64_int x of
        None \<Rightarrow> Float x
      | Some i \<Rightarrow>
          if 0 \<le> i \<and> i \<le> int u32_max
            then (let n = word_of_nat (nat i) in Uint n (minimal n))
          else if - (2 ^ 31) \<le> i \<and> i < 0
            then (let n = word_of_nat (nat (- 1 - i)) in Nint n (minimal n))
          else Float x)"

definition object :: "(octet list \<times> cvalue) list \<Rightarrow> cvalue" where
  "object fields = Map (map (\<lambda>(k, v). (Text k, v)) fields) Two"

definition cget :: "cvalue \<Rightarrow> octet list \<Rightarrow> cvalue option" where
  "cget v key =
     (case v of
        Map entries _ \<Rightarrow> map_option snd (List.find (\<lambda>(k, _). k = Text key) entries)
      | _ \<Rightarrow> None)"

definition as_str :: "cvalue \<Rightarrow> octet list option" where
  "as_str v = (case v of Text t \<Rightarrow> Some t | _ \<Rightarrow> None)"

definition as_number :: "cvalue \<Rightarrow> f64 option" where
  "as_number v =
     (case v of
        Uint n w \<Rightarrow> if w \<noteq> Eight then Some (f64_of_nat False (unat n)) else None
      | Nint n w \<Rightarrow> if w \<noteq> Eight then Some (f64_neg_succ (unat n)) else None
      | Float f \<Rightarrow> Some f
      | _ \<Rightarrow> None)"

definition as_bigint :: "cvalue \<Rightarrow> 64 word option" where
  "as_bigint v = (case v of Uint n w \<Rightarrow> if w = Eight then Some n else None | _ \<Rightarrow> None)"

definition as_bool :: "cvalue \<Rightarrow> bool option" where
  "as_bool v = (case v of Bool b \<Rightarrow> Some b | _ \<Rightarrow> None)"

section \<open>UTF-8 (std::str::from_utf8)\<close>

definition continuation :: "octet \<Rightarrow> bool" where
  "continuation b \<longleftrightarrow> 0x80 \<le> unat b \<and> unat b \<le> 0xbf"

fun utf8_ok :: "octet list \<Rightarrow> bool" where
  "utf8_ok [] = True"
| "utf8_ok (a # bs) =
     (let x = unat a
      in if x < 0x80 then utf8_ok bs
         else if 0xc2 \<le> x \<and> x \<le> 0xdf then
           (case bs of b # bs' \<Rightarrow> continuation b \<and> utf8_ok bs' | _ \<Rightarrow> False)
         else if 0xe0 \<le> x \<and> x \<le> 0xef then
           (case bs of b # c # bs' \<Rightarrow>
              continuation b \<and> continuation c \<and> (x = 0xe0 \<longrightarrow> 0xa0 \<le> unat b) \<and>
              (x = 0xed \<longrightarrow> unat b \<le> 0x9f) \<and> utf8_ok bs'
            | _ \<Rightarrow> False)
         else if 0xf0 \<le> x \<and> x \<le> 0xf4 then
           (case bs of b # c # d # bs' \<Rightarrow>
              continuation b \<and> continuation c \<and> continuation d \<and> (x = 0xf0 \<longrightarrow> 0x90 \<le> unat b) \<and>
              (x = 0xf4 \<longrightarrow> unat b \<le> 0x8f) \<and> utf8_ok bs'
            | _ \<Rightarrow> False)
         else False)"

section \<open>The reader (cbor_decode.rs)\<close>

definition MAX_DEPTH :: nat where "MAX_DEPTH = 64"

datatype decode_error =
    Truncated nat | ReservedLength nat | LengthExceeds "64 word" nat | TooDeep
  | InvalidUtf8 | UnsupportedSimple nat | TrailingBytes nat

type_synonym reader = "nat \<times> octet list"

definition take_bytes :: "reader \<Rightarrow> nat \<Rightarrow> decode_error + octet list \<times> reader" where
  "take_bytes r n =
     (let (at, rest) = r
      in if n \<le> length rest then Inr (take n rest, (at + n, drop n rest)) else Inl (Truncated at))"

definition argument :: "reader \<Rightarrow> octet \<Rightarrow> decode_error + (64 word \<times> width) \<times> reader" where
  "argument r info =
     (let i = unat info
      in if i \<le> 23 then Inr ((word_of_nat i, Inline), r)
         else if i = 24 then and_then (take_bytes r 1) (\<lambda>(bs, r). Inr ((word_of_nat (of_be bs), One), r))
         else if i = 25 then and_then (take_bytes r 2) (\<lambda>(bs, r). Inr ((word_of_nat (of_be bs), Two), r))
         else if i = 26 then and_then (take_bytes r 4) (\<lambda>(bs, r). Inr ((word_of_nat (of_be bs), Four), r))
         else if i = 27 then and_then (take_bytes r 8) (\<lambda>(bs, r). Inr ((word_of_nat (of_be bs), Eight), r))
         else Inl (ReservedLength i))"

definition length_arg :: "reader \<Rightarrow> octet \<Rightarrow> decode_error + (nat \<times> width) \<times> reader" where
  "length_arg r info =
     and_then (argument r info) (\<lambda>((n, w), r).
       let left = length (snd r)
       in if unat n > left then Inl (LengthExceeds n left) else Inr ((unat n, w), r))"

text \<open>The NaN an arithmetic expression or a widening gives is the platform's choice.\<close>

record nan_choice =
  half_nan :: "nat \<Rightarrow> f64"
  single_nan :: "nat \<Rightarrow> f64"

definition half :: "nan_choice \<Rightarrow> nat \<Rightarrow> f64" where
  "half nans bits =
     (let sign = (bits div 2 ^ 15 mod 2 = 1);
          exponent = bits div 2 ^ 10 mod 2 ^ 5;
          fraction = bits mod 2 ^ 10
      in if exponent = 0 then f64_dyadic sign fraction (- 24)
         else if exponent = 31 then (if fraction = 0 then f64_infinity sign else half_nan nans bits)
         else f64_dyadic sign (2 ^ 10 + fraction) (int exponent - 15 - 10))"

text \<open>\<^verbatim>\<open>f32::from_be_bytes(..) as f64\<close>.\<close>

definition single :: "nan_choice \<Rightarrow> nat \<Rightarrow> f64" where
  "single nans bits =
     (let sign = (bits div 2 ^ 31 mod 2 = 1);
          exponent = bits div 2 ^ 23 mod 2 ^ 8;
          fraction = bits mod 2 ^ 23
      in if exponent = 0 then f64_dyadic sign fraction (- 149)
         else if exponent = 255 then (if fraction = 0 then f64_infinity sign else single_nan nans bits)
         else f64_dyadic sign (2 ^ 23 + fraction) (int exponent - 127 - 23))"

definition simple :: "nan_choice \<Rightarrow> reader \<Rightarrow> octet \<Rightarrow> decode_error + cvalue \<times> reader" where
  "simple nans r info =
     (let i = unat info
      in if i = 20 then Inr (Bool False, r)
         else if i = 21 then Inr (Bool True, r)
         else if i = 22 then Inr (Null, r)
         else if i = 23 then Inr (Undefined, r)
         else if i = 25 then and_then (take_bytes r 2) (\<lambda>(bs, r). Inr (Float (half nans (of_be bs)), r))
         else if i = 26 then and_then (take_bytes r 4) (\<lambda>(bs, r). Inr (Float (single nans (of_be bs)), r))
         else if i = 27 then and_then (take_bytes r 8) (\<lambda>(bs, r). Inr (Float (word_of_nat (of_be bs)), r))
         else Inl (UnsupportedSimple i))"

text \<open>
  \<^verbatim>\<open>Reader::value\<close>, with the two counted loops of its array and map arms. The depth limit
  bounds the recursion and the count each loop.
\<close>

function (sequential) read_value :: "nan_choice \<Rightarrow> nat \<Rightarrow> reader \<Rightarrow> decode_error + cvalue \<times> reader"
  and read_items :: "nan_choice \<Rightarrow> nat \<Rightarrow> nat \<Rightarrow> reader \<Rightarrow> decode_error + cvalue list \<times> reader"
  and read_entries :: "nan_choice \<Rightarrow> nat \<Rightarrow> nat \<Rightarrow> reader \<Rightarrow> decode_error + (cvalue \<times> cvalue) list \<times> reader"
where
  "read_value nans depth r =
     (if depth > MAX_DEPTH then Inl TooDeep
      else and_then (take_bytes r 1) (\<lambda>(initial, r).
        let major = unat (drop_bit 5 (hd initial)); info = hd initial AND 0x1f
        in if major = 0 then and_then (argument r info) (\<lambda>((n, w), r). Inr (Uint n w, r))
           else if major = 1 then and_then (argument r info) (\<lambda>((n, w), r). Inr (Nint n w, r))
           else if major = 2 then
             and_then (length_arg r info) (\<lambda>((n, _), r).
               and_then (take_bytes r n) (\<lambda>(bs, r). Inr (Bytes bs, r)))
           else if major = 3 then
             and_then (length_arg r info) (\<lambda>((n, _), r).
               and_then (take_bytes r n) (\<lambda>(bs, r).
                 if utf8_ok bs then Inr (Text bs, r) else Inl InvalidUtf8))
           else if major = 4 then
             and_then (length_arg r info) (\<lambda>((n, _), r).
               and_then (read_items nans n (depth + 1) r) (\<lambda>(items, r). Inr (Array items, r)))
           else if major = 5 then
             and_then (length_arg r info) (\<lambda>((n, w), r).
               and_then (read_entries nans n (depth + 1) r) (\<lambda>(entries, r). Inr (Map entries w, r)))
           else if major = 6 then
             and_then (argument r info) (\<lambda>((tag, _), r).
               and_then (read_value nans (depth + 1) r) (\<lambda>(v, r). Inr (Tag tag v, r)))
           else simple nans r info))"
| "read_items nans 0 depth r = Inr ([], r)"
| "read_items nans (Suc n) depth r =
     and_then (read_value nans depth r) (\<lambda>(v, r).
       and_then (read_items nans n depth r) (\<lambda>(vs, r). Inr (v # vs, r)))"
| "read_entries nans 0 depth r = Inr ([], r)"
| "read_entries nans (Suc n) depth r =
     and_then (read_value nans depth r) (\<lambda>(k, r).
       and_then (read_value nans depth r) (\<lambda>(v, r).
         and_then (read_entries nans n depth r) (\<lambda>(es, r). Inr ((k, v) # es, r))))"
  by pat_completeness auto

termination
  by (relation "measures [(\<lambda>x. case x of Inl (_, depth, _) \<Rightarrow> 66 - depth
                              | Inr (Inl (_, _, depth, _)) \<Rightarrow> 66 - depth
                              | Inr (Inr (_, _, depth, _)) \<Rightarrow> 66 - depth),
                          (\<lambda>x. case x of Inl _ \<Rightarrow> 0
                              | Inr (Inl (_, n, _, _)) \<Rightarrow> n + 1 | Inr (Inr (_, n, _, _)) \<Rightarrow> n + 1)]")
     (auto simp: MAX_DEPTH_def)

declare read_value.simps [simp del]

definition decode :: "nan_choice \<Rightarrow> octet list \<Rightarrow> decode_error + cvalue" where
  "decode nans bytes =
     and_then (read_value nans 0 (0, bytes)) (\<lambda>(v, (at, rest)).
       if rest \<noteq> [] then Inl (TrailingBytes (length rest)) else Inr v)"

section \<open>Headers\<close>

lemma of_be_snoc [simp]: "of_be (bs @ [b]) = of_be bs * 256 + unat b"
  by (simp add: of_be_def)

lemma of_be_Nil [simp]: "of_be [] = 0"
  by (simp add: of_be_def)

lemma length_be_bytes [simp]: "length (be_bytes k n) = k"
  by (induction k arbitrary: n) simp_all

lemma unat_octet [simp]: "unat (word_of_nat n :: octet) = n mod 256"
  by (simp add: unsigned_of_nat take_bit_eq_mod)

lemma unat_ucast_octet [simp]: "unat (ucast (n :: 64 word) :: octet) = unat n mod 256"
  by (simp add: unsigned_ucast_eq take_bit_eq_mod)

lemma of_be_be_bytes: "of_be (be_bytes k n) = n mod 256 ^ k"
proof (induction k arbitrary: n)
  case (Suc k)
  have "n mod (256 * 256 ^ k) = 256 * (n div 256 mod 256 ^ k) + n mod 256" by (rule mod_mult2_eq)
  with Suc show ?case by simp
qed simp

lemma be_bytes_of_be: "be_bytes (length bs) (of_be bs) = bs"
proof (induction bs rule: rev_induct)
  case (snoc b bs)
  have b: "unat b < 256" using unsigned_less [of b] by simp
  then have "(of_be bs * 256 + unat b) div 256 = of_be bs" by simp
  moreover have "word_of_nat (of_be bs * 256 + unat b) = b"
    unfolding word_unat_eq_iff unat_octet using b by simp
  ultimately show ?case using snoc by (simp del: of_nat_add)
qed simp

lemma of_be_less: "of_be bs < 256 ^ length bs"
proof (induction bs rule: rev_induct)
  case (snoc b bs)
  have "unat b < 256" using unsigned_less [of b] by simp
  moreover have "of_be bs * 256 + 256 \<le> 256 ^ length bs * 256" using snoc by simp
  ultimately show ?case by simp
qed simp

text \<open>A number a header of this width can carry.\<close>

definition fits :: "64 word \<Rightarrow> width \<Rightarrow> bool" where
  "fits n w \<longleftrightarrow>
     (case w of Inline \<Rightarrow> unat n < 24 | One \<Rightarrow> unat n < 2 ^ 8 | Two \<Rightarrow> unat n < 2 ^ 16
      | Four \<Rightarrow> unat n < 2 ^ 32 | Eight \<Rightarrow> True)"

lemma fits_minimal [simp]: "fits n (minimal n)"
  by (simp add: fits_def minimal_def)

lemma drop_initial:
  fixes m i :: octet
  assumes "unat m < 8" "unat i < 32"
  shows "drop_bit 5 (push_bit 5 m OR i) = m" "(push_bit 5 m OR i) AND 31 = i"
proof -
  have m: "take_bit 3 m = m" and i: "take_bit 5 i = i"
    using assms by (simp_all add: word_unat_eq_iff unsigned_take_bit_eq take_bit_nat_eq_self)
  have mb: "n < 3" if "bit m n" for n using m that by (metis bit_take_bit_iff)
  have ib: "\<not> bit i n" if "5 \<le> n" for n using i that by (metis bit_take_bit_iff not_less)
  show "drop_bit 5 (push_bit 5 m OR i) = m"
    by (rule bit_word_eqI) (use mb ib in \<open>auto simp: bit_simps\<close>)
  have "(31 :: octet) = mask 5" by (simp add: mask_eq_exp_minus_1)
  then have "(push_bit 5 m OR i) AND 31 = take_bit 5 (push_bit 5 m OR i)"
    by (simp only: take_bit_eq_mask)
  also have "\<dots> = i" using i by (simp add: take_bit_or take_bit_push_bit)
  finally show "(push_bit 5 m OR i) AND 31 = i" .
qed

lemma take_bytes_append: "take_bytes (at, bs @ rest) (length bs) = Inr (bs, (at + length bs, rest))"
  by (simp add: take_bytes_def)

lemma take_bytes_eq: "length bs = n \<Longrightarrow> take_bytes (at, bs @ rest) n = Inr (bs, (at + n, rest))"
  using take_bytes_append by blast

lemma take_bytes_Cons [simp]: "take_bytes (at, b # rest) (Suc 0) = Inr ([b], (at + 1, rest))"
  by (simp add: take_bytes_def)

text \<open>Reading a header back: its first byte gives the major type, the rest its argument.\<close>

lemma head_read:
  assumes "fits n w" and "unat major < 8"
  obtains b tl where "head major n w = b # tl" "drop_bit 5 b = major"
    "argument (at + 1, tl @ rest) (b AND 31) = Inr ((n, w), (at + length (head major n w), rest))"
proof (cases w)
  case Inline
  with assms have n: "unat n < 24" by (simp add: fits_def)
  then have i: "unat (word_of_nat (unat n) :: octet) = unat n" "unat (word_of_nat (unat n) :: octet) < 32" by simp_all
  show thesis
    by (rule that [of "push_bit 5 major OR word_of_nat (unat n)" "[]"])
       (use n i drop_initial [OF assms(2) i(2)] Inline in \<open>simp_all add: head_def argument_def\<close>)
next
  case One
  with assms have n: "unat n < 256" by (simp add: fits_def)
  have ob: "of_be [word_of_nat (unat n)] = unat n" using n by (simp add: of_be_def)
  show thesis
    by (rule that [of "push_bit 5 major OR 24" "[word_of_nat (unat n)]"])
       (use n ob drop_initial [OF assms(2), of 24] One in \<open>simp_all add: head_def argument_def\<close>)
next
  case Two
  with assms have n: "unat n < 65536" by (simp add: fits_def)
  show thesis
    by (rule that [of "push_bit 5 major OR 25" "be_bytes 2 (unat n)"])
       (use n drop_initial [OF assms(2), of 25] Two in
         \<open>simp_all add: head_def argument_def of_be_be_bytes take_bytes_eq del: be_bytes.simps\<close>)
next
  case Four
  with assms have n: "unat n < 4294967296" by (simp add: fits_def)
  show thesis
    by (rule that [of "push_bit 5 major OR 26" "be_bytes 4 (unat n)"])
       (use n drop_initial [OF assms(2), of 26] Four in
         \<open>simp_all add: head_def argument_def of_be_be_bytes take_bytes_eq del: be_bytes.simps\<close>)
next
  case Eight
  have n: "unat n < 18446744073709551616" using unsigned_less [of n] by simp
  show thesis
    by (rule that [of "push_bit 5 major OR 27" "be_bytes 8 (unat n)"])
       (use n drop_initial [OF assms(2), of 27] Eight in
         \<open>simp_all add: head_def argument_def of_be_be_bytes take_bytes_eq del: be_bytes.simps\<close>)
qed

section \<open>Well-formed values\<close>

text \<open>
  What the reader can return and the writer can be read back from, at a depth: numbers fit their
  header's width, texts are UTF-8, lengths fit a \<^verbatim>\<open>u64\<close>, and nothing is nested below the
  limit.
\<close>

fun value_ok :: "nat \<Rightarrow> cvalue \<Rightarrow> bool" where
  "value_ok d (Uint n w) \<longleftrightarrow> d \<le> MAX_DEPTH \<and> fits n w"
| "value_ok d (Nint n w) \<longleftrightarrow> d \<le> MAX_DEPTH \<and> fits n w"
| "value_ok d (Bytes b) \<longleftrightarrow> d \<le> MAX_DEPTH \<and> length b < 2 ^ 64"
| "value_ok d (Text t) \<longleftrightarrow> d \<le> MAX_DEPTH \<and> length t < 2 ^ 64 \<and> utf8_ok t"
| "value_ok d (Array items) \<longleftrightarrow>
     d \<le> MAX_DEPTH \<and> length items < 2 ^ 64 \<and> (\<forall>v \<in> set items. value_ok (d + 1) v)"
| "value_ok d (Map entries w) \<longleftrightarrow>
     d \<le> MAX_DEPTH \<and> length entries < 2 ^ 64 \<and> fits (word_of_nat (length entries)) w \<and>
     (\<forall>e \<in> set entries. value_ok (d + 1) (fst e) \<and> value_ok (d + 1) (snd e))"
| "value_ok d (Tag tag v) \<longleftrightarrow> d \<le> MAX_DEPTH \<and> value_ok (d + 1) v"
| "value_ok d (Bool _) \<longleftrightarrow> d \<le> MAX_DEPTH"
| "value_ok d Null \<longleftrightarrow> d \<le> MAX_DEPTH"
| "value_ok d Undefined \<longleftrightarrow> d \<le> MAX_DEPTH"
| "value_ok d (Float _) \<longleftrightarrow> d \<le> MAX_DEPTH"

text \<open>How many values a value is made of.\<close>

fun nodes :: "cvalue \<Rightarrow> nat" where
  "nodes (Array items) = Suc (sum_list (map nodes items))"
| "nodes (Map entries w) = Suc (sum_list (map (\<lambda>e. nodes (fst e) + nodes (snd e)) entries))"
| "nodes (Tag tag v) = Suc (nodes v)"
| "nodes _ = 1"

lemma value_ok_depth: "value_ok d v \<Longrightarrow> d \<le> MAX_DEPTH"
  by (cases v) simp_all

lemma encode_Map:
  "encode (Map es w) = head 5 (word_of_nat (length es)) w @ concat (map (\<lambda>e. encode (fst e) @ encode (snd e)) es)"
  by (simp add: comp_def case_prod_unfold)

declare encode.simps(6) [simp del]
declare encode_Map [simp]

lemma head_not_Nil [simp]: "head m n w \<noteq> []"
  by (simp add: head_def Let_def split: width.splits)

lemma encode_nonempty [simp]: "encode v \<noteq> []"
  by (cases v) (simp_all add: head_len_def)

lemma nodes_pos: "0 < nodes v"
  by (cases v) simp_all

lemma sum_list_ge_length: "(\<And>x. x \<in> set xs \<Longrightarrow> 1 \<le> f x) \<Longrightarrow> length xs \<le> sum_list (map f xs)"
proof (induction xs)
  case (Cons a xs)
  have "1 \<le> f a" using Cons.prems by simp
  moreover have "length xs \<le> sum_list (map f xs)" using Cons by simp
  ultimately show ?case by simp
qed simp

lemma unat_len: "n < 2 ^ 64 \<Longrightarrow> unat (word_of_nat n :: 64 word) = n"
  by (simp add: unsigned_of_nat take_bit_nat_eq_self)

lemma length_arg_read:
  "argument r info = Inr ((word_of_nat n, w), (at, rest)) \<Longrightarrow> n < 2 ^ 64 \<Longrightarrow> n \<le> length rest \<Longrightarrow>
    length_arg r info = Inr ((n, w), (at, rest))"
  by (simp add: length_arg_def unat_len)

section \<open>Reading back what was written\<close>

text \<open>The first byte of a header, and the argument the reader finds after it.\<close>

lemma read_headE:
  assumes "fits n w" and "unat major < 8"
  obtains b tl where "head major n w = b # tl" "unat (drop_bit 5 b) = unat major"
    "argument (Suc at, tl @ rest) (b AND 31) = Inr ((n, w), (at + Suc (length tl), rest))"
proof -
  from head_read [OF assms, of at rest] obtain b tl where h: "head major n w = b # tl" "drop_bit 5 b = major"
    "argument (at + 1, tl @ rest) (b AND 31) = Inr ((n, w), (at + length (head major n w), rest))" by blast
  show thesis by (rule that [of b tl]) (use h in simp_all)
qed

lemma read_value_step:
  assumes "depth \<le> MAX_DEPTH"
  shows "read_value nans depth (at, b # rest) =
     (let r = (Suc at, rest); major = unat (drop_bit 5 b); info = b AND 0x1f
        in if major = 0 then and_then (argument r info) (\<lambda>((n, w), r). Inr (Uint n w, r))
           else if major = 1 then and_then (argument r info) (\<lambda>((n, w), r). Inr (Nint n w, r))
           else if major = 2 then
             and_then (length_arg r info) (\<lambda>((n, _), r).
               and_then (take_bytes r n) (\<lambda>(bs, r). Inr (Bytes bs, r)))
           else if major = 3 then
             and_then (length_arg r info) (\<lambda>((n, _), r).
               and_then (take_bytes r n) (\<lambda>(bs, r).
                 if utf8_ok bs then Inr (Text bs, r) else Inl InvalidUtf8))
           else if major = 4 then
             and_then (length_arg r info) (\<lambda>((n, _), r).
               and_then (read_items nans n (depth + 1) r) (\<lambda>(items, r). Inr (Array items, r)))
           else if major = 5 then
             and_then (length_arg r info) (\<lambda>((n, w), r).
               and_then (read_entries nans n (depth + 1) r) (\<lambda>(entries, r). Inr (Map entries w, r)))
           else if major = 6 then
             and_then (argument r info) (\<lambda>((tag, _), r).
               and_then (read_value nans (depth + 1) r) (\<lambda>(v, r). Inr (Tag tag v, r)))
           else simple nans r info)"
  using assms by (subst read_value.simps) (simp add: take_bytes_def Let_def)

lemma read_items_back:
  "(\<And>v at rest. v \<in> set vs \<Longrightarrow> read_value nans d (at, encode v @ rest) = Inr (v, (at + length (encode v), rest))) \<Longrightarrow>
   read_items nans (length vs) d (at, concat (map encode vs) @ rest) =
     Inr (vs, (at + length (concat (map encode vs)), rest))"
  by (induction vs arbitrary: at) (simp_all add: add.assoc)

lemma read_entries_back:
  "(\<And>e at rest. e \<in> set es \<Longrightarrow> read_value nans d (at, encode (fst e) @ rest) = Inr (fst e, (at + length (encode (fst e)), rest))) \<Longrightarrow>
   (\<And>e at rest. e \<in> set es \<Longrightarrow> read_value nans d (at, encode (snd e) @ rest) = Inr (snd e, (at + length (encode (snd e)), rest))) \<Longrightarrow>
   read_entries nans (length es) d (at, concat (map (\<lambda>e. encode (fst e) @ encode (snd e)) es) @ rest) =
     Inr (es, (at + length (concat (map (\<lambda>e. encode (fst e) @ encode (snd e)) es)), rest))"
  by (induction es arbitrary: at) (simp_all add: add.assoc)

lemma length_concat_ge: "(\<And>x. x \<in> set xs \<Longrightarrow> 0 < length (f x)) \<Longrightarrow> length xs \<le> length (concat (map f xs))"
  unfolding length_concat map_map comp_def by (intro sum_list_ge_length) (simp add: Suc_le_eq)


lemma read_value_back:
  "value_ok d v \<Longrightarrow> read_value nans d (at, encode v @ rest) = Inr (v, (at + length (encode v), rest))"
proof (induction v arbitrary: d at rest)
  case (Uint n w)
  then have "fits n w" "d \<le> MAX_DEPTH" by simp_all
  then show ?case by (elim read_headE [of n w 0 at rest]) (simp_all add: read_value_step)
next
  case (Nint n w)
  then have "fits n w" "d \<le> MAX_DEPTH" by simp_all
  then show ?case by (elim read_headE [of n w 1 at rest]) (simp_all add: read_value_step)
next
  case (Bytes b)
  let ?n = "word_of_nat (length b) :: 64 word"
  have ok: "d \<le> MAX_DEPTH" "length b < 2 ^ 64" using Bytes by simp_all
  from read_headE [OF fits_minimal, of 2 ?n at "b @ rest"] obtain h tl where
    "head 2 ?n (minimal ?n) = h # tl" "unat (drop_bit 5 h) = 2"
    "argument (Suc at, tl @ b @ rest) (h AND 31) = Inr ((?n, minimal ?n), (at + Suc (length tl), b @ rest))" by auto
  with ok show ?case
    by (simp add: read_value_step head_len_def length_arg_read take_bytes_append)
next
  case (Text b)
  let ?n = "word_of_nat (length b) :: 64 word"
  have ok: "d \<le> MAX_DEPTH" "length b < 2 ^ 64" "utf8_ok b" using Text by simp_all
  from read_headE [OF fits_minimal, of 3 ?n at "b @ rest"] obtain h tl where
    "head 3 ?n (minimal ?n) = h # tl" "unat (drop_bit 5 h) = 3"
    "argument (Suc at, tl @ b @ rest) (h AND 31) = Inr ((?n, minimal ?n), (at + Suc (length tl), b @ rest))" by auto
  with ok show ?case
    by (simp add: read_value_step head_len_def length_arg_read take_bytes_append)
next
  case (Array vs)
  let ?n = "word_of_nat (length vs) :: 64 word" and ?b = "concat (map encode vs)"
  have ok: "d \<le> MAX_DEPTH" "length vs < 2 ^ 64" "\<And>v. v \<in> set vs \<Longrightarrow> value_ok (d + 1) v" using Array.prems by simp_all
  from read_headE [OF fits_minimal, of 4 ?n at "?b @ rest"] obtain h tl where
    "head 4 ?n (minimal ?n) = h # tl" "unat (drop_bit 5 h) = 4"
    "argument (Suc at, tl @ ?b @ rest) (h AND 31) = Inr ((?n, minimal ?n), (at + Suc (length tl), ?b @ rest))" by auto
  moreover have "length vs \<le> length ?b" by (intro length_concat_ge) simp
  moreover have "read_items nans (length vs) (d + 1) (at + Suc (length tl), ?b @ rest) =
      Inr (vs, (at + Suc (length tl) + length ?b, rest))"
    using Array.IH ok by (intro read_items_back) blast
  ultimately show ?case using ok(1,2)
    by (simp add: read_value_step head_len_def length_arg_read)
next
  case (Map es w)
  let ?n = "word_of_nat (length es) :: 64 word" and ?b = "concat (map (\<lambda>e. encode (fst e) @ encode (snd e)) es)"
  have ok: "d \<le> MAX_DEPTH" "length es < 2 ^ 64" "fits ?n w"
    "\<And>e. e \<in> set es \<Longrightarrow> value_ok (d + 1) (fst e) \<and> value_ok (d + 1) (snd e)" using Map.prems by simp_all
  from read_headE [OF ok(3), of 5 at "?b @ rest"] obtain h tl where
    "head 5 ?n w = h # tl" "unat (drop_bit 5 h) = 5"
    "argument (Suc at, tl @ ?b @ rest) (h AND 31) = Inr ((?n, w), (at + Suc (length tl), ?b @ rest))" by auto
  moreover have "length es \<le> length ?b"
    by (intro length_concat_ge) simp
  moreover have "read_entries nans (length es) (d + 1) (at + Suc (length tl), ?b @ rest) =
      Inr (es, (at + Suc (length tl) + length ?b, rest))"
    using Map.IH ok(4) by (intro read_entries_back) (auto simp: prod_set_simps)
  ultimately show ?case using ok(1,2)
    by (simp add: read_value_step length_arg_read)
next
  case (Tag tag v)
  from read_headE [OF fits_minimal, of 6 tag at "encode v @ rest"] obtain h tl where
    "head 6 tag (minimal tag) = h # tl" "unat (drop_bit 5 h) = 6"
    "argument (Suc at, tl @ encode v @ rest) (h AND 31) = Inr ((tag, minimal tag), (at + Suc (length tl), encode v @ rest))"
    by auto
  moreover have "read_value nans (d + 1) (at + Suc (length tl), encode v @ rest) =
      Inr (v, (at + Suc (length tl) + length (encode v), rest))"
    using Tag by (intro Tag.IH) simp
  ultimately show ?case using Tag.prems by (simp add: read_value_step)
next
  case (Float f)
  have "unat f < 256 ^ 8" using unsigned_less [of f] by simp
  with Float show ?case
    by (simp add: read_value_step simple_def take_bytes_eq of_be_be_bytes del: be_bytes.simps)
qed (simp_all add: read_value_step simple_def)

section \<open>What the reader returns\<close>

lemma take_bytes_Inr:
  "take_bytes r n = Inr (bs, r') \<Longrightarrow> length bs = n \<and> length (snd r) = n + length (snd r')"
  by (auto simp: take_bytes_def split: prod.splits if_splits)

lemma of_be_fits:
  "length bs = k \<Longrightarrow> k \<le> 8 \<Longrightarrow> unat (word_of_nat (of_be bs) :: 64 word) < 2 ^ (8 * k)"
proof -
  assume k: "length bs = k" "k \<le> 8"
  have "of_be bs < 2 ^ (8 * k)" using of_be_less [of bs] k(1) by (simp add: power_mult)
  moreover have "unat (word_of_nat (of_be bs) :: 64 word) \<le> of_be bs"
    by (simp add: unsigned_of_nat take_bit_nat_less_eq_self)
  ultimately show ?thesis by linarith
qed

lemma argument_Inr:
  assumes "argument r info = Inr ((n, w), r')"
  shows "fits n w \<and> length (snd r') \<le> length (snd r)"
proof -
  have small: "unat (word_of_nat (unat info) :: 64 word) = unat info"
  proof (rule unat_len)
    have "unat info < 256" using unsigned_less [of info] by simp
    then show "unat info < 2 ^ 64" by simp
  qed
  from assms consider "n = word_of_nat (unat info)" "unat info \<le> 23" "w = Inline" "r' = r"
    | k bs where "take_bytes r k = Inr (bs, r')" "n = word_of_nat (of_be bs)"
        "k = 1 \<and> w = One \<or> k = 2 \<and> w = Two \<or> k = 4 \<and> w = Four \<or> k = 8 \<and> w = Eight"
    by (auto simp: argument_def Let_def split: if_splits)
  then show ?thesis
  proof cases
    case 1
    with small show ?thesis unfolding fits_def by simp
  next
    case (2 k bs)
    with of_be_fits [of bs k] take_bytes_Inr [OF 2(1)] show ?thesis by (auto simp: fits_def)
  qed
qed

lemma length_arg_Inr:
  assumes "length_arg r info = Inr ((n, w), r')" and "length (snd r) < 2 ^ 64"
  shows "n < 2 ^ 64 \<and> fits (word_of_nat n) w \<and> n \<le> length (snd r') \<and> length (snd r') \<le> length (snd r)"
proof -
  from assms(1) obtain m where "argument r info = Inr ((m, w), r')" "n = unat m" "unat m \<le> length (snd r')"
    by (auto simp: length_arg_def Let_def split: if_splits)
  with argument_Inr [of r info m w r'] assms(2) show ?thesis by auto
qed

text \<open>What a read at a depth guarantees: a well-formed value that took a byte per node.\<close>

definition reads_ok :: "nan_choice \<Rightarrow> nat \<Rightarrow> bool" where
  "reads_ok nans d \<longleftrightarrow>
     (\<forall>r v r'. read_value nans d r = Inr (v, r') \<longrightarrow> length (snd r) < 2 ^ 64 \<longrightarrow>
        value_ok d v \<and> nodes v + length (snd r') \<le> length (snd r))"

lemma reads_okD:
  "reads_ok nans d \<Longrightarrow> read_value nans d r = Inr (v, r') \<Longrightarrow> length (snd r) < 2 ^ 64 \<Longrightarrow>
    value_ok d v \<and> nodes v + length (snd r') \<le> length (snd r)"
  unfolding reads_ok_def by blast

lemma read_items_sound:
  "read_items nans n d r = Inr (vs, r') \<Longrightarrow> reads_ok nans d \<Longrightarrow> length (snd r) < 2 ^ 64 \<Longrightarrow>
    length vs = n \<and> (\<forall>v \<in> set vs. value_ok d v) \<and> sum_list (map nodes vs) + length (snd r') \<le> length (snd r)"
proof (induction n arbitrary: r vs)
  case (Suc n)
  from Suc.prems(1) obtain v r1 vs1 where v: "read_value nans d r = Inr (v, r1)"
      "read_items nans n d r1 = Inr (vs1, r')" "vs = v # vs1" by (auto split: prod.splits)
  from reads_okD [OF Suc.prems(2) v(1) Suc.prems(3)] have "value_ok d v" "nodes v + length (snd r1) \<le> length (snd r)"
    by simp_all
  moreover from this Suc.prems(3) have "length (snd r1) < 2 ^ 64" by linarith
  note Suc.IH [OF v(2) Suc.prems(2) this]
  ultimately show ?case using v(3) by auto
qed simp

lemma read_entries_sound:
  "read_entries nans n d r = Inr (es, r') \<Longrightarrow> reads_ok nans d \<Longrightarrow> length (snd r) < 2 ^ 64 \<Longrightarrow>
    length es = n \<and> (\<forall>e \<in> set es. value_ok d (fst e) \<and> value_ok d (snd e)) \<and>
    sum_list (map (\<lambda>e. nodes (fst e) + nodes (snd e)) es) + length (snd r') \<le> length (snd r)"
proof (induction n arbitrary: r es)
  case (Suc n)
  from Suc.prems(1) obtain k r1 v r2 es1 where v: "read_value nans d r = Inr (k, r1)"
      "read_value nans d r1 = Inr (v, r2)" "read_entries nans n d r2 = Inr (es1, r')" "es = (k, v) # es1"
    by (auto split: prod.splits)
  from reads_okD [OF Suc.prems(2) v(1) Suc.prems(3)] have k: "value_ok d k" "nodes k + length (snd r1) \<le> length (snd r)"
    by simp_all
  with Suc.prems(3) have "length (snd r1) < 2 ^ 64" by linarith
  with reads_okD [OF Suc.prems(2) v(2)] have w: "value_ok d v" "nodes v + length (snd r2) \<le> length (snd r1)"
    by simp_all
  with \<open>length (snd r1) < 2 ^ 64\<close> have "length (snd r2) < 2 ^ 64" by linarith
  from Suc.IH [OF v(3) Suc.prems(2) this] k w v(4) show ?case by auto
qed simp

lemma simple_sound:
  "simple nans r info = Inr (v, r') \<Longrightarrow> nodes v = 1 \<and> length (snd r') \<le> length (snd r) \<and> (d \<le> MAX_DEPTH \<longrightarrow> value_ok d v)"
  by (auto simp: simple_def Let_def split: if_splits dest: take_bytes_Inr)

lemma read_value_Inr_cases:
  assumes "read_value nans d r = Inr (v, r')"
  obtains r1 info n w where "argument r1 info = Inr ((n, w), r')" "v = Uint n w \<or> v = Nint n w"
      "length (snd r) = Suc (length (snd r1))" "d \<le> MAX_DEPTH"
    | r1 info n w r2 bs where "length_arg r1 info = Inr ((n, w), r2)" "take_bytes r2 n = Inr (bs, r')"
      "v = Bytes bs \<or> v = Text bs \<and> utf8_ok bs" "length (snd r) = Suc (length (snd r1))" "d \<le> MAX_DEPTH"
    | r1 info n w r2 vs where "length_arg r1 info = Inr ((n, w), r2)" "read_items nans n (d + 1) r2 = Inr (vs, r')"
      "v = Array vs" "length (snd r) = Suc (length (snd r1))" "d \<le> MAX_DEPTH"
    | r1 info n w r2 es where "length_arg r1 info = Inr ((n, w), r2)" "read_entries nans n (d + 1) r2 = Inr (es, r')"
      "v = Map es w" "length (snd r) = Suc (length (snd r1))" "d \<le> MAX_DEPTH"
    | r1 info n w r2 u where "argument r1 info = Inr ((n, w), r2)" "read_value nans (d + 1) r2 = Inr (u, r')"
      "v = Tag n u" "length (snd r) = Suc (length (snd r1))" "d \<le> MAX_DEPTH"
    | r1 info where "simple nans r1 info = Inr (v, r')" "length (snd r) = Suc (length (snd r1))" "d \<le> MAX_DEPTH"
proof -
  from assms obtain ini r1 where t: "take_bytes r 1 = Inr (ini, r1)" and d: "d \<le> MAX_DEPTH"
    by (subst (asm) read_value.simps) (auto split: if_splits prod.splits)
  have len: "length (snd r) = Suc (length (snd r1))" using take_bytes_Inr [OF t] by simp
  obtain b where b: "ini = [b]" using take_bytes_Inr [OF t] by (auto simp: length_Suc_conv)
  define m where "m = unat (drop_bit 5 b)"
  note eq = assms [unfolded read_value.simps [of nans d r] t and_then_simps prod.case b list.sel Let_def, folded m_def]
  consider "m = 0 \<or> m = 1" | "m = 2 \<or> m = 3" | "m = 4" | "m = 5" | "m = 6" | "6 < m" by linarith
  then show thesis
  proof cases
    case 1
    with eq d obtain n w where "argument r1 (b AND 31) = Inr ((n, w), r')" "v = Uint n w \<or> v = Nint n w"
      by (auto split: if_splits)
    then show thesis using that(1) len d by blast
  next
    case 2
    with eq d obtain n w r2 bs where "length_arg r1 (b AND 31) = Inr ((n, w), r2)" "take_bytes r2 n = Inr (bs, r')"
        "v = Bytes bs \<or> v = Text bs \<and> utf8_ok bs"
      by (fastforce split: if_splits)
    then show thesis using that(2) len d by blast
  next
    case 3
    with eq d obtain n w r2 vs where "length_arg r1 (b AND 31) = Inr ((n, w), r2)"
        "read_items nans n (d + 1) r2 = Inr (vs, r')" "v = Array vs"
      by (fastforce split: if_splits)
    then show thesis using that(3) len d by blast
  next
    case 4
    with eq d obtain n w r2 es where "length_arg r1 (b AND 31) = Inr ((n, w), r2)"
        "read_entries nans n (d + 1) r2 = Inr (es, r')" "v = Map es w"
      by (fastforce split: if_splits)
    then show thesis using that(4) len d by blast
  next
    case 5
    with eq d obtain n w r2 u where "argument r1 (b AND 31) = Inr ((n, w), r2)"
        "read_value nans (d + 1) r2 = Inr (u, r')" "v = Tag n u"
      by (fastforce split: if_splits)
    then show thesis using that(5) len d by blast
  next
    case 6
    with eq d have "simple nans r1 (b AND 31) = Inr (v, r')" by simp
    then show thesis using that(6) len d by blast
  qed
qed

lemma read_value_sound: "reads_ok nans d"
proof (induction "65 - d" arbitrary: d rule: less_induct)
  case less
  have deeper: "d \<le> MAX_DEPTH \<Longrightarrow> reads_ok nans (d + 1)" using less [of "d + 1"] by (simp add: MAX_DEPTH_def)
  show ?case unfolding reads_ok_def
  proof (intro allI impI)
    fix r v r' assume rv: "read_value nans d r = Inr (v, r')" and len: "length (snd r) < 2 ^ 64"
    from rv show "value_ok d v \<and> nodes v + length (snd r') \<le> length (snd r)"
    proof (cases rule: read_value_Inr_cases)
      case (1 r1 info n w)
      with argument_Inr [OF 1(1)] show ?thesis by auto
    next
      case (2 r1 info n w r2 bs)
      with length_arg_Inr [OF 2(1)] take_bytes_Inr [OF 2(2)] len show ?thesis by auto
    next
      case (3 r1 info n w r2 vs)
      with length_arg_Inr [OF 3(1)] len have l: "n < 2 ^ 64" "length (snd r2) < length (snd r)" by auto
      with len have "length (snd r2) < 2 ^ 64" by linarith
      from read_items_sound [OF 3(2) deeper [OF 3(5)] this] l 3 show ?thesis by auto
    next
      case (4 r1 info n w r2 es)
      with length_arg_Inr [OF 4(1)] len
      have l: "n < 2 ^ 64" "fits (word_of_nat n) w" "length (snd r2) < length (snd r)" by auto
      with len have "length (snd r2) < 2 ^ 64" by linarith
      from read_entries_sound [OF 4(2) deeper [OF 4(5)] this] l 4 show ?thesis by auto
    next
      case (5 r1 info n w r2 u)
      with argument_Inr [OF 5(1)] len have l: "length (snd r2) < length (snd r)" by auto
      with len have "length (snd r2) < 2 ^ 64" by linarith
      from reads_okD [OF deeper [OF 5(5)] 5(2) this] l 5 show ?thesis by auto
    next
      case (6 r1 info)
      with simple_sound [OF 6(1)] show ?thesis by auto
    qed
  qed
qed

lemma decode_Inr:
  assumes "decode nans bs = Inr v" and "length bs < 2 ^ 64"
  shows "value_ok 0 v \<and> nodes v \<le> length bs"
proof -
  from assms(1) obtain at where "read_value nans 0 (0, bs) = Inr (v, (at, []))"
    by (auto simp: decode_def split: if_splits prod.splits)
  from reads_okD [OF read_value_sound this] assms(2) show ?thesis by simp
qed

lemma decode_encode: "value_ok 0 v \<Longrightarrow> decode nans (encode v) = Inr v"
  using read_value_back [of 0 v nans 0 "[]"] by (simp add: decode_def)

section \<open>Numbers and objects\<close>

text \<open>Reading a number back gives the number, negative zero becoming zero.\<close>

definition js_number :: "f64 \<Rightarrow> f64" where
  "js_number x = (if f64_int x = Some 0 then f64_zero else x)"

lemma minimal_not_Eight: "unat n \<le> 0xffffffff \<Longrightarrow> minimal n \<noteq> Eight"
  by (simp add: minimal_def)

lemma as_number_number: "as_number (number x) = Some (js_number x)"
proof (cases "f64_int x")
  case None
  then show ?thesis by (simp add: number_def as_number_def js_number_def)
next
  case (Some i)
  then obtain n where n: "f64_magnitude x = Some n" "i = (if f64_sign x then - int n else int n)"
    by (auto simp: f64_int_def)
  consider "0 \<le> i" "i \<le> 4294967295" | "- (2 ^ 31) \<le> i" "i < 0" | "4294967295 < i \<or> i < - (2 ^ 31)" by linarith
  then show ?thesis
  proof cases
    case 1
    then have len: "nat i \<le> 4294967295" by simp
    then have u: "unat (word_of_nat (nat i) :: 64 word) = nat i" by (intro unat_len) simp
    have "f64_of_nat False (nat i) = js_number x"
    proof (cases "i = 0")
      case True
      then show ?thesis
        using Some by (simp add: js_number_def f64_of_nat_def f64_rounded_def f64_dyadic_def f64_make_def
            f64_zero_def top_bit.simps)
    next
      case False
      with 1 n have "\<not> f64_sign x" "nat i = n" "0 < n" "n < 2 ^ 52" by (auto split: if_splits)
      with f64_magnitude_back [OF n(1)] False Some show ?thesis by (simp add: js_number_def)
    qed
    then show ?thesis
      using Some 1 minimal_not_Eight [of "word_of_nat (nat i)"] u len
      by (simp add: number_def as_number_def Let_def u32_max_def)
  next
    case 2
    with n have s: "f64_sign x" "nat (- 1 - i) + 1 = n" "0 < n" "n < 2 ^ 52" by (auto split: if_splits)
    then have l: "nat (- 1 - i) < 2 ^ 53" "nat (- 1 - i) \<le> 4294967295" using 2 by simp_all
    then have u: "unat (word_of_nat (nat (- 1 - i)) :: 64 word) = nat (- 1 - i)" by (intro unat_len) simp
    have "f64_neg_succ (nat (- 1 - i)) = x"
      unfolding f64_neg_succ_def f64_rounded_small [OF l(1)] s(2)
      using f64_magnitude_back [OF n(1) s(3,4)] s(1) by simp
    then show ?thesis
      using Some 2 minimal_not_Eight [of "word_of_nat (nat (- 1 - i))"] u l(2)
      by (simp add: number_def as_number_def js_number_def Let_def)
  next
    case 3
    with Some show ?thesis by (auto simp: number_def as_number_def js_number_def u32_max_def)
  qed
qed

lemma value_ok_number [simp]: "d \<le> MAX_DEPTH \<Longrightarrow> value_ok d (number x)"
  by (simp add: number_def Let_def split: option.splits)

lemma value_ok_bigint [simp]: "d \<le> MAX_DEPTH \<Longrightarrow> value_ok d (bigint x)"
  by (simp add: bigint_def fits_def)

lemma as_bigint_bigint [simp]: "as_bigint (bigint x) = Some x"
  by (simp add: bigint_def as_bigint_def)

lemma cget_object_Nil [simp]: "cget (object []) key = None"
  by (simp add: cget_def object_def)

lemma cget_object_Cons [simp]:
  "cget (object ((k, v) # fs)) key = (if k = key then Some v else cget (object fs) key)"
  by (simp add: cget_def object_def)

lemma value_ok_object:
  assumes "length fs < 2 ^ 16"
  shows "value_ok d (object fs) \<longleftrightarrow> d \<le> MAX_DEPTH \<and>
    (\<forall>(k, v) \<in> set fs. d + 1 \<le> MAX_DEPTH \<and> length k < 2 ^ 64 \<and> utf8_ok k \<and> value_ok (d + 1) v)"
proof -
  have "unat (word_of_nat (length fs) :: 64 word) = length fs" using assms by (intro unat_len) simp
  with assms show ?thesis by (auto simp: object_def fits_def)
qed

section \<open>Properties\<close>

text \<open>
  C11. What is written is read back: any value whose numbers fit their headers, whose texts are
  UTF-8 and which is nested at most 64 deep is written to bytes that decode to exactly that
  value, whatever the platform's NaNs are. Two such values are written alike only when they are
  equal, and with any byte after it the input is refused with the number of bytes left over.
\<close>

theorem cbor_roundtrip:
  assumes "value_ok 0 v"
  shows "decode nans (encode v) = Inr v \<and>
    (value_ok 0 u \<longrightarrow> (encode u = encode v \<longleftrightarrow> u = v)) \<and>
    (extra \<noteq> [] \<longrightarrow> decode nans (encode v @ extra) = Inl (TrailingBytes (length extra)))"
proof (intro conjI impI)
  show "decode nans (encode v) = Inr v" using assms by (rule decode_encode)
  show "encode u = encode v \<longleftrightarrow> u = v" if "value_ok 0 u"
    using decode_encode [OF that, of nans] decode_encode [OF assms, of nans] by (metis sum.inject(2))
  show "decode nans (encode v @ extra) = Inl (TrailingBytes (length extra))" if "extra \<noteq> []"
    using read_value_back [OF assms, of nans 0 extra] that by (simp add: decode_def)
qed

definition sample_message :: cvalue where
  "sample_message = object [([116, 121, 112, 101], Text [72, 105]), ([97], bigint 7)]"

definition quiet_nans :: nan_choice where
  "quiet_nans = \<lparr>half_nan = (\<lambda>_. 0x7ff8000000000000), single_nan = (\<lambda>_. 0x7ff8000000000000)\<rparr>"

theorem cbor_roundtrip_witness:
  "value_ok 0 sample_message \<and> decode quiet_nans (encode sample_message) = Inr sample_message \<and>
   decode quiet_nans (encode sample_message @ [0]) = Inl (TrailingBytes 1)"
proof -
  have "value_ok 0 sample_message"
    by (simp add: sample_message_def value_ok_object MAX_DEPTH_def)
  with cbor_roundtrip [OF this, of quiet_nans sample_message "[0]"] show ?thesis by simp
qed

text \<open>
  C12. What is read is well formed and paid for: a value the decoder returns has every number in
  the range of the header it came in, UTF-8 texts and at most 64 levels; it is made of no more
  values than there were bytes, so a forged length cannot ask for more than the input holds; and
  written again it decodes to itself.
\<close>

theorem cbor_decode_sound:
  assumes "decode nans bs = Inr v" and "length bs < 2 ^ 64"
  shows "value_ok 0 v \<and> nodes v \<le> length bs \<and> decode nans (encode v) = Inr v"
  using decode_Inr [OF assms] decode_encode by blast

theorem cbor_decode_sound_witness:
  "\<exists>v. decode quiet_nans [0x82, 0x01, 0xf5] = Inr v \<and> nodes v \<le> 3 \<and> decode quiet_nans (encode v) = Inr v"
proof -
  have "encode (Array [Uint 1 Inline, Bool True]) = [0x82, 0x01, 0xf5]"
    by (simp add: head_len_def head_def minimal_def)
  moreover have "value_ok 0 (Array [Uint 1 Inline, Bool True])" by (simp add: MAX_DEPTH_def fits_def)
  ultimately have d: "decode quiet_nans [0x82, 0x01, 0xf5] = Inr (Array [Uint 1 Inline, Bool True])"
    by (metis decode_encode)
  with cbor_decode_sound [OF d] show ?thesis by simp
qed

text \<open>
  The header width of a string is not kept: a text whose length came in a longer header than
  needed is read, and written back in the shortest one.
\<close>

lemma cbor_text_width_lost:
  "decode nans [0x78, 0x01, 0x61] = Inr (Text [0x61]) \<and> encode (Text [0x61]) = [0x61, 0x61]"
  by (simp add: decode_def read_value_step MAX_DEPTH_def length_arg_def argument_def of_be_def
      take_bytes_def head_len_def head_def minimal_def)

end
