(* ===== verification/Commands.thy ===== *)
theory Commands
  imports Cbor
begin

text \<open>
  The P2P commands of the conversation engine (\<^verbatim>\<open>kernel/conversations/command.rs\<close>,
  \<^verbatim>\<open>command_build.rs\<close>): what an arriving payload means, and the payloads the agent builds. A
  \<^verbatim>\<open>String\<close> is its UTF-8 bytes, an \<^verbatim>\<open>f64\<close> its bits.
\<close>

type_synonym utext = "octet list"

definition lit :: "string \<Rightarrow> utext" where "lit s = map (\<lambda>c. word_of_nat (of_char c)) s"

record attachment =
  at_file_id :: utext
  at_file_name :: utext
  at_file_size :: f64
  at_file_type :: utext
  at_thumbnail :: "utext option"

datatype message_type = TextType | Markdown | LiveDocument | FileTransfer | SystemNotice

record envelope =
  e_sender_cid :: "64 word"
  e_recipient_cid :: "64 word"
  e_message_id :: utext
  e_index :: f64
  e_reply_to :: "utext option"
  e_mentions :: "utext list option"
  e_attachments :: "attachment list option"
  e_message_type :: message_type
  e_document_id :: "utext option"
  e_document_title :: "utext option"

datatype ack_kind = Delivered | ReadAck | FailedAck

datatype inbound =
    Message envelope utext f64
  | Edit utext utext f64
  | Delete utext
  | ReactionCmd utext utext bool f64
  | Screenshot envelope "f64 option"
  | Ack ack_kind utext
  | CheckState
  | Ephemeral
  | ForAWindow

fun ack_name :: "ack_kind \<Rightarrow> utext" where
  "ack_name Delivered = lit ''delivered''"
| "ack_name ReadAck = lit ''read''"
| "ack_name FailedAck = lit ''failed''"

definition opt_string :: "cvalue option \<Rightarrow> utext option" where
  "opt_string v = Option.bind v as_str"

definition opt_text :: "utext option \<Rightarrow> cvalue" where
  "opt_text v = (case v of None \<Rightarrow> Undefined | Some t \<Rightarrow> Text t)"

text \<open>Serde's \<^verbatim>\<open>snake_case\<close> names; an unknown name is the default.\<close>

fun message_type_name :: "message_type \<Rightarrow> utext" where
  "message_type_name TextType = lit ''text''"
| "message_type_name Markdown = lit ''markdown''"
| "message_type_name LiveDocument = lit ''live_document''"
| "message_type_name FileTransfer = lit ''file_transfer''"
| "message_type_name SystemNotice = lit ''system_notice''"

definition message_type_of :: "utext option \<Rightarrow> message_type" where
  "message_type_of name =
     (let t = (case name of Some t \<Rightarrow> t | None \<Rightarrow> lit ''text'')
      in if t = lit ''markdown'' then Markdown
         else if t = lit ''live_document'' then LiveDocument
         else if t = lit ''file_transfer'' then FileTransfer
         else if t = lit ''system_notice'' then SystemNotice
         else TextType)"

definition attachment_of :: "cvalue \<Rightarrow> attachment option" where
  "attachment_of v =
     do {
       file_id \<leftarrow> opt_string (cget v (lit ''file_id''));
       file_name \<leftarrow> opt_string (cget v (lit ''file_name''));
       size_value \<leftarrow> cget v (lit ''file_size'');
       file_size \<leftarrow> as_number size_value;
       file_type \<leftarrow> opt_string (cget v (lit ''file_type''));
       Some \<lparr>at_file_id = file_id, at_file_name = file_name, at_file_size = file_size,
             at_file_type = file_type, at_thumbnail = opt_string (cget v (lit ''thumbnail''))\<rparr>
     }"

definition envelope_of :: "cvalue \<Rightarrow> envelope option" where
  "envelope_of payload =
     do {
       sender \<leftarrow> Option.bind (cget payload (lit ''sender_cid'')) as_bigint;
       recipient \<leftarrow> Option.bind (cget payload (lit ''recipient_cid'')) as_bigint;
       message_id \<leftarrow> opt_string (cget payload (lit ''message_id''));
       Some \<lparr>e_sender_cid = sender, e_recipient_cid = recipient, e_message_id = message_id,
         e_index = (case Option.bind (cget payload (lit ''index'')) as_number of Some n \<Rightarrow> n | None \<Rightarrow> f64_zero),
         e_reply_to = opt_string (cget payload (lit ''reply_to'')),
         e_mentions = (case cget payload (lit ''mentions'') of
                         Some (Array items) \<Rightarrow> Some (List.map_filter as_str items) | _ \<Rightarrow> None),
         e_attachments = (case cget payload (lit ''attachments'') of
                            Some (Array items) \<Rightarrow> Some (List.map_filter attachment_of items) | _ \<Rightarrow> None),
         e_message_type = message_type_of (Option.bind (cget payload (lit ''message_type'')) as_str),
         e_document_id = opt_string (cget payload (lit ''document_id'')),
         e_document_title = opt_string (cget payload (lit ''document_title''))\<rparr>
     }"

definition is_call_invite :: "nan_choice \<Rightarrow> octet list \<Rightarrow> bool" where
  "is_call_invite nans bytes =
     (case decode nans bytes of
        Inl _ \<Rightarrow> False
      | Inr command \<Rightarrow>
          opt_string (cget command (lit ''type'')) = Some (lit ''CallSignal'') \<and>
          opt_string (Option.bind (cget command (lit ''payload'')) (\<lambda>p. cget p (lit ''kind''))) =
            Some (lit ''CallInvite''))"

definition read_ack :: "cvalue \<Rightarrow> inbound option" where
  "read_ack payload =
     do {
       name \<leftarrow> opt_string (cget payload (lit ''ack_type''));
       let with_kind = (\<lambda>kind. map_option (Ack kind) (opt_string (cget payload (lit ''message_id''))));
       if name = lit ''delivered'' then with_kind Delivered
       else if name = lit ''read'' then with_kind ReadAck
       else if name = lit ''failed'' then with_kind FailedAck
       else Some ForAWindow
     }"

definition read_layer :: "cvalue \<Rightarrow> inbound option" where
  "read_layer payload =
     do {
       layer \<leftarrow> cget payload (lit ''layer'');
       let num = (\<lambda>key. Option.bind (cget layer key) as_number);
       ty \<leftarrow> opt_string (cget layer (lit ''type''));
       if ty = lit ''Message'' then
         do { e \<leftarrow> envelope_of payload;
              contents \<leftarrow> opt_string (cget layer (lit ''contents''));
              timestamp \<leftarrow> num (lit ''timestamp'');
              Some (Message e contents timestamp) }
       else if ty = lit ''MessageEdit'' then
         do { target \<leftarrow> opt_string (cget layer (lit ''message_id''));
              contents \<leftarrow> opt_string (cget layer (lit ''contents''));
              edited_at \<leftarrow> num (lit ''edited_at'');
              Some (Edit target contents edited_at) }
       else if ty = lit ''MessageDelete'' then
         do { target \<leftarrow> opt_string (cget layer (lit ''message_id'')); Some (Delete target) }
       else if ty = lit ''MessageReaction'' then
         do { target \<leftarrow> opt_string (cget layer (lit ''message_id''));
              emoji \<leftarrow> opt_string (cget layer (lit ''emoji''));
              active \<leftarrow> Option.bind (cget layer (lit ''active'')) as_bool;
              reacted_at \<leftarrow> num (lit ''reacted_at'');
              Some (ReactionCmd target emoji active reacted_at) }
       else if ty = lit ''ScreenshotNotice'' then
         do { e \<leftarrow> envelope_of payload; Some (Screenshot e (num (lit ''taken_at''))) }
       else if ty = lit ''CheckState'' then Some CheckState
       else if ty \<in> set [lit ''Typing'', lit ''Away'', lit ''Online'', lit ''Offline'', lit ''CustomState'',
                         lit ''CheckStateResponse'']
         then Some Ephemeral
       else Some ForAWindow
     }"

definition read_command :: "nan_choice \<Rightarrow> octet list \<Rightarrow> inbound option" where
  "read_command nans bytes =
     (case decode nans bytes of
        Inl _ \<Rightarrow> None
      | Inr command \<Rightarrow>
          do {
            payload \<leftarrow> cget command (lit ''payload'');
            ty \<leftarrow> opt_string (cget command (lit ''type''));
            if ty = lit ''MessageAck'' then read_ack payload
            else if ty = lit ''CallSignal'' then Some Ephemeral
            else if ty = lit ''MessagingLayerCommand'' then read_layer payload
            else Some ForAWindow
          })"

section \<open>Building commands (command_build.rs)\<close>

definition attachment_value :: "attachment \<Rightarrow> cvalue" where
  "attachment_value a =
     object [(lit ''file_id'', Text (at_file_id a)), (lit ''file_name'', Text (at_file_name a)),
             (lit ''file_size'', number (at_file_size a)), (lit ''file_type'', Text (at_file_type a)),
             (lit ''thumbnail'', opt_text (at_thumbnail a))]"

definition layer_payload :: "cvalue \<Rightarrow> envelope \<Rightarrow> cvalue" where
  "layer_payload layer e =
     object [(lit ''layer'', layer),
             (lit ''sender_cid'', bigint (e_sender_cid e)),
             (lit ''recipient_cid'', bigint (e_recipient_cid e)),
             (lit ''message_id'', Text (e_message_id e)),
             (lit ''index'', number (e_index e)),
             (lit ''reply_to'', opt_text (e_reply_to e)),
             (lit ''mentions'', case e_mentions e of None \<Rightarrow> Undefined | Some ms \<Rightarrow> Array (map Text ms)),
             (lit ''attachments'',
               case e_attachments e of None \<Rightarrow> Undefined | Some as \<Rightarrow> Array (map attachment_value as)),
             (lit ''message_type'', Text (message_type_name (e_message_type e))),
             (lit ''document_id'', opt_text (e_document_id e)),
             (lit ''document_title'', opt_text (e_document_title e))]"

definition messaging_layer :: "cvalue \<Rightarrow> envelope \<Rightarrow> octet list" where
  "messaging_layer layer e =
     encode (object [(lit ''type'', Text (lit ''MessagingLayerCommand'')), (lit ''payload'', layer_payload layer e)])"

definition message_layer :: "utext \<Rightarrow> f64 \<Rightarrow> cvalue" where
  "message_layer contents timestamp =
     object [(lit ''type'', Text (lit ''Message'')), (lit ''contents'', Text contents),
             (lit ''timestamp'', number timestamp)]"

definition edit_layer :: "utext \<Rightarrow> utext \<Rightarrow> f64 \<Rightarrow> cvalue" where
  "edit_layer target contents edited_at =
     object [(lit ''type'', Text (lit ''MessageEdit'')), (lit ''message_id'', Text target),
             (lit ''contents'', Text contents), (lit ''edited_at'', number edited_at)]"

definition delete_layer :: "utext \<Rightarrow> f64 \<Rightarrow> cvalue" where
  "delete_layer target deleted_at =
     object [(lit ''type'', Text (lit ''MessageDelete'')), (lit ''message_id'', Text target),
             (lit ''deleted_at'', number deleted_at)]"

definition reaction_layer :: "utext \<Rightarrow> utext \<Rightarrow> bool \<Rightarrow> f64 \<Rightarrow> cvalue" where
  "reaction_layer target emoji active at =
     object [(lit ''type'', Text (lit ''MessageReaction'')), (lit ''message_id'', Text target),
             (lit ''emoji'', Text emoji), (lit ''active'', Bool active), (lit ''reacted_at'', number at)]"

definition check_state_response :: cvalue where
  "check_state_response =
     object [(lit ''type'', Text (lit ''CheckStateResponse'')), (lit ''ready'', Bool True)]"

definition ack :: "ack_kind \<Rightarrow> utext \<Rightarrow> f64 \<Rightarrow> octet list" where
  "ack kind message_id timestamp =
     encode (object
       [(lit ''type'', Text (lit ''MessageAck'')),
        (lit ''payload'', object [(lit ''ack_type'', Text (ack_name kind)), (lit ''message_id'', Text message_id),
           (lit ''timestamp'', number timestamp), (lit ''error'', Undefined)])])"

section \<open>Literals and fields\<close>

lemma lit_inject [simp]: "lit a = lit b \<longleftrightarrow> a = b"
proof -
  have "inj (\<lambda>c. word_of_nat (of_char c) :: octet)"
  proof (rule injI)
    fix c d :: char assume "(word_of_nat (of_char c) :: octet) = word_of_nat (of_char d)"
    then have "(of_char c :: nat) mod 256 = of_char d mod 256" by (metis unat_octet)
    then show "c = d" by simp
  qed
  then show ?thesis unfolding lit_def by (simp add: inj_map_eq_map)
qed

lemma length_lit [simp]: "length (lit s) = length s"
  by (simp add: lit_def)

lemma utf8_lit: "list_all (\<lambda>c. of_char c < (128 :: nat)) s \<Longrightarrow> utf8_ok (lit s)"
  by (induction s) (simp_all add: lit_def)

lemma as_str_Text [simp]: "as_str (Text t) = Some t"
  by (simp add: as_str_def)

lemma as_str_Undefined [simp]: "as_str Undefined = None"
  by (simp add: as_str_def)

lemma as_bool_Bool [simp]: "as_bool (Bool b) = Some b"
  by (simp add: as_bool_def)

lemma opt_string_simps [simp]:
  "opt_string None = None"
  "opt_string (Some v) = as_str v"
  by (simp_all add: opt_string_def)

lemma as_str_opt_text [simp]: "as_str (opt_text t) = t"
  by (cases t) (simp_all add: opt_text_def)

lemma message_type_back [simp]: "message_type_of (Some (message_type_name t)) = t"
  by (cases t) (simp_all add: message_type_of_def)

lemma map_filter_Some: "(\<And>x. x \<in> set xs \<Longrightarrow> f (g x) = Some (h x)) \<Longrightarrow> List.map_filter f (map g xs) = map h xs"
  by (induction xs) (simp_all add: map_filter_simps)

text \<open>A string a Rust program can hold.\<close>

definition text_ok :: "utext \<Rightarrow> bool" where "text_ok t \<longleftrightarrow> length t < 2 ^ 64 \<and> utf8_ok t"

definition opt_ok :: "('a \<Rightarrow> bool) \<Rightarrow> 'a option \<Rightarrow> bool" where
  "opt_ok P x \<longleftrightarrow> (case x of None \<Rightarrow> True | Some v \<Rightarrow> P v)"

lemma value_ok_Text: "value_ok d (Text t) \<longleftrightarrow> d \<le> MAX_DEPTH \<and> text_ok t"
  by (auto simp: text_ok_def)

lemma value_ok_opt_text: "value_ok d (opt_text t) \<longleftrightarrow> d \<le> MAX_DEPTH \<and> opt_ok text_ok t"
  by (auto simp: opt_text_def opt_ok_def text_ok_def split: option.splits)

lemma text_ok_lit: "list_all (\<lambda>c. of_char c < (128 :: nat)) s \<Longrightarrow> length s < 2 ^ 64 \<Longrightarrow> text_ok (lit s)"
  by (simp add: text_ok_def utf8_lit)

definition attachment_ok :: "attachment \<Rightarrow> bool" where
  "attachment_ok a \<longleftrightarrow> text_ok (at_file_id a) \<and> text_ok (at_file_name a) \<and> text_ok (at_file_type a) \<and>
     opt_ok text_ok (at_thumbnail a)"

definition envelope_ok :: "envelope \<Rightarrow> bool" where
  "envelope_ok e \<longleftrightarrow> text_ok (e_message_id e) \<and> opt_ok text_ok (e_reply_to e) \<and>
     opt_ok (\<lambda>ms. length ms < 2 ^ 64 \<and> list_all text_ok ms) (e_mentions e) \<and>
     opt_ok (\<lambda>as. length as < 2 ^ 64 \<and> list_all attachment_ok as) (e_attachments e) \<and>
     opt_ok text_ok (e_document_id e) \<and> opt_ok text_ok (e_document_title e)"

text \<open>Numbers as they arrive: a negative zero arrives as zero.\<close>

definition attachment_arrived :: "attachment \<Rightarrow> attachment" where
  "attachment_arrived a = a\<lparr>at_file_size := js_number (at_file_size a)\<rparr>"

definition arrived :: "envelope \<Rightarrow> envelope" where
  "arrived e = e\<lparr>e_index := js_number (e_index e),
                 e_attachments := map_option (map attachment_arrived) (e_attachments e)\<rparr>"

lemma attachment_back: "attachment_of (attachment_value a) = Some (attachment_arrived a)"
  by (simp add: attachment_of_def attachment_value_def as_number_number attachment_arrived_def)

lemma envelope_back: "envelope_of (layer_payload layer e) = Some (arrived e)"
proof -
  have "List.map_filter as_str (map Text ms) = ms" for ms using map_filter_Some [of ms as_str Text id] by simp
  moreover have "List.map_filter attachment_of (map attachment_value as) = map attachment_arrived as" for as
    by (rule map_filter_Some) (rule attachment_back)
  ultimately show ?thesis
    by (cases "e_mentions e"; cases "e_attachments e")
       (simp_all add: envelope_of_def layer_payload_def as_number_number arrived_def)
qed

lemma value_ok_attachment: "attachment_ok a \<Longrightarrow> d + 1 \<le> MAX_DEPTH \<Longrightarrow> value_ok d (attachment_value a)"
  unfolding attachment_value_def
  by (subst value_ok_object)
     (simp_all add: attachment_ok_def value_ok_Text value_ok_opt_text utf8_lit del: value_ok.simps(4))

lemma text_ok_type_name: "text_ok (message_type_name t)"
  by (cases t) (simp_all add: text_ok_lit)

lemma text_ok_ack_name: "text_ok (ack_name k)"
  by (cases k) (simp_all add: text_ok_lit)

lemma value_ok_payload:
  assumes "envelope_ok e" and "value_ok 2 layer"
  shows "value_ok 1 (layer_payload layer e)"
proof -
  have depth: "4 \<le> MAX_DEPTH" by (simp add: MAX_DEPTH_def)
  have m: "value_ok 2 (case e_mentions e of None \<Rightarrow> Undefined | Some ms \<Rightarrow> Array (map Text ms))"
    using assms(1) depth by (auto simp: envelope_ok_def opt_ok_def list_all_iff value_ok_Text
        simp del: value_ok.simps(4) split: option.splits)
  have a: "value_ok 2 (case e_attachments e of None \<Rightarrow> Undefined | Some as \<Rightarrow> Array (map attachment_value as))"
    using assms(1) depth by (auto simp: envelope_ok_def opt_ok_def list_all_iff value_ok_attachment split: option.splits)
  show ?thesis
    unfolding layer_payload_def
    using assms m a depth text_ok_type_name [of "e_message_type e"]
    by (subst value_ok_object)
       (simp_all add: envelope_ok_def value_ok_Text value_ok_opt_text utf8_lit numeral_2_eq_2 [symmetric]
          del: value_ok.simps(4))
qed

lemma cget_layer [simp]: "cget (layer_payload layer e) (lit ''layer'') = Some layer"
  by (simp add: layer_payload_def)

lemma read_messaging_layer:
  assumes "envelope_ok e" and "value_ok 2 layer"
  shows "read_command nans (messaging_layer layer e) = read_layer (layer_payload layer e)"
proof -
  let ?v = "object [(lit ''type'', Text (lit ''MessagingLayerCommand'')), (lit ''payload'', layer_payload layer e)]"
  have "value_ok 0 ?v"
    using value_ok_payload [OF assms]
    by (subst value_ok_object)
       (simp_all add: value_ok_Text text_ok_lit utf8_lit MAX_DEPTH_def del: value_ok.simps(4))
  then show ?thesis by (simp add: read_command_def messaging_layer_def decode_encode)
qed

lemma value_ok_layers:
  "text_ok contents \<Longrightarrow> value_ok 2 (message_layer contents t)"
  "text_ok target \<Longrightarrow> text_ok contents \<Longrightarrow> value_ok 2 (edit_layer target contents t)"
  "text_ok target \<Longrightarrow> value_ok 2 (delete_layer target t)"
  "text_ok target \<Longrightarrow> text_ok emoji \<Longrightarrow> value_ok 2 (reaction_layer target emoji active t)"
  "value_ok 2 check_state_response"
  unfolding message_layer_def edit_layer_def delete_layer_def reaction_layer_def check_state_response_def
  by (subst value_ok_object;
      simp add: value_ok_Text text_ok_lit utf8_lit MAX_DEPTH_def del: value_ok.simps(4))+

section \<open>Properties\<close>

text \<open>
  A chat message arrives as it was sent: for every envelope of texts a program can hold (any
  mentions, attachments, reply, document and type) and any contents, the bytes the agent builds
  are read as a message with that envelope, those contents and that time; the one change is that
  a negative zero among the numbers arrives as zero.
\<close>

theorem message_command_roundtrip:
  assumes "envelope_ok e" and "text_ok contents"
  shows "read_command nans (messaging_layer (message_layer contents timestamp) e) =
    Some (Message (arrived e) contents (js_number timestamp))"
  unfolding read_messaging_layer [OF assms(1) value_ok_layers(1) [OF assms(2)]]
  by (simp add: read_layer_def envelope_back message_layer_def as_number_number)

definition hello_envelope :: envelope where
  "hello_envelope = \<lparr>e_sender_cid = 7, e_recipient_cid = 9, e_message_id = lit ''m1'', e_index = f64_of_nat False 3,
     e_reply_to = None, e_mentions = Some [lit ''ann''],
     e_attachments = Some [\<lparr>at_file_id = lit ''f'', at_file_name = lit ''a.txt'', at_file_size = f64_zero,
                            at_file_type = lit ''text/plain'', at_thumbnail = None\<rparr>],
     e_message_type = Markdown, e_document_id = None, e_document_title = None\<rparr>"

lemma hello_envelope_ok: "envelope_ok hello_envelope"
  by (simp add: envelope_ok_def hello_envelope_def attachment_ok_def opt_ok_def text_ok_lit)

theorem message_command_roundtrip_witness:
  "read_command quiet_nans (messaging_layer (message_layer (lit ''hi'') f64_zero) hello_envelope) =
     Some (Message (arrived hello_envelope) (lit ''hi'') f64_zero)"
proof -
  have "f64_int f64_zero = Some 0"
    by (simp add: f64_int_def f64_magnitude_def f64_mantissa_def f64_zero_def f64_exponent_def f64_fraction_def
        f64_sign_def is_finite_def)
  then have "js_number f64_zero = f64_zero" by (simp add: js_number_def)
  with message_command_roundtrip [OF hello_envelope_ok, of "lit ''hi''" quiet_nans f64_zero]
  show ?thesis by (simp add: text_ok_lit)
qed

text \<open>
  Every other command the agent builds is read as what it was built from: an edit, a
  deletion, a reaction and its retraction, an acknowledgement of each kind, and the answer to
  "are you there", which is nothing to keep.
\<close>

theorem other_commands_roundtrip:
  assumes "envelope_ok e" and "text_ok target" and "text_ok contents" and "text_ok emoji"
  shows "read_command nans (messaging_layer (edit_layer target contents t) e) =
      Some (Edit target contents (js_number t)) \<and>
    read_command nans (messaging_layer (delete_layer target t) e) = Some (Delete target) \<and>
    read_command nans (messaging_layer (reaction_layer target emoji active t) e) =
      Some (ReactionCmd target emoji active (js_number t)) \<and>
    read_command nans (messaging_layer check_state_response e) = Some Ephemeral \<and>
    read_command nans (ack kind target t) = Some (Ack kind target)"
proof (intro conjI)
  note read = read_messaging_layer [OF assms(1)] and layers = value_ok_layers
  show "read_command nans (messaging_layer (edit_layer target contents t) e) = Some (Edit target contents (js_number t))"
    unfolding read [OF layers(2) [OF assms(2,3)]]
    by (simp add: read_layer_def edit_layer_def as_number_number)
  show "read_command nans (messaging_layer (delete_layer target t) e) = Some (Delete target)"
    unfolding read [OF layers(3) [OF assms(2)]] by (simp add: read_layer_def delete_layer_def)
  show "read_command nans (messaging_layer (reaction_layer target emoji active t) e) =
      Some (ReactionCmd target emoji active (js_number t))"
    unfolding read [OF layers(4) [OF assms(2,4)]]
    by (simp add: read_layer_def reaction_layer_def as_number_number)
  show "read_command nans (messaging_layer check_state_response e) = Some Ephemeral"
    unfolding read [OF layers(5)] by (simp add: read_layer_def check_state_response_def)
  let ?p = "object [(lit ''ack_type'', Text (ack_name kind)), (lit ''message_id'', Text target),
           (lit ''timestamp'', number t), (lit ''error'', Undefined)]"
  have "value_ok 1 ?p"
    using assms(2) text_ok_ack_name [of kind]
    by (subst value_ok_object) (simp_all add: value_ok_Text utf8_lit MAX_DEPTH_def del: value_ok.simps(4))
  then have "value_ok 0 (object [(lit ''type'', Text (lit ''MessageAck'')), (lit ''payload'', ?p)])"
    by (subst value_ok_object)
       (simp_all add: value_ok_Text text_ok_lit utf8_lit MAX_DEPTH_def del: value_ok.simps(4))
  then show "read_command nans (ack kind target t) = Some (Ack kind target)"
    by (cases kind) (simp_all add: read_command_def ack_def decode_encode read_ack_def)
qed

theorem other_commands_roundtrip_witness:
  "read_command quiet_nans (messaging_layer (delete_layer (lit ''m1'') f64_zero) hello_envelope) =
     Some (Delete (lit ''m1'')) \<and>
   read_command quiet_nans (ack ReadAck (lit ''m1'') f64_zero) = Some (Ack ReadAck (lit ''m1''))"
  using other_commands_roundtrip [OF hello_envelope_ok, of "lit ''m1''" "lit ''x''" "lit ''y''" quiet_nans f64_zero True ReadAck]
  by (simp add: text_ok_lit)

end
