(* ===== verification/Float64_Arith.thy ===== *)
theory Float64_Arith
  imports Float64
begin

text \<open>
  Addition, subtraction, comparison and conversion of \<^verbatim>\<open>f64\<close> values, as the conversation store
  uses them. A finite value is \<^verbatim>\<open>mantissa * 2^exponent\<close>; an operation computes the exact result
  and rounds it once, to nearest with ties to even, as IEEE 754 requires. The payload of a NaN
  result is unspecified in Rust; nothing in the store looks at it, and one NaN stands for all.
\<close>

definition f64_nan :: f64 where "f64_nan = f64_make False 2047 (2 ^ 51)"
definition f64_one :: f64 where "f64_one = f64_make False 1023 0"

definition f64_lt :: "f64 \<Rightarrow> f64 \<Rightarrow> bool" where
  "f64_lt x y \<longleftrightarrow> \<not> is_nan x \<and> \<not> is_nan y \<and> f64_key x < f64_key y"

definition f64_eq :: "f64 \<Rightarrow> f64 \<Rightarrow> bool" where
  "f64_eq x y \<longleftrightarrow> \<not> is_nan x \<and> \<not> is_nan y \<and> f64_key x = f64_key y"

text \<open>
  \<^verbatim>\<open>f64::max\<close> and \<^verbatim>\<open>f64::min\<close>: the other argument when one is NaN. Of two zeros of opposite
  sign either may be returned; the first one is here.
\<close>

definition f64_max :: "f64 \<Rightarrow> f64 \<Rightarrow> f64" where
  "f64_max x y = (if is_nan x then y else if f64_lt x y then y else x)"

definition f64_min :: "f64 \<Rightarrow> f64 \<Rightarrow> f64" where
  "f64_min x y = (if is_nan x then y else if f64_lt y x then y else x)"

text \<open>\<^verbatim>\<open>f64::total_cmp\<close> orders the bit patterns by sign and magnitude, \<^verbatim>\<open>-0\<close> before \<^verbatim>\<open>+0\<close>.\<close>

definition f64_total_key :: "f64 \<Rightarrow> int" where
  "f64_total_key x = (let m = int (unat x mod 2 ^ 63) in if f64_sign x then - m - 1 else m)"

text \<open>The exponent of the unit in the last place, and the exact integer a value is of that unit.\<close>

definition f64_scale :: "f64 \<Rightarrow> int" where
  "f64_scale x = int (if f64_exponent x = 0 then 1 else f64_exponent x) - 1075"

definition f64_signed :: "f64 \<Rightarrow> int" where
  "f64_signed x = (if f64_sign x then - int (f64_mantissa x) else int (f64_mantissa x))"

text \<open>
  The double nearest to \<^verbatim>\<open>n * 2^e\<close>: the unit of the result is the one of 53 significant bits, or
  the smallest there is; a carry out of the significand moves on to the exponent by itself, and
  what lies beyond the largest finite value is an infinity.
\<close>

definition f64_round :: "bool \<Rightarrow> nat \<Rightarrow> int \<Rightarrow> f64" where
  "f64_round s n e =
     (if n = 0 then f64_make s 0 0
      else
        (let q = max (int (top_bit n) + e - 52) (- 1074);
             m = (if q \<le> e then n * 2 ^ nat (e - q) else round_even n (nat (q - e)))
         in f64_make s 0 (min (nat (q + 1074) * 2 ^ 52 + m) (2047 * 2 ^ 52))))"

definition f64_add :: "f64 \<Rightarrow> f64 \<Rightarrow> f64" where
  "f64_add x y =
     (if is_nan x \<or> is_nan y then f64_nan
      else if \<not> is_finite x then
        (if \<not> is_finite y \<and> f64_sign x \<noteq> f64_sign y then f64_nan else x)
      else if \<not> is_finite y then y
      else
        (let e = min (f64_scale x) (f64_scale y);
             n = f64_signed x * 2 ^ nat (f64_scale x - e) + f64_signed y * 2 ^ nat (f64_scale y - e)
         in if n = 0 then f64_make (f64_sign x \<and> f64_sign y) 0 0 else f64_round (n < 0) (nat \<bar>n\<bar>) e))"

definition f64_neg :: "f64 \<Rightarrow> f64" where
  "f64_neg x = f64_make (\<not> f64_sign x) (f64_exponent x) (f64_fraction x)"

definition f64_sub :: "f64 \<Rightarrow> f64 \<Rightarrow> f64" where
  "f64_sub x y = (if is_nan y then f64_nan else f64_add x (f64_neg y))"

text \<open>\<^verbatim>\<open>x as usize\<close>: towards zero, saturating, a NaN to 0.\<close>

definition f64_as_usize :: "f64 \<Rightarrow> nat" where
  "f64_as_usize x =
     (if is_nan x \<or> f64_sign x then 0
      else if \<not> is_finite x then u64_max
      else
        (let e = f64_scale x
         in min u64_max (if 0 \<le> e then f64_mantissa x * 2 ^ nat e else f64_mantissa x div 2 ^ nat (- e))))"

definition f64_of_int :: "int \<Rightarrow> f64" where
  "f64_of_int i = f64_of_nat (i < 0) (nat \<bar>i\<bar>)"

section \<open>Sums of integers are exact\<close>

lemma top_bit_shift: "0 < n \<Longrightarrow> top_bit (n * 2 ^ k) = top_bit n + k"
proof (rule top_bit_unique)
  assume "0 < n"
  then have b: "2 ^ top_bit n \<le> n" "n < 2 ^ Suc (top_bit n)" using top_bit_bounds by blast+
  show "2 ^ (top_bit n + k) \<le> n * 2 ^ k" using b(1) by (simp add: power_add)
  show "n * 2 ^ k < 2 ^ Suc (top_bit n + k)" using b(2) by (simp add: power_add)
qed

lemma round_even_0 [simp]: "round_even n 0 = n"
  by (simp add: round_even_def)

lemma round_even_shift: "round_even (n * 2 ^ k) (j + k) = round_even n j"
proof -
  have "n * 2 ^ k div 2 ^ (j + k) = n div 2 ^ j"
    by (simp add: power_add mult.commute [of "2 ^ j"] flip: div_mult2_eq)
  moreover have "n * 2 ^ k mod 2 ^ (j + k) = (n mod 2 ^ j) * 2 ^ k"
    by (simp add: power_add mult_mod_left)
  moreover have "2 ^ (j + k) < 2 * ((n mod 2 ^ j) * 2 ^ k) \<longleftrightarrow> (2::nat) ^ j < 2 * (n mod 2 ^ j)"
    by (simp add: power_add mult.assoc [symmetric])
  moreover have "2 * ((n mod 2 ^ j) * 2 ^ k) = 2 ^ (j + k) \<longleftrightarrow> 2 * (n mod 2 ^ j) = (2::nat) ^ j"
    by (simp add: power_add mult.assoc [symmetric])
  ultimately show ?thesis unfolding round_even_def Let_def by simp
qed

lemma round_even_exact: "j \<le> k \<Longrightarrow> round_even (n * 2 ^ k) j = n * 2 ^ (k - j)"
  using round_even_shift [of "n * 2 ^ (k - j)" j 0] by (simp add: mult.assoc flip: power_add)

lemma f64_round_shift: "f64_round s (n * 2 ^ k) e = f64_round s n (e + int k)"
proof (cases "n = 0")
  case False
  define q where "q = max (int (top_bit n) + (e + int k) - 52) (- 1074)"
  have q': "max (int (top_bit (n * 2 ^ k)) + e - 52) (- 1074) = q"
    using False by (simp add: top_bit_shift q_def)
  have m: "(if q \<le> e then n * 2 ^ k * 2 ^ nat (e - q) else round_even (n * 2 ^ k) (nat (q - e))) =
        (if q \<le> e + int k then n * 2 ^ nat (e + int k - q) else round_even n (nat (q - (e + int k))))"
  proof (cases "q \<le> e")
    case True
    then have "nat (e + int k - q) = k + nat (e - q)" by simp
    with True show ?thesis by (simp add: power_add mult.assoc)
  next
    case nle: False
    show ?thesis
    proof (cases "q \<le> e + int k")
      case True
      then have "nat (q - e) \<le> k" "k - nat (q - e) = nat (e + int k - q)" using nle by auto
      with nle True show ?thesis by (simp add: round_even_exact)
    next
      case False
      then have "nat (q - e) = nat (q - (e + int k)) + k" by simp
      with nle False show ?thesis by (simp add: round_even_shift)
    qed
  qed
  show ?thesis unfolding f64_round_def Let_def q' m q_def [symmetric] using False by simp
qed (simp add: f64_round_def)

lemma f64_round_small: "0 < n \<Longrightarrow> n < 2 ^ 53 \<Longrightarrow> f64_round s n 0 = f64_of_nat s n"
proof -
  assume n: "0 < n" "n < 2 ^ 53"
  define p where "p = top_bit n"
  have b: "2 ^ p \<le> n" "n < 2 ^ Suc p" using top_bit_bounds n(1) unfolding p_def by blast+
  have p: "p \<le> 52"
  proof (rule ccontr)
    assume "\<not> p \<le> 52"
    then have "(2::nat) ^ 53 \<le> 2 ^ p" by (intro power_increasing) simp_all
    with b(1) n(2) show False by linarith
  qed
  define m where "m = n * 2 ^ (52 - p)"
  have m52: "2 ^ 52 \<le> m"
  proof -
    have "2 ^ p * 2 ^ (52 - p) \<le> m" unfolding m_def using b(1) by simp
    with p show ?thesis by (simp flip: power_add)
  qed
  have m53: "m < 2 ^ 53"
  proof -
    have "m < 2 ^ Suc p * 2 ^ (52 - p)" unfolding m_def using b(2) by simp
    also have "\<dots> = 2 ^ (Suc p + (52 - p))" by (simp only: power_add)
    also have "Suc p + (52 - p) = 53" using p by simp
    finally show ?thesis .
  qed
  have "f64_round s n 0 = f64_make s 0 (min ((p + 1022) * 2 ^ 52 + m) (2047 * 2 ^ 52))"
    using n p by (simp add: f64_round_def Let_def m_def p_def [symmetric] max_def nat_diff_distrib nat_add_distrib add.commute)
  also have "\<dots> = f64_make s 0 ((p + 1022) * 2 ^ 52 + m)"
    using p m53 by (intro arg_cong [where f = "f64_make s 0"]) simp
  also have "\<dots> = f64_make s (p + 1023) (m - 2 ^ 52)"
    using m52 unfolding f64_make_def by (intro arg_cong [where f = word_of_nat]) simp
  also have "\<dots> = f64_of_nat s n"
    using n p by (simp add: f64_of_nat_def f64_rounded_small f64_dyadic_def p_def [symmetric] m_def Let_def
        nat_add_distrib)
  finally show ?thesis .
qed

text \<open>An integral value in units of a scale at or below its own.\<close>

lemma f64_int_scaled:
  assumes "f64_int x = Some i"
  shows "is_finite x" and
    "0 \<le> f64_scale x \<Longrightarrow> f64_signed x * 2 ^ nat (f64_scale x) = i" and
    "f64_scale x < 0 \<Longrightarrow> f64_signed x = i * 2 ^ nat (- f64_scale x)"
proof -
  let ?e = "if f64_exponent x = 0 then 1 else f64_exponent x" and ?m = "f64_mantissa x"
  from assms obtain n where n: "f64_magnitude x = Some n"
      and i: "i = (if f64_sign x then - int n else int n)"
    by (auto simp: f64_int_def)
  show "is_finite x" using n by (simp add: f64_magnitude_def Let_def split: if_splits)
  {
    assume "0 \<le> f64_scale x"
    then have "1075 \<le> ?e" "nat (f64_scale x) = ?e - 1075" by (simp_all only: f64_scale_def)
    with n have "n = ?m * 2 ^ nat (f64_scale x)"
      unfolding f64_magnitude_def Let_def by (simp split: if_splits)
    then show "f64_signed x * 2 ^ nat (f64_scale x) = i" by (simp add: i f64_signed_def)
  next
    assume neg: "f64_scale x < 0"
    then have "\<not> 1075 \<le> ?e" "nat (- f64_scale x) = 1075 - ?e" by (simp_all only: f64_scale_def)
    with n have "?m mod 2 ^ nat (- f64_scale x) = 0" "n = ?m div 2 ^ nat (- f64_scale x)"
      unfolding f64_magnitude_def Let_def by (simp_all split: if_splits)
    then have "?m = n * 2 ^ nat (- f64_scale x)" by (metis add.right_neutral div_mult_mod_eq)
    then show "f64_signed x = i * 2 ^ nat (- f64_scale x)" by (simp add: i f64_signed_def)
  }
qed

lemma f64_int_at:
  assumes "f64_int x = Some i" and "e \<le> f64_scale x"
  shows "0 \<le> e \<Longrightarrow> f64_signed x * 2 ^ nat (f64_scale x - e) * 2 ^ nat e = i" and
    "e < 0 \<Longrightarrow> f64_signed x * 2 ^ nat (f64_scale x - e) = i * 2 ^ nat (- e)"
proof -
  assume e: "0 \<le> e"
  then have "nat (f64_scale x) = nat (f64_scale x - e) + nat e" using assms(2) by simp
  with f64_int_scaled(2) [OF assms(1)] e assms(2)
  show "f64_signed x * 2 ^ nat (f64_scale x - e) * 2 ^ nat e = i" by (simp add: power_add mult.assoc)
next
  assume e: "e < 0"
  show "f64_signed x * 2 ^ nat (f64_scale x - e) = i * 2 ^ nat (- e)"
  proof (cases "0 \<le> f64_scale x")
    case True
    then have "nat (f64_scale x - e) = nat (f64_scale x) + nat (- e)" using e by simp
    with f64_int_scaled(2) [OF assms(1) True] show ?thesis by (simp add: power_add mult.assoc [symmetric])
  next
    case False
    then have neg: "f64_scale x < 0" by simp
    then have "nat (- e) = nat (- f64_scale x) + nat (f64_scale x - e)" using assms(2) by simp
    with f64_int_scaled(3) [OF assms(1) neg] show ?thesis by (simp add: power_add mult.assoc)
  qed
qed

lemma f64_of_int_0: "f64_of_int 0 = f64_zero"
  by (simp add: f64_of_int_def f64_of_nat_def f64_rounded_small f64_dyadic_def f64_make_def f64_zero_def)

lemma f64_add_exact:
  assumes x: "f64_int x = Some i" and y: "f64_int y = Some j" and small: "\<bar>i + j\<bar> < 2 ^ 53"
    and pos: "i + j = 0 \<Longrightarrow> \<not> (f64_sign x \<and> f64_sign y)"
  shows "f64_add x y = f64_of_int (i + j)"
proof -
  define e where "e = min (f64_scale x) (f64_scale y)"
  define n where "n = f64_signed x * 2 ^ nat (f64_scale x - e) + f64_signed y * 2 ^ nat (f64_scale y - e)"
  have fin: "is_finite x" "is_finite y" by (rule f64_int_scaled(1) [OF x], rule f64_int_scaled(1) [OF y])
  have le: "e \<le> f64_scale x" "e \<le> f64_scale y" by (simp_all add: e_def)
  have add: "f64_add x y =
      (if n = 0 then f64_make (f64_sign x \<and> f64_sign y) 0 0 else f64_round (n < 0) (nat \<bar>n\<bar>) e)"
    using fin finite_not_nan [of x] finite_not_nan [of y]
    unfolding f64_add_def Let_def e_def [symmetric] n_def [symmetric] by simp
  have ge: "n * 2 ^ nat e = i + j" if "0 \<le> e"
    using f64_int_at(1) [OF x le(1) that] f64_int_at(1) [OF y le(2) that]
    by (simp add: n_def distrib_right)
  have lt: "n = (i + j) * 2 ^ nat (- e)" if "e < 0"
    using f64_int_at(2) [OF x le(1) that] f64_int_at(2) [OF y le(2) that]
    by (simp add: n_def distrib_right)
  have sgn: "(n = 0 \<longleftrightarrow> i + j = 0) \<and> (n < 0 \<longleftrightarrow> i + j < 0)"
  proof (cases "0 \<le> e")
    case True
    then show ?thesis using ge [symmetric] by (simp add: mult_less_0_iff)
  next
    case False
    then show ?thesis using lt by (simp add: mult_less_0_iff)
  qed
  show ?thesis
  proof (cases "i + j = 0")
    case True
    with pos sgn add show ?thesis by (simp add: f64_of_int_0 f64_make_def f64_zero_def)
  next
    case False
    have "f64_round s (nat \<bar>n\<bar>) e = f64_round s (nat \<bar>i + j\<bar>) 0" for s
    proof (cases "0 \<le> e")
      case True
      then have "nat \<bar>i + j\<bar> = nat \<bar>n\<bar> * 2 ^ nat e"
        using ge [symmetric] by (simp add: abs_mult nat_mult_distrib nat_power_eq)
      then show ?thesis using True f64_round_shift [of s "nat \<bar>n\<bar>" "nat e" 0] by simp
    next
      case neg: False
      then have "nat \<bar>n\<bar> = nat \<bar>i + j\<bar> * 2 ^ nat (- e)"
        using lt by (simp add: abs_mult nat_mult_distrib nat_power_eq)
      then show ?thesis using neg f64_round_shift [of s "nat \<bar>i + j\<bar>" "nat (- e)" e] by simp
    qed
    moreover have "f64_round s (nat \<bar>i + j\<bar>) 0 = f64_of_nat s (nat \<bar>i + j\<bar>)" for s
      using False small by (intro f64_round_small) (simp_all add: nat_less_iff)
    ultimately show ?thesis using add sgn False by (simp add: f64_of_int_def)
  qed
qed

section \<open>Integers as values\<close>

lemma f64_make_decode:
  assumes "e < 2 ^ 11" and "f < 2 ^ 52"
  shows "f64_sign (f64_make s e f) = s" and "f64_exponent (f64_make s e f) = e"
    and "f64_fraction (f64_make s e f) = f"
proof -
  have "e * 2 ^ 52 + f < 2 ^ 63" using assms by simp
  then have u: "unat (f64_make s e f) = (if s then 2 ^ 63 else 0) + e * 2 ^ 52 + f"
    unfolding f64_make_def by (subst unsigned_of_nat) (simp add: take_bit_nat_eq_self)
  show "f64_sign (f64_make s e f) = s" using assms by (simp add: f64_sign_def u)
  define q where "q = (if s then 2 ^ 11 else 0) + e"
  have q: "unat (f64_make s e f) = q * 2 ^ 52 + f" by (simp add: u q_def)
  show "f64_fraction (f64_make s e f) = f" using assms by (simp add: f64_fraction_def q)
  have "(q * 2 ^ 52 + f) div 2 ^ 52 = q" using assms by simp
  then show "f64_exponent (f64_make s e f) = e" using assms unfolding f64_exponent_def q q_def by simp
qed

lemma f64_of_nat_parts:
  assumes "0 < n" and "n < 2 ^ 53" and "p = top_bit n"
  shows "p \<le> 52" and "f64_sign (f64_of_nat s n) = s" and "f64_exponent (f64_of_nat s n) = p + 1023"
    and "f64_mantissa (f64_of_nat s n) = n * 2 ^ (52 - p)"
proof -
  have b: "2 ^ p \<le> n" "n < 2 ^ Suc p" using top_bit_bounds assms by blast+
  show p: "p \<le> 52"
  proof (rule ccontr)
    assume "\<not> p \<le> 52"
    then have "(2::nat) ^ 53 \<le> 2 ^ p" by (intro power_increasing) simp_all
    with b(1) assms(2) show False by linarith
  qed
  define m where "m = n * 2 ^ (52 - p)"
  have lo: "2 ^ 52 \<le> m"
  proof -
    have "2 ^ p * 2 ^ (52 - p) \<le> m" unfolding m_def using b(1) by simp
    with p show ?thesis by (simp flip: power_add)
  qed
  have hi: "m < 2 ^ 53"
  proof -
    have "m < 2 ^ Suc p * 2 ^ (52 - p)" unfolding m_def using b(2) by simp
    also have "\<dots> = 2 ^ (Suc p + (52 - p))" by (simp only: power_add)
    also have "Suc p + (52 - p) = 53" using p by simp
    finally show ?thesis .
  qed
  have mk: "f64_of_nat s n = f64_make s (p + 1023) (m - 2 ^ 52)"
    using assms p by (simp add: f64_of_nat_def f64_rounded_small f64_dyadic_def assms(3) [symmetric] m_def Let_def
        nat_add_distrib)
  have bd: "p + 1023 < 2 ^ 11" "m - 2 ^ 52 < 2 ^ 52" using p lo hi by simp_all
  show "f64_sign (f64_of_nat s n) = s" "f64_exponent (f64_of_nat s n) = p + 1023"
    unfolding mk by (rule f64_make_decode [OF bd])+
  show "f64_mantissa (f64_of_nat s n) = n * 2 ^ (52 - p)"
    unfolding mk f64_mantissa_def f64_make_decode [OF bd] m_def [symmetric] using lo by simp
qed

lemma f64_magnitude_of_nat: "n < 2 ^ 53 \<Longrightarrow> f64_magnitude (f64_of_nat s n) = Some n"
proof (cases "n = 0")
  case True
  have "f64_of_nat s 0 = f64_make s 0 0" by (simp add: f64_of_nat_def f64_rounded_small f64_dyadic_def)
  moreover have "f64_exponent (f64_make s 0 0) = 0" "f64_fraction (f64_make s 0 0) = 0"
    by (rule f64_make_decode; simp)+
  ultimately show ?thesis
    using True by (simp add: f64_magnitude_def f64_mantissa_def is_finite_def Let_def)
next
  case False
  assume n: "n < 2 ^ 53"
  define p where "p = top_bit n"
  from False have "0 < n" by simp
  note P = f64_of_nat_parts(1) [OF this n p_def] f64_of_nat_parts(2-) [OF this n p_def, of s]
  show ?thesis
  proof (cases "p = 52")
    case True
    then show ?thesis using P by (simp add: f64_magnitude_def is_finite_def Let_def)
  next
    case F: False
    then have "1075 - (p + 1023) = 52 - p" "\<not> 1075 \<le> p + 1023" using P(1) by simp_all
    then show ?thesis using P F by (simp add: f64_magnitude_def is_finite_def Let_def)
  qed
qed

lemma f64_sign_of_nat: "n < 2 ^ 53 \<Longrightarrow> f64_sign (f64_of_nat s n) = s"
proof (cases "n = 0")
  case True
  have "f64_of_nat s 0 = f64_make s 0 0" by (simp add: f64_of_nat_def f64_rounded_small f64_dyadic_def)
  with True show ?thesis using f64_make_decode(1) [of 0 0 s] by simp
next
  case False
  assume "n < 2 ^ 53"
  with False show ?thesis by (intro f64_of_nat_parts(2)) simp_all
qed

lemma f64_int_of_int [simp]: "\<bar>i\<bar> < 2 ^ 53 \<Longrightarrow> f64_int (f64_of_int i) = Some i"
proof -
  assume "\<bar>i\<bar> < 2 ^ 53"
  then have "nat \<bar>i\<bar> < 2 ^ 53" by (simp add: nat_less_iff)
  then show ?thesis by (simp add: f64_int_def f64_of_int_def f64_magnitude_of_nat f64_sign_of_nat)
qed

lemma f64_sign_of_int [simp]: "\<bar>i\<bar> < 2 ^ 53 \<Longrightarrow> f64_sign (f64_of_int i) \<longleftrightarrow> i < 0"
  by (simp add: f64_of_int_def f64_sign_of_nat nat_less_iff)

lemma f64_magnitude_back53:
  assumes "f64_magnitude x = Some n" and "0 < n" and "n < 2 ^ 53"
  shows "f64_of_nat (f64_sign x) n = x"
proof (cases "n < 2 ^ 52")
  case False
  let ?e = "f64_exponent x" and ?f = "f64_fraction x"
  have f: "?f < 2 ^ 52" by (rule f64_fraction_less)
  have e0: "?e \<noteq> 0"
  proof
    assume "?e = 0"
    with assms(1) have "n = ?f div 2 ^ 1074"
      by (auto simp: f64_magnitude_def f64_mantissa_def is_finite_def Let_def split: if_splits)
    then have "n \<le> ?f" by (simp add: div_le_dividend)
    with f False show False by simp
  qed
  define m where "m = 2 ^ 52 + ?f"
  have mag: "f64_magnitude x =
      (if ?e = 2047 then None else if 1075 \<le> ?e then Some (m * 2 ^ (?e - 1075))
       else if m mod 2 ^ (1075 - ?e) = 0 then Some (m div 2 ^ (1075 - ?e)) else None)"
    using e0 unfolding f64_magnitude_def f64_mantissa_def is_finite_def Let_def m_def by simp
  have ge: "1075 \<le> ?e"
  proof (rule ccontr)
    assume lt: "\<not> 1075 \<le> ?e"
    then have "n = m div 2 ^ (1075 - ?e)" using assms(1) mag by (simp split: if_splits)
    moreover have "m div 2 ^ (1075 - ?e) \<le> m div 2 ^ 1"
      using lt by (intro div_le_mono2 power_increasing) simp_all
    ultimately show False using False f by (simp add: m_def)
  qed
  then have n: "n = m * 2 ^ (?e - 1075)" using assms(1) mag by (simp split: if_splits)
  have "?e = 1075"
  proof (rule ccontr)
    assume "?e \<noteq> 1075"
    then have "(2::nat) ^ 1 \<le> 2 ^ (?e - 1075)" using ge by (intro power_increasing) simp_all
    then have "m * 2 \<le> n" unfolding n by simp
    then show False using assms(3) by (simp add: m_def)
  qed
  then have nm: "n = m" and e: "?e = 52 + 1023" using n by simp_all
  have "top_bit n = 52" using f by (intro top_bit_unique) (simp_all add: nm m_def)
  then have "f64_of_nat (f64_sign x) n = f64_make (f64_sign x) (52 + 1023) (n - 2 ^ 52)"
    using assms by (simp add: f64_of_nat_def f64_rounded_small f64_dyadic_def Let_def nm m_def)
  also have "\<dots> = x" using f64_make_parts [of x] by (simp add: nm m_def e)
  finally show ?thesis .
qed (rule f64_magnitude_back [OF assms(1,2)])

text \<open>The values JSON keeps: integers of at most 53 bits, and not the negative zero.\<close>

definition f64_whole :: "f64 \<Rightarrow> bool" where
  "f64_whole x \<longleftrightarrow> (case f64_int x of None \<Rightarrow> False | Some i \<Rightarrow> \<bar>i\<bar> < 2 ^ 53 \<and> x = f64_of_int i)"

lemma f64_int_back:
  assumes "f64_int x = Some i" and "\<bar>i\<bar> < 2 ^ 53" and "i = 0 \<Longrightarrow> \<not> f64_sign x"
  shows "f64_of_int i = x"
proof -
  from assms(1) obtain n where n: "f64_magnitude x = Some n" and i: "i = (if f64_sign x then - int n else int n)"
    by (auto simp: f64_int_def)
  show ?thesis
  proof (cases "n = 0")
    case True
    with i have "i = 0" by simp
    with assms(3) have "\<not> f64_sign x" by blast
    then show ?thesis using f64_magnitude_zero [of x] n True \<open>i = 0\<close>
      by (simp add: f64_of_int_0 f64_make_def f64_zero_def)
  next
    case False
    then have "f64_of_nat (f64_sign x) n = x"
      using n assms(2) i by (intro f64_magnitude_back53) (auto split: if_splits)
    moreover have "i < 0 \<longleftrightarrow> f64_sign x" "nat \<bar>i\<bar> = n" using i False by auto
    ultimately show ?thesis by (simp add: f64_of_int_def)
  qed
qed

lemma f64_wholeE: assumes "f64_whole x" obtains i where "x = f64_of_int i" and "\<bar>i\<bar> < 2 ^ 53" and "f64_int x = Some i"
  using assms unfolding f64_whole_def by (cases "f64_int x") auto

lemma f64_whole_of_int: "\<bar>i\<bar> < 2 ^ 53 \<Longrightarrow> f64_whole (f64_of_int i)"
  by (simp add: f64_whole_def)

lemma f64_whole_finite: "f64_whole x \<Longrightarrow> is_finite x"
  by (erule f64_wholeE) (rule f64_int_scaled(1))

lemma f64_add_of_int:
  "\<bar>i\<bar> < 2 ^ 53 \<Longrightarrow> \<bar>j\<bar> < 2 ^ 53 \<Longrightarrow> \<bar>i + j\<bar> < 2 ^ 53 \<Longrightarrow>
   f64_add (f64_of_int i) (f64_of_int j) = f64_of_int (i + j)"
  by (rule f64_add_exact) auto

lemma f64_neg_parts:
  "f64_sign (f64_neg x) \<longleftrightarrow> \<not> f64_sign x" "f64_exponent (f64_neg x) = f64_exponent x"
  "f64_fraction (f64_neg x) = f64_fraction x"
proof -
  have b: "f64_exponent x < 2 ^ 11" "f64_fraction x < 2 ^ 52"
    using f64_fraction_less [of x] by (simp_all add: f64_exponent_def)
  show "f64_sign (f64_neg x) \<longleftrightarrow> \<not> f64_sign x" "f64_exponent (f64_neg x) = f64_exponent x"
    "f64_fraction (f64_neg x) = f64_fraction x"
    unfolding f64_neg_def by (rule f64_make_decode [OF b])+
qed

lemma f64_int_neg: "f64_int (f64_neg x) = map_option uminus (f64_int x)"
  by (simp add: f64_int_def f64_magnitude_def f64_mantissa_def is_finite_def f64_neg_parts option.map_comp
      comp_def Let_def)

lemma f64_sub_of_int:
  assumes "\<bar>i\<bar> < 2 ^ 53" and "\<bar>j\<bar> < 2 ^ 53" and "\<bar>i - j\<bar> < 2 ^ 53"
  shows "f64_sub (f64_of_int i) (f64_of_int j) = f64_of_int (i - j)"
proof -
  have "\<not> is_nan (f64_of_int j)"
    using f64_int_scaled(1) [OF f64_int_of_int [OF assms(2)]] by (rule finite_not_nan)
  moreover have "f64_add (f64_of_int i) (f64_neg (f64_of_int j)) = f64_of_int (i + - j)"
    using assms by (intro f64_add_exact) (auto simp: f64_int_neg f64_neg_parts)
  ultimately show ?thesis by (simp add: f64_sub_def)
qed

lemma f64_one_of_int: "f64_one = f64_of_int 1"
proof -
  have "top_bit 1 = 0" by (rule top_bit_unique) simp_all
  then show ?thesis
    by (simp add: f64_one_def f64_of_int_def f64_of_nat_def f64_rounded_small f64_dyadic_def)
qed

lemma f64_of_int_finite: "\<bar>i\<bar> < 2 ^ 53 \<Longrightarrow> is_finite (f64_of_int i) \<and> \<not> is_nan (f64_of_int i)"
  using f64_int_scaled(1) [OF f64_int_of_int] finite_not_nan by blast

lemma f64_key_nonneg: "\<not> f64_sign x \<Longrightarrow> 0 \<le> f64_key x"
  by (simp add: f64_key_def Let_def)

lemma f64_key_zero [simp]: "f64_key f64_zero = 0"
  by (simp add: f64_key_def f64_zero_def)

lemma f64_max_zero: "\<not> is_nan x \<Longrightarrow> \<not> f64_sign x \<Longrightarrow> f64_max x f64_zero = x"
  using f64_key_nonneg [of x] by (simp add: f64_max_def f64_lt_def)

lemma f64_eq_zero_of_int: "0 \<le> i \<Longrightarrow> i < 2 ^ 53 \<Longrightarrow> f64_eq (f64_of_int i) f64_zero \<longleftrightarrow> i = 0"
proof
  assume i: "0 \<le> i" "i < 2 ^ 53" and eq: "f64_eq (f64_of_int i) f64_zero"
  have ns: "\<not> f64_sign (f64_of_int i)" using i by simp
  from eq have "f64_key (f64_of_int i) = 0" by (simp add: f64_eq_def)
  with ns have "unat (f64_of_int i) mod 2 ^ 63 = 0" by (simp add: f64_key_def Let_def)
  moreover have "unat (f64_of_int i) < 2 ^ 63" using ns by (simp add: f64_sign_def)
  ultimately have "f64_of_int i = f64_of_int 0"
    by (simp add: f64_of_int_0 f64_zero_def unsigned_eq_0_iff)
  then have "f64_int (f64_of_int i) = f64_int (f64_of_int 0)" by simp
  with i show "i = 0" by simp
next
  assume "i = 0"
  then show "f64_eq (f64_of_int i) f64_zero"
    by (simp add: f64_of_int_0 f64_eq_def is_nan_def f64_zero_def f64_exponent_def)
qed

end
