(* ===== verification/Json.thy ===== *)
theory Json
  imports Commands Float64_Arith "HOL-Library.Finite_Map"
begin

text \<open>
  The JSON values of serde_json (\<^verbatim>\<open>serde_json::Value\<close>) and how derived serialisation reads
  and writes the types the conversation store keeps in them. An object is a finite map, so the
  order of its fields does not matter. A number is an integer or a float, as serde_json keeps
  them apart. The text a value is written as and read from is serde_json's own; it is the pair of
  functions \<^verbatim>\<open>json_text\<close>, and what is relied on is that integers, strings, lists and objects of
  them, nested no deeper than serde_json reads, read back as written.
\<close>

datatype json =
    JNull
  | JBool bool
  | JInt int
  | JFloat f64
  | JStr utext
  | JArr "json list"
  | JObj "(string, json) fmap"

datatype stored_error = NotAnObject | NotACid string | Serde

definition json_obj :: "(string \<times> json) list \<Rightarrow> json" where "json_obj fs = JObj (fmap_of_list fs)"

section \<open>Writing\<close>

text \<open>A float that is not finite is written as \<^verbatim>\<open>null\<close>, as is an absent optional field.\<close>

definition json_f64 :: "f64 \<Rightarrow> json" where "json_f64 x = (if is_finite x then JFloat x else JNull)"
definition json_u64 :: "cid \<Rightarrow> json" where "json_u64 x = JInt (int (unat x))"
definition json_nat :: "nat \<Rightarrow> json" where "json_nat n = JInt (int n)"

definition json_opt :: "('a \<Rightarrow> json) \<Rightarrow> 'a option \<Rightarrow> json" where
  "json_opt f x = (case x of None \<Rightarrow> JNull | Some y \<Rightarrow> f y)"

definition json_list :: "('a \<Rightarrow> json) \<Rightarrow> 'a list \<Rightarrow> json" where "json_list f xs = JArr (map f xs)"

section \<open>Reading\<close>

definition de_str :: "json \<Rightarrow> stored_error + utext" where
  "de_str v = (case v of JStr t \<Rightarrow> Inr t | _ \<Rightarrow> Inl Serde)"

definition de_bool :: "json \<Rightarrow> stored_error + bool" where
  "de_bool v = (case v of JBool b \<Rightarrow> Inr b | _ \<Rightarrow> Inl Serde)"

definition de_f64 :: "json \<Rightarrow> stored_error + f64" where
  "de_f64 v = (case v of JInt i \<Rightarrow> Inr (f64_of_int i) | JFloat x \<Rightarrow> Inr x | _ \<Rightarrow> Inl Serde)"

definition de_nat :: "nat \<Rightarrow> json \<Rightarrow> stored_error + nat" where
  "de_nat mx v =
     (case v of JInt i \<Rightarrow> if 0 \<le> i \<and> i \<le> int mx then Inr (nat i) else Inl Serde | _ \<Rightarrow> Inl Serde)"

definition de_u64 :: "json \<Rightarrow> stored_error + cid" where
  "de_u64 v = and_then (de_nat u64_max v) (\<lambda>n. Inr (word_of_nat n))"

fun de_all :: "('a \<Rightarrow> 'e + 'b) \<Rightarrow> 'a list \<Rightarrow> 'e + 'b list" where
  "de_all f [] = Inr []"
| "de_all f (x # xs) = and_then (f x) (\<lambda>y. and_then (de_all f xs) (\<lambda>ys. Inr (y # ys)))"

definition de_list :: "(json \<Rightarrow> stored_error + 'a) \<Rightarrow> json \<Rightarrow> stored_error + 'a list" where
  "de_list f v = (case v of JArr vs \<Rightarrow> de_all f vs | _ \<Rightarrow> Inl Serde)"

text \<open>A unit variant is its name, or an object with its name as the only key and \<^verbatim>\<open>null\<close> under it.\<close>

definition de_variant :: "(string \<times> 'a) list \<Rightarrow> json \<Rightarrow> stored_error + 'a" where
  "de_variant names v =
     (case List.find (\<lambda>(n, _). v = JStr (lit n) \<or> v = json_obj [(n, JNull)]) names of
        None \<Rightarrow> Inl Serde
      | Some (_, c) \<Rightarrow> Inr c)"

text \<open>A required field, an optional field (absent or \<^verbatim>\<open>null\<close> is none), and a field with a default.\<close>

definition de_field :: "(string, json) fmap \<Rightarrow> string \<Rightarrow> (json \<Rightarrow> stored_error + 'a) \<Rightarrow> stored_error + 'a" where
  "de_field m k f = (case fmlookup m k of None \<Rightarrow> Inl Serde | Some v \<Rightarrow> f v)"

definition de_opt :: "(json \<Rightarrow> stored_error + 'a) \<Rightarrow> json \<Rightarrow> stored_error + 'a option" where
  "de_opt f v = (if v = JNull then Inr None else and_then (f v) (\<lambda>x. Inr (Some x)))"

definition de_opt_field ::
  "(string, json) fmap \<Rightarrow> string \<Rightarrow> (json \<Rightarrow> stored_error + 'a) \<Rightarrow> stored_error + 'a option" where
  "de_opt_field m k f = (case fmlookup m k of None \<Rightarrow> Inr None | Some v \<Rightarrow> de_opt f v)"

definition de_default ::
  "(string, json) fmap \<Rightarrow> string \<Rightarrow> 'a \<Rightarrow> (json \<Rightarrow> stored_error + 'a) \<Rightarrow> stored_error + 'a" where
  "de_default m k d f = (case fmlookup m k of None \<Rightarrow> Inr d | Some v \<Rightarrow> f v)"

section \<open>Values as JSON.stringify writes them (stored.rs, js\_numbers)\<close>

definition js_integral :: "f64 \<Rightarrow> int option" where
  "js_integral x = (case f64_int x of Some i \<Rightarrow> if \<bar>i\<bar> < 2 ^ 53 then Some i else None | None \<Rightarrow> None)"

definition drop_nulls :: "(string, json) fmap \<Rightarrow> (string, json) fmap" where
  "drop_nulls m = fmfilter (\<lambda>k. fmlookup m k \<noteq> Some JNull) m"

primrec js_numbers :: "json \<Rightarrow> json" where
  "js_numbers JNull = JNull"
| "js_numbers (JBool b) = JBool b"
| "js_numbers (JInt i) = JInt i"
| "js_numbers (JFloat x) = (case js_integral x of Some i \<Rightarrow> JInt i | None \<Rightarrow> JFloat x)"
| "js_numbers (JStr t) = JStr t"
| "js_numbers (JArr vs) = JArr (map js_numbers vs)"
| "js_numbers (JObj m) = JObj (drop_nulls (fmmap js_numbers m))"

section \<open>The text of a value\<close>

record json_text =
  jt_print :: "json \<Rightarrow> octet list option"
  jt_parse :: "octet list \<Rightarrow> json option"

text \<open>Values all of whose numbers are integers a \<^verbatim>\<open>u64\<close> or an \<^verbatim>\<open>i64\<close> holds.\<close>

primrec json_whole :: "json \<Rightarrow> bool" where
  "json_whole JNull \<longleftrightarrow> True"
| "json_whole (JBool b) \<longleftrightarrow> True"
| "json_whole (JInt i) \<longleftrightarrow> - (2 ^ 63) \<le> i \<and> i < 2 ^ 64"
| "json_whole (JFloat x) \<longleftrightarrow> False"
| "json_whole (JStr t) \<longleftrightarrow> utf8_ok t"
| "json_whole (JArr vs) \<longleftrightarrow> list_all id (map json_whole vs)"
| "json_whole (JObj m) \<longleftrightarrow> fmpred (\<lambda>_ b. b) (fmmap json_whole m)"

text \<open>
  How deeply a value nests lists and objects. serde_json reads at most 127 levels (its recursion limit
  of 128 is an error when reached), so that is what is relied on; the records of the agent have six.
\<close>

primrec json_within :: "json \<Rightarrow> nat \<Rightarrow> bool" where
  "json_within JNull n \<longleftrightarrow> True"
| "json_within (JBool b) n \<longleftrightarrow> True"
| "json_within (JInt i) n \<longleftrightarrow> True"
| "json_within (JFloat x) n \<longleftrightarrow> True"
| "json_within (JStr t) n \<longleftrightarrow> True"
| "json_within (JArr vs) n \<longleftrightarrow> 0 < n \<and> list_all (\<lambda>f. f (n - 1)) (map json_within vs)"
| "json_within (JObj m) n \<longleftrightarrow> 0 < n \<and> fmpred (\<lambda>_ f. f (n - 1)) (fmmap json_within m)"

definition json_text_ok :: "json_text \<Rightarrow> bool" where
  "json_text_ok J \<longleftrightarrow>
     (\<forall>v. json_whole v \<longrightarrow> json_within v 127 \<longrightarrow> (\<exists>b. jt_print J v = Some b \<and> jt_parse J b = Some v))"

section \<open>Laws\<close>

lemma js_numbers_null_iff [simp]: "js_numbers v = JNull \<longleftrightarrow> v = JNull"
  by (cases v) (simp_all split: option.splits)

text \<open>What becomes of a field, and of an object's fields one by one.\<close>

definition js_field :: "json \<Rightarrow> json option" where
  "js_field v = (if v = JNull then None else Some (js_numbers v))"

lemma fmlookup_js_numbers: "fmlookup (drop_nulls (fmmap js_numbers m)) k = Option.bind (fmlookup m k) js_field"
  by (cases "fmlookup m k") (auto simp: drop_nulls_def js_field_def)

definition js_whole :: "(string, json) fmap \<Rightarrow> bool" where
  "js_whole m \<longleftrightarrow> (\<forall>k v. fmlookup m k = Some v \<longrightarrow> json_whole (js_numbers v))"

lemma js_whole_obj: "js_whole m \<Longrightarrow> json_whole (js_numbers (JObj m))"
  by (auto simp: js_whole_def fmpred_iff fmlookup_js_numbers js_field_def split: if_splits)

lemma js_whole_of_list: "list_all (\<lambda>(k, v). json_whole (js_numbers v)) fs \<Longrightarrow> js_whole (fmap_of_list fs)"
  by (auto simp: js_whole_def fmlookup_of_list list_all_iff dest!: map_of_SomeD)

lemma js_whole_upd: "js_whole m \<Longrightarrow> json_whole (js_numbers v) \<Longrightarrow> js_whole (fmupd k v m)"
  by (simp add: js_whole_def)

lemma js_whole_drop: "js_whole m \<Longrightarrow> js_whole (fmdrop k m)"
  by (simp add: js_whole_def)

lemma js_field_simps [simp]:
  "js_field JNull = None" "js_field (JStr t) = Some (JStr t)" "js_field (JBool b) = Some (JBool b)"
  "js_field (JInt i) = Some (JInt i)" "js_field (JArr vs) = Some (js_numbers (JArr vs))"
  "js_field (JObj m) = Some (js_numbers (JObj m))"
  by (simp_all add: js_field_def)

lemma json_opt_simps [simp]: "json_opt f None = JNull" "json_opt f (Some x) = f x"
  by (simp_all add: json_opt_def)

section \<open>Nesting\<close>

lemma json_within_nested [simp]:
  "json_within (JArr vs) n \<longleftrightarrow> 0 < n \<and> (\<forall>v\<in>set vs. json_within v (n - 1))"
  "json_within (JObj m) n \<longleftrightarrow> 0 < n \<and> (\<forall>k v. fmlookup m k = Some v \<longrightarrow> json_within v (n - 1))"
  by (auto simp: list_all_iff fmpred_iff)

declare json_within.simps(6,7) [simp del]

lemma json_within_mono: "json_within v n \<Longrightarrow> n \<le> n' \<Longrightarrow> json_within v n'"
proof (induction v arbitrary: n n')
  case (JArr vs)
  then have "n - 1 \<le> n' - 1" by simp
  with JArr show ?case by auto
next
  case (JObj m)
  show ?case
    unfolding json_within_nested(2)
  proof (intro conjI allI impI)
    show "0 < n'" using JObj.prems by simp
    fix k v assume l: "fmlookup m k = Some v"
    then have "json_within v (n - 1)" using JObj.prems(1) by simp
    from JObj.IH [OF fmran'I [OF l] this] JObj.prems(2) show "json_within v (n' - 1)" by simp
  qed
qed simp_all

lemma json_within_js: "json_within v n \<Longrightarrow> json_within (js_numbers v) n"
proof (induction v arbitrary: n)
  case (JObj m)
  then show ?case by (auto simp: fmlookup_js_numbers js_field_def intro: fmran'I split: if_splits)
qed (auto split: option.splits)

lemma json_within_of_list:
  "0 < n \<Longrightarrow> list_all (\<lambda>(k, v). json_within v (n - 1)) fs \<Longrightarrow> json_within (JObj (fmap_of_list fs)) n"
  by (auto simp: fmlookup_of_list list_all_iff dest!: map_of_SomeD)

lemma json_within_leaf [simp]:
  "json_within (json_f64 x) n" "json_within (json_u64 c) n" "json_within (json_nat k) n"
  "json_within (json_list f xs) n \<longleftrightarrow> 0 < n \<and> (\<forall>x\<in>set xs. json_within (f x) (n - 1))"
  by (simp_all add: json_f64_def json_u64_def json_nat_def json_list_def)

lemma json_within_opt: "(\<And>y. json_within (f y) n) \<Longrightarrow> json_within (json_opt f x) n"
  by (cases x) simp_all

section \<open>Optional fields\<close>

lemma de_opt_js_field:
  "(\<And>y. x = Some y \<Longrightarrow> f y \<noteq> JNull \<and> d (js_numbers (f y)) = Inr y) \<Longrightarrow>
   (case js_field (json_opt f x) of None \<Rightarrow> Inr None | Some v \<Rightarrow> de_opt d v) = Inr x"
  by (cases x) (simp_all add: js_field_def de_opt_def)

lemma json_whole_js_opt:
  "(\<And>y. x = Some y \<Longrightarrow> json_whole (js_numbers (f y))) \<Longrightarrow> json_whole (js_numbers (json_opt f x))"
  by (cases x) simp_all

lemma js_integral_whole: "f64_whole x \<Longrightarrow> js_integral x = f64_int x"
  by (erule f64_wholeE) (simp add: js_integral_def)

lemma de_f64_js: "f64_whole x \<Longrightarrow> de_f64 (js_numbers (json_f64 x)) = Inr x"
  by (erule f64_wholeE) (simp add: json_f64_def de_f64_def js_integral_def f64_of_int_finite)

lemma json_f64_not_null: "f64_whole x \<Longrightarrow> json_f64 x \<noteq> JNull"
  by (simp add: json_f64_def f64_whole_finite)

lemma js_field_f64: "f64_whole x \<Longrightarrow> js_field (json_f64 x) = Some (js_numbers (json_f64 x))"
  by (simp add: js_field_def json_f64_not_null)

lemma de_u64_json: "de_u64 (json_u64 c) = Inr c"
proof -
  have "uint c < 2 ^ 64" using unsigned_less [of c] by simp
  then show ?thesis by (simp add: de_u64_def json_u64_def de_nat_def u64_max_def)
qed

lemma de_nat_json: "n \<le> mx \<Longrightarrow> de_nat mx (json_nat n) = Inr n"
  by (simp add: de_nat_def json_nat_def)

lemma de_all_map:
  "(\<And>x. x \<in> set xs \<Longrightarrow> f (g x) = Inr (h x)) \<Longrightarrow> de_all f (map g xs) = Inr (map h xs)"
  by (induction xs) simp_all

lemma json_whole_js_f64: "f64_whole x \<Longrightarrow> json_whole (js_numbers (json_f64 x))"
  by (erule f64_wholeE) (auto simp: json_f64_def js_integral_def f64_of_int_finite abs_if split: if_splits)

instance json :: countable by countable_datatype

end
