(* ===== verification/Conversation_Kv.thy ===== *)
theory Conversation_Kv
  imports Json
begin

text \<open>
  Where the conversation store's records live (\<^verbatim>\<open>kernel/conversations/kv.rs\<close>): a key-value
  store every call of which may fail. A failed write may or may not have taken effect. The locale
  \<^verbatim>\<open>conversation_kv\<close> is the contract of the trait \<^verbatim>\<open>ConversationKv\<close>; the store's computations
  are functions of the key-value state that return a result, an error or a panic, composed by
  \<^verbatim>\<open>kbind\<close>.
\<close>

datatype kv_error = KvErr string | StoredErr stored_error

datatype 'a res = KOk 'a | KErr kv_error | KPanic

text \<open>What a call does: what it should, or fail, having or not having changed what is stored.\<close>

datatype fault = Fine | Fault string bool

record kv =
  kv_map :: "string \<Rightarrow> octet list option"
  kv_faults :: "fault list"

type_synonym 'a kvm = "kv \<Rightarrow> 'a res \<times> kv"

definition next_fault :: "kv \<Rightarrow> fault \<times> kv" where
  "next_fault s = (case kv_faults s of [] \<Rightarrow> (Fine, s) | f # fs \<Rightarrow> (f, s\<lparr>kv_faults := fs\<rparr>))"

definition kv_get :: "string \<Rightarrow> octet list option kvm" where
  "kv_get key s =
     (case next_fault s of
        (Fine, s) \<Rightarrow> (KOk (kv_map s key), s)
      | (Fault e _, s) \<Rightarrow> (KErr (KvErr e), s))"

definition kv_put :: "string \<Rightarrow> octet list option \<Rightarrow> unit kvm" where
  "kv_put key v s =
     (case next_fault s of
        (Fine, s) \<Rightarrow> (KOk (), s\<lparr>kv_map := (kv_map s)(key := v)\<rparr>)
      | (Fault e applied, s) \<Rightarrow>
          (KErr (KvErr e), if applied then s\<lparr>kv_map := (kv_map s)(key := v)\<rparr> else s))"

definition kv_set :: "string \<Rightarrow> octet list \<Rightarrow> unit kvm" where "kv_set key v = kv_put key (Some v)"
definition kv_delete :: "string \<Rightarrow> unit kvm" where "kv_delete key = kv_put key None"

text \<open>The keys there are, in the order of \<^verbatim>\<open>order\<close>: the code relies on none.\<close>

definition kv_keys :: "string list \<Rightarrow> string list kvm" where
  "kv_keys order s =
     (case next_fault s of
        (Fine, s) \<Rightarrow> (KOk (filter (\<lambda>k. kv_map s k \<noteq> None) order), s)
      | (Fault e _, s) \<Rightarrow> (KErr (KvErr e), s))"

definition kret :: "'a \<Rightarrow> 'a kvm" where "kret x s = (KOk x, s)"
definition kpanic :: "'a kvm" where "kpanic s = (KPanic, s)"

definition klift :: "stored_error + 'a \<Rightarrow> 'a kvm" where
  "klift r s = (case r of Inl e \<Rightarrow> (KErr (StoredErr e), s) | Inr x \<Rightarrow> (KOk x, s))"

definition kbind :: "'a kvm \<Rightarrow> ('a \<Rightarrow> 'b kvm) \<Rightarrow> 'b kvm" where
  "kbind m f s =
     (case m s of
        (KOk x, s) \<Rightarrow> f x s
      | (KErr e, s) \<Rightarrow> (KErr e, s)
      | (KPanic, s) \<Rightarrow> (KPanic, s))"

section \<open>The contract of a key-value store\<close>

locale conversation_kv =
  fixes get :: "string \<Rightarrow> 's \<Rightarrow> octet list option res \<times> 's"
    and put :: "string \<Rightarrow> octet list option \<Rightarrow> 's \<Rightarrow> unit res \<times> 's"
    and contents :: "'s \<Rightarrow> string \<Rightarrow> octet list option"
  assumes get_keeps: "get k s = (r, s') \<Longrightarrow> contents s' = contents s"
    and get_reads: "get k s = (KOk v, s') \<Longrightarrow> v = contents s k"
    and put_done: "put k v s = (KOk u, s') \<Longrightarrow> contents s' = (contents s)(k := v)"
    and put_some: "put k v s = (q, s') \<Longrightarrow> contents s' = contents s \<or> contents s' = (contents s)(k := v)"
begin

lemma put_other: "put k v s = (r, s') \<Longrightarrow> j \<noteq> k \<Longrightarrow> contents s' j = contents s j"
  using put_some by fastforce

lemma put_same: "put k v s = (r, s') \<Longrightarrow> contents s' k = contents s k \<or> contents s' k = v"
  using put_some by fastforce

lemma get_after_put:
  "put k v s = (KOk u, s1) \<Longrightarrow> get j s1 = (KOk w, s2) \<Longrightarrow> w = (if j = k then v else contents s j)"
  using put_done get_reads by fastforce

end

interpretation kvs: conversation_kv kv_get kv_put kv_map
  by unfold_locales
    (auto simp: kv_get_def kv_put_def next_fault_def split: list.splits fault.splits if_splits)

section \<open>Triples\<close>

text \<open>
  \<^verbatim>\<open>runs P m Q E\<close>: from a state with \<^verbatim>\<open>P\<close>, a computation that returns ends in \<^verbatim>\<open>Q\<close>, and one
  that fails or panics leaves a state with \<^verbatim>\<open>E\<close>.
\<close>

definition runs :: "(kv \<Rightarrow> bool) \<Rightarrow> 'a kvm \<Rightarrow> ('a \<Rightarrow> kv \<Rightarrow> bool) \<Rightarrow> (kv \<Rightarrow> bool) \<Rightarrow> bool" where
  "runs P m Q E \<longleftrightarrow>
     (\<forall>s. P s \<longrightarrow> (case m s of (KOk x, s') \<Rightarrow> Q x s' | (KErr e, s') \<Rightarrow> E s' | (KPanic, s') \<Rightarrow> E s'))"

lemma runsD_ok: "runs P m Q E \<Longrightarrow> P s \<Longrightarrow> m s = (KOk x, s') \<Longrightarrow> Q x s'"
  by (auto simp: runs_def)

lemma runsD_err: "runs P m Q E \<Longrightarrow> P s \<Longrightarrow> m s = (KErr e, s') \<Longrightarrow> E s'"
  by (auto simp: runs_def)

lemma runsD_any: "runs P m (\<lambda>_. Q) Q \<Longrightarrow> P s \<Longrightarrow> m s = (r, s') \<Longrightarrow> Q s'"
  by (cases r) (auto simp: runs_def)

lemma runs_pre: "runs P' m Q E \<Longrightarrow> (\<And>s. P s \<Longrightarrow> P' s) \<Longrightarrow> runs P m Q E"
  by (auto simp: runs_def)

lemma runs_conseq:
  assumes "runs P' m Q' E'" and "\<And>s. P s \<Longrightarrow> P' s" and "\<And>x s. Q' x s \<Longrightarrow> Q x s" and "\<And>s. E' s \<Longrightarrow> E s"
  shows "runs P m Q E"
  unfolding runs_def
proof (intro allI impI)
  fix s assume "P s"
  with assms(1,2) have "case m s of (KOk x, s') \<Rightarrow> Q' x s' | (KErr e, s') \<Rightarrow> E' s' | (KPanic, s') \<Rightarrow> E' s'"
    by (simp add: runs_def)
  with assms(3,4) show "case m s of (KOk x, s') \<Rightarrow> Q x s' | (KErr e, s') \<Rightarrow> E s' | (KPanic, s') \<Rightarrow> E s'"
    by (auto split: prod.splits res.splits)
qed

lemma runs_bind:
  assumes "runs P m R E" and "\<And>x. runs (R x) (f x) Q E"
  shows "runs P (kbind m f) Q E"
  unfolding runs_def
proof (intro allI impI)
  fix s assume "P s"
  obtain r s1 where m: "m s = (r, s1)" by fastforce
  show "case kbind m f s of (KOk x, s') \<Rightarrow> Q x s' | (KErr e, s') \<Rightarrow> E s' | (KPanic, s') \<Rightarrow> E s'"
  proof (cases r)
    case (KOk x)
    have "R x s1" using runsD_ok [OF assms(1) \<open>P s\<close>] m KOk by simp
    with assms(2) [of x] KOk m show ?thesis by (simp add: kbind_def runs_def)
  qed (use assms(1) \<open>P s\<close> m in \<open>auto simp: runs_def kbind_def\<close>)
qed

lemma runs_ret [intro]: "(\<And>s. P s \<Longrightarrow> Q x s) \<Longrightarrow> runs P (kret x) Q E"
  by (simp add: runs_def kret_def)

lemma runs_panic [intro]: "(\<And>s. P s \<Longrightarrow> E s) \<Longrightarrow> runs P kpanic Q E"
  by (simp add: runs_def kpanic_def)

lemma runs_lift:
  "(\<And>x s. P s \<Longrightarrow> r = Inr x \<Longrightarrow> Q x s) \<Longrightarrow> (\<And>s. P s \<Longrightarrow> E s) \<Longrightarrow> runs P (klift r) Q E"
  by (simp add: runs_def klift_def split: sum.split)

text \<open>Reading changes nothing that is stored; writing changes at most the one key.\<close>

lemma runs_get:
  assumes "\<And>s s' . P s \<Longrightarrow> kv_map s' = kv_map s \<Longrightarrow> Q (kv_map s key) s' \<and> E s'"
  shows "runs P (kv_get key) Q E"
  unfolding runs_def
proof (intro allI impI)
  fix s assume P: "P s"
  obtain r s' where g: "kv_get key s = (r, s')" by fastforce
  from assms [OF P kvs.get_keeps [OF g]]
  show "case kv_get key s of (KOk x, s') \<Rightarrow> Q x s' | (KErr e, s') \<Rightarrow> E s' | (KPanic, s') \<Rightarrow> E s'"
    using g kvs.get_reads [of key s] by (auto split: res.split)
qed

lemma runs_put:
  assumes "\<And>s s'. P s \<Longrightarrow> kv_map s' = (kv_map s)(key := v) \<Longrightarrow> Q () s' \<and> E s'"
    and "\<And>s s'. P s \<Longrightarrow> kv_map s' = kv_map s \<Longrightarrow> E s'"
  shows "runs P (kv_put key v) Q E"
  unfolding runs_def
proof (intro allI impI)
  fix s assume P: "P s"
  obtain r s' where g: "kv_put key v s = (r, s')" by fastforce
  show "case kv_put key v s of (KOk x, s') \<Rightarrow> Q x s' | (KErr e, s') \<Rightarrow> E s' | (KPanic, s') \<Rightarrow> E s'"
  proof (cases r)
    case (KOk u)
    with assms(1) [OF P kvs.put_done] g show ?thesis by simp
  next
    case (KErr e)
    with kvs.put_some [OF g] assms P g show ?thesis by auto
  next
    case KPanic
    with kvs.put_some [OF g] assms P g show ?thesis by auto
  qed
qed

text \<open>A call that does not fail.\<close>

definition fine :: "kv \<Rightarrow> bool" where "fine s \<longleftrightarrow> kv_faults s = []"

lemma fine_get [simp]: "fine s \<Longrightarrow> kv_get key s = (KOk (kv_map s key), s)"
  by (simp add: fine_def kv_get_def next_fault_def)

lemma fine_keys [simp]: "fine s \<Longrightarrow> kv_keys order s = (KOk (filter (\<lambda>k. kv_map s k \<noteq> None) order), s)"
  by (simp add: fine_def kv_keys_def next_fault_def)

lemma keys_keeps: "kv_keys order s = (r, s') \<Longrightarrow> kv_map s' = kv_map s"
  by (auto simp: kv_keys_def next_fault_def split: list.splits fault.splits)

lemma fine_put [simp]:
  "fine s \<Longrightarrow> kv_put key v s = (KOk (), s\<lparr>kv_map := (kv_map s)(key := v)\<rparr>)"
  by (simp add: fine_def kv_put_def next_fault_def)

lemma fine_map [simp]: "fine (s\<lparr>kv_map := m\<rparr>) \<longleftrightarrow> fine s"
  by (simp add: fine_def)

lemma kbind_simps [simp]:
  "m s = (KOk x, s') \<Longrightarrow> kbind m f s = f x s'"
  "kbind (kret x) f = f x" "kbind (klift (Inr x)) f = f x"
  by (simp_all add: kbind_def kret_def klift_def fun_eq_iff)

end
