(* ===== verification/Reactions.thy ===== *)
theory Reactions
  imports Commands
begin

text \<open>
  Reactions (\<^verbatim>\<open>kernel/conversations/reactions.rs\<close>): the stored list and how one change folds
  into it.
\<close>

record reaction =
  r_emoji :: utext
  r_cid :: "64 word"
  r_at :: f64
  r_active :: bool

definition REACTION_EMOJIS :: "utext list" where
  "REACTION_EMOJIS =
     [[0xf0, 0x9f, 0x91, 0x8d], [0xe2, 0x9d, 0xa4, 0xef, 0xb8, 0x8f], [0xf0, 0x9f, 0x98, 0x82],
      [0xf0, 0x9f, 0x98, 0xae], [0xf0, 0x9f, 0x98, 0xa2], [0xf0, 0x9f, 0x8e, 0x89]]"

definition reaction_value :: "reaction \<Rightarrow> cvalue" where
  "reaction_value r =
     object [(lit ''emoji'', Text (r_emoji r)), (lit ''reactorCid'', bigint (r_cid r)),
             (lit ''at'', number (r_at r)), (lit ''active'', Bool (r_active r))]"

definition encode_reactions :: "reaction list \<Rightarrow> octet list option" where
  "encode_reactions rs = (if rs = [] then None else Some (encode (Array (map reaction_value rs))))"

definition reaction_of :: "cvalue \<Rightarrow> reaction option" where
  "reaction_of item =
     do {
       emoji \<leftarrow> Option.bind (cget item (lit ''emoji'')) as_str;
       reactor \<leftarrow> Option.bind (cget item (lit ''reactorCid'')) as_bigint;
       at \<leftarrow> Option.bind (cget item (lit ''at'')) as_number;
       active \<leftarrow> Option.bind (cget item (lit ''active'')) as_bool;
       Some \<lparr>r_emoji = emoji, r_cid = reactor, r_at = at, r_active = active\<rparr>
     }"

definition decode_reactions :: "nan_choice \<Rightarrow> octet list \<Rightarrow> reaction list option" where
  "decode_reactions nans bytes =
     (case decode nans bytes of
        Inr (Array items) \<Rightarrow>
          (let rs = List.map_filter reaction_of items in if rs = [] then None else Some rs)
      | _ \<Rightarrow> None)"

definition same_reaction :: "reaction \<Rightarrow> reaction \<Rightarrow> bool" where
  "same_reaction change r \<longleftrightarrow> r_cid r = r_cid change \<and> r_emoji r = r_emoji change"

definition fold_reaction :: "reaction list option \<Rightarrow> reaction \<Rightarrow> reaction list option" where
  "fold_reaction current change =
     (if r_emoji change \<notin> set REACTION_EMOJIS \<or> \<not> is_finite (r_at change) then None
      else
        (let rs = (case current of Some rs \<Rightarrow> rs | None \<Rightarrow> [])
         in case List.find (same_reaction change) rs of
              Some held \<Rightarrow>
                if f64_ge (r_at held) (r_at change) then None
                else Some (map (\<lambda>r. if same_reaction change r then change else r) rs)
            | None \<Rightarrow> Some (rs @ [change])))"

section \<open>A history of changes\<close>

text \<open>A change that changes nothing leaves what is stored.\<close>

definition react :: "reaction list \<Rightarrow> reaction \<Rightarrow> reaction list" where
  "react rs c = (case fold_reaction (Some rs) c of Some rs' \<Rightarrow> rs' | None \<Rightarrow> rs)"

definition accepted :: "reaction \<Rightarrow> bool" where
  "accepted c \<longleftrightarrow> r_emoji c \<in> set REACTION_EMOJIS \<and> is_finite (r_at c)"

definition slot :: "reaction \<Rightarrow> 64 word \<times> utext" where "slot r = (r_cid r, r_emoji r)"

definition held :: "reaction list \<Rightarrow> 64 word \<times> utext \<Rightarrow> reaction option" where
  "held rs k = List.find (\<lambda>r. slot r = k) rs"

text \<open>The newest of the accepted changes to one slot, as a specification.\<close>

definition newest :: "reaction set \<Rightarrow> 64 word \<times> utext \<Rightarrow> reaction option \<Rightarrow> bool" where
  "newest S k r \<longleftrightarrow>
     (case r of
        None \<Rightarrow> \<forall>c \<in> S. \<not> (accepted c \<and> slot c = k)
      | Some r \<Rightarrow> r \<in> S \<and> accepted r \<and> slot r = k \<and>
          (\<forall>c \<in> S. accepted c \<and> slot c = k \<longrightarrow> f64_key (r_at c) \<le> f64_key (r_at r)))"

lemma same_reaction_slot: "same_reaction c = (\<lambda>r. slot r = slot c)"
  by (auto simp: same_reaction_def slot_def)

lemma react_eq:
  "react rs c =
     (if \<not> accepted c then rs
      else case held rs (slot c) of
             None \<Rightarrow> rs @ [c]
           | Some h \<Rightarrow> if f64_ge (r_at h) (r_at c) then rs else map (\<lambda>r. if slot r = slot c then c else r) rs)"
  by (auto simp: react_def fold_reaction_def accepted_def held_def same_reaction_slot split: option.splits)

lemma held_Nil [simp]: "held [] k = None"
  by (simp add: held_def)

lemma held_slot: "held rs k = Some r \<Longrightarrow> slot r = k"
  by (auto simp: held_def find_Some_iff)

lemma held_append: "held (rs @ [c]) k = (case held rs k of Some r \<Rightarrow> Some r | None \<Rightarrow> if slot c = k then Some c else None)"
  by (induction rs) (simp_all add: held_def)

lemma held_map:
  "held (map (\<lambda>r. if slot r = slot c then c else r) rs) k =
     (if k = slot c then map_option (\<lambda>_. c) (held rs k) else held rs k)"
  by (induction rs) (auto simp: held_def)

lemma held_react:
  "held (react rs c) k =
     (if accepted c \<and> slot c = k then
        (case held rs k of Some h \<Rightarrow> if f64_ge (r_at h) (r_at c) then Some h else Some c | None \<Rightarrow> Some c)
      else held rs k)"
  unfolding react_eq
  by (auto simp: held_append held_map split: option.splits)

lemma newest_react:
  assumes "newest S k (held rs k)"
  shows "newest (insert c S) k (held (react rs c) k)"
proof (cases "accepted c \<and> slot c = k")
  case True
  show ?thesis
  proof (cases "held rs k")
    case None
    with assms True show ?thesis by (auto simp: held_react newest_def)
  next
    case (Some h)
    with assms have h: "accepted h" by (simp add: newest_def)
    with True have ge: "f64_ge (r_at h) (r_at c) \<longleftrightarrow> f64_key (r_at c) \<le> f64_key (r_at h)"
      by (simp add: f64_ge_def accepted_def finite_not_nan)
    show ?thesis
    proof (cases "f64_ge (r_at h) (r_at c)")
      case True
      with assms Some ge \<open>accepted c \<and> slot c = k\<close> show ?thesis by (auto simp: held_react newest_def)
    next
      case False
      with assms Some ge True show ?thesis by (force simp: held_react newest_def)
    qed
  qed
next
  case False
  then have "held (react rs c) k = held rs k" by (auto simp: held_react)
  with assms False show ?thesis by (auto simp: newest_def split: option.splits)
qed

lemma newest_run: "newest (set cs) k (held (foldl react [] cs) k)"
proof (induction cs rule: rev_induct)
  case Nil
  show ?case by (simp add: newest_def)
next
  case (snoc c cs)
  from newest_react [OF snoc, of c] show ?case by simp
qed

text \<open>
  The whole history decides which: of the newest accepted changes to a slot, the one that came
  first.
\<close>

definition newest_in :: "reaction list \<Rightarrow> 64 word \<times> utext \<Rightarrow> reaction \<Rightarrow> bool" where
  "newest_in cs k c \<longleftrightarrow> accepted c \<and> slot c = k \<and>
     list_all (\<lambda>d. accepted d \<and> slot d = k \<longrightarrow> f64_key (r_at d) \<le> f64_key (r_at c)) cs"

lemma find_append: "List.find P (xs @ ys) = (case List.find P xs of Some x \<Rightarrow> Some x | None \<Rightarrow> List.find P ys)"
  by (induction xs) simp_all

lemma find_stays:
  "\<lbrakk>List.find P xs = Some x; Q x; \<And>y. y \<in> set xs \<Longrightarrow> Q y \<Longrightarrow> P y\<rbrakk> \<Longrightarrow> List.find Q xs = Some x"
  by (induction xs) (auto split: if_splits)

lemma held_first_newest: "held (foldl react [] cs) k = List.find (newest_in cs k) cs"
proof (induction cs rule: rev_induct)
  case (snoc c cs)
  have older: "newest_in cs k d" if "newest_in (cs @ [c]) k d" for d using that by (simp add: newest_in_def)
  show ?case
  proof (cases "accepted c \<and> slot c = k")
    case False
    then have "newest_in (cs @ [c]) k = newest_in cs k" "\<not> newest_in cs k c" by (auto simp: newest_in_def)
    with snoc False show ?thesis by (auto simp: held_react find_append split: option.split)
  next
    case True
    show ?thesis
    proof (cases "held (foldl react [] cs) k")
      case None
      with newest_run [of cs k] have none: "\<forall>d \<in> set cs. \<not> (accepted d \<and> slot d = k)" by (simp add: newest_def)
      then have "List.find (newest_in (cs @ [c]) k) cs = None" "newest_in (cs @ [c]) k c"
        using True by (auto simp: find_None_iff newest_in_def list_all_iff)
      with None True show ?thesis by (simp add: held_react find_append)
    next
      case (Some h)
      with newest_run [of cs k] have h: "accepted h" "newest_in cs k h"
        by (auto simp: newest_def newest_in_def list_all_iff)
      then have ge: "f64_ge (r_at h) (r_at c) \<longleftrightarrow> f64_key (r_at c) \<le> f64_key (r_at h)"
        using True by (simp add: f64_ge_def accepted_def finite_not_nan)
      show ?thesis
      proof (cases "f64_ge (r_at h) (r_at c)")
        case True
        with ge h have "newest_in (cs @ [c]) k h" by (simp add: newest_in_def)
        then have "List.find (newest_in (cs @ [c]) k) cs = Some h"
          using find_stays [OF trans [OF snoc [symmetric] Some]] older by blast
        with Some True show ?thesis by (simp add: held_react find_append)
      next
        case False
        have "h \<in> set cs" using newest_run [of cs k] Some by (simp add: newest_def)
        have "f64_key (r_at d) < f64_key (r_at c)" if "d \<in> set cs" "accepted d" "slot d = k" for d
          using that h False ge by (force simp: newest_in_def list_all_iff)
        then have "List.find (newest_in (cs @ [c]) k) cs = None" "newest_in (cs @ [c]) k c"
          using True by (fastforce simp: find_None_iff newest_in_def list_all_iff)+
        with Some True False show ?thesis by (simp add: held_react find_append)
      qed
    qed
  qed
qed simp

lemma newest_same_time:
  "\<lbrakk>newest S k a; newest S k b\<rbrakk> \<Longrightarrow> map_option (f64_key \<circ> r_at) a = map_option (f64_key \<circ> r_at) b"
proof (cases a; cases b)
  fix r r' assume "newest S k a" "newest S k b" "a = Some r" "b = Some r'"
  then show ?thesis by (simp add: newest_def order_antisym)
qed (auto simp: newest_def)

lemma newest_unique:
  assumes "newest S k a" "newest S k b"
    and ties: "\<And>c d. c \<in> S \<Longrightarrow> d \<in> S \<Longrightarrow> slot c = slot d \<Longrightarrow> f64_key (r_at c) = f64_key (r_at d) \<Longrightarrow> c = d"
  shows "a = b"
proof (cases a; cases b)
  fix r r' assume ab: "a = Some r" "b = Some r'"
  with assms(1,2) have r: "r \<in> S" "r' \<in> S" "slot r = slot r'" "f64_key (r_at r) \<le> f64_key (r_at r')"
      "f64_key (r_at r') \<le> f64_key (r_at r)" by (auto simp: newest_def)
  then show ?thesis using ties [OF r(1,2,3)] ab by simp
qed (use assms(1,2) in \<open>auto simp: newest_def\<close>)

lemma slots_react: "distinct (map slot rs) \<Longrightarrow> distinct (map slot (react rs c))"
proof -
  assume d: "distinct (map slot rs)"
  have "map (slot \<circ> (\<lambda>r. if slot r = slot c then c else r)) rs = map slot rs" by (rule map_cong) auto
  with d have "distinct (map (slot \<circ> (\<lambda>r. if slot r = slot c then c else r)) rs)" by (simp only:)
  moreover have "slot c \<notin> slot ` set rs" if "held rs (slot c) = None"
    using that by (auto simp: held_def find_None_iff)
  ultimately show ?thesis using d by (auto simp: react_eq split: option.splits)
qed

lemma slots_run: "distinct (map slot (foldl react [] cs))"
  by (induction cs rule: rev_induct) (simp_all add: slots_react)

lemma decode_encode_reactions:
  assumes "list_all (\<lambda>r. text_ok (r_emoji r)) rs" and "length rs < 2 ^ 64"
  shows "(case encode_reactions rs of
      None \<Rightarrow> rs = []
    | Some bytes \<Rightarrow> rs \<noteq> [] \<and> decode_reactions nans bytes = Some (map (\<lambda>r. r\<lparr>r_at := js_number (r_at r)\<rparr>) rs))"
proof (cases "rs = []")
  case False
  have ok: "value_ok 1 (reaction_value r)" if "text_ok (r_emoji r)" for r
    unfolding reaction_value_def using that
    by (subst value_ok_object) (simp_all add: value_ok_Text utf8_lit MAX_DEPTH_def del: value_ok.simps(4))
  have "value_ok 0 (Array (map reaction_value rs))" using assms ok by (simp add: list_all_iff MAX_DEPTH_def)
  moreover have "List.map_filter reaction_of (map reaction_value rs) = map (\<lambda>r. r\<lparr>r_at := js_number (r_at r)\<rparr>) rs"
    by (rule map_filter_Some) (simp add: reaction_of_def reaction_value_def as_number_number)
  ultimately show ?thesis using False by (simp add: encode_reactions_def decode_reactions_def decode_encode del: encode.simps)
qed (simp add: encode_reactions_def)

section \<open>Properties\<close>

text \<open>
  C13. Reactions converge, up to ties. Over any history of changes from an empty list there is at
  most one entry per reactor and emoji, and it is the newest accepted change to it; among accepted
  changes that carry the same newest time it is the one that came first. Two histories of the same
  changes, delivered in different orders and any number of times, therefore end with an entry of the
  same time for every reactor and emoji, and with the same entry whenever no two different changes
  to one slot carry the same time. Without that condition they may differ (\<open>tied_reactions_diverge\<close>).
\<close>

theorem reactions_converge:
  assumes "set cs = set cs'"
  shows "distinct (map slot (foldl react [] cs)) \<and>
    newest (set cs) k (held (foldl react [] cs) k) \<and>
    held (foldl react [] cs) k = List.find (newest_in cs k) cs \<and>
    map_option (f64_key \<circ> r_at) (held (foldl react [] cs) k) =
      map_option (f64_key \<circ> r_at) (held (foldl react [] cs') k) \<and>
    ((\<forall>c d. c \<in> set cs \<and> d \<in> set cs \<and> slot c = slot d \<and> f64_key (r_at c) = f64_key (r_at d) \<longrightarrow> c = d) \<longrightarrow>
      held (foldl react [] cs) k = held (foldl react [] cs') k)"
proof (intro conjI impI)
  have other: "newest (set cs) k (held (foldl react [] cs') k)" using newest_run [of cs' k] assms by simp
  show "map_option (f64_key \<circ> r_at) (held (foldl react [] cs) k) =
      map_option (f64_key \<circ> r_at) (held (foldl react [] cs') k)"
    by (rule newest_same_time [OF newest_run other])
  show "held (foldl react [] cs) k = held (foldl react [] cs') k"
    if "\<forall>c d. c \<in> set cs \<and> d \<in> set cs \<and> slot c = slot d \<and> f64_key (r_at c) = f64_key (r_at d) \<longrightarrow> c = d"
    using newest_unique [OF newest_run other] that by blast
qed (rule slots_run newest_run held_first_newest)+

definition thumbs_up :: "f64 \<Rightarrow> bool \<Rightarrow> reaction" where
  "thumbs_up at active = \<lparr>r_emoji = [0xf0, 0x9f, 0x91, 0x8d], r_cid = 7, r_at = at, r_active = active\<rparr>"

theorem reactions_converge_witness:
  "held (foldl react [] [thumbs_up 1 True, thumbs_up 2 False]) (slot (thumbs_up 1 True)) =
   held (foldl react [] [thumbs_up 2 False, thumbs_up 1 True, thumbs_up 2 False]) (slot (thumbs_up 1 True))"
proof -
  have keys: "f64_key (r_at (thumbs_up 1 a)) = 1" "f64_key (r_at (thumbs_up 2 a)) = 2" for a
    by (simp_all add: thumbs_up_def f64_key_def f64_sign_def)
  let ?cs = "[thumbs_up 1 True, thumbs_up 2 False]"
  have ties: "c = d" if "c \<in> set ?cs" "d \<in> set ?cs" "slot c = slot d" "f64_key (r_at c) = f64_key (r_at d)" for c d
  proof -
    from that(1,2) have "c = thumbs_up 1 True \<or> c = thumbs_up 2 False" "d = thumbs_up 1 True \<or> d = thumbs_up 2 False"
      by (simp_all only: list.set insert_iff empty_iff simp_thms)
    with that(4) show ?thesis by (elim disjE; hypsubst_thin; simp add: keys)
  qed
  have "set ?cs = set [thumbs_up 2 False, thumbs_up 1 True, thumbs_up 2 False]" by (simp add: insert_commute)
  note converge = reactions_converge [OF this, of "slot (thumbs_up 1 True)"]
  have "\<forall>c d. c \<in> set ?cs \<and> d \<in> set ?cs \<and> slot c = slot d \<and> f64_key (r_at c) = f64_key (r_at d) \<longrightarrow> c = d"
    using ties by (intro allI impI) (elim conjE)
  with converge [THEN conjunct2, THEN conjunct2, THEN conjunct2, THEN conjunct2] show ?thesis by (rule mp)
qed

text \<open>
  Two different changes to one slot at one time: the entry is the one that happened to come first,
  so two devices that receive them in different orders keep different states for good.
\<close>

lemma tied_reactions_diverge:
  "held (foldl react [] [thumbs_up 1 True, thumbs_up 1 False]) (slot (thumbs_up 1 True)) = Some (thumbs_up 1 True)"
  "held (foldl react [] [thumbs_up 1 False, thumbs_up 1 True]) (slot (thumbs_up 1 True)) = Some (thumbs_up 1 False)"
proof -
  have acc: "accepted (thumbs_up 1 a)" for a
    by (simp add: accepted_def thumbs_up_def REACTION_EMOJIS_def is_finite_def f64_exponent_def)
  moreover have time: "r_at (thumbs_up 1 a) = 1" for a by (simp add: thumbs_up_def)
  moreover have "slot (thumbs_up 1 a) = slot (thumbs_up 1 True)" for a by (simp add: slot_def thumbs_up_def)
  ultimately have two: "held (foldl react [] [thumbs_up 1 a, thumbs_up 1 b]) (slot (thumbs_up 1 True)) = Some (thumbs_up 1 a)" for a b
    unfolding held_first_newest by (simp add: newest_in_def time)
  show "held (foldl react [] [thumbs_up 1 True, thumbs_up 1 False]) (slot (thumbs_up 1 True)) = Some (thumbs_up 1 True)"
    "held (foldl react [] [thumbs_up 1 False, thumbs_up 1 True]) (slot (thumbs_up 1 True)) = Some (thumbs_up 1 False)"
    by (rule two)+
qed

text \<open>
  A stored list is read back: every non-empty list of reactions whose emojis are texts is
  stored as bytes that decode to it, a negative zero among the times becoming zero; an empty
  list is stored as nothing, and bytes that are no list, or hold no whole reaction, are no
  reactions.
\<close>

theorem reactions_roundtrip:
  assumes "list_all (\<lambda>r. text_ok (r_emoji r)) rs" and "length rs < 2 ^ 64"
  shows "(case encode_reactions rs of
      None \<Rightarrow> rs = []
    | Some bytes \<Rightarrow> rs \<noteq> [] \<and> decode_reactions nans bytes = Some (map (\<lambda>r. r\<lparr>r_at := js_number (r_at r)\<rparr>) rs))"
  using assms by (rule decode_encode_reactions)

theorem reactions_roundtrip_witness:
  "\<exists>bytes. encode_reactions [thumbs_up 1 True] = Some bytes \<and>
     decode_reactions quiet_nans bytes = Some [(thumbs_up 1 True)\<lparr>r_at := js_number 1\<rparr>]"
proof -
  have "list_all (\<lambda>r. text_ok (r_emoji r)) [thumbs_up 1 True]"
    by (simp add: thumbs_up_def text_ok_def continuation_def)
  from reactions_roundtrip [OF this, of quiet_nans] show ?thesis
    by (simp add: thumbs_up_def split: option.splits)
qed

end
