(* ===== verification/Conversation_Types.thy ===== *)
theory Conversation_Types
  imports Reactions Float64_Arith "HOL-Library.Multiset"
begin

text \<open>
  An account's conversations as the agent keeps them (\<^verbatim>\<open>citadel-internal-service-types,
  conversation.rs\<close>), and the rules that keep a page, its metadata and a message's delivery
  status consistent (\<^verbatim>\<open>kernel/conversations/store_rules.rs\<close>).
\<close>

datatype message_status = StPending | StSent | StDelivered | StRead | StFailed

datatype transfer_mode = ModeAsync | ModeP2p

datatype transfer_state =
    TrPending | TrUploading | TrStaged | TrTransferring | TrComplete | TrDeclined | TrCancelled
  | TrExpired | TrError

record conv_message =
  m_id :: utext
  m_content :: utext
  m_sender_cid :: cid
  m_recipient_cid :: cid
  m_timestamp :: f64
  m_index :: f64
  m_status :: message_status
  m_error :: "utext option"
  m_reply_to :: "utext option"
  m_edited_at :: "f64 option"
  m_reactions :: "reaction list option"
  m_mentions :: "utext list option"
  m_attachments :: "attachment list option"
  m_message_type :: message_type
  m_document_id :: "utext option"
  m_document_title :: "utext option"
  m_transfer_id :: "utext option"
  m_file_name :: "utext option"
  m_file_size :: "f64 option"
  m_file_type :: "utext option"
  m_file_thumbnail :: "utext option"
  m_transfer_mode :: "transfer_mode option"
  m_transfer_state :: "transfer_state option"
  m_transfer_progress :: "f64 option"
  m_virtual_path :: "utext option"

record message_patch =
  pa_status :: "message_status option"
  pa_error :: "utext option"
  pa_transfer_state :: "transfer_state option"
  pa_transfer_progress :: "f64 option"
  pa_virtual_path :: "utext option"
  pa_file_thumbnail :: "utext option"

record metadata =
  md_peer_cid :: cid
  md_owner_cid :: "cid option"
  md_peer_username :: "utext option"
  md_total_message_count :: f64
  md_oldest :: f64
  md_newest :: f64
  md_latest_page :: nat
  md_messages_per_page :: nat
  md_unread_count :: f64
  md_last_message_index :: f64
  md_last_updated :: f64

record page_timestamps =
  min_timestamp :: f64
  max_timestamp :: f64

record page =
  pg_peer_cid :: cid
  pg_number :: nat
  pg_messages :: "conv_message list"
  pg_timestamps :: page_timestamps

section \<open>The rules (store_rules.rs)\<close>

definition empty_page :: "cid \<Rightarrow> nat \<Rightarrow> f64 \<Rightarrow> page" where
  "empty_page peer num at =
     \<lparr>pg_peer_cid = peer, pg_number = num, pg_messages = [],
      pg_timestamps = \<lparr>min_timestamp = at, max_timestamp = at\<rparr>\<rparr>"

text \<open>\<^verbatim>\<open>sort_by\<close> is a stable sort; \<^verbatim>\<open>total_cmp\<close> is the order of the bit patterns.\<close>

definition place :: "page \<Rightarrow> conv_message \<Rightarrow> page" where
  "place page message =
     (let ms = sort_key (\<lambda>m. f64_total_key (m_timestamp m)) (pg_messages page @ [message])
      in page\<lparr>pg_messages := ms,
              pg_timestamps := \<lparr>min_timestamp = m_timestamp (hd ms), max_timestamp = m_timestamp (last ms)\<rparr>\<rparr>)"

definition record_append :: "metadata \<Rightarrow> conv_message \<Rightarrow> bool \<Rightarrow> cid \<Rightarrow> f64 \<Rightarrow> metadata" where
  "record_append md message is_new own now =
     (let md = md\<lparr>md_total_message_count := f64_add (md_total_message_count md) f64_one,
                  md_newest := m_timestamp message\<rparr>;
          md = (if is_new \<or> f64_eq (md_total_message_count md) f64_one \<or> f64_lt (m_timestamp message) (md_oldest md)
                then md\<lparr>md_oldest := m_timestamp message\<rparr> else md);
          md = md\<lparr>md_last_message_index := f64_max (md_last_message_index md) (m_index message),
                  md_last_updated := now\<rparr>
      in if m_sender_cid message \<noteq> own \<and> m_status message = StDelivered
         then md\<lparr>md_unread_count := f64_add (md_unread_count md) f64_one\<rparr> else md)"

fun status_rank :: "message_status \<Rightarrow> int" where
  "status_rank StSent = 0"
| "status_rank StDelivered = 1"
| "status_rank StRead = 2"
| "status_rank StPending = - 1"
| "status_rank StFailed = - 1"

definition status_advances :: "message_status \<Rightarrow> message_status \<Rightarrow> bool" where
  "status_advances current nxt =
     (if current = nxt then False
      else if nxt = StFailed then current \<noteq> StDelivered \<and> current \<noteq> StRead
      else if current = StFailed then True
      else status_rank current < status_rank nxt)"

section \<open>What the rules keep\<close>

lemma place_messages [simp]:
  "set (pg_messages (place p m)) = insert m (set (pg_messages p))"
  "length (pg_messages (place p m)) = Suc (length (pg_messages p))"
  "pg_peer_cid (place p m) = pg_peer_cid p" "pg_number (place p m) = pg_number p"
  by (simp_all add: place_def Let_def)

lemma place_mset [simp]: "mset (pg_messages (place p m)) = add_mset m (mset (pg_messages p))"
  by (simp add: place_def Let_def)

text \<open>A page's messages are in order of time and its bounds are the first and the last of them.\<close>

definition page_sorted :: "page \<Rightarrow> bool" where
  "page_sorted p \<longleftrightarrow> sorted (map (\<lambda>m. f64_total_key (m_timestamp m)) (pg_messages p))"

lemma place_sorted: "page_sorted (place p m)"
  by (simp add: page_sorted_def place_def Let_def)

lemma sort_key_snoc_last:
  "sorted (map f xs) \<Longrightarrow> (\<And>x. x \<in> set xs \<Longrightarrow> f x \<le> f y) \<Longrightarrow> sort_key f (xs @ [y]) = xs @ [y]"
  by (intro sort_key_id_if_sorted) (auto simp: sorted_append)

lemma place_at_end:
  assumes "page_sorted p" and "\<And>x. x \<in> set (pg_messages p) \<Longrightarrow> f64_total_key (m_timestamp x) \<le> f64_total_key (m_timestamp m)"
  shows "pg_messages (place p m) = pg_messages p @ [m]"
  using assms by (simp add: place_def Let_def page_sorted_def sort_key_snoc_last)

lemma empty_page_simps [simp]:
  "pg_peer_cid (empty_page c n t) = c" "pg_number (empty_page c n t) = n" "pg_messages (empty_page c n t) = []"
  by (simp_all add: empty_page_def)

text \<open>A message that was delivered or read has reached the peer; the ladder never leaves that.\<close>

definition reached :: "message_status \<Rightarrow> nat" where
  "reached s = (case s of StDelivered \<Rightarrow> 1 | StRead \<Rightarrow> 2 | _ \<Rightarrow> 0)"

lemma status_advances_reached: "status_advances a b \<Longrightarrow> reached a \<le> reached b"
  by (cases a; cases b) (simp_all add: status_advances_def reached_def)

lemma status_advances_irrefl: "\<not> status_advances a a"
  by (simp add: status_advances_def)

end
