(* ===== verification/Conversation_Stored.thy ===== *)
theory Conversation_Stored
  imports Conversation_Types Json Byte_Strings
begin

text \<open>
  The bytes a conversation page or its metadata occupies in LocalDB
  (\<^verbatim>\<open>kernel/conversations/stored.rs\<close>): JSON in the canonical field names, with CIDs as decimal
  strings, reactions as the bytes of their CBOR list, and absent fields omitted.
\<close>

section \<open>The canonical types as JSON values (serde's derived code for conversation.rs)\<close>

definition status_names :: "(string \<times> message_status) list" where
  "status_names =
     [(''pending'', StPending), (''sent'', StSent), (''delivered'', StDelivered), (''read'', StRead),
      (''failed'', StFailed)]"

definition type_names :: "(string \<times> message_type) list" where
  "type_names =
     [(''text'', TextType), (''markdown'', Markdown), (''live_document'', LiveDocument),
      (''file_transfer'', FileTransfer), (''system_notice'', SystemNotice)]"

definition mode_names :: "(string \<times> transfer_mode) list" where
  "mode_names = [(''async'', ModeAsync), (''p2p'', ModeP2p)]"

definition state_names :: "(string \<times> transfer_state) list" where
  "state_names =
     [(''pending'', TrPending), (''uploading'', TrUploading), (''staged'', TrStaged),
      (''transferring'', TrTransferring), (''complete'', TrComplete), (''declined'', TrDeclined),
      (''cancelled'', TrCancelled), (''expired'', TrExpired), (''error'', TrError)]"

definition json_variant :: "(string \<times> 'a) list \<Rightarrow> 'a \<Rightarrow> json" where
  "json_variant names c =
     (case List.find (\<lambda>(_, c'). c' = c) names of Some (n, _) \<Rightarrow> JStr (lit n) | None \<Rightarrow> JNull)"

definition attachment_json :: "attachment \<Rightarrow> json" where
  "attachment_json a =
     json_obj [(''file_id'', JStr (at_file_id a)), (''file_name'', JStr (at_file_name a)),
               (''file_size'', json_f64 (at_file_size a)), (''file_type'', JStr (at_file_type a)),
               (''thumbnail'', json_opt JStr (at_thumbnail a))]"

definition reaction_json :: "reaction \<Rightarrow> json" where
  "reaction_json r =
     json_obj [(''emoji'', JStr (r_emoji r)), (''reactorCid'', json_u64 (r_cid r)),
               (''at'', json_f64 (r_at r)), (''active'', JBool (r_active r))]"

definition message_fields :: "conv_message \<Rightarrow> (string, json) fmap" where
  "message_fields m =
     fmap_of_list
       [(''id'', JStr (m_id m)), (''content'', JStr (m_content m)),
        (''senderCid'', json_u64 (m_sender_cid m)), (''recipientCid'', json_u64 (m_recipient_cid m)),
        (''timestamp'', json_f64 (m_timestamp m)), (''index'', json_f64 (m_index m)),
        (''status'', json_variant status_names (m_status m)), (''error'', json_opt JStr (m_error m)),
        (''replyTo'', json_opt JStr (m_reply_to m)), (''edited_at'', json_opt json_f64 (m_edited_at m)),
        (''reactions'', json_opt (json_list reaction_json) (m_reactions m)),
        (''mentions'', json_opt (json_list JStr) (m_mentions m)),
        (''attachments'', json_opt (json_list attachment_json) (m_attachments m)),
        (''message_type'', json_variant type_names (m_message_type m)),
        (''document_id'', json_opt JStr (m_document_id m)),
        (''document_title'', json_opt JStr (m_document_title m)),
        (''transfer_id'', json_opt JStr (m_transfer_id m)), (''file_name'', json_opt JStr (m_file_name m)),
        (''file_size'', json_opt json_f64 (m_file_size m)), (''file_type'', json_opt JStr (m_file_type m)),
        (''file_thumbnail'', json_opt JStr (m_file_thumbnail m)),
        (''transfer_mode'', json_opt (json_variant mode_names) (m_transfer_mode m)),
        (''transfer_state'', json_opt (json_variant state_names) (m_transfer_state m)),
        (''transfer_progress'', json_opt json_f64 (m_transfer_progress m)),
        (''virtual_path'', json_opt JStr (m_virtual_path m))]"

definition page_fields :: "page \<Rightarrow> (string, json) fmap" where
  "page_fields p =
     fmap_of_list
       [(''peerCid'', json_u64 (pg_peer_cid p)), (''pageNumber'', json_nat (pg_number p)),
        (''messages'', json_list (\<lambda>m. JObj (message_fields m)) (pg_messages p)),
        (''pageTimestamps'',
          json_obj [(''minTimestamp'', json_f64 (min_timestamp (pg_timestamps p))),
                    (''maxTimestamp'', json_f64 (max_timestamp (pg_timestamps p)))])]"

definition metadata_fields :: "metadata \<Rightarrow> (string, json) fmap" where
  "metadata_fields md =
     fmap_of_list
       [(''peerCid'', json_u64 (md_peer_cid md)), (''ownerCid'', json_opt json_u64 (md_owner_cid md)),
        (''peerUsername'', json_opt JStr (md_peer_username md)),
        (''totalMessageCount'', json_f64 (md_total_message_count md)),
        (''oldestMessageTimestamp'', json_f64 (md_oldest md)),
        (''newestMessageTimestamp'', json_f64 (md_newest md)),
        (''latestPage'', json_nat (md_latest_page md)), (''messagesPerPage'', json_nat (md_messages_per_page md)),
        (''unreadCount'', json_f64 (md_unread_count md)),
        (''lastMessageIndex'', json_f64 (md_last_message_index md)),
        (''lastUpdated'', json_f64 (md_last_updated md))]"

text \<open>A struct is read from an object, or from an array of its fields in order.\<close>

definition json_attachment_of :: "json \<Rightarrow> stored_error + attachment" where
  "json_attachment_of v =
     (case v of
        JObj m \<Rightarrow>
          and_then (de_field m ''file_id'' de_str) (\<lambda>i. and_then (de_field m ''file_name'' de_str) (\<lambda>n.
          and_then (de_field m ''file_size'' de_f64) (\<lambda>s. and_then (de_field m ''file_type'' de_str) (\<lambda>t.
          and_then (de_opt_field m ''thumbnail'' de_str) (\<lambda>th.
            Inr \<lparr>at_file_id = i, at_file_name = n, at_file_size = s, at_file_type = t, at_thumbnail = th\<rparr>)))))
      | JArr [i, n, s, t] \<Rightarrow>
          and_then (de_str i) (\<lambda>i. and_then (de_str n) (\<lambda>n. and_then (de_f64 s) (\<lambda>s. and_then (de_str t) (\<lambda>t.
            Inr \<lparr>at_file_id = i, at_file_name = n, at_file_size = s, at_file_type = t, at_thumbnail = None\<rparr>))))
      | JArr [i, n, s, t, th] \<Rightarrow>
          and_then (de_str i) (\<lambda>i. and_then (de_str n) (\<lambda>n. and_then (de_f64 s) (\<lambda>s. and_then (de_str t) (\<lambda>t.
          and_then (de_opt de_str th) (\<lambda>th.
            Inr \<lparr>at_file_id = i, at_file_name = n, at_file_size = s, at_file_type = t, at_thumbnail = th\<rparr>)))))
      | _ \<Rightarrow> Inl Serde)"

definition json_reaction_of :: "json \<Rightarrow> stored_error + reaction" where
  "json_reaction_of v =
     (case v of
        JObj m \<Rightarrow>
          and_then (de_field m ''emoji'' de_str) (\<lambda>e. and_then (de_field m ''reactorCid'' de_u64) (\<lambda>c.
          and_then (de_field m ''at'' de_f64) (\<lambda>t. and_then (de_field m ''active'' de_bool) (\<lambda>a.
            Inr \<lparr>r_emoji = e, r_cid = c, r_at = t, r_active = a\<rparr>))))
      | JArr [e, c, t, a] \<Rightarrow>
          and_then (de_str e) (\<lambda>e. and_then (de_u64 c) (\<lambda>c. and_then (de_f64 t) (\<lambda>t. and_then (de_bool a) (\<lambda>a.
            Inr \<lparr>r_emoji = e, r_cid = c, r_at = t, r_active = a\<rparr>))))
      | _ \<Rightarrow> Inl Serde)"

definition timestamps_of :: "json \<Rightarrow> stored_error + page_timestamps" where
  "timestamps_of v =
     (case v of
        JObj m \<Rightarrow>
          and_then (de_field m ''minTimestamp'' de_f64) (\<lambda>lo. and_then (de_field m ''maxTimestamp'' de_f64) (\<lambda>hi.
            Inr \<lparr>min_timestamp = lo, max_timestamp = hi\<rparr>))
      | JArr [lo, hi] \<Rightarrow>
          and_then (de_f64 lo) (\<lambda>lo. and_then (de_f64 hi) (\<lambda>hi. Inr \<lparr>min_timestamp = lo, max_timestamp = hi\<rparr>))
      | _ \<Rightarrow> Inl Serde)"

definition message_of :: "(string, json) fmap \<Rightarrow> stored_error + conv_message" where
  "message_of ob =
     and_then (de_field ob ''id'' de_str) (\<lambda>i. and_then (de_field ob ''content'' de_str) (\<lambda>c.
     and_then (de_field ob ''senderCid'' de_u64) (\<lambda>s. and_then (de_field ob ''recipientCid'' de_u64) (\<lambda>r.
     and_then (de_field ob ''timestamp'' de_f64) (\<lambda>t. and_then (de_field ob ''index'' de_f64) (\<lambda>x.
     and_then (de_field ob ''status'' (de_variant status_names)) (\<lambda>st.
     and_then (de_opt_field ob ''error'' de_str) (\<lambda>er. and_then (de_opt_field ob ''replyTo'' de_str) (\<lambda>rt.
     and_then (de_opt_field ob ''edited_at'' de_f64) (\<lambda>ed.
     and_then (de_opt_field ob ''reactions'' (de_list json_reaction_of)) (\<lambda>re.
     and_then (de_opt_field ob ''mentions'' (de_list de_str)) (\<lambda>me.
     and_then (de_opt_field ob ''attachments'' (de_list json_attachment_of)) (\<lambda>att.
     and_then (de_default ob ''message_type'' TextType (de_variant type_names)) (\<lambda>ty.
     and_then (de_opt_field ob ''document_id'' de_str) (\<lambda>di. and_then (de_opt_field ob ''document_title'' de_str) (\<lambda>dt.
     and_then (de_opt_field ob ''transfer_id'' de_str) (\<lambda>ti. and_then (de_opt_field ob ''file_name'' de_str) (\<lambda>fn.
     and_then (de_opt_field ob ''file_size'' de_f64) (\<lambda>fs. and_then (de_opt_field ob ''file_type'' de_str) (\<lambda>ft.
     and_then (de_opt_field ob ''file_thumbnail'' de_str) (\<lambda>th.
     and_then (de_opt_field ob ''transfer_mode'' (de_variant mode_names)) (\<lambda>tm.
     and_then (de_opt_field ob ''transfer_state'' (de_variant state_names)) (\<lambda>ts.
     and_then (de_opt_field ob ''transfer_progress'' de_f64) (\<lambda>tp.
     and_then (de_opt_field ob ''virtual_path'' de_str) (\<lambda>vp.
       Inr \<lparr>m_id = i, m_content = c, m_sender_cid = s, m_recipient_cid = r, m_timestamp = t, m_index = x,
            m_status = st, m_error = er, m_reply_to = rt, m_edited_at = ed, m_reactions = re, m_mentions = me,
            m_attachments = att, m_message_type = ty, m_document_id = di, m_document_title = dt,
            m_transfer_id = ti, m_file_name = fn, m_file_size = fs, m_file_type = ft, m_file_thumbnail = th,
            m_transfer_mode = tm, m_transfer_state = ts, m_transfer_progress = tp, m_virtual_path = vp\<rparr>)))))))))))))))))))))))))"

definition json_message_of :: "json \<Rightarrow> stored_error + conv_message" where
  "json_message_of v = (case v of JObj m \<Rightarrow> message_of m | _ \<Rightarrow> Inl Serde)"

definition page_of :: "(string, json) fmap \<Rightarrow> stored_error + page" where
  "page_of ob =
     and_then (de_field ob ''peerCid'' de_u64) (\<lambda>c. and_then (de_field ob ''pageNumber'' (de_nat u32_max)) (\<lambda>n.
     and_then (de_field ob ''messages'' (de_list json_message_of)) (\<lambda>ms.
     and_then (de_field ob ''pageTimestamps'' timestamps_of) (\<lambda>ts.
       Inr \<lparr>pg_peer_cid = c, pg_number = n, pg_messages = ms, pg_timestamps = ts\<rparr>))))"

definition metadata_of :: "(string, json) fmap \<Rightarrow> stored_error + metadata" where
  "metadata_of ob =
     and_then (de_field ob ''peerCid'' de_u64) (\<lambda>c. and_then (de_opt_field ob ''ownerCid'' de_u64) (\<lambda>oc.
     and_then (de_opt_field ob ''peerUsername'' de_str) (\<lambda>u.
     and_then (de_field ob ''totalMessageCount'' de_f64) (\<lambda>n.
     and_then (de_field ob ''oldestMessageTimestamp'' de_f64) (\<lambda>old.
     and_then (de_field ob ''newestMessageTimestamp'' de_f64) (\<lambda>new.
     and_then (de_field ob ''latestPage'' (de_nat u32_max)) (\<lambda>lp.
     and_then (de_field ob ''messagesPerPage'' (de_nat u32_max)) (\<lambda>pp.
     and_then (de_field ob ''unreadCount'' de_f64) (\<lambda>un.
     and_then (de_field ob ''lastMessageIndex'' de_f64) (\<lambda>ix.
     and_then (de_field ob ''lastUpdated'' de_f64) (\<lambda>up.
       Inr \<lparr>md_peer_cid = c, md_owner_cid = oc, md_peer_username = u, md_total_message_count = n,
            md_oldest = old, md_newest = new, md_latest_page = lp, md_messages_per_page = pp,
            md_unread_count = un, md_last_message_index = ix, md_last_updated = up\<rparr>)))))))))))"

section \<open>The stored form (stored.rs)\<close>

definition as_object :: "json \<Rightarrow> stored_error + (string, json) fmap" where
  "as_object v = (case v of JObj m \<Rightarrow> Inr m | _ \<Rightarrow> Inl NotAnObject)"

definition as_u64 :: "json \<Rightarrow> nat option" where
  "as_u64 v = (case v of JInt i \<Rightarrow> if 0 \<le> i \<and> i \<le> int u64_max then Some (nat i) else None | _ \<Rightarrow> None)"

definition cid_to_string :: "(string, json) fmap \<Rightarrow> string \<Rightarrow> stored_error + (string, json) fmap" where
  "cid_to_string ob field =
     (case fmlookup ob field of
        None \<Rightarrow> Inr ob
      | Some v \<Rightarrow>
          if v = JNull then Inr ob
          else (case as_u64 v of
                  None \<Rightarrow> Inl (NotACid field)
                | Some c \<Rightarrow> Inr (fmupd field (JStr (lit (show_nat c))) ob)))"

text \<open>\<^verbatim>\<open>str::parse::<u64>\<close>: an optional plus sign and at least one digit, in range.\<close>

definition unlit :: "utext \<Rightarrow> string" where "unlit t = map (\<lambda>b. char_of (unat b)) t"

definition parse_u64 :: "utext \<Rightarrow> nat option" where
  "parse_u64 t =
     (let s = unlit t; digits = (case s of [] \<Rightarrow> [] | c # cs \<Rightarrow> if c = CHR ''+'' then cs else s)
      in if digits = [] \<or> \<not> list_all is_ascii_digit digits then None else parse_dec u64_max digits)"

definition cid_from_string :: "(string, json) fmap \<Rightarrow> string \<Rightarrow> stored_error + (string, json) fmap" where
  "cid_from_string ob field =
     (case fmlookup ob field of
        Some (JStr text) \<Rightarrow>
          (case parse_u64 text of
             None \<Rightarrow> Inl (NotACid field)
           | Some c \<Rightarrow> Inr (fmupd field (json_nat c) ob))
      | Some JNull \<Rightarrow> Inr (fmdrop field ob)
      | _ \<Rightarrow> Inr ob)"

definition stored_reactions :: "(string, json) fmap \<Rightarrow> stored_error + (string, json) fmap" where
  "stored_reactions message =
     (let value = fmlookup message ''reactions''; message = fmdrop ''reactions'' message
      in case value of
           None \<Rightarrow> Inr message
         | Some v \<Rightarrow>
             if v = JNull then Inr message
             else and_then (de_list json_reaction_of v) (\<lambda>rs.
               case encode_reactions rs of
                 Some bytes \<Rightarrow> Inr (fmupd ''reactions'' (JArr (map (\<lambda>b. json_nat (unat b)) bytes)) message)
               | None \<Rightarrow> Inr message))"

definition de_bytes :: "json \<Rightarrow> stored_error + octet list" where
  "de_bytes v = de_list (\<lambda>v. and_then (de_nat u8_max v) (\<lambda>n. Inr (word_of_nat n))) v"

definition canonical_reactions :: "nan_choice \<Rightarrow> (string, json) fmap \<Rightarrow> (string, json) fmap" where
  "canonical_reactions nans message =
     (case fmlookup message ''reactions'' of
        None \<Rightarrow> message
      | Some v \<Rightarrow>
          (let message = fmdrop ''reactions'' message
           in case de_bytes v of
                Inl _ \<Rightarrow> message
              | Inr bytes \<Rightarrow>
                  (case decode_reactions nans bytes of
                     None \<Rightarrow> message
                   | Some rs \<Rightarrow> fmupd ''reactions'' (json_list reaction_json rs) message)))"

definition CID_FIELDS_MESSAGE :: "string list" where "CID_FIELDS_MESSAGE = [''senderCid'', ''recipientCid'']"

fun each_field ::
  "((string, json) fmap \<Rightarrow> string \<Rightarrow> stored_error + (string, json) fmap) \<Rightarrow> string list \<Rightarrow>
     (string, json) fmap \<Rightarrow> stored_error + (string, json) fmap" where
  "each_field f [] ob = Inr ob"
| "each_field f (k # ks) ob = and_then (f ob k) (each_field f ks)"

definition stored_message :: "json \<Rightarrow> stored_error + json" where
  "stored_message v =
     and_then (as_object v) (\<lambda>m. and_then (each_field cid_to_string CID_FIELDS_MESSAGE m) (\<lambda>m.
     and_then (stored_reactions m) (\<lambda>m. Inr (JObj m))))"

definition canonical_message :: "nan_choice \<Rightarrow> json \<Rightarrow> stored_error + json" where
  "canonical_message nans v =
     and_then (as_object v) (\<lambda>m. and_then (each_field cid_from_string CID_FIELDS_MESSAGE m) (\<lambda>m.
       Inr (JObj (canonical_reactions nans m))))"

text \<open>The loop over the messages, when there is an array of them.\<close>

definition each_message :: "(json \<Rightarrow> stored_error + json) \<Rightarrow> (string, json) fmap \<Rightarrow> stored_error + (string, json) fmap"
where
  "each_message f ob =
     (case fmlookup ob ''messages'' of
        Some (JArr vs) \<Rightarrow> and_then (de_all f vs) (\<lambda>vs. Inr (fmupd ''messages'' (JArr vs) ob))
      | _ \<Rightarrow> Inr ob)"

definition print_json :: "json_text \<Rightarrow> json \<Rightarrow> stored_error + octet list" where
  "print_json J v = (case jt_print J v of None \<Rightarrow> Inl Serde | Some b \<Rightarrow> Inr b)"

definition parse_json :: "json_text \<Rightarrow> octet list \<Rightarrow> stored_error + json" where
  "parse_json J b = (case jt_parse J b of None \<Rightarrow> Inl Serde | Some v \<Rightarrow> Inr v)"

definition encode_page :: "json_text \<Rightarrow> page \<Rightarrow> stored_error + octet list" where
  "encode_page J page =
     and_then (cid_to_string (page_fields page) ''peerCid'') (\<lambda>ob.
     and_then (each_message stored_message ob) (\<lambda>ob. print_json J (js_numbers (JObj ob))))"

definition decode_page :: "json_text \<Rightarrow> nan_choice \<Rightarrow> octet list \<Rightarrow> stored_error + page" where
  "decode_page J nans bytes =
     and_then (parse_json J bytes) (\<lambda>v. and_then (as_object v) (\<lambda>ob.
     and_then (cid_from_string ob ''peerCid'') (\<lambda>ob.
     and_then (each_message (canonical_message nans) ob) page_of)))"

definition encode_metadata :: "json_text \<Rightarrow> metadata \<Rightarrow> stored_error + octet list" where
  "encode_metadata J md =
     and_then (cid_to_string (metadata_fields md) ''peerCid'') (\<lambda>ob.
     and_then (cid_to_string ob ''ownerCid'') (\<lambda>ob. print_json J (js_numbers (JObj ob))))"

definition decode_metadata :: "json_text \<Rightarrow> octet list \<Rightarrow> stored_error + metadata" where
  "decode_metadata J bytes =
     and_then (parse_json J bytes) (\<lambda>v. and_then (as_object v) (\<lambda>ob.
     and_then (cid_from_string ob ''peerCid'') (\<lambda>ob. and_then (cid_from_string ob ''ownerCid'') metadata_of)))"

section \<open>Fields read back\<close>

lemma unlit_lit [simp]: "unlit (lit s) = s"
  by (simp add: unlit_def lit_def comp_def unsigned_of_nat take_bit_nat_eq_self)

lemma parse_u64_show: "n \<le> u64_max \<Longrightarrow> parse_u64 (lit (show_nat n)) = Some n"
proof -
  assume n: "n \<le> u64_max"
  obtain c cs where s: "show_nat n = c # cs" by (cases "show_nat n") simp_all
  have d: "list_all is_ascii_digit (show_nat n)" by (rule show_nat_digits)
  then have "c \<noteq> CHR ''+''" by (auto simp: s is_ascii_digit_def byte_def)
  with n d show ?thesis using dec_value_show [of n] by (simp add: parse_u64_def parse_dec_def s)
qed

lemma utf8_lit_show: "utf8_ok (lit (show_nat n))"
proof (rule utf8_lit)
  show "list_all (\<lambda>c. of_char c < (128::nat)) (show_nat n)"
    using show_nat_digits [of n] by (auto simp: list_all_iff is_ascii_digit_def byte_def)
qed

lemma cid_bound: "unat (c :: cid) \<le> u64_max"
proof -
  have "unat c < 2 ^ 64" using unsigned_less [of c] by simp
  then show ?thesis by (simp add: u64_max_def)
qed

lemma as_u64_json [simp]: "as_u64 (json_u64 c) = Some (unat c)"
proof -
  have "int (unat c) \<le> int u64_max" using cid_bound [of c] by (simp only: of_nat_le_iff)
  then show ?thesis by (simp add: as_u64_def json_u64_def)
qed

lemma json_u64_not_null [simp]: "json_u64 c \<noteq> JNull" by (simp add: json_u64_def)
lemma json_nat_not_null [simp]: "json_nat n \<noteq> JNull" by (simp add: json_nat_def)

lemma json_nat_cid: "json_nat (unat c) = json_u64 c" by (simp add: json_nat_def json_u64_def)

lemma js_numbers_ints [simp]:
  "js_numbers (json_u64 c) = json_u64 c" "js_numbers (json_nat n) = json_nat n"
  by (simp_all add: json_u64_def json_nat_def)

lemma js_field_ints [simp]: "js_field (json_u64 c) = Some (json_u64 c)" "js_field (json_nat n) = Some (json_nat n)"
  by (simp_all add: js_field_def)

lemma json_whole_ints [simp]:
  "json_whole (json_u64 c)" "n \<le> u64_max \<Longrightarrow> json_whole (json_nat n)"
proof -
  define u where "u = unat c"
  have "unat c < 2 ^ 64" using unsigned_less [of c] by simp
  then show "json_whole (json_u64 c)" unfolding json_u64_def u_def [symmetric] by simp
  show "n \<le> u64_max \<Longrightarrow> json_whole (json_nat n)" by (simp add: json_nat_def u64_max_def)
qed

lemma u32_u64: "n \<le> u32_max \<Longrightarrow> n \<le> u64_max"
  by (simp add: u32_max_def u64_max_def)

lemma de_str_JStr [simp]: "de_str (JStr t) = Inr t" by (simp add: de_str_def)

lemma json_whole_opt_str: "opt_ok utf8_ok x \<Longrightarrow> json_whole (js_numbers (json_opt JStr x))"
  by (rule json_whole_js_opt) (simp add: opt_ok_def)

lemma json_whole_opt_f64: "opt_ok f64_whole x \<Longrightarrow> json_whole (js_numbers (json_opt json_f64 x))"
  by (rule json_whole_js_opt) (simp add: opt_ok_def json_whole_js_f64)

lemma json_whole_opt_u64: "json_whole (js_numbers (json_opt json_u64 x))"
  by (rule json_whole_js_opt) simp

text \<open>Metadata that reads back as it was: whole numbers, and page numbers of 32 bits.\<close>

definition metadata_ok :: "metadata \<Rightarrow> bool" where
  "metadata_ok md \<longleftrightarrow>
     opt_ok utf8_ok (md_peer_username md) \<and>
     list_all f64_whole [md_total_message_count md, md_oldest md, md_newest md, md_unread_count md,
       md_last_message_index md, md_last_updated md] \<and>
     md_latest_page md \<le> u32_max \<and> md_messages_per_page md \<le> u32_max"

definition stored_metadata :: "metadata \<Rightarrow> (string, json) fmap" where
  "stored_metadata md =
     (let cid = (\<lambda>c. JStr (lit (show_nat (unat c)))); ob = fmupd ''peerCid'' (cid (md_peer_cid md)) (metadata_fields md)
      in case md_owner_cid md of None \<Rightarrow> ob | Some c \<Rightarrow> fmupd ''ownerCid'' (cid c) ob)"

lemma encode_metadata_eq: "encode_metadata J md = print_json J (js_numbers (JObj (stored_metadata md)))"
  unfolding encode_metadata_def stored_metadata_def Let_def
  by (cases "md_owner_cid md")
    (simp_all add: cid_to_string_def metadata_fields_def fmlookup_of_list json_opt_def del: js_numbers.simps)

lemma stored_metadata_whole: "metadata_ok md \<Longrightarrow> js_whole (stored_metadata md)"
proof -
  assume ok: "metadata_ok md"
  then have "js_whole (metadata_fields md)" unfolding metadata_fields_def
    by (intro js_whole_of_list)
      (simp add: metadata_ok_def json_whole_js_f64 u32_u64 json_whole_opt_str json_whole_opt_u64)
  then show ?thesis unfolding stored_metadata_def Let_def
    by (auto intro!: js_whole_upd simp: utf8_lit_show split: option.split)
qed

lemmas read_back_simps =
  fmlookup_js_numbers fmlookup_of_list cid_from_string_def parse_u64_show cid_bound json_nat_cid de_u64_json
  de_nat_json js_field_f64 de_f64_js json_f64_not_null de_opt_js_field de_field_def de_opt_field_def

lemma decode_stored_metadata:
  assumes "metadata_ok md"
  shows "and_then (cid_from_string (drop_nulls (fmmap js_numbers (stored_metadata md))) ''peerCid'')
      (\<lambda>ob. and_then (cid_from_string ob ''ownerCid'') metadata_of) = Inr md"
proof (cases "md_owner_cid md")
  case None
  show ?thesis using assms None
    by (simp add: read_back_simps stored_metadata_def metadata_fields_def metadata_ok_def opt_ok_def metadata_of_def
        de_opt_def)
next
  case (Some c)
  show ?thesis using assms Some
    by (simp add: read_back_simps stored_metadata_def metadata_fields_def metadata_ok_def opt_ok_def metadata_of_def
        de_opt_def)
qed

section \<open>Messages read back\<close>

definition reaction_ok :: "reaction \<Rightarrow> bool" where
  "reaction_ok r \<longleftrightarrow> text_ok (r_emoji r) \<and> f64_whole (r_at r)"

definition kept_attachment :: "attachment \<Rightarrow> bool" where
  "kept_attachment a \<longleftrightarrow>
     utf8_ok (at_file_id a) \<and> utf8_ok (at_file_name a) \<and> f64_whole (at_file_size a) \<and> utf8_ok (at_file_type a) \<and>
     opt_ok utf8_ok (at_thumbnail a)"

text \<open>
  A message that is stored and read back as it was: its texts are UTF-8 and every number in it (its
  time, index, edit time, file sizes, progress and the times of its reactions) is whole, so finite,
  and less than \<^verbatim>\<open>2^53\<close> in magnitude. Nothing in the code makes a message from a peer or a window
  meet this: \<open>Nonfinite_Times\<close> shows what a time that is not finite does.
\<close>

definition message_ok :: "conv_message \<Rightarrow> bool" where
  "message_ok m \<longleftrightarrow>
     utf8_ok (m_id m) \<and> utf8_ok (m_content m) \<and> f64_whole (m_timestamp m) \<and> f64_whole (m_index m) \<and>
     list_all (opt_ok utf8_ok) [m_error m, m_reply_to m, m_document_id m, m_document_title m, m_transfer_id m,
       m_file_name m, m_file_type m, m_file_thumbnail m, m_virtual_path m] \<and>
     list_all (opt_ok f64_whole) [m_edited_at m, m_file_size m, m_transfer_progress m] \<and>
     opt_ok (list_all utf8_ok) (m_mentions m) \<and> opt_ok (list_all kept_attachment) (m_attachments m) \<and>
     opt_ok (\<lambda>rs. rs \<noteq> [] \<and> length rs < 2 ^ 64 \<and> list_all reaction_ok rs) (m_reactions m)"

definition page_ok :: "page \<Rightarrow> bool" where
  "page_ok p \<longleftrightarrow>
     list_all message_ok (pg_messages p) \<and> pg_number p \<le> u32_max \<and>
     f64_whole (min_timestamp (pg_timestamps p)) \<and> f64_whole (max_timestamp (pg_timestamps p))"

lemma de_variant_names:
  "de_variant status_names (json_variant status_names a) = Inr a"
  "de_variant type_names (json_variant type_names b) = Inr b"
  "de_variant mode_names (json_variant mode_names c) = Inr c"
  "de_variant state_names (json_variant state_names d) = Inr d"
proof -
  show "de_variant status_names (json_variant status_names a) = Inr a"
    by (cases a; simp add: de_variant_def json_variant_def status_names_def lit_def json_obj_def)
  show "de_variant type_names (json_variant type_names b) = Inr b"
    by (cases b; simp add: de_variant_def json_variant_def type_names_def lit_def json_obj_def)
  show "de_variant mode_names (json_variant mode_names c) = Inr c"
    by (cases c; simp add: de_variant_def json_variant_def mode_names_def lit_def json_obj_def)
  show "de_variant state_names (json_variant state_names d) = Inr d"
    by (cases d; simp add: de_variant_def json_variant_def state_names_def lit_def json_obj_def)
qed

lemma js_variant:
  "js_numbers (json_variant names a) = json_variant names a"
  by (simp add: json_variant_def split: option.split prod.split)

lemma json_variant_not_null:
  "json_variant status_names a \<noteq> JNull" "json_variant type_names b \<noteq> JNull"
  "json_variant mode_names c \<noteq> JNull" "json_variant state_names d \<noteq> JNull"
proof -
  show "json_variant status_names a \<noteq> JNull" by (cases a; simp add: json_variant_def status_names_def)
  show "json_variant type_names b \<noteq> JNull" by (cases b; simp add: json_variant_def type_names_def)
  show "json_variant mode_names c \<noteq> JNull" by (cases c; simp add: json_variant_def mode_names_def)
  show "json_variant state_names d \<noteq> JNull" by (cases d; simp add: json_variant_def state_names_def)
qed

lemma json_whole_variant:
  "json_whole (json_variant status_names a)" "json_whole (json_variant type_names b)"
  "json_whole (json_variant mode_names c)" "json_whole (json_variant state_names d)"
proof -
  show "json_whole (json_variant status_names a)"
    by (cases a; simp add: json_variant_def status_names_def utf8_lit)
  show "json_whole (json_variant type_names b)" by (cases b; simp add: json_variant_def type_names_def utf8_lit)
  show "json_whole (json_variant mode_names c)" by (cases c; simp add: json_variant_def mode_names_def utf8_lit)
  show "json_whole (json_variant state_names d)" by (cases d; simp add: json_variant_def state_names_def utf8_lit)
qed

text \<open>A message's fields as they are stored.\<close>

definition stored_fields :: "conv_message \<Rightarrow> (string, json) fmap" where
  "stored_fields m =
     (let cid = (\<lambda>c. JStr (lit (show_nat (unat c))));
          ob = fmdrop ''reactions'' (fmupd ''recipientCid'' (cid (m_recipient_cid m))
                 (fmupd ''senderCid'' (cid (m_sender_cid m)) (message_fields m)))
      in case Option.bind (m_reactions m) encode_reactions of
           None \<Rightarrow> ob
         | Some bytes \<Rightarrow> fmupd ''reactions'' (JArr (map (\<lambda>b. json_nat (unat b)) bytes)) ob)"

lemma message_fields_lookup:
  "fmlookup (message_fields m) ''id'' = Some (JStr (m_id m))"
  "fmlookup (message_fields m) ''content'' = Some (JStr (m_content m))"
  "fmlookup (message_fields m) ''senderCid'' = Some (json_u64 (m_sender_cid m))"
  "fmlookup (message_fields m) ''recipientCid'' = Some (json_u64 (m_recipient_cid m))"
  "fmlookup (message_fields m) ''timestamp'' = Some (json_f64 (m_timestamp m))"
  "fmlookup (message_fields m) ''index'' = Some (json_f64 (m_index m))"
  "fmlookup (message_fields m) ''status'' = Some (json_variant status_names (m_status m))"
  "fmlookup (message_fields m) ''error'' = Some (json_opt JStr (m_error m))"
  "fmlookup (message_fields m) ''replyTo'' = Some (json_opt JStr (m_reply_to m))"
  "fmlookup (message_fields m) ''edited_at'' = Some (json_opt json_f64 (m_edited_at m))"
  "fmlookup (message_fields m) ''reactions'' = Some (json_opt (json_list reaction_json) (m_reactions m))"
  "fmlookup (message_fields m) ''mentions'' = Some (json_opt (json_list JStr) (m_mentions m))"
  "fmlookup (message_fields m) ''attachments'' = Some (json_opt (json_list attachment_json) (m_attachments m))"
  "fmlookup (message_fields m) ''message_type'' = Some (json_variant type_names (m_message_type m))"
  "fmlookup (message_fields m) ''document_id'' = Some (json_opt JStr (m_document_id m))"
  "fmlookup (message_fields m) ''document_title'' = Some (json_opt JStr (m_document_title m))"
  "fmlookup (message_fields m) ''transfer_id'' = Some (json_opt JStr (m_transfer_id m))"
  "fmlookup (message_fields m) ''file_name'' = Some (json_opt JStr (m_file_name m))"
  "fmlookup (message_fields m) ''file_size'' = Some (json_opt json_f64 (m_file_size m))"
  "fmlookup (message_fields m) ''file_type'' = Some (json_opt JStr (m_file_type m))"
  "fmlookup (message_fields m) ''file_thumbnail'' = Some (json_opt JStr (m_file_thumbnail m))"
  "fmlookup (message_fields m) ''transfer_mode'' = Some (json_opt (json_variant mode_names) (m_transfer_mode m))"
  "fmlookup (message_fields m) ''transfer_state'' = Some (json_opt (json_variant state_names) (m_transfer_state m))"
  "fmlookup (message_fields m) ''transfer_progress'' = Some (json_opt json_f64 (m_transfer_progress m))"
  "fmlookup (message_fields m) ''virtual_path'' = Some (json_opt JStr (m_virtual_path m))"
  by (simp_all add: message_fields_def fmlookup_of_list)

lemma json_reaction_back: "is_finite (r_at r) \<Longrightarrow> json_reaction_of (reaction_json r) = Inr r"
  by (simp add: json_reaction_of_def reaction_json_def json_obj_def fmlookup_of_list de_field_def de_u64_json
      json_f64_def de_f64_def de_bool_def)

lemma json_reactions_back:
  "list_all (\<lambda>r. is_finite (r_at r)) rs \<Longrightarrow> de_list json_reaction_of (json_list reaction_json rs) = Inr rs"
  using de_all_map [of rs json_reaction_of reaction_json id]
  by (simp add: de_list_def json_list_def json_reaction_back list_all_iff)

lemma stored_message_eq:
  assumes "opt_ok (list_all (\<lambda>r. is_finite (r_at r))) (m_reactions m)"
  shows "stored_message (JObj (message_fields m)) = Inr (JObj (stored_fields m))"
proof -
  have "de_list json_reaction_of (json_list reaction_json rs) = Inr rs" if "m_reactions m = Some rs" for rs
    using assms that by (simp add: opt_ok_def json_reactions_back)
  moreover have "json_list reaction_json rs \<noteq> JNull" for rs by (simp add: json_list_def)
  ultimately show ?thesis
    by (cases "m_reactions m")
      (simp_all add: stored_message_def as_object_def CID_FIELDS_MESSAGE_def cid_to_string_def
        message_fields_lookup stored_reactions_def stored_fields_def Let_def split: option.split)
qed

lemma stored_fields_lookup:
  "k \<noteq> ''reactions'' \<Longrightarrow> k \<noteq> ''senderCid'' \<Longrightarrow> k \<noteq> ''recipientCid'' \<Longrightarrow>
     fmlookup (stored_fields m) k = fmlookup (message_fields m) k"
  "fmlookup (stored_fields m) ''senderCid'' = Some (JStr (lit (show_nat (unat (m_sender_cid m)))))"
  "fmlookup (stored_fields m) ''recipientCid'' = Some (JStr (lit (show_nat (unat (m_recipient_cid m)))))"
  "fmlookup (stored_fields m) ''reactions'' =
     map_option (\<lambda>bytes. JArr (map (\<lambda>b. json_nat (unat b)) bytes)) (Option.bind (m_reactions m) encode_reactions)"
  unfolding stored_fields_def Let_def
  by (cases "Option.bind (m_reactions m) encode_reactions"; simp del: bind_eq_Some_conv)+

text \<open>A message's fields as they are read back.\<close>

definition back_fields :: "conv_message \<Rightarrow> (string, json) fmap" where
  "back_fields m =
     (let ob = fmupd ''recipientCid'' (json_u64 (m_recipient_cid m)) (fmupd ''senderCid'' (json_u64 (m_sender_cid m))
                 (drop_nulls (fmmap js_numbers (stored_fields m))))
      in case m_reactions m of
           None \<Rightarrow> ob
         | Some rs \<Rightarrow> fmupd ''reactions'' (json_list reaction_json rs) (fmdrop ''reactions'' ob))"

lemma de_bytes_back: "de_bytes (JArr (map (\<lambda>b. json_nat (unat b)) bytes)) = Inr bytes"
proof -
  have "de_all (\<lambda>v. and_then (de_nat u8_max v) (\<lambda>n. Inr (word_of_nat n)))
      (map (\<lambda>b. json_nat (unat b)) bytes) = Inr (map id bytes)"
  proof (rule de_all_map)
    fix b :: octet
    have "unat b < 2 ^ 8" using unsigned_less [of b] by simp
    then show "and_then (de_nat u8_max (json_nat (unat b))) (\<lambda>n. Inr (word_of_nat n)) = Inr (id b)"
      by (simp add: de_nat_json u8_max_def)
  qed
  then show ?thesis by (simp add: de_bytes_def de_list_def)
qed

lemma js_number_whole: "f64_whole x \<Longrightarrow> js_number x = x"
  by (erule f64_wholeE) (auto simp: js_number_def f64_of_int_0)

lemma kept_reactions:
  assumes "rs \<noteq> []" "length rs < 2 ^ 64" "list_all reaction_ok rs"
  obtains bytes where "encode_reactions rs = Some bytes" and "decode_reactions nans bytes = Some rs"
proof -
  have "list_all (\<lambda>r. text_ok (r_emoji r)) rs" using assms(3) by (auto simp: list_all_iff reaction_ok_def)
  from decode_encode_reactions [OF this assms(2), of nans] assms(1)
  obtain bytes where b: "encode_reactions rs = Some bytes"
      "decode_reactions nans bytes = Some (map (\<lambda>r. r\<lparr>r_at := js_number (r_at r)\<rparr>) rs)"
    by (auto split: option.splits)
  moreover have "map (\<lambda>r. r\<lparr>r_at := js_number (r_at r)\<rparr>) rs = map id rs"
    using assms(3) by (intro map_cong) (auto simp: list_all_iff reaction_ok_def js_number_whole)
  ultimately show ?thesis using that by simp
qed

lemma canonical_message_eq:
  assumes "message_ok m"
  shows "canonical_message nans (js_numbers (JObj (stored_fields m))) = Inr (JObj (back_fields m))"
proof (cases "m_reactions m")
  case None
  then show ?thesis
    by (simp add: canonical_message_def as_object_def CID_FIELDS_MESSAGE_def cid_from_string_def fmlookup_js_numbers
        stored_fields_lookup parse_u64_show cid_bound json_nat_cid canonical_reactions_def back_fields_def Let_def)
next
  case (Some rs)
  with assms have "rs \<noteq> []" "length rs < 2 ^ 64" "list_all reaction_ok rs"
    by (simp_all add: message_ok_def opt_ok_def)
  then obtain bytes where b: "encode_reactions rs = Some bytes" "decode_reactions nans bytes = Some rs"
    by (rule kept_reactions)
  have "js_numbers (JArr (map (\<lambda>b. json_nat (unat b)) bytes)) = JArr (map (\<lambda>b. json_nat (unat b)) bytes)"
    by (simp add: comp_def)
  with Some b show ?thesis
    by (simp add: canonical_message_def as_object_def CID_FIELDS_MESSAGE_def cid_from_string_def fmlookup_js_numbers
        stored_fields_lookup parse_u64_show cid_bound json_nat_cid canonical_reactions_def back_fields_def Let_def
        de_bytes_back del: js_numbers.simps(6))
qed

lemma back_fields_lookup:
  "k \<noteq> ''reactions'' \<Longrightarrow> k \<noteq> ''senderCid'' \<Longrightarrow> k \<noteq> ''recipientCid'' \<Longrightarrow>
     fmlookup (back_fields m) k = Option.bind (fmlookup (message_fields m) k) js_field"
  "fmlookup (back_fields m) ''senderCid'' = Some (json_u64 (m_sender_cid m))"
  "fmlookup (back_fields m) ''recipientCid'' = Some (json_u64 (m_recipient_cid m))"
  "fmlookup (back_fields m) ''reactions'' = map_option (json_list reaction_json) (m_reactions m)"
  unfolding back_fields_def Let_def
  by (cases "m_reactions m"; simp add: fmlookup_js_numbers stored_fields_lookup)+

lemma attachment_read: "kept_attachment a \<Longrightarrow> json_attachment_of (js_numbers (attachment_json a)) = Inr a"
  by (simp add: json_attachment_of_def attachment_json_def json_obj_def kept_attachment_def fmlookup_js_numbers
      fmlookup_of_list js_field_f64 de_f64_js de_opt_js_field de_field_def de_opt_field_def)

lemma attachments_back:
  "list_all kept_attachment xs \<Longrightarrow> de_list json_attachment_of (js_numbers (json_list attachment_json xs)) = Inr xs"
  using de_all_map [of xs json_attachment_of "js_numbers \<circ> attachment_json" id]
  by (simp add: de_list_def json_list_def attachment_read list_all_iff)

lemma mentions_back: "de_list de_str (js_numbers (json_list JStr xs)) = Inr xs"
  using de_all_map [of xs de_str JStr id] by (simp add: de_list_def json_list_def comp_def)

lemma json_list_not_null [simp]: "json_list f xs \<noteq> JNull"
  by (simp add: json_list_def)

lemma opt_ok_Some: "opt_ok P x \<Longrightarrow> x = Some y \<Longrightarrow> P y"
  by (simp add: opt_ok_def)

lemma opt_str_back: "(case js_field (json_opt JStr x) of None \<Rightarrow> Inr None | Some v \<Rightarrow> de_opt de_str v) = Inr x"
  by (rule de_opt_js_field) simp

lemma opt_f64_back:
  "opt_ok f64_whole x \<Longrightarrow> (case js_field (json_opt json_f64 x) of None \<Rightarrow> Inr None | Some v \<Rightarrow> de_opt de_f64 v) = Inr x"
  by (rule de_opt_js_field) (simp add: opt_ok_Some json_f64_not_null de_f64_js)

lemma opt_mentions_back:
  "(case js_field (json_opt (json_list JStr) x) of None \<Rightarrow> Inr None | Some v \<Rightarrow> de_opt (de_list de_str) v) = Inr x"
  by (rule de_opt_js_field) (simp add: mentions_back)

lemma opt_attachments_back:
  "opt_ok (list_all kept_attachment) x \<Longrightarrow>
   (case js_field (json_opt (json_list attachment_json) x) of
      None \<Rightarrow> Inr None | Some v \<Rightarrow> de_opt (de_list json_attachment_of) v) = Inr x"
  by (rule de_opt_js_field) (simp add: attachments_back opt_ok_Some)

lemma opt_variant_back:
  "(case js_field (json_opt (json_variant mode_names) x) of
      None \<Rightarrow> Inr None | Some v \<Rightarrow> de_opt (de_variant mode_names) v) = Inr x"
  "(case js_field (json_opt (json_variant state_names) y) of
      None \<Rightarrow> Inr None | Some v \<Rightarrow> de_opt (de_variant state_names) v) = Inr y"
  by (rule de_opt_js_field; simp add: js_variant de_variant_names json_variant_not_null)+

lemma js_field_variant:
  "js_field (json_variant status_names a) = Some (json_variant status_names a)"
  "js_field (json_variant type_names b) = Some (json_variant type_names b)"
  by (simp_all add: js_field_def js_variant json_variant_not_null)

lemma opt_reactions_back:
  "opt_ok (list_all (\<lambda>r. is_finite (r_at r))) x \<Longrightarrow>
   case_option (Inr None) (de_opt (de_list json_reaction_of) \<circ> json_list reaction_json) x = Inr x"
  by (cases x) (simp_all add: opt_ok_def de_opt_def json_reactions_back)

lemma message_ok_reactions: "message_ok m \<Longrightarrow> opt_ok (list_all (\<lambda>r. is_finite (r_at r))) (m_reactions m)"
proof -
  assume "message_ok m"
  then have "opt_ok (\<lambda>rs. rs \<noteq> [] \<and> length rs < 2 ^ 64 \<and> list_all reaction_ok rs) (m_reactions m)"
    unfolding message_ok_def by blast
  then show ?thesis
    by (cases "m_reactions m") (auto simp: opt_ok_def list_all_iff reaction_ok_def f64_whole_finite)
qed

lemma message_back: "message_ok m \<Longrightarrow> message_of (back_fields m) = Inr m"
  using message_ok_reactions [of m]
  by (simp add: message_of_def de_field_def de_opt_field_def de_default_def back_fields_lookup message_fields_lookup
      message_ok_def js_field_f64 de_f64_js de_u64_json js_field_variant de_variant_names opt_str_back opt_f64_back
      opt_mentions_back opt_attachments_back opt_variant_back opt_reactions_back)

section \<open>Pages read back\<close>

definition stored_page :: "page \<Rightarrow> (string, json) fmap" where
  "stored_page p =
     fmupd ''messages'' (JArr (map (\<lambda>m. JObj (stored_fields m)) (pg_messages p)))
       (fmupd ''peerCid'' (JStr (lit (show_nat (unat (pg_peer_cid p))))) (page_fields p))"

lemma page_fields_lookup:
  "fmlookup (page_fields p) ''peerCid'' = Some (json_u64 (pg_peer_cid p))"
  "fmlookup (page_fields p) ''pageNumber'' = Some (json_nat (pg_number p))"
  "fmlookup (page_fields p) ''messages'' = Some (json_list (\<lambda>m. JObj (message_fields m)) (pg_messages p))"
  "fmlookup (page_fields p) ''pageTimestamps'' =
     Some (json_obj [(''minTimestamp'', json_f64 (min_timestamp (pg_timestamps p))),
                     (''maxTimestamp'', json_f64 (max_timestamp (pg_timestamps p)))])"
  by (simp_all add: page_fields_def fmlookup_of_list)

lemma encode_page_eq:
  assumes "list_all (\<lambda>m. opt_ok (list_all (\<lambda>r. is_finite (r_at r))) (m_reactions m)) (pg_messages p)"
  shows "encode_page J p = print_json J (js_numbers (JObj (stored_page p)))"
proof -
  have "de_all stored_message (map (\<lambda>m. JObj (message_fields m)) (pg_messages p)) =
      Inr (map (\<lambda>m. JObj (stored_fields m)) (pg_messages p))"
    using assms by (intro de_all_map) (simp add: stored_message_eq list_all_iff)
  then show ?thesis
    by (simp add: encode_page_def cid_to_string_def page_fields_lookup each_message_def json_list_def stored_page_def
        del: js_numbers.simps)
qed

lemma timestamps_back:
  "f64_whole lo \<Longrightarrow> f64_whole hi \<Longrightarrow>
   timestamps_of (js_numbers (json_obj [(''minTimestamp'', json_f64 lo), (''maxTimestamp'', json_f64 hi)])) =
     Inr \<lparr>min_timestamp = lo, max_timestamp = hi\<rparr>"
  by (simp add: timestamps_of_def json_obj_def fmlookup_js_numbers fmlookup_of_list js_field_f64 de_f64_js de_field_def)

lemma decode_stored_page:
  assumes "page_ok p"
  shows "and_then (cid_from_string (drop_nulls (fmmap js_numbers (stored_page p))) ''peerCid'')
      (\<lambda>ob. and_then (each_message (canonical_message nans) ob) page_of) = Inr p"
proof -
  let ?ms = "pg_messages p"
  have ms: "\<And>m. m \<in> set ?ms \<Longrightarrow> message_ok m" using assms by (simp add: page_ok_def list_all_iff)
  have canon: "de_all (canonical_message nans) (map (js_numbers \<circ> (\<lambda>m. JObj (stored_fields m))) ?ms) =
      Inr (map (\<lambda>m. JObj (back_fields m)) ?ms)"
    using ms by (intro de_all_map) (simp add: canonical_message_eq del: js_numbers.simps)
  have read: "de_list json_message_of (JArr (map (\<lambda>m. JObj (back_fields m)) ?ms)) = Inr ?ms"
    using de_all_map [of ?ms json_message_of "\<lambda>m. JObj (back_fields m)" id] ms
    by (simp add: de_list_def json_message_of_def message_back)
  have obj: "js_field (json_obj fs) = Some (js_numbers (json_obj fs))" for fs by (simp add: json_obj_def)
  show ?thesis using assms
    by (simp add: cid_from_string_def fmlookup_js_numbers stored_page_def parse_u64_show cid_bound json_nat_cid
        each_message_def canon page_of_def de_field_def read page_fields_lookup de_u64_json de_nat_json obj
        timestamps_back page_ok_def del: js_numbers.simps(7))
qed

section \<open>Only whole numbers are stored\<close>

lemma json_whole_list:
  "(\<And>x. x \<in> set xs \<Longrightarrow> json_whole (js_numbers (f x))) \<Longrightarrow> json_whole (js_numbers (json_list f xs))"
  by (simp add: json_list_def list_all_iff)

lemma attachment_whole: "kept_attachment a \<Longrightarrow> json_whole (js_numbers (attachment_json a))"
  unfolding attachment_json_def json_obj_def
  by (intro js_whole_obj js_whole_of_list)
    (simp add: kept_attachment_def json_whole_js_f64 json_whole_opt_str)

lemma json_whole_opt_list:
  "opt_ok (list_all P) x \<Longrightarrow> (\<And>y. P y \<Longrightarrow> json_whole (js_numbers (f y))) \<Longrightarrow>
   json_whole (js_numbers (json_opt (json_list f) x))"
  by (intro json_whole_js_opt json_whole_list) (auto simp: opt_ok_def list_all_iff)

lemma json_whole_opt_variant:
  "json_whole (js_numbers (json_opt (json_variant mode_names) x))"
  "json_whole (js_numbers (json_opt (json_variant state_names) y))"
  by (rule json_whole_js_opt; simp add: js_variant json_whole_variant)+

lemma message_fields_whole:
  assumes "message_ok m"
  shows "js_whole (message_fields (m\<lparr>m_reactions := None\<rparr>))"
proof -
  have "json_whole (js_numbers (json_opt (json_list attachment_json) (m_attachments m)))"
    "json_whole (js_numbers (json_opt (json_list JStr) (m_mentions m)))"
    using assms unfolding message_ok_def by (auto intro!: json_whole_opt_list attachment_whole)
  with assms show ?thesis unfolding message_fields_def message_ok_def
    by (intro js_whole_of_list)
      (simp add: json_whole_js_f64 json_whole_opt_str json_whole_opt_f64 js_variant json_whole_variant
        json_whole_opt_variant)
qed

lemma stored_fields_whole:
  assumes "message_ok m"
  shows "js_whole (stored_fields m)"
proof -
  have base: "json_whole (js_numbers v)" if "fmlookup (message_fields m) k = Some v" "k \<noteq> ''reactions''" for k v
  proof -
    have "fmlookup (message_fields (m\<lparr>m_reactions := None\<rparr>)) k = fmlookup (message_fields m) k"
      using that(2) by (simp add: message_fields_def fmlookup_of_list)
    with message_fields_whole [OF assms] that(1) show ?thesis by (simp add: js_whole_def)
  qed
  have byte: "json_whole (json_nat (unat b))" for b :: octet
  proof -
    have "unat b < 2 ^ 8" using unsigned_less [of b] by simp
    then show ?thesis by (simp add: u64_max_def)
  qed
  show ?thesis unfolding js_whole_def
  proof (intro allI impI)
    fix k v assume l: "fmlookup (stored_fields m) k = Some v"
    consider "k = ''reactions''" | "k = ''senderCid''" | "k = ''recipientCid''"
      | "k \<noteq> ''reactions''" "k \<noteq> ''senderCid''" "k \<noteq> ''recipientCid''" by blast
    then show "json_whole (js_numbers v)"
    proof cases
      case 1
      with l show ?thesis
        by (cases "Option.bind (m_reactions m) encode_reactions")
          (auto simp: stored_fields_lookup list_all_iff byte simp del: bind_eq_Some_conv)
    qed (use l base utf8_lit_show in \<open>auto simp: stored_fields_lookup\<close>)
  qed
qed

lemma stored_page_whole: "page_ok p \<Longrightarrow> js_whole (stored_page p)"
proof -
  assume ok: "page_ok p"
  have ms: "json_whole (js_numbers (JArr (map (\<lambda>m. JObj (stored_fields m)) (pg_messages p))))"
    using ok json_whole_list [of "pg_messages p" "\<lambda>m. JObj (stored_fields m)"] js_whole_obj [OF stored_fields_whole]
    by (simp add: page_ok_def list_all_iff json_list_def del: js_numbers.simps(7))
  have rest: "json_whole (js_numbers v)" if "fmlookup (page_fields p) k = Some v" "k \<noteq> ''messages''" for k v
  proof -
    let ?ts = "[(''minTimestamp'', json_f64 (min_timestamp (pg_timestamps p))),
      (''maxTimestamp'', json_f64 (max_timestamp (pg_timestamps p)))]"
    have "json_whole (js_numbers (json_obj ?ts))" unfolding json_obj_def
      using ok by (intro js_whole_obj js_whole_of_list) (simp add: page_ok_def json_whole_js_f64)
    with that ok show ?thesis
      by (auto simp: page_fields_def fmlookup_of_list page_ok_def u32_u64 simp del: js_numbers.simps(7) split: if_splits)
  qed
  show ?thesis using ms rest unfolding js_whole_def stored_page_def by (auto simp: utf8_lit_show simp del: js_numbers.simps(6,7))
qed

section \<open>And nothing deeply nested\<close>

lemma json_within_variant [simp]: "json_within (json_variant names y) n"
  by (simp add: json_variant_def split: option.split)

lemma metadata_within: "json_within (JObj (stored_metadata md)) 1"
proof -
  have "json_within (JObj (metadata_fields md)) 1" unfolding metadata_fields_def
    by (intro json_within_of_list) (simp_all add: json_within_opt)
  then show ?thesis by (auto simp: stored_metadata_def Let_def split: option.splits if_splits)
qed

lemma message_within: "json_within (JObj (stored_fields m)) 4"
proof -
  have a: "json_within (attachment_json a) (Suc 0)" for a unfolding attachment_json_def json_obj_def
    by (intro json_within_of_list) (simp_all add: json_within_opt)
  have r: "json_within (reaction_json a) (Suc 0)" for a unfolding reaction_json_def json_obj_def
    by (intro json_within_of_list) (simp_all add: json_within_opt)
  have lists: "json_within (json_opt (json_list reaction_json) x) 2" "json_within (json_opt (json_list attachment_json) y) 2" for x y
    by (rule json_within_opt; simp add: a r)+
  have "json_within (JObj (message_fields m)) 3" unfolding message_fields_def
    by (intro json_within_of_list) (simp_all add: json_within_opt lists)
  from json_within_mono [OF this, of 4] have "json_within v 3" if "fmlookup (message_fields m) k = Some v" for k v
    using that by auto
  then show ?thesis
    by (auto simp: stored_fields_def Let_def split: option.splits if_splits)
qed

lemma page_within: "json_within (JObj (stored_page p)) 6"
proof -
  have f: "json_within v 5" if "fmlookup (page_fields p) k = Some v" "k \<noteq> ''messages''" for k v
  proof -
    have "json_within (json_obj [(''minTimestamp'', json_f64 x), (''maxTimestamp'', json_f64 y)]) 5" for x y
      unfolding json_obj_def by (intro json_within_of_list) simp_all
    moreover have "v \<in> {json_u64 (pg_peer_cid p), json_nat (pg_number p),
        json_obj [(''minTimestamp'', json_f64 (min_timestamp (pg_timestamps p))),
                  (''maxTimestamp'', json_f64 (max_timestamp (pg_timestamps p)))]}"
      using map_of_SomeD [OF that(1) [unfolded page_fields_def fmlookup_of_list]] that(2) by auto
    ultimately show ?thesis by (elim insertE emptyE) (simp_all only: json_within_leaf)
  qed
  have ms: "json_within (JArr (map (\<lambda>m. JObj (stored_fields m)) (pg_messages p))) 5"
    by (subst json_within_nested(1)) (simp add: message_within del: json_within_nested)
  have "json_within v 5" if "fmlookup (stored_page p) k = Some v" for k v
    using that f ms by (cases "k = ''messages''"; cases "k = ''peerCid''") (simp_all add: stored_page_def del: json_within_nested, auto)
  then show ?thesis by simp
qed

lemma stored_within:
  "json_within (js_numbers (JObj (stored_metadata md))) 127" "json_within (js_numbers (JObj (stored_page p))) 127"
  by (rule json_within_mono, rule json_within_js, rule metadata_within page_within, simp)+

section \<open>Round trips\<close>

lemma print_parse:
  "json_text_ok J \<Longrightarrow> json_whole v \<Longrightarrow> json_within v 127 \<Longrightarrow> \<exists>b. print_json J v = Inr b \<and> parse_json J b = Inr v"
  unfolding json_text_ok_def print_json_def parse_json_def by fastforce

lemma metadata_stored:
  assumes "json_text_ok J" and "metadata_ok md"
  obtains b where "encode_metadata J md = Inr b" and "decode_metadata J b = Inr md"
proof -
  from print_parse [OF assms(1) js_whole_obj [OF stored_metadata_whole [OF assms(2)]] stored_within(1)]
  obtain b where "print_json J (js_numbers (JObj (stored_metadata md))) = Inr b"
      "parse_json J b = Inr (js_numbers (JObj (stored_metadata md)))" by blast
  with that decode_stored_metadata [OF assms(2)] show ?thesis
    by (simp add: encode_metadata_eq decode_metadata_def as_object_def)
qed

lemma page_stored:
  assumes "json_text_ok J" and "page_ok p"
  obtains b where "encode_page J p = Inr b" and "decode_page J nans b = Inr p"
proof -
  have "list_all (\<lambda>m. opt_ok (list_all (\<lambda>r. is_finite (r_at r))) (m_reactions m)) (pg_messages p)"
    using assms(2) message_ok_reactions by (auto simp: page_ok_def list_all_iff)
  note enc = encode_page_eq [OF this]
  from print_parse [OF assms(1) js_whole_obj [OF stored_page_whole [OF assms(2)]] stored_within(2)]
  obtain b where "print_json J (js_numbers (JObj (stored_page p))) = Inr b"
      "parse_json J b = Inr (js_numbers (JObj (stored_page p)))" by blast
  with that decode_stored_page [OF assms(2)] enc show ?thesis by (simp add: decode_page_def as_object_def)
qed

end
