(* ===== verification/Conversation_Store.thy ===== *)
theory Conversation_Store
  imports Conversation_Kv Conversation_Stored
begin

text \<open>
  One account's view of its conversation records (\<^verbatim>\<open>kernel/conversations/store.rs,
  store_mutations.rs, store_lifecycle.rs\<close>): where each lives, how it loads, and every change to
  it. The caller holds the conversation's lock; the computations are those of one holder.
\<close>

record store =
  st_own :: cid
  st_json :: json_text
  st_nans :: nan_choice

definition PAGINATED_PREFIX :: string where "PAGINATED_PREFIX = ''msgs_with_peer_''"
definition MESSAGES_PER_PAGE :: nat where "MESSAGES_PER_PAGE = 50"

definition scoped :: "cid \<Rightarrow> cid \<Rightarrow> string" where
  "scoped own peer = PAGINATED_PREFIX @ show_nat (unat own) @ ''_with_'' @ show_nat (unat peer)"

definition legacy :: "cid \<Rightarrow> string" where "legacy peer = PAGINATED_PREFIX @ show_nat (unat peer)"

definition metadata_key :: "string \<Rightarrow> string" where "metadata_key prefix = prefix @ ''_metadata''"
definition page_key :: "string \<Rightarrow> nat \<Rightarrow> string" where "page_key prefix n = prefix @ ''_'' @ show_nat n"

section \<open>Loading and saving\<close>

definition metadata_at :: "store \<Rightarrow> string \<Rightarrow> metadata option kvm" where
  "metadata_at st key =
     kbind (kv_get key) (\<lambda>found. case found of
         Some bytes \<Rightarrow> kbind (klift (decode_metadata (st_json st) bytes)) (\<lambda>md. kret (Some md))
       | None \<Rightarrow> kret None)"

definition page_at :: "store \<Rightarrow> string \<Rightarrow> page option kvm" where
  "page_at st key =
     kbind (kv_get key) (\<lambda>found. case found of
         Some bytes \<Rightarrow> kbind (klift (decode_page (st_json st) (st_nans st) bytes)) (\<lambda>p. kret (Some p))
       | None \<Rightarrow> kret None)"

definition is_none_or :: "'a option \<Rightarrow> ('a \<Rightarrow> bool) \<Rightarrow> bool" where
  "is_none_or x f = (case x of None \<Rightarrow> True | Some y \<Rightarrow> f y)"

definition load_metadata :: "store \<Rightarrow> cid \<Rightarrow> metadata option kvm" where
  "load_metadata st peer =
     kbind (metadata_at st (metadata_key (scoped (st_own st) peer))) (\<lambda>found. case found of
         Some md \<Rightarrow> kret (Some md)
       | None \<Rightarrow>
           kbind (metadata_at st (metadata_key (legacy peer))) (\<lambda>old.
             kret (case old of
                     Some md \<Rightarrow> if is_none_or (md_owner_cid md) (\<lambda>owner. owner = st_own st) then Some md else None
                   | None \<Rightarrow> None)))"

definition load_page :: "store \<Rightarrow> cid \<Rightarrow> nat \<Rightarrow> page option kvm" where
  "load_page st peer n =
     kbind (page_at st (page_key (scoped (st_own st) peer) n)) (\<lambda>found. case found of
         Some p \<Rightarrow> kret (Some p)
       | None \<Rightarrow> page_at st (page_key (legacy peer) n))"

definition save_metadata :: "store \<Rightarrow> metadata \<Rightarrow> unit kvm" where
  "save_metadata st md =
     kbind (klift (encode_metadata (st_json st) md))
       (kv_set (metadata_key (scoped (st_own st) (md_peer_cid md))))"

definition save_page :: "store \<Rightarrow> page \<Rightarrow> unit kvm" where
  "save_page st p =
     kbind (klift (encode_page (st_json st) p))
       (kv_set (page_key (scoped (st_own st) (pg_peer_cid p)) (pg_number p)))"

section \<open>Appending\<close>

definition has_id :: "utext \<Rightarrow> page \<Rightarrow> bool" where
  "has_id i p \<longleftrightarrow> list_ex (\<lambda>m. m_id m = i) (pg_messages p)"

definition already_stored :: "store \<Rightarrow> cid \<Rightarrow> metadata \<Rightarrow> page \<Rightarrow> utext \<Rightarrow> bool kvm" where
  "already_stored st peer md p i =
     (if has_id i p then kret True
      else if md_latest_page md = 0 then kret False
      else kbind (load_page st peer (md_latest_page md - 1)) (\<lambda>previous.
        kret (case previous of Some q \<Rightarrow> has_id i q | None \<Rightarrow> False)))"

definition new_metadata :: "store \<Rightarrow> cid \<Rightarrow> conv_message \<Rightarrow> utext option \<Rightarrow> f64 \<Rightarrow> metadata" where
  "new_metadata st peer message username now =
     \<lparr>md_peer_cid = peer, md_owner_cid = Some (st_own st), md_peer_username = username,
      md_total_message_count = f64_zero, md_oldest = m_timestamp message, md_newest = m_timestamp message,
      md_latest_page = 0, md_messages_per_page = MESSAGES_PER_PAGE, md_unread_count = f64_zero,
      md_last_message_index = f64_zero, md_last_updated = now\<rparr>"

text \<open>The page to append to: the newest, or the next one when that is full.\<close>

definition roll_over :: "store \<Rightarrow> cid \<Rightarrow> conv_message \<Rightarrow> metadata \<Rightarrow> page \<Rightarrow> (metadata \<times> page) kvm" where
  "roll_over st peer message md p =
     (if MESSAGES_PER_PAGE \<le> length (pg_messages p) then
        kbind (save_page st p) (\<lambda>_.
          case checked_add u32_max (md_latest_page md) 1 of
            None \<Rightarrow> kpanic
          | Some n \<Rightarrow> kret (md\<lparr>md_latest_page := n\<rparr>, empty_page peer n (m_timestamp message)))
      else kret (md, p))"

definition append_message ::
  "store \<Rightarrow> cid \<Rightarrow> conv_message \<Rightarrow> utext option \<Rightarrow> f64 \<Rightarrow> metadata option kvm" where
  "append_message st peer message username now =
     kbind (load_metadata st peer) (\<lambda>existing.
       let is_new = (existing = None);
           md = (case existing of Some md \<Rightarrow> md | None \<Rightarrow> new_metadata st peer message username now);
           md = md\<lparr>md_owner_cid := Some (case md_owner_cid md of None \<Rightarrow> st_own st | Some c \<Rightarrow> c)\<rparr>
       in kbind (load_page st peer (md_latest_page md)) (\<lambda>found.
          let p = (case found of Some p \<Rightarrow> p | None \<Rightarrow> empty_page peer (md_latest_page md) (m_timestamp message))
          in kbind (already_stored st peer md p (m_id message)) (\<lambda>dup.
             if dup then kret None
             else kbind (roll_over st peer message md p) (\<lambda>(md, p).
                let p = place p message; md = record_append md message is_new (st_own st) now
                in kbind (save_page st p) (\<lambda>_. kbind (save_metadata st md) (\<lambda>_. kret (Some md)))))))"

section \<open>Finding and changing one message\<close>

fun position :: "('a \<Rightarrow> bool) \<Rightarrow> 'a list \<Rightarrow> nat option" where
  "position P [] = None"
| "position P (x # xs) = (if P x then Some 0 else map_option Suc (position P xs))"

primrec find_from :: "store \<Rightarrow> cid \<Rightarrow> utext \<Rightarrow> metadata \<Rightarrow> nat \<Rightarrow> (metadata \<times> page \<times> nat) option kvm" where
  "find_from st peer i md 0 =
     kbind (load_page st peer 0) (\<lambda>found.
       case Option.bind found (\<lambda>p. map_option (\<lambda>k. (p, k)) (position (\<lambda>m. m_id m = i) (pg_messages p))) of
         Some (p, k) \<Rightarrow> kret (Some (md, p, k))
       | None \<Rightarrow> kret None)"
| "find_from st peer i md (Suc n) =
     kbind (load_page st peer (Suc n)) (\<lambda>found.
       case Option.bind found (\<lambda>p. map_option (\<lambda>k. (p, k)) (position (\<lambda>m. m_id m = i) (pg_messages p))) of
         Some (p, k) \<Rightarrow> kret (Some (md, p, k))
       | None \<Rightarrow> find_from st peer i md n)"

definition find_message :: "store \<Rightarrow> cid \<Rightarrow> utext \<Rightarrow> (metadata \<times> page \<times> nat) option kvm" where
  "find_message st peer i =
     kbind (load_metadata st peer) (\<lambda>found. case found of
         None \<Rightarrow> kret None
       | Some md \<Rightarrow> find_from st peer i md (md_latest_page md))"

text \<open>A change returns the changed message, or nothing when it does not change it.\<close>

definition update_message ::
  "store \<Rightarrow> cid \<Rightarrow> utext \<Rightarrow> (conv_message \<Rightarrow> conv_message option) \<Rightarrow> conv_message option kvm" where
  "update_message st peer i change =
     kbind (find_message st peer i) (\<lambda>found. case found of
         None \<Rightarrow> kret None
       | Some (_, p, k) \<Rightarrow>
           (case change (pg_messages p ! k) of
              None \<Rightarrow> kret None
            | Some changed \<Rightarrow>
                kbind (save_page st (p\<lparr>pg_messages := (pg_messages p)[k := changed]\<rparr>)) (\<lambda>_. kret (Some changed))))"

definition change_status :: "message_status \<Rightarrow> utext option \<Rightarrow> conv_message \<Rightarrow> conv_message option" where
  "change_status status er m =
     (if \<not> status_advances (m_status m) status then None
      else Some (m\<lparr>m_status := status, m_error := (if status = StFailed then er else None)\<rparr>))"

definition set_status ::
  "store \<Rightarrow> cid \<Rightarrow> utext \<Rightarrow> message_status \<Rightarrow> utext option \<Rightarrow> conv_message option kvm" where
  "set_status st peer i status er = update_message st peer i (change_status status er)"

text \<open>Equality of optional floats is that of \<^verbatim>\<open>f64\<close>, so a NaN differs from itself.\<close>

definition f64_opt_eq :: "f64 option \<Rightarrow> f64 option \<Rightarrow> bool" where
  "f64_opt_eq x y = (case (x, y) of (Some a, Some b) \<Rightarrow> f64_eq a b | (None, None) \<Rightarrow> True | _ \<Rightarrow> False)"

text \<open>The macro \<^verbatim>\<open>set!\<close>: a field is set when the patch gives it and it differs.\<close>

definition patch_set ::
  "(conv_message \<Rightarrow> bool) \<Rightarrow> (conv_message \<Rightarrow> conv_message) \<Rightarrow> conv_message \<times> bool \<Rightarrow> conv_message \<times> bool" where
  "patch_set differs set_field r = (if differs (fst r) then (set_field (fst r), True) else r)"

definition patch_fields :: "message_patch \<Rightarrow> conv_message \<Rightarrow> conv_message \<times> bool" where
  "patch_fields patch m =
     (let r = (m, False);
          r = (case pa_status patch of
                 Some status \<Rightarrow>
                   patch_set (\<lambda>m. status_advances (m_status m) status)
                     (\<lambda>m. m\<lparr>m_status := status, m_error := pa_error patch\<rparr>) r
               | None \<Rightarrow> r);
          r = patch_set (\<lambda>m. pa_transfer_state patch \<noteq> None \<and> pa_transfer_state patch \<noteq> m_transfer_state m)
                (\<lambda>m. m\<lparr>m_transfer_state := pa_transfer_state patch\<rparr>) r;
          r = patch_set (\<lambda>m. pa_transfer_progress patch \<noteq> None \<and>
                  \<not> f64_opt_eq (pa_transfer_progress patch) (m_transfer_progress m))
                (\<lambda>m. m\<lparr>m_transfer_progress := pa_transfer_progress patch\<rparr>) r;
          r = patch_set (\<lambda>m. pa_virtual_path patch \<noteq> None \<and> pa_virtual_path patch \<noteq> m_virtual_path m)
                (\<lambda>m. m\<lparr>m_virtual_path := pa_virtual_path patch\<rparr>) r
      in patch_set (\<lambda>m. pa_file_thumbnail patch \<noteq> None \<and> pa_file_thumbnail patch \<noteq> m_file_thumbnail m)
           (\<lambda>m. m\<lparr>m_file_thumbnail := pa_file_thumbnail patch\<rparr>) r)"

definition apply_patch :: "message_patch \<Rightarrow> conv_message \<Rightarrow> conv_message option" where
  "apply_patch patch m = (let (m, changed) = patch_fields patch m in if changed then Some m else None)"

definition patch_message :: "store \<Rightarrow> cid \<Rightarrow> utext \<Rightarrow> message_patch \<Rightarrow> conv_message option kvm" where
  "patch_message st peer i patch = update_message st peer i (apply_patch patch)"

definition react_message :: "store \<Rightarrow> cid \<Rightarrow> utext \<Rightarrow> reaction \<Rightarrow> conv_message option kvm" where
  "react_message st peer i change =
     update_message st peer i (\<lambda>m.
       map_option (\<lambda>rs. m\<lparr>m_reactions := Some rs\<rparr>) (fold_reaction (m_reactions m) change))"

section \<open>Revising and removing\<close>

datatype revision = ReviseEdit utext f64 | ReviseDelete

datatype revised = Applied conv_message | NotSender | UnknownMessage

definition remove_message :: "store \<Rightarrow> cid \<Rightarrow> utext \<Rightarrow> f64 \<Rightarrow> bool kvm" where
  "remove_message st peer i now =
     kbind (find_message st peer i) (\<lambda>found. case found of
         None \<Rightarrow> kret False
       | Some (md, p, k) \<Rightarrow>
           kbind (save_page st (p\<lparr>pg_messages := take k (pg_messages p) @ drop (Suc k) (pg_messages p)\<rparr>)) (\<lambda>_.
           kbind (save_metadata st
               (md\<lparr>md_total_message_count := f64_max (f64_sub (md_total_message_count md) f64_one) f64_zero,
                   md_last_updated := now\<rparr>)) (\<lambda>_.
             kret True)))"

definition revise_message :: "store \<Rightarrow> cid \<Rightarrow> utext \<Rightarrow> cid \<Rightarrow> revision \<Rightarrow> f64 \<Rightarrow> revised kvm" where
  "revise_message st peer i reviser revision now =
     kbind (find_message st peer i) (\<lambda>found. case found of
         None \<Rightarrow> kret UnknownMessage
       | Some (_, p, k) \<Rightarrow>
           (let stored = pg_messages p ! k
            in if m_sender_cid stored \<noteq> reviser then kret NotSender
               else case revision of
                 ReviseDelete \<Rightarrow>
                   kbind (remove_message st peer i now) (\<lambda>removed.
                     kret (if removed then Applied stored else UnknownMessage))
               | ReviseEdit contents edited_at \<Rightarrow>
                   (let message = stored\<lparr>m_content := contents, m_edited_at := Some edited_at\<rparr>
                    in kbind (save_page st (p\<lparr>pg_messages := (pg_messages p)[k := message]\<rparr>)) (\<lambda>_.
                         kret (Applied message)))))"

section \<open>Marking read\<close>

text \<open>One page, newest message first, up to a number of messages still wanted.\<close>

fun mark_newest :: "cid \<Rightarrow> nat \<Rightarrow> conv_message list \<Rightarrow> conv_message list \<times> conv_message list" where
  "mark_newest peer n [] = ([], [])"
| "mark_newest peer n (m # ms) =
     (if n = 0 then (m # ms, [])
      else if m_sender_cid m = peer \<and> m_status m = StDelivered then
        (let m' = m\<lparr>m_status := StRead\<rparr>; (ms', read) = mark_newest peer (n - 1) ms in (m' # ms', m' # read))
      else (let (ms', read) = mark_newest peer n ms in (m # ms', read)))"

definition mark_page :: "store \<Rightarrow> cid \<Rightarrow> nat \<Rightarrow> conv_message list \<Rightarrow> nat \<Rightarrow> conv_message list kvm" where
  "mark_page st peer wanted read n =
     kbind (load_page st peer n) (\<lambda>found. case found of
         None \<Rightarrow> kret read
       | Some p \<Rightarrow>
           (let (ms, newly) = mark_newest peer (wanted - length read) (rev (pg_messages p))
            in if newly = [] then kret read
               else kbind (save_page st (p\<lparr>pg_messages := rev ms\<rparr>)) (\<lambda>_. kret (read @ newly))))"

primrec mark_pages :: "store \<Rightarrow> cid \<Rightarrow> nat \<Rightarrow> conv_message list \<Rightarrow> nat \<Rightarrow> conv_message list kvm" where
  "mark_pages st peer wanted read 0 =
     (if wanted \<le> length read then kret read else mark_page st peer wanted read 0)"
| "mark_pages st peer wanted read (Suc n) =
     (if wanted \<le> length read then kret read
      else kbind (mark_page st peer wanted read (Suc n)) (\<lambda>read. mark_pages st peer wanted read n))"

definition mark_read :: "store \<Rightarrow> cid \<Rightarrow> f64 \<Rightarrow> (conv_message list \<times> metadata option) kvm" where
  "mark_read st peer now =
     kbind (load_metadata st peer) (\<lambda>found. case found of
         None \<Rightarrow> kret ([], None)
       | Some md \<Rightarrow>
           kbind (mark_pages st peer (f64_as_usize (f64_max (md_unread_count md) f64_zero)) [] (md_latest_page md)) (\<lambda>read.
             let md = md\<lparr>md_unread_count := f64_zero, md_last_updated := now\<rparr>
             in kbind (save_metadata st md) (\<lambda>_. kret (read, Some md))))"

definition set_peer_username :: "store \<Rightarrow> cid \<Rightarrow> utext \<Rightarrow> f64 \<Rightarrow> unit kvm" where
  "set_peer_username st peer username now =
     kbind (load_metadata st peer) (\<lambda>found. case found of
         None \<Rightarrow> kret ()
       | Some md \<Rightarrow>
           if md_peer_username md \<noteq> Some username
           then save_metadata st (md\<lparr>md_peer_username := Some username, md_last_updated := now\<rparr>)
           else kret ())"

section \<open>Whole conversations (store\_lifecycle.rs)\<close>

text \<open>\<^verbatim>\<open>for number in 0..=last\<close>: from \<^verbatim>\<open>n\<close>, with \<^verbatim>\<open>k\<close> more after it.\<close>

primrec delete_pages :: "string \<Rightarrow> nat \<Rightarrow> nat \<Rightarrow> unit kvm" where
  "delete_pages prefix n 0 = kv_delete (page_key prefix n)"
| "delete_pages prefix n (Suc k) = kbind (kv_delete (page_key prefix n)) (\<lambda>_. delete_pages prefix (Suc n) k)"

definition may_delete :: "store \<Rightarrow> bool \<Rightarrow> metadata \<Rightarrow> bool" where
  "may_delete st include_unattributed md =
     (case md_owner_cid md of None \<Rightarrow> include_unattributed | Some owner \<Rightarrow> owner = st_own st)"

definition delete_conversation :: "store \<Rightarrow> cid \<Rightarrow> bool \<Rightarrow> bool kvm" where
  "delete_conversation st peer include_unattributed =
     kbind (load_metadata st peer) (\<lambda>found. case found of
         None \<Rightarrow> kret False
       | Some md \<Rightarrow>
           if \<not> may_delete st include_unattributed md then kret False
           else
             kbind (delete_pages (scoped (st_own st) peer) 0 (md_latest_page md)) (\<lambda>_.
             kbind (kv_delete (metadata_key (scoped (st_own st) peer))) (\<lambda>_.
             kbind (metadata_at st (metadata_key (legacy peer))) (\<lambda>legacy_meta.
               let (legacy_pages, allowed) =
                     (case legacy_meta of
                        Some m \<Rightarrow> (md_latest_page m, may_delete st include_unattributed m)
                      | None \<Rightarrow> (md_latest_page md, include_unattributed))
               in if allowed then
                    kbind (delete_pages (legacy peer) 0 legacy_pages) (\<lambda>_.
                    kbind (kv_delete (metadata_key (legacy peer))) (\<lambda>_. kret True))
                  else kret True))))"

definition oldest_of :: "f64 option \<Rightarrow> conv_message list \<Rightarrow> f64 option" where
  "oldest_of oldest ms =
     foldl (\<lambda>o' m. Some (case o' of None \<Rightarrow> m_timestamp m | Some t \<Rightarrow> f64_min t (m_timestamp m))) oldest ms"

definition prune_page :: "store \<Rightarrow> cid \<Rightarrow> f64 \<Rightarrow> nat \<Rightarrow> nat \<times> f64 option \<Rightarrow> (nat \<times> f64 option) kvm" where
  "prune_page st peer cutoff n acc =
     kbind (load_page st peer n) (\<lambda>found. case found of
         None \<Rightarrow> kret acc
       | Some p \<Rightarrow>
           (let ms = filter (\<lambda>m. f64_ge (m_timestamp m) cutoff) (pg_messages p);
                (removed, oldest) = acc;
                oldest = oldest_of oldest ms
            in if length ms = length (pg_messages p) then kret (removed, oldest)
               else
                 kbind (save_page st (p\<lparr>pg_messages := ms,
                     pg_timestamps := \<lparr>min_timestamp = (case ms of [] \<Rightarrow> f64_zero | m # _ \<Rightarrow> m_timestamp m),
                                      max_timestamp = (if ms = [] then f64_zero else m_timestamp (last ms))\<rparr>\<rparr>)) (\<lambda>_.
                   kret (removed + (length (pg_messages p) - length ms), oldest))))"

primrec prune_pages ::
  "store \<Rightarrow> cid \<Rightarrow> f64 \<Rightarrow> nat \<Rightarrow> nat \<Rightarrow> nat \<times> f64 option \<Rightarrow> (nat \<times> f64 option) kvm" where
  "prune_pages st peer cutoff n 0 acc = prune_page st peer cutoff n acc"
| "prune_pages st peer cutoff n (Suc k) acc =
     kbind (prune_page st peer cutoff n acc) (prune_pages st peer cutoff (Suc n) k)"

definition prune_older_than :: "store \<Rightarrow> cid \<Rightarrow> f64 \<Rightarrow> f64 \<Rightarrow> nat kvm" where
  "prune_older_than st peer cutoff now =
     kbind (load_metadata st peer) (\<lambda>found. case found of
         None \<Rightarrow> kret 0
       | Some md \<Rightarrow>
           if f64_eq (md_total_message_count md) f64_zero \<or>
              f64_lt f64_zero (md_oldest md) \<and> f64_ge (md_oldest md) cutoff then kret 0
           else
             kbind (prune_pages st peer cutoff 0 (md_latest_page md) (0, None)) (\<lambda>(removed, oldest_kept).
               if removed = 0 then kret 0
               else
                 kbind (save_metadata st
                     (md\<lparr>md_total_message_count :=
                           f64_max (f64_sub (md_total_message_count md) (f64_of_nat False removed)) f64_zero,
                         md_oldest := (case oldest_kept of None \<Rightarrow> f64_zero | Some t \<Rightarrow> t),
                         md_last_updated := now\<rparr>)) (\<lambda>_.
                   kret removed)))"

definition contains_str :: "string \<Rightarrow> string \<Rightarrow> bool" where
  "contains_str p s \<longleftrightarrow> list_ex (\<lambda>n. starts_with (drop n s) p) [0..<Suc (length s)]"

text \<open>
  Listing: the keys come in no particular order, here that of the argument \<^verbatim>\<open>order\<close>; the account-scoped
  ones are put first, keeping the order among themselves.
\<close>

fun list_from :: "store \<Rightarrow> string list \<Rightarrow> metadata list \<Rightarrow> metadata list kvm" where
  "list_from st [] found = kret found"
| "list_from st (key # keys) found =
     kbind (kv_get key) (\<lambda>bytes.
       case bytes of
         None \<Rightarrow> list_from st keys found
       | Some bytes \<Rightarrow>
           (case decode_metadata (st_json st) bytes of
              Inl _ \<Rightarrow> list_from st keys found
            | Inr md \<Rightarrow>
                (let ours = is_none_or (md_owner_cid md) (\<lambda>owner. owner = st_own st);
                     scoped_to_other =
                       (contains_str ''_with_'' key \<and> \<not> starts_with key (scoped (st_own st) (md_peer_cid md)))
                 in if ours \<and> \<not> scoped_to_other \<and> \<not> list_ex (\<lambda>m. md_peer_cid m = md_peer_cid md) found
                    then list_from st keys (found @ [md]) else list_from st keys found)))"

definition list_conversations :: "store \<Rightarrow> string list \<Rightarrow> metadata list kvm" where
  "list_conversations st order =
     kbind (kv_keys order) (\<lambda>keys.
       let keys = filter (\<lambda>k. starts_with k PAGINATED_PREFIX \<and> ends_with k ''_metadata'') keys
       in list_from st (sort_key (\<lambda>k. if contains_str ''_with_'' k then 0 else 1 :: nat) keys) [])"

end
