(* ===== verification/Preferences.thy ===== *)
theory Preferences
  imports Conversation_Store
begin

text \<open>
  An account's settings the agent acts on with no window open (\<^verbatim>\<open>conversation_api.rs\<close>,
  \<^verbatim>\<open>chat_level.rs\<close>) and where they are kept (\<^verbatim>\<open>kernel/conversations/engine.rs\<close>).
\<close>

datatype notification_preview = SenderOnly | PreviewText

datatype retention = Forever | Days nat

record peer_retention =
  re_peer_cid :: cid
  re_retention :: retention

datatype chat_level = Standard | Reinforced | High | Extreme

record peer_minimum =
  mi_peer_cid :: cid
  mi_level :: chat_level

record account_preferences =
  pr_send_read_receipts :: bool
  pr_accept_strangers :: bool
  pr_notify_on_screenshot :: bool
  pr_preview :: notification_preview
  pr_retention :: "peer_retention list"
  pr_minimums :: "peer_minimum list"

definition UI_DEFAULTS :: account_preferences where
  "UI_DEFAULTS = \<lparr>pr_send_read_receipts = True, pr_accept_strangers = True, pr_notify_on_screenshot = False,
     pr_preview = SenderOnly, pr_retention = [], pr_minimums = []\<rparr>"

definition retention_for :: "account_preferences \<Rightarrow> cid \<Rightarrow> retention" where
  "retention_for prefs peer =
     (case List.find (\<lambda>r. re_peer_cid r = peer) (pr_retention prefs) of
        Some r \<Rightarrow> re_retention r | None \<Rightarrow> Forever)"

definition security_minimum_for :: "account_preferences \<Rightarrow> cid \<Rightarrow> chat_level" where
  "security_minimum_for prefs peer =
     (case List.find (\<lambda>r. mi_peer_cid r = peer) (pr_minimums prefs) of
        Some r \<Rightarrow> mi_level r | None \<Rightarrow> Standard)"

section \<open>As stored: derived serialisation\<close>

definition preview_names :: "(string \<times> notification_preview) list" where
  "preview_names = [(''SenderOnly'', SenderOnly), (''Text'', PreviewText)]"

definition level_names :: "(string \<times> chat_level) list" where
  "level_names = [(''Standard'', Standard), (''Reinforced'', Reinforced), (''High'', High), (''Extreme'', Extreme)]"

definition retention_json :: "retention \<Rightarrow> json" where
  "retention_json r = (case r of Forever \<Rightarrow> JStr (lit ''Forever'') | Days n \<Rightarrow> json_obj [(''Days'', json_nat n)])"

definition peer_retention_json :: "peer_retention \<Rightarrow> json" where
  "peer_retention_json r =
     json_obj [(''peer_cid'', json_u64 (re_peer_cid r)), (''retention'', retention_json (re_retention r))]"

definition peer_minimum_json :: "peer_minimum \<Rightarrow> json" where
  "peer_minimum_json r =
     json_obj [(''peer_cid'', json_u64 (mi_peer_cid r)), (''level'', json_variant level_names (mi_level r))]"

definition preferences_json :: "account_preferences \<Rightarrow> json" where
  "preferences_json p =
     json_obj [(''send_read_receipts'', JBool (pr_send_read_receipts p)),
       (''accept_requests_from_strangers'', JBool (pr_accept_strangers p)),
       (''notify_on_screenshot'', JBool (pr_notify_on_screenshot p)),
       (''notification_preview'', json_variant preview_names (pr_preview p)),
       (''retention'', json_list peer_retention_json (pr_retention p)),
       (''security_minimums'', json_list peer_minimum_json (pr_minimums p))]"

text \<open>A structure is read from an object, or from an array of its fields in order.\<close>

definition as_fields :: "string list \<Rightarrow> json \<Rightarrow> stored_error + (string, json) fmap" where
  "as_fields names v =
     (case v of
        JObj m \<Rightarrow> Inr m
      | JArr vs \<Rightarrow> if length vs \<le> length names then Inr (fmap_of_list (zip names vs)) else Inl Serde
      | _ \<Rightarrow> Inl Serde)"

definition de_retention :: "json \<Rightarrow> stored_error + retention" where
  "de_retention v =
     (if v = JStr (lit ''Forever'') \<or> v = json_obj [(''Forever'', JNull)] then Inr Forever
      else case v of
             JObj m \<Rightarrow>
               (case fmlookup m ''Days'' of
                  Some d \<Rightarrow> if m = fmap_of_list [(''Days'', d)] then and_then (de_nat u32_max d) (\<lambda>n. Inr (Days n))
                            else Inl Serde
                | None \<Rightarrow> Inl Serde)
           | _ \<Rightarrow> Inl Serde)"

definition peer_retention_of :: "json \<Rightarrow> stored_error + peer_retention" where
  "peer_retention_of v =
     and_then (as_fields [''peer_cid'', ''retention''] v) (\<lambda>m.
     and_then (de_field m ''peer_cid'' de_u64) (\<lambda>c. and_then (de_field m ''retention'' de_retention) (\<lambda>r.
       Inr \<lparr>re_peer_cid = c, re_retention = r\<rparr>)))"

definition peer_minimum_of :: "json \<Rightarrow> stored_error + peer_minimum" where
  "peer_minimum_of v =
     and_then (as_fields [''peer_cid'', ''level''] v) (\<lambda>m.
     and_then (de_field m ''peer_cid'' de_u64) (\<lambda>c.
     and_then (de_field m ''level'' (de_variant level_names)) (\<lambda>l.
       Inr \<lparr>mi_peer_cid = c, mi_level = l\<rparr>)))"

definition preferences_of :: "json \<Rightarrow> stored_error + account_preferences" where
  "preferences_of v =
     and_then (as_fields [''send_read_receipts'', ''accept_requests_from_strangers'', ''notify_on_screenshot'',
         ''notification_preview'', ''retention'', ''security_minimums''] v) (\<lambda>m.
     and_then (de_field m ''send_read_receipts'' de_bool) (\<lambda>a.
     and_then (de_field m ''accept_requests_from_strangers'' de_bool) (\<lambda>b.
     and_then (de_field m ''notify_on_screenshot'' de_bool) (\<lambda>c.
     and_then (de_field m ''notification_preview'' (de_variant preview_names)) (\<lambda>d.
     and_then (de_field m ''retention'' (de_list peer_retention_of)) (\<lambda>e.
     and_then (de_default m ''security_minimums'' [] (de_list peer_minimum_of)) (\<lambda>f.
       Inr \<lparr>pr_send_read_receipts = a, pr_accept_strangers = b, pr_notify_on_screenshot = c,
            pr_preview = d, pr_retention = e, pr_minimums = f\<rparr>)))))))"

definition preferences_key :: "cid \<Rightarrow> string" where
  "preferences_key c = ''agent_account_preferences_'' @ show_nat (unat c)"

definition preferences :: "json_text \<Rightarrow> cid \<Rightarrow> account_preferences kvm" where
  "preferences J c =
     kbind (kv_get (preferences_key c)) (\<lambda>found. case found of
         Some bytes \<Rightarrow> klift (and_then (parse_json J bytes) preferences_of)
       | None \<Rightarrow> kret UI_DEFAULTS)"

definition save_preferences :: "json_text \<Rightarrow> cid \<Rightarrow> account_preferences \<Rightarrow> unit kvm" where
  "save_preferences J c prefs =
     kbind (klift (print_json J (preferences_json prefs))) (kv_set (preferences_key c))"

section \<open>What is saved is read back\<close>

definition retention_ok :: "peer_retention \<Rightarrow> bool" where
  "retention_ok r \<longleftrightarrow> (case re_retention r of Forever \<Rightarrow> True | Days n \<Rightarrow> n \<le> u32_max)"

lemma days_not_forever: "fmupd ''Days'' x fmempty \<noteq> fmupd ''Forever'' y fmempty"
proof
  assume "fmupd ''Days'' x fmempty = fmupd ''Forever'' y fmempty"
  then have "fmlookup (fmupd ''Days'' x fmempty) ''Days'' = fmlookup (fmupd ''Forever'' y fmempty) ''Days''" by (rule arg_cong)
  then show False by simp
qed

lemma de_retention_back: "retention_ok r \<Longrightarrow> de_retention (retention_json (re_retention r)) = Inr (re_retention r)"
  by (cases "re_retention r")
    (simp_all add: de_retention_def retention_json_def retention_ok_def json_obj_def days_not_forever fmlookup_of_list de_nat_json)

lemma peer_retention_back: "retention_ok r \<Longrightarrow> peer_retention_of (peer_retention_json r) = Inr r"
  by (simp add: peer_retention_of_def peer_retention_json_def as_fields_def json_obj_def de_field_def
      fmlookup_of_list de_u64_json de_retention_back)

lemma names_back:
  "de_variant preview_names (json_variant preview_names a) = Inr a"
  "de_variant level_names (json_variant level_names b) = Inr b"
  by (cases a; simp add: de_variant_def json_variant_def preview_names_def json_obj_def)
    (cases b; simp add: de_variant_def json_variant_def level_names_def json_obj_def)

lemma peer_minimum_back: "peer_minimum_of (peer_minimum_json r) = Inr r"
  by (simp add: peer_minimum_of_def peer_minimum_json_def as_fields_def json_obj_def de_field_def
      fmlookup_of_list de_u64_json names_back)

lemma preferences_back:
  assumes "list_all retention_ok (pr_retention p)"
  shows "preferences_of (preferences_json p) = Inr p"
proof -
  have "de_list peer_retention_of (json_list peer_retention_json (pr_retention p)) = Inr (pr_retention p)"
    using assms de_all_map [of "pr_retention p" peer_retention_of peer_retention_json id] peer_retention_back
    by (simp add: de_list_def json_list_def list_all_iff)
  moreover have "de_list peer_minimum_of (json_list peer_minimum_json (pr_minimums p)) = Inr (pr_minimums p)"
    using de_all_map [of "pr_minimums p" peer_minimum_of peer_minimum_json id] peer_minimum_back
    by (simp add: de_list_def json_list_def)
  ultimately show ?thesis
    by (simp add: preferences_of_def preferences_json_def as_fields_def json_obj_def de_field_def de_default_def
        fmlookup_of_list names_back de_bool_def)
qed

lemma preferences_whole: "list_all retention_ok (pr_retention p) \<Longrightarrow> json_whole (preferences_json p)"
proof -
  assume ok: "list_all retention_ok (pr_retention p)"
  have variants: "json_whole (json_variant preview_names a)" "json_whole (json_variant level_names b)" for a b
    by (cases a; simp add: json_variant_def preview_names_def utf8_lit)
      (cases b; simp add: json_variant_def level_names_def utf8_lit)
  have cid: "json_whole (json_u64 c)" for c by (rule json_whole_ints)
  have obj: "json_whole (json_obj fs) \<longleftrightarrow> fmpred (\<lambda>_. json_whole) (fmap_of_list fs)" for fs
    by (auto simp: json_obj_def fmpred_iff)
  have ret: "json_whole (peer_retention_json r)" if "retention_ok r" for r
    using that cid [of "re_peer_cid r"]
    by (cases "re_retention r")
      (auto simp: obj peer_retention_json_def retention_json_def retention_ok_def fmpred_iff fmlookup_of_list
        json_nat_def u32_max_def utf8_lit split: if_splits)
  have min: "json_whole (peer_minimum_json r)" for r
    using cid [of "mi_peer_cid r"] variants
    by (auto simp: obj peer_minimum_json_def fmpred_iff fmlookup_of_list split: if_splits)
  show ?thesis using ok ret min variants
    by (auto simp: obj preferences_json_def fmpred_iff fmlookup_of_list json_list_def list_all_iff split: if_splits)
qed

lemma preferences_within: "json_within (preferences_json p) 4"
proof -
  have r: "json_within (peer_retention_json r) 2" for r unfolding peer_retention_json_def json_obj_def
    by (intro json_within_of_list) (auto simp: retention_json_def json_obj_def fmlookup_of_list split: retention.split if_splits)
  have m: "json_within (peer_minimum_json r) 2" for r unfolding peer_minimum_json_def json_obj_def
    by (intro json_within_of_list) simp_all
  show ?thesis unfolding preferences_json_def json_obj_def
    by (intro json_within_of_list) (simp_all add: r m)
qed

text \<open>Saving, when no call fails, and reading afterwards.\<close>

lemma preferences_saved:
  assumes "json_text_ok J" and "list_all retention_ok (pr_retention p)" and "fine s"
  shows "\<exists>s'. save_preferences J c p s = (KOk (), s') \<and> fine s' \<and> preferences J c s' = (KOk p, s')"
proof -
  obtain b where b: "jt_print J (preferences_json p) = Some b" "jt_parse J b = Some (preferences_json p)"
    using assms(1) preferences_whole [OF assms(2)] json_within_mono [OF preferences_within, of 127]
    by (auto simp: json_text_ok_def)
  let ?s = "s\<lparr>kv_map := (kv_map s)(preferences_key c := Some b)\<rparr>"
  have "save_preferences J c p s = (KOk (), ?s)"
    using assms(3) b(1) by (simp add: save_preferences_def print_json_def kbind_def klift_def kv_set_def)
  moreover have "fine ?s" using assms(3) by simp
  moreover from this have "preferences J c ?s = (KOk p, ?s)"
    using b(2) preferences_back [OF assms(2)] by (simp add: preferences_def kbind_def klift_def parse_json_def)
  ultimately show ?thesis by blast
qed

end
