(* ===== verification/Conversation_Keys.thy ===== *)
theory Conversation_Keys
  imports Conversation_Store
begin

text \<open>
  The keys of the conversation store, that the accounts' keys are disjoint, and which keys each of
  the store's computations may write, whatever fails: a frame rule per operation.
\<close>

section \<open>Keys\<close>

text \<open>The keys of one account's conversations, and those of one of them.\<close>

definition account_key :: "cid \<Rightarrow> string \<Rightarrow> bool" where
  "account_key own k \<longleftrightarrow> starts_with k (PAGINATED_PREFIX @ show_nat (unat own) @ ''_with_'')"

definition legacy_key :: "cid \<Rightarrow> string \<Rightarrow> bool" where
  "legacy_key peer k \<longleftrightarrow> k = metadata_key (legacy peer) \<or> (\<exists>n. k = page_key (legacy peer) n)"

lemma scoped_account_key: "account_key own (scoped own peer @ t)"
  by (simp add: account_key_def scoped_def starts_with_def)

lemma keys_owned [simp]:
  "account_key own (page_key (scoped own peer) n)" "account_key own (metadata_key (scoped own peer))"
  "legacy_key peer (page_key (legacy peer) n)" "legacy_key peer (metadata_key (legacy peer))"
  by (auto simp: page_key_def metadata_key_def scoped_account_key legacy_key_def)

text \<open>A number's digits end where something that is not a digit follows.\<close>

lemma digits_unique:
  assumes "show_nat a @ x # xs = show_nat b @ y # ys" and "\<not> is_ascii_digit x" and "\<not> is_ascii_digit y"
  shows "a = b \<and> x # xs = y # ys"
proof -
  have "takeWhile is_ascii_digit (show_nat n @ z # zs) = show_nat n" if "\<not> is_ascii_digit z" for n z zs
    using show_nat_digits [of n] that by (simp add: takeWhile_append1 list_all_iff)
  from this [OF assms(2), of a xs] this [OF assms(3), of b ys] assms(1) have eq: "show_nat a = show_nat b" by simp
  then have "dec_value (show_nat a) = dec_value (show_nat b)" by (rule arg_cong)
  then have "a = b" by (simp only: dec_value_show)
  with eq assms(1) show ?thesis by simp
qed

lemma not_digit [simp]: "\<not> is_ascii_digit CHR ''_''" "\<not> is_ascii_digit CHR ''w''" "\<not> is_ascii_digit CHR ''m''"
  by (simp_all add: is_ascii_digit_def byte_def)

lemma account_keys_disjoint: "account_key a k \<Longrightarrow> account_key b k \<Longrightarrow> a = b"
proof -
  assume "account_key a k" "account_key b k"
  then obtain s t where "show_nat (unat a) @ ''_with_'' @ s = show_nat (unat b) @ ''_with_'' @ t"
    by (auto simp: account_key_def starts_with_iff)
  then have "unat a = unat b" using digits_unique [of "unat a" "CHR ''_''" "''with_'' @ s" "unat b" "CHR ''_''" "''with_'' @ t"] by simp
  then show "a = b" by (rule unsigned_word_eqI)
qed

lemma legacy_not_account: "legacy_key peer k \<Longrightarrow> \<not> account_key own k"
proof
  assume l: "legacy_key peer k" and "account_key own k"
  then obtain s where k: "k = PAGINATED_PREFIX @ show_nat (unat own) @ ''_with_'' @ s"
    by (auto simp: account_key_def starts_with_iff)
  from l obtain c t where "k = PAGINATED_PREFIX @ show_nat (unat peer) @ CHR ''_'' # c # t" "c \<noteq> CHR ''w''"
  proof -
    consider "k = metadata_key (legacy peer)" | n where "k = page_key (legacy peer) n"
      using l by (auto simp: legacy_key_def)
    then show ?thesis
    proof cases
      case 1
      then show ?thesis using that [of "CHR ''m''" "''etadata''"] by (simp add: metadata_key_def legacy_def)
    next
      case (2 n)
      obtain d ds where d: "show_nat n = d # ds" by (cases "show_nat n") simp_all
      have "is_ascii_digit d" using show_nat_digits [of n] by (simp add: d)
      then have "d \<noteq> CHR ''w''" by auto
      then show ?thesis using that [of d ds] 2 by (simp add: page_key_def legacy_def d)
    qed
  qed
  with k have "show_nat (unat own) @ CHR ''_'' # (''with_'' @ s) = show_nat (unat peer) @ CHR ''_'' # c # t" by simp
  from digits_unique [OF this] have "CHR ''w'' = c" by simp
  with \<open>c \<noteq> CHR ''w''\<close> show False by simp
qed

section \<open>What each computation may write\<close>

named_theorems writes \<open>which keys a computation writes\<close>

definition only_writes :: "(string \<Rightarrow> bool) \<Rightarrow> 'a kvm \<Rightarrow> bool" where
  "only_writes K m \<longleftrightarrow> (\<forall>s r s' k. m s = (r, s') \<longrightarrow> \<not> K k \<longrightarrow> kv_map s' k = kv_map s k)"

lemma only_writesD: "only_writes K m \<Longrightarrow> m s = (r, s') \<Longrightarrow> \<not> K k \<Longrightarrow> kv_map s' k = kv_map s k"
  by (simp add: only_writes_def)

lemma writes_bind [writes]:
  assumes "only_writes K m" and "\<And>x. only_writes K (f x)"
  shows "only_writes K (kbind m f)"
  unfolding only_writes_def
proof (intro allI impI)
  fix s r s' k assume b: "kbind m f s = (r, s')" and k: "\<not> K k"
  obtain q s1 where m: "m s = (q, s1)" by fastforce
  have 1: "kv_map s1 k = kv_map s k" by (rule only_writesD [OF assms(1) m k])
  show "kv_map s' k = kv_map s k"
  proof (cases q)
    case (KOk x)
    with b m have "f x s1 = (r, s')" by (simp add: kbind_def)
    from only_writesD [OF assms(2) this k] 1 show ?thesis by simp
  qed (use b m 1 in \<open>auto simp: kbind_def\<close>)
qed

lemma writes_simple [writes]:
  "only_writes K (kret x)" "only_writes K kpanic" "only_writes K (klift r)" "only_writes K (kv_get key)"
  "only_writes K (kv_keys order)"
  by (auto simp: only_writes_def kret_def kpanic_def klift_def dest: kvs.get_keeps keys_keeps split: sum.splits)

lemma writes_put: "K key \<Longrightarrow> only_writes K (kv_put key v)"
  using kvs.put_other by (fastforce simp: only_writes_def)

lemma writes_set [writes]: "K key \<Longrightarrow> only_writes K (kv_set key v)"
  by (simp add: kv_set_def writes_put)

lemma writes_delete [writes]: "K key \<Longrightarrow> only_writes K (kv_delete key)"
  by (simp add: kv_delete_def writes_put)

lemma writes_nothing [writes]:
  "only_writes K (metadata_at st key)" "only_writes K (page_at st key)"
  "only_writes K (load_metadata st peer)" "only_writes K (load_page st peer n)"
proof -
  show at: "only_writes K (metadata_at st key)" "only_writes K (page_at st key)" for key
    by (auto simp: metadata_at_def page_at_def intro!: writes split: option.split)
  show "only_writes K (load_metadata st peer)" "only_writes K (load_page st peer n)"
    by (auto simp: load_metadata_def load_page_def intro!: writes at split: option.split)
qed

lemma writes_save [writes]:
  "only_writes (account_key (st_own st)) (save_page st p)"
  "only_writes (account_key (st_own st)) (save_metadata st md)"
  by (auto simp: save_page_def save_metadata_def intro!: writes)

lemma writes_find [writes]: "only_writes K (find_message st peer i)"
proof -
  have "only_writes K (find_from st peer i md n)" for md n
    by (induction n) (auto intro!: writes split: option.split)
  then show ?thesis by (auto simp: find_message_def intro!: writes split: option.split)
qed

lemma writes_append: "only_writes (account_key (st_own st)) (append_message st peer m u now)"
  unfolding append_message_def roll_over_def already_stored_def Let_def
  by (intro writes conjI allI impI | split option.split if_split prod.split)+

lemma writes_update [writes]: "only_writes (account_key (st_own st)) (update_message st peer i c)"
  unfolding update_message_def by (intro writes conjI allI impI | split option.split if_split prod.split)+

lemma writes_remove [writes]: "only_writes (account_key (st_own st)) (remove_message st peer i now)"
  unfolding remove_message_def by (intro writes conjI allI impI | split option.split if_split prod.split)+

lemma writes_revise: "only_writes (account_key (st_own st)) (revise_message st peer i c r now)"
  unfolding revise_message_def Let_def
  by (intro writes conjI allI impI | split option.split if_split prod.split revision.split)+


lemma writes_mark: "only_writes (account_key (st_own st)) (mark_read st peer now)"
proof -
  have page: "only_writes (account_key (st_own st)) (mark_page st peer w rd n)" for w rd n
    unfolding mark_page_def Let_def
    by (intro writes conjI allI impI | split option.split if_split prod.split)+
  have "only_writes (account_key (st_own st)) (mark_pages st peer w rd n)" for w rd n
    by (induction n arbitrary: rd) (auto intro!: writes page)
  then show ?thesis unfolding mark_read_def Let_def
    by (intro writes conjI allI impI | split option.split | assumption)+
qed

lemma writes_username: "only_writes (account_key (st_own st)) (set_peer_username st peer u now)"
  unfolding set_peer_username_def by (intro writes conjI allI impI | split option.split if_split)+

lemma writes_prune: "only_writes (account_key (st_own st)) (prune_older_than st peer cutoff now)"
proof -
  have page: "only_writes (account_key (st_own st)) (prune_page st peer cutoff n acc)" for n acc
    unfolding prune_page_def Let_def
    by (intro writes conjI allI impI | split option.split if_split prod.split)+
  have "only_writes (account_key (st_own st)) (prune_pages st peer cutoff n k acc)" for n k acc
    by (induction k arbitrary: n acc) (auto intro!: writes page)
  then show ?thesis unfolding prune_older_than_def
    by (intro writes conjI allI impI | split option.split if_split prod.split | assumption)+
qed

lemma writes_delete_pages: "(\<And>n. K (page_key prefix n)) \<Longrightarrow> only_writes K (delete_pages prefix n k)"
  by (induction k arbitrary: n) (auto intro!: writes)

lemma writes_delete_conversation:
  "only_writes (\<lambda>k. account_key (st_own st) k \<or> legacy_key peer k) (delete_conversation st peer include)"
  unfolding delete_conversation_def Let_def
  by (intro writes writes_delete_pages conjI allI impI | split option.split if_split prod.split
     | simp only: keys_owned simp_thms)+

lemma writes_list: "only_writes K (list_conversations st order)"
proof -
  have "only_writes K (list_from st keys found)" for keys found
    by (induction st keys found rule: list_from.induct) (auto simp: Let_def intro!: writes split: option.split sum.split)
  then show ?thesis by (auto simp: list_conversations_def Let_def intro!: writes)
qed

end
