(* ===== verification/Conversation_Reads.thy ===== *)
theory Conversation_Reads
  imports Conversation_Keys
begin

text \<open>
  What loads return and saves leave, as rules for executing the store's computations symbolically
  on the stored records, and the conversation that the records of one peer make up.
\<close>

section \<open>Distinct keys\<close>

lemma show_nat_inject [simp]: "show_nat a = show_nat b \<longleftrightarrow> a = b"
proof
  assume "show_nat a = show_nat b"
  then have "dec_value (show_nat a) = dec_value (show_nat b)" by (rule arg_cong)
  then show "a = b" by (simp only: dec_value_show)
qed simp

lemma scoped_inject:
  assumes "scoped own p @ CHR ''_'' # s = scoped own q @ CHR ''_'' # t"
  shows "p = q \<and> s = t"
proof -
  have "show_nat (unat p) @ CHR ''_'' # s = show_nat (unat q) @ CHR ''_'' # t"
    using assms by (simp add: scoped_def)
  from digits_unique [OF this] have "unat p = unat q" "s = t" by simp_all
  then show ?thesis using unsigned_word_eqI by blast
qed

lemma page_key_scoped [simp]:
  "page_key (scoped own p) n = page_key (scoped own q) m \<longleftrightarrow> p = q \<and> n = m"
  unfolding page_key_def using scoped_inject [of own p "show_nat n" q "show_nat m"] by auto

lemma metadata_key_scoped [simp]: "metadata_key (scoped own p) = metadata_key (scoped own q) \<longleftrightarrow> p = q"
  unfolding metadata_key_def using scoped_inject [of own p "''metadata''" q "''metadata''"] by auto

lemma digits_not_metadata: "show_nat n \<noteq> ''metadata''"
proof
  assume "show_nat n = ''metadata''"
  with show_nat_digits [of n] show False by simp
qed

lemma page_not_metadata [simp]:
  "page_key (scoped own p) n \<noteq> metadata_key (scoped own q)" "metadata_key (scoped own q) \<noteq> page_key (scoped own p) n"
  using scoped_inject [of own p "show_nat n" q "''metadata''"] digits_not_metadata [of n]
  unfolding page_key_def metadata_key_def by (auto dest: sym)

lemma scoped_not_legacy [simp]:
  "page_key (scoped own p) n \<noteq> page_key (legacy q) m" "page_key (legacy q) m \<noteq> page_key (scoped own p) n"
  "metadata_key (scoped own p) \<noteq> metadata_key (legacy q)" "metadata_key (legacy q) \<noteq> metadata_key (scoped own p)"
  "page_key (scoped own p) n \<noteq> metadata_key (legacy q)" "metadata_key (legacy q) \<noteq> page_key (scoped own p) n"
  "metadata_key (scoped own p) \<noteq> page_key (legacy q) m" "page_key (legacy q) m \<noteq> metadata_key (scoped own p)"
  using legacy_not_account [of q _ own] keys_owned by metis+

section \<open>What a load returns\<close>

definition decoded :: "(octet list \<Rightarrow> stored_error + 'a) \<Rightarrow> octet list option \<Rightarrow> stored_error + 'a option" where
  "decoded d b = (case b of None \<Rightarrow> Inr None | Some b \<Rightarrow> and_then (d b) (\<lambda>x. Inr (Some x)))"

definition page_read :: "store \<Rightarrow> (string \<Rightarrow> octet list option) \<Rightarrow> cid \<Rightarrow> nat \<Rightarrow> stored_error + page option" where
  "page_read st M peer n =
     and_then (decoded (decode_page (st_json st) (st_nans st)) (M (page_key (scoped (st_own st) peer) n))) (\<lambda>x.
       case x of
         Some p \<Rightarrow> Inr (Some p)
       | None \<Rightarrow> decoded (decode_page (st_json st) (st_nans st)) (M (page_key (legacy peer) n)))"

definition meta_read :: "store \<Rightarrow> (string \<Rightarrow> octet list option) \<Rightarrow> cid \<Rightarrow> stored_error + metadata option" where
  "meta_read st M peer =
     and_then (decoded (decode_metadata (st_json st)) (M (metadata_key (scoped (st_own st) peer)))) (\<lambda>x.
       case x of
         Some md \<Rightarrow> Inr (Some md)
       | None \<Rightarrow>
           and_then (decoded (decode_metadata (st_json st)) (M (metadata_key (legacy peer)))) (\<lambda>y.
             Inr (case y of
                    Some md \<Rightarrow> if is_none_or (md_owner_cid md) (\<lambda>owner. owner = st_own st) then Some md else None
                  | None \<Rightarrow> None)))"

text \<open>The stored records, and that no call fails when \<^verbatim>\<open>b\<close> says so.\<close>

definition at_map :: "bool \<Rightarrow> (string \<Rightarrow> octet list option) \<Rightarrow> kv \<Rightarrow> bool" where
  "at_map b M s \<longleftrightarrow> kv_map s = M \<and> (b \<longrightarrow> fine s)"

lemma runs_bind_get:
  assumes "\<And>s. \<not> b \<Longrightarrow> kv_map s = M \<Longrightarrow> E s" and "runs (at_map b M) (f (M key)) Q E"
  shows "runs (at_map b M) (kbind (kv_get key) f) Q E"
proof (rule runs_bind [where R = "\<lambda>x s. x = M key \<and> at_map b M s"])
  show "runs (at_map b M) (kv_get key) (\<lambda>x s. x = M key \<and> at_map b M s) E"
    unfolding runs_def
  proof (intro allI impI)
    fix s assume s: "at_map b M s"
    obtain r s' where g: "kv_get key s = (r, s')" by fastforce
    have M: "kv_map s = M" "kv_map s' = M" using s kvs.get_keeps [OF g] by (simp_all add: at_map_def)
    have ok: "r = KOk (M key) \<and> s' = s" if b using that s g by (simp add: at_map_def)
    show "case kv_get key s of (KOk x, s') \<Rightarrow> x = M key \<and> at_map b M s' | (KErr e, s') \<Rightarrow> E s' | (KPanic, s') \<Rightarrow> E s'"
    proof (cases r)
      case (KOk x)
      then have "x = M key" using kvs.get_reads [of key s x s'] g M(1) by simp
      with KOk g M ok s show ?thesis by (simp add: at_map_def)
    qed (use ok g assms(1) [OF _ M(2)] in auto)
  qed
  show "runs (\<lambda>s. x = M key \<and> at_map b M s) (f x) Q E" for x
    using assms(2) by (auto simp: runs_def)
qed

lemma runs_bind_put:
  assumes "\<And>s. \<not> b \<Longrightarrow> kv_map s = M \<Longrightarrow> E s" and "\<And>s. \<not> b \<Longrightarrow> kv_map s = M(key := v) \<Longrightarrow> E s"
    and "runs (at_map b (M(key := v))) (f ()) Q E"
  shows "runs (at_map b M) (kbind (kv_put key v) f) Q E"
proof (rule runs_bind [where R = "\<lambda>_. at_map b (M(key := v))"])
  show "runs (at_map b M) (kv_put key v) (\<lambda>_. at_map b (M(key := v))) E"
    unfolding runs_def
  proof (intro allI impI)
    fix s assume s: "at_map b M s"
    obtain r s' where g: "kv_put key v s = (r, s')" by fastforce
    have ok: "r = KOk () \<and> s' = s\<lparr>kv_map := (kv_map s)(key := v)\<rparr>" if b using that s g by (simp add: at_map_def)
    have err: "E s'" if "\<not> b"
      using kvs.put_some [OF g] s assms(1,2) [OF that, of s'] by (auto simp: at_map_def)
    show "case kv_put key v s of (KOk x, s') \<Rightarrow> at_map b (M(key := v)) s' | (KErr e, s') \<Rightarrow> E s' | (KPanic, s') \<Rightarrow> E s'"
    proof (cases r)
      case (KOk x)
      then have "kv_map s' = M(key := v)" using kvs.put_done [of key v s x s'] g s by (simp add: at_map_def)
      with KOk g ok s show ?thesis by (auto simp: at_map_def)
    qed (use g ok err in auto)
  qed
  show "runs (at_map b (M(key := v))) (f x) Q E" for x using assms(3) by simp
qed

lemma kbind_assoc: "kbind (kbind m f) g = kbind m (\<lambda>x. kbind (f x) g)"
  by (simp add: kbind_def fun_eq_iff split: prod.split res.split)

lemma kbind_ret: "kbind m kret = m"
  by (simp add: kbind_def kret_def fun_eq_iff split: prod.split res.split)

lemma runs_bind_metadata_at:
  assumes "decoded (decode_metadata (st_json st)) (M key) = Inr x" and "\<And>s. \<not> b \<Longrightarrow> kv_map s = M \<Longrightarrow> E s"
    and "runs (at_map b M) (f x) Q E"
  shows "runs (at_map b M) (kbind (metadata_at st key) f) Q E"
  unfolding metadata_at_def kbind_assoc
  using assms by (intro runs_bind_get) (auto simp: decoded_def kbind_assoc split: option.splits)

lemma runs_bind_page_at:
  assumes "decoded (decode_page (st_json st) (st_nans st)) (M key) = Inr x" and "\<And>s. \<not> b \<Longrightarrow> kv_map s = M \<Longrightarrow> E s"
    and "runs (at_map b M) (f x) Q E"
  shows "runs (at_map b M) (kbind (page_at st key) f) Q E"
  unfolding page_at_def kbind_assoc
  using assms by (intro runs_bind_get) (auto simp: decoded_def kbind_assoc split: option.splits)

lemma runs_bind_load_page:
  assumes "page_read st M peer n = Inr x" and "\<And>s. \<not> b \<Longrightarrow> kv_map s = M \<Longrightarrow> E s"
    and "runs (at_map b M) (f x) Q E"
  shows "runs (at_map b M) (kbind (load_page st peer n) f) Q E"
proof -
  from assms(1) obtain y where y: "decoded (decode_page (st_json st) (st_nans st)) (M (page_key (scoped (st_own st) peer) n)) = Inr y"
    unfolding page_read_def by (erule_tac and_thenE)
  show ?thesis unfolding load_page_def kbind_assoc
  proof (rule runs_bind_page_at)
    show "decoded (decode_page (st_json st) (st_nans st)) (M (page_key (scoped (st_own st) peer) n)) = Inr y" by (rule y)
    show "\<And>s. \<not> b \<Longrightarrow> kv_map s = M \<Longrightarrow> E s" by (rule assms(2))
    show "runs (at_map b M) (kbind (case y of Some p \<Rightarrow> kret (Some p) | None \<Rightarrow> page_at st (page_key (legacy peer) n)) f) Q E"
      using assms y by (cases y) (auto simp: page_read_def intro: runs_bind_page_at)
  qed
qed

lemma runs_bind_load_metadata:
  assumes "meta_read st M peer = Inr x" and "\<And>s. \<not> b \<Longrightarrow> kv_map s = M \<Longrightarrow> E s"
    and "runs (at_map b M) (f x) Q E"
  shows "runs (at_map b M) (kbind (load_metadata st peer) f) Q E"
proof -
  from assms(1) obtain y where y: "decoded (decode_metadata (st_json st)) (M (metadata_key (scoped (st_own st) peer))) = Inr y"
    unfolding meta_read_def by (erule_tac and_thenE)
  show ?thesis unfolding load_metadata_def kbind_assoc
  proof (rule runs_bind_metadata_at)
    show "decoded (decode_metadata (st_json st)) (M (metadata_key (scoped (st_own st) peer))) = Inr y" by (rule y)
    show "\<And>s. \<not> b \<Longrightarrow> kv_map s = M \<Longrightarrow> E s" by (rule assms(2))
    show "runs (at_map b M) (kbind (case y of Some md \<Rightarrow> kret (Some md)
        | None \<Rightarrow> kbind (metadata_at st (metadata_key (legacy peer))) (\<lambda>old. kret (case old of
            Some md \<Rightarrow> if is_none_or (md_owner_cid md) (\<lambda>owner. owner = st_own st) then Some md else None
          | None \<Rightarrow> None))) f) Q E"
      using assms y
      by (cases y) (auto simp: meta_read_def kbind_assoc intro: runs_bind_metadata_at)
  qed
qed

section \<open>What a save leaves\<close>

definition page_write :: "store \<Rightarrow> (string \<Rightarrow> octet list option) \<Rightarrow> page \<Rightarrow> (string \<Rightarrow> octet list option) \<Rightarrow> bool" where
  "page_write st M p M' \<longleftrightarrow>
     (\<exists>c. decode_page (st_json st) (st_nans st) c = Inr p \<and>
          M' = M(page_key (scoped (st_own st) (pg_peer_cid p)) (pg_number p) := Some c))"

definition meta_write :: "store \<Rightarrow> (string \<Rightarrow> octet list option) \<Rightarrow> metadata \<Rightarrow> (string \<Rightarrow> octet list option) \<Rightarrow> bool" where
  "meta_write st M md M' \<longleftrightarrow>
     (\<exists>c. decode_metadata (st_json st) c = Inr md \<and>
          M' = M(metadata_key (scoped (st_own st) (md_peer_cid md)) := Some c))"

lemma runs_bind_save_page:
  assumes "json_text_ok (st_json st)" and "page_ok p" and "\<And>s. \<not> b \<Longrightarrow> kv_map s = M \<Longrightarrow> E s"
    and "\<And>s M'. \<not> b \<Longrightarrow> page_write st M p M' \<Longrightarrow> kv_map s = M' \<Longrightarrow> E s"
    and "\<And>M'. page_write st M p M' \<Longrightarrow> runs (at_map b M') (f ()) Q E"
  shows "runs (at_map b M) (kbind (save_page st p) f) Q E"
proof -
  obtain c where c: "encode_page (st_json st) p = Inr c" "decode_page (st_json st) (st_nans st) c = Inr p"
    using page_stored [OF assms(1,2)] by blast
  then have w: "page_write st M p (M(page_key (scoped (st_own st) (pg_peer_cid p)) (pg_number p) := Some c))"
    unfolding page_write_def by blast
  show ?thesis unfolding save_page_def kbind_assoc c(1) kv_set_def kbind_simps
    by (rule runs_bind_put [OF assms(3)]) (use assms(4,5) w in blast)+
qed

lemma runs_bind_save_metadata:
  assumes "json_text_ok (st_json st)" and "metadata_ok md" and "\<And>s. \<not> b \<Longrightarrow> kv_map s = M \<Longrightarrow> E s"
    and "\<And>s M'. \<not> b \<Longrightarrow> meta_write st M md M' \<Longrightarrow> kv_map s = M' \<Longrightarrow> E s"
    and "\<And>M'. meta_write st M md M' \<Longrightarrow> runs (at_map b M') (f ()) Q E"
  shows "runs (at_map b M) (kbind (save_metadata st md) f) Q E"
proof -
  obtain c where c: "encode_metadata (st_json st) md = Inr c" "decode_metadata (st_json st) c = Inr md"
    using metadata_stored [OF assms(1,2)] by blast
  then have w: "meta_write st M md (M(metadata_key (scoped (st_own st) (md_peer_cid md)) := Some c))"
    unfolding meta_write_def by blast
  show ?thesis unfolding save_metadata_def kbind_assoc c(1) kv_set_def kbind_simps
    by (rule runs_bind_put [OF assms(3)]) (use assms(4,5) w in blast)+
qed

lemma page_write_reads:
  assumes "page_write st M p M'"
  shows "page_read st M' peer n = (if peer = pg_peer_cid p \<and> n = pg_number p then Inr (Some p) else page_read st M peer n)"
    and "meta_read st M' peer = meta_read st M peer"
proof -
  from assms obtain c where c: "decode_page (st_json st) (st_nans st) c = Inr p"
      and M': "M' = M(page_key (scoped (st_own st) (pg_peer_cid p)) (pg_number p) := Some c)"
    unfolding page_write_def by blast
  have l: "M' (page_key (legacy q) m) = M (page_key (legacy q) m)"
    "M' (metadata_key (legacy q)) = M (metadata_key (legacy q))"
    "M' (metadata_key (scoped (st_own st) q)) = M (metadata_key (scoped (st_own st) q))"
    "M' (page_key (scoped (st_own st) q) m) =
      (if q = pg_peer_cid p \<and> m = pg_number p then Some c else M (page_key (scoped (st_own st) q) m))" for q m
    by (simp_all add: M')
  show "page_read st M' peer n = (if peer = pg_peer_cid p \<and> n = pg_number p then Inr (Some p) else page_read st M peer n)"
    unfolding page_read_def l by (simp add: decoded_def c)
  show "meta_read st M' peer = meta_read st M peer" unfolding meta_read_def l ..
qed

lemma meta_write_reads:
  assumes "meta_write st M md M'"
  shows "page_read st M' peer n = page_read st M peer n"
    and "meta_read st M' peer = (if peer = md_peer_cid md then Inr (Some md) else meta_read st M peer)"
proof -
  from assms obtain c where c: "decode_metadata (st_json st) c = Inr md"
      and M': "M' = M(metadata_key (scoped (st_own st) (md_peer_cid md)) := Some c)"
    unfolding meta_write_def by blast
  have l: "M' (page_key (legacy q) m) = M (page_key (legacy q) m)"
    "M' (metadata_key (legacy q)) = M (metadata_key (legacy q))"
    "M' (page_key (scoped (st_own st) q) m) = M (page_key (scoped (st_own st) q) m)"
    "M' (metadata_key (scoped (st_own st) q)) =
      (if q = md_peer_cid md then Some c else M (metadata_key (scoped (st_own st) q)))" for q m
    by (simp_all add: M')
  show "page_read st M' peer n = page_read st M peer n" unfolding page_read_def l ..
  show "meta_read st M' peer = (if peer = md_peer_cid md then Inr (Some md) else meta_read st M peer)"
    unfolding meta_read_def l by (simp add: decoded_def c)
qed

section \<open>A conversation\<close>

text \<open>
  The conversation with \<^verbatim>\<open>peer\<close> as the store finds it: its metadata and every page up to the
  latest, each under its own number and storable.
\<close>

definition conv :: "store \<Rightarrow> (string \<Rightarrow> octet list option) \<Rightarrow> cid \<Rightarrow> metadata \<Rightarrow> page list \<Rightarrow> bool" where
  "conv st M peer md ps \<longleftrightarrow>
     meta_read st M peer = Inr (Some md) \<and> md_peer_cid md = peer \<and> metadata_ok md \<and>
     length ps = Suc (md_latest_page md) \<and>
     (\<forall>n < length ps. page_read st M peer n = Inr (Some (ps ! n)) \<and> pg_peer_cid (ps ! n) = peer \<and>
        pg_number (ps ! n) = n \<and> page_ok (ps ! n))"

lemma convD:
  assumes "conv st M peer md ps"
  shows "meta_read st M peer = Inr (Some md)" "md_peer_cid md = peer" "metadata_ok md"
    "length ps = Suc (md_latest_page md)"
    "n < length ps \<Longrightarrow> page_read st M peer n = Inr (Some (ps ! n))" "n < length ps \<Longrightarrow> pg_peer_cid (ps ! n) = peer"
    "n < length ps \<Longrightarrow> pg_number (ps ! n) = n" "n < length ps \<Longrightarrow> page_ok (ps ! n)"
  using assms by (simp_all add: conv_def)

lemma conv_write_page:
  assumes "conv st M peer md ps" and "page_write st M p M'" and "pg_peer_cid p = peer" and "pg_number p = n"
    and "n < length ps" and "page_ok p"
  shows "conv st M' peer md (ps[n := p])"
  using assms unfolding conv_def by (auto simp: page_write_reads [OF assms(2)] nth_list_update)

text \<open>A page beyond the latest is not part of the conversation yet.\<close>

lemma conv_write_beyond:
  assumes "conv st M peer md ps" and "page_write st M p M'" and "pg_number p = length ps"
  shows "conv st M' peer md ps"
  using assms unfolding conv_def by (auto simp: page_write_reads [OF assms(2)])

lemma conv_write_metadata:
  assumes "conv st M peer md ps" and "meta_write st M md' M'" and "md_peer_cid md' = peer" and "metadata_ok md'"
    and "md_latest_page md' = md_latest_page md"
  shows "conv st M' peer md' ps"
  using assms unfolding conv_def by (auto simp: meta_write_reads [OF assms(2)])

lemma conv_extend:
  assumes "conv st M peer md ps" and "page_read st M peer (length ps) = Inr (Some p)" and "pg_peer_cid p = peer"
    and "pg_number p = length ps" and "page_ok p" and "meta_write st M md' M'" and "md_peer_cid md' = peer"
    and "metadata_ok md'" and "md_latest_page md' = length ps"
  shows "conv st M' peer md' (ps @ [p])"
  using assms unfolding conv_def by (auto simp: meta_write_reads [OF assms(6)] nth_append less_Suc_eq)

section \<open>Storable results\<close>

lemma place_ok: "page_ok p \<Longrightarrow> message_ok m \<Longrightarrow> page_ok (place p m)"
proof -
  assume ok: "page_ok p" "message_ok m"
  define ms where "ms = sort_key (\<lambda>m. f64_total_key (m_timestamp m)) (pg_messages p @ [m])"
  have all: "x \<in> set ms \<Longrightarrow> message_ok x" for x using ok by (auto simp: ms_def page_ok_def list_all_iff)
  have ne: "ms \<noteq> []"
  proof -
    have "length ms = Suc (length (pg_messages p))" by (simp add: ms_def)
    then show ?thesis by auto
  qed
  have "f64_whole (m_timestamp (hd ms))" "f64_whole (m_timestamp (last ms))"
    using all [OF hd_in_set [OF ne]] all [OF last_in_set [OF ne]] by (simp_all add: message_ok_def)
  then show ?thesis using ok all
    unfolding place_def Let_def ms_def [symmetric] by (simp add: page_ok_def list_all_iff)
qed

lemma empty_page_ok: "n \<le> u32_max \<Longrightarrow> f64_whole t \<Longrightarrow> page_ok (empty_page c n t)"
  by (simp add: page_ok_def empty_page_def)

lemma f64_max_whole: "f64_whole x \<Longrightarrow> f64_whole y \<Longrightarrow> f64_whole (f64_max x y)"
  by (simp add: f64_max_def)

text \<open>The counts of a conversation as natural numbers, with room for one more.\<close>

definition counts :: "metadata \<Rightarrow> nat \<Rightarrow> nat \<Rightarrow> bool" where
  "counts md t u \<longleftrightarrow>
     md_total_message_count md = f64_of_int (int t) \<and> md_unread_count md = f64_of_int (int u) \<and>
     t < 2 ^ 53 - 1 \<and> u < 2 ^ 53 - 1"

lemma f64_succ: "n < 2 ^ 53 - 1 \<Longrightarrow> f64_add (f64_of_int (int n)) f64_one = f64_of_int (int (Suc n))"
  unfolding f64_one_of_int by (subst f64_add_of_int) (simp_all add: add.commute)

lemma record_append_latest [simp]:
  "md_latest_page (record_append md m new own now) = md_latest_page md"
  "md_peer_cid (record_append md m new own now) = md_peer_cid md"
  by (simp_all add: record_append_def Let_def)

lemma record_append_counts:
  assumes "counts md t u"
  shows "md_total_message_count (record_append md m new own now) = f64_of_int (int (Suc t))"
    and "md_unread_count (record_append md m new own now) =
      f64_of_int (int (if m_sender_cid m \<noteq> own \<and> m_status m = StDelivered then Suc u else u))"
  using assms by (simp_all add: record_append_def counts_def f64_succ Let_def)

lemma record_append_ok:
  assumes "metadata_ok md" and "counts md t u" and "message_ok m" and "f64_whole now"
  shows "metadata_ok (record_append md m new own now)"
proof -
  have w: "f64_whole (m_timestamp m)" "f64_whole (m_index m)" using assms(3) by (simp_all add: message_ok_def)
  have "f64_whole (md_total_message_count (record_append md m new own now))"
    "f64_whole (md_unread_count (record_append md m new own now))"
    unfolding record_append_counts [OF assms(2)] using assms(2)
    by (auto simp: counts_def intro!: f64_whole_of_int)
  moreover have "f64_whole (md_oldest (record_append md m new own now))"
    "md_newest (record_append md m new own now) = m_timestamp m"
    "md_last_message_index (record_append md m new own now) = f64_max (md_last_message_index md) (m_index m)"
    "md_last_updated (record_append md m new own now) = now"
    "md_peer_username (record_append md m new own now) = md_peer_username md"
    "md_messages_per_page (record_append md m new own now) = md_messages_per_page md"
    using assms(1) w by (simp_all add: record_append_def Let_def metadata_ok_def)
  ultimately show ?thesis using assms(1,4) w by (simp add: metadata_ok_def f64_max_whole)
qed

end
