(* ===== verification/Conversation_Changes.thy ===== *)
theory Conversation_Changes
  imports Conversation_Reads
begin

text \<open>
  Appending to a conversation and changing one of its messages: what each returns and leaves, when
  nothing fails and when any call does.
\<close>

section \<open>Appending to a conversation\<close>

definition appended :: "cid \<Rightarrow> conv_message \<Rightarrow> page list \<Rightarrow> page list" where
  "appended peer m ps =
     (if MESSAGES_PER_PAGE \<le> length (pg_messages (last ps))
      then ps @ [place (empty_page peer (length ps) (m_timestamp m)) m]
      else ps[length ps - 1 := place (last ps) m])"

definition appended_metadata :: "store \<Rightarrow> metadata \<Rightarrow> page list \<Rightarrow> conv_message \<Rightarrow> f64 \<Rightarrow> metadata" where
  "appended_metadata st md ps m now =
     record_append
       (md\<lparr>md_owner_cid := Some (case md_owner_cid md of None \<Rightarrow> st_own st | Some c \<Rightarrow> c),
           md_latest_page := length (appended (md_peer_cid md) m ps) - 1\<rparr>) m False (st_own st) now"

text \<open>A redelivery: the newest page or the one before it has the message already.\<close>

definition redelivered :: "page list \<Rightarrow> utext \<Rightarrow> bool" where
  "redelivered ps i \<longleftrightarrow> has_id i (last ps) \<or> 2 \<le> length ps \<and> has_id i (ps ! (length ps - 2))"

definition all_messages :: "page list \<Rightarrow> conv_message list" where
  "all_messages ps = concat (map pg_messages ps)"

lemma runs_at_ret: "(\<And>s. kv_map s = M \<Longrightarrow> Q x s) \<Longrightarrow> runs (at_map b M) (kret x) Q E"
  by (rule runs_ret) (simp add: at_map_def)

lemma runs_already_stored:
  assumes c: "conv st M peer md ps" and md': "md_latest_page md' = md_latest_page md"
    and E: "\<And>s. \<not> b \<Longrightarrow> kv_map s = M \<Longrightarrow> E s"
    and k: "runs (at_map b M) (f (redelivered ps i)) Q E"
  shows "runs (at_map b M) (kbind (already_stored st peer md' (last ps) i) f) Q E"
proof (cases "has_id i (last ps)")
  case True
  then have "redelivered ps i" by (simp add: redelivered_def)
  with True k show ?thesis by (simp add: already_stored_def)
next
  case False
  note D = convD [OF c]
  show ?thesis
  proof (cases "md_latest_page md = 0")
    case True
    then have "\<not> redelivered ps i" using False D(4) by (simp add: redelivered_def)
    with False True md' k show ?thesis by (simp add: already_stored_def)
  next
    case ne: False
    then have n: "md_latest_page md - 1 < length ps" "length ps - 2 = md_latest_page md - 1" "2 \<le> length ps"
      using D(4) by simp_all
    then have "redelivered ps i = has_id i (ps ! (md_latest_page md - 1))"
      using False by (simp add: redelivered_def)
    with k have k': "runs (at_map b M) (f (has_id i (ps ! (md_latest_page md - 1)))) Q E" by simp
    have "runs (at_map b M) (kbind (load_page st peer (md_latest_page md - 1))
        (\<lambda>x. f (case x of Some q \<Rightarrow> has_id i q | None \<Rightarrow> False))) Q E"
    proof (rule runs_bind_load_page)
      show "page_read st M peer (md_latest_page md - 1) = Inr (Some (ps ! (md_latest_page md - 1)))"
        by (rule D(5) [OF n(1)])
      show "\<And>s. \<not> b \<Longrightarrow> kv_map s = M \<Longrightarrow> E s" by (rule E)
      show "runs (at_map b M) (f (case Some (ps ! (md_latest_page md - 1)) of Some q \<Rightarrow> has_id i q | None \<Rightarrow> False)) Q E"
        using k' by simp
    qed
    then show ?thesis using False ne md' by (simp add: already_stored_def kbind_assoc)
  qed
qed

lemma conv_nonempty: "conv st M peer md ps \<Longrightarrow> ps \<noteq> [] \<and> last ps = ps ! md_latest_page md \<and> md_latest_page md < length ps"
  by (cases ps rule: rev_cases) (auto simp: conv_def nth_append)

lemma append_runs:
  assumes J: "json_text_ok (st_json st)" and c: "conv st M peer md ps" and m: "message_ok m" and now: "f64_whole now"
    and cnt: "counts md t u" and room: "length ps \<le> u32_max"
  shows "runs (at_map b M) (append_message st peer m un now)
    (\<lambda>x s. if redelivered ps (m_id m) then x = None \<and> kv_map s = M
           else x = Some (appended_metadata st md ps m now) \<and>
             conv st (kv_map s) peer (appended_metadata st md ps m now) (appended peer m ps))
    (\<lambda>s. \<not> b \<and> (\<exists>md'. conv st (kv_map s) peer md' ps \<or> conv st (kv_map s) peer md' (appended peer m ps)))"
    (is "runs _ _ ?Q ?E")
proof -
  note D = convD [OF c] and N = conv_nonempty [OF c]
  have E0: "\<And>s. \<not> b \<Longrightarrow> kv_map s = M \<Longrightarrow> ?E s" using c by blast
  define md0 where "md0 = md\<lparr>md_owner_cid := Some (case md_owner_cid md of None \<Rightarrow> st_own st | Some c \<Rightarrow> c)\<rparr>"
  have md0: "md_latest_page md0 = md_latest_page md" "metadata_ok md0" "counts md0 t u" "md_peer_cid md0 = peer"
    using D(2,3) cnt by (simp_all add: md0_def metadata_ok_def counts_def)
  define md' where "md' = appended_metadata st md ps m now"
  have md': "md' = record_append (md0\<lparr>md_latest_page := length (appended peer m ps) - 1\<rparr>) m False (st_own st) now"
    using D(2) by (simp add: md'_def appended_metadata_def md0_def)
  have last_ok: "page_ok (last ps)" "pg_peer_cid (last ps) = peer" "pg_number (last ps) = md_latest_page md"
    using D(6-8) N by simp_all
  have le: "length (appended peer m ps) - 1 \<le> u32_max" using room D(4) by (simp add: appended_def)
  have "metadata_ok (md0\<lparr>md_latest_page := length (appended peer m ps) - 1\<rparr>)"
    "counts (md0\<lparr>md_latest_page := length (appended peer m ps) - 1\<rparr>) t u"
    using md0 le by (simp_all add: metadata_ok_def counts_def)
  from record_append_ok [OF this m now] have md'_ok: "metadata_ok md'" "md_peer_cid md' = peer"
      "md_latest_page md' = length (appended peer m ps) - 1"
    unfolding md' using md0(4) by simp_all
  have finish: "runs (at_map b M1) (kbind (save_page st (place p m)) (\<lambda>_. kbind (save_metadata st md') (\<lambda>_. kret (Some md')))) ?Q ?E"
    if "\<not> redelivered ps (m_id m)" "page_ok p" "conv st M1 peer md ps"
      and w: "\<And>M2. page_write st M1 (place p m) M2 \<Longrightarrow> (\<exists>md'. conv st M2 peer md' ps \<or> conv st M2 peer md' (appended peer m ps))"
      and v: "\<And>M2 M3. page_write st M1 (place p m) M2 \<Longrightarrow> meta_write st M2 md' M3 \<Longrightarrow> conv st M3 peer md' (appended peer m ps)"
    for p M1
  proof (rule runs_bind_save_page [OF J place_ok [OF that(2) m]])
    show "\<And>s. \<not> b \<Longrightarrow> kv_map s = M1 \<Longrightarrow> ?E s" using that(3) by blast
    show "\<And>s M'. \<not> b \<Longrightarrow> page_write st M1 (place p m) M' \<Longrightarrow> kv_map s = M' \<Longrightarrow> ?E s" using w by blast
    fix M2 assume pw: "page_write st M1 (place p m) M2"
    show "runs (at_map b M2) (kbind (save_metadata st md') (\<lambda>_. kret (Some md'))) ?Q ?E"
    proof (rule runs_bind_save_metadata [OF J md'_ok(1)])
      show "\<And>s. \<not> b \<Longrightarrow> kv_map s = M2 \<Longrightarrow> ?E s" using w [OF pw] by blast
      show "\<And>s M'. \<not> b \<Longrightarrow> meta_write st M2 md' M' \<Longrightarrow> kv_map s = M' \<Longrightarrow> ?E s" using v [OF pw] by blast
      show "\<And>M3. meta_write st M2 md' M3 \<Longrightarrow> runs (at_map b M3) (kret (Some md')) ?Q ?E"
        using that(1) v [OF pw] by (intro runs_at_ret) (simp add: md'_def)
    qed
  qed
  have rest: "runs (at_map b M) (kbind (roll_over st peer m md0 (last ps)) (\<lambda>(md, p).
      kbind (save_page st (place p m)) (\<lambda>_. kbind (save_metadata st (record_append md m False (st_own st) now))
        (\<lambda>_. kret (Some (record_append md m False (st_own st) now)))))) ?Q ?E"
    if nd: "\<not> redelivered ps (m_id m)"
  proof (cases "MESSAGES_PER_PAGE \<le> length (pg_messages (last ps))")
    case False
    have ap: "appended peer m ps = ps[md_latest_page md := place (last ps) m]" using False D(4) by (simp add: appended_def)
    then have "md0\<lparr>md_latest_page := length (appended peer m ps) - 1\<rparr> = md0" using D(4) md0(1) by simp
    then have eq: "record_append md0 m False (st_own st) now = md'" by (simp add: md')
    have w: "conv st M2 peer md (appended peer m ps)" if "page_write st M (place (last ps) m) M2" for M2
      unfolding ap using that last_ok N m by (intro conv_write_page [OF c]) (simp_all add: place_ok)
    have v: "conv st M3 peer md' (appended peer m ps)"
      if "page_write st M (place (last ps) m) M2" "meta_write st M2 md' M3" for M2 M3
      using that(2) md'_ok D(4) ap by (intro conv_write_metadata [OF w [OF that(1)]]) simp_all
    have "roll_over st peer m md0 (last ps) = kret (md0, last ps)" using False by (simp add: roll_over_def)
    moreover have "runs (at_map b M) (kbind (save_page st (place (last ps) m))
        (\<lambda>_. kbind (save_metadata st md') (\<lambda>_. kret (Some md')))) ?Q ?E"
      by (rule finish [OF nd last_ok(1) c]) (use w v in blast)+
    ultimately show ?thesis by (simp only: kbind_simps prod.case eq)
  next
    case True
    let ?p = "empty_page peer (length ps) (m_timestamp m)"
    have ap: "appended peer m ps = ps @ [place ?p m]" using True by (simp add: appended_def)
    have n: "Suc (md_latest_page md) = length ps" using D(4) by simp
    have eq: "record_append (md0\<lparr>md_latest_page := Suc (md_latest_page md)\<rparr>) m False (st_own st) now = md'"
      by (simp add: md' ap n)
    have p_ok: "page_ok ?p" using m room by (intro empty_page_ok) (simp_all add: message_ok_def)
    have same: "conv st M1 peer md ps" if "page_write st M (last ps) M1" for M1
      using conv_write_page [OF c that last_ok(2,3)] N last_ok(1) by (simp add: list_update_id)
    have go: "runs (at_map b M1) (kbind (save_page st (place ?p m)) (\<lambda>_. kbind (save_metadata st md') (\<lambda>_. kret (Some md')))) ?Q ?E"
      if "page_write st M (last ps) M1" for M1
    proof (rule finish [OF nd p_ok same [OF that]])
      fix M2 assume pw: "page_write st M1 (place ?p m) M2"
      have c2: "conv st M2 peer md ps" by (rule conv_write_beyond [OF same [OF that] pw]) simp
      then show "\<exists>md'. conv st M2 peer md' ps \<or> conv st M2 peer md' (appended peer m ps)" by blast
      have r: "page_read st M2 peer (length ps) = Inr (Some (place ?p m))" by (simp add: page_write_reads [OF pw])
      show "conv st M3 peer md' (appended peer m ps)" if "meta_write st M2 md' M3" for M3
        unfolding ap using that md'_ok ap p_ok m by (intro conv_extend [OF c2 r]) (simp_all add: place_ok)
    qed
    have pn: "checked_add u32_max (md_latest_page md0) 1 = Some (Suc (md_latest_page md))"
      using room D(4) md0(1) by (simp add: checked_add_def)
    have "roll_over st peer m md0 (last ps) =
        kbind (save_page st (last ps)) (\<lambda>_. kret (md0\<lparr>md_latest_page := Suc (md_latest_page md)\<rparr>, ?p))"
      using True n by (simp add: roll_over_def pn del: One_nat_def)
    moreover have "runs (at_map b M) (kbind (save_page st (last ps)) (\<lambda>_. kbind (save_page st (place ?p m))
        (\<lambda>_. kbind (save_metadata st md') (\<lambda>_. kret (Some md'))))) ?Q ?E"
      by (rule runs_bind_save_page [OF J last_ok(1) E0]) (use same go in blast)+
    ultimately show ?thesis by (simp only: kbind_assoc kbind_simps prod.case eq)
  qed
  have pg: "page_read st M peer (md_latest_page md0) = Inr (Some (last ps))" using D(5) N md0(1) by simp
  show ?thesis unfolding append_message_def Let_def
    apply (rule runs_bind_load_metadata [OF D(1) E0], assumption, assumption)
    apply (simp only: option.simps md0_def [symmetric])
    apply (rule runs_bind_load_page [OF pg E0], assumption, assumption)
    apply (simp only: option.simps)
    apply (rule runs_already_stored [OF c md0(1) E0], assumption, assumption)
    using rest by (cases "redelivered ps (m_id m)") (auto intro!: runs_at_ret)
qed

section \<open>Finding one message\<close>

lemma position_Some: "position P xs = Some k \<Longrightarrow> k < length xs \<and> P (xs ! k) \<and> (\<forall>j < k. \<not> P (xs ! j))"
proof (induction xs arbitrary: k)
  case (Cons x xs)
  then show ?case by (auto simp: less_Suc_eq_0_disj split: if_splits)
qed simp

lemma position_None: "position P xs = None \<longleftrightarrow> (\<forall>x \<in> set xs. \<not> P x)"
  by (induction xs) auto

lemma has_id_position: "position (\<lambda>m. m_id m = i) (pg_messages p) = None \<longleftrightarrow> \<not> has_id i p"
  by (auto simp: position_None has_id_def list_ex_iff)

text \<open>Where the newest-first search from page \<^verbatim>\<open>n\<close> down stops.\<close>

primrec located :: "page list \<Rightarrow> utext \<Rightarrow> nat \<Rightarrow> (nat \<times> nat) option" where
  "located ps i 0 = map_option (Pair 0) (position (\<lambda>m. m_id m = i) (pg_messages (ps ! 0)))"
| "located ps i (Suc n) =
     (case position (\<lambda>m. m_id m = i) (pg_messages (ps ! Suc n)) of
        Some k \<Rightarrow> Some (Suc n, k)
      | None \<Rightarrow> located ps i n)"

lemma located_Some:
  "located ps i n = Some (j, k) \<Longrightarrow> j \<le> n \<and> k < length (pg_messages (ps ! j)) \<and> m_id (pg_messages (ps ! j) ! k) = i"
  by (induction n) (auto split: option.splits dest: position_Some)

lemma located_None: "located ps i n = None \<longleftrightarrow> (\<forall>j \<le> n. \<not> has_id i (ps ! j))"
proof (induction n)
  case 0
  then show ?case by (simp add: has_id_position)
next
  case (Suc n)
  show ?case
  proof (cases "position (\<lambda>m. m_id m = i) (pg_messages (ps ! Suc n))")
    case None
    with Suc show ?thesis using has_id_position [of i "ps ! Suc n"] by (auto simp: le_Suc_eq)
  next
    case (Some k)
    then show ?thesis using has_id_position [of i "ps ! Suc n"] by auto
  qed
qed

lemma runs_bind_find_from:
  assumes c: "conv st M peer md ps" and n: "n < length ps" and E: "\<And>s. \<not> b \<Longrightarrow> kv_map s = M \<Longrightarrow> E s"
    and k: "runs (at_map b M) (f (map_option (\<lambda>(j, k). (md, ps ! j, k)) (located ps i n))) Q E"
  shows "runs (at_map b M) (kbind (find_from st peer i md n) f) Q E"
  using n k
proof (induction n)
  case 0
  show ?case unfolding find_from.simps kbind_assoc
  proof (rule runs_bind_load_page)
    show "page_read st M peer 0 = Inr (Some (ps ! 0))" by (rule convD(5) [OF c 0(1)])
    show "\<And>s. \<not> b \<Longrightarrow> kv_map s = M \<Longrightarrow> E s" by (rule E)
  qed (use 0(2) in \<open>cases "position (\<lambda>m. m_id m = i) (pg_messages (ps ! 0))"; simp\<close>)
next
  case (Suc n)
  show ?case unfolding find_from.simps kbind_assoc
  proof (rule runs_bind_load_page)
    show "page_read st M peer (Suc n) = Inr (Some (ps ! Suc n))" by (rule convD(5) [OF c Suc.prems(1)])
    show "\<And>s. \<not> b \<Longrightarrow> kv_map s = M \<Longrightarrow> E s" by (rule E)
  qed (use Suc in \<open>cases "position (\<lambda>m. m_id m = i) (pg_messages (ps ! Suc n))"; simp\<close>)
qed

lemma runs_bind_find:
  assumes c: "conv st M peer md ps" and E: "\<And>s. \<not> b \<Longrightarrow> kv_map s = M \<Longrightarrow> E s"
    and k: "runs (at_map b M) (f (map_option (\<lambda>(j, k). (md, ps ! j, k)) (located ps i (md_latest_page md)))) Q E"
  shows "runs (at_map b M) (kbind (find_message st peer i) f) Q E"
  unfolding find_message_def kbind_assoc
proof (rule runs_bind_load_metadata)
  show "meta_read st M peer = Inr (Some md)" by (rule convD(1) [OF c])
  show "\<And>s. \<not> b \<Longrightarrow> kv_map s = M \<Longrightarrow> E s" by (rule E)
  show "runs (at_map b M) (kbind (case Some md of None \<Rightarrow> kret None
      | Some md \<Rightarrow> find_from st peer i md (md_latest_page md)) f) Q E"
    unfolding option.case
  proof (rule runs_bind_find_from [OF c])
    show "md_latest_page md < length ps" using convD(4) [OF c] by simp
  qed (rule E k; assumption?)+
qed

section \<open>Changing one message\<close>

definition set_message :: "page list \<Rightarrow> nat \<times> nat \<Rightarrow> conv_message \<Rightarrow> page list" where
  "set_message ps at m =
     (let (j, k) = at in ps[j := (ps ! j)\<lparr>pg_messages := (pg_messages (ps ! j))[k := m]\<rparr>])"

definition updated :: "page list \<Rightarrow> utext \<Rightarrow> (conv_message \<Rightarrow> conv_message option) \<Rightarrow> (page list \<times> conv_message) option" where
  "updated ps i change =
     (case located ps i (length ps - 1) of
        None \<Rightarrow> None
      | Some (j, k) \<Rightarrow> map_option (\<lambda>m. (set_message ps (j, k) m, m)) (change (pg_messages (ps ! j) ! k)))"

lemma page_ok_update: "page_ok p \<Longrightarrow> message_ok m \<Longrightarrow> page_ok (p\<lparr>pg_messages := (pg_messages p)[k := m]\<rparr>)"
  by (auto simp: page_ok_def list_all_iff dest!: subsetD [OF set_update_subset_insert])

lemma update_runs:
  assumes J: "json_text_ok (st_json st)" and c: "conv st M peer md ps"
    and ok: "\<And>m m'. m \<in> set (all_messages ps) \<Longrightarrow> message_ok m \<Longrightarrow> change m = Some m' \<Longrightarrow> message_ok m'"
  shows "runs (at_map b M) (update_message st peer i change)
    (\<lambda>x s. x = map_option snd (updated ps i change) \<and>
      conv st (kv_map s) peer md (case updated ps i change of None \<Rightarrow> ps | Some (ps', _) \<Rightarrow> ps'))
    (\<lambda>s. \<not> b \<and> (conv st (kv_map s) peer md ps \<or>
      (\<exists>ps' m. updated ps i change = Some (ps', m) \<and> conv st (kv_map s) peer md ps')))"
    (is "runs _ _ ?Q ?E")
proof -
  note D = convD [OF c]
  have E0: "\<And>s. \<not> b \<Longrightarrow> kv_map s = M \<Longrightarrow> ?E s" using c by blast
  have n: "length ps - Suc 0 = md_latest_page md" using D(4) by simp
  show ?thesis unfolding update_message_def
  proof (rule runs_bind_find [OF c E0], assumption, assumption)
    show "runs (at_map b M) (case map_option (\<lambda>(j, k). (md, ps ! j, k)) (located ps i (md_latest_page md)) of
        None \<Rightarrow> kret None
      | Some (_, p, k) \<Rightarrow>
          (case change (pg_messages p ! k) of
             None \<Rightarrow> kret None
           | Some changed \<Rightarrow>
               kbind (save_page st (p\<lparr>pg_messages := (pg_messages p)[k := changed]\<rparr>)) (\<lambda>_. kret (Some changed)))) ?Q ?E"
    proof (cases "located ps i (md_latest_page md)")
      case None
      then show ?thesis using c by (auto intro!: runs_at_ret simp: updated_def n)
    next
      case (Some at)
      obtain j k where jk: "at = (j, k)" by fastforce
      from located_Some [of ps i] Some jk have l: "j < length ps" "k < length (pg_messages (ps ! j))" using D(4) by fastforce+
      show ?thesis
      proof (cases "change (pg_messages (ps ! j) ! k)")
        case None
        then show ?thesis using c Some jk by (auto intro!: runs_at_ret simp: updated_def n)
      next
        case ch: (Some m)
        let ?p = "(ps ! j)\<lparr>pg_messages := (pg_messages (ps ! j))[k := m]\<rparr>"
        have up: "updated ps i change = Some (ps[j := ?p], m)"
          using Some jk ch by (simp add: updated_def n set_message_def)
        have "message_ok (pg_messages (ps ! j) ! k)" using D(8) [OF l(1)] l(2) by (simp add: page_ok_def list_all_length)
        moreover have "pg_messages (ps ! j) ! k \<in> set (all_messages ps)"
          using l by (auto simp: all_messages_def intro!: bexI [of _ "ps ! j"])
        ultimately have p: "page_ok ?p" using ok ch D(8) [OF l(1)] by (intro page_ok_update) blast+
        have w: "conv st M' peer md (ps[j := ?p])" if "page_write st M ?p M'" for M'
          using conv_write_page [OF c that _ _ l(1) p] D(6,7) [OF l(1)] by simp
        have "runs (at_map b M) (kbind (save_page st ?p) (\<lambda>_. kret (Some m))) ?Q ?E"
          by (rule runs_bind_save_page [OF J p E0]) (use w up in \<open>auto intro!: runs_at_ret\<close>)
        then show ?thesis using Some jk ch by simp
      qed
    qed
  qed
qed

section \<open>Delivery never retreats\<close>

definition kept_message :: "conv_message \<Rightarrow> conv_message \<Rightarrow> bool" where
  "kept_message a b \<longleftrightarrow>
     m_id b = m_id a \<and> m_content b = m_content a \<and> m_sender_cid b = m_sender_cid a \<and>
     m_recipient_cid b = m_recipient_cid a \<and> m_timestamp b = m_timestamp a \<and>
     reached (m_status a) \<le> reached (m_status b)"

definition pages_kept :: "page list \<Rightarrow> page list \<Rightarrow> bool" where
  "pages_kept ps qs \<longleftrightarrow> list_all2 (\<lambda>p q. list_all2 kept_message (pg_messages p) (pg_messages q)) ps qs"

lemma kept_refl [simp]: "kept_message m m"
  by (simp add: kept_message_def)

lemma kept_trans: "kept_message a b \<Longrightarrow> kept_message b c \<Longrightarrow> kept_message a c"
  by (auto simp: kept_message_def)

lemma pages_kept_refl [simp]: "pages_kept ps ps"
  by (simp add: pages_kept_def list_all2_refl)

lemma pages_kept_trans: "pages_kept a b \<Longrightarrow> pages_kept b c \<Longrightarrow> pages_kept a c"
  unfolding pages_kept_def
proof (erule list_all2_trans [rotated], assumption)
  fix p q r assume "list_all2 kept_message (pg_messages p) (pg_messages q)" "list_all2 kept_message (pg_messages q) (pg_messages r)"
  then show "list_all2 kept_message (pg_messages p) (pg_messages r)" unfolding list_all2_conv_all_nth by (metis kept_trans)
qed

lemma set_message_kept:
  assumes "j < length ps" "k < length (pg_messages (ps ! j))" "kept_message (pg_messages (ps ! j) ! k) m"
  shows "pages_kept ps (set_message ps (j, k) m)"
  using assms by (simp add: pages_kept_def set_message_def list_all2_conv_all_nth nth_list_update)

lemma updated_kept:
  assumes "updated ps i change = Some (ps', m)" and "ps \<noteq> []"
    and "\<And>m m'. change m = Some m' \<Longrightarrow> kept_message m m'"
  shows "pages_kept ps ps'"
proof -
  from assms(1) obtain j k where l: "located ps i (length ps - 1) = Some (j, k)"
      and ch: "change (pg_messages (ps ! j) ! k) = Some m" and ps': "ps' = set_message ps (j, k) m"
    by (auto simp: updated_def split: option.splits)
  from located_Some [OF l] assms(2) have "j < length ps" "k < length (pg_messages (ps ! j))"
    by (cases ps; fastforce)+
  from set_message_kept [OF this assms(3) [OF ch]] show ?thesis by (simp add: ps')
qed

lemma change_status_ok:
  "opt_ok utf8_ok er \<Longrightarrow> message_ok m \<Longrightarrow> change_status status er m = Some m' \<Longrightarrow> message_ok m'"
  by (auto simp: change_status_def message_ok_def opt_ok_def split: if_splits)

lemma change_status_kept: "change_status status er m = Some m' \<Longrightarrow> kept_message m m'"
  by (auto simp: change_status_def kept_message_def status_advances_reached split: if_splits)

definition patch_ok :: "message_patch \<Rightarrow> bool" where
  "patch_ok p \<longleftrightarrow> opt_ok utf8_ok (pa_error p) \<and> opt_ok f64_whole (pa_transfer_progress p) \<and>
     opt_ok utf8_ok (pa_virtual_path p) \<and> opt_ok utf8_ok (pa_file_thumbnail p)"

text \<open>What every step of a patch keeps, a patch keeps.\<close>

lemma patch_set_keeps: "P (fst r) \<Longrightarrow> (\<And>m. P m \<Longrightarrow> differs m \<Longrightarrow> P (upd m)) \<Longrightarrow> P (fst (patch_set differs upd r))"
  by (simp add: patch_set_def)

lemma apply_patch_keeps:
  assumes "apply_patch patch m = Some m'" and "P m"
    and "\<And>m status. P m \<Longrightarrow> status_advances (m_status m) status \<Longrightarrow> P (m\<lparr>m_status := status, m_error := pa_error patch\<rparr>)"
    and "\<And>m. P m \<Longrightarrow> P (m\<lparr>m_transfer_state := pa_transfer_state patch\<rparr>)"
    and "\<And>m. P m \<Longrightarrow> P (m\<lparr>m_transfer_progress := pa_transfer_progress patch\<rparr>)"
    and "\<And>m. P m \<Longrightarrow> P (m\<lparr>m_virtual_path := pa_virtual_path patch\<rparr>)"
    and "\<And>m. P m \<Longrightarrow> P (m\<lparr>m_file_thumbnail := pa_file_thumbnail patch\<rparr>)"
  shows "P m'"
proof -
  have m': "m' = fst (patch_fields patch m)"
    using assms(1) by (simp add: apply_patch_def split: prod.splits if_splits)
  have step: "P (fst (patch_set differs upd r))" if "P (fst r)" "\<And>m. P m \<Longrightarrow> P (upd m)" for r differs upd
    using that by (rule patch_set_keeps)
  have 0: "P (fst (case pa_status patch of
      Some status \<Rightarrow> patch_set (\<lambda>m. status_advances (m_status m) status)
        (\<lambda>m. m\<lparr>m_status := status, m_error := pa_error patch\<rparr>) (m, False)
    | None \<Rightarrow> (m, False)))"
    using assms(2,3) by (cases "pa_status patch") (simp_all add: patch_set_def)
  show ?thesis unfolding m' patch_fields_def Let_def
    by (rule step [OF step [OF step [OF step [OF 0 assms(4)] assms(5)] assms(6)] assms(7)])
qed

lemma apply_patch_kept: "apply_patch patch m = Some m' \<Longrightarrow> kept_message m m'"
  by (erule apply_patch_keeps) (auto simp: kept_message_def dest: status_advances_reached)

lemma apply_patch_ok: "patch_ok patch \<Longrightarrow> message_ok m \<Longrightarrow> apply_patch patch m = Some m' \<Longrightarrow> message_ok m'"
  by (erule apply_patch_keeps) (simp_all add: message_ok_def patch_ok_def)

text \<open>The two ways a window or a peer moves a message's delivery on, and a history of them.\<close>

datatype delivery_op = OpStatus utext message_status "utext option" | OpPatch utext message_patch

definition run_delivery :: "store \<Rightarrow> cid \<Rightarrow> kv \<Rightarrow> delivery_op \<Rightarrow> kv" where
  "run_delivery st peer s op =
     snd (case op of
            OpStatus i status er \<Rightarrow> set_status st peer i status er s
          | OpPatch i patch \<Rightarrow> patch_message st peer i patch s)"

fun delivery_ok :: "delivery_op \<Rightarrow> bool" where
  "delivery_ok (OpStatus i status er) \<longleftrightarrow> opt_ok utf8_ok er"
| "delivery_ok (OpPatch i patch) \<longleftrightarrow> patch_ok patch"

lemma update_keeps:
  assumes J: "json_text_ok (st_json st)" and c: "conv st (kv_map s) peer md ps"
    and ok: "\<And>m m'. m \<in> set (all_messages ps) \<Longrightarrow> message_ok m \<Longrightarrow> change m = Some m' \<Longrightarrow> message_ok m'"
    and kept: "\<And>m m'. change m = Some m' \<Longrightarrow> kept_message m m'"
  shows "\<exists>ps'. conv st (kv_map (snd (update_message st peer i change s))) peer md ps' \<and> pages_kept ps ps'"
proof -
  obtain r s' where u: "update_message st peer i change s = (r, s')" by fastforce
  have up: "pages_kept ps ps'" if "updated ps i change = Some (ps', m)" for ps' m
    using updated_kept [OF that _ kept] conv_nonempty [OF c] by blast
  have at: "at_map False (kv_map s) s" by (simp add: at_map_def)
  have R: "runs (at_map False (kv_map s)) (update_message st peer i change)
    (\<lambda>x s. x = map_option snd (updated ps i change) \<and>
      conv st (kv_map s) peer md (case updated ps i change of None \<Rightarrow> ps | Some (ps', _) \<Rightarrow> ps'))
    (\<lambda>s. \<not> False \<and> (conv st (kv_map s) peer md ps \<or>
      (\<exists>ps' m. updated ps i change = Some (ps', m) \<and> conv st (kv_map s) peer md ps')))"
    by (rule update_runs [OF J c]) (rule ok)
  show ?thesis
  proof (cases r)
    case (KOk x)
    from runsD_ok [OF R at] u KOk
    have "conv st (kv_map s') peer md (case updated ps i change of None \<Rightarrow> ps | Some (ps', _) \<Rightarrow> ps')" by blast
    then show ?thesis using u up by (auto split: option.splits)
  next
    case (KErr e)
    from runsD_err [OF R at] u KErr show ?thesis using up by fastforce
  next
    case KPanic
    from R at u KPanic show ?thesis using up unfolding runs_def by fastforce
  qed
qed

lemma delivery_history:
  assumes "json_text_ok (st_json st)" and "conv st (kv_map s) peer md ps" and "list_all delivery_ok ops"
  shows "\<exists>ps'. conv st (kv_map (foldl (run_delivery st peer) s ops)) peer md ps' \<and> pages_kept ps ps'"
  using assms(2,3)
proof (induction ops arbitrary: s ps)
  case Nil
  then show ?case by auto
next
  case (Cons op ops)
  have "\<exists>ps'. conv st (kv_map (run_delivery st peer s op)) peer md ps' \<and> pages_kept ps ps'"
  proof (cases op)
    case (OpStatus i status er)
    with Cons.prems show ?thesis
      using update_keeps [OF assms(1) Cons.prems(1), of "change_status status er" i] change_status_ok change_status_kept
      by (auto simp: run_delivery_def set_status_def)
  next
    case (OpPatch i patch)
    with Cons.prems show ?thesis
      using update_keeps [OF assms(1) Cons.prems(1), of "apply_patch patch" i] apply_patch_ok apply_patch_kept
      by (auto simp: run_delivery_def patch_message_def)
  qed
  then obtain ps1 where 1: "conv st (kv_map (run_delivery st peer s op)) peer md ps1" "pages_kept ps ps1" by blast
  from Cons.IH [OF 1(1)] Cons.prems(2) obtain ps' where
    "conv st (kv_map (foldl (run_delivery st peer) (run_delivery st peer s op) ops)) peer md ps'" "pages_kept ps1 ps'"
    by auto
  with 1(2) show ?case using pages_kept_trans by auto
qed

end
