(* ===== verification/Conversation_Retention.thy ===== *)
theory Conversation_Retention
  imports Conversation_Changes
begin

text \<open>
  Expiring old messages (\<^verbatim>\<open>prune_older_than\<close>): the loop over the pages, and what it keeps.
\<close>

section \<open>Retention\<close>

definition pruned :: "f64 \<Rightarrow> page \<Rightarrow> page" where
  "pruned cutoff p =
     (let ms = filter (\<lambda>m. f64_ge (m_timestamp m) cutoff) (pg_messages p)
      in if length ms = length (pg_messages p) then p
         else p\<lparr>pg_messages := ms,
                pg_timestamps := \<lparr>min_timestamp = (case ms of [] \<Rightarrow> f64_zero | m # _ \<Rightarrow> m_timestamp m),
                                 max_timestamp = (if ms = [] then f64_zero else m_timestamp (last ms))\<rparr>\<rparr>)"

definition prune_acc :: "f64 \<Rightarrow> nat \<times> f64 option \<Rightarrow> page \<Rightarrow> nat \<times> f64 option" where
  "prune_acc cutoff acc p =
     (let ms = filter (\<lambda>m. f64_ge (m_timestamp m) cutoff) (pg_messages p)
      in (fst acc + (length (pg_messages p) - length ms), oldest_of (snd acc) ms))"

text \<open>The conversation when the first pages of it have been pruned.\<close>

definition partly :: "f64 \<Rightarrow> nat \<Rightarrow> page list \<Rightarrow> page list" where
  "partly cutoff j ps = map (pruned cutoff) (take j ps) @ drop j ps"

lemma filter_all_length: "length (filter P xs) = length xs \<Longrightarrow> filter P xs = xs"
  by (metis filter_True length_filter_less less_irrefl)

lemma pruned_messages [simp]:
  "pg_messages (pruned cutoff p) = filter (\<lambda>m. f64_ge (m_timestamp m) cutoff) (pg_messages p)"
  by (simp add: pruned_def Let_def filter_all_length)

lemma pruned_fields [simp]: "pg_peer_cid (pruned c p) = pg_peer_cid p" "pg_number (pruned c p) = pg_number p"
  by (simp_all add: pruned_def Let_def)

lemma f64_zero_whole: "f64_whole f64_zero"
  using f64_whole_of_int [of 0] by (simp add: f64_of_int_0)

lemma pruned_ok: "page_ok p \<Longrightarrow> page_ok (pruned c p)"
proof -
  assume ok: "page_ok p"
  define ms where "ms = filter (\<lambda>m. f64_ge (m_timestamp m) c) (pg_messages p)"
  have all: "x \<in> set ms \<Longrightarrow> f64_whole (m_timestamp x) \<and> message_ok x" for x
    using ok by (auto simp: ms_def page_ok_def list_all_iff message_ok_def)
  have "f64_whole (case ms of [] \<Rightarrow> f64_zero | m # _ \<Rightarrow> m_timestamp m)"
    "f64_whole (if ms = [] then f64_zero else m_timestamp (last ms))"
    using all by (cases ms; simp add: f64_zero_whole)+
  then show ?thesis using ok all
    by (auto simp: pruned_def Let_def ms_def [symmetric] page_ok_def list_all_iff)
qed

lemma partly_0 [simp]: "partly c 0 ps = ps"
  by (simp add: partly_def)

lemma partly_all: "partly c (length ps) ps = map (pruned c) ps"
  by (simp add: partly_def)

lemma length_partly [simp]: "length (partly c j ps) = length ps"
  by (simp add: partly_def)

lemma partly_nth: "j < length ps \<Longrightarrow> partly c j ps ! j = ps ! j"
  by (simp add: partly_def nth_append)

lemma partly_Suc: "j < length ps \<Longrightarrow> (partly c j ps)[j := pruned c (ps ! j)] = partly c (Suc j) ps"
  by (simp add: partly_def list_update_append take_Suc_conv_app_nth Cons_nth_drop_Suc [symmetric])

lemma prune_page_runs:
  assumes J: "json_text_ok (st_json st)" and c: "conv st M peer md (partly cutoff n ps)" and n: "n < length ps"
    and E: "\<And>s j. \<not> b \<Longrightarrow> conv st (kv_map s) peer md (partly cutoff j ps) \<Longrightarrow> E s"
    and k: "\<And>M'. conv st M' peer md (partly cutoff (Suc n) ps) \<Longrightarrow>
      runs (at_map b M') (f (prune_acc cutoff acc (ps ! n))) Q E"
  shows "runs (at_map b M) (kbind (prune_page st peer cutoff n acc) f) Q E"
proof -
  let ?p = "ps ! n" and ?ms = "filter (\<lambda>m. f64_ge (m_timestamp m) cutoff) (pg_messages (ps ! n))"
  have n': "n < length (partly cutoff n ps)" using n by simp
  note D = convD(5-8) [OF c n', unfolded partly_nth [OF n]]
  have E0: "\<And>s. \<not> b \<Longrightarrow> kv_map s = M \<Longrightarrow> E s" using c E by blast
  show ?thesis unfolding prune_page_def kbind_assoc
  proof (rule runs_bind_load_page [OF D(1) E0], assumption, assumption, unfold option.case Let_def)
    obtain removed oldest where acc: "acc = (removed, oldest)" by fastforce
    show "runs (at_map b M) (kbind (case acc of (removed, oldest) \<Rightarrow>
        if length ?ms = length (pg_messages ?p) then kret (removed, oldest_of oldest ?ms)
        else kbind (save_page st (?p\<lparr>pg_messages := ?ms,
            pg_timestamps := \<lparr>min_timestamp = (case ?ms of [] \<Rightarrow> f64_zero | m # _ \<Rightarrow> m_timestamp m),
                             max_timestamp = (if ?ms = [] then f64_zero else m_timestamp (last ?ms))\<rparr>\<rparr>)) (\<lambda>_.
          kret (removed + (length (pg_messages ?p) - length ?ms), oldest_of oldest ?ms))) f) Q E"
    proof (cases "length ?ms = length (pg_messages ?p)")
      case True
      then have "pruned cutoff ?p = ?p" by (simp add: pruned_def Let_def)
      then have "partly cutoff (Suc n) ps = partly cutoff n ps"
        using partly_Suc [OF n, of cutoff] partly_nth [OF n, of cutoff] by (metis list_update_id)
      with k [of M] c True show ?thesis by (simp add: acc prune_acc_def Let_def)
    next
      case False
      have pr: "?p\<lparr>pg_messages := ?ms,
            pg_timestamps := \<lparr>min_timestamp = (case ?ms of [] \<Rightarrow> f64_zero | m # _ \<Rightarrow> m_timestamp m),
                             max_timestamp = (if ?ms = [] then f64_zero else m_timestamp (last ?ms))\<rparr>\<rparr> = pruned cutoff ?p"
        unfolding pruned_def Let_def using False by (simp only: if_False)
      have w: "conv st M' peer md (partly cutoff (Suc n) ps)" if "page_write st M (pruned cutoff ?p) M'" for M'
        using conv_write_page [OF c that _ _ n' pruned_ok [OF D(4)]] D(2,3) by (simp add: partly_Suc [OF n])
      have "runs (at_map b M) (kbind (save_page st (pruned cutoff ?p)) (\<lambda>_. f (prune_acc cutoff acc ?p))) Q E"
        by (rule runs_bind_save_page [OF J pruned_ok [OF D(4)] E0]) (use w E k in blast)+
      then show ?thesis unfolding acc prod.case pr using False by (simp add: kbind_assoc prune_acc_def Let_def)
    qed
  qed
qed

lemma prune_pages_runs:
  assumes J: "json_text_ok (st_json st)" and "conv st M peer md (partly cutoff n ps)" and "n + k < length ps"
    and E: "\<And>s j. \<not> b \<Longrightarrow> conv st (kv_map s) peer md (partly cutoff j ps) \<Longrightarrow> E s"
    and "\<And>M'. conv st M' peer md (partly cutoff (Suc (n + k)) ps) \<Longrightarrow>
      runs (at_map b M') (f (foldl (prune_acc cutoff) acc (take (Suc k) (drop n ps)))) Q E"
  shows "runs (at_map b M) (kbind (prune_pages st peer cutoff n k acc) f) Q E"
  using assms(2,3,5)
proof (induction k arbitrary: n acc M)
  case 0
  have one: "take (Suc 0) (drop n ps) = [ps ! n]" using 0(2) by (simp add: take_Suc_conv_app_nth)
  show ?case unfolding prune_pages.simps
    by (rule prune_page_runs [OF J 0(1) _ E]) (use 0 one in auto)
next
  case (Suc k)
  have cons: "take (Suc (Suc k)) (drop n ps) = ps ! n # take (Suc k) (drop (Suc n) ps)"
    using Suc.prems(2) by (simp add: Cons_nth_drop_Suc [symmetric])
  show ?case unfolding prune_pages.simps kbind_assoc
  proof (rule prune_page_runs [OF J Suc.prems(1) _ E])
    show "n < length ps" using Suc.prems(2) by simp
    fix M' assume c': "conv st M' peer md (partly cutoff (Suc n) ps)"
    show "runs (at_map b M') (kbind (prune_pages st peer cutoff (Suc n) k (prune_acc cutoff acc (ps ! n))) f) Q E"
      by (rule Suc.IH [OF c']) (use Suc.prems cons in auto)
  qed
qed

definition within :: "f64 \<Rightarrow> conv_message \<Rightarrow> bool" where
  "within cutoff m \<longleftrightarrow> f64_ge (m_timestamp m) cutoff"

lemma oldest_of_append: "oldest_of o1 (xs @ ys) = oldest_of (oldest_of o1 xs) ys"
  by (simp add: oldest_of_def)

lemma oldest_of_whole:
  "opt_ok f64_whole o1 \<Longrightarrow> (\<And>m. m \<in> set ms \<Longrightarrow> f64_whole (m_timestamp m)) \<Longrightarrow> opt_ok f64_whole (oldest_of o1 ms)"
proof (induction ms arbitrary: o1)
  case Nil
  then show ?case by (simp add: oldest_of_def)
next
  case (Cons m ms)
  let ?o = "Some (case o1 of None \<Rightarrow> m_timestamp m | Some t \<Rightarrow> f64_min t (m_timestamp m))"
  have "opt_ok f64_whole ?o"
    using Cons.prems by (cases o1) (simp_all add: opt_ok_def f64_min_def)
  from Cons.IH [OF this] Cons.prems(2) show ?case by (simp add: oldest_of_def)
qed

lemma prune_acc_all:
  "foldl (prune_acc cutoff) acc ps =
     (fst acc + length (filter (\<lambda>m. \<not> within cutoff m) (all_messages ps)),
      oldest_of (snd acc) (filter (within cutoff) (all_messages ps)))"
proof (induction ps arbitrary: acc)
  case Nil
  then show ?case by (simp add: all_messages_def oldest_of_def)
next
  case (Cons p ps)
  have "length (pg_messages p) - length (filter (within cutoff) (pg_messages p)) =
      length (filter (\<lambda>m. \<not> within cutoff m) (pg_messages p))"
    using sum_length_filter_compl [of "within cutoff" "pg_messages p"] by simp
  then have "prune_acc cutoff acc p =
      (fst acc + length (filter (\<lambda>m. \<not> within cutoff m) (pg_messages p)),
       oldest_of (snd acc) (filter (within cutoff) (pg_messages p)))"
    by (simp add: prune_acc_def Let_def within_def [abs_def])
  with Cons.IH show ?case by (simp add: all_messages_def oldest_of_append)
qed

lemma all_messages_pruned: "all_messages (map (pruned cutoff) ps) = filter (within cutoff) (all_messages ps)"
  by (induction ps) (simp_all add: all_messages_def within_def [abs_def])

lemma all_messages_partly:
  "filter (within cutoff) (all_messages (partly cutoff j ps)) = filter (within cutoff) (all_messages ps)"
  "set (all_messages (partly cutoff j ps)) \<subseteq> set (all_messages ps)"
proof -
  have split: "all_messages ps = all_messages (take j ps) @ all_messages (drop j ps)"
    by (simp add: all_messages_def flip: concat_append map_append)
  have "all_messages (partly cutoff j ps) = filter (within cutoff) (all_messages (take j ps)) @ all_messages (drop j ps)"
    using all_messages_pruned [of cutoff "take j ps"] by (simp add: partly_def all_messages_def)
  with split show "filter (within cutoff) (all_messages (partly cutoff j ps)) = filter (within cutoff) (all_messages ps)"
    "set (all_messages (partly cutoff j ps)) \<subseteq> set (all_messages ps)" by auto
qed

lemma conv_messages_ok: "conv st M peer md ps \<Longrightarrow> m \<in> set (all_messages ps) \<Longrightarrow> message_ok m"
proof -
  assume c: "conv st M peer md ps" and "m \<in> set (all_messages ps)"
  then obtain p where p: "p \<in> set ps" "m \<in> set (pg_messages p)" by (auto simp: all_messages_def)
  then obtain n where "n < length ps" "p = ps ! n" by (auto simp: in_set_conv_nth)
  with convD(8) [OF c] p(2) show ?thesis by (simp add: page_ok_def list_all_iff)
qed

lemma f64_ge_trans: "f64_ge x y \<Longrightarrow> f64_ge y z \<Longrightarrow> f64_ge x z"
  by (simp add: f64_ge_def)

lemma f64_of_nat_int: "f64_of_nat False n = f64_of_int (int n)"
  by (simp add: f64_of_int_def)

lemma count_minus:
  assumes "k \<le> n" and "n < 2 ^ 53"
  shows "f64_max (f64_sub (f64_of_int (int n)) (f64_of_int (int k))) f64_zero = f64_of_int (int (n - k))"
proof -
  have "f64_sub (f64_of_int (int n)) (f64_of_int (int k)) = f64_of_int (int n - int k)"
    using assms by (intro f64_sub_of_int) simp_all
  moreover have "int n - int k = int (n - k)" using assms(1) by simp
  moreover have "\<not> is_nan (f64_of_int (int (n - k)))" "\<not> f64_sign (f64_of_int (int (n - k)))"
  proof -
    have "\<bar>int (n - k)\<bar> < 2 ^ 53" using assms by simp
    then show "\<not> is_nan (f64_of_int (int (n - k)))" "\<not> f64_sign (f64_of_int (int (n - k)))"
      using f64_of_int_finite by simp_all
  qed
  ultimately show ?thesis by (metis f64_max_zero)
qed

lemma prune_runs:
  assumes J: "json_text_ok (st_json st)" and c: "conv st M peer md ps" and now: "f64_whole now"
    and cnt: "md_total_message_count md = f64_of_int (int (length (all_messages ps)))" "length (all_messages ps) < 2 ^ 53"
    and old: "\<And>m. m \<in> set (all_messages ps) \<Longrightarrow> f64_ge (m_timestamp m) (md_oldest md)"
  shows "runs (at_map b M) (prune_older_than st peer cutoff now)
    (\<lambda>n s. n = length (filter (\<lambda>m. \<not> within cutoff m) (all_messages ps)) \<and>
      (\<exists>md' ps'. conv st (kv_map s) peer md' ps' \<and> all_messages ps' = filter (within cutoff) (all_messages ps) \<and>
         md_total_message_count md' = f64_of_int (int (length (all_messages ps')))))
    (\<lambda>s. \<not> b \<and> (\<exists>md' j. conv st (kv_map s) peer md' (partly cutoff j ps)))"
    (is "runs _ _ ?Q ?E")
proof -
  let ?all = "all_messages ps" and ?gone = "length (filter (\<lambda>m. \<not> within cutoff m) (all_messages ps))"
  note D = convD [OF c]
  have E0: "\<And>s. \<not> b \<Longrightarrow> kv_map s = M \<Longrightarrow> ?E s" using c by (metis partly_0)
  have E: "\<And>s j. \<not> b \<Longrightarrow> conv st (kv_map s) peer md (partly cutoff j ps) \<Longrightarrow> ?E s" by blast
  have gone_le: "?gone \<le> length ?all" by simp
  have none_gone: "?Q 0 s" if "?gone = 0" "kv_map s = M" for s
  proof -
    have "filter (within cutoff) ?all = ?all" using that(1) by (simp add: filter_empty_conv)
    with that c cnt show ?thesis by auto
  qed
  show ?thesis unfolding prune_older_than_def
  proof (rule runs_bind_load_metadata [OF D(1) E0], assumption, assumption, unfold option.case)
    show "runs (at_map b M) (if f64_eq (md_total_message_count md) f64_zero \<or>
              f64_lt f64_zero (md_oldest md) \<and> f64_ge (md_oldest md) cutoff then kret 0
           else kbind (prune_pages st peer cutoff 0 (md_latest_page md) (0, None)) (\<lambda>(removed, oldest_kept).
               if removed = 0 then kret 0
               else kbind (save_metadata st (md\<lparr>md_total_message_count :=
                           f64_max (f64_sub (md_total_message_count md) (f64_of_nat False removed)) f64_zero,
                         md_oldest := (case oldest_kept of None \<Rightarrow> f64_zero | Some t \<Rightarrow> t),
                         md_last_updated := now\<rparr>)) (\<lambda>_. kret removed))) ?Q ?E"
    proof (cases "f64_eq (md_total_message_count md) f64_zero \<or> f64_lt f64_zero (md_oldest md) \<and> f64_ge (md_oldest md) cutoff")
      case True
      have "?gone = 0"
      proof (cases "f64_eq (md_total_message_count md) f64_zero")
        case True
        then have "length ?all = 0" using cnt f64_eq_zero_of_int [of "int (length ?all)"] by simp
        then show ?thesis by simp
      next
        case False
        with True have "f64_ge (md_oldest md) cutoff" by simp
        then show ?thesis using old f64_ge_trans by (fastforce simp: filter_empty_conv within_def)
      qed
      then show ?thesis unfolding if_P [OF True] by (intro runs_at_ret none_gone)
    next
      case False
      have c0: "conv st M peer md (partly cutoff 0 ps)" using c by simp
      have len: "0 + md_latest_page md < length ps" "Suc (0 + md_latest_page md) = length ps" using D(4) by simp_all
      have acc: "foldl (prune_acc cutoff) (0, None) (take (Suc (md_latest_page md)) (drop 0 ps)) =
          (?gone, oldest_of None (filter (within cutoff) ?all))"
        using D(4) by (simp add: prune_acc_all)
      define md' where "md' = md\<lparr>md_total_message_count := f64_of_int (int (length ?all - ?gone)),
          md_oldest := (case oldest_of None (filter (within cutoff) ?all) of None \<Rightarrow> f64_zero | Some t \<Rightarrow> t),
          md_last_updated := now\<rparr>"
      have oo: "opt_ok f64_whole (oldest_of None (filter (within cutoff) ?all))"
        using conv_messages_ok [OF c] by (intro oldest_of_whole) (auto simp: opt_ok_def message_ok_def)
      have "f64_whole (md_oldest md')"
        using oo f64_zero_whole by (auto simp: md'_def opt_ok_def split: option.splits)
      moreover have "f64_whole (f64_of_int (int (length ?all - ?gone)))" using cnt(2) by (intro f64_whole_of_int) auto
      ultimately have md'_ok: "metadata_ok md'" using D(3) now by (simp add: metadata_ok_def md'_def)
      have tot: "length ?all - ?gone = length (filter (within cutoff) ?all)"
        using sum_length_filter_compl [of "within cutoff" ?all] by simp
      have "runs (at_map b M) (kbind (prune_pages st peer cutoff 0 (md_latest_page md) (0, None)) (\<lambda>(removed, oldest_kept).
               if removed = 0 then kret 0
               else kbind (save_metadata st (md\<lparr>md_total_message_count :=
                           f64_max (f64_sub (md_total_message_count md) (f64_of_nat False removed)) f64_zero,
                         md_oldest := (case oldest_kept of None \<Rightarrow> f64_zero | Some t \<Rightarrow> t),
                         md_last_updated := now\<rparr>)) (\<lambda>_. kret removed))) ?Q ?E"
      proof (rule prune_pages_runs [OF J c0 len(1) E], assumption, assumption, unfold acc prod.case)
        fix M' assume "conv st M' peer md (partly cutoff (Suc (0 + md_latest_page md)) ps)"
        then have c': "conv st M' peer md (map (pruned cutoff) ps)" unfolding len(2) partly_all .
        have eq: "f64_max (f64_sub (md_total_message_count md) (f64_of_nat False ?gone)) f64_zero =
            f64_of_int (int (length ?all - ?gone))"
          using cnt gone_le by (simp only: f64_of_nat_int count_minus)
        show "runs (at_map b M') (if ?gone = 0 then kret 0
               else kbind (save_metadata st (md\<lparr>md_total_message_count :=
                           f64_max (f64_sub (md_total_message_count md) (f64_of_nat False ?gone)) f64_zero,
                         md_oldest := (case oldest_of None (filter (within cutoff) ?all) of None \<Rightarrow> f64_zero | Some t \<Rightarrow> t),
                         md_last_updated := now\<rparr>)) (\<lambda>_. kret ?gone)) ?Q ?E"
        proof (cases "?gone = 0")
          case True
          then have "all_messages (map (pruned cutoff) ps) = ?all" unfolding all_messages_pruned by (simp add: filter_empty_conv)
          with True c' cnt show ?thesis
            by (auto intro!: runs_at_ret exI [of _ md] exI [of _ "map (pruned cutoff) ps"] simp: all_messages_pruned)
        next
          case F: False
          have w: "conv st M2 peer md' (map (pruned cutoff) ps)" if "meta_write st M' md' M2" for M2
            using conv_write_metadata [OF c' that _ md'_ok] D(2) by (simp add: md'_def)
          have "runs (at_map b M') (kbind (save_metadata st md') (\<lambda>_. kret ?gone)) ?Q ?E"
          proof (rule runs_bind_save_metadata [OF J md'_ok])
            show "\<And>s. \<not> b \<Longrightarrow> kv_map s = M' \<Longrightarrow> ?E s" using c' by (metis partly_all)
            show "\<And>s M2. \<not> b \<Longrightarrow> meta_write st M' md' M2 \<Longrightarrow> kv_map s = M2 \<Longrightarrow> ?E s" using w by (metis partly_all)
            fix M2 assume "meta_write st M' md' M2"
            from w [OF this] show "runs (at_map b M2) (kret ?gone) ?Q ?E"
              by (intro runs_at_ret conjI refl exI [of _ md'] exI [of _ "map (pruned cutoff) ps"])
                (simp_all add: all_messages_pruned md'_def tot)
          qed
          then show ?thesis using F unfolding eq md'_def by (simp only: if_False)
        qed
      qed
      then show ?thesis using False by (simp only: if_False)
    qed
  qed
qed

end
