(* ===== verification/Conversation_Safety.thy ===== *)
theory Conversation_Safety
  imports Conversation_Retention
begin

text \<open>
  The properties of the conversation store: whose records an operation may write, what appends,
  status changes and retention leave of a conversation under any failures, and how records of the
  older key shape are treated.
\<close>

section \<open>Every operation of the store\<close>

datatype store_op =
    OpAppend cid conv_message "utext option" f64
  | OpSetStatus cid utext message_status "utext option"
  | OpPatchMessage cid utext message_patch
  | OpReact cid utext reaction
  | OpRevise cid utext cid revision f64
  | OpRemove cid utext f64
  | OpMarkRead cid f64
  | OpUsername cid utext f64
  | OpDelete cid bool
  | OpPrune cid f64 f64
  | OpList "string list"

definition run_op :: "store \<Rightarrow> kv \<Rightarrow> store_op \<Rightarrow> kv" where
  "run_op st s op =
     (case op of
        OpAppend peer m u now \<Rightarrow> snd (append_message st peer m u now s)
      | OpSetStatus peer i status er \<Rightarrow> snd (set_status st peer i status er s)
      | OpPatchMessage peer i patch \<Rightarrow> snd (patch_message st peer i patch s)
      | OpReact peer i change \<Rightarrow> snd (react_message st peer i change s)
      | OpRevise peer i c r now \<Rightarrow> snd (revise_message st peer i c r now s)
      | OpRemove peer i now \<Rightarrow> snd (remove_message st peer i now s)
      | OpMarkRead peer now \<Rightarrow> snd (mark_read st peer now s)
      | OpUsername peer u now \<Rightarrow> snd (set_peer_username st peer u now s)
      | OpDelete peer include \<Rightarrow> snd (delete_conversation st peer include s)
      | OpPrune peer cutoff now \<Rightarrow> snd (prune_older_than st peer cutoff now s)
      | OpList order \<Rightarrow> snd (list_conversations st order s))"

text \<open>The keys an operation may write.\<close>

definition op_writes :: "store \<Rightarrow> store_op \<Rightarrow> string \<Rightarrow> bool" where
  "op_writes st op k \<longleftrightarrow>
     account_key (st_own st) k \<or> (case op of OpDelete peer _ \<Rightarrow> legacy_key peer k | _ \<Rightarrow> False)"

lemma only_writes_snd: "only_writes K m \<Longrightarrow> \<not> K k \<Longrightarrow> kv_map (snd (m s)) k = kv_map s k"
  using only_writesD by (metis surjective_pairing)

lemmas op_frames =
  writes_append [THEN only_writes_snd] writes_update [THEN only_writes_snd] writes_revise [THEN only_writes_snd]
  writes_remove [THEN only_writes_snd] writes_mark [THEN only_writes_snd] writes_username [THEN only_writes_snd]
  writes_prune [THEN only_writes_snd] writes_delete_conversation [THEN only_writes_snd]
  writes_list [of "\<lambda>_. False", THEN only_writes_snd]

lemma run_op_writes: "\<not> op_writes st op k \<Longrightarrow> kv_map (run_op st s op) k = kv_map s k"
  by (cases op) (simp_all add: run_op_def op_writes_def set_status_def patch_message_def react_message_def op_frames)

lemma history_writes:
  "list_all (\<lambda>op. \<not> op_writes st op k) ops \<Longrightarrow> kv_map (foldl (run_op st) s ops) k = kv_map s k"
  by (induction ops arbitrary: s) (auto simp: run_op_writes)

section \<open>A conversation to look at\<close>

text \<open>A text layer: any injection of the values into byte strings is one.\<close>

definition text_codec :: json_text where
  "text_codec = \<lparr>jt_print = (\<lambda>v. Some (replicate (to_nat v) 0)), jt_parse = (\<lambda>b. Some (from_nat (length b)))\<rparr>"

lemma text_codec_ok: "json_text_ok text_codec"
  by (simp add: json_text_ok_def text_codec_def)

definition demo_store :: store where
  "demo_store = \<lparr>st_own = 7, st_json = text_codec, st_nans = quiet_nans\<rparr>"

definition demo_message :: "string \<Rightarrow> f64 \<Rightarrow> conv_message" where
  "demo_message i t =
     \<lparr>m_id = lit i, m_content = lit ''hello'', m_sender_cid = 8, m_recipient_cid = 7, m_timestamp = t,
      m_index = f64_zero, m_status = StDelivered, m_error = None, m_reply_to = None, m_edited_at = None,
      m_reactions = None, m_mentions = None, m_attachments = None, m_message_type = TextType,
      m_document_id = None, m_document_title = None, m_transfer_id = None, m_file_name = None,
      m_file_size = None, m_file_type = None, m_file_thumbnail = None, m_transfer_mode = None,
      m_transfer_state = None, m_transfer_progress = None, m_virtual_path = None\<rparr>"

definition demo_page :: page where
  "demo_page = \<lparr>pg_peer_cid = 8, pg_number = 0, pg_messages = [demo_message ''a'' f64_zero, demo_message ''b'' f64_one],
     pg_timestamps = \<lparr>min_timestamp = f64_zero, max_timestamp = f64_one\<rparr>\<rparr>"

definition demo_metadata :: metadata where
  "demo_metadata = \<lparr>md_peer_cid = 8, md_owner_cid = Some 7, md_peer_username = None,
     md_total_message_count = f64_of_int 2, md_oldest = f64_zero, md_newest = f64_one, md_latest_page = 0,
     md_messages_per_page = 50, md_unread_count = f64_of_int 2, md_last_message_index = f64_zero,
     md_last_updated = f64_one\<rparr>"

definition demo_map :: "string \<Rightarrow> octet list option" where
  "demo_map = [metadata_key (scoped 7 8) \<mapsto> projr (encode_metadata text_codec demo_metadata),
     page_key (scoped 7 8) 0 \<mapsto> projr (encode_page text_codec demo_page)]"

lemma demo_numbers: "f64_whole f64_zero" "f64_whole f64_one" "f64_whole (f64_of_int 2)"
  using f64_whole_of_int [of 0] f64_whole_of_int [of 1] f64_whole_of_int [of 2]
  by (simp_all add: f64_of_int_0 f64_one_of_int)

lemma demo_ids: "utf8_ok (lit ''a'')" "utf8_ok (lit ''b'')" "utf8_ok (lit ''c'')" "utf8_ok (lit ''hello'')"
  by code_simp+

lemma demo_message_ok: "utf8_ok (lit i) \<Longrightarrow> f64_whole t \<Longrightarrow> message_ok (demo_message i t)"
  by (simp add: message_ok_def demo_message_def demo_numbers demo_ids opt_ok_def)

lemma demo_ok: "page_ok demo_page" "metadata_ok demo_metadata"
  by (simp_all add: page_ok_def demo_page_def demo_message_ok demo_ids demo_numbers metadata_ok_def
      demo_metadata_def opt_ok_def u32_max_def)

lemma demo_conv: "conv demo_store demo_map 8 demo_metadata [demo_page]"
proof -
  obtain b where b: "encode_metadata text_codec demo_metadata = Inr b" "decode_metadata text_codec b = Inr demo_metadata"
    using metadata_stored [OF text_codec_ok demo_ok(2)] .
  obtain c where c: "encode_page text_codec demo_page = Inr c" "decode_page text_codec quiet_nans c = Inr demo_page"
    using page_stored [OF text_codec_ok demo_ok(1)] .
  show ?thesis
    by (simp add: conv_def meta_read_def page_read_def decoded_def demo_store_def demo_map_def b c demo_ok)
      (simp add: demo_metadata_def demo_page_def)
qed

lemma demo_json_ok: "json_text_ok (st_json demo_store)"
  by (simp add: demo_store_def text_codec_ok)

section \<open>What is stored\<close>

text \<open>
  One account's operations, in any order and whatever calls fail, never touch another
  account's records; the records of the older key shape change only when their conversation is
  deleted.
\<close>

theorem store_writes_own_keys:
  assumes "account_key b k \<and> b \<noteq> st_own st \<or>
    legacy_key peer k \<and> list_all (\<lambda>op. case op of OpDelete q _ \<Rightarrow> \<not> legacy_key q k | _ \<Rightarrow> True) ops"
  shows "kv_map (foldl (run_op st) s ops) k = kv_map s k"
proof (rule history_writes)
  have own: "\<not> account_key (st_own st) k" using assms account_keys_disjoint legacy_not_account by blast
  have "\<not> op_writes st op k" if "op \<in> set ops" for op
  proof -
    have "case op of OpDelete q _ \<Rightarrow> \<not> legacy_key q k | _ \<Rightarrow> True"
      using assms that legacy_not_account by (auto simp: list_all_iff split: store_op.split)
    with own show ?thesis by (auto simp: op_writes_def split: store_op.splits)
  qed
  then show "list_all (\<lambda>op. \<not> op_writes st op k) ops" by (simp add: list_all_iff)
qed

theorem store_writes_own_keys_witness:
  "kv_map (foldl (run_op demo_store) \<lparr>kv_map = demo_map, kv_faults = [Fine, Fault ''lost'' True]\<rparr> [OpDelete 8 True, OpMarkRead 8 f64_one])
     (page_key (scoped 9 8) 0) = demo_map (page_key (scoped 9 8) 0)"
  by (rule trans [OF store_writes_own_keys [of 9]]) (simp_all add: demo_store_def)

lemma run_ok:
  assumes "runs (at_map True M) m Q (\<lambda>s. \<not> True \<and> E s)" and "fine s" and "kv_map s = M"
  shows "\<exists>x s'. m s = (KOk x, s') \<and> Q x s'"
proof -
  obtain r s' where m: "m s = (r, s')" by fastforce
  have "at_map True M s" using assms by (simp add: at_map_def)
  with assms(1) m show ?thesis by (cases r) (auto simp: runs_def)
qed

lemma run_any:
  assumes "runs (at_map False M) m Q E" and "kv_map s = M" and "m s = (r, s')"
    and "\<And>x. Q x s' \<Longrightarrow> P" and "E s' \<Longrightarrow> P"
  shows P
proof -
  have "at_map False M s" using assms by (simp add: at_map_def)
  with assms(1,3-) show ?thesis by (cases r) (auto simp: runs_def)
qed

lemma appended_mset:
  assumes "ps \<noteq> []"
  shows "mset (all_messages (appended peer m ps)) = add_mset m (mset (all_messages ps))"
proof -
  obtain qs p where ps: "ps = qs @ [p]" using assms by (cases ps rule: rev_cases) auto
  show ?thesis by (simp add: appended_def ps all_messages_def)
qed

text \<open>
  C15. Appending a storable message to a conversation never loses a message: whatever calls fail, and
  whether or not a failed write took effect, the conversation that is left has exactly the messages
  it had, or those and the new one, each once. The conversation exists, with fewer than \<open>2^32\<close> pages
  and fewer than \<open>2^53 - 1\<close> messages counted; the message is storable (\<open>message_ok\<close>: texts in UTF-8, all
  its numbers whole, hence finite, and below \<open>2^53\<close> in magnitude) and so is the time of the append. The
  condition is needed and the code does not check it: a time that is not finite makes the page and the
  metadata unreadable (\<open>nonfinite_append_bricks\<close>).
\<close>

theorem append_keeps_history:
  assumes "json_text_ok (st_json st)" and "conv st (kv_map s) peer md ps" and "counts md t u"
    and "length ps \<le> u32_max" and "message_ok m" and "f64_whole now"
    and "append_message st peer m username now s = (r, s')"
  shows "\<exists>md' ps'. conv st (kv_map s') peer md' ps' \<and>
    mset (all_messages ps') \<in> {mset (all_messages ps), add_mset m (mset (all_messages ps))}"
proof -
  have ne: "ps \<noteq> []" using conv_nonempty [OF assms(2)] by simp
  show ?thesis
  proof (rule run_any [OF append_runs [OF assms(1,2,5,6,3,4)] refl assms(7)])
    fix x assume "if redelivered ps (m_id m) then x = None \<and> kv_map s' = kv_map s
           else x = Some (appended_metadata st md ps m now) \<and>
             conv st (kv_map s') peer (appended_metadata st md ps m now) (appended peer m ps)"
    then show ?thesis using assms(2) appended_mset [OF ne, of peer m] by (auto split: if_splits)
  next
    assume "\<not> False \<and> (\<exists>md'. conv st (kv_map s') peer md' ps \<or> conv st (kv_map s') peer md' (appended peer m ps))"
    then show ?thesis using appended_mset [OF ne, of peer m] by auto
  qed
qed

lemma demo_counts: "counts demo_metadata 2 2"
  by (simp add: counts_def demo_metadata_def)

theorem append_keeps_history_witness:
  "\<exists>md' ps'. conv demo_store (kv_map (snd (append_message demo_store 8 (demo_message ''c'' f64_one) None f64_one
       \<lparr>kv_map = demo_map, kv_faults = [Fine, Fine, Fault ''full'' True]\<rparr>))) 8 md' ps' \<and>
     mset (all_messages ps') \<in> {mset (all_messages [demo_page]),
       add_mset (demo_message ''c'' f64_one) (mset (all_messages [demo_page]))}"
  using append_keeps_history [OF demo_json_ok _ demo_counts _ demo_message_ok [OF demo_ids(3) demo_numbers(2)]
      demo_numbers(2) surjective_pairing, of "\<lparr>kv_map = demo_map, kv_faults = [Fine, Fine, Fault ''full'' True]\<rparr>" 8 "[demo_page]"]
    demo_conv by (simp add: u32_max_def)

lemma located_appended:
  assumes "ps \<noteq> []" and "\<not> redelivered ps (m_id m)"
  shows "\<exists>j k. located (appended peer m ps) (m_id m) (length (appended peer m ps) - 1) = Some (j, k) \<and>
    j < length (appended peer m ps) \<and> pg_messages (appended peer m ps ! j) ! k = m"
proof -
  let ?qs = "appended peer m ps"
  obtain p where p: "?qs \<noteq> [] \<and> last ?qs = place p m" "\<not> has_id (m_id m) p"
    using assms by (cases ps rule: rev_cases)
      (fastforce simp: appended_def redelivered_def has_id_def empty_page_def split: if_splits)+
  then have nth: "?qs ! (length ?qs - 1) = place p m" using last_conv_nth [of ?qs] by simp
  obtain n where n: "length ?qs - 1 = n" "n < length ?qs" using p by (cases ?qs) auto
  obtain k where k: "position (\<lambda>x. m_id x = m_id m) (pg_messages (place p m)) = Some k"
    using has_id_position [of "m_id m" "place p m"]
    by (cases "position (\<lambda>x. m_id x = m_id m) (pg_messages (place p m))") (auto simp: has_id_def list_ex_iff)
  have "pg_messages (place p m) ! k \<in> insert m (set (pg_messages p))" "m_id (pg_messages (place p m) ! k) = m_id m"
    using position_Some [OF k] place_messages(1) [of p m] nth_mem by blast+
  then have "pg_messages (place p m) ! k = m" using p(2) by (auto simp: has_id_def list_ex_iff)
  moreover have "located ?qs (m_id m) n = Some (n, k)" using k nth n by (cases n) simp_all
  ultimately show ?thesis using n nth by auto
qed

lemma find_in_conv:
  assumes "conv st (kv_map s) peer md ps" and "fine s"
  shows "fst (find_message st peer i s) = KOk (map_option (\<lambda>(j, k). (md, ps ! j, k)) (located ps i (length ps - 1)))"
proof -
  have "length ps - 1 = md_latest_page md" using convD(4) [OF assms(1)] by simp
  then have "runs (at_map True (kv_map s)) (kbind (find_message st peer i) kret)
      (\<lambda>x _. x = map_option (\<lambda>(j, k). (md, ps ! j, k)) (located ps i (length ps - 1))) (\<lambda>s. \<not> True \<and> False)"
    by (intro runs_bind_find [OF assms(1)] runs_at_ret) simp_all
  from run_ok [OF this assms(2) refl] show ?thesis by (auto simp: kbind_ret)
qed

text \<open>
  C16. An append of a storable message that no call fails, to a conversation that exists: a redelivery
  (the message is on one of the two newest pages) changes nothing and says so; any other message is
  stored, the count goes up by one, no page gets more than its fifty messages, and the message is
  found again under its identifier. Storable (\<open>message_ok\<close>) is: texts in UTF-8, all its numbers whole, hence
  finite, and below \<open>2^53\<close> in magnitude, which the code does not check; with a time that is not finite the
  append reports success and the page is unreadable (\<open>nonfinite_append_bricks\<close>).
\<close>

theorem append_stores:
  assumes "json_text_ok (st_json st)" and "conv st (kv_map s) peer md ps" and "counts md t u"
    and "length ps \<le> u32_max" and "message_ok m" and "f64_whole now" and "fine s"
    and "list_all (\<lambda>p. length (pg_messages p) \<le> MESSAGES_PER_PAGE) ps"
  shows "\<exists>x s'. append_message st peer m username now s = (KOk x, s') \<and>
    (if redelivered ps (m_id m) then x = None \<and> kv_map s' = kv_map s
     else \<exists>md' ps'. x = Some md' \<and> conv st (kv_map s') peer md' ps' \<and>
       md_total_message_count md' = f64_of_int (int (Suc t)) \<and>
       mset (all_messages ps') = add_mset m (mset (all_messages ps)) \<and>
       list_all (\<lambda>p. length (pg_messages p) \<le> MESSAGES_PER_PAGE) ps' \<and>
       (\<forall>s2. fine s2 \<longrightarrow> kv_map s2 = kv_map s' \<longrightarrow>
          (\<exists>p k. fst (find_message st peer (m_id m) s2) = KOk (Some (md', p, k)) \<and> pg_messages p ! k = m)))"
proof -
  have ne: "ps \<noteq> []" using conv_nonempty [OF assms(2)] by simp
  let ?md = "appended_metadata st md ps m now" and ?ps = "appended peer m ps"
  from run_ok [OF append_runs [OF assms(1,2,5,6,3,4)] assms(7) refl, of username]
  obtain x s' where a: "append_message st peer m username now s = (KOk x, s')"
    and Q: "if redelivered ps (m_id m) then x = None \<and> kv_map s' = kv_map s
           else x = Some ?md \<and> conv st (kv_map s') peer ?md ?ps" by blast
  have tot: "md_total_message_count ?md = f64_of_int (int (Suc t))"
    unfolding appended_metadata_def using assms(3) by (intro record_append_counts(1) [of _ t u]) (simp add: counts_def)
  have small: "list_all (\<lambda>p. length (pg_messages p) \<le> MESSAGES_PER_PAGE) ?ps"
    using assms(8) ne by (cases ps rule: rev_cases) (auto simp: appended_def MESSAGES_PER_PAGE_def)
  have find: "\<exists>p k. fst (find_message st peer (m_id m) s2) = KOk (Some (?md, p, k)) \<and> pg_messages p ! k = m"
    if "\<not> redelivered ps (m_id m)" "conv st (kv_map s') peer ?md ?ps" "fine s2" "kv_map s2 = kv_map s'" for s2
    using located_appended [OF ne that(1), of peer] find_in_conv [of st s2 peer ?md ?ps "m_id m"] that by auto
  show ?thesis using a Q tot small find appended_mset [OF ne, of peer m] by (cases "redelivered ps (m_id m)") auto
qed

theorem append_stores_witness:
  "\<exists>x s'. append_message demo_store 8 (demo_message ''c'' f64_one) None f64_one \<lparr>kv_map = demo_map, kv_faults = []\<rparr> = (KOk x, s') \<and>
     x \<noteq> None"
proof -
  have "\<not> redelivered [demo_page] (m_id (demo_message ''c'' f64_one))"
    by (simp add: redelivered_def has_id_def demo_page_def demo_message_def lit_def)
  with append_stores [OF demo_json_ok _ demo_counts _ demo_message_ok [OF demo_ids(3) demo_numbers(2)] demo_numbers(2),
      of "\<lparr>kv_map = demo_map, kv_faults = []\<rparr>" 8 "[demo_page]" None] demo_conv
  show ?thesis by (simp add: u32_max_def fine_def demo_page_def MESSAGES_PER_PAGE_def) blast
qed







text \<open>
  What the store writes it reads back: a page, or a conversation's metadata, whose texts are
  well-formed and whose numbers are whole encodes, and decodes to itself.
\<close>

theorem stored_records_roundtrip:
  assumes "json_text_ok J" and "page_ok p" and "metadata_ok md"
  shows "(\<exists>b. encode_page J p = Inr b \<and> decode_page J nans b = Inr p) \<and>
    (\<exists>b. encode_metadata J md = Inr b \<and> decode_metadata J b = Inr md)"
proof
  show "\<exists>b. encode_page J p = Inr b \<and> decode_page J nans b = Inr p"
    using page_stored [OF assms(1,2)] by blast
  show "\<exists>b. encode_metadata J md = Inr b \<and> decode_metadata J b = Inr md"
    using metadata_stored [OF assms(1,3)] by blast
qed

theorem stored_records_roundtrip_witness:
  "(\<exists>b. encode_page text_codec demo_page = Inr b \<and> decode_page text_codec quiet_nans b = Inr demo_page) \<and>
   (\<exists>b. encode_metadata text_codec demo_metadata = Inr b \<and> decode_metadata text_codec b = Inr demo_metadata)"
  using stored_records_roundtrip [OF text_codec_ok demo_ok] by blast

section \<open>Records of the older key shape\<close>

lemma starts_with_shorter: "starts_with s (p @ q) \<Longrightarrow> starts_with s p"
  by (auto simp: starts_with_iff)

lemma legacy_not_scoped: "legacy_key peer k \<Longrightarrow> \<not> starts_with k (scoped own q)"
  using legacy_not_account [of peer k own] starts_with_shorter [of k _ "show_nat (unat q)"]
  by (fastforce simp: account_key_def scoped_def)

lemma prefix_has_with: "starts_with k PAGINATED_PREFIX \<Longrightarrow> contains_str ''_with_'' k"
proof -
  assume "starts_with k PAGINATED_PREFIX"
  then obtain t where k: "k = ''msgs'' @ ''_with_'' @ ''peer_'' @ t" by (auto simp: starts_with_iff PAGINATED_PREFIX_def)
  have "starts_with (drop 4 k) ''_with_''" by (simp add: k starts_with_iff)
  moreover have "4 < Suc (length k)" by (simp add: k)
  then have "4 \<in> set [0..<Suc (length k)]" unfolding set_upt by simp
  ultimately show ?thesis unfolding contains_str_def list_ex_iff by blast
qed

lemma list_from_legacy:
  assumes "fine s" and "list_all (\<lambda>k. starts_with k PAGINATED_PREFIX \<and> (\<exists>peer. legacy_key peer k)) keys"
  shows "list_from st keys found s = (KOk found, s)"
  using assms(2)
proof (induction keys)
  case Nil
  then show ?case by (simp add: kret_def)
next
  case (Cons k keys)
  then have "contains_str ''_with_'' k" "\<And>own q. \<not> starts_with k (scoped own q)"
    using prefix_has_with legacy_not_scoped by auto
  with Cons assms(1) show ?case
    by (simp add: kbind_def Let_def split: option.split sum.split)
qed

text \<open>
  Listing leaves out every record of the older key shape: the prefix of all the keys itself
  contains the marker that is meant to tell the account-scoped keys, so an unstamped conversation,
  which loading returns, is taken for another account's.
\<close>

theorem list_omits_legacy:
  assumes "fine s" and "kv_map s (metadata_key (scoped (st_own st) peer)) = None"
    and "kv_map s (metadata_key (legacy peer)) = Some b" and "decode_metadata (st_json st) b = Inr md"
    and "md_owner_cid md = None" and "list_all (\<lambda>k. \<exists>q. k = metadata_key (legacy q)) order"
  shows "load_metadata st peer s = (KOk (Some md), s)"
    and "list_conversations st order s = (KOk [], s)"
proof -
  show "load_metadata st peer s = (KOk (Some md), s)"
    using assms(1-5) by (simp add: load_metadata_def metadata_at_def kbind_assoc is_none_or_def kbind_def kret_def klift_def)
  have pre: "starts_with (metadata_key (legacy q)) PAGINATED_PREFIX" for q
    by (simp add: metadata_key_def legacy_def starts_with_iff)
  define keys where "keys = sort_key (\<lambda>k. if contains_str ''_with_'' k then 0 else 1 :: nat)
    (filter (\<lambda>k. starts_with k PAGINATED_PREFIX \<and> ends_with k ''_metadata'') (filter (\<lambda>k. kv_map s k \<noteq> None) order))"
  have "list_all (\<lambda>k. starts_with k PAGINATED_PREFIX \<and> (\<exists>peer. legacy_key peer k)) keys"
    using assms(6) pre by (auto simp: keys_def list_all_iff legacy_key_def)
  from list_from_legacy [OF assms(1) this, of st "[]"]
  show "list_conversations st order s = (KOk [], s)"
    using assms(1) by (simp add: list_conversations_def kbind_def keys_def Let_def)
qed

definition unstamped :: "octet list" where
  "unstamped = projr (encode_metadata text_codec (demo_metadata\<lparr>md_owner_cid := None\<rparr>))"

lemma unstamped_reads: "decode_metadata text_codec unstamped = Inr (demo_metadata\<lparr>md_owner_cid := None\<rparr>)"
proof -
  have "metadata_ok (demo_metadata\<lparr>md_owner_cid := None\<rparr>)" using demo_ok(2) by (simp add: metadata_ok_def)
  from metadata_stored [OF text_codec_ok this] obtain b
    where "encode_metadata text_codec (demo_metadata\<lparr>md_owner_cid := None\<rparr>) = Inr b"
      "decode_metadata text_codec b = Inr (demo_metadata\<lparr>md_owner_cid := None\<rparr>)" .
  then show ?thesis by (simp add: unstamped_def)
qed

theorem list_omits_legacy_witness:
  "list_conversations demo_store [metadata_key (legacy 8)] \<lparr>kv_map = [metadata_key (legacy 8) \<mapsto> unstamped], kv_faults = []\<rparr> =
     (KOk [], \<lparr>kv_map = [metadata_key (legacy 8) \<mapsto> unstamped], kv_faults = []\<rparr>)"
  by (rule list_omits_legacy(2) [where peer = 8 and md = "demo_metadata\<lparr>md_owner_cid := None\<rparr>" and b = unstamped])
    (auto simp: fine_def demo_store_def unstamped_reads)

section \<open>The first message of a conversation\<close>

text \<open>The page a new conversation begins with: one that is there already, or an empty one.\<close>

definition first_page :: "cid \<Rightarrow> conv_message \<Rightarrow> page option \<Rightarrow> page" where
  "first_page peer m x = (case x of Some p \<Rightarrow> p | None \<Rightarrow> empty_page peer 0 (m_timestamp m))"

definition first_metadata :: "store \<Rightarrow> cid \<Rightarrow> conv_message \<Rightarrow> utext option \<Rightarrow> f64 \<Rightarrow> metadata" where
  "first_metadata st peer m username now =
     record_append (new_metadata st peer m username now) m True (st_own st) now"

lemma first_metadata_ok:
  assumes "message_ok m" and "opt_ok utf8_ok username" and "f64_whole now"
  shows "metadata_ok (first_metadata st peer m username now)"
    and "md_peer_cid (first_metadata st peer m username now) = peer"
    and "md_latest_page (first_metadata st peer m username now) = 0"
    and "md_total_message_count (first_metadata st peer m username now) = f64_of_int 1"
proof -
  have c: "counts (new_metadata st peer m username now) 0 0"
    by (simp add: counts_def new_metadata_def f64_of_int_0)
  have "metadata_ok (new_metadata st peer m username now)"
    using assms by (simp add: metadata_ok_def new_metadata_def message_ok_def demo_numbers MESSAGES_PER_PAGE_def u32_max_def)
  from record_append_ok [OF this c assms(1,3)] show "metadata_ok (first_metadata st peer m username now)"
    by (simp add: first_metadata_def)
  show "md_peer_cid (first_metadata st peer m username now) = peer" "md_latest_page (first_metadata st peer m username now) = 0"
    by (simp_all add: first_metadata_def new_metadata_def)
  show "md_total_message_count (first_metadata st peer m username now) = f64_of_int 1"
    using record_append_counts(1) [OF c] by (simp add: first_metadata_def)
qed

lemma append_first_runs:
  assumes J: "json_text_ok (st_json st)" and none: "meta_read st M peer = Inr None" and x: "page_read st M peer 0 = Inr x"
    and p: "page_ok (first_page peer m x)" "pg_peer_cid (first_page peer m x) = peer" "pg_number (first_page peer m x) = 0"
      "length (pg_messages (first_page peer m x)) < MESSAGES_PER_PAGE"
    and ok: "message_ok m" "opt_ok utf8_ok username" "f64_whole now"
  shows "runs (at_map b M) (append_message st peer m username now)
    (\<lambda>r s. if has_id (m_id m) (first_page peer m x) then r = None \<and> kv_map s = M
      else r = Some (first_metadata st peer m username now) \<and>
        conv st (kv_map s) peer (first_metadata st peer m username now) [place (first_page peer m x) m])
    (\<lambda>s. \<not> b)" (is "runs _ _ ?Q ?E")
proof -
  let ?p = "first_page peer m x" and ?md = "first_metadata st peer m username now"
  note md = first_metadata_ok [OF ok, of st peer]
  have own: "(new_metadata st peer m username now)\<lparr>md_owner_cid :=
      Some (case md_owner_cid (new_metadata st peer m username now) of None \<Rightarrow> st_own st | Some c \<Rightarrow> c)\<rparr> =
    new_metadata st peer m username now" by (simp add: new_metadata_def)
  have pg: "page_read st M peer (md_latest_page (new_metadata st peer m username now)) = Inr x"
    using x by (simp add: new_metadata_def)
  have fp: "(case x of Some p \<Rightarrow> p | None \<Rightarrow> empty_page peer (md_latest_page (new_metadata st peer m username now)) (m_timestamp m)) = ?p"
    by (simp add: first_page_def new_metadata_def split: option.split)
  have dup: "already_stored st peer (new_metadata st peer m username now) ?p (m_id m) = kret (has_id (m_id m) ?p)"
    by (simp add: already_stored_def new_metadata_def)
  have roll: "roll_over st peer m (new_metadata st peer m username now) ?p = kret (new_metadata st peer m username now, ?p)"
    using p(4) by (simp add: roll_over_def)
  have save: "runs (at_map b M) (kbind (save_page st (place ?p m)) (\<lambda>_. kbind (save_metadata st ?md) (\<lambda>_. kret (Some ?md)))) ?Q ?E"
    if nd: "\<not> has_id (m_id m) ?p"
  proof (rule runs_bind_save_page [OF J place_ok [OF p(1) ok(1)]])
    fix M1 assume w: "page_write st M (place ?p m) M1"
    show "runs (at_map b M1) (kbind (save_metadata st ?md) (\<lambda>_. kret (Some ?md))) ?Q ?E"
    proof (rule runs_bind_save_metadata [OF J md(1)])
      fix M2 assume v: "meta_write st M1 ?md M2"
      have "conv st M2 peer ?md [place ?p m]"
        unfolding conv_def using md p ok
        by (simp add: meta_write_reads [OF v] page_write_reads [OF w] place_ok)
      then show "runs (at_map b M2) (kret (Some ?md)) ?Q ?E" using nd by (intro runs_at_ret) simp
    qed simp_all
  qed simp_all
  have E0: "\<And>s. \<not> b \<Longrightarrow> kv_map s = M \<Longrightarrow> ?E s" by simp
  show ?thesis unfolding append_message_def Let_def
    apply (rule runs_bind_load_metadata [OF none E0], assumption, assumption)
    apply (simp only: option.simps own)
    apply (rule runs_bind_load_page [OF pg E0], assumption, assumption)
    apply (simp only: fp dup roll kbind_simps prod.case simp_thms first_metadata_def [symmetric])
    using save by (cases "has_id (m_id m) ?p") (auto intro!: runs_at_ret)
qed

text \<open>
  The first message to a peer begins a conversation: one page with it, a count of one, and the
  account as the owner.
\<close>

theorem first_append_begins:
  assumes "json_text_ok (st_json st)" and "meta_read st (kv_map s) peer = Inr None"
    and "page_read st (kv_map s) peer 0 = Inr None" and "message_ok m" and "opt_ok utf8_ok username"
    and "f64_whole now" and "fine s"
  shows "\<exists>md s'. append_message st peer m username now s = (KOk (Some md), s') \<and>
    conv st (kv_map s') peer md [place (empty_page peer 0 (m_timestamp m)) m] \<and>
    md_owner_cid md = Some (st_own st) \<and> md_total_message_count md = f64_of_int 1 \<and>
    md_oldest md = m_timestamp m \<and> md_newest md = m_timestamp m"
proof -
  let ?p = "empty_page peer 0 (m_timestamp m)" and ?md = "first_metadata st peer m username now"
  have p: "page_ok ?p" using assms(4) by (intro empty_page_ok) (simp_all add: message_ok_def)
  have "runs (at_map True (kv_map s)) (append_message st peer m username now)
      (\<lambda>r s'. r = Some ?md \<and> conv st (kv_map s') peer ?md [place ?p m]) (\<lambda>s. \<not> True \<and> False)"
    using append_first_runs [OF assms(1-3) _ _ _ _ assms(4-6), of True] p
    by (simp add: first_page_def has_id_def MESSAGES_PER_PAGE_def)
  from run_ok [OF this assms(7) refl]
  obtain s' where s': "append_message st peer m username now s = (KOk (Some ?md), s')"
      "conv st (kv_map s') peer ?md [place ?p m]" by auto
  moreover have "md_owner_cid ?md = Some (st_own st)" "md_oldest ?md = m_timestamp m" "md_newest ?md = m_timestamp m"
    by (simp_all add: first_metadata_def record_append_def new_metadata_def Let_def)
  ultimately show ?thesis using first_metadata_ok(4) [OF assms(4-6), of st peer] by blast
qed

theorem first_append_begins_witness:
  "\<exists>md s'. append_message demo_store 8 (demo_message ''a'' f64_one) None f64_one
       \<lparr>kv_map = Map.empty, kv_faults = []\<rparr> = (KOk (Some md), s') \<and>
     md_total_message_count md = f64_of_int 1"
  using first_append_begins [OF demo_json_ok _ _ demo_message_ok [OF demo_ids(1) demo_numbers(2)] _ demo_numbers(2),
      of "\<lparr>kv_map = Map.empty, kv_faults = []\<rparr>" 8 None]
  by (auto simp: meta_read_def page_read_def decoded_def opt_ok_def fine_def)

text \<open>
  A page of the older key shape is read whoever its conversation is stamped for: loading the
  metadata refuses another account's, but the first append to that peer takes over the other
  account's page, messages and all.
\<close>

theorem legacy_page_leaks:
  assumes "json_text_ok (st_json st)" and "fine s"
    and "kv_map s (metadata_key (scoped (st_own st) peer)) = None" and "kv_map s (page_key (scoped (st_own st) peer) 0) = None"
    and "kv_map s (metadata_key (legacy peer)) = Some b" and "decode_metadata (st_json st) b = Inr md"
    and "md_owner_cid md = Some other" and "other \<noteq> st_own st"
    and "kv_map s (page_key (legacy peer) 0) = Some c" and "decode_page (st_json st) (st_nans st) c = Inr p"
    and "page_ok p" and "pg_peer_cid p = peer" and "pg_number p = 0" and "length (pg_messages p) < MESSAGES_PER_PAGE"
    and "\<not> has_id (m_id m) p" and "message_ok m" and "opt_ok utf8_ok username" and "f64_whole now"
  shows "load_metadata st peer s = (KOk None, s)"
    and "\<exists>md' s'. append_message st peer m username now s = (KOk (Some md'), s') \<and>
      md_owner_cid md' = Some (st_own st) \<and> conv st (kv_map s') peer md' [place p m]"
proof -
  show "load_metadata st peer s = (KOk None, s)"
    using assms(2-8) by (simp add: load_metadata_def metadata_at_def kbind_assoc is_none_or_def kbind_def kret_def klift_def)
  have none: "meta_read st (kv_map s) peer = Inr None" and page: "page_read st (kv_map s) peer 0 = Inr (Some p)"
    using assms(3-10) by (simp_all add: meta_read_def page_read_def decoded_def is_none_or_def)
  have "runs (at_map True (kv_map s)) (append_message st peer m username now)
      (\<lambda>r s'. r = Some (first_metadata st peer m username now) \<and>
        conv st (kv_map s') peer (first_metadata st peer m username now) [place p m]) (\<lambda>s. \<not> True \<and> False)"
    using append_first_runs [OF assms(1) none page _ _ _ _ assms(16-18), of True] assms(11-15)
    by (simp add: first_page_def)
  from run_ok [OF this assms(2) refl]
  show "\<exists>md' s'. append_message st peer m username now s = (KOk (Some md'), s') \<and>
      md_owner_cid md' = Some (st_own st) \<and> conv st (kv_map s') peer md' [place p m]"
    by (force simp: first_metadata_def record_append_def new_metadata_def Let_def)
qed

lemma demo_bytes:
  "decode_metadata text_codec (projr (encode_metadata text_codec demo_metadata)) = Inr demo_metadata"
  "decode_page text_codec quiet_nans (projr (encode_page text_codec demo_page)) = Inr demo_page"
  using metadata_stored [OF text_codec_ok demo_ok(2)] page_stored [OF text_codec_ok demo_ok(1), of quiet_nans]
  by (metis sum.sel(2))+

theorem legacy_page_leaks_witness:
  "\<exists>md' s'. append_message (demo_store\<lparr>st_own := 9\<rparr>) 8 (demo_message ''c'' f64_one) None f64_one
       \<lparr>kv_map = [metadata_key (legacy 8) \<mapsto> projr (encode_metadata text_codec demo_metadata),
                  page_key (legacy 8) 0 \<mapsto> projr (encode_page text_codec demo_page)], kv_faults = []\<rparr> =
       (KOk (Some md'), s') \<and> md_owner_cid md' = Some 9 \<and>
     conv (demo_store\<lparr>st_own := 9\<rparr>) (kv_map s') 8 md' [place demo_page (demo_message ''c'' f64_one)]"
proof -
  have st: "st_own (demo_store\<lparr>st_own := 9\<rparr>) = 9" "st_json (demo_store\<lparr>st_own := 9\<rparr>) = text_codec"
    "st_nans (demo_store\<lparr>st_own := 9\<rparr>) = quiet_nans" by (simp_all add: demo_store_def)
  have owner: "md_owner_cid demo_metadata = Some 7" by (simp add: demo_metadata_def)
  have page: "pg_peer_cid demo_page = 8" "pg_number demo_page = 0" "length (pg_messages demo_page) < MESSAGES_PER_PAGE"
    "\<not> has_id (m_id (demo_message ''c'' f64_one)) demo_page"
    by (simp_all add: demo_page_def has_id_def demo_message_def lit_def MESSAGES_PER_PAGE_def)
  have key: "page_key (legacy 8) 0 \<noteq> metadata_key (legacy 8)"
    using digits_not_metadata [of 0] by (simp add: page_key_def metadata_key_def)
  have "\<exists>md' s'. append_message (demo_store\<lparr>st_own := 9\<rparr>) 8 (demo_message ''c'' f64_one) None f64_one
       \<lparr>kv_map = [metadata_key (legacy 8) \<mapsto> projr (encode_metadata text_codec demo_metadata),
                  page_key (legacy 8) 0 \<mapsto> projr (encode_page text_codec demo_page)], kv_faults = []\<rparr> =
       (KOk (Some md'), s') \<and> md_owner_cid md' = Some (st_own (demo_store\<lparr>st_own := 9\<rparr>)) \<and>
     conv (demo_store\<lparr>st_own := 9\<rparr>) (kv_map s') 8 md' [place demo_page (demo_message ''c'' f64_one)]"
    by (rule legacy_page_leaks(2) [OF _ _ _ _ _ demo_bytes(1) [folded st(2)] owner _ _ demo_bytes(2) [folded st(2,3)]
        demo_ok(1) page demo_message_ok [OF demo_ids(3) demo_numbers(2)] _ demo_numbers(2)])
      (simp_all add: st text_codec_ok fine_def key key [symmetric] opt_ok_def)
  then show ?thesis by (simp only: st)
qed

text \<open>
  A first message whose page is written and whose metadata write fails is lost to the account:
  the retry finds it on the page, reports a duplicate, and writes no metadata either, so the
  conversation does not exist.
\<close>

theorem first_append_lost:
  assumes "json_text_ok (st_json st)" and "kv_faults s = [Fine, Fine, Fine, Fine, Fine, Fault e False]"
    and "kv_map s (metadata_key (scoped (st_own st) peer)) = None" and "kv_map s (page_key (scoped (st_own st) peer) 0) = None"
    and "kv_map s (metadata_key (legacy peer)) = None" and "kv_map s (page_key (legacy peer) 0) = None"
    and "message_ok m" and "opt_ok utf8_ok username" and "f64_whole now"
  shows "\<exists>s1. append_message st peer m username now s = (KErr (KvErr e), s1) \<and>
    append_message st peer m username now s1 = (KOk None, s1) \<and> load_metadata st peer s1 = (KOk None, s1)"
proof -
  let ?p = "place (empty_page peer 0 (m_timestamp m)) m" and ?md = "first_metadata st peer m username now"
  have "page_ok ?p" using assms(7) by (intro place_ok empty_page_ok) (simp_all add: message_ok_def)
  then obtain c where c: "encode_page (st_json st) ?p = Inr c" "decode_page (st_json st) (st_nans st) c = Inr ?p"
    using page_stored [OF assms(1)] by blast
  obtain d where d: "encode_metadata (st_json st) ?md = Inr d"
    using metadata_stored [OF assms(1) first_metadata_ok(1) [OF assms(7-9)]] by blast
  define s1 where "s1 = \<lparr>kv_map = (kv_map s)(page_key (scoped (st_own st) peer) 0 := Some c), kv_faults = []\<rparr>"
  have new: "(new_metadata st peer m username now)\<lparr>md_owner_cid := Some (st_own st)\<rparr> = new_metadata st peer m username now"
    "md_owner_cid (new_metadata st peer m username now) = Some (st_own st)" "md_latest_page (new_metadata st peer m username now) = 0"
    by (simp_all add: new_metadata_def)
  have "append_message st peer m username now s = (KErr (KvErr e), s1)"
    using assms(2-6)
    by (simp add: append_message_def load_metadata_def metadata_at_def load_page_def page_at_def kbind_def kv_get_def
        next_fault_def kret_def Let_def already_stored_def has_id_def roll_over_def save_page_def
        save_metadata_def c d klift_def kv_set_def kv_put_def new first_metadata_def [symmetric] MESSAGES_PER_PAGE_def s1_def)
  moreover have f: "fine s1" by (simp add: fine_def s1_def)
  have reads: "kv_map s1 (metadata_key (scoped (st_own st) peer)) = None" "kv_map s1 (metadata_key (legacy peer)) = None"
    "kv_map s1 (page_key (scoped (st_own st) peer) 0) = Some c" using assms(3,5) by (simp_all add: s1_def)
  have "has_id (m_id m) ?p" by (simp add: has_id_def list_ex_iff)
  then have "append_message st peer m username now s1 = (KOk None, s1)"
    using c(2)
    by (simp add: append_message_def load_metadata_def metadata_at_def load_page_def page_at_def kbind_def f [THEN fine_get]
        kret_def Let_def already_stored_def klift_def new reads)
  moreover have "load_metadata st peer s1 = (KOk None, s1)"
    by (simp add: load_metadata_def metadata_at_def kbind_def f [THEN fine_get] kret_def reads)
  ultimately show ?thesis by blast
qed

theorem first_append_lost_witness:
  "\<exists>s1. append_message demo_store 8 (demo_message ''a'' f64_one) None f64_one
       \<lparr>kv_map = Map.empty, kv_faults = [Fine, Fine, Fine, Fine, Fine, Fault ''full'' False]\<rparr> = (KErr (KvErr ''full''), s1) \<and>
     append_message demo_store 8 (demo_message ''a'' f64_one) None f64_one s1 = (KOk None, s1) \<and>
     load_metadata demo_store 8 s1 = (KOk None, s1)"
  by (rule first_append_lost [OF demo_json_ok])
    (simp_all add: demo_message_ok demo_ids demo_numbers opt_ok_def)

end
