(* ===== verification/Notices.thy ===== *)
theory Notices
  imports Preferences Hash_Map Conversation_Safety
begin

text \<open>
  Native notices (\<^verbatim>\<open>kernel/notices/{decide,hub,raise}.rs\<close>): whether something that happened is told
  to the user and how it reads, who hears notices, which windows have what in front of the user,
  and the mute of an account. Texts are UTF-8 bytes.
\<close>

section \<open>What happened and the account as it stands (decide.rs, notices.rs)\<close>

datatype notice_source =
    NMessage cid "utext option" utext
  | NPeerRequest cid "utext option"
  | NGroupInvite cid "utext option"
  | NFileOffer cid "utext option" utext
  | NIncomingCall cid "utext option"

datatype notice_kind = KMessage | KPeerRequest | KGroupInvite | KFileOffer | KIncomingCall

record notice_target =
  nt_account :: utext
  nt_server_host :: "utext option"
  nt_open :: utext

record native_notice =
  nn_cid :: cid
  nn_kind :: notice_kind
  nn_title :: utext
  nn_body :: utext
  nn_target :: notice_target

record notice_ctx =
  nc_cid :: cid
  nc_account :: utext
  nc_server_host :: "utext option"
  nc_preview :: notification_preview
  nc_muted :: bool
  nc_focused :: "cid option list"

definition PREVIEW_CHARS :: nat where "PREVIEW_CHARS = 100"

text \<open>\<^verbatim>\<open>chars().take(n)\<close>: a character is its first byte and the continuation bytes after it.\<close>

fun take_chars :: "nat \<Rightarrow> utext \<Rightarrow> utext" where
  "take_chars 0 bs = []"
| "take_chars (Suc n) [] = []"
| "take_chars (Suc n) (b # bs) =
     b # takeWhile continuation bs @ take_chars n (dropWhile continuation bs)"

definition show_cid :: "cid \<Rightarrow> utext" where "show_cid c = lit (show_nat (unat c))"

fun kind_and_peer :: "notice_source \<Rightarrow> notice_kind \<times> cid" where
  "kind_and_peer (NMessage peer _ _) = (KMessage, peer)"
| "kind_and_peer (NPeerRequest peer _) = (KPeerRequest, peer)"
| "kind_and_peer (NGroupInvite peer _) = (KGroupInvite, peer)"
| "kind_and_peer (NFileOffer peer _ _) = (KFileOffer, peer)"
| "kind_and_peer (NIncomingCall peer _) = (KIncomingCall, peer)"

definition who :: "utext option \<Rightarrow> utext" where
  "who name = (case name of Some n \<Rightarrow> n | None \<Rightarrow> lit ''Someone'')"

definition shown_already :: "notice_source \<Rightarrow> notice_ctx \<Rightarrow> bool" where
  "shown_already source ctx =
     (case source of
        NMessage peer _ _ \<Rightarrow> Some peer \<in> set (nc_focused ctx)
      | NFileOffer peer _ _ \<Rightarrow> Some peer \<in> set (nc_focused ctx)
      | _ \<Rightarrow> nc_focused ctx \<noteq> [])"

definition wording :: "notice_source \<Rightarrow> bool \<Rightarrow> utext \<times> utext \<times> utext" where
  "wording source previews =
     (case source of
        NMessage peer name text \<Rightarrow>
          (who name, if previews then take_chars PREVIEW_CHARS text else lit ''New message'',
           lit ''conversation:'' @ show_cid peer)
      | NFileOffer peer name file_name \<Rightarrow>
          (who name, if previews then lit ''Sent you '' @ file_name else lit ''Sent you a file'',
           lit ''conversation:'' @ show_cid peer)
      | NPeerRequest _ name \<Rightarrow>
          (who name @ lit '' wants to connect'', lit ''Open Citadel to accept or decline.'', lit ''requests'')
      | NGroupInvite _ name \<Rightarrow>
          (lit ''Group invitation'', who name @ lit '' invited you to a group.'', lit ''requests'')
      | NIncomingCall peer name \<Rightarrow>
          (who name @ lit '' is calling'', lit ''Incoming call'', lit ''call:'' @ show_cid peer))"

definition decide_notice :: "notice_source \<Rightarrow> notice_ctx \<Rightarrow> native_notice option" where
  "decide_notice source ctx =
     (let (kind, peer) = kind_and_peer source
      in if nc_muted ctx \<and> kind \<noteq> KIncomingCall then None
         else if shown_already source ctx then None
         else (let (title, body, open_at) = wording source (nc_preview ctx = PreviewText)
               in Some \<lparr>nn_cid = nc_cid ctx, nn_kind = kind, nn_title = title, nn_body = body,
                    nn_target = \<lparr>nt_account = nc_account ctx, nt_server_host = nc_server_host ctx,
                                 nt_open = open_at\<rparr>\<rparr>))"

section \<open>Who hears notices and what is in front of the user (hub.rs)\<close>

type_synonym connection = "128 word"

text \<open>
  The connected clients are the kernel's; the hub reads them through the set \<^verbatim>\<open>clients\<close>. The
  notifiers beside the stream are only counted.
\<close>

record notice_hub =
  nh_token :: "octet list option"
  nh_subscribers :: "connection list"
  nh_focus :: "(connection, cid \<times> cid option) hmap"
  nh_others :: nat
  nh_told_heard :: bool

definition notice_token :: "utext \<Rightarrow> octet list option" where
  "notice_token secret = (if secret = [] then None else Some secret)"

definition new_hub :: "octet list option \<Rightarrow> nat \<Rightarrow> notice_hub" where
  "new_hub token others =
     \<lparr>nh_token = token, nh_subscribers = [], nh_focus = [], nh_others = others, nh_told_heard = False\<rparr>"

text \<open>The constant-time comparison (\<^verbatim>\<open>credential_fingerprint::matches\<close>).\<close>

definition differences :: "octet list \<Rightarrow> octet list \<Rightarrow> octet" where
  "differences xs ys = foldl (\<lambda>d (a, b). or d (xor a b)) 0 (zip xs ys)"

definition credential_matches :: "octet list option \<Rightarrow> octet list option \<Rightarrow> bool" where
  "credential_matches recorded presented =
     (case (recorded, presented) of
        (Some r, Some p) \<Rightarrow> length r = length p \<and> differences r p = 0
      | _ \<Rightarrow> False)"

definition admits :: "notice_hub \<Rightarrow> utext \<Rightarrow> bool" where
  "admits h presented = credential_matches (nh_token h) (Some presented)"

definition subscribe :: "connection \<Rightarrow> notice_hub \<Rightarrow> notice_hub" where
  "subscribe c h = h\<lparr>nh_subscribers := List.insert c (nh_subscribers h)\<rparr>"

definition has_stream :: "connection set \<Rightarrow> notice_hub \<Rightarrow> bool" where
  "has_stream clients h = list_ex (\<lambda>c. c \<in> clients) (nh_subscribers h)"

definition is_heard :: "connection set \<Rightarrow> notice_hub \<Rightarrow> bool" where
  "is_heard clients h \<longleftrightarrow> list_ex (\<lambda>c. c \<in> clients) (nh_subscribers h) \<or> 1 < 1 + nh_others h"

definition report_focus :: "connection \<Rightarrow> cid \<Rightarrow> cid option \<Rightarrow> bool \<Rightarrow> notice_hub \<Rightarrow> notice_hub" where
  "report_focus c account peer focused h =
     (if focused then h\<lparr>nh_focus := hm_insert c (account, peer) (nh_focus h)\<rparr>
      else case hm_get (nh_focus h) c of
             Some (shown, _) \<Rightarrow> if shown = account then h\<lparr>nh_focus := hm_remove c (nh_focus h)\<rparr> else h
           | None \<Rightarrow> h)"

definition heard_changed :: "connection set \<Rightarrow> notice_hub \<Rightarrow> bool option \<times> notice_hub" where
  "heard_changed clients h =
     (let now = is_heard clients h
      in if now \<noteq> nh_told_heard h then (Some now, h\<lparr>nh_told_heard := now\<rparr>) else (None, h))"

definition focused_on :: "connection set \<Rightarrow> cid \<Rightarrow> notice_hub \<Rightarrow> cid option list \<times> notice_hub" where
  "focused_on clients account h =
     (let h = h\<lparr>nh_focus := hm_retain (\<lambda>c _. c \<in> clients) (nh_focus h)\<rparr>
      in (map (\<lambda>(_, _, peer). peer) (filter (\<lambda>(_, shown, _). shown = account) (nh_focus h)), h))"

text \<open>The live subscribers something sent to the stream goes to, the others forgotten.\<close>

definition stream_targets :: "connection set \<Rightarrow> notice_hub \<Rightarrow> connection list \<times> notice_hub" where
  "stream_targets clients h =
     (let live = filter (\<lambda>c. c \<in> clients) (nh_subscribers h) in (live, h\<lparr>nh_subscribers := live\<rparr>))"

section \<open>Raising a notice (raise.rs)\<close>

text \<open>The notifications among a session's that call for a notice.\<close>

datatype session_notification =
    PeerRegisterNotification cid cid utext
  | GroupInviteNotification cid cid
  | FileTransferRequestNotification cid cid utext
  | OtherNotification

fun source_of :: "session_notification \<Rightarrow> (cid \<times> notice_source) option" where
  "source_of (PeerRegisterNotification account peer name) = Some (account, NPeerRequest peer (Some name))"
| "source_of (GroupInviteNotification account peer) = Some (account, NGroupInvite peer None)"
| "source_of (FileTransferRequestNotification account peer file) = Some (account, NFileOffer peer None file)"
| "source_of OtherNotification = None"

definition named_source :: "(cid \<Rightarrow> utext option) \<Rightarrow> notice_source \<Rightarrow> notice_source" where
  "named_source name source =
     (case source of
        NGroupInvite peer None \<Rightarrow> NGroupInvite peer (name peer)
      | NFileOffer peer None file \<Rightarrow> NFileOffer peer (name peer) file
      | other \<Rightarrow> other)"

definition muted_key :: "cid \<Rightarrow> string" where "muted_key c = ''agent_account_muted_'' @ show_nat (unat c)"

definition set_muted :: "cid \<Rightarrow> bool \<Rightarrow> unit kvm" where
  "set_muted c muted = kv_set (muted_key c) [if muted then 1 else 0]"

definition is_muted :: "cid \<Rightarrow> kv \<Rightarrow> bool \<times> kv" where
  "is_muted c s =
     (case kv_get (muted_key c) s of
        (KOk value, s) \<Rightarrow> ((case value of Some (b # _) \<Rightarrow> b = 1 | _ \<Rightarrow> False), s)
      | (_, s) \<Rightarrow> (False, s))"

text \<open>
  The account as it stands when the notice is decided. Preferences that cannot be read are the
  defaults, a mute that cannot be read is off.
\<close>

definition notice_context ::
  "json_text \<Rightarrow> (cid \<Rightarrow> (utext \<times> utext option) option) \<Rightarrow> cid \<Rightarrow> cid option list \<Rightarrow> kv \<Rightarrow> notice_ctx option \<times> kv"
where
  "notice_context J accounts account focused s =
     (case accounts account of
        None \<Rightarrow> (None, s)
      | Some (user, host) \<Rightarrow>
          (let (r, s) = preferences J account s;
               prefs = (case r of KOk p \<Rightarrow> p | _ \<Rightarrow> UI_DEFAULTS);
               (muted, s) = is_muted account s
           in (Some \<lparr>nc_cid = account, nc_account = user, nc_server_host = host, nc_preview = pr_preview prefs,
                     nc_muted = muted, nc_focused = focused\<rparr>, s)))"

text \<open>
  The whole of raising one: nothing when nobody hears it; otherwise what the windows show is read at
  once, and the account when the spawned task decides.
\<close>

definition raise_notice ::
  "json_text \<Rightarrow> connection set \<Rightarrow> (cid \<Rightarrow> (utext \<times> utext option) option) \<Rightarrow> (cid \<Rightarrow> cid \<Rightarrow> utext option) \<Rightarrow>
   cid \<Rightarrow> notice_source \<Rightarrow> notice_hub \<Rightarrow> kv \<Rightarrow> native_notice option \<times> notice_hub \<times> kv" where
  "raise_notice J clients accounts names account source h s =
     (if \<not> is_heard clients h then (None, h, s)
      else let (focused, h) = focused_on clients account h;
               (ctx, s) = notice_context J accounts account focused s
           in (Option.bind ctx (decide_notice (named_source (names account) source)), h, s))"

section \<open>The account rows (raise.rs)\<close>

record account_row =
  ar_cid :: cid
  ar_username :: utext
  ar_server_host :: "utext option"
  ar_unread :: nat
  ar_muted :: bool

text \<open>\<^verbatim>\<open>unread_count.max(0.0) as u32\<close>, and the sum, whose overflow panics.\<close>

definition unread_of :: "metadata \<Rightarrow> nat" where
  "unread_of md = min u32_max (f64_as_usize (f64_max (md_unread_count md) f64_zero))"

fun sum_u32 :: "nat list \<Rightarrow> nat \<Rightarrow> nat option" where
  "sum_u32 [] acc = Some acc"
| "sum_u32 (x # xs) acc = (if acc + x \<le> u32_max then sum_u32 xs (acc + x) else None)"

text \<open>
  One row per connected account, in the map's order; an unreadable list counts as nothing unread.
  \<^verbatim>\<open>order\<close> is the order in which the store names its keys.
\<close>

fun notice_rows :: "(cid \<Rightarrow> store) \<Rightarrow> string list \<Rightarrow> (cid \<times> utext \<times> utext option) list \<Rightarrow> account_row list kvm" where
  "notice_rows st order [] s = (KOk [], s)"
| "notice_rows st order ((c, user, host) # accounts) s =
     (let (r, s) = list_conversations (st c) order s
      in case (case r of KOk mds \<Rightarrow> sum_u32 (map unread_of mds) 0 | KErr _ \<Rightarrow> Some 0 | KPanic \<Rightarrow> None) of
           None \<Rightarrow> (KPanic, s)
         | Some unread \<Rightarrow>
             (let (muted, s) = is_muted c s
              in case notice_rows st order accounts s of
                   (KOk rows, s) \<Rightarrow>
                     (KOk (\<lparr>ar_cid = c, ar_username = user, ar_server_host = host, ar_unread = unread,
                            ar_muted = muted\<rparr> # rows), s)
                 | (KErr e, s) \<Rightarrow> (KErr e, s)
                 | (KPanic, s) \<Rightarrow> (KPanic, s)))"

definition rows_changed ::
  "(cid \<Rightarrow> store) \<Rightarrow> string list \<Rightarrow> connection set \<Rightarrow> (cid \<times> utext \<times> utext option) list \<Rightarrow> notice_hub \<Rightarrow>
   (account_row list option) kvm" where
  "rows_changed st order clients accounts h =
     (if \<not> is_heard clients h then kret None
      else kbind (notice_rows st order accounts) (\<lambda>rows. kret (Some rows)))"

section \<open>Characters\<close>

lemma take_chars_prefix: "\<exists>t. bs = take_chars n bs @ t"
proof (induction n bs rule: take_chars.induct)
  case (3 n b bs)
  then obtain t where "dropWhile continuation bs = take_chars n (dropWhile continuation bs) @ t" by blast
  then have "takeWhile continuation bs @ dropWhile continuation bs =
      takeWhile continuation bs @ take_chars n (dropWhile continuation bs) @ t" by simp
  then show ?case by auto
qed auto

definition char_count :: "utext \<Rightarrow> nat" where
  "char_count bs = length (filter (\<lambda>b. \<not> continuation b) bs)"

lemma not_cont_takeWhile: "filter (\<lambda>b. \<not> continuation b) (takeWhile continuation bs) = []"
  by (induction bs) auto

lemma take_chars_count: "char_count (take_chars n bs) \<le> n"
proof (induction n bs rule: take_chars.induct)
  case (3 n b bs)
  then show ?case by (auto simp: char_count_def not_cont_takeWhile)
qed (simp_all add: char_count_def)

text \<open>A character is cut off whole: what is left of a text is a text.\<close>

lemma utf8_head: "utf8_ok bs \<Longrightarrow> takeWhile continuation bs = [] \<and> dropWhile continuation bs = bs"
  by (cases bs) (auto simp: continuation_def Let_def split: if_splits)

lemma utf8_split:
  assumes "utf8_ok (b # bs)"
  shows "\<exists>cs rest. bs = cs @ rest \<and> list_all continuation cs \<and> utf8_ok rest \<and> (\<forall>r. utf8_ok (b # cs @ r) \<longleftrightarrow> utf8_ok r)"
proof -
  have split: ?thesis if "bs = cs @ rest" "list_all continuation cs" "utf8_ok rest"
      "\<And>r. utf8_ok (b # cs @ r) \<longleftrightarrow> utf8_ok r" for cs rest
    using that by blast
  show ?thesis
  proof (cases "unat b < 0x80")
    case True
    with assms show ?thesis by (intro split [of "[]" bs]) simp_all
  next
    case one: False
    show ?thesis
    proof (cases "0xc2 \<le> unat b \<and> unat b \<le> 0xdf")
      case True
      with assms one obtain c rest where "bs = c # rest" "continuation c" "utf8_ok rest"
        by (cases bs) (simp_all add: Let_def)
      with True one show ?thesis by (intro split [of "[c]" rest]) simp_all
    next
      case two: False
      show ?thesis
      proof (cases "0xe0 \<le> unat b \<and> unat b \<le> 0xef")
        case True
        with assms one two obtain c d rest where "bs = c # d # rest" "continuation c" "continuation d" "utf8_ok rest"
            "unat b = 0xe0 \<longrightarrow> 0xa0 \<le> unat c" "unat b = 0xed \<longrightarrow> unat c \<le> 0x9f"
          by (cases bs; cases "tl bs") (simp_all add: Let_def)
        with True one two show ?thesis by (intro split [of "[c, d]" rest]) (simp_all add: Let_def)
      next
        case three: False
        with assms one two have "0xf0 \<le> unat b \<and> unat b \<le> 0xf4" by (simp add: Let_def split: if_splits)
        with assms one two three obtain c d e rest where "bs = c # d # e # rest" "continuation c" "continuation d"
            "continuation e" "utf8_ok rest" "unat b = 0xf0 \<longrightarrow> 0x90 \<le> unat c" "unat b = 0xf4 \<longrightarrow> unat c \<le> 0x8f"
          by (cases bs; cases "tl bs"; cases "tl (tl bs)") (simp_all add: Let_def)
        with \<open>0xf0 \<le> unat b \<and> unat b \<le> 0xf4\<close> one two three show ?thesis
          by (intro split [of "[c, d, e]" rest]) (simp_all add: Let_def)
      qed
    qed
  qed
qed

lemma utf8_append: "utf8_ok xs \<Longrightarrow> utf8_ok ys \<Longrightarrow> utf8_ok (xs @ ys)"
proof (induction xs rule: length_induct)
  case (1 xs)
  show ?case
  proof (cases xs)
    case (Cons b bs)
    then obtain cs rest where s: "bs = cs @ rest" "utf8_ok rest" "\<forall>r. utf8_ok (b # cs @ r) \<longleftrightarrow> utf8_ok r"
      using utf8_split [of b bs] 1(2) by blast
    then have "utf8_ok (rest @ ys)" using 1 Cons by simp
    with s Cons show ?thesis by simp
  qed (use 1 in simp)
qed

lemma utf8_char:
  assumes "utf8_ok (b # bs)"
  shows "utf8_ok (dropWhile continuation bs)" and "utf8_ok rest \<Longrightarrow> utf8_ok (b # takeWhile continuation bs @ rest)"
proof -
  obtain cs tl where s: "bs = cs @ tl" "list_all continuation cs" "utf8_ok tl" "\<forall>r. utf8_ok (b # cs @ r) \<longleftrightarrow> utf8_ok r"
    using utf8_split [OF assms] by blast
  have "takeWhile continuation bs = cs" "dropWhile continuation bs = tl"
    using s(1,2) utf8_head [OF s(3)] by (simp_all add: list_all_iff takeWhile_append2 dropWhile_append2)
  with s(3,4) show "utf8_ok (dropWhile continuation bs)" "utf8_ok rest \<Longrightarrow> utf8_ok (b # takeWhile continuation bs @ rest)"
    by simp_all
qed

lemma take_chars_utf8: "utf8_ok bs \<Longrightarrow> utf8_ok (take_chars n bs)"
proof (induction n bs rule: take_chars.induct)
  case (3 n b bs)
  with utf8_char [OF 3(2)] show ?case by simp
qed auto

section \<open>What a notice may say and to whom\<close>

lemma decide_noticeE:
  assumes "decide_notice source ctx = Some n"
  shows "nn_kind n = fst (kind_and_peer source)" "nn_cid n = nc_cid ctx" "\<not> shown_already source ctx"
    "nc_muted ctx \<Longrightarrow> fst (kind_and_peer source) = KIncomingCall"
    "(nn_title n, nn_body n, nt_open (nn_target n)) = wording source (nc_preview ctx = PreviewText)"
    "nt_account (nn_target n) = nc_account ctx" "nt_server_host (nn_target n) = nc_server_host ctx"
  using assms by (auto simp: decide_notice_def Let_def split: prod.splits if_splits)

text \<open>The texts a peer sent: the message and the file's name.\<close>

fun with_content :: "notice_source \<Rightarrow> utext \<Rightarrow> notice_source" where
  "with_content (NMessage peer name _) t = NMessage peer name t"
| "with_content (NFileOffer peer name _) t = NFileOffer peer name t"
| "with_content s t = s"

lemma wording_hidden: "wording (with_content source t) False = wording source False"
  by (cases source) (simp_all add: wording_def)

lemma wording_open: "snd (snd (wording (with_content source t) p)) = snd (snd (wording source p))"
  by (cases source) (simp_all add: wording_def)

lemma shown_content: "shown_already (with_content source t) ctx = shown_already source ctx"
  "kind_and_peer (with_content source t) = kind_and_peer source"
  by (cases source; simp add: shown_already_def)+

lemma xor_zero: "xor a b = 0 \<longleftrightarrow> a = b" for a b :: octet
proof
  assume "xor a b = 0"
  then have "xor (xor a b) b = b" by simp
  then show "a = b" by (simp add: xor.assoc)
qed simp

lemma differences_zero: "length xs = length ys \<Longrightarrow> differences xs ys = 0 \<longleftrightarrow> xs = ys"
proof -
  have acc: "foldl (\<lambda>d (a, b). or d (xor a b)) d (zip xs ys) = 0 \<longleftrightarrow> d = 0 \<and> xs = ys"
    if "length xs = length ys" for d :: octet and xs ys
    using that
  proof (induction xs ys arbitrary: d rule: list_induct2)
    case (Cons x xs y ys)
    then show ?case by (auto simp: or_eq_0_iff xor_zero)
  qed simp
  assume "length xs = length ys"
  from acc [OF this, of 0] show ?thesis by (simp add: differences_def)
qed

lemma named_content: "named_source name (with_content source t) = with_content (named_source name source) t"
  by (cases source) (auto simp: named_source_def split: option.splits)

lemma decide_content:
  "nc_preview ctx \<noteq> PreviewText \<Longrightarrow> decide_notice (with_content source t) ctx = decide_notice source ctx"
  by (simp add: decide_notice_def shown_content wording_hidden Let_def split: prod.split)

lemma decide_target: "map_option nn_target (decide_notice (with_content source t) ctx) = map_option nn_target (decide_notice source ctx)"
  using wording_open [of source t "nc_preview ctx = PreviewText"]
  by (auto simp: decide_notice_def shown_content Let_def split: prod.splits)

lemma kind_named: "kind_and_peer (named_source name source) = kind_and_peer source"
  by (cases source) (auto simp: named_source_def split: option.splits)

text \<open>What was saved, and no other setting, is read back as long as the record stands.\<close>

lemma saved_read:
  assumes "json_text_ok J" and "list_all retention_ok (pr_retention p)"
    and "save_preferences J c p s = (KOk (), s')" and "kv_map s1 (preferences_key c) = kv_map s' (preferences_key c)"
    and "preferences J c s1 = (r, s2)"
  shows "r = KOk p \<or> (\<forall>q. r \<noteq> KOk q)"
proof -
  obtain b where b: "jt_print J (preferences_json p) = Some b" "jt_parse J b = Some (preferences_json p)"
    using assms(1) preferences_whole [OF assms(2)] json_within_mono [OF preferences_within, of 127]
    by (auto simp: json_text_ok_def)
  have "kv_map s' (preferences_key c) = Some b"
    using assms(3) b(1)
    by (auto simp: save_preferences_def print_json_def kbind_def klift_def kv_set_def kv_put_def next_fault_def
        split: list.splits fault.splits)
  with assms(4,5) b(2) preferences_back [OF assms(2)] show ?thesis
    by (auto simp: preferences_def kbind_def klift_def parse_json_def kv_get_def next_fault_def
        split: list.splits fault.splits)
qed

lemma is_muted_run:
  assumes "is_muted c s = (muted, s')" and "kv_map s (muted_key c) = Some [1]"
  shows "muted \<or> kv_faults s \<noteq> []"
  using assms by (auto simp: is_muted_def kv_get_def next_fault_def split: list.splits fault.splits)

lemma hm_get_in: "hm_get m k = Some v \<Longrightarrow> (k, v) \<in> set m"
  by (induction m k rule: hm_get.induct) (auto split: if_splits)

lemma focused_on_shows:
  "hm_get (nh_focus h) c = Some (account, shown) \<Longrightarrow> c \<in> clients \<Longrightarrow> shown \<in> set (fst (focused_on clients account h))"
  by (drule hm_get_in) (force simp: focused_on_def Let_def hm_retain_def)

lemma raise_noticeE:
  assumes "raise_notice J clients accounts names account source h s = (Some n, h', s')"
  obtains ctx where "is_heard clients h" "fst (notice_context J accounts account (fst (focused_on clients account h)) s) = Some ctx"
    "decide_notice (named_source (names account) source) ctx = Some n"
  using assms by (auto simp: raise_notice_def Let_def bind_eq_Some_conv split: if_splits prod.splits)

section \<open>Properties\<close>

text \<open>
  C21. An account set to show only the sender is never given away: as long as the saved settings
  stand, whatever else the store holds and whichever of its calls fail, a notice raised for a message or a
  file offer is the same whatever the peer wrote or called the file.
\<close>

theorem notice_hides_content:
  assumes "json_text_ok J" and "list_all retention_ok (pr_retention p)" and "pr_preview p = SenderOnly"
    and "save_preferences J account p s0 = (KOk (), s1)"
    and "kv_map s (preferences_key account) = kv_map s1 (preferences_key account)"
  shows "raise_notice J clients accounts names account (with_content source t) h s =
    raise_notice J clients accounts names account source h s"
proof -
  obtain r s2 where r: "preferences J account s = (r, s2)" by fastforce
  from saved_read [OF assms(1,2,4,5) this]
  have "pr_preview (case r of KOk p \<Rightarrow> p | _ \<Rightarrow> UI_DEFAULTS) \<noteq> PreviewText"
    using assms(3) by (cases r) (auto simp: UI_DEFAULTS_def)
  then have hidden: "nc_preview ctx \<noteq> PreviewText" if "fst (notice_context J accounts account f s) = Some ctx" for f ctx
    using that r by (auto simp: notice_context_def Let_def split: option.splits prod.splits)
  have "Option.bind (fst (notice_context J accounts account f s)) (decide_notice (with_content (named_source (names account) source) t)) =
      Option.bind (fst (notice_context J accounts account f s)) (decide_notice (named_source (names account) source))" for f
    using hidden [of f] decide_content by (cases "fst (notice_context J accounts account f s)") auto
  then show ?thesis
    by (auto simp: raise_notice_def Let_def named_content split: prod.splits)
     (metis fst_conv)
qed

theorem notice_hides_content_witness:
  "let s = snd (save_preferences text_codec 7 UI_DEFAULTS \<lparr>kv_map = \<lambda>_. None, kv_faults = []\<rparr>)
   in raise_notice text_codec {1} (\<lambda>_. Some (lit ''a'', None)) (\<lambda>_ _. None) 7 (NMessage 8 None (lit ''x''))
        (new_hub None 1) (s\<lparr>kv_faults := [Fault ''lost'' False]\<rparr>) =
      raise_notice text_codec {1} (\<lambda>_. Some (lit ''a'', None)) (\<lambda>_ _. None) 7 (NMessage 8 None (lit ''y''))
        (new_hub None 1) (s\<lparr>kv_faults := [Fault ''lost'' False]\<rparr>)"
proof -
  let ?s = "\<lparr>kv_map = \<lambda>_. None, kv_faults = []\<rparr> :: kv"
  have ok: "list_all retention_ok (pr_retention UI_DEFAULTS)" "pr_preview UI_DEFAULTS = SenderOnly"
    by (simp_all add: UI_DEFAULTS_def)
  obtain s1 where s1: "save_preferences text_codec 7 UI_DEFAULTS ?s = (KOk (), s1)"
    using preferences_saved [OF text_codec_ok ok(1), of ?s 7] by (auto simp: fine_def)
  show ?thesis
    using notice_hides_content [OF text_codec_ok ok s1, where s = "s1\<lparr>kv_faults := [Fault ''lost'' False]\<rparr>"
        and source = "NMessage 8 None (lit ''y'')" and t = "lit ''x''"] s1
    by (simp add: Let_def)
qed

text \<open>
  A notice is raised only when it is due: somebody hears it, it is for a connected account and
  names that account and its server, the user has not the thing in front of them (for a message or a file
  the conversation with its sender, for anything else any window of the account), and the account is
  not muted unless it is a call.
\<close>

theorem notice_only_when_due:
  assumes "raise_notice J clients accounts names account source h s = (Some n, h', s')"
  shows "is_heard clients h \<and> nn_cid n = account \<and>
    accounts account = Some (nt_account (nn_target n), nt_server_host (nn_target n)) \<and>
    (\<forall>c shown. hm_get (nh_focus h) c = Some (account, shown) \<and> c \<in> clients \<longrightarrow>
      nn_kind n \<in> {KMessage, KFileOffer} \<and> shown \<noteq> Some (snd (kind_and_peer source))) \<and>
    (kv_map s (muted_key account) = Some [1] \<and> kv_faults s = [] \<longrightarrow> nn_kind n = KIncomingCall)"
proof -
  let ?focused = "fst (focused_on clients account h)"
  obtain ctx where heard: "is_heard clients h"
      and c: "fst (notice_context J accounts account ?focused s) = Some ctx"
      and d: "decide_notice (named_source (names account) source) ctx = Some n"
    using assms by (rule raise_noticeE)
  note n = decide_noticeE [OF d, unfolded kind_named]
  have acc: "accounts account = Some (nc_account ctx, nc_server_host ctx)" "nc_cid ctx = account" "nc_focused ctx = ?focused"
    using c by (auto simp: notice_context_def Let_def split: option.splits prod.splits)
  have muted: "nc_muted ctx" if "kv_map s (muted_key account) = Some [1]" "kv_faults s = []"
  proof -
    obtain r s2 where r: "preferences J account s = (r, s2)" by fastforce
    then have "kv_faults s2 = []" "kv_map s2 = kv_map s"
      using that(2) by (auto simp: preferences_def kbind_def klift_def kv_get_def kret_def next_fault_def
          split: option.splits sum.splits)
    with that is_muted_run [of account s2] r c show ?thesis
      by (auto simp: notice_context_def Let_def split: option.splits prod.splits)
  qed
  have shown: "nn_kind n \<in> {KMessage, KFileOffer} \<and> shown \<noteq> Some (snd (kind_and_peer source))"
    if "hm_get (nh_focus h) k = Some (account, shown)" "k \<in> clients" for k shown
    using focused_on_shows [OF that] n(1,3) acc(3)
    by (cases source) (auto simp: shown_already_def named_source_def split: option.splits)
  show ?thesis using heard acc n muted shown by auto
qed

theorem notice_only_when_due_witness:
  "\<exists>n h' s'. raise_notice text_codec {1} (\<lambda>_. Some (lit ''a'', None)) (\<lambda>_ _. None) 7 (NMessage 8 None (lit ''x''))
      (subscribe 1 (new_hub None 0)) \<lparr>kv_map = \<lambda>_. None, kv_faults = []\<rparr> = (Some n, h', s') \<and>
    is_heard {1} (subscribe 1 (new_hub None 0)) \<and> nn_cid n = 7"
proof -
  let ?r = "raise_notice text_codec {1} (\<lambda>_. Some (lit ''a'', None)) (\<lambda>_ _. None) 7 (NMessage 8 None (lit ''x''))
      (subscribe 1 (new_hub None 0)) \<lparr>kv_map = \<lambda>_. None, kv_faults = []\<rparr>"
  have "fst ?r \<noteq> None"
    by (simp add: raise_notice_def is_heard_def subscribe_def new_hub_def focused_on_def hm_retain_def notice_context_def
        preferences_def is_muted_def kbind_def kret_def kv_get_def next_fault_def named_source_def decide_notice_def shown_already_def
        Let_def split: prod.split)
  then obtain n h' s' where "?r = (Some n, h', s')" by (cases ?r) auto
  with notice_only_when_due [OF this] show ?thesis by blast
qed

end
