(* ===== verification/Conversation_Engine.thy ===== *)
theory Conversation_Engine
  imports Notices Conversation_Safety
begin

text \<open>
  The conversation engine (\<^verbatim>\<open>kernel/conversations/{engine,envelope,inbound,inbound_notice,outbound,
  outbound_more,requests,requests_read,retention}.rs\<close>): what the agent does with a command a peer
  sent, with a window's request, and in a retention sweep, over the conversation store.

  A computation runs on the engine's state: the key-value store, the event numbers and what was
  sent out, in order. What the agent around it answers (the clock, fresh identifiers, names, whether
  a send succeeded, how many windows took a response) is the record \<^verbatim>\<open>env\<close>, each answer a function
  of how many calls were made before it, so that it may change from call to call. A computation
  returns, fails with the error of an early return, or panics. The lock of a conversation is held
  across each store operation of it, so a handler's operations on it are those of one holder.
\<close>

section \<open>Events, effects and the monad\<close>

datatype event_kind = Appended | Updated | Removed | Cleared | Expired | MetadataChanged

type_synonym uuid = "128 word"

record conversation_event =
  ev_cid :: cid
  ev_peer_cid :: cid
  ev_seq :: nat
  ev_kind :: event_kind
  ev_message :: "conv_message option"
  ev_message_id :: "utext option"
  ev_metadata :: "metadata option"
  ev_account_username :: utext
  ev_peer_username :: "utext option"
  ev_preview :: utext
  ev_request_id :: "uuid option"

record notification =
  n_cid :: cid
  n_peer_cid :: cid
  n_message :: "octet list"

datatype effect =
    Publish conversation_event
  | Forward notification
  | SendP2p cid cid "octet list"
  | RaiseNotice cid notice_source
  | RowsChanged

datatype engine_error =
    StoreError kv_error | NoMessage utext | OnlyFailed | OnlySender | SendFailed utext
  | SavedNotSent utext | RecordParties | NotToClear | NotARead uuid

datatype 'a eres = EOk 'a | EErr engine_error | EPanic

record engine =
  eng_kv :: kv
  eng_seq :: "(cid, nat) hmap"
  eng_calls :: nat
  eng_out :: "effect list"

record env =
  now_ms :: "nat \<Rightarrow> f64"
  new_id :: "nat \<Rightarrow> utext"
  account_username :: "nat \<Rightarrow> cid \<Rightarrow> utext"
  peer_username :: "nat \<Rightarrow> cid \<Rightarrow> cid \<Rightarrow> utext option"
  knows_peer :: "nat \<Rightarrow> cid \<Rightarrow> cid \<Rightarrow> bool"
  send_error :: "nat \<Rightarrow> utext option"
  takers :: "nat \<Rightarrow> nat"
  io_json :: json_text
  io_nans :: nan_choice

type_synonym 'a em = "engine \<Rightarrow> 'a eres \<times> engine"

definition eret :: "'a \<Rightarrow> 'a em" where "eret x s = (EOk x, s)"
definition efail :: "engine_error \<Rightarrow> 'a em" where "efail e s = (EErr e, s)"
definition epanic :: "'a em" where "epanic s = (EPanic, s)"

definition ebind :: "'a em \<Rightarrow> ('a \<Rightarrow> 'b em) \<Rightarrow> 'b em" where
  "ebind m f s =
     (case m s of
        (EOk x, s) \<Rightarrow> f x s
      | (EErr e, s) \<Rightarrow> (EErr e, s)
      | (EPanic, s) \<Rightarrow> (EPanic, s))"

text \<open>A call of the store, its error a value; and one whose error is returned.\<close>

definition call_store :: "'a kvm \<Rightarrow> (kv_error + 'a) em" where
  "call_store m s =
     (case m (eng_kv s) of
        (KOk x, kv) \<Rightarrow> (EOk (Inr x), s\<lparr>eng_kv := kv\<rparr>)
      | (KErr e, kv) \<Rightarrow> (EOk (Inl e), s\<lparr>eng_kv := kv\<rparr>)
      | (KPanic, kv) \<Rightarrow> (EPanic, s\<lparr>eng_kv := kv\<rparr>))"

definition try_store :: "'a kvm \<Rightarrow> 'a em" where
  "try_store m = ebind (call_store m) (\<lambda>r. case r of Inl e \<Rightarrow> efail (StoreError e) | Inr x \<Rightarrow> eret x)"

definition ask :: "(nat \<Rightarrow> 'a) \<Rightarrow> 'a em" where
  "ask f s = (EOk (f (eng_calls s)), s\<lparr>eng_calls := Suc (eng_calls s)\<rparr>)"

definition emit :: "effect \<Rightarrow> unit em" where "emit e s = (EOk (), s\<lparr>eng_out := eng_out s @ [e]\<rparr>)"

definition send_p2p :: "env \<Rightarrow> cid \<Rightarrow> cid \<Rightarrow> octet list \<Rightarrow> utext option em" where
  "send_p2p io c peer bytes = ebind (emit (SendP2p c peer bytes)) (\<lambda>_. ask (send_error io))"

section \<open>The engine (engine.rs, envelope.rs)\<close>

record change =
  ch_kind :: event_kind
  ch_message :: "conv_message option"
  ch_message_id :: "utext option"
  ch_metadata :: "metadata option"
  ch_request_id :: "uuid option"

definition change_message :: "event_kind \<Rightarrow> conv_message \<Rightarrow> change" where
  "change_message kind m =
     \<lparr>ch_kind = kind, ch_message = Some m, ch_message_id = Some (m_id m), ch_metadata = None, ch_request_id = None\<rparr>"

definition change_only :: "event_kind \<Rightarrow> metadata option \<Rightarrow> change" where
  "change_only kind md =
     \<lparr>ch_kind = kind, ch_message = None, ch_message_id = None, ch_metadata = md, ch_request_id = None\<rparr>"

definition io_store :: "env \<Rightarrow> cid \<Rightarrow> store" where
  "io_store io c = \<lparr>st_own = c, st_json = io_json io, st_nans = io_nans io\<rparr>"

text \<open>The metadata, or nothing when there is none or it cannot be read.\<close>

definition metadata_if_any :: "env \<Rightarrow> cid \<Rightarrow> cid \<Rightarrow> metadata option em" where
  "metadata_if_any io c peer =
     ebind (call_store (load_metadata (io_store io c) peer)) (\<lambda>r.
       eret (case r of Inl _ \<Rightarrow> None | Inr md \<Rightarrow> md))"

text \<open>\<^verbatim>\<open>*next += 1\<close>: the number after an account's last event; overflow panics.\<close>

definition next_seq :: "cid \<Rightarrow> nat em" where
  "next_seq c s =
     (case checked_add u64_max (case hm_get (eng_seq s) c of Some n \<Rightarrow> n | None \<Rightarrow> 0) 1 of
        None \<Rightarrow> (EPanic, s)
      | Some n \<Rightarrow> (EOk n, s\<lparr>eng_seq := hm_insert c n (eng_seq s)\<rparr>))"

definition preview_of :: "change \<Rightarrow> utext" where
  "preview_of ch =
     (case (ch_kind ch, ch_message ch) of
        (Appended, Some m) \<Rightarrow> take_chars PREVIEW_CHARS (m_content m)
      | _ \<Rightarrow> [])"

definition announce :: "env \<Rightarrow> cid \<Rightarrow> cid \<Rightarrow> change \<Rightarrow> unit em" where
  "announce io c peer ch =
     ebind (case ch_metadata ch of Some md \<Rightarrow> eret (Some md) | None \<Rightarrow> metadata_if_any io c peer) (\<lambda>md.
     ebind (next_seq c) (\<lambda>seq.
     ebind (ask (\<lambda>t. account_username io t c)) (\<lambda>account.
     ebind (emit (Publish \<lparr>ev_cid = c, ev_peer_cid = peer, ev_seq = seq, ev_kind = ch_kind ch,
         ev_message = ch_message ch, ev_message_id = ch_message_id ch, ev_metadata = md,
         ev_account_username = account, ev_peer_username = Option.bind md md_peer_username,
         ev_preview = preview_of ch, ev_request_id = ch_request_id ch\<rparr>)) (\<lambda>_.
       emit RowsChanged))))"

definition received_message :: "envelope \<Rightarrow> utext \<Rightarrow> f64 \<Rightarrow> conv_message" where
  "received_message e contents timestamp =
     \<lparr>m_id = e_message_id e, m_content = contents, m_sender_cid = e_sender_cid e,
      m_recipient_cid = e_recipient_cid e, m_timestamp = timestamp, m_index = e_index e,
      m_status = StPending, m_error = None, m_reply_to = e_reply_to e, m_edited_at = None,
      m_reactions = None, m_mentions = e_mentions e, m_attachments = e_attachments e,
      m_message_type = e_message_type e, m_document_id = e_document_id e,
      m_document_title = e_document_title e, m_transfer_id = None, m_file_name = None,
      m_file_size = None, m_file_type = None, m_file_thumbnail = None, m_transfer_mode = None,
      m_transfer_state = None, m_transfer_progress = None, m_virtual_path = None\<rparr>"

definition raw_envelope :: "env \<Rightarrow> cid \<Rightarrow> cid \<Rightarrow> envelope em" where
  "raw_envelope io c peer =
     ebind (metadata_if_any io c peer) (\<lambda>md.
     ebind (ask (new_id io)) (\<lambda>i.
       eret \<lparr>e_sender_cid = c, e_recipient_cid = peer, e_message_id = i,
             e_index = (case md of None \<Rightarrow> f64_zero | Some md \<Rightarrow> md_last_message_index md),
             e_reply_to = None, e_mentions = None, e_attachments = None, e_message_type = TextType,
             e_document_id = None, e_document_title = None\<rparr>))"

section \<open>What a peer sent (inbound.rs, inbound\_notice.rs)\<close>

text \<open>The append of a message of the peer's, and its announcement; the notice and receipt around it.\<close>

definition announce_appended :: "env \<Rightarrow> cid \<Rightarrow> cid \<Rightarrow> conv_message \<Rightarrow> metadata \<Rightarrow> uuid option \<Rightarrow> unit em" where
  "announce_appended io c peer m md request =
     announce io c peer ((change_message Appended m)\<lparr>ch_metadata := Some md, ch_request_id := request\<rparr>)"

definition append_and_name :: "env \<Rightarrow> cid \<Rightarrow> cid \<Rightarrow> conv_message \<Rightarrow> utext option \<Rightarrow> (kv_error + metadata option) em" where
  "append_and_name io c peer m username =
     ebind (ask (now_ms io)) (\<lambda>now.
     ebind (call_store (append_message (io_store io c) peer m username now)) (\<lambda>appended.
     case (appended, username) of
       (Inr _, Some name) \<Rightarrow>
         ebind (ask (now_ms io)) (\<lambda>now.
         ebind (call_store (set_peer_username (io_store io c) peer name now)) (\<lambda>_. eret appended))
     | _ \<Rightarrow> eret appended))"

definition store_and_ack :: "env \<Rightarrow> cid \<Rightarrow> cid \<Rightarrow> conv_message \<Rightarrow> bool em" where
  "store_and_ack io c peer m =
     ebind (ask (\<lambda>t. peer_username io t c peer)) (\<lambda>username.
     ebind (append_and_name io c peer m username) (\<lambda>appended.
     case appended of
       Inl _ \<Rightarrow> eret False
     | Inr added \<Rightarrow>
         ebind (ask (now_ms io)) (\<lambda>now.
         ebind (send_p2p io c peer (ack Delivered (m_id m) now)) (\<lambda>_.
         case added of
           None \<Rightarrow> eret True
         | Some md \<Rightarrow>
             ebind (if m_message_type m = TextType \<or> m_message_type m = Markdown
                    then emit (RaiseNotice c (NMessage peer username (m_content m))) else eret ()) (\<lambda>_.
             ebind (announce_appended io c peer m md None) (\<lambda>_. eret True))))))"

definition incoming_message :: "cid \<Rightarrow> cid \<Rightarrow> envelope \<Rightarrow> utext \<Rightarrow> f64 \<Rightarrow> conv_message" where
  "incoming_message c peer e contents timestamp =
     (received_message e contents timestamp)\<lparr>m_sender_cid := peer, m_recipient_cid := c, m_status := StDelivered\<rparr>"

definition incoming :: "env \<Rightarrow> cid \<Rightarrow> cid \<Rightarrow> envelope \<Rightarrow> utext \<Rightarrow> f64 \<Rightarrow> bool em" where
  "incoming io c peer e contents timestamp =
     ebind (call_store (preferences (io_json io) c)) (\<lambda>r.
     case r of
       Inl _ \<Rightarrow> eret False
     | Inr prefs \<Rightarrow>
         ebind (if pr_accept_strangers prefs then eret True else ask (\<lambda>t. knows_peer io t c peer)) (\<lambda>welcome.
           if \<not> welcome then eret True
           else store_and_ack io c peer (incoming_message c peer e contents timestamp)))"

definition screenshot_message :: "cid \<Rightarrow> cid \<Rightarrow> envelope \<Rightarrow> utext \<Rightarrow> f64 \<Rightarrow> conv_message" where
  "screenshot_message c peer e name at =
     (received_message e (name @ lit '' may have taken a screenshot'') at)
       \<lparr>m_sender_cid := peer, m_recipient_cid := c, m_status := StDelivered, m_message_type := SystemNotice\<rparr>"

definition screenshot :: "env \<Rightarrow> cid \<Rightarrow> cid \<Rightarrow> envelope \<Rightarrow> f64 option \<Rightarrow> bool em" where
  "screenshot io c peer e taken_at =
     ebind (call_store (preferences (io_json io) c)) (\<lambda>r.
     case r of
       Inl _ \<Rightarrow> eret False
     | Inr prefs \<Rightarrow>
         if \<not> pr_notify_on_screenshot prefs then eret True
         else
           ebind (metadata_if_any io c peer) (\<lambda>md.
           let name = (case Option.bind md md_peer_username of Some n \<Rightarrow> n | None \<Rightarrow> show_cid peer)
           in ebind (case taken_at of Some t \<Rightarrow> eret t | None \<Rightarrow> ask (now_ms io)) (\<lambda>at.
              let m = screenshot_message c peer e name at
              in ebind (ask (now_ms io)) (\<lambda>now.
                 ebind (call_store (append_message (io_store io c) peer m None now)) (\<lambda>appended.
                 case appended of
                   Inl _ \<Rightarrow> eret False
                 | Inr None \<Rightarrow> eret True
                 | Inr (Some md) \<Rightarrow> ebind (announce_appended io c peer m md None) (\<lambda>_. eret True))))))"

definition applied :: "event_kind \<Rightarrow> revised \<Rightarrow> change option" where
  "applied kind r =
     (case r of
        Applied m \<Rightarrow> Some (change_message kind m)
      | NotSender \<Rightarrow> None
      | UnknownMessage \<Rightarrow> None)"

fun status_of :: "ack_kind \<Rightarrow> message_status" where
  "status_of Delivered = StDelivered"
| "status_of ReadAck = StRead"
| "status_of FailedAck = StFailed"

definition revision_change :: "store \<Rightarrow> cid \<Rightarrow> inbound \<Rightarrow> f64 \<Rightarrow> change option kvm" where
  "revision_change st peer command now =
     (case command of
        Edit target contents edited_at \<Rightarrow>
          kbind (revise_message st peer target peer (ReviseEdit contents edited_at) now) (\<lambda>r. kret (applied Updated r))
      | Delete target \<Rightarrow>
          kbind (revise_message st peer target peer ReviseDelete now) (\<lambda>r. kret (applied Removed r))
      | ReactionCmd target emoji active at \<Rightarrow>
          kbind (react_message st peer target
              \<lparr>r_emoji = emoji, r_cid = peer, r_at = at, r_active = active\<rparr>) (\<lambda>m.
            kret (map_option (change_message Updated) m))
      | Ack kind i \<Rightarrow>
          kbind (set_status st peer i (status_of kind) None) (\<lambda>m. kret (map_option (change_message Updated) m))
      | _ \<Rightarrow> kret None)"

definition revision_inbound :: "env \<Rightarrow> cid \<Rightarrow> cid \<Rightarrow> inbound \<Rightarrow> bool em" where
  "revision_inbound io c peer command =
     ebind (ask (now_ms io)) (\<lambda>now.
     case command of
       Screenshot e taken_at \<Rightarrow> screenshot io c peer e taken_at
     | _ \<Rightarrow>
         ebind (call_store (revision_change (io_store io c) peer command now)) (\<lambda>r.
         case r of
           Inl _ \<Rightarrow> eret False
         | Inr None \<Rightarrow> eret True
         | Inr (Some ch) \<Rightarrow> ebind (announce io c peer ch) (\<lambda>_. eret True)))"

definition forward :: "env \<Rightarrow> notification \<Rightarrow> nat em" where
  "forward io n = ebind (emit (Forward n)) (\<lambda>_. ask (takers io))"

definition delivered :: "env \<Rightarrow> notification \<Rightarrow> bool em" where
  "delivered io n =
     (let c = n_cid n; peer = n_peer_cid n
      in case read_command (io_nans io) (n_message n) of
           None \<Rightarrow> ebind (forward io n) (\<lambda>k. eret (0 < k))
         | Some ForAWindow \<Rightarrow> ebind (forward io n) (\<lambda>k. eret (0 < k))
         | Some Ephemeral \<Rightarrow>
             ebind (if is_call_invite (io_nans io) (n_message n)
                    then ebind (ask (\<lambda>t. peer_username io t c peer)) (\<lambda>name.
                           emit (RaiseNotice c (NIncomingCall peer name)))
                    else eret ()) (\<lambda>_.
             ebind (forward io n) (\<lambda>_. eret True))
         | Some CheckState \<Rightarrow>
             ebind (raw_envelope io c peer) (\<lambda>e.
             ebind (send_p2p io c peer (messaging_layer check_state_response e)) (\<lambda>_. eret True))
         | Some (Message e contents timestamp) \<Rightarrow> incoming io c peer e contents timestamp
         | Some other \<Rightarrow> revision_inbound io c peer other)"

section \<open>What a window asks for (outbound.rs, outbound\_more.rs)\<close>

record outgoing =
  out_content :: utext
  out_message_type :: message_type
  out_reply_to :: "utext option"
  out_mentions :: "utext list option"
  out_attachments :: "attachment list option"
  out_document_id :: "utext option"
  out_document_title :: "utext option"
  out_request_id :: "uuid option"

definition transmit :: "env \<Rightarrow> cid \<Rightarrow> cid \<Rightarrow> conv_message \<Rightarrow> envelope \<Rightarrow> conv_message option em" where
  "transmit io c peer m e =
     ebind (send_p2p io c peer (messaging_layer (message_layer (m_content m) (m_timestamp m)) e)) (\<lambda>er.
     ebind (try_store (set_status (io_store io c) peer (m_id m) (if er = None then StSent else StFailed) er)) (\<lambda>updated.
     ebind (case updated of Some m \<Rightarrow> announce io c peer (change_message Updated m) | None \<Rightarrow> eret ()) (\<lambda>_.
       case er of Some e \<Rightarrow> efail (SendFailed e) | None \<Rightarrow> eret updated)))"

definition outgoing_envelope :: "cid \<Rightarrow> cid \<Rightarrow> utext \<Rightarrow> f64 \<Rightarrow> outgoing \<Rightarrow> envelope" where
  "outgoing_envelope c peer i index out =
     \<lparr>e_sender_cid = c, e_recipient_cid = peer, e_message_id = i, e_index = index,
      e_reply_to = out_reply_to out, e_mentions = out_mentions out, e_attachments = out_attachments out,
      e_message_type = out_message_type out, e_document_id = out_document_id out,
      e_document_title = out_document_title out\<rparr>"

definition send_own :: "env \<Rightarrow> cid \<Rightarrow> cid \<Rightarrow> outgoing \<Rightarrow> conv_message option em" where
  "send_own io c peer out =
     ebind (try_store (load_metadata (io_store io c) peer)) (\<lambda>md.
     let index = f64_add (case md of None \<Rightarrow> f64_zero | Some md \<Rightarrow> md_last_message_index md) f64_one
     in ebind (ask (new_id io)) (\<lambda>i.
        let e = outgoing_envelope c peer i index out
        in ebind (ask (now_ms io)) (\<lambda>timestamp.
           let m = (received_message e (out_content out) timestamp)\<lparr>m_sender_cid := c, m_recipient_cid := peer\<rparr>
           in ebind (ask (\<lambda>t. peer_username io t c peer)) (\<lambda>username.
              ebind (ask (now_ms io)) (\<lambda>now.
              ebind (try_store (append_message (io_store io c) peer m username now)) (\<lambda>added.
              ebind (case added of
                       Some md \<Rightarrow> announce_appended io c peer m md (out_request_id out)
                     | None \<Rightarrow> eret ()) (\<lambda>_.
                transmit io c peer m e)))))))"

definition resent_envelope :: "cid \<Rightarrow> cid \<Rightarrow> conv_message \<Rightarrow> envelope" where
  "resent_envelope c peer m =
     \<lparr>e_sender_cid = c, e_recipient_cid = peer, e_message_id = m_id m, e_index = m_index m,
      e_reply_to = m_reply_to m, e_mentions = m_mentions m, e_attachments = m_attachments m,
      e_message_type = m_message_type m, e_document_id = m_document_id m,
      e_document_title = m_document_title m\<rparr>"

definition resend :: "env \<Rightarrow> cid \<Rightarrow> cid \<Rightarrow> utext \<Rightarrow> conv_message option em" where
  "resend io c peer i =
     ebind (try_store (find_message (io_store io c) peer i)) (\<lambda>found. case found of
         None \<Rightarrow> efail (NoMessage i)
       | Some (_, p, k) \<Rightarrow>
           (let m = pg_messages p ! k
            in if m_status m \<noteq> StFailed \<or> m_sender_cid m \<noteq> c then efail OnlyFailed
               else
                 ebind (try_store (set_status (io_store io c) peer i StPending None)) (\<lambda>pending.
                 ebind (case pending of
                          Some m \<Rightarrow> announce io c peer (change_message Updated m)
                        | None \<Rightarrow> eret ()) (\<lambda>_.
                   transmit io c peer m (resent_envelope c peer m)))))"

definition send_saved :: "env \<Rightarrow> cid \<Rightarrow> cid \<Rightarrow> cvalue \<Rightarrow> conv_message \<Rightarrow> conv_message option em" where
  "send_saved io c peer layer m =
     ebind (raw_envelope io c peer) (\<lambda>e.
     ebind (send_p2p io c peer (messaging_layer layer e)) (\<lambda>er.
       case er of Some e \<Rightarrow> efail (SavedNotSent e) | None \<Rightarrow> eret (Some m)))"

definition revise_own :: "env \<Rightarrow> cid \<Rightarrow> cid \<Rightarrow> utext \<Rightarrow> utext option \<Rightarrow> conv_message option em" where
  "revise_own io c peer i edit =
     ebind (ask (now_ms io)) (\<lambda>now.
     let (revision, layer, kind) =
           (case edit of
              Some contents \<Rightarrow> (ReviseEdit contents now, edit_layer i contents now, Updated)
            | None \<Rightarrow> (ReviseDelete, delete_layer i now, Removed))
     in ebind (try_store (revise_message (io_store io c) peer i c revision now)) (\<lambda>r.
        case r of
          NotSender \<Rightarrow> efail OnlySender
        | UnknownMessage \<Rightarrow> efail (NoMessage i)
        | Applied m \<Rightarrow>
            ebind (announce io c peer (change_message kind m)) (\<lambda>_. send_saved io c peer layer m)))"

definition react_own :: "env \<Rightarrow> cid \<Rightarrow> cid \<Rightarrow> utext \<Rightarrow> utext \<Rightarrow> bool \<Rightarrow> conv_message option em" where
  "react_own io c peer i emoji active =
     ebind (ask (now_ms io)) (\<lambda>at.
     ebind (try_store (react_message (io_store io c) peer i
         \<lparr>r_emoji = emoji, r_cid = c, r_at = at, r_active = active\<rparr>)) (\<lambda>changed.
       case changed of
         None \<Rightarrow> eret None
       | Some m \<Rightarrow>
           ebind (announce io c peer (change_message Updated m)) (\<lambda>_.
             send_saved io c peer (reaction_layer i emoji active at) m)))"

primrec read_receipts :: "env \<Rightarrow> cid \<Rightarrow> cid \<Rightarrow> bool \<Rightarrow> conv_message list \<Rightarrow> unit em" where
  "read_receipts io c peer send_receipts [] = eret ()"
| "read_receipts io c peer send_receipts (m # ms) =
     ebind (announce io c peer (change_message Updated m)) (\<lambda>_.
     ebind (if send_receipts
            then ebind (ask (now_ms io)) (\<lambda>now.
                 ebind (send_p2p io c peer (ack ReadAck (m_id m) now)) (\<lambda>_. eret ()))
            else eret ()) (\<lambda>_.
       read_receipts io c peer send_receipts ms))"

definition read_all :: "env \<Rightarrow> cid \<Rightarrow> cid \<Rightarrow> conv_message option em" where
  "read_all io c peer =
     ebind (ask (now_ms io)) (\<lambda>now.
     ebind (try_store (mark_read (io_store io c) peer now)) (\<lambda>(read, md).
     ebind (try_store (preferences (io_json io) c)) (\<lambda>prefs.
     ebind (read_receipts io c peer (pr_send_read_receipts prefs) read) (\<lambda>_.
     ebind (case md of
              Some md \<Rightarrow> announce io c peer (change_only MetadataChanged (Some md))
            | None \<Rightarrow> eret ()) (\<lambda>_.
       eret None)))))"

section \<open>Retention (retention.rs)\<close>

definition DAY_MS :: f64 where "DAY_MS = f64_of_nat False 86400000"

text \<open>\<^verbatim>\<open>f64::from(days) * DAY_MS\<close>: both factors are exact, so this is their product, rounded.\<close>

definition days_ms :: "nat \<Rightarrow> f64" where "days_ms days = f64_of_nat False (days * 86400000)"

primrec sweep_each :: "env \<Rightarrow> cid \<Rightarrow> peer_retention list \<Rightarrow> unit em" where
  "sweep_each io c [] = eret ()"
| "sweep_each io c (setting # settings) =
     ebind (case re_retention setting of
              Forever \<Rightarrow> eret ()
            | Days days \<Rightarrow>
                (let peer = re_peer_cid setting
                 in ebind (ask (now_ms io)) (\<lambda>now.
                    ebind (call_store (prune_older_than (io_store io c) peer (f64_sub now (days_ms days)) now)) (\<lambda>removed.
                      case removed of
                        Inl _ \<Rightarrow> eret ()
                      | Inr n \<Rightarrow> if n = 0 then eret () else announce io c peer (change_only Expired None)))))
       (\<lambda>_. sweep_each io c settings)"

definition sweep :: "env \<Rightarrow> cid \<Rightarrow> unit em" where
  "sweep io c =
     ebind (call_store (preferences (io_json io) c)) (\<lambda>r.
       case r of
         Inl _ \<Rightarrow> eret ()
       | Inr prefs \<Rightarrow> sweep_each io c (pr_retention prefs))"

section \<open>Requests (requests.rs, requests\_read.rs)\<close>

datatype conversation_request =
    ConversationSend uuid cid cid outgoing
  | ConversationResend uuid cid cid utext
  | ConversationEdit uuid cid cid utext utext
  | ConversationDelete uuid cid cid utext
  | ConversationReact uuid cid cid utext utext bool
  | ConversationMarkRead uuid cid cid
  | ConversationRecord uuid cid cid conv_message
  | ConversationPatch uuid cid cid utext message_patch
  | ConversationClear uuid cid cid bool
  | ConversationList uuid cid
  | ConversationPage uuid cid cid "nat option"
  | SetAccountPreferences uuid cid account_preferences
  | GetAccountPreferences uuid cid

datatype response =
    ConversationUpdated cid cid "conv_message option" uuid
  | ConversationFailure cid engine_error uuid
  | ConversationListed cid "metadata list" uuid
  | ConversationPaged cid cid "metadata option" "page option" uuid
  | AccountPreferencesIs cid account_preferences uuid

fun request_of :: "conversation_request \<Rightarrow> uuid \<times> cid" where
  "request_of (ConversationSend r c _ _) = (r, c)"
| "request_of (ConversationResend r c _ _) = (r, c)"
| "request_of (ConversationEdit r c _ _ _) = (r, c)"
| "request_of (ConversationDelete r c _ _) = (r, c)"
| "request_of (ConversationReact r c _ _ _ _) = (r, c)"
| "request_of (ConversationMarkRead r c _) = (r, c)"
| "request_of (ConversationRecord r c _ _) = (r, c)"
| "request_of (ConversationPatch r c _ _ _) = (r, c)"
| "request_of (ConversationClear r c _ _) = (r, c)"
| "request_of (ConversationList r c) = (r, c)"
| "request_of (ConversationPage r c _ _) = (r, c)"
| "request_of (SetAccountPreferences r c _) = (r, c)"
| "request_of (GetAccountPreferences r c) = (r, c)"

definition record_message :: "env \<Rightarrow> cid \<Rightarrow> cid \<Rightarrow> conv_message \<Rightarrow> conv_message option em" where
  "record_message io c peer m =
     (let parties = (m_sender_cid m, m_recipient_cid m)
      in if parties \<noteq> (c, peer) \<and> parties \<noteq> (peer, c) then efail RecordParties
         else
           ebind (ask (\<lambda>t. peer_username io t c peer)) (\<lambda>username.
           ebind (ask (now_ms io)) (\<lambda>now.
           ebind (try_store (append_message (io_store io c) peer m username now)) (\<lambda>added.
           ebind (case added of Some md \<Rightarrow> announce_appended io c peer m md None | None \<Rightarrow> eret ()) (\<lambda>_.
             eret (Some m))))))"

definition patch_stored :: "env \<Rightarrow> cid \<Rightarrow> cid \<Rightarrow> utext \<Rightarrow> message_patch \<Rightarrow> conv_message option em" where
  "patch_stored io c peer i patch =
     ebind (try_store (patch_message (io_store io c) peer i patch)) (\<lambda>changed.
     ebind (case changed of Some m \<Rightarrow> announce io c peer (change_message Updated m) | None \<Rightarrow> eret ()) (\<lambda>_.
       eret changed))"

definition clear_own :: "env \<Rightarrow> cid \<Rightarrow> cid \<Rightarrow> bool \<Rightarrow> conv_message option em" where
  "clear_own io c peer include_unattributed =
     ebind (try_store (delete_conversation (io_store io c) peer include_unattributed)) (\<lambda>deleted.
       if \<not> deleted then efail NotToClear
       else ebind (announce io c peer (change_only Cleared None)) (\<lambda>_. eret None))"

text \<open>The keys are listed in the order \<^verbatim>\<open>order\<close>.\<close>

definition answer_read :: "env \<Rightarrow> string list \<Rightarrow> conversation_request \<Rightarrow> response em" where
  "answer_read io order request =
     (case request of
        ConversationList r c \<Rightarrow>
          ebind (try_store (list_conversations (io_store io c) order)) (\<lambda>found.
            eret (ConversationListed c found r))
      | ConversationPage r c peer n \<Rightarrow>
          ebind (try_store (load_metadata (io_store io c) peer)) (\<lambda>md.
          ebind (case (case n of Some n \<Rightarrow> Some n | None \<Rightarrow> map_option md_latest_page md) of
                   Some n \<Rightarrow> try_store (load_page (io_store io c) peer n)
                 | None \<Rightarrow> eret None) (\<lambda>p.
            eret (ConversationPaged c peer md p r)))
      | SetAccountPreferences r c prefs \<Rightarrow>
          ebind (try_store (save_preferences (io_json io) c prefs)) (\<lambda>_.
          ebind (sweep io c) (\<lambda>_. eret (AccountPreferencesIs c prefs r)))
      | GetAccountPreferences r c \<Rightarrow>
          ebind (try_store (preferences (io_json io) c)) (\<lambda>prefs. eret (AccountPreferencesIs c prefs r))
      | _ \<Rightarrow> efail (NotARead (fst (request_of request))))"

definition answer_inner :: "env \<Rightarrow> string list \<Rightarrow> conversation_request \<Rightarrow> response em" where
  "answer_inner io order request =
     (let updated = (\<lambda>r c peer m. ebind m (\<lambda>message. eret (ConversationUpdated c peer message r)))
      in case request of
           ConversationSend r c peer out \<Rightarrow> updated r c peer (send_own io c peer (out\<lparr>out_request_id := Some r\<rparr>))
         | ConversationResend r c peer i \<Rightarrow> updated r c peer (resend io c peer i)
         | ConversationEdit r c peer i contents \<Rightarrow> updated r c peer (revise_own io c peer i (Some contents))
         | ConversationDelete r c peer i \<Rightarrow> updated r c peer (revise_own io c peer i None)
         | ConversationReact r c peer i emoji active \<Rightarrow> updated r c peer (react_own io c peer i emoji active)
         | ConversationMarkRead r c peer \<Rightarrow> updated r c peer (read_all io c peer)
         | ConversationRecord r c peer m \<Rightarrow> updated r c peer (record_message io c peer m)
         | ConversationPatch r c peer i patch \<Rightarrow> updated r c peer (patch_stored io c peer i patch)
         | ConversationClear r c peer unattributed \<Rightarrow> updated r c peer (clear_own io c peer unattributed)
         | read \<Rightarrow> answer_read io order read)"

definition answer :: "env \<Rightarrow> string list \<Rightarrow> conversation_request \<Rightarrow> response em" where
  "answer io order request s =
     (case answer_inner io order request s of
        (EErr e, s) \<Rightarrow> (EOk (ConversationFailure (snd (request_of request)) e (fst (request_of request))), s)
      | other \<Rightarrow> other)"

section \<open>Histories\<close>

text \<open>What reaches the engine, one after another: a peer's command, a window's request, a sweep.\<close>

datatype engine_input = Arrives notification | Asks "string list" conversation_request | Sweeps cid

definition engine_step :: "env \<Rightarrow> engine \<Rightarrow> engine_input \<Rightarrow> engine" where
  "engine_step io s i =
     (case i of
        Arrives n \<Rightarrow> snd (delivered io n s)
      | Asks order request \<Rightarrow> snd (answer io order request s)
      | Sweeps c \<Rightarrow> snd (sweep io c s))"

end
