(* ===== verification/Engine_Frame.thy ===== *)
theory Engine_Frame
  imports Conversation_Engine
begin

text \<open>
  The rules by which the engine's handlers are verified (triples with a postcondition for each way a
  computation ends), and an invariant of every handler: the interface \<^verbatim>\<open>engine_invariant\<close> asks of a
  predicate on the engine's state only that store calls, outgoing effects and event numbers keep it,
  and gives that every handler and every run does. Interpreted on the numbering of events.
\<close>

section \<open>Calls that fail stop failing\<close>

text \<open>A computation that consumes no more than the failures there are: one that starts with none left ends with none.\<close>

named_theorems stays_fine

definition quiet :: "'a kvm \<Rightarrow> bool" where "quiet m \<longleftrightarrow> (\<forall>s r s'. m s = (r, s') \<longrightarrow> fine s \<longrightarrow> fine s')"

lemma quietD: "quiet m \<Longrightarrow> m s = (r, s') \<Longrightarrow> fine s \<Longrightarrow> fine s'"
  by (simp add: quiet_def)

lemma quiet_bind [stays_fine]:
  assumes "quiet m" and "\<And>x. quiet (f x)"
  shows "quiet (kbind m f)"
  unfolding quiet_def
proof (intro allI impI)
  fix s r s' assume b: "kbind m f s = (r, s')" and "fine s"
  obtain q s1 where m: "m s = (q, s1)" by fastforce
  have "fine s1" by (rule quietD [OF assms(1) m \<open>fine s\<close>])
  then show "fine s'"
  proof (cases q)
    case (KOk x)
    with b m have "f x s1 = (r, s')" by (simp add: kbind_def)
    with assms(2) \<open>fine s1\<close> show ?thesis by (blast intro: quietD)
  qed (use b m \<open>fine s1\<close> in \<open>auto simp: kbind_def\<close>)
qed

lemma quiet_simple [stays_fine]:
  "quiet (kret x)" "quiet kpanic" "quiet (klift r)" "quiet (kv_get key)" "quiet (kv_set key v)"
  by (auto simp: quiet_def kret_def kpanic_def klift_def kv_set_def split: sum.splits)

lemma quiet_loads [stays_fine]: "quiet (load_metadata st peer)" "quiet (load_page st peer n)"
proof -
  have at: "quiet (metadata_at st key)" "quiet (page_at st key)" for key
    by (auto simp: metadata_at_def page_at_def intro!: stays_fine split: option.split)
  show "quiet (load_metadata st peer)" "quiet (load_page st peer n)"
    by (auto simp: load_metadata_def load_page_def intro!: stays_fine at split: option.split)
qed

lemma quiet_saves [stays_fine]: "quiet (save_page st p)" "quiet (save_metadata st md)"
  by (auto simp: save_page_def save_metadata_def intro!: stays_fine)

lemma quiet_find [stays_fine]: "quiet (find_message st peer i)"
proof -
  have "quiet (find_from st peer i md n)" for md n
    by (induction n) (auto intro!: stays_fine split: option.split)
  then show ?thesis by (auto simp: find_message_def intro!: stays_fine split: option.split)
qed

lemma quiet_append [stays_fine]: "quiet (append_message st peer m u now)"
  unfolding append_message_def roll_over_def already_stored_def Let_def
  by (intro stays_fine conjI allI impI | split option.split if_split prod.split)+

lemma quiet_update [stays_fine]: "quiet (update_message st peer i c)"
  unfolding update_message_def by (intro stays_fine conjI allI impI | split option.split if_split prod.split)+

section \<open>Triples for the engine\<close>

text \<open>What is stored, what went out, and that no call of the store fails when \<^verbatim>\<open>b\<close> says so.\<close>

definition eat :: "bool \<Rightarrow> (string \<Rightarrow> octet list option) \<Rightarrow> effect list \<Rightarrow> engine \<Rightarrow> bool" where
  "eat b M out s \<longleftrightarrow> at_map b M (eng_kv s) \<and> eng_out s = out"

definition eruns :: "(engine \<Rightarrow> bool) \<Rightarrow> 'a em \<Rightarrow> ('a \<Rightarrow> engine \<Rightarrow> bool) \<Rightarrow> (engine_error option \<Rightarrow> engine \<Rightarrow> bool) \<Rightarrow> bool" where
  "eruns P m Q E \<longleftrightarrow>
     (\<forall>s. P s \<longrightarrow> (case m s of (EOk x, s') \<Rightarrow> Q x s' | (EErr e, s') \<Rightarrow> E (Some e) s' | (EPanic, s') \<Rightarrow> E None s'))"

lemma erunsD:
  assumes "eruns P m Q E" and "P s" and "m s = (r, s')"
  shows "case r of EOk x \<Rightarrow> Q x s' | EErr e \<Rightarrow> E (Some e) s' | EPanic \<Rightarrow> E None s'"
  using assms by (cases r) (auto simp: eruns_def)

lemma eruns_ret: "(\<And>s. P s \<Longrightarrow> Q x s) \<Longrightarrow> eruns P (eret x) Q E"
  by (simp add: eruns_def eret_def)

lemma eruns_fail: "(\<And>s. P s \<Longrightarrow> E (Some e) s) \<Longrightarrow> eruns P (efail e) Q E"
  by (simp add: eruns_def efail_def)

lemma eruns_pre: "eruns P' m Q E \<Longrightarrow> (\<And>s. P s \<Longrightarrow> P' s) \<Longrightarrow> eruns P m Q E"
  by (simp add: eruns_def)

lemma eruns_ex: "(\<And>x. A x \<Longrightarrow> eruns (P x) m Q E) \<Longrightarrow> eruns (\<lambda>s. \<exists>x. P x s \<and> A x) m Q E"
  by (subst eruns_def, intro allI impI, elim exE conjE) (simp add: eruns_def)

lemma eruns_bind:
  assumes "eruns P m R E" and "\<And>x. eruns (R x) (f x) Q E"
  shows "eruns P (ebind m f) Q E"
  unfolding eruns_def
proof (intro allI impI)
  fix s assume "P s"
  obtain r s1 where m: "m s = (r, s1)" by fastforce
  note mid = erunsD [OF assms(1) \<open>P s\<close> m]
  show "case ebind m f s of (EOk x, s') \<Rightarrow> Q x s' | (EErr e, s') \<Rightarrow> E (Some e) s' | (EPanic, s') \<Rightarrow> E None s'"
  proof (cases r)
    case (EOk x)
    with mid m assms(2) [of x] show ?thesis by (simp add: ebind_def eruns_def)
  qed (use mid m in \<open>simp_all add: ebind_def\<close>)
qed

lemma ebind_ret [simp]: "ebind (eret x) f = f x"
  by (simp add: ebind_def eret_def fun_eq_iff)

lemma ebind_assoc: "ebind (ebind m f) g = ebind m (\<lambda>x. ebind (f x) g)"
  by (simp add: ebind_def fun_eq_iff split: prod.split eres.split)

lemma ebind_to_ret: "ebind m eret = m"
  by (simp add: ebind_def eret_def fun_eq_iff split: prod.split eres.split)

lemma eruns_ask:
  assumes "\<And>k. eruns (eat b M out) (g (f k)) Q E"
  shows "eruns (eat b M out) (ebind (ask f) g) Q E"
proof (rule eruns_bind [where R = "\<lambda>x s. x \<in> range f \<and> eat b M out s"])
  show "eruns (eat b M out) (ask f) (\<lambda>x s. x \<in> range f \<and> eat b M out s) E"
    by (simp add: eruns_def ask_def eat_def)
  show "eruns (\<lambda>s. x \<in> range f \<and> eat b M out s) (g x) Q E" for x
  proof (cases "x \<in> range f")
    case True
    then obtain k where "x = f k" by blast
    with assms [of k] show ?thesis by (auto intro: eruns_pre)
  qed (simp add: eruns_def)
qed

lemma eruns_emit:
  assumes "eruns (eat b M (out @ [e])) (g ()) Q E"
  shows "eruns (eat b M out) (ebind (emit e) g) Q E"
proof (rule eruns_bind [where R = "\<lambda>_. eat b M (out @ [e])"])
  show "eruns (eat b M out) (emit e) (\<lambda>_. eat b M (out @ [e])) E"
    by (simp add: eruns_def emit_def eat_def)
  show "eruns (eat b M (out @ [e])) (g x) Q E" for x :: unit using assms by simp
qed

lemma eruns_send_p2p:
  assumes "\<And>k. eruns (eat b M (out @ [SendP2p c peer bytes])) (g (send_error io k)) Q E"
  shows "eruns (eat b M out) (ebind (send_p2p io c peer bytes) g) Q E"
  unfolding send_p2p_def ebind_assoc by (intro eruns_emit eruns_ask assms)

text \<open>A call of the store, from a triple of the store's computation.\<close>

lemma eruns_conseq:
  assumes "eruns P f Q E" and "\<And>x s. Q x s \<Longrightarrow> Q' x s" and "\<And>e s. E e s \<Longrightarrow> E' e s"
  shows "eruns P f Q' E'"
  using assms(1) by (auto simp: eruns_def assms(2-) split: prod.splits eres.splits)

lemma eruns_call:
  assumes m: "runs (at_map b M) m (\<lambda>x s. Qk x (kv_map s)) (\<lambda>s. Ek (kv_map s))" and q: "b \<Longrightarrow> quiet m"
    and ok: "\<And>x M'. Qk x M' \<Longrightarrow> eruns (eat b M' out) (g (Inr x)) Q E"
    and err: "\<And>e M'. Ek M' \<Longrightarrow> eruns (eat b M' out) (g (Inl e)) Q E"
    and panic: "\<And>s. Ek (kv_map (eng_kv s)) \<Longrightarrow> eng_out s = out \<Longrightarrow> E None s"
  shows "eruns (eat b M out) (ebind (call_store m) g) Q E"
proof (rule eruns_bind [where R = "\<lambda>r s. \<exists>M'. eat b M' out s \<and> (case r of Inr x \<Rightarrow> Qk x M' | Inl e \<Rightarrow> Ek M')"])
  show "eruns (eat b M out) (call_store m)
      (\<lambda>r s. \<exists>M'. eat b M' out s \<and> (case r of Inr x \<Rightarrow> Qk x M' | Inl e \<Rightarrow> Ek M')) E"
    unfolding eruns_def
  proof (intro allI impI)
    fix s assume s: "eat b M out s"
    obtain r kv where mk: "m (eng_kv s) = (r, kv)" by fastforce
    have at: "at_map b M (eng_kv s)" using s by (simp add: eat_def)
    have f: "b \<Longrightarrow> fine kv" using quietD [OF q mk] at by (simp add: at_map_def)
    then have at': "eat b (kv_map kv) out (s\<lparr>eng_kv := kv\<rparr>)" using s by (simp add: eat_def at_map_def)
    have "case r of KOk x \<Rightarrow> Qk x (kv_map kv) | _ \<Rightarrow> Ek (kv_map kv)"
      using m at mk by (cases r) (auto simp: runs_def)
    then show "case call_store m s of (EOk x, s') \<Rightarrow> \<exists>M'. eat b M' out s' \<and> (case x of Inr x \<Rightarrow> Qk x M' | Inl e \<Rightarrow> Ek M')
        | (EErr e, s') \<Rightarrow> E (Some e) s' | (EPanic, s') \<Rightarrow> E None s'"
      using mk at' panic [of "s\<lparr>eng_kv := kv\<rparr>"] s
      by (cases r) (auto simp: call_store_def eat_def)
  qed
  show "eruns (\<lambda>s. \<exists>M'. eat b M' out s \<and> (case r of Inr x \<Rightarrow> Qk x M' | Inl e \<Rightarrow> Ek M')) (g r) Q E" for r
    using ok err by (intro eruns_ex) (auto split: sum.splits)
qed

lemma eruns_try:
  assumes m: "runs (at_map b M) m (\<lambda>x s. Qk x (kv_map s)) (\<lambda>s. Ek (kv_map s))" and q: "b \<Longrightarrow> quiet m"
    and ok: "\<And>x M'. Qk x M' \<Longrightarrow> eruns (eat b M' out) (g x) Q E"
    and err: "\<And>e s. Ek (kv_map (eng_kv s)) \<Longrightarrow> eng_out s = out \<Longrightarrow> E e s"
  shows "eruns (eat b M out) (ebind (try_store m) g) Q E"
  unfolding try_store_def ebind_assoc
proof (rule eruns_call [OF m q])
  show "b" if "b" using that .
  show "\<And>s. Ek (kv_map (eng_kv s)) \<Longrightarrow> eng_out s = out \<Longrightarrow> E None s" by (rule err)
  show "\<And>x M'. Qk x M' \<Longrightarrow> eruns (eat b M' out) (ebind (case Inr x of Inl e \<Rightarrow> efail (StoreError e) | Inr x \<Rightarrow> eret x) g) Q E"
    using ok by simp
  show "eruns (eat b M' out) (ebind (case Inl e of Inl e \<Rightarrow> efail (StoreError e) | Inr x \<Rightarrow> eret x) g) Q E" if "Ek M'" for e M'
    using err [of _ "Some (StoreError e)"] that by (auto simp: eruns_def ebind_def efail_def eat_def at_map_def)
qed

section \<open>Whatever the engine does\<close>

definition keeps :: "(engine \<Rightarrow> bool) \<Rightarrow> 'a em \<Rightarrow> bool" where
  "keeps I m \<longleftrightarrow> (\<forall>s r s'. m s = (r, s') \<longrightarrow> I s \<longrightarrow> I s')"

lemma keepsD: "keeps I m \<Longrightarrow> m s = (r, s') \<Longrightarrow> I s \<Longrightarrow> I s'"
  by (simp add: keeps_def)

lemma keeps_snd: "keeps I m \<Longrightarrow> I s \<Longrightarrow> I (snd (m s))"
  by (cases "m s") (simp add: keeps_def)

lemma keeps_bind:
  assumes "keeps I m" and "\<And>x. keeps I (f x)"
  shows "keeps I (ebind m f)"
  unfolding keeps_def
proof (intro allI impI)
  fix s r s' assume b: "ebind m f s = (r, s')" and "I s"
  obtain q s1 where m: "m s = (q, s1)" by fastforce
  have 1: "I s1" by (rule keepsD [OF assms(1) m \<open>I s\<close>])
  show "I s'"
  proof (cases q)
    case (EOk x)
    with b m have "f x s1 = (r, s')" by (simp add: ebind_def)
    from keepsD [OF assms(2) this 1] show ?thesis .
  qed (use b m 1 in \<open>auto simp: ebind_def\<close>)
qed

lemma keeps_simple: "keeps I (eret x)" "keeps I (efail e)" "keeps I epanic"
  by (simp_all add: keeps_def eret_def efail_def epanic_def)

section \<open>Event numbers\<close>

definition last_seq :: "engine \<Rightarrow> cid \<Rightarrow> nat" where
  "last_seq s c = (case hm_get (eng_seq s) c of Some n \<Rightarrow> n | None \<Rightarrow> 0)"

definition is_publish :: "effect \<Rightarrow> bool" where "is_publish e = (case e of Publish _ \<Rightarrow> True | _ \<Rightarrow> False)"

text \<open>
  A property of the engine that is not about the store or the calls made, that an effect other than
  an event keeps, and that publishing an event under its account's next number keeps.
\<close>

locale engine_invariant =
  fixes I :: "engine \<Rightarrow> bool"
  assumes store_keeps: "I s \<Longrightarrow> I (s\<lparr>eng_kv := kv\<rparr>)"
    and calls_keep: "I s \<Longrightarrow> I (s\<lparr>eng_calls := n\<rparr>)"
    and emit_keeps: "I s \<Longrightarrow> \<not> is_publish e \<Longrightarrow> I (s\<lparr>eng_out := eng_out s @ [e]\<rparr>)"
    and publish_keeps: "I s \<Longrightarrow> ev_seq ev = Suc (last_seq s (ev_cid ev)) \<Longrightarrow>
      I (s\<lparr>eng_seq := hm_insert (ev_cid ev) (ev_seq ev) (eng_seq s), eng_out := eng_out s @ [Publish ev]\<rparr>)"
begin

lemma keeps_call: "keeps I (call_store m)"
  by (auto simp: keeps_def call_store_def store_keeps split: prod.splits res.splits)

lemma keeps_try: "keeps I (try_store m)"
  unfolding try_store_def by (intro keeps_bind keeps_call | split sum.split | intro conjI allI impI keeps_simple)+

lemma keeps_ask: "keeps I (ask f)"
  by (auto simp: keeps_def ask_def calls_keep)

lemma keeps_emit: "\<not> is_publish e \<Longrightarrow> keeps I (emit e)"
  by (auto simp: keeps_def emit_def emit_keeps)

lemma keeps_send: "keeps I (send_p2p io c peer bytes)"
  unfolding send_p2p_def by (intro keeps_bind keeps_emit keeps_ask) (simp add: is_publish_def)

lemma keeps_metadata: "keeps I (metadata_if_any io c peer)"
  unfolding metadata_if_any_def by (intro keeps_bind keeps_call keeps_simple)

lemma keeps_publish:
  "keeps I (ebind (next_seq c) (\<lambda>seq. ebind (ask f) (\<lambda>a. ebind (emit (Publish (ev seq a))) g)))"
  if ev: "\<And>n a. ev_cid (ev n a) = c \<and> ev_seq (ev n a) = n" and g: "\<And>x. keeps I (g x)"
  unfolding keeps_def
proof (intro allI impI)
  fix s r s' assume m: "ebind (next_seq c) (\<lambda>seq. ebind (ask f) (\<lambda>a. ebind (emit (Publish (ev seq a))) g)) s = (r, s')"
    and "I s"
  show "I s'"
  proof (cases "checked_add u64_max (last_seq s c) 1")
    case None
    then have "next_seq c s = (EPanic, s)" unfolding next_seq_def last_seq_def [symmetric] by simp
    with m \<open>I s\<close> show ?thesis by (simp add: ebind_def)
  next
    case (Some n)
    let ?e = "ev n (f (eng_calls s))"
    let ?s = "s\<lparr>eng_seq := hm_insert c n (eng_seq s), eng_calls := Suc (eng_calls s), eng_out := eng_out s @ [Publish ?e]\<rparr>"
    have "n = Suc (last_seq s c)" using Some by (simp add: checked_add_def split: if_splits)
    then have "I (s\<lparr>eng_seq := hm_insert c n (eng_seq s), eng_out := eng_out s @ [Publish ?e]\<rparr>)"
      using publish_keeps [OF \<open>I s\<close>, of ?e] ev by simp
    moreover have "(s\<lparr>eng_seq := hm_insert c n (eng_seq s), eng_out := eng_out s @ [Publish ?e]\<rparr>)\<lparr>eng_calls := Suc (eng_calls s)\<rparr> = ?s"
      by simp
    ultimately have "I ?s" using calls_keep by metis
    moreover have "next_seq c s = (EOk n, s\<lparr>eng_seq := hm_insert c n (eng_seq s)\<rparr>)"
      unfolding next_seq_def last_seq_def [symmetric] Some by simp
    then have "g () ?s = (r, s')" using m by (simp add: ebind_def ask_def emit_def)
    ultimately show ?thesis using keepsD [OF g] by blast
  qed
qed

lemma keeps_announce: "keeps I (announce io c peer ch)"
  unfolding announce_def
  by (rule keeps_bind, cases "ch_metadata ch", simp_all add: keeps_simple keeps_metadata)
    (rule keeps_publish, simp, rule keeps_emit, simp add: is_publish_def)

lemmas keeps_parts = keeps_bind keeps_call keeps_try keeps_ask keeps_send keeps_metadata keeps_announce keeps_simple

lemma keeps_raw_envelope: "keeps I (raw_envelope io c peer)"
  unfolding raw_envelope_def by (intro keeps_parts)

lemma keeps_announce_appended: "keeps I (announce_appended io c peer m md r)"
  unfolding announce_appended_def by (rule keeps_announce)

lemma keeps_notice: "keeps I (emit (RaiseNotice c n))" "keeps I (emit (Forward f))"
  by (intro keeps_emit; simp add: is_publish_def)+

lemmas keeps_more = keeps_parts keeps_raw_envelope keeps_announce_appended keeps_notice

lemma keeps_store_and_ack: "keeps I (store_and_ack io c peer m)"
  unfolding store_and_ack_def append_and_name_def
  by (intro keeps_more conjI allI impI | split option.split sum.split if_split prod.split)+

lemma keeps_screenshot: "keeps I (screenshot io c peer e t)"
  unfolding screenshot_def Let_def
  by (intro keeps_more conjI allI impI | split option.split sum.split if_split)+

lemma keeps_revision: "keeps I (revision_inbound io c peer cmd)"
  unfolding revision_inbound_def
  by (intro keeps_more keeps_screenshot conjI allI impI | split option.split sum.split if_split inbound.split)+

lemma keeps_delivered: "keeps I (delivered io n)"
  unfolding delivered_def Let_def forward_def incoming_def
  by (intro keeps_more keeps_revision keeps_store_and_ack conjI allI impI
     | split option.split sum.split if_split inbound.split)+

lemma keeps_transmit: "keeps I (transmit io c peer m e)"
  unfolding transmit_def by (intro keeps_more conjI allI impI | split option.split if_split)+

lemma keeps_send_message: "keeps I (send_own io c peer out)"
  unfolding send_own_def Let_def by (intro keeps_more keeps_transmit conjI allI impI | split option.split)+

lemma keeps_resend: "keeps I (resend io c peer i)"
  unfolding resend_def Let_def
  by (intro keeps_more keeps_transmit conjI allI impI | split option.split prod.split if_split)+

lemma keeps_send_saved: "keeps I (send_saved io c peer layer m)"
  unfolding send_saved_def by (intro keeps_more conjI allI impI | split option.split)+

lemma keeps_revise_own: "keeps I (revise_own io c peer i edit)"
  unfolding revise_own_def Let_def
  by (intro keeps_more keeps_send_saved conjI allI impI | split option.split prod.split revised.split)+

lemma keeps_react: "keeps I (react_own io c peer i emoji active)"
  unfolding react_own_def by (intro keeps_more keeps_send_saved conjI allI impI | split option.split)+

lemma keeps_read_all: "keeps I (read_all io c peer)"
proof -
  have "keeps I (read_receipts io c peer b ms)" for b ms
    by (induction ms) (auto intro!: keeps_more)
  then show ?thesis unfolding read_all_def
    by (intro keeps_more conjI allI impI | split option.split prod.split | assumption)+
qed

lemma keeps_sweep: "keeps I (sweep io c)"
proof -
  have "keeps I (sweep_each io c settings)" for settings
  proof (induction settings)
    case (Cons r settings)
    then show ?case unfolding sweep_each.simps Let_def
      by (intro keeps_more conjI allI impI | split retention.split sum.split if_split | assumption)+
  qed (simp add: keeps_simple)
  then show ?thesis unfolding sweep_def
    by (intro keeps_more conjI allI impI | split sum.split | assumption)+
qed

lemma keeps_answer: "keeps I (answer io order request)"
proof -
  have "keeps I (answer_inner io order request)"
    unfolding answer_inner_def answer_read_def Let_def record_message_def patch_stored_def clear_own_def
    by (cases request; simp only: conversation_request.case)
      (intro keeps_more keeps_send_message keeps_resend keeps_revise_own keeps_react keeps_read_all keeps_sweep
         conjI allI impI | split option.split if_split)+
  then show ?thesis by (auto simp: keeps_def answer_def split: prod.splits eres.splits)
qed

lemma history_keeps: "I s \<Longrightarrow> I (foldl (engine_step io) s inputs)"
proof (induction inputs arbitrary: s)
  case (Cons i inputs)
  have "I (engine_step io s i)"
    using Cons.prems keeps_snd [OF keeps_delivered] keeps_snd [OF keeps_answer] keeps_snd [OF keeps_sweep]
    by (cases i) (auto simp: engine_step_def)
  with Cons.IH show ?case by simp
qed simp

end

text \<open>The events of one account, in the order they were published.\<close>

fun events_of :: "cid \<Rightarrow> effect list \<Rightarrow> conversation_event list" where
  "events_of c [] = []"
| "events_of c (e # out) =
     (case e of
        Publish ev \<Rightarrow> if ev_cid ev = c then ev # events_of c out else events_of c out
      | _ \<Rightarrow> events_of c out)"

definition numbered :: "engine \<Rightarrow> bool" where
  "numbered s \<longleftrightarrow> (\<forall>c. map ev_seq (events_of c (eng_out s)) = [1..<Suc (last_seq s c)])"

lemma events_of_append: "events_of c (out @ out') = events_of c out @ events_of c out'"
  by (induction out) (auto split: effect.split)

interpretation numbers: engine_invariant numbered
proof
  show "numbered (s\<lparr>eng_out := eng_out s @ [e]\<rparr>)" if "numbered s" "\<not> is_publish e" for s e
    using that by (cases e) (simp_all add: numbered_def events_of_append last_seq_def is_publish_def)
  show "numbered (s\<lparr>eng_seq := hm_insert (ev_cid ev) (ev_seq ev) (eng_seq s), eng_out := eng_out s @ [Publish ev]\<rparr>)"
    if "numbered s" "ev_seq ev = Suc (last_seq s (ev_cid ev))" for s ev
    using that by (simp add: numbered_def events_of_append last_seq_def)
qed (simp_all add: numbered_def last_seq_def)

text \<open>
  Over any history of arrivals, requests and sweeps, with any failures, the events an account's
  windows are sent are numbered one, two, three and so on, with no gap and none twice.
\<close>

theorem events_numbered_consecutively:
  "map ev_seq (events_of c (eng_out (foldl (engine_step io) \<lparr>eng_kv = kv, eng_seq = [], eng_calls = 0, eng_out = []\<rparr> inputs))) =
     [1..<Suc (length (events_of c (eng_out (foldl (engine_step io) \<lparr>eng_kv = kv, eng_seq = [], eng_calls = 0, eng_out = []\<rparr> inputs))))]"
proof -
  have "numbered \<lparr>eng_kv = kv, eng_seq = [], eng_calls = 0, eng_out = []\<rparr>" by (simp add: numbered_def last_seq_def)
  from numbers.history_keeps [OF this, of io inputs] show ?thesis
    unfolding numbered_def by (metis length_map length_upt diff_Suc_1)
qed

end
