(* ===== verification/Engine_Safety.thy ===== *)
theory Engine_Safety
  imports Engine_Frame
begin

text \<open>
  What a peer's message does to a conversation whatever calls of the store fail: it is stored before
  it is acknowledged or announced, and it is stored once or not at all.
\<close>

section \<open>Steps of the handlers\<close>

lemma runs_reads: "only_writes (\<lambda>_. False) m \<Longrightarrow> runs (at_map b M) m (\<lambda>_ s. kv_map s = M) (\<lambda>s. kv_map s = M)"
  using only_writesD [of "\<lambda>_. False" m] unfolding runs_def at_map_def
  by (fastforce split: prod.splits res.splits)

lemma writes_preferences: "only_writes K (preferences J c)"
  unfolding preferences_def by (intro writes conjI allI impI | split option.split)+

lemma quiet_preferences: "quiet (preferences J c)"
  unfolding preferences_def by (intro stays_fine conjI allI impI | split option.split)+

lemma eruns_reads:
  assumes "only_writes (\<lambda>_. False) m" and "quiet m" and "\<And>r. eruns (eat b M out) (g r) Q E"
    and "\<And>s. kv_map (eng_kv s) = M \<Longrightarrow> eng_out s = out \<Longrightarrow> E None s"
  shows "eruns (eat b M out) (ebind (call_store m) g) Q E"
  by (rule eruns_call [OF runs_reads [OF assms(1), of b M]]) (use assms(2-) in auto)

lemma eruns_announce:
  assumes ok: "\<And>ev. eruns (eat b M (out @ [Publish ev, RowsChanged])) (g ()) Q E"
    and panic: "\<And>s. kv_map (eng_kv s) = M \<Longrightarrow> eng_out s = out \<Longrightarrow> E None s"
  shows "eruns (eat b M out) (ebind (announce io c peer ch) g) Q E"
proof -
  have seq: "eruns (eat b M out) (ebind (next_seq c) h) Q E" if "\<And>n. eruns (eat b M out) (h n) Q E" for h
  proof (rule eruns_bind [where R = "\<lambda>_. eat b M out"])
    show "eruns (eat b M out) (next_seq c) (\<lambda>_. eat b M out) E"
      using panic by (auto simp: eruns_def next_seq_def eat_def at_map_def split: option.split)
  qed (rule that)
  have rest: "eruns (eat b M out) (ebind (next_seq c) (\<lambda>seq. ebind (ask f) (\<lambda>a. ebind (emit (Publish (ev seq a)))
      (\<lambda>_. ebind (emit RowsChanged) g)))) Q E" for f ev
    by (intro seq eruns_ask eruns_emit) (use ok in simp)
  show ?thesis
  proof (cases "ch_metadata ch")
    case None
    have "eruns (eat b M out) (ebind (call_store (load_metadata (io_store io c) peer)) h) Q E"
      if "\<And>r. eruns (eat b M out) (h r) Q E" for h
      by (rule eruns_reads [OF writes_nothing(3) quiet_loads(1) that]) (rule panic)
    with None show ?thesis unfolding announce_def metadata_if_any_def by (simp add: ebind_assoc rest)
  next
    case (Some md)
    then show ?thesis unfolding announce_def ebind_assoc by (simp add: rest)
  qed
qed

lemma eruns_announce_appended:
  assumes "\<And>ev. eruns (eat b M (out @ [Publish ev, RowsChanged])) (g ()) Q E"
    and "\<And>s. kv_map (eng_kv s) = M \<Longrightarrow> eng_out s = out \<Longrightarrow> E None s"
  shows "eruns (eat b M out) (ebind (announce_appended io c peer m md r) g) Q E"
  unfolding announce_appended_def using assms by (rule eruns_announce)

lemma set_peer_username_runs:
  assumes J: "json_text_ok (st_json st)" and c: "conv st M peer md ps" and "utf8_ok name" and "f64_whole now"
  shows "runs (at_map b M) (set_peer_username st peer name now)
    (\<lambda>_ s. \<exists>md'. conv st (kv_map s) peer md' ps) (\<lambda>s. \<exists>md'. conv st (kv_map s) peer md' ps)" (is "runs _ _ ?Q ?E")
proof -
  note D = convD [OF c]
  let ?md = "md\<lparr>md_peer_username := Some name, md_last_updated := now\<rparr>"
  have ok: "metadata_ok ?md" using D(3) assms(3,4) by (simp add: metadata_ok_def opt_ok_def)
  have w: "conv st M' peer ?md ps" if "meta_write st M ?md M'" for M'
    using conv_write_metadata [OF c that _ ok] D(2) by simp
  have "runs (at_map b M) (kbind (save_metadata st ?md) kret) ?Q ?E"
    by (rule runs_bind_save_metadata [OF J ok]) (use c w in \<open>auto intro!: runs_at_ret\<close>)
  then have save: "runs (at_map b M) (save_metadata st ?md) ?Q ?E" by (simp only: kbind_ret)
  show ?thesis unfolding set_peer_username_def
    by (rule runs_bind_load_metadata [OF D(1)]) (use c save in \<open>auto intro!: runs_at_ret\<close>)
qed

section \<open>A message of a peer's\<close>

text \<open>What is left of a conversation when a message may have been added to it.\<close>

definition grown :: "store \<Rightarrow> cid \<Rightarrow> page list \<Rightarrow> conv_message \<Rightarrow> (string \<Rightarrow> octet list option) \<Rightarrow> page list \<Rightarrow> bool" where
  "grown st peer ps m M' ps' \<longleftrightarrow> (\<exists>md'. conv st M' peer md' ps') \<and>
     mset (all_messages ps') \<in> {mset (all_messages ps), add_mset m (mset (all_messages ps))}"

definition holds_id :: "utext \<Rightarrow> page list \<Rightarrow> bool" where
  "holds_id i ps \<longleftrightarrow> (\<exists>m \<in> set (all_messages ps). m_id m = i)"

lemma redelivered_holds: "ps \<noteq> [] \<Longrightarrow> redelivered ps i \<Longrightarrow> holds_id i ps"
proof -
  assume ne: "ps \<noteq> []" and "redelivered ps i"
  then consider "has_id i (last ps)" | "2 \<le> length ps" "has_id i (ps ! (length ps - 2))"
    by (auto simp: redelivered_def)
  then obtain p where "p \<in> set ps" "has_id i p"
  proof cases
    case 1
    then show ?thesis using that last_in_set [OF ne] by blast
  next
    case 2
    then have "ps ! (length ps - 2) \<in> set ps" by (intro nth_mem) simp
    then show ?thesis using that 2(2) by blast
  qed
  then show ?thesis by (auto simp: holds_id_def has_id_def list_ex_iff all_messages_def)
qed

lemma appended_holds: "ps \<noteq> [] \<Longrightarrow> holds_id (m_id m) (appended peer m ps)"
proof -
  assume "ps \<noteq> []"
  then have "m \<in># mset (all_messages (appended peer m ps))" by (simp add: appended_mset)
  then show ?thesis by (auto simp: holds_id_def)
qed

lemma append_grows:
  assumes "json_text_ok (st_json st)" and "conv st M peer md ps" and "counts md t u" and "length ps \<le> u32_max"
    and "message_ok m" and "f64_whole now"
  shows "runs (at_map False M) (append_message st peer m un now)
    (\<lambda>_ s. \<exists>ps'. grown st peer ps m (kv_map s) ps' \<and> holds_id (m_id m) ps') (\<lambda>s. \<exists>ps'. grown st peer ps m (kv_map s) ps')"
proof -
  have ne: "ps \<noteq> []" using conv_nonempty [OF assms(2)] by simp
  show ?thesis
  proof (rule runs_conseq [OF append_runs [OF assms(1,2,5,6,3,4), of False]])
    fix x s assume "if redelivered ps (m_id m) then x = None \<and> kv_map s = M
           else x = Some (appended_metadata st md ps m now) \<and>
             conv st (kv_map s) peer (appended_metadata st md ps m now) (appended peer m ps)"
    then show "\<exists>ps'. grown st peer ps m (kv_map s) ps' \<and> holds_id (m_id m) ps'"
      using assms(2) redelivered_holds [OF ne] appended_holds [OF ne] appended_mset [OF ne, of peer m]
      by (cases "redelivered ps (m_id m)") (auto simp: grown_def)
  next
    fix s assume "\<not> False \<and> (\<exists>md'. conv st (kv_map s) peer md' ps \<or> conv st (kv_map s) peer md' (appended peer m ps))"
    then show "\<exists>ps'. grown st peer ps m (kv_map s) ps'"
      using appended_mset [OF ne, of peer m] by (auto simp: grown_def)
  qed simp
qed

lemma grown_name:
  assumes "json_text_ok (st_json st)" and "grown st peer ps m M ps'" and "utf8_ok name" and "f64_whole now"
  shows "runs (at_map False M) (set_peer_username st peer name now)
    (\<lambda>_ s. grown st peer ps m (kv_map s) ps') (\<lambda>s. grown st peer ps m (kv_map s) ps')"
proof -
  from assms(2) obtain md' where c: "conv st M peer md' ps'" by (auto simp: grown_def)
  from assms(2) show ?thesis
    by (intro runs_conseq [OF set_peer_username_runs [OF assms(1) c assms(3,4), of False]]) (auto simp: grown_def)
qed

text \<open>
  A message of a peer's is answered for only when it is stored: what an answer, an event or a retired
  delivery comes with is a conversation that has it.
\<close>

definition accounted :: "store \<Rightarrow> cid \<Rightarrow> page list \<Rightarrow> conv_message \<Rightarrow> effect list \<Rightarrow> bool \<Rightarrow> engine \<Rightarrow> bool" where
  "accounted st peer ps m out retired s \<longleftrightarrow>
     (\<exists>ps'. grown st peer ps m (kv_map (eng_kv s)) ps' \<and>
        (retired \<or> eng_out s \<noteq> out \<longrightarrow> holds_id (m_id m) ps'))"

lemma store_and_ack_runs:
  assumes J: "json_text_ok (io_json io)" and c: "conv (io_store io c) M peer md ps" and cnt: "counts md t u"
    and room: "length ps \<le> u32_max" and m: "message_ok m" and now: "\<And>k. f64_whole (now_ms io k)"
    and name: "\<And>k. opt_ok utf8_ok (peer_username io k c peer)"
  shows "eruns (eat False M out) (store_and_ack io c peer m)
    (accounted (io_store io c) peer ps m out) (\<lambda>_. accounted (io_store io c) peer ps m out False)"
    (is "eruns _ _ ?Q ?E")
proof -
  let ?st = "io_store io c"
  have J': "json_text_ok (st_json ?st)" using J by (simp add: io_store_def)
  have fin_ok: "accounted ?st peer ps m out b s"
    if "grown ?st peer ps m (kv_map (eng_kv s)) ps'" "holds_id (m_id m) ps'" for s ps' b
    using that by (auto simp: accounted_def)
  have none: "accounted ?st peer ps m out False s"
    if "grown ?st peer ps m (kv_map (eng_kv s)) ps'" "eng_out s = out" for s ps'
    using that by (auto simp: accounted_def)
  have notice: "eruns (eat b' M' out') (ebind (if P then emit e else eret ()) g) Q' E'"
    if "eruns (eat b' M' (out' @ [e])) (g ()) Q' E'" "eruns (eat b' M' out') (g ()) Q' E'" for b' M' out' P e g and Q' :: "bool \<Rightarrow> _" and E'
    using that by (simp add: eruns_emit)
  have rest: "eruns (eat False M' out) (ebind (ask (now_ms io)) (\<lambda>now.
         ebind (send_p2p io c peer (ack Delivered (m_id m) now)) (\<lambda>_.
         case added of
           None \<Rightarrow> eret True
         | Some md \<Rightarrow>
             ebind (if m_message_type m = TextType \<or> m_message_type m = Markdown
                    then emit (RaiseNotice c (NMessage peer un (m_content m))) else eret ()) (\<lambda>_.
             ebind (announce_appended io c peer m md None) (\<lambda>_. eret True))))) ?Q ?E"
    if g: "grown ?st peer ps m M' ps'" "holds_id (m_id m) ps'" for M' ps' added un
  proof (rule eruns_ask, rule eruns_send_p2p)
    fix k k' out1
    have fin: "eruns (eat False M' out2) (eret True) ?Q ?E" for out2
      using fin_ok g by (intro eruns_ret) (auto simp: eat_def at_map_def)
    show "eruns (eat False M' (out @ [SendP2p c peer (ack Delivered (m_id m) (now_ms io k))]))
       (case added of None \<Rightarrow> eret True
         | Some md \<Rightarrow> ebind (if m_message_type m = TextType \<or> m_message_type m = Markdown
                    then emit (RaiseNotice c (NMessage peer un (m_content m))) else eret ()) (\<lambda>_.
             ebind (announce_appended io c peer m md None) (\<lambda>_. eret True))) ?Q ?E"
    proof (cases added)
      case None
      then show ?thesis by (simp add: fin)
    next
      case (Some md)
      have tail: "eruns (eat False M' out2) (ebind (announce_appended io c peer m md None) (\<lambda>_. eret True)) ?Q ?E" for out2
        by (rule eruns_announce_appended [OF fin]) (use fin_ok g in auto)
      show ?thesis unfolding Some option.case by (rule notice [OF tail tail])
    qed
  qed
  have named: "eruns (eat False M' out) (ebind (case (Inr added, un) of
       (Inr _, Some name) \<Rightarrow>
         ebind (ask (now_ms io)) (\<lambda>now.
         ebind (call_store (set_peer_username ?st peer name now)) (\<lambda>_. eret (Inr added)))
     | _ \<Rightarrow> eret (Inr added)) h) ?Q ?E"
    if g: "grown ?st peer ps m M' ps'" "holds_id (m_id m) ps'" and un: "opt_ok utf8_ok un"
      and h: "\<And>M' ps'. grown ?st peer ps m M' ps' \<Longrightarrow> holds_id (m_id m) ps' \<Longrightarrow> eruns (eat False M' out) (h (Inr added)) ?Q ?E"
    for M' ps' un h and added :: "metadata option"
  proof (cases un)
    case None
    then show ?thesis using h [OF g] by simp
  next
    case (Some nm)
    then have nm: "utf8_ok nm" using un by (simp add: opt_ok_def)
    have "eruns (eat False M' out) (ebind (ask (now_ms io)) (\<lambda>now.
         ebind (call_store (set_peer_username ?st peer nm now)) (\<lambda>_. h (Inr added)))) ?Q ?E"
    proof (rule eruns_ask, rule eruns_call [OF grown_name [OF J' g(1) nm now]])
      show "\<And>M'' e. grown ?st peer ps m M'' ps' \<Longrightarrow> eruns (eat False M'' out) (h (Inr added)) ?Q ?E" using h g(2) by blast
      show "\<And>M''. grown ?st peer ps m M'' ps' \<Longrightarrow> eruns (eat False M'' out) (h (Inr added)) ?Q ?E" using h g(2) by blast
    qed (use fin_ok g(2) in auto)
    then show ?thesis using Some by (simp add: ebind_assoc)
  qed
  show ?thesis unfolding store_and_ack_def append_and_name_def ebind_assoc
  proof (intro eruns_ask, rule eruns_call [OF append_grows [OF J' c cnt room m now]])
    fix k1 k2 and added :: "metadata option" and M'
    assume "\<exists>ps'. grown ?st peer ps m M' ps' \<and> holds_id (m_id m) ps'"
    then obtain ps' where g: "grown ?st peer ps m M' ps'" "holds_id (m_id m) ps'" by blast
    show "eruns (eat False M' out) (ebind (case (Inr added, peer_username io k1 c peer) of
       (Inr _, Some name) \<Rightarrow>
         ebind (ask (now_ms io)) (\<lambda>now.
         ebind (call_store (set_peer_username ?st peer name now)) (\<lambda>_. eret (Inr added)))
     | _ \<Rightarrow> eret (Inr added)) (\<lambda>appended. case appended of
       Inl _ \<Rightarrow> eret False
     | Inr added \<Rightarrow>
         ebind (ask (now_ms io)) (\<lambda>now.
         ebind (send_p2p io c peer (ack Delivered (m_id m) now)) (\<lambda>_.
         case added of
           None \<Rightarrow> eret True
         | Some md \<Rightarrow>
             ebind (if m_message_type m = TextType \<or> m_message_type m = Markdown
                    then emit (RaiseNotice c (NMessage peer (peer_username io k1 c peer) (m_content m))) else eret ()) (\<lambda>_.
             ebind (announce_appended io c peer m md None) (\<lambda>_. eret True)))))) ?Q ?E"
      by (rule named [OF g name]) (simp add: rest)
  next
    fix k1 k2 and e :: kv_error and M' assume "\<exists>ps'. grown ?st peer ps m M' ps'"
    then show "eruns (eat False M' out) (ebind (case (Inl e, peer_username io k1 c peer) of
       (Inr _, Some name) \<Rightarrow>
         ebind (ask (now_ms io)) (\<lambda>now.
         ebind (call_store (set_peer_username ?st peer name now)) (\<lambda>_. eret (Inl e)))
     | _ \<Rightarrow> eret (Inl e)) (\<lambda>appended. case appended of
       Inl _ \<Rightarrow> eret False
     | Inr added \<Rightarrow>
         ebind (ask (now_ms io)) (\<lambda>now.
         ebind (send_p2p io c peer (ack Delivered (m_id m) now)) (\<lambda>_.
         case added of
           None \<Rightarrow> eret True
         | Some md \<Rightarrow>
             ebind (if m_message_type m = TextType \<or> m_message_type m = Markdown
                    then emit (RaiseNotice c (NMessage peer (peer_username io k1 c peer) (m_content m))) else eret ()) (\<lambda>_.
             ebind (announce_appended io c peer m md None) (\<lambda>_. eret True)))))) ?Q ?E"
      using none by (simp, intro eruns_ret) (auto simp: eat_def at_map_def)
  qed (use none in auto)
qed

lemma incoming_runs:
  assumes "json_text_ok (io_json io)" and "conv (io_store io c) M peer md ps" and "counts md t u"
    and "length ps \<le> u32_max" and "message_ok (incoming_message c peer e contents at)"
    and now: "\<And>k. f64_whole (now_ms io k)" and name: "\<And>k. opt_ok utf8_ok (peer_username io k c peer)"
  shows "eruns (eat False M out) (incoming io c peer e contents at)
    (\<lambda>b s. accounted (io_store io c) peer ps (incoming_message c peer e contents at) out (b \<and> (\<forall>k. knows_peer io k c peer)) s)
    (\<lambda>_. accounted (io_store io c) peer ps (incoming_message c peer e contents at) out False)" (is "eruns _ _ ?Q ?E")
proof -
  let ?m = "incoming_message c peer e contents at"
  have same: "accounted (io_store io c) peer ps ?m out False s" if "kv_map (eng_kv s) = M" "eng_out s = out" for s
    using that assms(2) by (auto simp: accounted_def grown_def)
  have weak: "accounted (io_store io c) peer ps ?m out b s \<Longrightarrow> accounted (io_store io c) peer ps ?m out (b \<and> P) s" for b P s
    by (auto simp: accounted_def)
  have stored: "eruns (eat False M out) (store_and_ack io c peer ?m) ?Q ?E"
    using store_and_ack_runs [OF assms(1-5) now name, of out] weak
    unfolding eruns_def by (auto split: prod.splits eres.splits)
  have refused: "eruns (eat False M out) (eret True) ?Q ?E" if "\<not> (\<forall>k. knows_peer io k c peer)"
  proof (rule eruns_ret)
    fix s assume "eat False M out s"
    then show "?Q True s" using that same [of s] by (simp only: eat_def at_map_def simp_thms)
  qed
  have failed: "eruns (eat False M out) (eret False) ?Q ?E"
    using same by (intro eruns_ret) (simp add: eat_def at_map_def)
  show ?thesis unfolding incoming_def
  proof (rule eruns_reads [OF writes_preferences quiet_preferences])
    fix r
    show "eruns (eat False M out) (case r of
       Inl _ \<Rightarrow> eret False
     | Inr prefs \<Rightarrow>
         ebind (if pr_accept_strangers prefs then eret True else ask (\<lambda>t. knows_peer io t c peer)) (\<lambda>welcome.
           if \<not> welcome then eret True else store_and_ack io c peer ?m)) ?Q ?E"
    proof (cases r)
      case (Inr prefs)
      have "eruns (eat False M out) (ebind (ask (\<lambda>t. knows_peer io t c peer)) (\<lambda>welcome.
           if \<not> welcome then eret True else store_and_ack io c peer ?m)) ?Q ?E"
        by (rule eruns_ask) (use stored refused in \<open>auto split: if_split\<close>)
      then show ?thesis using Inr stored by simp
    qed (simp add: failed)
  qed (rule same)
qed

text \<open>
  C19. A storable chat message for a conversation that exists is acknowledged or announced only when it
  is stored, and retired only when it is stored or comes from a stranger: whatever calls of the store
  fail, the conversation is left with the messages it had and at most the new one, whose sender is the
  peer the transport names; if anything went out, to the peer or to a window, the message is there; and
  when the delivery is retired it is there too, unless at some moment the account did not know the peer
  (a stranger's message is retired without being stored, unless the account accepts strangers). A
  delivery that is not retired is sent again. Storable (\<open>message_ok\<close>) is: texts in UTF-8, all numbers
  whole, hence finite, and below \<open>2^53\<close>; the code does not check the peer's time
  (\<open>nonfinite_append_bricks\<close>). The first message of a conversation is another matter (\<open>first_append_lost\<close>).
\<close>

theorem acknowledged_is_stored:
  assumes "json_text_ok (io_json io)" and "read_command (io_nans io) bytes = Some (Message e contents at)"
    and "conv (io_store io c) (kv_map (eng_kv s)) peer md ps" and "counts md t u" and "length ps \<le> u32_max"
    and "message_ok (incoming_message c peer e contents at)"
    and "\<forall>k. f64_whole (now_ms io k)" and "\<forall>k. opt_ok utf8_ok (peer_username io k c peer)"
    and "delivered io \<lparr>n_cid = c, n_peer_cid = peer, n_message = bytes\<rparr> s = (r, s')"
  shows "\<exists>md' ps'. conv (io_store io c) (kv_map (eng_kv s')) peer md' ps' \<and>
    mset (all_messages ps') \<in> {mset (all_messages ps), add_mset (incoming_message c peer e contents at) (mset (all_messages ps))} \<and>
    (eng_out s' \<noteq> eng_out s \<longrightarrow> (\<exists>m \<in> set (all_messages ps'). m_id m = e_message_id e)) \<and>
    (r = EOk True \<longrightarrow> (\<exists>m \<in> set (all_messages ps'). m_id m = e_message_id e) \<or> (\<exists>k. \<not> knows_peer io k c peer))"
proof -
  have d: "incoming io c peer e contents at s = (r, s')" using assms(2,9) by (simp add: delivered_def)
  have i: "m_id (incoming_message c peer e contents at) = e_message_id e" by (simp add: incoming_message_def received_message_def)
  have s: "eat False (kv_map (eng_kv s)) (eng_out s) s" by (simp add: eat_def at_map_def)
  have now: "\<And>k. f64_whole (now_ms io k)" "\<And>k. opt_ok utf8_ok (peer_username io k c peer)" using assms(7,8) by auto
  from erunsD [OF incoming_runs [OF assms(1,3-6) now] s d]
  have "accounted (io_store io c) peer ps (incoming_message c peer e contents at) (eng_out s)
      (r = EOk True \<and> (\<forall>k. knows_peer io k c peer)) s'"
    by (cases r) auto
  then obtain md' ps' where "conv (io_store io c) (kv_map (eng_kv s')) peer md' ps'"
      "mset (all_messages ps') \<in> {mset (all_messages ps), add_mset (incoming_message c peer e contents at) (mset (all_messages ps))}"
      "(r = EOk True \<and> (\<forall>k. knows_peer io k c peer)) \<or> eng_out s' \<noteq> eng_out s \<longrightarrow> holds_id (e_message_id e) ps'"
    unfolding accounted_def grown_def i by blast
  then show ?thesis unfolding holds_id_def by blast
qed

section \<open>An agent to look at\<close>

definition demo_io :: env where
  "demo_io = \<lparr>now_ms = (\<lambda>_. f64_one), new_id = (\<lambda>_. lit ''c''), account_username = (\<lambda>_ _. lit ''a''),
     peer_username = (\<lambda>_ _ _. None), knows_peer = (\<lambda>_ _ _. True), send_error = (\<lambda>_. None), takers = (\<lambda>_. 0),
     io_json = text_codec, io_nans = quiet_nans\<rparr>"

definition demo_engine :: "fault list \<Rightarrow> engine" where
  "demo_engine fs = \<lparr>eng_kv = \<lparr>kv_map = demo_map, kv_faults = fs\<rparr>, eng_seq = [], eng_calls = 0, eng_out = []\<rparr>"

lemma demo_io_store: "io_store demo_io 7 = demo_store"
  by (simp add: io_store_def demo_io_def demo_store_def)

definition plain_envelope :: envelope where
  "plain_envelope = \<lparr>e_sender_cid = 9, e_recipient_cid = 7, e_message_id = lit ''c'', e_index = f64_zero,
     e_reply_to = None, e_mentions = None, e_attachments = None, e_message_type = TextType,
     e_document_id = None, e_document_title = None\<rparr>"

definition demo_bytes_in :: "octet list" where
  "demo_bytes_in = messaging_layer (message_layer (lit ''hello'') f64_one) plain_envelope"


lemma demo_incoming_ok: "message_ok (incoming_message 7 8 (arrived plain_envelope) (lit ''hello'') f64_one)"
  by (simp add: message_ok_def incoming_message_def received_message_def arrived_def plain_envelope_def opt_ok_def
      demo_ids demo_numbers js_number_whole)

lemma demo_read: "read_command quiet_nans demo_bytes_in = Some (Message (arrived plain_envelope) (lit ''hello'') f64_one)"
proof -
  have "envelope_ok plain_envelope" by (simp add: envelope_ok_def plain_envelope_def opt_ok_def text_ok_lit)
  moreover have "value_ok 2 (message_layer (lit ''hello'') f64_one)" by (simp add: value_ok_layers text_ok_lit)
  ultimately show ?thesis unfolding demo_bytes_in_def
    by (simp add: read_messaging_layer read_layer_def envelope_back message_layer_def as_number_number
        js_number_whole demo_numbers)
qed

theorem acknowledged_is_stored_witness:
  "\<exists>md' ps'. conv demo_store (kv_map (eng_kv (snd (delivered demo_io \<lparr>n_cid = 7, n_peer_cid = 8, n_message = demo_bytes_in\<rparr>
       (demo_engine [Fine, Fault ''lost'' True]))))) 8 md' ps' \<and>
     mset (all_messages ps') \<in> {mset (all_messages [demo_page]),
       add_mset (incoming_message 7 8 (arrived plain_envelope) (lit ''hello'') f64_one) (mset (all_messages [demo_page]))}"
proof -
  have "json_text_ok (io_json demo_io)" "io_nans demo_io = quiet_nans" "\<forall>k. f64_whole (now_ms demo_io k)"
    "\<forall>k. opt_ok utf8_ok (peer_username demo_io k 7 8)" "kv_map (eng_kv (demo_engine [Fine, Fault ''lost'' True])) = demo_map"
    by (simp_all add: demo_io_def text_codec_ok demo_numbers opt_ok_def demo_engine_def)
  with acknowledged_is_stored [OF this(1) _ _ demo_counts _ demo_incoming_ok this(3,4) surjective_pairing,
      of demo_bytes_in "demo_engine [Fine, Fault ''lost'' True]" "[demo_page]"] demo_read demo_conv
  show ?thesis unfolding demo_io_store by (auto simp: u32_max_def)
qed

end
