(* ===== verification/Engine_Peer.thy ===== *)
theory Engine_Peer
  imports Engine_Safety
begin

text \<open>
  What a peer can do to a conversation: with any command it changes its own messages only, and of
  the others their reactions and, forwards, their status.
\<close>

section \<open>Revisions by the sender only\<close>

text \<open>The messages of a conversation that someone else sent.\<close>

definition others :: "cid \<Rightarrow> page list \<Rightarrow> conv_message list" where
  "others sender ps = filter (\<lambda>m. m_sender_cid m \<noteq> sender) (all_messages ps)"

lemma all_messages_set_page:
  "j < length ps \<Longrightarrow> all_messages (ps[j := p]) = all_messages (take j ps) @ pg_messages p @ all_messages (drop (Suc j) ps)"
  by (simp add: all_messages_def upd_conv_take_nth_drop)

lemma others_set_page:
  assumes "j < length ps"
    and "filter (\<lambda>m. m_sender_cid m \<noteq> c) (pg_messages p) = filter (\<lambda>m. m_sender_cid m \<noteq> c) (pg_messages (ps ! j))"
  shows "others c (ps[j := p]) = others c ps"
  using all_messages_set_page [OF assms(1), of p] all_messages_set_page [OF assms(1), of "ps ! j"] assms(2)
  by (simp add: others_def)

lemma filter_without:
  assumes "k < length xs" and "\<not> P (xs ! k)"
  shows "filter P (take k xs @ drop (Suc k) xs) = filter P xs"
    and "\<not> P y \<Longrightarrow> filter P (xs[k := y]) = filter P xs"
proof -
  have "take k xs @ xs ! k # drop (Suc k) xs = xs" by (rule id_take_nth_drop [OF assms(1), symmetric])
  then have "filter P (take k xs @ xs ! k # drop (Suc k) xs) = filter P xs" by (rule arg_cong)
  then show "filter P (take k xs @ drop (Suc k) xs) = filter P xs" "\<not> P y \<Longrightarrow> filter P (xs[k := y]) = filter P xs"
    using assms by (simp_all add: upd_conv_take_nth_drop)
qed

text \<open>What a change by one sender leaves: a conversation in which everybody else's messages are as they were.\<close>

definition by_sender :: "store \<Rightarrow> cid \<Rightarrow> cid \<Rightarrow> page list \<Rightarrow> (string \<Rightarrow> octet list option) \<Rightarrow> bool" where
  "by_sender st peer sender ps M' \<longleftrightarrow> (\<exists>md' ps'. conv st M' peer md' ps' \<and> others sender ps' = others sender ps)"

lemma by_sender_refl: "conv st M peer md ps \<Longrightarrow> by_sender st peer sender ps M"
  by (auto simp: by_sender_def)

definition revision_ok :: "revision \<Rightarrow> bool" where
  "revision_ok r \<longleftrightarrow> (case r of ReviseDelete \<Rightarrow> True | ReviseEdit contents at \<Rightarrow> utf8_ok contents \<and> f64_whole at)"

lemma page_without_ok: "page_ok p \<Longrightarrow> page_ok (p\<lparr>pg_messages := take k (pg_messages p) @ drop (Suc k) (pg_messages p)\<rparr>)"
  by (auto simp: page_ok_def list_all_iff dest: in_set_takeD in_set_dropD)

lemma less_whole: "counts md t u \<Longrightarrow> f64_whole (f64_max (f64_sub (md_total_message_count md) f64_one) f64_zero)"
proof -
  assume "counts md t u"
  then have "md_total_message_count md = f64_of_int (int t)" "t < 2 ^ 53 - 1" by (simp_all add: counts_def)
  moreover have "f64_sub (f64_of_int (int t)) (f64_of_int 1) = f64_of_int (int t - 1)"
    using \<open>t < 2 ^ 53 - 1\<close> by (intro f64_sub_of_int) simp_all
  moreover have "f64_whole (f64_of_int (int t - 1))" using \<open>t < 2 ^ 53 - 1\<close> by (intro f64_whole_of_int) simp
  ultimately show ?thesis by (simp add: f64_one_of_int f64_max_whole f64_zero_whole)
qed

lemma remove_runs:
  assumes J: "json_text_ok (st_json st)" and c: "conv st M peer md ps" and cnt: "counts md t u" and now: "f64_whole now"
    and own: "\<And>j k. located ps i (md_latest_page md) = Some (j, k) \<Longrightarrow> m_sender_cid (pg_messages (ps ! j) ! k) = sender"
  shows "runs (at_map b M) (remove_message st peer i now)
    (\<lambda>_ s. by_sender st peer sender ps (kv_map s)) (\<lambda>s. by_sender st peer sender ps (kv_map s))" (is "runs _ _ ?Q ?E")
proof -
  note D = convD [OF c] and refl = by_sender_refl [OF c]
  show ?thesis unfolding remove_message_def
  proof (rule runs_bind_find [OF c])
    show "runs (at_map b M) (case map_option (\<lambda>(j, k). (md, ps ! j, k)) (located ps i (md_latest_page md)) of
         None \<Rightarrow> kret False
       | Some (md, p, k) \<Rightarrow>
           kbind (save_page st (p\<lparr>pg_messages := take k (pg_messages p) @ drop (Suc k) (pg_messages p)\<rparr>)) (\<lambda>_.
           kbind (save_metadata st
               (md\<lparr>md_total_message_count := f64_max (f64_sub (md_total_message_count md) f64_one) f64_zero,
                   md_last_updated := now\<rparr>)) (\<lambda>_.
             kret True))) ?Q ?E"
    proof (cases "located ps i (md_latest_page md)")
      case None
      then show ?thesis using refl by (auto intro!: runs_at_ret)
    next
      case (Some at)
      obtain j k where jk: "at = (j, k)" by fastforce
      from located_Some [of ps i] Some jk have l: "j < length ps" "k < length (pg_messages (ps ! j))" using D(4) by fastforce+
      let ?p = "(ps ! j)\<lparr>pg_messages := take k (pg_messages (ps ! j)) @ drop (Suc k) (pg_messages (ps ! j))\<rparr>"
      let ?md = "md\<lparr>md_total_message_count := f64_max (f64_sub (md_total_message_count md) f64_one) f64_zero, md_last_updated := now\<rparr>"
      have p: "page_ok ?p" by (rule page_without_ok [OF D(8) [OF l(1)]])
      have md: "metadata_ok ?md" using D(3) less_whole [OF cnt] now by (simp add: metadata_ok_def)
      have same: "others sender (ps[j := ?p]) = others sender ps"
        using filter_without(1) [OF l(2), of "\<lambda>m. m_sender_cid m \<noteq> sender"] own Some jk
        by (intro others_set_page [OF l(1)]) simp
      have w: "conv st M' peer md (ps[j := ?p])" if "page_write st M ?p M'" for M'
        using conv_write_page [OF c that _ _ l(1) p] D(6,7) [OF l(1)] by simp
      have v: "conv st M2 peer ?md (ps[j := ?p])" if "page_write st M ?p M1" "meta_write st M1 ?md M2" for M1 M2
        using conv_write_metadata [OF w [OF that(1)] that(2) _ md] D(2) by simp
      have "runs (at_map b M) (kbind (save_page st ?p) (\<lambda>_. kbind (save_metadata st ?md) (\<lambda>_. kret True))) ?Q ?E"
      proof (rule runs_bind_save_page [OF J p])
        fix M1 assume w1: "page_write st M ?p M1"
        show "runs (at_map b M1) (kbind (save_metadata st ?md) (\<lambda>_. kret True)) ?Q ?E"
          by (rule runs_bind_save_metadata [OF J md])
            (use w [OF w1] v [OF w1] same in \<open>auto simp: by_sender_def intro!: runs_at_ret\<close>)
      qed (use refl w same in \<open>auto simp: by_sender_def\<close>)
      then show ?thesis using Some jk by simp
    qed
  qed (use refl in simp)
qed

lemma revise_runs:
  assumes J: "json_text_ok (st_json st)" and c: "conv st M peer md ps" and cnt: "counts md t u" and now: "f64_whole now"
    and r: "revision_ok rv"
  shows "runs (at_map b M) (revise_message st peer i sender rv now)
    (\<lambda>_ s. by_sender st peer sender ps (kv_map s)) (\<lambda>s. by_sender st peer sender ps (kv_map s))" (is "runs _ _ ?Q ?E")
proof -
  note D = convD [OF c] and refl = by_sender_refl [OF c]
  show ?thesis unfolding revise_message_def
  proof (rule runs_bind_find [OF c])
    show "runs (at_map b M) (case map_option (\<lambda>(j, k). (md, ps ! j, k)) (located ps i (md_latest_page md)) of
         None \<Rightarrow> kret UnknownMessage
       | Some (_, p, k) \<Rightarrow>
           (let stored = pg_messages p ! k
            in if m_sender_cid stored \<noteq> sender then kret NotSender
               else case rv of
                 ReviseDelete \<Rightarrow>
                   kbind (remove_message st peer i now) (\<lambda>removed.
                     kret (if removed then Applied stored else UnknownMessage))
               | ReviseEdit contents edited_at \<Rightarrow>
                   (let message = stored\<lparr>m_content := contents, m_edited_at := Some edited_at\<rparr>
                    in kbind (save_page st (p\<lparr>pg_messages := (pg_messages p)[k := message]\<rparr>)) (\<lambda>_.
                         kret (Applied message))))) ?Q ?E"
    proof (cases "located ps i (md_latest_page md)")
      case None
      then show ?thesis using refl by (auto intro!: runs_at_ret)
    next
      case (Some at)
      obtain j k where jk: "at = (j, k)" by fastforce
      from located_Some [of ps i] Some jk have l: "j < length ps" "k < length (pg_messages (ps ! j))" using D(4) by fastforce+
      let ?m = "pg_messages (ps ! j) ! k"
      show ?thesis
      proof (cases "m_sender_cid ?m = sender")
        case False
        then show ?thesis using Some jk refl by (auto intro!: runs_at_ret simp: Let_def)
      next
        case own: True
        show ?thesis
        proof (cases rv)
          case ReviseDelete
          have rem: "runs (at_map b M) (remove_message st peer i now) (\<lambda>_ s. by_sender st peer sender ps (kv_map s)) ?E"
            using own Some jk by (intro remove_runs [OF J c cnt now]) simp
          have "runs (at_map b M) (kbind (remove_message st peer i now) (\<lambda>removed.
              kret (if removed then Applied ?m else UnknownMessage))) ?Q ?E"
            by (rule runs_bind [OF rem]) (auto intro!: runs_ret)
          then show ?thesis using Some jk own ReviseDelete by (simp add: Let_def)
        next
          case (ReviseEdit contents edited_at)
          let ?new = "?m\<lparr>m_content := contents, m_edited_at := Some edited_at\<rparr>"
          let ?p = "(ps ! j)\<lparr>pg_messages := (pg_messages (ps ! j))[k := ?new]\<rparr>"
          have "message_ok ?m" using D(8) [OF l(1)] l(2) by (simp add: page_ok_def list_all_length)
          then have "message_ok ?new" using r ReviseEdit by (simp add: message_ok_def revision_ok_def opt_ok_def)
          then have p: "page_ok ?p" by (rule page_ok_update [OF D(8) [OF l(1)]])
          have same: "others sender (ps[j := ?p]) = others sender ps"
            using filter_without(2) [OF l(2), of "\<lambda>m. m_sender_cid m \<noteq> sender" ?new] own
            by (intro others_set_page [OF l(1)]) simp
          have w: "conv st M' peer md (ps[j := ?p])" if "page_write st M ?p M'" for M'
            using conv_write_page [OF c that _ _ l(1) p] D(6,7) [OF l(1)] by simp
          have "runs (at_map b M) (kbind (save_page st ?p) (\<lambda>_. kret (Applied ?new))) ?Q ?E"
            by (rule runs_bind_save_page [OF J p]) (use refl w same in \<open>auto simp: by_sender_def intro!: runs_at_ret\<close>)
          then show ?thesis using Some jk own ReviseEdit by (simp add: Let_def)
        qed
      qed
    qed
  qed (use refl in simp)
qed

text \<open>What is left of a conversation to which a peer did something: the other messages are kept.\<close>

definition unharmed :: "store \<Rightarrow> cid \<Rightarrow> page list \<Rightarrow> (string \<Rightarrow> octet list option) \<Rightarrow> bool" where
  "unharmed st peer ps M' \<longleftrightarrow>
     (\<exists>md' ps'. conv st M' peer md' ps' \<and> rel_mset kept_message (mset (others peer ps)) (mset (others peer ps')))"

lemma rel_mset_kept_refl: "rel_mset kept_message A A"
  by (rule multiset.rel_refl) simp

lemma rel_mset_of_list: "list_all2 R xs ys \<Longrightarrow> rel_mset R (mset xs) (mset ys)"
  unfolding rel_mset_def by blast

lemma by_sender_unharmed: "by_sender st peer peer ps M' \<Longrightarrow> unharmed st peer ps M'"
  using rel_mset_kept_refl by (fastforce simp: by_sender_def unharmed_def)

lemma grown_unharmed: "grown st peer ps m M' ps' \<Longrightarrow> m_sender_cid m = peer \<Longrightarrow> unharmed st peer ps M'"
proof -
  assume g: "grown st peer ps m M' ps'" and "m_sender_cid m = peer"
  then have "mset (others peer ps') = mset (others peer ps)"
    by (auto simp: grown_def others_def mset_filter)
  with g show ?thesis unfolding grown_def unharmed_def by (metis rel_mset_kept_refl)
qed

lemma kept_others: "list_all2 kept_message xs ys \<Longrightarrow>
    list_all2 kept_message (filter (\<lambda>m. m_sender_cid m \<noteq> c) xs) (filter (\<lambda>m. m_sender_cid m \<noteq> c) ys)"
  by (induction rule: list_all2_induct) (auto simp: kept_message_def)

lemma pages_kept_messages: "pages_kept ps qs \<Longrightarrow> list_all2 kept_message (all_messages ps) (all_messages qs)"
  unfolding pages_kept_def all_messages_def
  by (induction rule: list_all2_induct) (auto intro: list_all2_appendI)

lemma kept_unharmed: "conv st M' peer md ps' \<Longrightarrow> pages_kept ps ps' \<Longrightarrow> unharmed st peer ps M'"
  unfolding unharmed_def others_def using rel_mset_of_list [OF kept_others [OF pages_kept_messages]] by blast

lemma update_unharmed:
  assumes J: "json_text_ok (st_json st)" and c: "conv st M peer md ps"
    and ok: "\<And>m m'. m \<in> set (all_messages ps) \<Longrightarrow> message_ok m \<Longrightarrow> change m = Some m' \<Longrightarrow> message_ok m'"
    and kept: "\<And>m m'. change m = Some m' \<Longrightarrow> kept_message m m'"
  shows "runs (at_map False M) (update_message st peer i change)
    (\<lambda>_ s. unharmed st peer ps (kv_map s)) (\<lambda>s. unharmed st peer ps (kv_map s))"
proof -
  have up: "pages_kept ps ps'" if "updated ps i change = Some (ps', m)" for ps' m
    using updated_kept [OF that _ kept] conv_nonempty [OF c] by blast
  have same: "unharmed st peer ps M'" if "conv st M' peer md ps" for M' by (rule kept_unharmed [OF that]) simp
  show ?thesis
  proof (rule runs_conseq [OF update_runs [where b = False and i = i, OF J c ok]])
    fix x s assume "x = map_option snd (updated ps i change) \<and>
      conv st (kv_map s) peer md (case updated ps i change of None \<Rightarrow> ps | Some (ps', _) \<Rightarrow> ps')"
    then show "unharmed st peer ps (kv_map s)"
      using same kept_unharmed up by (auto split: option.splits)
  next
    fix s assume "\<not> False \<and> (conv st (kv_map s) peer md ps \<or>
      (\<exists>ps' m. updated ps i change = Some (ps', m) \<and> conv st (kv_map s) peer md ps'))"
    then show "unharmed st peer ps (kv_map s)" using same kept_unharmed up by blast
  qed simp_all
qed

lemma runs_then_ret: "runs P m (\<lambda>_. R) E \<Longrightarrow> runs P (kbind m (\<lambda>x. kret (f x))) (\<lambda>_. R) E"
  by (erule runs_bind) (auto intro!: runs_ret)

text \<open>What a command must carry to be stored: texts and whole numbers.\<close>

definition inbound_ok :: "cid \<Rightarrow> cid \<Rightarrow> inbound \<Rightarrow> bool" where
  "inbound_ok c peer cmd =
     (case cmd of
        Message e contents at \<Rightarrow> message_ok (incoming_message c peer e contents at)
      | Edit _ contents at \<Rightarrow> utf8_ok contents \<and> f64_whole at
      | ReactionCmd _ emoji _ at \<Rightarrow> text_ok emoji \<and> f64_whole at
      | Screenshot e at \<Rightarrow> opt_ok f64_whole at \<and> message_ok (received_message e [] f64_zero)
      | _ \<Rightarrow> True)"

definition few_reactions :: "page list \<Rightarrow> bool" where
  "few_reactions ps \<longleftrightarrow> list_all (\<lambda>m. opt_ok (\<lambda>rs. length rs < 2 ^ 64 - 1) (m_reactions m)) (all_messages ps)"

lemma react_ok:
  assumes "message_ok m" and "opt_ok (\<lambda>rs. length rs < 2 ^ 64 - 1) (m_reactions m)" and "reaction_ok ch"
    and "map_option (\<lambda>rs. m\<lparr>m_reactions := Some rs\<rparr>) (fold_reaction (m_reactions m) ch) = Some m'"
  shows "message_ok m'"
proof -
  from assms(4) obtain rs where f: "fold_reaction (m_reactions m) ch = Some rs" and m': "m' = m\<lparr>m_reactions := Some rs\<rparr>"
    by auto
  define old where "old = (case m_reactions m of Some rs \<Rightarrow> rs | None \<Rightarrow> [])"
  have "list_all reaction_ok old" "length old < 2 ^ 64 - 1"
    using assms(1,2) by (auto simp: old_def message_ok_def opt_ok_def split: option.splits)
  moreover have "rs = map (\<lambda>r. if same_reaction ch r then ch else r) old \<and> old \<noteq> [] \<or> rs = old @ [ch]"
    using f by (auto simp: fold_reaction_def old_def [symmetric] Let_def split: if_splits option.splits)
  ultimately have "rs \<noteq> []" "length rs < 2 ^ 64" "list_all reaction_ok rs"
    using assms(3) by (auto simp: list_all_iff)
  then show ?thesis using assms(1) by (simp add: m' message_ok_def opt_ok_def)
qed

lemma revision_change_runs:
  assumes J: "json_text_ok (st_json st)" and c: "conv st M peer md ps" and cnt: "counts md t u" and now: "f64_whole now"
    and few: "few_reactions ps" and cmd: "inbound_ok own peer cmd"
  shows "runs (at_map False M) (revision_change st peer cmd now)
    (\<lambda>_ s. unharmed st peer ps (kv_map s)) (\<lambda>s. unharmed st peer ps (kv_map s))" (is "runs _ _ ?Q ?E")
proof -
  have same: "unharmed st peer ps M" by (rule kept_unharmed [OF c]) simp
  have revise: "runs (at_map False M) (revise_message st peer i peer rv now) (\<lambda>_ s. unharmed st peer ps (kv_map s)) ?E"
    if "revision_ok rv" for i rv
    by (rule runs_conseq [OF revise_runs [OF J c cnt now that]]) (auto intro: by_sender_unharmed)
  show ?thesis
  proof (cases cmd)
    case (Edit i contents at)
    with cmd have "revision_ok (ReviseEdit contents at)" by (simp add: inbound_ok_def revision_ok_def)
    from runs_then_ret [OF revise [OF this]] Edit show ?thesis by (simp add: revision_change_def)
  next
    case (Delete i)
    have "revision_ok ReviseDelete" by (simp add: revision_ok_def)
    from runs_then_ret [OF revise [OF this]] Delete show ?thesis by (simp add: revision_change_def)
  next
    case (ReactionCmd i emoji active at)
    let ?r = "\<lparr>r_emoji = emoji, r_cid = peer, r_at = at, r_active = active\<rparr>"
    have "reaction_ok ?r" using cmd ReactionCmd by (simp add: inbound_ok_def reaction_ok_def)
    then have "runs (at_map False M) (react_message st peer i ?r) (\<lambda>_ s. unharmed st peer ps (kv_map s)) ?E"
      unfolding react_message_def using few react_ok
      by (intro update_unharmed [OF J c]) (auto simp: few_reactions_def list_all_iff kept_message_def)
    from runs_then_ret [OF this] ReactionCmd show ?thesis by (simp add: revision_change_def)
  next
    case (Ack kind i)
    have "runs (at_map False M) (set_status st peer i (status_of kind) None) (\<lambda>_ s. unharmed st peer ps (kv_map s)) ?E"
      unfolding set_status_def
    proof (rule update_unharmed [OF J c])
      fix m m' assume "message_ok m" "change_status (status_of kind) None m = Some m'"
      then show "message_ok m'" by (rule change_status_ok [rotated]) (simp add: opt_ok_def)
    qed (rule change_status_kept)
    from runs_then_ret [OF this] Ack show ?thesis by (simp add: revision_change_def)
  qed (use same in \<open>auto simp: revision_change_def intro!: runs_at_ret\<close>)
qed

lemma screenshot_ok:
  assumes "message_ok (received_message e [] f64_zero)" and "utf8_ok name" and "f64_whole at"
  shows "message_ok (screenshot_message c peer e name at)"
proof -
  have "utf8_ok (name @ lit '' may have taken a screenshot'')"
    using assms(2) by (intro utf8_append utf8_lit) simp_all
  with assms show ?thesis by (simp add: message_ok_def screenshot_message_def received_message_def)
qed

lemma screenshot_runs:
  assumes J: "json_text_ok (io_json io)" and c: "conv (io_store io c) M peer md ps" and cnt: "counts md t u"
    and room: "length ps \<le> u32_max" and e: "message_ok (received_message e [] f64_zero)" and at: "opt_ok f64_whole taken_at"
    and now: "\<And>k. f64_whole (now_ms io k)"
  shows "eruns (eat False M out) (screenshot io c peer e taken_at)
    (\<lambda>_ s. unharmed (io_store io c) peer ps (kv_map (eng_kv s))) (\<lambda>_ s. unharmed (io_store io c) peer ps (kv_map (eng_kv s)))"
    (is "eruns _ _ ?Q ?E")
proof -
  let ?st = "io_store io c"
  have J': "json_text_ok (st_json ?st)" using J by (simp add: io_store_def)
  have same: "unharmed ?st peer ps M" by (rule kept_unharmed [OF c]) simp
  have ret: "eruns (eat False M' out') (eret x) ?Q ?E" if "unharmed ?st peer ps M'" for M' out' and x :: bool
    using that by (intro eruns_ret) (simp add: eat_def at_map_def)
  have append: "eruns (eat False M out) (ebind (ask (now_ms io)) (\<lambda>now.
      ebind (call_store (append_message ?st peer m None now)) (\<lambda>appended. case appended of
          Inl _ \<Rightarrow> eret False
        | Inr None \<Rightarrow> eret True
        | Inr (Some md) \<Rightarrow> ebind (announce_appended io c peer m md None) (\<lambda>_. eret True)))) ?Q ?E"
    if m: "message_ok m" "m_sender_cid m = peer" for m
  proof (rule eruns_ask)
    fix k
    have run: "runs (at_map False M) (append_message ?st peer m None (now_ms io k))
        (\<lambda>_ s. unharmed ?st peer ps (kv_map s)) (\<lambda>s. unharmed ?st peer ps (kv_map s))"
      by (rule runs_conseq [OF append_grows [OF J' c cnt room m(1) now]]) (use grown_unharmed m(2) in blast)+
    show "eruns (eat False M out) (ebind (call_store (append_message ?st peer m None (now_ms io k))) (\<lambda>appended. case appended of
          Inl _ \<Rightarrow> eret False
        | Inr None \<Rightarrow> eret True
        | Inr (Some md) \<Rightarrow> ebind (announce_appended io c peer m md None) (\<lambda>_. eret True))) ?Q ?E"
    proof (rule eruns_call [OF run])
      fix x M' assume un: "unharmed ?st peer ps M'"
      show "eruns (eat False M' out) (case Inr x of Inl _ \<Rightarrow> eret False | Inr None \<Rightarrow> eret True
        | Inr (Some md) \<Rightarrow> ebind (announce_appended io c peer m md None) (\<lambda>_. eret True)) ?Q ?E"
        by (cases x) (use ret un in \<open>auto intro!: eruns_announce_appended\<close>)
    qed (use ret in auto)
  qed
  have name: "utf8_ok (case Option.bind x md_peer_username of Some n \<Rightarrow> n | None \<Rightarrow> show_cid peer)" if "x = None \<or> x = Some md" for x
    using that convD(3) [OF c] utf8_lit_show
    by (auto simp: metadata_ok_def opt_ok_def show_cid_def split: option.splits)
  have rest: "eruns (eat False M out) (ebind (case taken_at of Some t \<Rightarrow> eret t | None \<Rightarrow> ask (now_ms io)) (\<lambda>at.
      ebind (ask (now_ms io)) (\<lambda>now.
      ebind (call_store (append_message ?st peer (screenshot_message c peer e name at) None now)) (\<lambda>appended. case appended of
          Inl _ \<Rightarrow> eret False
        | Inr None \<Rightarrow> eret True
        | Inr (Some md) \<Rightarrow> ebind (announce_appended io c peer (screenshot_message c peer e name at) md None) (\<lambda>_. eret True))))) ?Q ?E"
    if "utf8_ok name" for name
  proof (cases taken_at)
    case None
    show ?thesis unfolding None option.case
      by (rule eruns_ask, rule append [OF screenshot_ok [OF e that now]]) (simp add: screenshot_message_def)
  next
    case (Some t)
    then have "message_ok (screenshot_message c peer e name t)" using at by (intro screenshot_ok [OF e that]) (simp add: opt_ok_def)
    from append [OF this] Some show ?thesis by (simp add: screenshot_message_def)
  qed
  have load: "runs (at_map False M) (load_metadata ?st peer) (\<lambda>x s. x = Some md \<and> kv_map s = M) (\<lambda>s. kv_map s = M)"
    using runs_bind_load_metadata [OF convD(1) [OF c], of False "\<lambda>s. kv_map s = M" kret "\<lambda>x s. x = Some md \<and> kv_map s = M"]
    by (simp add: kbind_ret runs_at_ret)
  have loaded: "eruns (eat False M out) (ebind (metadata_if_any io c peer) h) ?Q ?E"
    if h: "\<And>x. x = None \<or> x = Some md \<Longrightarrow> eruns (eat False M out) (h x) ?Q ?E" for h
    unfolding metadata_if_any_def ebind_assoc ebind_ret
    by (rule eruns_call [OF load]) (use h same in auto)
  show ?thesis unfolding screenshot_def Let_def
  proof (rule eruns_reads [OF writes_preferences quiet_preferences])
    fix r
    show "eruns (eat False M out) (case r of Inl _ \<Rightarrow> eret False
      | Inr prefs \<Rightarrow> if \<not> pr_notify_on_screenshot prefs then eret True
         else ebind (metadata_if_any io c peer) (\<lambda>md.
           ebind (case taken_at of Some t \<Rightarrow> eret t | None \<Rightarrow> ask (now_ms io)) (\<lambda>at.
           ebind (ask (now_ms io)) (\<lambda>now.
           ebind (call_store (append_message ?st peer (screenshot_message c peer e
               (case Option.bind md md_peer_username of Some n \<Rightarrow> n | None \<Rightarrow> show_cid peer) at) None now)) (\<lambda>appended. case appended of
               Inl _ \<Rightarrow> eret False
             | Inr None \<Rightarrow> eret True
             | Inr (Some md') \<Rightarrow> ebind (announce_appended io c peer (screenshot_message c peer e
               (case Option.bind md md_peer_username of Some n \<Rightarrow> n | None \<Rightarrow> show_cid peer) at) md' None) (\<lambda>_. eret True)))))) ?Q ?E"
      by (cases r) (simp_all add: ret same loaded [OF rest [OF name]])
  qed (use same in simp)
qed

lemma delivered_runs:
  assumes J: "json_text_ok (io_json io)" and c: "conv (io_store io c) M peer md ps" and cnt: "counts md t u"
    and room: "length ps \<le> u32_max" and few: "few_reactions ps"
    and cmd: "\<And>cmd. read_command (io_nans io) bytes = Some cmd \<Longrightarrow> inbound_ok c peer cmd"
    and now: "\<And>k. f64_whole (now_ms io k)" and name: "\<And>k. opt_ok utf8_ok (peer_username io k c peer)"
  shows "eruns (eat False M out) (delivered io \<lparr>n_cid = c, n_peer_cid = peer, n_message = bytes\<rparr>)
    (\<lambda>_ s. unharmed (io_store io c) peer ps (kv_map (eng_kv s))) (\<lambda>_ s. unharmed (io_store io c) peer ps (kv_map (eng_kv s)))"
    (is "eruns _ _ ?Q ?E")
proof -
  let ?st = "io_store io c" and ?n = "\<lparr>n_cid = c, n_peer_cid = peer, n_message = bytes\<rparr>"
  have J': "json_text_ok (st_json ?st)" using J by (simp add: io_store_def)
  have same: "unharmed ?st peer ps M" by (rule kept_unharmed [OF c]) simp
  have ret: "eruns (eat False M' out') (eret x) ?Q ?E" if "unharmed ?st peer ps M'" for M' out' and x :: bool
    using that by (intro eruns_ret) (simp add: eat_def at_map_def)
  have fwd: "eruns (eat False M out') (ebind (forward io ?n) (\<lambda>k. eret (f k))) ?Q ?E" for f out'
    unfolding forward_def ebind_assoc by (intro eruns_emit eruns_ask ret same)
  have state: "eruns (eat False M out) (ebind (raw_envelope io c peer) (\<lambda>e.
      ebind (send_p2p io c peer (messaging_layer check_state_response e)) (\<lambda>_. eret True))) ?Q ?E"
    unfolding raw_envelope_def metadata_if_any_def ebind_assoc ebind_ret
    by (intro eruns_reads [OF writes_nothing(3) quiet_loads(1)] eruns_ask eruns_send_p2p ret same) (use same in auto)
  have incoming: "eruns (eat False M out) (incoming io c peer e contents at) ?Q ?E"
    if "message_ok (incoming_message c peer e contents at)" for e contents at
  proof -
    have "m_sender_cid (incoming_message c peer e contents at) = peer" by (simp add: incoming_message_def)
    then have "accounted ?st peer ps (incoming_message c peer e contents at) out b s \<Longrightarrow>
        unharmed ?st peer ps (kv_map (eng_kv s))" for b s
      using grown_unharmed unfolding accounted_def by blast
    note safe = this
    show ?thesis by (rule eruns_conseq [OF incoming_runs [OF J c cnt room that now name]]) (fact safe)+
  qed
  have change: "eruns (eat False M out) (ebind (call_store (revision_change ?st peer command now)) (\<lambda>r. case r of
           Inl _ \<Rightarrow> eret False
         | Inr None \<Rightarrow> eret True
         | Inr (Some ch) \<Rightarrow> ebind (announce io c peer ch) (\<lambda>_. eret True))) ?Q ?E"
    if "inbound_ok c peer command" "f64_whole now" for command now
  proof (rule eruns_call [OF revision_change_runs [OF J' c cnt that(2) few that(1)]])
    fix x M' assume "unharmed ?st peer ps M'"
    then show "eruns (eat False M' out) (case Inr x of Inl _ \<Rightarrow> eret False | Inr None \<Rightarrow> eret True
         | Inr (Some ch) \<Rightarrow> ebind (announce io c peer ch) (\<lambda>_. eret True)) ?Q ?E"
      by (cases x) (use ret in \<open>auto intro!: eruns_announce\<close>)
  qed (use ret in auto)
  have rev: "eruns (eat False M out) (revision_inbound io c peer command) ?Q ?E" if "inbound_ok c peer command" for command
    unfolding revision_inbound_def
  proof (rule eruns_ask)
    fix k
    show "eruns (eat False M out) (case command of
       Screenshot e taken_at \<Rightarrow> screenshot io c peer e taken_at
     | _ \<Rightarrow>
         ebind (call_store (revision_change ?st peer command (now_ms io k))) (\<lambda>r.
         case r of
           Inl _ \<Rightarrow> eret False
         | Inr None \<Rightarrow> eret True
         | Inr (Some ch) \<Rightarrow> ebind (announce io c peer ch) (\<lambda>_. eret True))) ?Q ?E"
      using change [OF that now [of k]] screenshot_runs [OF J c cnt room _ _ now] that
      by (cases command) (auto simp: inbound_ok_def)
  qed
  show ?thesis
  proof (cases "read_command (io_nans io) bytes")
    case None
    then show ?thesis by (simp add: delivered_def fwd)
  next
    case (Some command)
    with cmd have ok: "inbound_ok c peer command" by simp
    have invite: "eruns (eat False M out) (ebind (if is_call_invite (io_nans io) bytes
        then ebind (ask (\<lambda>t. peer_username io t c peer)) (\<lambda>name. emit (RaiseNotice c (NIncomingCall peer name)))
        else eret ()) (\<lambda>_. ebind (forward io ?n) (\<lambda>_. eret True))) ?Q ?E"
      using fwd [of _ "\<lambda>_. True"] by (auto simp: ebind_assoc intro!: eruns_ask eruns_emit)
    show ?thesis using Some ok fwd [of out "\<lambda>k. 0 < k"] invite state incoming rev [OF ok]
      by (cases command) (auto simp: delivered_def Let_def inbound_ok_def)
  qed
qed

text \<open>
  C20. A peer changes nothing of what others sent: whatever command it sends whose texts and numbers
  are storable (a message, an edit, a deletion, a reaction, a receipt, a screenshot notice, or bytes
  that are none), and whatever calls of the store fail, every message of the conversation that is not
  the peer's is still there with its content, sender and time, and no status of it goes back. Storable
  (\<open>inbound_ok\<close>) is: texts in UTF-8, and every number of the command whole, hence finite, and below \<open>2^53\<close> in
  magnitude. The code does not check that: a peer that sends a message with a time that is not finite
  makes the page, with what others sent, unreadable (\<open>nonfinite_append_bricks\<close>). The conversation exists,
  with fewer than \<open>2^32\<close> pages and \<open>2^53 - 1\<close> messages counted and no message with \<open>2^64\<close> reactions.
\<close>

theorem peer_changes_only_its_own:
  assumes "json_text_ok (io_json io)"
    and "conv (io_store io c) (kv_map (eng_kv s)) peer md ps" and "counts md t u" and "length ps \<le> u32_max"
    and "few_reactions ps"
    and "\<forall>cmd. read_command (io_nans io) bytes = Some cmd \<longrightarrow> inbound_ok c peer cmd"
    and "\<forall>k. f64_whole (now_ms io k)" and "\<forall>k. opt_ok utf8_ok (peer_username io k c peer)"
    and "delivered io \<lparr>n_cid = c, n_peer_cid = peer, n_message = bytes\<rparr> s = (r, s')"
  shows "\<exists>md' ps'. conv (io_store io c) (kv_map (eng_kv s')) peer md' ps' \<and>
    rel_mset kept_message (mset (others peer ps)) (mset (others peer ps'))"
proof -
  have "eat False (kv_map (eng_kv s)) (eng_out s) s" by (simp add: eat_def at_map_def)
  from erunsD [OF delivered_runs [OF assms(1-5), of bytes] this assms(9)] assms(6-8)
  have "unharmed (io_store io c) peer ps (kv_map (eng_kv s'))" by (cases r) auto
  then show ?thesis by (simp add: unharmed_def)
qed

theorem peer_changes_only_its_own_witness:
  "\<exists>md' ps'. conv demo_store (kv_map (eng_kv (snd (delivered demo_io \<lparr>n_cid = 7, n_peer_cid = 8, n_message = demo_bytes_in\<rparr>
       (demo_engine [Fine, Fault ''lost'' True]))))) 8 md' ps' \<and>
     rel_mset kept_message (mset (others 8 [demo_page])) (mset (others 8 ps'))"
proof -
  have io: "json_text_ok (io_json demo_io)" "io_nans demo_io = quiet_nans" "\<forall>k. f64_whole (now_ms demo_io k)"
    "\<forall>k. opt_ok utf8_ok (peer_username demo_io k 7 8)" "kv_map (eng_kv (demo_engine [Fine, Fault ''lost'' True])) = demo_map"
    by (simp_all add: demo_io_def text_codec_ok demo_numbers opt_ok_def demo_engine_def)
  have few: "few_reactions [demo_page]"
    by (simp add: few_reactions_def all_messages_def demo_page_def demo_message_def opt_ok_def)
  have cmd: "\<forall>cmd. read_command (io_nans demo_io) demo_bytes_in = Some cmd \<longrightarrow> inbound_ok 7 8 cmd"
    using demo_read demo_incoming_ok by (simp add: io(2) inbound_ok_def)
  show ?thesis
    using peer_changes_only_its_own [OF io(1) _ demo_counts _ few cmd io(3,4) surjective_pairing,
        of "demo_engine [Fine, Fault ''lost'' True]"] demo_conv io(5)
    unfolding demo_io_store by (auto simp: u32_max_def)
qed

end
