(* ===== verification/App_Id.thy ===== *)
theory App_Id
  imports Byte_Strings
begin

text \<open>
  An app's identity (\<^verbatim>\<open>citadel-app-id/src/lib.rs\<close>): the grammar of an app id and the release
  versions a downgrade is judged by. A refusal keeps its constructor; the human sentence in it
  is the datatype \<^verbatim>\<open>refusal_why\<close>, one value per sentence of the source.
\<close>

definition MAX_APP_ID_CHARS :: nat where "MAX_APP_ID_CHARS = 64"

datatype version_part = Major | Minor | Patch

datatype refusal_why =
    IdEmpty | IdTooLong | IdEmptyLabel | IdLabelStart | IdLabelBody | IdOneLabel
  | NoPart version_part | MoreThanThree
  | PartEmpty version_part | PartNotDecimal version_part | PartLeadingZero version_part
  | PartTooBig version_part

datatype identity_refusal = RefusedAppId refusal_why | RefusedVersion refusal_why

definition label_first_ok :: "char \<Rightarrow> bool" where
  "label_first_ok c \<longleftrightarrow> is_ascii_lowercase c \<or> is_ascii_digit c"

definition label_byte_ok :: "char \<Rightarrow> bool" where
  "label_byte_ok c \<longleftrightarrow> is_ascii_lowercase c \<or> is_ascii_digit c \<or> c = CHR ''-''"

fun validate_label :: "string \<Rightarrow> identity_refusal option" where
  "validate_label [] = Some (RefusedAppId IdEmptyLabel)"
| "validate_label (c # cs) =
     (if \<not> label_first_ok c then Some (RefusedAppId IdLabelStart)
      else if \<not> list_all label_byte_ok cs then Some (RefusedAppId IdLabelBody)
      else None)"

text \<open>The loop over the labels: the first refusal is returned, the labels are counted.\<close>

fun validate_labels :: "nat \<Rightarrow> string list \<Rightarrow> identity_refusal + nat" where
  "validate_labels n [] = Inr n"
| "validate_labels n (l # ls) =
     (case validate_label l of Some e \<Rightarrow> Inl e | None \<Rightarrow> validate_labels (n + 1) ls)"

definition validate_app_id :: "string \<Rightarrow> identity_refusal + unit" where
  "validate_app_id s =
     (if s = [] then Inl (RefusedAppId IdEmpty)
      else if length s > MAX_APP_ID_CHARS then Inl (RefusedAppId IdTooLong)
      else case validate_labels 0 (split_on CHR ''.'' s) of
             Inl e \<Rightarrow> Inl e
           | Inr labels \<Rightarrow> if labels < 2 then Inl (RefusedAppId IdOneLabel) else Inr ())"

section \<open>Versions\<close>

datatype app_version = AppVersion (major: nat) (minor: nat) (patch: nat)

definition parse_part :: "version_part \<Rightarrow> string \<Rightarrow> identity_refusal + nat" where
  "parse_part name part =
     (if part = [] then Inl (RefusedVersion (PartEmpty name))
      else if \<not> list_all is_ascii_digit part then Inl (RefusedVersion (PartNotDecimal name))
      else if 1 < length part \<and> starts_with part ''0'' then Inl (RefusedVersion (PartLeadingZero name))
      else case parse_dec u32_max part of
             Some v \<Rightarrow> Inr v
           | None \<Rightarrow> Inl (RefusedVersion (PartTooBig name)))"

fun next_part :: "version_part \<Rightarrow> string list \<Rightarrow> identity_refusal + nat \<times> string list" where
  "next_part name [] = Inl (RefusedVersion (NoPart name))"
| "next_part name (p # ps) =
     (case parse_part name p of Inl e \<Rightarrow> Inl e | Inr v \<Rightarrow> Inr (v, ps))"

definition version_parse :: "string \<Rightarrow> identity_refusal + app_version" where
  "version_parse text =
     (case next_part Major (split_on CHR ''.'' text) of
        Inl e \<Rightarrow> Inl e
      | Inr (a, ps) \<Rightarrow>
          (case next_part Minor ps of
             Inl e \<Rightarrow> Inl e
           | Inr (b, ps) \<Rightarrow>
               (case next_part Patch ps of
                  Inl e \<Rightarrow> Inl e
                | Inr (c, ps) \<Rightarrow>
                    if ps \<noteq> [] then Inl (RefusedVersion MoreThanThree)
                    else Inr (AppVersion a b c))))"

fun version_show :: "app_version \<Rightarrow> string" where
  "version_show (AppVersion a b c) = join_with CHR ''.'' [show_nat a, show_nat b, show_nat c]"

text \<open>\<^verbatim>\<open>Ord for AppVersion\<close>: lexicographic on the three parts.\<close>

definition version_le :: "app_version \<Rightarrow> app_version \<Rightarrow> bool" where
  "version_le v w \<longleftrightarrow> major v < major w \<or> (major v = major w \<and>
      (minor v < minor w \<or> (minor v = minor w \<and> patch v \<le> patch w)))"

instantiation app_version :: linorder
begin

definition less_eq_app_version :: "app_version \<Rightarrow> app_version \<Rightarrow> bool" where
  "less_eq_app_version = version_le"

definition less_app_version :: "app_version \<Rightarrow> app_version \<Rightarrow> bool" where
  "v < w \<longleftrightarrow> v \<le> w \<and> \<not> w \<le> (v::app_version)"

instance
  by standard (auto simp: less_eq_app_version_def version_le_def less_app_version_def app_version.expand)

end

definition version_ok :: "app_version \<Rightarrow> bool" where
  "version_ok v \<longleftrightarrow> major v \<le> u32_max \<and> minor v \<le> u32_max \<and> patch v \<le> u32_max"

section \<open>The grammar, and the round trip\<close>

text \<open>
  The documented grammar, stated without the loop: two or more labels joined by dots, each a
  letter or digit followed by letters, digits and hyphens.
\<close>

definition label_ok :: "string \<Rightarrow> bool" where
  "label_ok l \<longleftrightarrow> (\<exists>c cs. l = c # cs \<and> label_first_ok c \<and> (\<forall>x \<in> set cs. label_byte_ok x))"

lemma validate_label_None: "validate_label l = None \<longleftrightarrow> label_ok l"
  by (cases l) (auto simp: label_ok_def list_all_iff)

lemma validate_labels_Inr:
  "validate_labels n ls = Inr k \<longleftrightarrow> (\<forall>l \<in> set ls. label_ok l) \<and> k = n + length ls"
  by (induction n ls rule: validate_labels.induct)
     (auto simp: validate_label_None [symmetric] split: option.splits)

lemma label_ok_no_dot: "label_ok l \<Longrightarrow> CHR ''.'' \<notin> set l"
proof -
  have "\<not> label_first_ok CHR ''.''" "\<not> label_byte_ok CHR ''.''"
    by (simp_all add: label_first_ok_def label_byte_ok_def char_class_defs)
  then show "label_ok l \<Longrightarrow> CHR ''.'' \<notin> set l" by (auto simp: label_ok_def)
qed

text \<open>
  C10. The validator accepts exactly the documented grammar: an id is accepted iff it is at most
  64 bytes and is two or more well-formed labels joined by dots.
\<close>

theorem app_id_grammar:
  "validate_app_id s = Inr () \<longleftrightarrow>
     length s \<le> MAX_APP_ID_CHARS \<and>
     (\<exists>ls. 2 \<le> length ls \<and> list_all label_ok ls \<and> s = join_with CHR ''.'' ls)"
proof
  assume ok: "validate_app_id s = Inr ()"
  then obtain k where "validate_labels 0 (split_on CHR ''.'' s) = Inr k" "2 \<le> k"
      "length s \<le> MAX_APP_ID_CHARS"
    by (auto simp: validate_app_id_def split: if_splits sum.splits)
  then show "length s \<le> MAX_APP_ID_CHARS \<and>
      (\<exists>ls. 2 \<le> length ls \<and> list_all label_ok ls \<and> s = join_with CHR ''.'' ls)"
    by (intro conjI exI [of _ "split_on CHR ''.'' s"])
       (simp_all add: validate_labels_Inr list_all_iff)
next
  assume "length s \<le> MAX_APP_ID_CHARS \<and>
      (\<exists>ls. 2 \<le> length ls \<and> list_all label_ok ls \<and> s = join_with CHR ''.'' ls)"
  then obtain ls where ls: "length s \<le> MAX_APP_ID_CHARS" "2 \<le> length ls"
      "\<forall>l \<in> set ls. label_ok l" "s = join_with CHR ''.'' ls"
    by (auto simp: list_all_iff)
  have sp: "split_on CHR ''.'' s = ls"
    unfolding ls(4) by (rule split_join) (use ls label_ok_no_dot in auto)
  have "s \<noteq> []" using sp ls(2) by auto
  moreover have "validate_labels 0 ls = Inr (length ls)" using ls by (simp add: validate_labels_Inr)
  ultimately show "validate_app_id s = Inr ()"
    using ls sp by (simp add: validate_app_id_def)
qed

lemma parse_part_Inr:
  "parse_part name p = Inr v \<longleftrightarrow> decimal_ok p \<and> v = dec_value p \<and> v \<le> u32_max"
  by (auto simp: parse_part_def decimal_ok_def parse_dec_def split: option.splits if_splits)

lemma parse_part_ok [simp]:
  "decimal_ok p \<Longrightarrow> dec_value p \<le> u32_max \<Longrightarrow> parse_part name p = Inr (dec_value p)"
  by (simp add: parse_part_Inr)

lemma next_part_Inr:
  "next_part name ps = Inr (v, qs) \<longleftrightarrow>
     (\<exists>p. ps = p # qs \<and> decimal_ok p \<and> v = dec_value p \<and> v \<le> u32_max)"
proof (cases ps)
  case (Cons p ps')
  then show ?thesis using parse_part_Inr [of name p] by (cases "parse_part name p") auto
qed simp

lemma version_parse_Inr:
  "version_parse text = Inr v \<longleftrightarrow>
     (\<exists>a b c. split_on CHR ''.'' text = [a, b, c] \<and> decimal_ok a \<and> decimal_ok b \<and> decimal_ok c \<and>
        v = AppVersion (dec_value a) (dec_value b) (dec_value c) \<and> version_ok v)"
  unfolding version_parse_def version_ok_def
  by (auto simp: next_part_Inr split: sum.splits if_splits)

text \<open>
  Versions are read and written without loss: what is parsed prints back to the very text
  it was read from, and every version whose parts fit 32 bits reads back from its text.
\<close>

theorem app_version_roundtrip:
  "(version_parse text = Inr v \<longrightarrow> version_show v = text \<and> version_ok v) \<and>
   (version_ok v \<longrightarrow> version_parse (version_show v) = Inr v)"
proof (intro conjI impI)
  assume "version_parse text = Inr v"
  then obtain a b c where abc: "split_on CHR ''.'' text = [a, b, c]" "decimal_ok a" "decimal_ok b"
      "decimal_ok c" "v = AppVersion (dec_value a) (dec_value b) (dec_value c)" and ok: "version_ok v"
    by (auto simp: version_parse_Inr)
  from ok show "version_ok v" .
  from abc have "version_show v = join_with CHR ''.'' [a, b, c]" by (simp add: show_dec_value)
  also have "\<dots> = text" using join_split [where s = "text"] by (simp only: abc(1) [symmetric])
  finally show "version_show v = text" .
next
  assume ok: "version_ok v"
  obtain a b c where v: "v = AppVersion a b c" by (cases v)
  have "split_on CHR ''.'' (version_show v) = [show_nat a, show_nat b, show_nat c]"
    unfolding v version_show.simps
    by (rule split_join) (simp_all add: digits_no [OF show_nat_digits not_digit_punct(1)])
  then show "version_parse (version_show v) = Inr v"
    using ok v by (simp add: version_parse_Inr)
qed

theorem app_version_roundtrip_witness:
  "version_parse ''1.4.0'' = Inr (AppVersion 1 4 0) \<and> version_show (AppVersion 1 4 0) = ''1.4.0'' \<and>
   version_parse (version_show (AppVersion 1 4 0)) = Inr (AppVersion 1 4 0)"
proof -
  have p: "version_parse ''1.4.0'' = Inr (AppVersion 1 4 0)"
    by (simp add: version_parse_def parse_part_def string_eval u32_max_def)
  with app_version_roundtrip [of "''1.4.0''" "AppVersion 1 4 0"] show ?thesis by simp
qed

end
