(* ===== verification/App_Storage.thy ===== *)
theory App_Storage
  imports App_Id BTreeMap Conversation_Store Hash_Map "HOL-Library.List_Lexorder" "HOL-Library.Char_ord"
begin

text \<open>
  An app's own storage on the agent (\<^verbatim>\<open>kernel/apps/kv/{mod,namespace}.rs\<close>): the records of one
  install under a prefix of the account's key-value store, an index of them, and the limits the agent
  enforces; and the member's grant to apps of the private network (\<^verbatim>\<open>kernel/apps/settings.rs\<close>). Strings are
  their bytes. \<^verbatim>\<open>hex::encode\<close> is the crate's: the argument \<^verbatim>\<open>hex\<close>, which is relied on to be
  injective and to write only hexadecimal digits. Writes to a namespace hold its lock, so an
  operation runs alone in it.
\<close>

section \<open>Where the entries are (namespace.rs)\<close>

datatype app_kv_refusal = KvNamespace | KvKey | KvValue | KvQuota | KvStorage | KvSession

definition APP_STORAGE_PREFIX :: string where "APP_STORAGE_PREFIX = ''app:''"
definition APP_KV_MAX_KEY_BYTES :: nat where "APP_KV_MAX_KEY_BYTES = 256"
definition APP_KV_MAX_VALUE_BYTES :: nat where "APP_KV_MAX_VALUE_BYTES = 256 * 1024"
definition APP_KV_MAX_TOTAL_BYTES :: nat where "APP_KV_MAX_TOTAL_BYTES = 4 * 1024 * 1024"
definition APP_KV_ENTRY_OVERHEAD_BYTES :: nat where "APP_KV_ENTRY_OVERHEAD_BYTES = 256"
definition APP_KV_LIST_PAGE :: nat where "APP_KV_LIST_PAGE = 100"
definition MAX_SCOPE_KEY_BYTES :: nat where "MAX_SCOPE_KEY_BYTES = 256"

record namespace =
  ns_prefix :: string

definition namespace_new :: "(string \<Rightarrow> string) \<Rightarrow> string \<Rightarrow> string \<Rightarrow> string \<Rightarrow> app_kv_refusal + namespace" where
  "namespace_new hex app_id scope_key username =
     (case validate_app_id app_id of
        Inl _ \<Rightarrow> Inl KvNamespace
      | Inr _ \<Rightarrow>
          let scope_ok = (scope_key \<noteq> [] \<and> length scope_key \<le> MAX_SCOPE_KEY_BYTES \<and> list_all is_ascii_graphic scope_key)
          in if \<not> scope_ok \<or> username = [] then Inl KvNamespace
             else Inr \<lparr>ns_prefix = APP_STORAGE_PREFIX @ app_id @ '':'' @ hex scope_key @ '':'' @ hex username @ '':''\<rparr>)"

definition ns_index :: "namespace \<Rightarrow> string" where "ns_index ns = ns_prefix ns @ ''i''"

definition ns_entry :: "(string \<Rightarrow> string) \<Rightarrow> namespace \<Rightarrow> string \<Rightarrow> app_kv_refusal + string" where
  "ns_entry hex ns key =
     (if key = [] \<or> APP_KV_MAX_KEY_BYTES < length key then Inl KvKey
      else Inr (ns_prefix ns @ ''k:'' @ hex key))"

section \<open>The operations (mod.rs)\<close>

datatype app_kv_op =
    KvGet string
  | KvSet string "octet list"
  | KvDelete string
  | KvList "string option" "string option"

datatype app_kv_result =
    KvFound "octet list option"
  | KvDone
  | KvKeys "string list" "string option"

type_synonym kv_index = "(string, nat) btree"

text \<open>Sizes are \<^verbatim>\<open>u64\<close>; a sum that overflows panics.\<close>

definition cost :: "string \<Rightarrow> nat \<Rightarrow> nat option" where
  "cost key value_len =
     Option.bind (checked_add u64_max (length key) value_len) (\<lambda>n. checked_add u64_max n APP_KV_ENTRY_OVERHEAD_BYTES)"

fun index_used :: "kv_index \<Rightarrow> nat \<Rightarrow> nat option" where
  "index_used [] acc = Some acc"
| "index_used ((k, n) # idx) acc =
     Option.bind (cost k n) (\<lambda>c. Option.bind (checked_add u64_max acc c) (index_used idx))"

definition used_after :: "kv_index \<Rightarrow> string \<Rightarrow> nat \<Rightarrow> nat option" where
  "used_after idx key value_len =
     Option.bind (index_used idx 0) (\<lambda>used.
     Option.bind (case bt_get idx key of None \<Rightarrow> Some 0 | Some n \<Rightarrow> cost key n) (\<lambda>replaced.
     if used < replaced then None
     else Option.bind (cost key value_len) (\<lambda>c. checked_add u64_max (used - replaced) c)))"

text \<open>A store call whose failure refuses the request.\<close>

definition storage :: "'a kvm \<Rightarrow> (app_kv_refusal + 'a) kvm" where
  "storage m s =
     (case m s of
        (KOk x, s) \<Rightarrow> (KOk (Inr x), s)
      | (KErr _, s) \<Rightarrow> (KOk (Inl KvStorage), s)
      | (KPanic, s) \<Rightarrow> (KPanic, s))"

definition abind :: "(app_kv_refusal + 'a) kvm \<Rightarrow> ('a \<Rightarrow> (app_kv_refusal + 'b) kvm) \<Rightarrow> (app_kv_refusal + 'b) kvm" where
  "abind m f = kbind m (\<lambda>r. case r of Inl e \<Rightarrow> kret (Inl e) | Inr x \<Rightarrow> f x)"

definition index_json :: "kv_index \<Rightarrow> json" where
  "index_json idx = json_obj (map (\<lambda>(k, n). (k, json_nat n)) idx)"

definition de_index :: "json \<Rightarrow> stored_error + kv_index" where
  "de_index v =
     (case v of
        JObj m \<Rightarrow> de_all (\<lambda>(k, x). and_then (de_nat u64_max x) (\<lambda>n. Inr (k, n))) (sorted_list_of_fmap m)
      | _ \<Rightarrow> Inl Serde)"

definition read_index :: "json_text \<Rightarrow> namespace \<Rightarrow> (app_kv_refusal + kv_index) kvm" where
  "read_index J ns =
     storage (kbind (kv_get (ns_index ns)) (\<lambda>found. case found of
         None \<Rightarrow> kret []
       | Some bytes \<Rightarrow> klift (and_then (parse_json J bytes) de_index)))"

definition write_index :: "json_text \<Rightarrow> namespace \<Rightarrow> kv_index \<Rightarrow> (app_kv_refusal + unit) kvm" where
  "write_index J ns idx =
     storage (kbind (klift (print_json J (index_json idx))) (kv_set (ns_index ns)))"

definition with_entry ::
  "(string \<Rightarrow> string) \<Rightarrow> namespace \<Rightarrow> string \<Rightarrow> (string \<Rightarrow> (app_kv_refusal + 'a) kvm) \<Rightarrow> (app_kv_refusal + 'a) kvm" where
  "with_entry hex ns key f = (case ns_entry hex ns key of Inl e \<Rightarrow> kret (Inl e) | Inr entry \<Rightarrow> f entry)"

definition app_set :: "json_text \<Rightarrow> namespace \<Rightarrow> string \<Rightarrow> string \<Rightarrow> octet list \<Rightarrow> (app_kv_refusal + app_kv_result) kvm" where
  "app_set J ns entry key val =
     (if APP_KV_MAX_VALUE_BYTES < length val then kret (Inl KvValue)
      else
        abind (read_index J ns) (\<lambda>idx.
          case used_after idx key (length val) of
            None \<Rightarrow> kpanic
          | Some after \<Rightarrow>
              if APP_KV_MAX_TOTAL_BYTES < after then kret (Inl KvQuota)
              else
                abind (write_index J ns (bt_insert key (length val) idx)) (\<lambda>_.
                abind (storage (kv_set entry val)) (\<lambda>_. kret (Inr KvDone)))))"

definition app_delete :: "json_text \<Rightarrow> namespace \<Rightarrow> string \<Rightarrow> string \<Rightarrow> (app_kv_refusal + app_kv_result) kvm" where
  "app_delete J ns entry key =
     abind (storage (kv_delete entry)) (\<lambda>_.
     abind (read_index J ns) (\<lambda>idx.
       if bt_get idx key = None then kret (Inr KvDone)
       else abind (write_index J ns (bt_remove key idx)) (\<lambda>_. kret (Inr KvDone))))"

definition matching :: "string option \<Rightarrow> string option \<Rightarrow> kv_index \<Rightarrow> string list" where
  "matching pre after idx =
     filter (\<lambda>k. case after of None \<Rightarrow> True | Some a \<Rightarrow> a < k)
       (filter (\<lambda>k. starts_with k (case pre of Some p \<Rightarrow> p | None \<Rightarrow> [])) (map fst idx))"

definition list_page :: "string list \<Rightarrow> app_kv_result" where
  "list_page found =
     (let keys = take APP_KV_LIST_PAGE found
      in KvKeys keys (if APP_KV_LIST_PAGE < length found then Some (last keys) else None))"

definition app_kv_run :: "json_text \<Rightarrow> (string \<Rightarrow> string) \<Rightarrow> namespace \<Rightarrow> app_kv_op \<Rightarrow> (app_kv_refusal + app_kv_result) kvm" where
  "app_kv_run J hex ns op =
     (case op of
        KvGet key \<Rightarrow>
          with_entry hex ns key (\<lambda>entry. abind (storage (kv_get entry)) (\<lambda>v. kret (Inr (KvFound v))))
      | KvSet key val \<Rightarrow> with_entry hex ns key (\<lambda>entry. app_set J ns entry key val)
      | KvDelete key \<Rightarrow> with_entry hex ns key (\<lambda>entry. app_delete J ns entry key)
      | KvList pre after \<Rightarrow>
          abind (read_index J ns) (\<lambda>idx. kret (Inr (list_page (matching pre after idx)))))"

section \<open>The private network (settings.rs)\<close>

definition AGENT_KEY_PREFIX :: string where "AGENT_KEY_PREFIX = ''agent:''"
definition PRIVATE_NETWORK_KEY :: string where "PRIVATE_NETWORK_KEY = ''agent:apps_private_network''"

definition decode_grant :: "octet list option \<Rightarrow> stored_error + bool option" where
  "decode_grant stored =
     (case stored of
        None \<Rightarrow> Inr None
      | Some bs \<Rightarrow> if bs = [1] then Inr (Some True) else if bs = [0] then Inr (Some False) else Inl Serde)"

text \<open>The grants kept in memory, beside the store of the account asked for.\<close>

definition private_network :: "cid \<Rightarrow> (cid, bool option) hmap \<Rightarrow> kv \<Rightarrow> bool option res \<times> (cid, bool option) hmap \<times> kv" where
  "private_network c known s =
     (case hm_get known c of
        Some g \<Rightarrow> (KOk g, known, s)
      | None \<Rightarrow>
          (case kbind (kv_get PRIVATE_NETWORK_KEY) (\<lambda>stored. klift (decode_grant stored)) s of
             (KOk g, s) \<Rightarrow> (KOk g, hm_insert c g known, s)
           | (r, s) \<Rightarrow> (r, known, s)))"

definition set_private_network :: "cid \<Rightarrow> bool \<Rightarrow> (cid, bool option) hmap \<Rightarrow> kv \<Rightarrow> unit res \<times> (cid, bool option) hmap \<times> kv" where
  "set_private_network c on known s =
     (case kv_set PRIVATE_NETWORK_KEY [if on then 1 else 0] s of
        (KOk u, s) \<Rightarrow> (KOk u, hm_insert c (Some on) known, s)
      | (r, s) \<Rightarrow> (r, known, s))"

end
