(* ===== verification/App_Storage_Safety.thy ===== *)
theory App_Storage_Safety
  imports App_Storage Conversation_Safety
begin

text \<open>
  What an app's storage promises: whatever calls of the store fail, the limits hold and another
  install's records are untouched; without failures the storage is a map with a quota.
\<close>

section \<open>The index\<close>

definition index_total :: "kv_index \<Rightarrow> nat" where
  "index_total idx = sum_list (map (\<lambda>(k, n). length k + n + APP_KV_ENTRY_OVERHEAD_BYTES) idx)"

lemma index_total_simps [simp]:
  "index_total [] = 0" "index_total ((k, n) # idx) = length k + n + APP_KV_ENTRY_OVERHEAD_BYTES + index_total idx"
  by (simp_all add: index_total_def)

lemma cost_eq: "cost k n = (if length k + n + APP_KV_ENTRY_OVERHEAD_BYTES \<le> u64_max
    then Some (length k + n + APP_KV_ENTRY_OVERHEAD_BYTES) else None)"
  by (auto simp: cost_def checked_add_def bind_eq_Some_conv split: if_splits)

lemma index_used_eq: "acc \<le> u64_max \<Longrightarrow>
    index_used idx acc = (if acc + index_total idx \<le> u64_max then Some (acc + index_total idx) else None)"
  by (induction idx acc rule: index_used.induct) (auto simp: cost_eq checked_add_def)

lemma index_total_get: "bt_get idx k = Some n \<Longrightarrow> length k + n + APP_KV_ENTRY_OVERHEAD_BYTES \<le> index_total idx"
  by (induction idx k rule: bt_get.induct) (auto split: if_splits)

lemma bt_get_greater: "\<forall>p \<in> set idx. k < fst p \<Longrightarrow> bt_get idx k = None" for k :: "'a::linorder"
  by (auto simp: bt_get_None)

lemma index_total_insert:
  "bt_wf idx \<Longrightarrow> index_total (bt_insert k n idx) =
     index_total idx - (case bt_get idx k of None \<Rightarrow> 0 | Some m \<Rightarrow> length k + m + APP_KV_ENTRY_OVERHEAD_BYTES)
       + (length k + n + APP_KV_ENTRY_OVERHEAD_BYTES)"
proof (induction k n idx rule: bt_insert.induct)
  case (2 k v j w m)
  have none: "k < j \<Longrightarrow> bt_get m k = None" using 2(2) by (intro bt_get_greater) force
  show ?case using 2 none index_total_get [of m k] by (auto split: option.splits)
qed simp

lemma index_total_remove: "index_total (bt_remove k idx) \<le> index_total idx"
  by (induction k idx rule: bt_remove.induct) auto

text \<open>As stored, and what it costs once a value is set.\<close>

lemma used_after_eq:
  assumes "bt_wf idx" and "index_total idx \<le> APP_KV_MAX_TOTAL_BYTES" and "length k \<le> APP_KV_MAX_KEY_BYTES"
    and "n \<le> APP_KV_MAX_VALUE_BYTES"
  shows "used_after idx k n = Some (index_total (bt_insert k n idx))"
proof (cases "bt_get idx k")
  case None
  then show ?thesis using assms
    by (simp add: used_after_def index_used_eq index_total_insert cost_eq checked_add_def u64_max_def
      APP_KV_MAX_TOTAL_BYTES_def APP_KV_MAX_KEY_BYTES_def APP_KV_MAX_VALUE_BYTES_def APP_KV_ENTRY_OVERHEAD_BYTES_def)
next
  case (Some m)
  with index_total_get [OF this] show ?thesis using assms
    by (simp add: used_after_def index_used_eq index_total_insert cost_eq checked_add_def u64_max_def
      APP_KV_MAX_TOTAL_BYTES_def APP_KV_MAX_KEY_BYTES_def APP_KV_MAX_VALUE_BYTES_def APP_KV_ENTRY_OVERHEAD_BYTES_def)
qed

lemma sorted_list_of_fmap_list:
  fixes xs :: "('k::linorder \<times> 'v) list"
  assumes "sorted_wrt (<) (map fst xs)"
  shows "sorted_list_of_fmap (fmap_of_list xs) = xs"
proof -
  have d: "distinct (map fst xs)" and s: "sorted (map fst xs)" using assms by (simp_all add: strict_sorted_iff)
  have "sorted_list_of_fset (fmdom (fmap_of_list xs)) = map fst xs"
    by (simp add: sorted_list_of_fset.rep_eq fset_of_list.rep_eq sorted_list_of_set.idem_if_sorted_distinct d s
        flip: set_map)
  then show ?thesis using d
    by (auto simp: sorted_list_of_fmap_def fmlookup_of_list intro!: map_idI)
qed

lemma index_back:
  assumes "bt_wf idx" and "index_total idx \<le> u64_max"
  shows "de_index (index_json idx) = Inr idx"
proof -
  have "n \<le> u64_max" if "(k, n) \<in> set idx" for k n
    using index_total_get [of idx k n] that assms by (simp add: bt_get_iff)
  then have "de_all (\<lambda>(k, x). and_then (de_nat u64_max x) (\<lambda>n. Inr (k, n))) (map (\<lambda>(k, n). (k, json_nat n)) idx) = Inr (map id idx)"
    by (intro de_all_map) (auto simp: de_nat_json)
  moreover have "sorted_list_of_fmap (fmap_of_list (map (\<lambda>(k, n). (k, json_nat n)) idx)) = map (\<lambda>(k, n). (k, json_nat n)) idx"
    using assms(1) by (intro sorted_list_of_fmap_list) (simp add: bt_wf_def case_prod_beta comp_def)
  ultimately show ?thesis by (simp add: de_index_def index_json_def json_obj_def)
qed

lemma index_within: "json_within (index_json idx) 127"
  unfolding index_json_def json_obj_def by (intro json_within_of_list) (auto simp: list_all_iff)

lemma index_whole:
  assumes "bt_wf idx" and "index_total idx \<le> APP_KV_MAX_TOTAL_BYTES"
  shows "json_whole (index_json idx)"
proof -
  have "n \<le> APP_KV_MAX_TOTAL_BYTES" if "(k, n) \<in> set idx" for k n
    using index_total_get [of idx k n] that assms by (simp add: bt_get_iff)
  then have "list_all (\<lambda>(k, v). json_whole v) (map (\<lambda>(k, n). (k, json_nat n)) idx)"
    by (force simp: list_all_iff json_nat_def APP_KV_MAX_TOTAL_BYTES_def)
  then show ?thesis
    by (auto simp: index_json_def json_obj_def fmpred_iff fmlookup_of_list list_all_iff dest!: map_of_SomeD)
qed

section \<open>Calls that do not panic\<close>

named_theorems calm_rules

definition calm :: "'a kvm \<Rightarrow> bool" where "calm m \<longleftrightarrow> (\<forall>s. fst (m s) \<noteq> KPanic)"

lemma calm_prims [calm_rules]: "calm (kv_get k)" "calm (kv_put k v)" "calm (kv_set k w)" "calm (kret x)" "calm (klift r)"
  by (auto simp: calm_def kv_get_def kv_set_def kv_put_def kret_def klift_def next_fault_def
      split: list.splits fault.splits sum.splits)

lemma calm_bind [calm_rules]: "calm m \<Longrightarrow> (\<And>x. calm (f x)) \<Longrightarrow> calm (kbind m f)"
  unfolding calm_def kbind_def by (auto split: prod.splits res.splits) (metis fst_conv)

text \<open>A request is refused, never failed: what a store call leaves when it fails is left by the refusal.\<close>

lemma runs_storage:
  assumes "runs P m (\<lambda>x. Q (Inr x)) (Q (Inl KvStorage))" and "calm m"
  shows "runs P (storage m) Q (\<lambda>_. False)"
  using assms unfolding runs_def storage_def calm_def
  by (auto split: prod.splits res.splits) (metis fst_conv)+

lemma runs_abind:
  assumes "runs P m (\<lambda>r s. case r of Inl e \<Rightarrow> Q (Inl e) s | Inr x \<Rightarrow> R x s) E" and "\<And>x. runs (R x) (f x) Q E"
  shows "runs P (abind m f) Q E"
  unfolding abind_def
proof (rule runs_bind [OF assms(1)])
  fix r show "runs (\<lambda>s. case r of Inl e \<Rightarrow> Q (Inl e) s | Inr x \<Rightarrow> R x s) (case r of Inl e \<Rightarrow> kret (Inl e) | Inr x \<Rightarrow> f x) Q E"
    using assms(2) by (cases r) auto
qed

section \<open>What the namespace holds\<close>

definition index_of :: "json_text \<Rightarrow> namespace \<Rightarrow> (string \<Rightarrow> octet list option) \<Rightarrow> kv_index option" where
  "index_of J ns M =
     (case M (ns_index ns) of
        None \<Rightarrow> Some []
      | Some b \<Rightarrow> (case and_then (parse_json J b) de_index of Inr idx \<Rightarrow> Some idx | Inl _ \<Rightarrow> None))"

definition hex_ok :: "(string \<Rightarrow> string) \<Rightarrow> bool" where
  "hex_ok hex \<longleftrightarrow> inj hex \<and> (\<forall>s. CHR '':'' \<notin> set (hex s))"

definition holds :: "(string \<Rightarrow> string) \<Rightarrow> namespace \<Rightarrow> (string \<Rightarrow> octet list option) \<Rightarrow> string \<Rightarrow> octet list option" where
  "holds hex ns M k = (case ns_entry hex ns k of Inl _ \<Rightarrow> None | Inr e \<Rightarrow> M e)"

lemma ns_entry_iff: "ns_entry hex ns k = Inr e \<longleftrightarrow>
    k \<noteq> [] \<and> length k \<le> APP_KV_MAX_KEY_BYTES \<and> e = ns_prefix ns @ ''k:'' @ hex k"
  by (auto simp: ns_entry_def)

lemma entry_not_index: "ns_entry hex ns k = Inr e \<Longrightarrow> e \<noteq> ns_index ns"
  by (auto simp: ns_entry_iff ns_index_def)

lemma entry_inj: "hex_ok hex \<Longrightarrow> ns_entry hex ns k = Inr e \<Longrightarrow> ns_entry hex ns k' = Inr e \<Longrightarrow> k' = k"
  by (auto simp: ns_entry_iff hex_ok_def inj_eq)

lemma holds_index [simp]: "holds hex ns (M(ns_index ns := b)) = holds hex ns M"
  by (rule ext) (simp add: holds_def entry_not_index split: sum.split)

lemma holds_entry:
  assumes "hex_ok hex" and "ns_entry hex ns k = Inr e"
  shows "holds hex ns (M(e := v)) = (holds hex ns M)(k := v)"
proof
  fix k'
  show "holds hex ns (M(e := v)) k' = ((holds hex ns M)(k := v)) k'"
  proof (cases "k' = k")
    case True
    with assms(2) show ?thesis by (simp add: holds_def)
  next
    case False
    then have "ns_entry hex ns k' \<noteq> Inr e" using entry_inj [OF assms] by blast
    with False show ?thesis by (simp add: holds_def split: sum.split)
  qed
qed

lemma index_of_entry [simp]: "ns_entry hex ns k = Inr e \<Longrightarrow> index_of J ns (M(e := v)) = index_of J ns M"
  by (drule entry_not_index) (simp add: index_of_def)

lemma index_written:
  assumes "json_text_ok J" and "bt_wf idx" and "index_total idx \<le> APP_KV_MAX_TOTAL_BYTES"
  obtains b where "print_json J (index_json idx) = Inr b" "\<And>M. index_of J ns (M(ns_index ns := Some b)) = Some idx"
proof -
  obtain b where b: "jt_print J (index_json idx) = Some b" "jt_parse J b = Some (index_json idx)"
    using assms(1) index_whole [OF assms(2,3)] index_within by (auto simp: json_text_ok_def)
  have "index_total idx \<le> u64_max" using assms(3) by (simp add: APP_KV_MAX_TOTAL_BYTES_def u64_max_def)
  from index_back [OF assms(2) this] b show ?thesis
    by (intro that [of b]) (simp_all add: print_json_def parse_json_def index_of_def)
qed

lemma read_index_runs:
  "runs (\<lambda>s. kv_map s = M) (read_index J ns)
    (\<lambda>r s. kv_map s = M \<and> (case r of Inr idx \<Rightarrow> index_of J ns M = Some idx | Inl _ \<Rightarrow> True)) (\<lambda>_. False)"
  unfolding read_index_def
proof (rule runs_storage)
  show "runs (\<lambda>s. kv_map s = M) (kbind (kv_get (ns_index ns)) (\<lambda>found. case found of
         None \<Rightarrow> kret [] | Some bytes \<Rightarrow> klift (and_then (parse_json J bytes) de_index)))
      (\<lambda>x s. kv_map s = M \<and> (case Inr x of Inr idx \<Rightarrow> index_of J ns M = Some idx | Inl _ \<Rightarrow> True))
      (\<lambda>s. kv_map s = M \<and> (case Inl KvStorage of Inr idx \<Rightarrow> index_of J ns M = Some idx | Inl _ \<Rightarrow> True))"
  proof (rule runs_bind [where R = "\<lambda>found s. kv_map s = M \<and> found = M (ns_index ns)"])
    fix found
    show "runs (\<lambda>s. kv_map s = M \<and> found = M (ns_index ns))
        (case found of None \<Rightarrow> kret [] | Some bytes \<Rightarrow> klift (and_then (parse_json J bytes) de_index))
      (\<lambda>x s. kv_map s = M \<and> (case Inr x of Inr idx \<Rightarrow> index_of J ns M = Some idx | Inl _ \<Rightarrow> True))
      (\<lambda>s. kv_map s = M \<and> (case Inl KvStorage of Inr idx \<Rightarrow> index_of J ns M = Some idx | Inl _ \<Rightarrow> True))"
    proof (cases found)
      case (Some b)
      then show ?thesis by (auto simp: index_of_def intro!: runs_lift split: option.split)
    qed (auto simp: index_of_def intro!: runs_ret)
  qed (auto intro!: runs_get)
qed (intro calm_rules allI conjI impI | split option.split)+

lemma write_index_runs:
  assumes "print_json J (index_json idx) = Inr b"
  shows "runs (\<lambda>s. kv_map s = M) (write_index J ns idx)
    (\<lambda>r s. kv_map s = M(ns_index ns := Some b) \<or> kv_map s = M \<and> (\<exists>e. r = Inl e)) (\<lambda>_. False)"
  unfolding write_index_def assms kbind_simps
  by (rule runs_storage) (auto simp: kv_set_def intro!: runs_put calm_rules)

section \<open>The limits, whatever fails\<close>

definition storage_inv :: "json_text \<Rightarrow> (string \<Rightarrow> string) \<Rightarrow> namespace \<Rightarrow> (string \<Rightarrow> octet list option) \<Rightarrow> bool" where
  "storage_inv J hex ns M \<longleftrightarrow>
     (\<exists>idx. index_of J ns M = Some idx \<and> bt_wf idx \<and> index_total idx \<le> APP_KV_MAX_TOTAL_BYTES \<and>
       (\<forall>k v. holds hex ns M k = Some v \<longrightarrow> bt_get idx k \<noteq> None \<and> length v \<le> APP_KV_MAX_VALUE_BYTES))"

lemma storage_invI:
  "index_of J ns M = Some idx \<Longrightarrow> bt_wf idx \<Longrightarrow> index_total idx \<le> APP_KV_MAX_TOTAL_BYTES \<Longrightarrow>
   (\<And>k v. holds hex ns M k = Some v \<Longrightarrow> bt_get idx k \<noteq> None \<and> length v \<le> APP_KV_MAX_VALUE_BYTES) \<Longrightarrow> storage_inv J hex ns M"
  by (auto simp: storage_inv_def)

lemma app_set_inv:
  assumes J: "json_text_ok J" and H: "hex_ok hex" and inv: "storage_inv J hex ns M" and e: "ns_entry hex ns key = Inr entry"
  shows "runs (\<lambda>s. kv_map s = M) (app_set J ns entry key val) (\<lambda>_ s. storage_inv J hex ns (kv_map s)) (\<lambda>_. False)" (is "runs _ _ ?Q _")
proof (cases "APP_KV_MAX_VALUE_BYTES < length val")
  case True
  with inv show ?thesis by (auto simp: app_set_def)
next
  case False
  from inv obtain idx where idx: "index_of J ns M = Some idx" "bt_wf idx" "index_total idx \<le> APP_KV_MAX_TOTAL_BYTES"
      and h: "\<And>k v. holds hex ns M k = Some v \<Longrightarrow> bt_get idx k \<noteq> None \<and> length v \<le> APP_KV_MAX_VALUE_BYTES"
    unfolding storage_inv_def by blast
  let ?idx = "bt_insert key (length val) idx"
  have key: "length key \<le> APP_KV_MAX_KEY_BYTES" using e by (simp add: ns_entry_iff)
  have after: "used_after idx key (length val) = Some (index_total ?idx)"
    using used_after_eq [OF idx(2,3) key] False by simp
  have wf: "bt_wf ?idx" using idx(2) by simp
  have set: "runs (\<lambda>s. kv_map s = M \<and> index_of J ns M = Some i)
      (case used_after i key (length val) of None \<Rightarrow> kpanic
       | Some after \<Rightarrow> if APP_KV_MAX_TOTAL_BYTES < after then kret (Inl KvQuota)
           else abind (write_index J ns (bt_insert key (length val) i)) (\<lambda>_.
             abind (storage (kv_set entry val)) (\<lambda>_. kret (Inr KvDone)))) ?Q (\<lambda>_. False)" for i
  proof (cases "i = idx \<and> index_total ?idx \<le> APP_KV_MAX_TOTAL_BYTES")
    case True
    obtain b where b: "print_json J (index_json ?idx) = Inr b" "\<And>M. index_of J ns (M(ns_index ns := Some b)) = Some ?idx"
      using index_written [OF J wf] True by blast
    have one: "storage_inv J hex ns (M(ns_index ns := Some b))"
      by (rule storage_invI [OF b(2) wf]) (use True h idx(2) in auto)
    have two: "storage_inv J hex ns (M(ns_index ns := Some b, entry := Some val))"
      by (rule storage_invI [of J ns _ ?idx]) (use True h idx(2) b(2) wf e False in \<open>auto simp: holds_entry [OF H e] split: if_splits\<close>)
    have "runs (\<lambda>s. kv_map s = M) (abind (write_index J ns ?idx) (\<lambda>_.
        abind (storage (kv_set entry val)) (\<lambda>_. kret (Inr KvDone)))) ?Q (\<lambda>_. False)"
    proof (rule runs_abind [where R = "\<lambda>_ s. kv_map s = M(ns_index ns := Some b)"])
      show "runs (\<lambda>s. kv_map s = M) (write_index J ns ?idx)
          (\<lambda>r s. case r of Inl e \<Rightarrow> storage_inv J hex ns (kv_map s) | Inr x \<Rightarrow> kv_map s = M(ns_index ns := Some b)) (\<lambda>_. False)"
        by (rule runs_conseq [OF write_index_runs [OF b(1)]]) (use inv one in \<open>auto split: sum.split\<close>)
    next
      show "runs (\<lambda>s. kv_map s = M(ns_index ns := Some b)) (abind (storage (kv_set entry val)) (\<lambda>_. kret (Inr KvDone))) ?Q (\<lambda>_. False)"
        by (rule runs_abind [where R = "\<lambda>_ s. storage_inv J hex ns (kv_map s)"], rule runs_storage)
          (use one two in \<open>auto simp: kv_set_def intro!: runs_put calm_rules\<close>)
    qed
    with True after show ?thesis by (auto elim!: runs_pre)
  next
    case out: False
    show ?thesis
    proof (cases "i = idx")
      case True
      with out after inv show ?thesis by auto
    qed (use idx(1) in \<open>auto simp: runs_def\<close>)
  qed
  have "runs (\<lambda>s. kv_map s = M) (app_set J ns entry key val) ?Q (\<lambda>_. False)"
    unfolding app_set_def using False
    by (simp, intro runs_abind [OF _ set] runs_conseq [OF read_index_runs]) (use inv in \<open>auto split: sum.split\<close>)
  then show ?thesis .
qed

lemma app_delete_inv:
  assumes J: "json_text_ok J" and H: "hex_ok hex" and inv: "storage_inv J hex ns M" and e: "ns_entry hex ns key = Inr entry"
  shows "runs (\<lambda>s. kv_map s = M) (app_delete J ns entry key) (\<lambda>_ s. storage_inv J hex ns (kv_map s)) (\<lambda>_. False)" (is "runs _ _ ?Q _")
proof -
  from inv obtain idx where idx: "index_of J ns M = Some idx" "bt_wf idx" "index_total idx \<le> APP_KV_MAX_TOTAL_BYTES"
      and h: "\<And>k v. holds hex ns M k = Some v \<Longrightarrow> bt_get idx k \<noteq> None \<and> length v \<le> APP_KV_MAX_VALUE_BYTES"
    unfolding storage_inv_def by blast
  let ?M = "M(entry := None)" and ?idx = "bt_remove key idx"
  have wf: "bt_wf ?idx" using idx(2) by simp
  have small: "index_total ?idx \<le> APP_KV_MAX_TOTAL_BYTES" using index_total_remove idx(3) le_trans by blast
  obtain b where b: "print_json J (index_json ?idx) = Inr b" "\<And>M. index_of J ns (M(ns_index ns := Some b)) = Some ?idx"
    using index_written [OF J wf small] by blast
  have one: "storage_inv J hex ns ?M"
    by (rule storage_invI [of J ns _ idx]) (use idx h e in \<open>auto simp: holds_entry [OF H e] split: if_splits\<close>)
  have two: "storage_inv J hex ns (?M(ns_index ns := Some b))"
    by (rule storage_invI [OF b(2) wf small]) (use idx h in \<open>auto simp: holds_entry [OF H e] split: if_splits\<close>)
  have ret: "runs (\<lambda>s. storage_inv J hex ns (kv_map s)) (kret x) ?Q (\<lambda>_. False)" for x :: "app_kv_refusal + app_kv_result"
    by auto
  have wr: "runs (\<lambda>s. kv_map s = ?M) (abind (write_index J ns ?idx) (\<lambda>_. kret (Inr KvDone))) ?Q (\<lambda>_. False)"
    by (rule runs_abind [OF _ ret], rule runs_conseq [OF write_index_runs [OF b(1)]])
      (use one two in \<open>auto split: sum.split\<close>)
  have read: "runs (\<lambda>s. kv_map s = ?M) (abind (read_index J ns) (\<lambda>i.
      if bt_get i key = None then kret (Inr KvDone)
      else abind (write_index J ns (bt_remove key i)) (\<lambda>_. kret (Inr KvDone)))) ?Q (\<lambda>_. False)"
  proof (rule runs_abind [where R = "\<lambda>i s. kv_map s = ?M \<and> i = idx"])
    show "runs (\<lambda>s. kv_map s = ?M) (read_index J ns)
      (\<lambda>r s. case r of Inl e \<Rightarrow> storage_inv J hex ns (kv_map s) | Inr i \<Rightarrow> kv_map s = ?M \<and> i = idx) (\<lambda>_. False)"
      by (rule runs_conseq [OF read_index_runs]) (use one idx(1) e in \<open>auto split: sum.split sum.splits\<close>)
    show "runs (\<lambda>s. kv_map s = ?M \<and> i = idx) (if bt_get i key = None then kret (Inr KvDone)
      else abind (write_index J ns (bt_remove key i)) (\<lambda>_. kret (Inr KvDone))) ?Q (\<lambda>_. False)" for i
      by (cases "i = idx") (use one runs_pre [OF wr] in \<open>auto simp: runs_def [of "\<lambda>_. False"]\<close>)
  qed
  show ?thesis unfolding app_delete_def
    by (rule runs_abind [OF _ read], rule runs_storage)
      (use one inv in \<open>auto simp: kv_delete_def intro!: runs_put calm_rules\<close>)
qed

lemma app_kv_run_inv:
  assumes "json_text_ok J" and "hex_ok hex" and "storage_inv J hex ns M"
  shows "runs (\<lambda>s. kv_map s = M) (app_kv_run J hex ns op) (\<lambda>_ s. storage_inv J hex ns (kv_map s)) (\<lambda>_. False)" (is "runs _ _ ?Q _")
proof -
  have ret: "runs (\<lambda>s. storage_inv J hex ns (kv_map s)) (kret x) ?Q (\<lambda>_. False)" for x :: "app_kv_refusal + app_kv_result"
    by auto
  have get: "runs (\<lambda>s. kv_map s = M) (abind (storage (kv_get e)) (\<lambda>v. kret (Inr (KvFound v)))) ?Q (\<lambda>_. False)" for e
    by (rule runs_abind [OF _ ret], rule runs_storage) (use assms(3) in \<open>auto intro!: runs_get calm_rules\<close>)
  have list: "runs (\<lambda>s. kv_map s = M) (abind (read_index J ns) (\<lambda>i. kret (Inr (f i)))) ?Q (\<lambda>_. False)" for f
    by (rule runs_abind [OF _ ret], rule runs_conseq [OF read_index_runs]) (use assms(3) in \<open>auto split: sum.split\<close>)
  have refuse: "runs (\<lambda>s. kv_map s = M) (kret x) ?Q (\<lambda>_. False)" for x :: "app_kv_refusal + app_kv_result"
    using assms(3) by auto
  show ?thesis unfolding app_kv_run_def with_entry_def
    using get list refuse app_set_inv [OF assms] app_delete_inv [OF assms]
    by (auto split: app_kv_op.split sum.split)
qed

section \<open>Histories\<close>

definition app_history :: "json_text \<Rightarrow> (string \<Rightarrow> string) \<Rightarrow> namespace \<Rightarrow> app_kv_op list \<Rightarrow> kv \<Rightarrow> kv" where
  "app_history J hex ns ops s = foldl (\<lambda>s op. snd (app_kv_run J hex ns op s)) s ops"

lemma app_kv_run_step:
  assumes "json_text_ok J" and "hex_ok hex" and "storage_inv J hex ns (kv_map s)" and "app_kv_run J hex ns op s = (r, s')"
  shows "(\<exists>x. r = KOk x) \<and> storage_inv J hex ns (kv_map s')"
proof -
  have "case app_kv_run J hex ns op s of (KOk x, s') \<Rightarrow> storage_inv J hex ns (kv_map s') | (KErr e, s') \<Rightarrow> False | (KPanic, s') \<Rightarrow> False"
    using app_kv_run_inv [OF assms(1-3), of op] unfolding runs_def by (elim allE [of _ s]) simp
  then show ?thesis unfolding assms(4) by (cases r) simp_all
qed

lemma app_history_inv:
  assumes "json_text_ok J" and "hex_ok hex" and "storage_inv J hex ns (kv_map s)"
  shows "storage_inv J hex ns (kv_map (app_history J hex ns ops s))"
  using assms(3)
proof (induction ops arbitrary: s)
  case (Cons op ops)
  obtain r s' where run: "app_kv_run J hex ns op s = (r, s')" by fastforce
  have "storage_inv J hex ns (kv_map s')"
    using app_kv_run_step [OF assms(1,2) Cons.prems run] by blast
  from Cons.IH [OF this] show ?case by (simp add: app_history_def run)
qed (simp add: app_history_def)

lemma app_inv_empty:
  assumes "\<forall>k. starts_with k (ns_prefix ns) \<longrightarrow> M k = None"
  shows "storage_inv J hex ns M"
proof (rule storage_invI [of J ns M "[]"])
  show "index_of J ns M = Some []" using assms by (simp add: index_of_def ns_index_def starts_with_def)
  show "bt_get [] k \<noteq> None \<and> length v \<le> APP_KV_MAX_VALUE_BYTES" if "holds hex ns M k = Some v" for k v
    using that assms by (auto simp: holds_def ns_entry_iff starts_with_def split: sum.splits)
qed simp_all

section \<open>Namespaces apart\<close>

lemma writes_storage [writes]: "only_writes K m \<Longrightarrow> only_writes K (storage m)"
  unfolding only_writes_def storage_def by (auto split: prod.splits res.splits)

lemma writes_abind [writes]: "only_writes K m \<Longrightarrow> (\<And>x. only_writes K (f x)) \<Longrightarrow> only_writes K (abind m f)"
  unfolding abind_def by (intro writes allI impI conjI | split sum.split | assumption | blast)+

lemma app_kv_run_writes: "only_writes (\<lambda>k. starts_with k (ns_prefix ns)) (app_kv_run J hex ns op)"
proof -
  have e: "starts_with e (ns_prefix ns)" if "ns_entry hex ns k = Inr e" for k e
    using that by (simp add: ns_entry_iff starts_with_def)
  have i: "starts_with (ns_index ns) (ns_prefix ns)" by (simp add: ns_index_def starts_with_def)
  let ?K = "\<lambda>k. starts_with k (ns_prefix ns)"
  have rd: "only_writes ?K (read_index J ns)" unfolding read_index_def
    by (intro writes allI impI conjI | split option.split)+
  have wr: "only_writes ?K (write_index J ns idx)" for idx unfolding write_index_def by (intro writes i)
  have st: "only_writes ?K (app_set J ns entry key val)" if "?K entry" for entry key val unfolding app_set_def
    by (intro writes rd wr that allI impI conjI | split option.split if_split)+
  have del: "only_writes ?K (app_delete J ns entry key)" if "?K entry" for entry key unfolding app_delete_def
    by (intro writes rd wr that allI impI conjI | split if_split)+
  have we: "only_writes ?K (with_entry hex ns key f)" if "\<And>entry. ?K entry \<Longrightarrow> only_writes ?K (f entry)"
    for key and f :: "string \<Rightarrow> (app_kv_refusal + app_kv_result) kvm"
    unfolding with_entry_def using that e by (auto intro!: writes split: sum.split)
  show ?thesis unfolding app_kv_run_def
    by (cases op) (auto intro!: writes rd st del we)
qed

lemma app_history_writes:
  "\<not> starts_with k (ns_prefix ns) \<Longrightarrow> kv_map (app_history J hex ns ops s) k = kv_map s k"
proof (induction ops arbitrary: s)
  case (Cons op ops)
  have "kv_map (snd (app_kv_run J hex ns op s)) k = kv_map s k"
    using only_writesD [OF app_kv_run_writes surjective_pairing] Cons.prems by blast
  with Cons.IH [OF Cons.prems, of "snd (app_kv_run J hex ns op s)"] show ?case by (simp add: app_history_def)
qed (simp add: app_history_def)

lemma colon_split: "CHR '':'' \<notin> set x \<Longrightarrow> CHR '':'' \<notin> set y \<Longrightarrow> x @ CHR '':'' # r = y @ CHR '':'' # q \<Longrightarrow> x = y \<and> r = q"
proof (induction x arbitrary: y)
  case Nil
  then show ?case by (cases y) auto
next
  case (Cons a x)
  then show ?case by (cases y) auto
qed

lemma app_id_no_colon:
  assumes "validate_app_id a = Inr u"
  shows "CHR '':'' \<notin> set a"
proof -
  obtain k where "validate_labels 0 (split_on CHR ''.'' a) = Inr k"
    using assms by (auto simp: validate_app_id_def split: if_splits sum.splits)
  then have "\<forall>l \<in> set (split_on CHR ''.'' a). label_ok l" by (simp add: validate_labels_Inr)
  moreover
  have "\<not> label_first_ok CHR '':''" "\<not> label_byte_ok CHR '':''"
    by (simp_all add: label_first_ok_def label_byte_ok_def char_class_defs)
  then have "label_ok l \<Longrightarrow> CHR '':'' \<notin> set l" for l by (auto simp: label_ok_def)
  ultimately have "\<forall>l \<in> set (split_on CHR ''.'' a). CHR '':'' \<notin> set l" by blast
  then show ?thesis using set_join [of "CHR '':''" "CHR ''.''" "split_on CHR ''.'' a"] by auto
qed

lemma namespace_prefix:
  assumes "namespace_new hex a sc u = Inr ns"
  shows "ns_prefix ns = ''app:'' @ a @ '':'' @ hex sc @ '':'' @ hex u @ '':''" "CHR '':'' \<notin> set a"
  using assms app_id_no_colon by (auto simp: namespace_new_def APP_STORAGE_PREFIX_def Let_def split: sum.splits if_splits)

text \<open>
  C27. Installs are apart: whatever one asks for, and whichever store calls fail, no record of
  another install (another app, scope or account) and no record that is not an app's is changed.
\<close>

theorem app_kv_isolated:
  assumes "hex_ok hex" and "namespace_new hex a sc u = Inr ns" and "namespace_new hex a' sc' u' = Inr ns'"
    and "(a, sc, u) \<noteq> (a', sc', u')"
    and "starts_with k (ns_prefix ns') \<or> \<not> starts_with k ''app:''"
  shows "kv_map (app_history J hex ns ops s) k = kv_map s k"
proof (rule app_history_writes)
  note p = namespace_prefix [OF assms(2)] and p' = namespace_prefix [OF assms(3)]
  show "\<not> starts_with k (ns_prefix ns)"
  proof
    assume k: "starts_with k (ns_prefix ns)"
    then obtain t where t: "k = ns_prefix ns @ t" unfolding starts_with_def by (metis append_take_drop_id)
    then have "starts_with k ''app:''" by (simp add: p starts_with_def)
    with assms(5) obtain t' where t': "k = ns_prefix ns' @ t'" unfolding starts_with_def by (metis append_take_drop_id)
    have "a @ CHR '':'' # hex sc @ CHR '':'' # hex u @ CHR '':'' # t = a' @ CHR '':'' # hex sc' @ CHR '':'' # hex u' @ CHR '':'' # t'"
      using t t' by (simp add: p p')
    with p(2) p'(2) assms(1) have "a = a'" "hex sc = hex sc'" "hex u = hex u'"
      unfolding hex_ok_def using colon_split by metis+
    with assms(1,4) show False by (simp add: hex_ok_def inj_eq)
  qed
qed

section \<open>What an app sees: a map with a quota\<close>

text \<open>
  The abstract specification: a finite map from keys to values. Nothing of the index, the encoding of
  keys or the store is left in it.
\<close>

definition spec_used :: "(string \<Rightarrow> octet list option) \<Rightarrow> nat" where
  "spec_used m = (\<Sum>k \<in> dom m. length k + length (the (m k)) + APP_KV_ENTRY_OVERHEAD_BYTES)"

definition app_kv_spec ::
  "app_kv_op \<Rightarrow> (string \<Rightarrow> octet list option) \<Rightarrow> (app_kv_refusal + app_kv_result) \<times> (string \<Rightarrow> octet list option)" where
  "app_kv_spec op m =
     (let bad = (\<lambda>k. k = [] \<or> APP_KV_MAX_KEY_BYTES < length k)
      in case op of
           KvGet k \<Rightarrow> (if bad k then Inl KvKey else Inr (KvFound (m k)), m)
         | KvSet k v \<Rightarrow>
             if bad k then (Inl KvKey, m)
             else if APP_KV_MAX_VALUE_BYTES < length v then (Inl KvValue, m)
             else if APP_KV_MAX_TOTAL_BYTES < spec_used (m(k := Some v)) then (Inl KvQuota, m)
             else (Inr KvDone, m(k := Some v))
         | KvDelete k \<Rightarrow> if bad k then (Inl KvKey, m) else (Inr KvDone, m(k := None))
         | KvList pre after \<Rightarrow>
             (Inr (list_page (filter (\<lambda>k. starts_with k (case pre of Some p \<Rightarrow> p | None \<Rightarrow> []) \<and>
                 (case after of None \<Rightarrow> True | Some a \<Rightarrow> a < k)) (sorted_list_of_set (dom m)))), m))"

text \<open>The index says exactly what is stored.\<close>

definition exact :: "json_text \<Rightarrow> (string \<Rightarrow> string) \<Rightarrow> namespace \<Rightarrow> (string \<Rightarrow> octet list option) \<Rightarrow> bool" where
  "exact J hex ns M \<longleftrightarrow>
     (\<exists>idx. index_of J ns M = Some idx \<and> bt_wf idx \<and> index_total idx \<le> APP_KV_MAX_TOTAL_BYTES \<and>
       bt_get idx = (\<lambda>k. map_option length (holds hex ns M k)))"

lemma spec_used_index:
  assumes "bt_wf idx" and "bt_get idx = (\<lambda>k. map_option length (m k))"
  shows "spec_used m = index_total idx" and "sorted_list_of_set (dom m) = map fst idx"
proof -
  have dom: "dom m = set (map fst idx)"
    using assms(2) bt_get_None [of idx] by (auto simp: fun_eq_iff dom_def)
  have len: "length (the (m k)) = n" if "(k, n) \<in> set idx" for k n
    using that assms by (simp add: bt_get_iff [symmetric]) (metis option.map_sel option.sel option.discI)
  have d: "distinct (map fst idx)" by (rule bt_wf_distinct [OF assms(1)])
  show "sorted_list_of_set (dom m) = map fst idx"
    unfolding dom using assms(1) sorted_list_of_set.idem_if_sorted_distinct [of "map fst idx"]
    by (simp add: strict_sorted_iff bt_wf_def)
  have "spec_used m = sum_list (map (\<lambda>k. length k + length (the (m k)) + APP_KV_ENTRY_OVERHEAD_BYTES) (map fst idx))"
    unfolding spec_used_def dom by (simp only: sum_list_distinct_conv_sum_set [OF d])
  also have "\<dots> = index_total idx" unfolding index_total_def map_map
    by (rule arg_cong [of _ _ sum_list], rule map_cong) (auto simp: len)
  finally show "spec_used m = index_total idx" .
qed

lemma holds_bad: "k = [] \<or> APP_KV_MAX_KEY_BYTES < length k \<Longrightarrow> holds hex ns M k = None"
  by (auto simp: holds_def ns_entry_def)

lemma fine_read:
  assumes "fine s" and "index_of J ns (kv_map s) = Some idx"
  shows "read_index J ns s = (KOk (Inr idx), s)"
  using assms by (auto simp: read_index_def storage_def kbind_def kret_def klift_def index_of_def split: option.splits sum.splits)

lemma fine_write:
  assumes "fine s" and "print_json J (index_json idx) = Inr b"
  shows "write_index J ns idx s = (KOk (Inr ()), s\<lparr>kv_map := (kv_map s)(ns_index ns := Some b)\<rparr>)"
  using assms by (simp add: write_index_def storage_def kv_set_def)

lemma abind_ok: "m s = (KOk (Inr x), s') \<Longrightarrow> abind m f s = f x s'"
  by (simp add: abind_def)

lemma fine_storage_put: "fine s \<Longrightarrow> storage (kv_put k v) s = (KOk (Inr ()), s\<lparr>kv_map := (kv_map s)(k := v)\<rparr>)"
  by (simp add: storage_def)

lemma app_kv_step:
  assumes J: "json_text_ok J" and H: "hex_ok hex" and ex: "exact J hex ns (kv_map s)" and "fine s"
  shows "\<exists>r s'. app_kv_run J hex ns op s = (KOk r, s') \<and>
    app_kv_spec op (holds hex ns (kv_map s)) = (r, holds hex ns (kv_map s')) \<and>
    exact J hex ns (kv_map s') \<and> fine s'"
proof -
  let ?M = "kv_map s" and ?m = "holds hex ns (kv_map s)"
  from ex obtain idx where idx: "index_of J ns ?M = Some idx" "bt_wf idx" "index_total idx \<le> APP_KV_MAX_TOTAL_BYTES"
      and get: "bt_get idx = (\<lambda>k. map_option length (?m k))" unfolding exact_def by blast
  note used = spec_used_index [OF idx(2) get]
  show ?thesis
  proof (cases op)
    case (KvGet k)
    with \<open>fine s\<close> ex show ?thesis
      by (auto simp: app_kv_run_def with_entry_def app_kv_spec_def ns_entry_def holds_def abind_def storage_def kret_def kbind_def)
  next
    case (KvList pre after)
    with \<open>fine s\<close> ex show ?thesis
      by (simp add: app_kv_run_def app_kv_spec_def fine_read [OF \<open>fine s\<close> idx(1)] abind_ok kret_def matching_def used
          conj_commute)
  next
    case (KvDelete k)
    show ?thesis
    proof (cases "ns_entry hex ns k")
      case (Inl e)
      with KvDelete ex \<open>fine s\<close> show ?thesis
        by (auto simp: app_kv_run_def with_entry_def app_kv_spec_def ns_entry_def kret_def split: if_splits)
    next
      case (Inr e)
      let ?s = "s\<lparr>kv_map := ?M(e := None)\<rparr>"
      have f: "fine ?s" using \<open>fine s\<close> by simp
      have h: "holds hex ns (?M(e := None)) = ?m(k := None)" by (rule holds_entry [OF H Inr])
      have wf: "bt_wf (bt_remove k idx)" using idx(2) by simp
      have small: "index_total (bt_remove k idx) \<le> APP_KV_MAX_TOTAL_BYTES" using index_total_remove idx(3) le_trans by blast
      obtain b where b: "print_json J (index_json (bt_remove k idx)) = Inr b"
          "\<And>M. index_of J ns (M(ns_index ns := Some b)) = Some (bt_remove k idx)"
        using index_written [OF J wf small] by blast
      have i: "index_of J ns (kv_map ?s) = Some idx" using idx(1) Inr by simp
      have run: "app_kv_run J hex ns op s =
          (if bt_get idx k = None then (KOk (Inr KvDone), ?s)
           else (KOk (Inr KvDone), ?s\<lparr>kv_map := (kv_map ?s)(ns_index ns := Some b)\<rparr>))"
        using Inr unfolding KvDelete
        by (simp add: app_kv_run_def with_entry_def app_delete_def kv_delete_def fine_storage_put [OF \<open>fine s\<close>] abind_ok
            fine_read [OF f i] abind_ok fine_write [OF f b(1)] abind_ok kret_def)
      have sp: "app_kv_spec op ?m = (Inr KvDone, ?m(k := None))"
        using Inr KvDelete by (auto simp: app_kv_spec_def ns_entry_iff)
      have "exact J hex ns (?M(e := None))" if "bt_get idx k = None"
        unfolding exact_def using that get idx i by (intro exI [of _ idx]) (auto simp: h fun_eq_iff)
      moreover have "exact J hex ns (?M(e := None, ns_index ns := Some b))"
        unfolding exact_def using get idx b(2) wf small by (intro exI [of _ "bt_remove k idx"]) (auto simp: h fun_eq_iff)
      ultimately show ?thesis using f run sp h by (auto simp: holds_index)
    qed
  next
    case (KvSet k v)
    show ?thesis
    proof (cases "ns_entry hex ns k")
      case (Inl e)
      with KvSet ex \<open>fine s\<close> show ?thesis
        by (auto simp: app_kv_run_def with_entry_def app_kv_spec_def ns_entry_def kret_def split: if_splits)
    next
      case (Inr e)
      then have key: "k \<noteq> []" "length k \<le> APP_KV_MAX_KEY_BYTES" by (simp_all add: ns_entry_iff)
      let ?idx = "bt_insert k (length v) idx"
      have wf: "bt_wf ?idx" using idx(2) by simp
      have get': "bt_get ?idx = (\<lambda>j. map_option length ((?m(k := Some v)) j))" using get idx(2) by (auto simp: fun_eq_iff)
      note used' = spec_used_index(1) [OF wf get']
      have refused: ?thesis if "app_kv_run J hex ns op s = (KOk (Inl x), s)" "app_kv_spec op ?m = (Inl x, ?m)" for x
        using that ex \<open>fine s\<close> by blast
      consider "APP_KV_MAX_VALUE_BYTES < length v"
        | "length v \<le> APP_KV_MAX_VALUE_BYTES" "APP_KV_MAX_TOTAL_BYTES < index_total ?idx"
        | "length v \<le> APP_KV_MAX_VALUE_BYTES" "index_total ?idx \<le> APP_KV_MAX_TOTAL_BYTES" by linarith
      then show ?thesis
      proof cases
        case 1
        with KvSet Inr key show ?thesis
          by (intro refused [of KvValue]) (simp_all add: app_kv_run_def with_entry_def app_set_def app_kv_spec_def kret_def)
      next
        case 2
        with KvSet Inr key show ?thesis
          by (intro refused [of KvQuota])
            (simp_all add: app_kv_run_def with_entry_def app_set_def app_kv_spec_def kret_def used' used_after_eq [OF idx(2,3)]
              fine_read [OF \<open>fine s\<close> idx(1)] abind_ok)
      next
        case 3
        obtain b where b: "print_json J (index_json ?idx) = Inr b" "\<And>M. index_of J ns (M(ns_index ns := Some b)) = Some ?idx"
          using index_written [OF J wf 3(2)] by blast
        let ?M' = "?M(ns_index ns := Some b, e := Some v)"
        have f: "fine (s\<lparr>kv_map := ?M(ns_index ns := Some b)\<rparr>)" using \<open>fine s\<close> by simp
        have run: "app_kv_run J hex ns op s = (KOk (Inr KvDone), s\<lparr>kv_map := ?M'\<rparr>)"
          using 3 KvSet Inr key
          by (simp add: app_kv_run_def with_entry_def app_set_def kv_set_def kret_def used_after_eq [OF idx(2,3)]
              fine_read [OF \<open>fine s\<close> idx(1)] abind_ok fine_write [OF \<open>fine s\<close> b(1)] abind_ok
              fine_storage_put [OF f] abind_ok)
        have h: "holds hex ns ?M' = ?m(k := Some v)" by (simp add: holds_entry [OF H Inr])
        have "app_kv_spec op ?m = (Inr KvDone, ?m(k := Some v))"
          using 3 KvSet key by (simp add: app_kv_spec_def used')
        moreover have "exact J hex ns ?M'"
          unfolding exact_def h using b(2) wf 3(2) get' Inr by (intro exI [of _ ?idx]) simp
        ultimately show ?thesis using run h \<open>fine s\<close> by auto
      qed
    qed
  qed
qed

lemma app_history_exact:
  assumes "json_text_ok J" and "hex_ok hex" and "exact J hex ns (kv_map s)" and "fine s"
  shows "exact J hex ns (kv_map (app_history J hex ns ops s))"
  using assms(3,4)
proof (induction ops arbitrary: s)
  case (Cons op ops)
  from app_kv_step [OF assms(1,2) Cons.prems, of op]
  obtain r s' where run: "app_kv_run J hex ns op s = (KOk r, s')" and s': "exact J hex ns (kv_map s')" "fine s'" by blast
  from Cons.IH [OF s'] show ?case by (simp add: app_history_def run)
qed (simp add: app_history_def)

lemma exact_empty:
  assumes "\<forall>k. starts_with k (ns_prefix ns) \<longrightarrow> M k = None"
  shows "exact J hex ns M"
proof -
  have "index_of J ns M = Some []" using assms by (simp add: index_of_def ns_index_def starts_with_def)
  moreover have "holds hex ns M = (\<lambda>_. None)"
    using assms by (auto simp: holds_def ns_entry_iff starts_with_def fun_eq_iff split: sum.split)
  ultimately show ?thesis unfolding exact_def by (intro exI [of _ "[]"]) (simp add: fun_eq_iff)
qed

lemma index_total_count: "APP_KV_ENTRY_OVERHEAD_BYTES * length idx \<le> index_total idx"
  by (induction idx) auto

section \<open>The limits and the specification\<close>

text \<open>
  C28. While no store call fails, an app's storage is the map of the specification: every request
  is answered as the specification answers it, what is stored afterwards is the specification's map,
  and the index again says exactly what is stored.
\<close>

theorem app_kv_refines:
  assumes "json_text_ok J" and "hex_ok hex" and "exact J hex ns (kv_map s)" and "fine s"
  shows "\<exists>r s'. app_kv_run J hex ns op s = (KOk r, s') \<and>
    app_kv_spec op (holds hex ns (kv_map s)) = (r, holds hex ns (kv_map s')) \<and>
    exact J hex ns (kv_map s') \<and> fine s'"
  by (rule app_kv_step [OF assms])

text \<open>
  C26. An app's storage stays within its limits. Starting from nothing stored, after any history of
  requests and whichever store calls fail, what the index records sums to at most four mebibytes,
  every stored value is of a key the index lists and at most 256 kibibytes long, there are at
  most 16384 of them, and no request panics. When no store call has failed the quota bounds what
  is held itself: keys, values and overheads together are at most four mebibytes. (A write that
  fails half-way can leave a longer value stored than the index records,
  \<open>shrinking_set_undercounts\<close>, so after failures the quota bounds the record only.)
\<close>

theorem app_kv_within_limits:
  assumes "json_text_ok J" and "hex_ok hex" and "\<forall>k. starts_with k (ns_prefix ns) \<longrightarrow> kv_map s k = None"
  shows "\<exists>idx. index_of J ns (kv_map (app_history J hex ns ops s)) = Some idx \<and>
      index_total idx \<le> APP_KV_MAX_TOTAL_BYTES \<and>
      (\<forall>k v. holds hex ns (kv_map (app_history J hex ns ops s)) k = Some v \<longrightarrow>
        k \<in> fst ` set idx \<and> length v \<le> APP_KV_MAX_VALUE_BYTES) \<and>
      card (dom (holds hex ns (kv_map (app_history J hex ns ops s)))) \<le> 16384 \<and>
      (kv_faults s = [] \<longrightarrow>
        spec_used (holds hex ns (kv_map (app_history J hex ns ops s))) = index_total idx) \<and>
      (\<exists>r. fst (app_kv_run J hex ns op (app_history J hex ns ops s)) = KOk r)"
proof -
  let ?s = "app_history J hex ns ops s"
  have inv: "storage_inv J hex ns (kv_map ?s)" by (rule app_history_inv [OF assms(1,2) app_inv_empty [OF assms(3)]])
  have run: "\<exists>r. fst (app_kv_run J hex ns op ?s) = KOk r"
    using app_kv_run_step [OF assms(1,2) inv surjective_pairing, of op] by blast
  from inv obtain idx where idx: "index_of J ns (kv_map ?s) = Some idx" "index_total idx \<le> APP_KV_MAX_TOTAL_BYTES"
      and h: "\<And>k v. holds hex ns (kv_map ?s) k = Some v \<Longrightarrow> k \<in> fst ` set idx \<and> length v \<le> APP_KV_MAX_VALUE_BYTES"
    unfolding storage_inv_def bt_get_None by blast
  have "card (dom (holds hex ns (kv_map ?s))) \<le> card (fst ` set idx)"
    using h by (intro card_mono) auto
  also have "\<dots> \<le> length idx" by (metis card_length length_map list.set_map)
  also have "\<dots> \<le> 16384"
    using index_total_count [of idx] idx(2) by (simp add: APP_KV_ENTRY_OVERHEAD_BYTES_def APP_KV_MAX_TOTAL_BYTES_def)
  finally have few: "card (dom (holds hex ns (kv_map ?s))) \<le> 16384" .
  have "spec_used (holds hex ns (kv_map ?s)) = index_total idx" if "kv_faults s = []"
  proof -
    have "exact J hex ns (kv_map ?s)"
      using app_history_exact [OF assms(1,2) exact_empty [OF assms(3)]] that by (simp add: fine_def)
    with idx(1) show ?thesis unfolding exact_def using spec_used_index(1) by auto
  qed
  with idx h few run show ?thesis by blast
qed

section \<open>A write that fails half-way\<close>

text \<open>
  The header of \<^verbatim>\<open>mod.rs\<close> says that an interrupted write leaves the index over the true usage,
  never under it. Replacing a value by a shorter one does not: the index records the shorter length first, and
  when the value's write then fails the longer value is still stored.
\<close>

theorem shrinking_set_undercounts:
  assumes J: "json_text_ok J" and ex: "exact J hex ns (kv_map s)" and h: "holds hex ns (kv_map s) k = Some v"
    and short: "length w < length v" and "length v \<le> APP_KV_MAX_VALUE_BYTES"
    and f: "kv_faults s = [Fine, Fine, Fault e False]"
    and run: "app_kv_run J hex ns (KvSet k w) s = (r, s')"
  shows "holds hex ns (kv_map s') k = Some v \<and>
    (\<exists>idx. index_of J ns (kv_map s') = Some idx \<and> bt_get idx k = Some (length w))"
proof -
  from ex obtain idx where idx: "index_of J ns (kv_map s) = Some idx" "bt_wf idx" "index_total idx \<le> APP_KV_MAX_TOTAL_BYTES"
      and get: "bt_get idx = (\<lambda>k. map_option length (holds hex ns (kv_map s) k))" unfolding exact_def by blast
  let ?idx = "bt_insert k (length w) idx"
  obtain en where en: "ns_entry hex ns k = Inr en" using h by (auto simp: holds_def split: sum.splits)
  have wf: "bt_wf ?idx" using idx(2) by simp
  have "index_total ?idx \<le> index_total idx"
    using index_total_insert [OF idx(2), of k "length w"] get h short index_total_get [of idx k "length v"] by simp
  then have small: "index_total ?idx \<le> APP_KV_MAX_TOTAL_BYTES" using idx(3) by simp
  obtain b where b: "print_json J (index_json ?idx) = Inr b" "\<And>M. index_of J ns (M(ns_index ns := Some b)) = Some ?idx"
    using index_written [OF J wf small] by blast
  let ?s1 = "s\<lparr>kv_faults := [Fine, Fault e False]\<rparr>"
  have rd: "read_index J ns s = (KOk (Inr idx), ?s1)"
    using idx(1) f by (auto simp: read_index_def storage_def kbind_def kret_def klift_def kv_get_def next_fault_def index_of_def
        split: option.splits sum.splits)
  have wr: "write_index J ns ?idx ?s1 = (KOk (Inr ()), s\<lparr>kv_map := (kv_map s)(ns_index ns := Some b), kv_faults := [Fault e False]\<rparr>)"
    by (simp add: write_index_def b(1) storage_def kv_set_def kv_put_def next_fault_def)
  have key: "length k \<le> APP_KV_MAX_KEY_BYTES" using en by (simp add: ns_entry_iff)
  have st: "abind (storage (kv_set en w)) (\<lambda>_. kret (Inr KvDone))
      (s\<lparr>kv_map := (kv_map s)(ns_index ns := Some b), kv_faults := [Fault e False]\<rparr>) =
      (KOk (Inl KvStorage), s\<lparr>kv_map := (kv_map s)(ns_index ns := Some b), kv_faults := []\<rparr>)"
    by (simp add: abind_def kbind_def storage_def kv_set_def kv_put_def next_fault_def kret_def)
  have "kv_map s' = (kv_map s)(ns_index ns := Some b)"
    using run en small assms(5) short
    by (auto simp: app_kv_run_def with_entry_def app_set_def rd wr st abind_ok used_after_eq [OF idx(2,3) key] kret_def
        split: if_splits)
  with b(2) h idx(2) show ?thesis by simp
qed

section \<open>A store to look at\<close>

definition hex_digit :: "nat \<Rightarrow> char" where
  "hex_digit n = ''0123456789abcdef'' ! n"

definition hex_encode :: "string \<Rightarrow> string" where
  "hex_encode s = concat (map (\<lambda>c. [hex_digit (of_char c div 16), hex_digit (of_char c mod 16)]) s)"

lemma hex_digit_inj: "m < 16 \<Longrightarrow> n < 16 \<Longrightarrow> hex_digit m = hex_digit n \<longleftrightarrow> m = n"
  unfolding hex_digit_def by (rule nth_eq_iff_index_eq) simp_all

lemma hex_ok_encode: "hex_ok hex_encode"
proof -
  have "hex_encode s = hex_encode t \<Longrightarrow> s = t" for s t
  proof (induction s arbitrary: t)
    case (Cons c s)
    then obtain d u where t: "t = d # u" by (cases t) (auto simp: hex_encode_def)
    have lt: "of_char x div 16 < (16::nat)" "of_char x mod 16 < (16::nat)" for x :: char
      using byte_less [of x] by (simp_all add: byte_def less_mult_imp_div_less)
    have "of_char c div 16 = (of_char d div 16 :: nat)" "of_char c mod 16 = (of_char d mod 16 :: nat)"
      using Cons.prems hex_digit_inj [OF lt(1) lt(1)] hex_digit_inj [OF lt(2) lt(2)] by (auto simp: t hex_encode_def)
    then have "c = d" unfolding byte_inj [symmetric] byte_def by (metis div_mult_mod_eq)
    moreover have "hex_encode s = hex_encode u" using Cons.prems by (simp add: t hex_encode_def)
    ultimately show ?case using Cons.IH t by simp
  qed (simp add: hex_encode_def)
  moreover have "CHR '':'' \<notin> set (hex_encode s)" for s
  proof -
    have "hex_digit n \<noteq> CHR '':''" if "n < 16" for n
      using nth_mem [of n "''0123456789abcdef''"] that by (auto simp: hex_digit_def)
    moreover have "of_char x div 16 < (16::nat)" for x :: char
      using byte_less [of x] by (simp add: byte_def less_mult_imp_div_less)
    ultimately show ?thesis by (auto simp: hex_encode_def) (metis mod_less_divisor zero_less_numeral)+
  qed
  ultimately show ?thesis by (auto simp: hex_ok_def intro: injI)
qed

definition demo_ns :: namespace where "demo_ns = \<lparr>ns_prefix = ''app:a.b:78:79:''\<rparr>"

definition empty_kv :: "fault list \<Rightarrow> kv" where "empty_kv fs = \<lparr>kv_map = \<lambda>_. None, kv_faults = fs\<rparr>"

theorem app_kv_within_limits_witness:
  "(\<exists>idx. index_of text_codec demo_ns (kv_map (app_history text_codec hex_encode demo_ns
      [KvSet ''k'' [1], KvDelete ''k''] (empty_kv [Fine, Fault ''lost'' True]))) = Some idx \<and>
    index_total idx \<le> APP_KV_MAX_TOTAL_BYTES) \<and>
   spec_used (holds hex_encode demo_ns (kv_map (app_history text_codec hex_encode demo_ns
      [KvSet ''k'' [1]] (empty_kv [])))) \<le> APP_KV_MAX_TOTAL_BYTES"
proof
  have none: "\<forall>k. starts_with k (ns_prefix demo_ns) \<longrightarrow> kv_map (empty_kv fs) k = None" for fs
    by (simp add: empty_kv_def)
  show "\<exists>idx. index_of text_codec demo_ns (kv_map (app_history text_codec hex_encode demo_ns
      [KvSet ''k'' [1], KvDelete ''k''] (empty_kv [Fine, Fault ''lost'' True]))) = Some idx \<and>
    index_total idx \<le> APP_KV_MAX_TOTAL_BYTES"
    using app_kv_within_limits [OF text_codec_ok hex_ok_encode none, of "[KvSet ''k'' [1], KvDelete ''k'']"
      "[Fine, Fault ''lost'' True]" "KvGet ''k''"] by blast
  have "kv_faults (empty_kv []) = []" by (simp add: empty_kv_def)
  with app_kv_within_limits [OF text_codec_ok hex_ok_encode none, of "[KvSet ''k'' [1]]" "[]" "KvGet ''k''"]
  show "spec_used (holds hex_encode demo_ns (kv_map (app_history text_codec hex_encode demo_ns
      [KvSet ''k'' [1]] (empty_kv [])))) \<le> APP_KV_MAX_TOTAL_BYTES" by fastforce
qed

theorem app_kv_isolated_witness:
  "kv_map (app_history text_codec hex_encode demo_ns [KvSet ''k'' [1]] (empty_kv [Fine, Fault ''lost'' True])) ''msgs'' = None"
proof -
  have "namespace_new hex_encode ''a.b'' ''x'' ''y'' = Inr demo_ns" "namespace_new hex_encode ''a.b'' ''x'' ''z'' = Inr
      \<lparr>ns_prefix = ''app:a.b:78:7a:''\<rparr>"
    by code_simp+
  from app_kv_isolated [OF hex_ok_encode this, of "''msgs''" text_codec "[KvSet ''k'' [1]]" "empty_kv [Fine, Fault ''lost'' True]"]
  show ?thesis by (simp add: starts_with_def empty_kv_def)
qed

theorem app_kv_refines_witness:
  "\<exists>r s'. app_kv_run text_codec hex_encode demo_ns (KvSet ''k'' [1]) (empty_kv []) = (KOk r, s') \<and>
    app_kv_spec (KvSet ''k'' [1]) (\<lambda>_. None) = (r, holds hex_encode demo_ns (kv_map s'))"
proof -
  have h: "holds hex_encode demo_ns (\<lambda>_. None) = (\<lambda>_. None)"
    by (rule ext) (simp add: holds_def split: sum.split)
  have "exact text_codec hex_encode demo_ns (kv_map (empty_kv []))"
    unfolding exact_def by (intro exI [of _ "[]"]) (simp add: index_of_def empty_kv_def h fun_eq_iff)
  from app_kv_refines [OF text_codec_ok hex_ok_encode this, of "KvSet ''k'' [1]"] show ?thesis
    by (auto simp: empty_kv_def fine_def h)
qed

section \<open>A grant withdrawn while it is read\<close>

text \<open>
  The lock of the grants in memory is not held over the store's call, so another request may run between
  the read of the stored grant and its being kept. A grant withdrawn there stays in force: the store says
  off, and every later read answers from memory that it is on.
\<close>

definition grant_read :: "bool option kvm" where
  "grant_read = kbind (kv_get PRIVATE_NETWORK_KEY) (\<lambda>stored. klift (decode_grant stored))"

lemma private_network_sections:
  "private_network c known s =
     (case hm_get known c of
        Some g \<Rightarrow> (KOk g, known, s)
      | None \<Rightarrow> (case grant_read s of (KOk g, s) \<Rightarrow> (KOk g, hm_insert c g known, s) | (r, s) \<Rightarrow> (r, known, s)))"
  unfolding private_network_def grant_read_def ..

theorem withdrawn_grant_kept:
  assumes "kv_map s PRIVATE_NETWORK_KEY = Some [1]" and "kv_faults s = []"
    and "grant_read s = (KOk g, s1)" and "set_private_network c False known s1 = (KOk (), known2, s2)"
  shows "kv_map s2 PRIVATE_NETWORK_KEY = Some [0]"
    and "fst (private_network c (hm_insert c g known2) s2) = KOk (Some True)"
proof -
  have g: "g = Some True" "s1 = s" using assms(1-3)
    by (simp_all add: grant_read_def kbind_def kv_get_def next_fault_def klift_def decode_grant_def)
  show "kv_map s2 PRIVATE_NETWORK_KEY = Some [0]" using assms(2,4) g(2)
    by (auto simp: set_private_network_def kv_set_def kv_put_def next_fault_def split: prod.splits)
  show "fst (private_network c (hm_insert c g known2) s2) = KOk (Some True)"
    by (simp add: private_network_def g(1))
qed

end
