(* ===== verification/Sessions.thy ===== *)
theory Sessions
  imports Prelude
begin

text \<open>
  The local connections a session is attached to and where its notifications go
  (\<^verbatim>\<open>kernel/session_subscribers.rs\<close>, \<^verbatim>\<open>kernel/session_route.rs\<close>). Every operation on the
  members runs under their lock, so a history of them is a sequence. A connection is sent to when it is in
  the client map (\<^verbatim>\<open>clients\<close>) and takes the send when its receiver still exists (\<^verbatim>\<open>open\<close>).
\<close>

section \<open>The members (session\_subscribers.rs)\<close>

type_synonym client = "128 word"

datatype session_role = Primary | Secondary | DetachedRole

record attached =
  at_order :: "client list"
  at_last_holder :: "client option"

record detached =
  dt_removed :: bool
  dt_promoted :: "client option"

definition new_subscribers :: "client \<Rightarrow> attached" where
  "new_subscribers first = \<lparr>at_order = [first], at_last_holder = None\<rparr>"

definition members :: "attached \<Rightarrow> client list" where "members s = at_order s"

definition primary :: "attached \<Rightarrow> client option" where
  "primary s = (case at_order s of [] \<Rightarrow> None | c # _ \<Rightarrow> Some c)"

definition is_member :: "client \<Rightarrow> attached \<Rightarrow> bool" where "is_member c s \<longleftrightarrow> c \<in> set (at_order s)"

definition roles :: "attached \<Rightarrow> (client \<times> session_role) list" where
  "roles s = map (\<lambda>(i, m). (m, if i = 0 then Primary else Secondary)) (zip [0..<length (at_order s)] (at_order s))"

definition attach :: "client \<Rightarrow> attached \<Rightarrow> bool \<times> attached" where
  "attach c s =
     (if c \<in> set (at_order s) then (False, s)
      else (True, s\<lparr>at_order := at_order s @ [c], at_last_holder := None\<rparr>))"

fun member_position :: "client \<Rightarrow> client list \<Rightarrow> nat option" where
  "member_position c [] = None"
| "member_position c (m # ms) = (if m = c then Some 0 else map_option Suc (member_position c ms))"

definition leave :: "client \<Rightarrow> bool \<Rightarrow> attached \<Rightarrow> detached \<times> attached" where
  "leave c remember s =
     (case member_position c (at_order s) of
        None \<Rightarrow> (\<lparr>dt_removed = False, dt_promoted = None\<rparr>, s)
      | Some i \<Rightarrow>
          (let order = take i (at_order s) @ drop (Suc i) (at_order s);
               s = s\<lparr>at_order := order\<rparr>;
               s = (if order = [] then s\<lparr>at_last_holder := if remember then Some c else None\<rparr> else s)
           in (\<lparr>dt_removed = True, dt_promoted = (if i = 0 then primary s else None)\<rparr>, s)))"

definition detach :: "client \<Rightarrow> attached \<Rightarrow> detached \<times> attached" where "detach c = leave c True"
definition release_session :: "client \<Rightarrow> attached \<Rightarrow> detached \<times> attached" where "release_session c = leave c False"

definition take_over :: "client \<Rightarrow> attached \<Rightarrow> client list \<times> attached" where
  "take_over c s =
     (let s = s\<lparr>at_last_holder := None\<rparr>
      in if c \<in> set (at_order s) then ([], s) else (at_order s, s\<lparr>at_order := [c]\<rparr>))"

section \<open>Delivery (session\_route.rs)\<close>

text \<open>The connections reached; each got the response once, and nobody else got it.\<close>

definition deliver :: "client set \<Rightarrow> client set \<Rightarrow> client list \<Rightarrow> client list" where
  "deliver clients opened targets = filter (\<lambda>t. t \<in> opened) (filter (\<lambda>t. t \<in> clients) targets)"

definition route_send :: "client set \<Rightarrow> client set \<Rightarrow> attached \<Rightarrow> client list" where
  "route_send clients opened s = deliver clients opened (members s)"

definition send_to_others :: "client set \<Rightarrow> client set \<Rightarrow> client \<Rightarrow> attached \<Rightarrow> client list" where
  "send_to_others clients opened skip s = deliver clients opened (filter (\<lambda>m. m \<noteq> skip) (members s))"

record role_notice =
  rn_cid :: "64 word"
  rn_role :: session_role
  rn_attached :: nat
  rn_request_id :: "128 word option"

definition announce_roles ::
  "client set \<Rightarrow> client set \<Rightarrow> 64 word \<Rightarrow> attached \<Rightarrow> client list \<Rightarrow> (client \<times> role_notice) list" where
  "announce_roles clients opened c s displaced =
     (let roles = roles s; n = min u32_max (length roles);
          notice = (\<lambda>role n. \<lparr>rn_cid = c, rn_role = role, rn_attached = n, rn_request_id = None\<rparr>)
      in concat (map (\<lambda>(m, role). map (\<lambda>t. (t, notice role n)) (deliver clients opened [m])) roles) @
         concat (map (\<lambda>m. map (\<lambda>t. (t, notice DetachedRole 0)) (deliver clients opened [m])) displaced))"

section \<open>Histories\<close>

datatype membership = Attach client | Detach client | Release client | TakeOver client

fun membership_step :: "membership \<Rightarrow> attached \<Rightarrow> attached" where
  "membership_step (Attach c) s = snd (attach c s)"
| "membership_step (Detach c) s = snd (detach c s)"
| "membership_step (Release c) s = snd (release_session c s)"
| "membership_step (TakeOver c) s = snd (take_over c s)"

definition session_history :: "membership list \<Rightarrow> client \<Rightarrow> attached" where
  "session_history hs first = foldl (\<lambda>s h. membership_step h s) (new_subscribers first) hs"

text \<open>
  The specification: who is attached, as a set, and who held the session when the last of them
  dropped.
\<close>

record holders =
  ho_set :: "client set"
  ho_last :: "client option"

fun holders_step :: "membership \<Rightarrow> holders \<Rightarrow> holders" where
  "holders_step (Attach c) h = (if c \<in> ho_set h then h else \<lparr>ho_set = insert c (ho_set h), ho_last = None\<rparr>)"
| "holders_step (Detach c) h =
     (if c \<notin> ho_set h then h
      else \<lparr>ho_set = ho_set h - {c}, ho_last = (if ho_set h = {c} then Some c else ho_last h)\<rparr>)"
| "holders_step (Release c) h =
     (if c \<notin> ho_set h then h
      else \<lparr>ho_set = ho_set h - {c}, ho_last = (if ho_set h = {c} then None else ho_last h)\<rparr>)"
| "holders_step (TakeOver c) h = \<lparr>ho_set = (if c \<in> ho_set h then ho_set h else {c}), ho_last = None\<rparr>"

definition holders_of :: "attached \<Rightarrow> holders" where
  "holders_of s = \<lparr>ho_set = set (at_order s), ho_last = at_last_holder s\<rparr>"

lemma position_remove:
  "distinct ms \<Longrightarrow> member_position c ms = Some i \<Longrightarrow> i < length ms \<and> ms ! i = c \<and> take i ms @ drop (Suc i) ms = removeAll c ms"
proof (induction c ms arbitrary: i rule: member_position.induct)
  case (2 c m ms)
  then show ?case by (auto split: if_splits)
qed simp

lemma member_position_None: "member_position c ms = None \<longleftrightarrow> c \<notin> set ms"
  by (induction c ms rule: member_position.induct) auto

lemma leave_eq:
  assumes "distinct (at_order s)"
  shows "snd (leave c remember s) =
    (if c \<notin> set (at_order s) then s
     else s\<lparr>at_order := removeAll c (at_order s),
            at_last_holder := (if set (at_order s) = {c} then if remember then Some c else None else at_last_holder s)\<rparr>)"
proof (cases "member_position c (at_order s)")
  case None
  then show ?thesis by (simp add: leave_def member_position_None [symmetric])
next
  case (Some i)
  then have c: "c \<in> set (at_order s)" using member_position_None [of c "at_order s"] by fastforce
  have "removeAll c (at_order s) = [] \<longleftrightarrow> set (at_order s) = {c}" using c by (auto simp: removeAll_id removeAll_filter_not_eq filter_empty_conv)
  with c Some position_remove [OF assms Some] show ?thesis by (auto simp: leave_def Let_def)
qed

lemma order_leave: "at_order (snd (leave c remember s)) = removeAll c (at_order s)" if "distinct (at_order s)"
  using that by (simp add: leave_eq)

lemma remaining_in_order: "filter (\<lambda>m. m \<in> set xs \<and> m \<noteq> c) xs = removeAll c xs"
  unfolding removeAll_filter_not_eq by (rule filter_cong) auto

lemma step_distinct: "distinct (at_order s) \<Longrightarrow> distinct (at_order (membership_step h s))"
  by (cases h) (simp_all add: attach_def detach_def release_session_def take_over_def order_leave distinct_removeAll Let_def)

lemma step_order:
  assumes "distinct (at_order s)"
  shows "filter (\<lambda>m. m \<in> set (at_order (membership_step h s))) (at_order s) =
    filter (\<lambda>m. m \<in> set (at_order s)) (at_order (membership_step h s))"
proof (cases h)
  case (TakeOver c)
  then show ?thesis by (auto simp: take_over_def Let_def filter_empty_conv)
qed (simp_all add: attach_def detach_def release_session_def order_leave [OF assms] remaining_in_order)

lemma step_holders:
  assumes "distinct (at_order s)"
  shows "holders_of (membership_step h s) = holders_step h (holders_of s)"
  using leave_eq [OF assms]
  by (cases h) (auto simp: attach_def detach_def release_session_def take_over_def Let_def holders_of_def)

lemma history_distinct: "distinct (at_order (session_history hs first))"
  unfolding session_history_def
  by (induction hs rule: rev_induct) (simp_all add: new_subscribers_def step_distinct)

section \<open>Properties\<close>

text \<open>
  C29. A session's notifications go to its windows and to nobody else: after any history of attaching,
  dropping, releasing and taking over, the members are exactly those the history attached (the set of
  the specification), and a notification reaches each member that is connected once and no other
  connection.
\<close>

theorem session_delivery_exact:
  "let s = session_history hs first; got = route_send clients opened s
   in holders_of s = foldl (\<lambda>h m. holders_step m h) \<lparr>ho_set = {first}, ho_last = None\<rparr> hs \<and>
      distinct got \<and> set got = set (members s) \<inter> clients \<inter> opened"
proof -
  have "holders_of (session_history hs first) = foldl (\<lambda>h m. holders_step m h) \<lparr>ho_set = {first}, ho_last = None\<rparr> hs"
  proof (induction hs rule: rev_induct)
    case (snoc m hs)
    then show ?case using step_holders [OF history_distinct, of m hs first] by (simp add: session_history_def)
  qed (simp add: session_history_def new_subscribers_def holders_of_def)
  then show ?thesis using history_distinct [of hs first]
    by (auto simp: Let_def route_send_def deliver_def members_def)
qed

text \<open>
  Windows keep their seniority: whatever happens next, those that stay attached stay in the order they had, so
  the primary is told to the member attached longest, every other member is secondary, and when the
  primary leaves the next longest is promoted.
\<close>

theorem session_seniority:
  "let s = session_history hs first; s' = membership_step h s
   in filter (\<lambda>m. m \<in> set (members s')) (members s) = filter (\<lambda>m. m \<in> set (members s)) (members s') \<and>
      (case members s of
         [] \<Rightarrow> roles s = []
       | c # cs \<Rightarrow> roles s = (c, Primary) # map (\<lambda>m. (m, Secondary)) cs \<and>
           fst (leave c remember s) = \<lparr>dt_removed = True, dt_promoted = primary (snd (leave c remember s))\<rparr> \<and>
           members (snd (leave c remember s)) = cs)"
proof -
  have secondary: "map (\<lambda>(i, m). (m, if i = 0 then Primary else Secondary)) (zip [Suc 0..<Suc (length xs)] xs) =
      map (\<lambda>m. (m, Secondary)) xs" for xs :: "client list"
    by (rule nth_equalityI) (simp_all add: nth_upt del: upt_Suc)
  show ?thesis using step_order [OF history_distinct, of h hs first]
    by (cases "at_order (session_history hs first)")
      (simp_all add: Let_def members_def roles_def primary_def leave_def secondary upt_conv_Cons del: upt_Suc)
qed

end
