(* ===== verification/Media_Lane.thy ===== *)
theory Media_Lane
  imports Prelude "HOL-Library.Sublist"
begin

text \<open>
  The bounded queue of media frames on their way to a window (\<^verbatim>\<open>kernel/media/lane.rs\<close>) and where a
  peer's UDP transport is (\<^verbatim>\<open>kernel/media/udp_state.rs\<close>). The operations of the lane are its
  locked sections; how producers, the wake-up channel and the reader interleave is the step
  relation \<^verbatim>\<open>lane_step\<close>. The wake-up channel holds at most one signal and loses none when a
  waiting reader is cancelled, as tokio documents.
\<close>

section \<open>The lane\<close>

definition MEDIA_LANE_CAPACITY :: nat where "MEDIA_LANE_CAPACITY = 32"

datatype push_outcome = Queued | DroppedOldest | LaneClosed

record 'a lane =
  ln_queue :: "'a list"
  ln_closed :: bool
  ln_dropped :: nat
  ln_capacity :: nat

definition media_lane :: "nat \<Rightarrow> 'a lane" where
  "media_lane capacity = \<lparr>ln_queue = [], ln_closed = False, ln_dropped = 0, ln_capacity = capacity\<rparr>"

text \<open>The frames dropped are counted in a \<^verbatim>\<open>u64\<close>: one too many panics.\<close>

definition push :: "'a \<Rightarrow> 'a lane \<Rightarrow> (push_outcome \<times> 'a lane) option" where
  "push item l =
     (if ln_closed l then Some (LaneClosed, l)
      else if ln_capacity l \<le> length (ln_queue l) then
        map_option (\<lambda>d. (DroppedOldest, l\<lparr>ln_queue := tl (ln_queue l) @ [item], ln_dropped := d\<rparr>))
          (checked_add u64_max (ln_dropped l) 1)
      else Some (Queued, l\<lparr>ln_queue := ln_queue l @ [item]\<rparr>))"

definition close_lane :: "'a lane \<Rightarrow> 'a lane" where "close_lane l = l\<lparr>ln_closed := True\<rparr>"
definition lane_len :: "'a lane \<Rightarrow> nat" where "lane_len l = length (ln_queue l)"
definition lane_is_empty :: "'a lane \<Rightarrow> bool" where "lane_is_empty l \<longleftrightarrow> lane_len l = 0"

text \<open>One look of \<^verbatim>\<open>recv\<close> at the queue: a frame, the end, or nothing yet.\<close>

datatype 'a look = Took 'a | Ended | Waits

definition look :: "'a lane \<Rightarrow> 'a look \<times> 'a lane" where
  "look l =
     (case ln_queue l of
        x # xs \<Rightarrow> (Took x, l\<lparr>ln_queue := xs\<rparr>)
      | [] \<Rightarrow> (if ln_closed l then Ended else Waits, l))"

section \<open>Producers, wake-ups and the reader\<close>

datatype lane_reader = Looking | Parked | Finished

text \<open>
  \<^verbatim>\<open>ls_pending\<close> counts the producers that have changed the queue and not yet sent their wake-up;
  \<^verbatim>\<open>ls_producers\<close> the senders there are; the last is not dropped while a push holds it. What was pushed and what was received are kept for the
  statements.
\<close>

record 'a lane_sys =
  ls_lane :: "'a lane"
  ls_signal :: bool
  ls_pending :: nat
  ls_producers :: nat
  ls_reader :: lane_reader
  ls_pushed :: "'a list"
  ls_got :: "'a list"

definition lane_start :: "nat \<Rightarrow> 'a lane_sys" where
  "lane_start capacity =
     \<lparr>ls_lane = media_lane capacity, ls_signal = False, ls_pending = 0, ls_producers = 1, ls_reader = Looking,
      ls_pushed = [], ls_got = []\<rparr>"

inductive lane_step :: "'a lane_sys \<Rightarrow> 'a lane_sys \<Rightarrow> bool" where
  pushes: "\<lbrakk>0 < ls_producers s; push x (ls_lane s) = Some (out, l); out \<noteq> LaneClosed\<rbrakk> \<Longrightarrow>
     lane_step s (s\<lparr>ls_lane := l, ls_pending := Suc (ls_pending s), ls_pushed := ls_pushed s @ [x]\<rparr>)"
| closes: "0 < ls_producers s \<Longrightarrow>
     lane_step s (s\<lparr>ls_lane := close_lane (ls_lane s), ls_pending := Suc (ls_pending s)\<rparr>)"
| signals: "ls_pending s = Suc n \<Longrightarrow> lane_step s (s\<lparr>ls_pending := n, ls_signal := True\<rparr>)"
| clones: "0 < ls_producers s \<Longrightarrow> lane_step s (s\<lparr>ls_producers := Suc (ls_producers s)\<rparr>)"
| drops: "\<lbrakk>ls_producers s = Suc n; 0 < n \<or> ls_pending s = 0\<rbrakk> \<Longrightarrow> lane_step s (s\<lparr>ls_producers := n\<rparr>)"
| takes: "\<lbrakk>ls_reader s = Looking; look (ls_lane s) = (Took x, l)\<rbrakk> \<Longrightarrow>
     lane_step s (s\<lparr>ls_lane := l, ls_got := ls_got s @ [x]\<rparr>)"
| finishes: "\<lbrakk>ls_reader s = Looking; look (ls_lane s) = (Ended, l)\<rbrakk> \<Longrightarrow> lane_step s (s\<lparr>ls_reader := Finished\<rparr>)"
| parks: "\<lbrakk>ls_reader s = Looking; look (ls_lane s) = (Waits, l)\<rbrakk> \<Longrightarrow> lane_step s (s\<lparr>ls_reader := Parked\<rparr>)"
| wakes: "\<lbrakk>ls_reader s = Parked; ls_signal s\<rbrakk> \<Longrightarrow> lane_step s (s\<lparr>ls_reader := Looking, ls_signal := False\<rparr>)"
| cancelled: "ls_reader s = Parked \<Longrightarrow> lane_step s (s\<lparr>ls_reader := Looking\<rparr>)"
| abandoned: "\<lbrakk>ls_reader s = Parked; \<not> ls_signal s; ls_producers s = 0\<rbrakk> \<Longrightarrow> lane_step s (s\<lparr>ls_reader := Finished\<rparr>)"

inductive lane_reachable :: "nat \<Rightarrow> 'a lane_sys \<Rightarrow> bool" for capacity where
  start: "lane_reachable capacity (lane_start capacity)"
| step: "lane_reachable capacity s \<Longrightarrow> lane_step s s' \<Longrightarrow> lane_reachable capacity s'"

section \<open>What always holds\<close>

definition lane_inv :: "nat \<Rightarrow> 'a lane_sys \<Rightarrow> bool" where
  "lane_inv capacity s \<longleftrightarrow>
     ln_capacity (ls_lane s) = capacity \<and> length (ln_queue (ls_lane s)) \<le> capacity \<and>
     (ls_producers s = 0 \<longrightarrow> ls_pending s = 0) \<and>
     suffix (ln_queue (ls_lane s)) (ls_pushed s) \<and>
     subseq (ls_got s @ ln_queue (ls_lane s)) (ls_pushed s) \<and>
     length (ls_pushed s) = length (ls_got s) + length (ln_queue (ls_lane s)) + ln_dropped (ls_lane s) \<and>
     (ls_reader s = Parked \<and> (ln_queue (ls_lane s) \<noteq> [] \<or> ln_closed (ls_lane s)) \<longrightarrow> ls_signal s \<or> 0 < ls_pending s) \<and>
     (ls_reader s = Finished \<longrightarrow> ln_queue (ls_lane s) = [] \<and> (ln_closed (ls_lane s) \<or> ls_producers s = 0))"

lemma lane_step_inv:
  assumes "lane_step s s'" and "lane_inv capacity s" and "0 < capacity"
  shows "lane_inv capacity s'"
  using assms
proof (induction rule: lane_step.induct)
  case (pushes s x out l)
  let ?q = "ln_queue (ls_lane s)"
  have q: "ln_queue l = (if capacity \<le> length ?q then tl ?q else ?q) @ [x]" "\<not> ln_closed (ls_lane s)" "ln_closed l = ln_closed (ls_lane s)"
      "ln_capacity l = capacity" "ln_dropped l = ln_dropped (ls_lane s) + (if capacity \<le> length ?q then 1 else 0)"
    using pushes by (auto simp: push_def lane_inv_def checked_add_def split: if_splits)
  note I = pushes(4) [unfolded lane_inv_def]
  have "suffix (tl ?q) ?q" by (cases ?q) (simp_all add: suffix_ConsI)
  then have "suffix (tl ?q) (ls_pushed s)" using I suffix_order.trans by blast
  with I q(1) have suf: "suffix (ln_queue l) (ls_pushed s @ [x])" by simp
  have "subseq (tl ?q) ?q" by (cases ?q) auto
  then have "subseq (ls_got s @ tl ?q) (ls_got s @ ?q)" by (simp add: list_emb_append_mono)
  then have "subseq (ls_got s @ tl ?q) (ls_pushed s)" using I subseq_order.trans by blast
  then have sub: "subseq (ls_got s @ ln_queue l) (ls_pushed s @ [x])"
    using I list_emb_append_mono [of "(=)" "ls_got s @ tl ?q" "ls_pushed s" "[x]" "[x]"]
      list_emb_append_mono [of "(=)" "ls_got s @ ?q" "ls_pushed s" "[x]" "[x]"] by (simp add: q(1))
  have fin: "ls_reader s \<noteq> Finished" using I q(2) pushes(1) by auto
  have len: "length (ln_queue l) \<le> capacity" using pushes(5) q(1) I by (cases ?q) auto
  have sum: "length (ls_pushed s @ [x]) = length (ls_got s) + length (ln_queue l) + ln_dropped l"
    using I q(1,5) pushes(5) by (cases ?q) auto
  show ?case unfolding lane_inv_def using pushes(1) q(4) suf sub fin len sum by simp
next
  case (takes s x l)
  then obtain xs where "ln_queue (ls_lane s) = x # xs" "l = ls_lane s\<lparr>ln_queue := xs\<rparr>"
    by (auto simp: look_def split: list.splits if_splits)
  with takes show ?case by (auto simp: lane_inv_def dest: suffix_ConsD)
qed (auto simp: lane_inv_def close_lane_def look_def split: list.splits if_splits)

lemma lane_reachable_inv: "lane_reachable capacity s \<Longrightarrow> 0 < capacity \<Longrightarrow> lane_inv capacity s"
proof (induction rule: lane_reachable.induct)
  case start
  then show ?case by (simp add: lane_inv_def lane_start_def media_lane_def)
qed (blast intro: lane_step_inv)

text \<open>
  C30. However producers and the reader interleave, a lane holds the latest frames and at most its
  capacity of them; what the window gets is what was pushed, in order, less the frames counted as
  dropped; and the reader ends only with nothing left to deliver.
\<close>

theorem media_lane_latest_frames:
  assumes "lane_reachable capacity s" and "0 < capacity"
  shows "length (ln_queue (ls_lane s)) \<le> capacity \<and>
    suffix (ln_queue (ls_lane s)) (ls_pushed s) \<and>
    subseq (ls_got s @ ln_queue (ls_lane s)) (ls_pushed s) \<and>
    length (ls_pushed s) = length (ls_got s) + length (ln_queue (ls_lane s)) + ln_dropped (ls_lane s) \<and>
    (ls_reader s = Finished \<longrightarrow> ln_queue (ls_lane s) = [])"
  using lane_reachable_inv [OF assms] by (simp add: lane_inv_def)

subsection \<open>The reader is woken\<close>

text \<open>
  An endless execution: from a reachable state, each moment a step or nothing. It is fair when a
  producer that owes its wake-up sends it in the end, and a parked reader whose channel holds a
  signal is in the end scheduled to take it; that is all that is asked of the runtime. Nothing
  makes the future of a waiting reader be cancelled.
\<close>

definition lane_run :: "nat \<Rightarrow> (nat \<Rightarrow> 'a lane_sys) \<Rightarrow> bool" where
  "lane_run capacity r \<longleftrightarrow>
     lane_reachable capacity (r 0) \<and> (\<forall>i. r (Suc i) = r i \<or> lane_step (r i) (r (Suc i)))"

definition sends_signal :: "'a lane_sys \<Rightarrow> 'a lane_sys \<Rightarrow> bool" where
  "sends_signal s s' \<longleftrightarrow> (\<exists>n. ls_pending s = Suc n \<and> s' = s\<lparr>ls_pending := n, ls_signal := True\<rparr>)"

definition takes_signal :: "'a lane_sys \<Rightarrow> 'a lane_sys \<Rightarrow> bool" where
  "takes_signal s s' \<longleftrightarrow>
     ls_reader s = Parked \<and> ls_signal s \<and> s' = s\<lparr>ls_reader := Looking, ls_signal := False\<rparr>"

definition lane_fair :: "(nat \<Rightarrow> 'a lane_sys) \<Rightarrow> bool" where
  "lane_fair r \<longleftrightarrow>
     (\<forall>i. \<exists>j\<ge>i. ls_pending (r j) = 0 \<or> sends_signal (r j) (r (Suc j))) \<and>
     (\<forall>i. \<exists>j\<ge>i. \<not> (ls_reader (r j) = Parked \<and> ls_signal (r j)) \<or> takes_signal (r j) (r (Suc j)))"

definition has_work :: "'a lane_sys \<Rightarrow> bool" where
  "has_work s \<longleftrightarrow> ln_queue (ls_lane s) \<noteq> [] \<or> ln_closed (ls_lane s)"

lemma lane_run_inv:
  assumes "lane_run capacity r" and "0 < capacity"
  shows "lane_inv capacity (r i)"
proof (rule lane_reachable_inv [OF _ assms(2)])
  show "lane_reachable capacity (r i)"
  proof (induction i)
    case (Suc i)
    with assms(1) show ?case by (metis lane_run_def lane_reachable.step)
  qed (use assms(1) in \<open>simp add: lane_run_def\<close>)
qed

lemma parked_owes_signal:
  "\<lbrakk>lane_inv capacity s; ls_reader s = Parked; has_work s\<rbrakk> \<Longrightarrow> ls_signal s \<or> 0 < ls_pending s"
  by (auto simp: lane_inv_def has_work_def)

text \<open>One step of a lane whose reader waits while there is work.\<close>

lemma parked_step:
  assumes "lane_step s s'" and "lane_inv capacity s" and "ls_reader s = Parked" and "has_work s"
  shows "has_work s' \<and> ls_got s' = ls_got s \<and> (ls_reader s' = Parked \<or> ls_reader s' = Looking) \<and>
    (ls_reader s' = Parked \<and> ls_signal s \<longrightarrow> ls_signal s')"
  using assms
proof (induction rule: lane_step.induct)
  case (pushes s x out l)
  then show ?case by (auto simp: push_def has_work_def split: if_splits)
qed (auto simp: has_work_def close_lane_def lane_inv_def)

lemma parked_next:
  assumes "lane_run capacity r" and "0 < capacity" and "ls_reader (r k) = Parked" and "has_work (r k)"
  shows "has_work (r (Suc k)) \<and> ls_got (r (Suc k)) = ls_got (r k) \<and>
    (ls_reader (r (Suc k)) = Parked \<or> ls_reader (r (Suc k)) = Looking) \<and>
    (ls_reader (r (Suc k)) = Parked \<and> ls_signal (r k) \<longrightarrow> ls_signal (r (Suc k)))"
  using assms(1) parked_step [OF _ lane_run_inv [OF assms(1,2)] assms(3,4)] assms(3,4)
  by (metis lane_run_def)

lemma parked_until:
  assumes "lane_run capacity r" and "0 < capacity" and "has_work (r i)"
    and "\<And>k. i \<le> k \<Longrightarrow> k < i + d \<Longrightarrow> ls_reader (r k) = Parked"
  shows "has_work (r (i + d)) \<and> ls_got (r (i + d)) = ls_got (r i) \<and>
    (0 < d \<longrightarrow> ls_reader (r (i + d)) = Parked \<or> ls_reader (r (i + d)) = Looking)"
  using assms(4)
proof (induction d)
  case (Suc d)
  then have "has_work (r (i + d))" "ls_got (r (i + d)) = ls_got (r i)" "ls_reader (r (i + d)) = Parked"
    by simp_all
  with parked_next [OF assms(1,2)] show ?case by simp
qed (use assms(3) in simp)

lemma not_parked_for_ever:
  assumes run: "lane_run capacity r" and cap: "0 < capacity" and fair: "lane_fair r" and work: "has_work (r i)"
  shows "\<exists>k\<ge>i. ls_reader (r k) \<noteq> Parked"
proof (rule ccontr)
  assume "\<not> ?thesis"
  then have parked: "ls_reader (r k) = Parked" if "i \<le> k" for k using that by blast
  have works: "has_work (r k)" if "i \<le> k" for k
    using parked_until [OF run cap work, of "k - i"] parked that by simp
  have holds: "ls_signal (r (Suc k))" if "i \<le> k" "ls_signal (r k)" for k
    using parked_next [OF run cap parked works] parked [of "Suc k"] that by simp
  obtain j where j: "i \<le> j" "ls_signal (r j)"
  proof -
    from fair obtain j where j: "i \<le> j" "ls_pending (r j) = 0 \<or> sends_signal (r j) (r (Suc j))"
      unfolding lane_fair_def by blast
    then show thesis
      using that [of j] that [of "Suc j"] parked_owes_signal [OF lane_run_inv [OF run cap] parked works, of j]
      by (auto simp: sends_signal_def)
  qed
  have sig: "ls_signal (r k)" if "j \<le> k" for k
    using that by (induction k rule: dec_induct) (use j holds in auto)
  from fair obtain k where k: "j \<le> k"
      "\<not> (ls_reader (r k) = Parked \<and> ls_signal (r k)) \<or> takes_signal (r k) (r (Suc k))"
    unfolding lane_fair_def by blast
  then have "takes_signal (r k) (r (Suc k))" using parked sig j(1) by auto
  with parked [of "Suc k"] j(1) k(1) show False by (simp add: takes_signal_def)
qed

text \<open>
  C31. No wake-up is lost. Whenever the reader waits although there is a frame to take or the lane
  is closed, a signal is in its channel or a producer still owes one; and in every fair execution
  the reader then waits only finitely long: it next leaves its wait to look at the queue again,
  nothing having been taken meanwhile and the frame or the close still being there for it.
\<close>

theorem media_lane_no_lost_wakeup:
  assumes "lane_run capacity r" and "0 < capacity" and "lane_fair r"
    and "ls_reader (r i) = Parked" and "ln_queue (ls_lane (r i)) \<noteq> [] \<or> ln_closed (ls_lane (r i))"
  shows "(ls_signal (r i) \<or> 0 < ls_pending (r i)) \<and>
    (\<exists>j>i. ls_reader (r j) = Looking \<and> (\<forall>k. i \<le> k \<and> k < j \<longrightarrow> ls_reader (r k) = Parked) \<and>
       ls_got (r j) = ls_got (r i) \<and> (ln_queue (ls_lane (r j)) \<noteq> [] \<or> ln_closed (ls_lane (r j))))"
proof -
  have work: "has_work (r i)" using assms(5) by (simp add: has_work_def)
  define j where "j = (LEAST j. i \<le> j \<and> ls_reader (r j) \<noteq> Parked)"
  have j: "i \<le> j \<and> ls_reader (r j) \<noteq> Parked"
    unfolding j_def by (rule LeastI_ex) (use not_parked_for_ever [OF assms(1-3) work] in blast)
  have before: "ls_reader (r k) = Parked" if "i \<le> k" "k < j" for k
    using not_less_Least [of k] that unfolding j_def by blast
  have "i < j" using j assms(4) by (metis le_neq_implies_less)
  moreover have "has_work (r j) \<and> ls_got (r j) = ls_got (r i) \<and> ls_reader (r j) = Looking"
    using parked_until [OF assms(1,2) work, of "j - i"] before j \<open>i < j\<close> by simp
  moreover have "ls_signal (r i) \<or> 0 < ls_pending (r i)"
    by (rule parked_owes_signal [OF lane_run_inv [OF assms(1,2)] assms(4) work])
  ultimately show ?thesis using before by (auto simp: has_work_def)
qed

definition demo_lane :: "nat lane_sys" where
  "demo_lane = (lane_start 32)\<lparr>ls_reader := Parked, ls_lane := (media_lane 32)\<lparr>ln_queue := [5]\<rparr>, ls_pending := 1, ls_pushed := [5]\<rparr>"

lemma demo_lane_reachable: "lane_reachable 32 demo_lane"
proof -
  let ?s = "(lane_start 32)\<lparr>ls_reader := Parked\<rparr> :: nat lane_sys"
  have "lane_reachable 32 ?s"
    by (rule lane_reachable.step [OF lane_reachable.start parks]) (simp_all add: lane_start_def look_def media_lane_def)
  moreover have "push 5 (ls_lane ?s) = Some (Queued, (media_lane 32)\<lparr>ln_queue := [5]\<rparr>)"
    by (simp add: lane_start_def push_def media_lane_def)
  then have "lane_step ?s demo_lane" using pushes [of ?s 5 Queued] by (simp add: lane_start_def demo_lane_def)
  ultimately show ?thesis by (rule lane_reachable.step)
qed

theorem media_lane_latest_frames_witness:
  "length (ln_queue (ls_lane demo_lane)) \<le> 32 \<and> suffix (ln_queue (ls_lane demo_lane)) (ls_pushed demo_lane)"
  using media_lane_latest_frames [OF demo_lane_reachable] by simp

definition demo_run :: "nat \<Rightarrow> nat lane_sys" where
  "demo_run i =
     (if i = 0 then demo_lane
      else if i = 1 then demo_lane\<lparr>ls_pending := 0, ls_signal := True\<rparr>
      else demo_lane\<lparr>ls_pending := 0, ls_signal := False, ls_reader := Looking\<rparr>)"

lemma demo_run_ok: "lane_run 32 demo_run" "lane_fair demo_run"
proof -
  have "lane_step demo_lane (demo_lane\<lparr>ls_pending := 0, ls_signal := True\<rparr>)"
    by (rule signals) (simp add: demo_lane_def)
  moreover have "lane_step (demo_lane\<lparr>ls_pending := 0, ls_signal := True\<rparr>)
      (demo_lane\<lparr>ls_pending := 0, ls_signal := False, ls_reader := Looking\<rparr>)"
    using wakes [of "demo_lane\<lparr>ls_pending := 0, ls_signal := True\<rparr>"] by (simp add: demo_lane_def lane_start_def)
  ultimately show "lane_run 32 demo_run"
    using demo_lane_reachable by (auto simp: lane_run_def demo_run_def)
  have "\<exists>j\<ge>i. ls_pending (demo_run j) = 0 \<and> ls_reader (demo_run j) = Looking" for i
    by (intro exI [of _ "i + 2"]) (simp add: demo_run_def)
  then show "lane_fair demo_run" unfolding lane_fair_def by fastforce
qed

theorem media_lane_no_lost_wakeup_witness:
  "ls_reader (demo_run 0) = Parked \<and> 0 < ls_pending (demo_run 0) \<and> (\<exists>j>0. ls_reader (demo_run j) = Looking)"
proof -
  have p: "ls_reader (demo_run 0) = Parked" "ln_queue (ls_lane (demo_run 0)) \<noteq> []" "\<not> ls_signal (demo_run 0)"
    by (simp_all add: demo_run_def demo_lane_def media_lane_def lane_start_def)
  with media_lane_no_lost_wakeup [OF demo_run_ok(1) _ demo_run_ok(2), of 0] show ?thesis by auto
qed

section \<open>A peer's UDP transport (udp\_state.rs)\<close>

text \<open>Offers, send halves and receive halves are the SDK's: three type parameters.\<close>

datatype ('offer, 'tx, 'rx) udp_state =
    UdpPending "'offer list"
  | UdpOpening
  | UdpIdle 'tx 'rx
  | UdpLent 'tx
  | UdpUnavailable

definition from_optional_channel :: "'offer option \<Rightarrow> ('offer, 'tx, 'rx) udp_state" where
  "from_optional_channel udp_rx = (case udp_rx of Some rx \<Rightarrow> UdpPending [rx] | None \<Rightarrow> UdpUnavailable)"

definition offer_udp :: "'offer \<Rightarrow> ('offer, 'tx, 'rx) udp_state \<Rightarrow> ('offer, 'tx, 'rx) udp_state" where
  "offer_udp rx u = (case u of UdpPending offers \<Rightarrow> UdpPending (offers @ [rx]) | _ \<Rightarrow> UdpPending [rx])"

text \<open>Offers made while none is taken are all kept, in order.\<close>

lemma offers_accumulate: "foldl (\<lambda>u rx. offer_udp rx u) (UdpPending rxs) os = UdpPending (rxs @ os)"
  by (induction os arbitrary: rxs) (simp_all add: offer_udp_def)

text \<open>
  The comment on \<^verbatim>\<open>offer\<close> says a parked pair (\<^verbatim>\<open>Idle\<close>) or a live call's (\<^verbatim>\<open>Lent\<close>) is left alone. It is
  replaced.
\<close>

lemma offer_replaces_idle: "offer_udp rx (UdpIdle tx rx0) = UdpPending [rx]" "offer_udp rx (UdpLent tx) = UdpPending [rx]"
  by (simp_all add: offer_udp_def)

end
