(* ===== verification/Ilm_Registry.thy ===== *)
theory Ilm_Registry
  imports Hash_Map
begin

text \<open>
  Which accounts have a messaging layer hosted by the agent (\<^verbatim>\<open>kernel/ilm/registry.rs\<close>). Starting one
  takes two locked sections with the load of its stored state between them; \<^verbatim>\<open>ensure_begin\<close> and
  \<^verbatim>\<open>ensure_end\<close> are those sections, and a history is any interleaving of the sections of any number of
  starts, stops and reads. A host is identified by the ticket of the start that made it. The load
  and the reading of a wire frame are arguments.
\<close>

type_synonym ticket = "64 word"
type_synonym account = "64 word"

datatype host_slot = Starting ticket | Running ticket

record ilm_registry =
  ir_hosts :: "(account, host_slot) hmap"
  ir_tickets :: ticket

datatype start_error = StoppedWhileStarting account | BackendError string

definition new_registry :: ilm_registry where "new_registry = \<lparr>ir_hosts = [], ir_tickets = 0\<rparr>"

text \<open>
  A start first draws its ticket, an atomic counter's next value, and then looks for the account in the first
  section, which finds a host, a start in progress, or nothing and reserves the account.
\<close>

definition draw_ticket :: "ilm_registry \<Rightarrow> ticket \<times> ilm_registry" where
  "draw_ticket r = (ir_tickets r, r\<lparr>ir_tickets := ir_tickets r + 1\<rparr>)"

datatype begun = Hosted ticket | StartInProgress | Reserved

definition ensure_begin :: "account \<Rightarrow> ticket \<Rightarrow> ilm_registry \<Rightarrow> begun \<times> ilm_registry" where
  "ensure_begin c t r =
     (case hm_get (ir_hosts r) c of
        Some (Running host) \<Rightarrow> (Hosted host, r)
      | Some (Starting _) \<Rightarrow> (StartInProgress, r)
      | None \<Rightarrow> (Reserved, r\<lparr>ir_hosts := hm_insert c (Starting t) (ir_hosts r)\<rparr>))"

definition ensure_end :: "account \<Rightarrow> ticket \<Rightarrow> string + unit \<Rightarrow> ilm_registry \<Rightarrow> (start_error + ticket) \<times> ilm_registry" where
  "ensure_end c t started r =
     (let still_reserved = (hm_get (ir_hosts r) c = Some (Starting t))
      in case started of
           Inl err \<Rightarrow>
             (Inl (BackendError err), if still_reserved then r\<lparr>ir_hosts := hm_remove c (ir_hosts r)\<rparr> else r)
         | Inr _ \<Rightarrow>
             if \<not> still_reserved then (Inl (StoppedWhileStarting c), r)
             else (Inr t, r\<lparr>ir_hosts := hm_insert c (Running t) (ir_hosts r)\<rparr>))"

definition get_host :: "account \<Rightarrow> ilm_registry \<Rightarrow> ticket option" where
  "get_host c r = (case hm_get (ir_hosts r) c of Some (Running host) \<Rightarrow> Some host | _ \<Rightarrow> None)"

definition hosted :: "ilm_registry \<Rightarrow> account list" where
  "hosted r = map fst (filter (\<lambda>(_, s). case s of Running _ \<Rightarrow> True | _ \<Rightarrow> False) (ir_hosts r))"

definition is_hosted :: "account \<Rightarrow> ilm_registry \<Rightarrow> bool" where
  "is_hosted c r \<longleftrightarrow> hm_get (ir_hosts r) c \<noteq> None"

definition stop_host :: "account \<Rightarrow> ilm_registry \<Rightarrow> ilm_registry" where
  "stop_host c r = r\<lparr>ir_hosts := hm_remove c (ir_hosts r)\<rparr>"

text \<open>
  An arrived message: given back when it is not the messaging layer's, otherwise handed to the
  account's host or, unreadable, dropped.
\<close>

datatype 'f wire_decoded = Frame 'f | Unreadable | NotAFrame

datatype 'f fed = GivenBack | Dropped | FedTo ticket 'f

definition feed :: "(string \<Rightarrow> 'f wire_decoded) \<Rightarrow> account \<Rightarrow> string \<Rightarrow> ilm_registry \<Rightarrow> 'f fed" where
  "feed decode c message r =
     (case get_host c r of
        None \<Rightarrow> GivenBack
      | Some host \<Rightarrow>
          (case decode message of Frame f \<Rightarrow> FedTo host f | Unreadable \<Rightarrow> Dropped | NotAFrame \<Rightarrow> GivenBack))"

section \<open>Histories\<close>

text \<open>The registry and the starts that have drawn a ticket and not yet looked.\<close>

record registry_sys =
  rs_registry :: ilm_registry
  rs_waiting :: "(account \<times> ticket) list"

datatype registry_act = Draws account | Looks account ticket | Finishes account ticket "string + unit" | Stops account

definition registry_step :: "registry_sys \<Rightarrow> registry_act \<Rightarrow> registry_sys" where
  "registry_step s a =
     (case a of
        Draws c \<Rightarrow>
          (let (t, r) = draw_ticket (rs_registry s) in s\<lparr>rs_registry := r, rs_waiting := (c, t) # rs_waiting s\<rparr>)
      | Looks c t \<Rightarrow>
          if (c, t) \<in> set (rs_waiting s)
          then s\<lparr>rs_registry := snd (ensure_begin c t (rs_registry s)), rs_waiting := remove1 (c, t) (rs_waiting s)\<rparr>
          else s
      | Finishes c t started \<Rightarrow> s\<lparr>rs_registry := snd (ensure_end c t started (rs_registry s))\<rparr>
      | Stops c \<Rightarrow> s\<lparr>rs_registry := stop_host c (rs_registry s)\<rparr>)"

abbreviation registry_run :: "registry_sys \<Rightarrow> registry_act list \<Rightarrow> registry_sys" where
  "registry_run s h \<equiv> foldl registry_step s h"

definition registry_history :: "registry_act list \<Rightarrow> registry_sys" where
  "registry_history h = registry_run \<lparr>rs_registry = new_registry, rs_waiting = []\<rparr> h"

abbreviation slot_of :: "account \<Rightarrow> registry_sys \<Rightarrow> host_slot option" where
  "slot_of c s \<equiv> hm_get (ir_hosts (rs_registry s)) c"

text \<open>No two starts hold one ticket, as long as fewer than \<^verbatim>\<open>2^64\<close> are drawn.\<close>

definition tickets_ok :: "nat \<Rightarrow> registry_sys \<Rightarrow> bool" where
  "tickets_ok n s \<longleftrightarrow>
     hm_wf (ir_hosts (rs_registry s)) \<and> distinct (map snd (rs_waiting s)) \<and>
     (\<exists>m \<le> n. ir_tickets (rs_registry s) = word_of_nat m \<and> (\<forall>t \<in> snd ` set (rs_waiting s). unat t < m))"

lemma distinct_remove1_map: "distinct (map f xs) \<Longrightarrow> distinct (map f (remove1 x xs))"
  by (induction xs) (auto dest: notin_set_remove1 simp: image_iff)

lemma remove1_gone: "distinct (map snd xs) \<Longrightarrow> (c, t) \<in> set xs \<Longrightarrow> t \<notin> snd ` set (remove1 (c, t) xs)"
  by (induction xs) (auto simp: image_iff)

lemma unat_ticket: "m < 2 ^ 64 \<Longrightarrow> unat (word_of_nat m :: ticket) = m"
  by (simp add: unsigned_of_nat take_bit_nat_eq_self)

lemma tickets_ok_step:
  assumes "tickets_ok n s" and "n < 2 ^ 64 - 1"
  shows "tickets_ok (Suc n) (registry_step s a)"
proof -
  from assms obtain m where m: "m \<le> n" "ir_tickets (rs_registry s) = word_of_nat m" "\<forall>t \<in> snd ` set (rs_waiting s). unat t < m"
    and wf: "hm_wf (ir_hosts (rs_registry s))" and d: "distinct (map snd (rs_waiting s))" by (auto simp: tickets_ok_def)
  have u: "unat (word_of_nat m :: ticket) = m" using m(1) assms(2) by (intro unat_ticket) simp
  show ?thesis
  proof (cases a)
    case (Draws c)
    then show ?thesis using m wf d u
      by (auto simp: tickets_ok_def registry_step_def draw_ticket_def less_Suc_eq image_iff intro!: exI [of _ "Suc m"])
  next
    case (Looks c t)
    then show ?thesis using m wf d
      by (auto simp: tickets_ok_def registry_step_def ensure_begin_def distinct_remove1_map dest: notin_set_remove1
          split: option.split host_slot.split intro!: exI [of _ m])
  next
    case (Finishes c t started)
    then show ?thesis using m wf d
      by (auto simp: tickets_ok_def registry_step_def ensure_end_def Let_def split: sum.split intro!: exI [of _ m])
  next
    case (Stops c)
    then show ?thesis using m wf d
      by (auto simp: tickets_ok_def registry_step_def stop_host_def intro!: exI [of _ m])
  qed
qed

lemma tickets_ok_run: "tickets_ok n s \<Longrightarrow> n + length h < 2 ^ 64 \<Longrightarrow> tickets_ok (n + length h) (registry_run s h)"
proof (induction h rule: rev_induct)
  case (snoc a h)
  then show ?case using tickets_ok_step [of "n + length h" "registry_run s h" a] by simp
qed simp

text \<open>
  A reservation through a history in which it is not finished: it stands until the account is stopped,
  and then no other start has its ticket.
\<close>

definition reservation :: "account \<Rightarrow> ticket \<Rightarrow> bool \<Rightarrow> nat \<Rightarrow> registry_sys \<Rightarrow> bool" where
  "reservation c t stopped n s \<longleftrightarrow>
     tickets_ok n s \<and> t \<notin> snd ` set (rs_waiting s) \<and>
     (\<exists>m \<le> n. ir_tickets (rs_registry s) = word_of_nat m \<and> unat t < m) \<and>
     (if stopped then slot_of c s \<notin> {Some (Starting t), Some (Running t)} else slot_of c s = Some (Starting t))"

lemma reservation_step:
  assumes "reservation c t stopped n s" and "n < 2 ^ 64 - 1" and "\<forall>started. a \<noteq> Finishes c t started"
  shows "reservation c t (stopped \<or> a = Stops c) (Suc n) (registry_step s a)"
proof -
  from assms(1) obtain m where m: "m \<le> n" "ir_tickets (rs_registry s) = word_of_nat m" "unat t < m"
    and t: "t \<notin> snd ` set (rs_waiting s)" and ok: "tickets_ok n s"
    and c: "if stopped then slot_of c s \<notin> {Some (Starting t), Some (Running t)} else slot_of c s = Some (Starting t)"
    by (auto simp: reservation_def)
  have wf: "hm_wf (ir_hosts (rs_registry s))" using ok by (simp add: tickets_ok_def)
  have "t \<noteq> word_of_nat m" using m(1,3) assms(2) unat_ticket [of m] by auto
  then have "t \<notin> snd ` set (rs_waiting (registry_step s a))" using t m(2)
    by (cases a) (auto simp: registry_step_def draw_ticket_def image_iff dest!: notin_set_remove1 [THEN contrapos_pp] split: if_splits)
  moreover have "\<exists>m' \<le> Suc n. ir_tickets (rs_registry (registry_step s a)) = word_of_nat m' \<and> unat t < m'"
  proof (cases "\<exists>d. a = Draws d")
    case True
    then show ?thesis using m by (auto simp: registry_step_def draw_ticket_def intro!: exI [of _ "Suc m"])
  next
    case False
    then show ?thesis using m
      by (cases a) (auto simp: registry_step_def ensure_begin_def ensure_end_def stop_host_def Let_def
          split: option.split host_slot.split sum.split intro!: exI [of _ m])
  qed
  moreover have "if stopped \<or> a = Stops c then slot_of c (registry_step s a) \<notin> {Some (Starting t), Some (Running t)}
      else slot_of c (registry_step s a) = Some (Starting t)"
  proof (cases a)
    case (Looks d t')
    then show ?thesis using c t wf
      by (auto simp: registry_step_def ensure_begin_def image_iff split: option.splits host_slot.splits if_splits)
  qed (use c wf assms(3) in \<open>auto simp: registry_step_def draw_ticket_def ensure_end_def stop_host_def Let_def
      split: if_splits sum.splits\<close>)
  ultimately show ?thesis using tickets_ok_step [OF ok assms(2)] by (simp add: reservation_def)
qed

lemma reservation_run:
  "reservation c t False n s \<Longrightarrow> n + length h < 2 ^ 64 \<Longrightarrow> \<forall>started. Finishes c t started \<notin> set h \<Longrightarrow>
   reservation c t (Stops c \<in> set h) (n + length h) (registry_run s h)"
proof (induction h rule: rev_induct)
  case (snoc a h)
  then have "reservation c t (Stops c \<in> set h) (n + length h) (registry_run s h)" by auto
  from reservation_step [OF this, of a] snoc.prems show ?case by (auto simp: disj_commute eq_commute)
qed simp

lemma reserved_begins:
  assumes ok: "tickets_ok n s" and n: "n < 2 ^ 64 - 1" and w: "(c, t) \<in> set (rs_waiting s)"
    and "fst (ensure_begin c t (rs_registry s)) = Reserved"
  shows "reservation c t False (Suc n) (registry_step s (Looks c t))"
proof -
  have free: "slot_of c s = None" using assms(4) by (auto simp: ensure_begin_def split: option.splits host_slot.splits)
  from ok w obtain m where m: "m \<le> n" "ir_tickets (rs_registry s) = word_of_nat m" "unat t < m"
    by (force simp: tickets_ok_def)
  have "t \<notin> snd ` set (remove1 (c, t) (rs_waiting s))" using ok w by (intro remove1_gone) (simp_all add: tickets_ok_def)
  then show ?thesis using tickets_ok_step [OF ok n, of "Looks c t"] m w free ok
    by (auto simp: reservation_def registry_step_def ensure_begin_def tickets_ok_def intro!: exI [of _ m])
qed

text \<open>
  C32. At most one messaging layer per account: once a start has reserved an account, then in any interleaving with
  other starts, finishes and stops, as long as the account is not stopped no other start gets
  it and this one becomes its host; once it has been stopped, this start's result is discarded
  and changes nothing, whatever was started since.
\<close>

theorem ilm_one_per_account:
  fixes c t h0 h
  defines "s0 \<equiv> registry_history h0"
  defines "r \<equiv> rs_registry (registry_run (registry_step s0 (Looks c t)) h)"
  assumes "(c, t) \<in> set (rs_waiting s0)" and "fst (ensure_begin c t (rs_registry s0)) = Reserved"
    and "length h0 + length h < 2 ^ 64 - 1" and "\<forall>started. Finishes c t started \<notin> set h"
  shows "if Stops c \<in> set h then ensure_end c t (Inr ()) r = (Inl (StoppedWhileStarting c), r)
    else fst (ensure_begin c t' r) = StartInProgress \<and>
      (\<exists>r'. ensure_end c t (Inr ()) r = (Inr t, r') \<and> get_host c r' = Some t \<and> fst (ensure_begin c t' r') = Hosted t)"
proof -
  have "tickets_ok 0 \<lparr>rs_registry = new_registry, rs_waiting = []\<rparr>" by (simp add: tickets_ok_def new_registry_def)
  from tickets_ok_run [OF this, of h0] have "tickets_ok (length h0) s0" using assms(5) by (simp add: s0_def registry_history_def)
  then have "reservation c t False (Suc (length h0)) (registry_step s0 (Looks c t))"
    using assms(5) by (intro reserved_begins assms(3,4)) simp_all
  from reservation_run [OF this, of h] assms(5,6)
  have "reservation c t (Stops c \<in> set h) (Suc (length h0) + length h) (registry_run (registry_step s0 (Looks c t)) h)" by simp
  then show ?thesis
    by (auto simp: reservation_def r_def ensure_end_def ensure_begin_def get_host_def tickets_ok_def Let_def split: if_splits)
qed

theorem ilm_one_per_account_witness:
  "let h0 = [Draws 7, Draws 7]; h = [Draws 7, Stops 7, Looks 7 1, Finishes 7 1 (Inr ())];
       r = rs_registry (registry_run (registry_step (registry_history h0) (Looks 7 0)) h)
   in ensure_end 7 0 (Inr ()) r = (Inl (StoppedWhileStarting 7), r) \<and> get_host 7 r = Some 1"
proof -
  have w: "(7, 0) \<in> set (rs_waiting (registry_history [Draws 7, Draws 7]))"
      "fst (ensure_begin 7 0 (rs_registry (registry_history [Draws 7, Draws 7]))) = Reserved"
    by (simp_all add: registry_history_def registry_step_def draw_ticket_def new_registry_def ensure_begin_def)
  show ?thesis using ilm_one_per_account [OF w, of "[Draws 7, Stops 7, Looks 7 1, Finishes 7 1 (Inr ())]" 0]
    by (simp add: Let_def registry_history_def registry_step_def draw_ticket_def new_registry_def ensure_begin_def
        ensure_end_def stop_host_def get_host_def)
qed

end
