(* ===== verification/Reconnect_Policy.thy ===== *)
theory Reconnect_Policy
  imports Byte_Strings BTreeMap Hash_Map
begin

text \<open>
  When a dropped session is tried again, when the agent stops trying, which reports are about the link a
  session has now, and what a sign-in does to a session that is being brought back
  (\<^verbatim>\<open>kernel/reconnect/{policy,instance,sign_in,signed_out,lost_peers}.rs\<close>). The SDK's error registry is an
  argument: \<^verbatim>\<open>raw\<close> gives the text of a code, and of the codes only those the source names are told
  apart. Its keep-alive constants are arguments too. Messages are their bytes.
\<close>

section \<open>The link and its drops (mod.rs, policy.rs)\<close>

datatype link_state = LkUp | LkReconnecting | LkEnding | LkSigningIn

record reconnect_policy =
  first_delay :: duration
  max_delay :: duration
  give_up_after :: duration
  attempt_timeout :: duration
  server_holds_session_for :: duration

definition server_session_expiry :: "duration \<Rightarrow> duration \<Rightarrow> duration" where
  "server_session_expiry keep_alive_check keep_alive_timeout = sat_add duration_max keep_alive_timeout keep_alive_check"

definition SERVER_RECONNECT :: "duration \<Rightarrow> duration \<Rightarrow> reconnect_policy" where
  "SERVER_RECONNECT keep_alive_check keep_alive_timeout =
     \<lparr>first_delay = from_millis 500, max_delay = from_secs 30, give_up_after = from_secs 600,
      attempt_timeout = from_secs 30,
      server_holds_session_for = server_session_expiry keep_alive_check keep_alive_timeout\<rparr>"

datatype failure_kind = FkRefused | FkTransient | FkServerHoldsSession
datatype give_up_reason = GuRefused | GuOutOfTime
datatype next_attempt = RetryAfter duration | GiveUp give_up_reason
datatype drop_action = DaReconnect | DaAlreadyReconnecting | DaRemove

definition on_unrequested_drop :: "link_state \<Rightarrow> drop_action" where
  "on_unrequested_drop link =
     (case link of
        LkUp \<Rightarrow> DaReconnect
      | LkReconnecting \<Rightarrow> DaAlreadyReconnecting
      | LkSigningIn \<Rightarrow> DaAlreadyReconnecting
      | LkEnding \<Rightarrow> DaRemove)"

definition claim_requires_sdk_session :: "link_state \<Rightarrow> bool" where
  "claim_requires_sdk_session link \<longleftrightarrow> \<not> (link = LkReconnecting \<or> link = LkSigningIn)"

definition delay_before :: "reconnect_policy \<Rightarrow> nat \<Rightarrow> duration" where
  "delay_before p attempt =
     (let factor = shl_or_max attempt
      in if first_delay p * factor \<le> duration_max then min (first_delay p * factor) (max_delay p) else max_delay p)"

definition retry_limit :: "reconnect_policy \<Rightarrow> failure_kind \<Rightarrow> duration" where
  "retry_limit p kind =
     (case kind of
        FkServerHoldsSession \<Rightarrow> max (give_up_after p) (server_holds_session_for p)
      | _ \<Rightarrow> give_up_after p)"

definition after_failure :: "reconnect_policy \<Rightarrow> nat \<Rightarrow> duration \<Rightarrow> failure_kind \<Rightarrow> next_attempt" where
  "after_failure p attempt elapsed kind =
     (if kind = FkRefused then GiveUp GuRefused
      else
        let delay = delay_before p (sat_add u32_max attempt 1)
        in if retry_limit p kind < sat_add duration_max elapsed delay then GiveUp GuOutOfTime else RetryAfter delay)"

definition as_secs :: "duration \<Rightarrow> nat" where "as_secs d = d div 1000000000"

definition for_keep_alive :: "duration \<Rightarrow> duration option \<Rightarrow> reconnect_policy \<Rightarrow> reconnect_policy" where
  "for_keep_alive keep_alive_check keep_alive_timeout p =
     (case keep_alive_timeout of
        None \<Rightarrow> p
      | Some timeout \<Rightarrow>
          p\<lparr>server_holds_session_for :=
              if as_secs timeout = 0 then 0
              else server_session_expiry keep_alive_check (from_secs (as_secs timeout))\<rparr>)"

section \<open>Which failures are refusals\<close>

datatype error_code =
    AccountClientNonExists | AccountServerNonExists | AccountInvalidUsername | AccountInvalidPassword
  | AccountDisengaged | PreconnectCidNotRegistered | PqSignInAdmissionRequired | PqSignInAdmissionFailed
  | RemoteConnectFailed | GenericError | OtherError nat

definition REFUSALS :: "error_code list" where
  "REFUSALS =
     [AccountClientNonExists, AccountServerNonExists, AccountInvalidUsername, AccountInvalidPassword,
      AccountDisengaged, PreconnectCidNotRegistered, PqSignInAdmissionRequired, PqSignInAdmissionFailed]"

definition SERVER_HOLDS_SESSION :: string where "SERVER_HOLDS_SESSION = ''Session Already Connected''"

text \<open>\<^verbatim>\<open>form.split("{}")\<close>, \<^verbatim>\<open>str::find\<close>, and \<^verbatim>\<open>rest.get(1..)\<close>, which is none inside a character.\<close>

fun split_braces :: "string \<Rightarrow> string list" where
  "split_braces [] = [[]]"
| "split_braces (c # s) =
     (if c = CHR ''{'' \<and> s \<noteq> [] \<and> hd s = CHR ''}'' then [] # split_braces (tl s)
      else (case split_braces s of p # ps \<Rightarrow> (c # p) # ps | [] \<Rightarrow> [[c]]))"

fun find_sub :: "string \<Rightarrow> string \<Rightarrow> nat option" where
  "find_sub [] part = (if part = [] then Some 0 else None)"
| "find_sub (c # s) part = (if starts_with (c # s) part then Some 0 else map_option Suc (find_sub s part))"

definition is_continuation :: "char \<Rightarrow> bool" where "is_continuation c \<longleftrightarrow> 128 \<le> byte c \<and> byte c < 192"

fun get_from_1 :: "string \<Rightarrow> string option" where
  "get_from_1 [] = None"
| "get_from_1 (_ # s) = (if s \<noteq> [] \<and> is_continuation (hd s) then None else Some s)"

fun after_separators :: "string \<Rightarrow> string list" where
  "after_separators (c # d # s) =
     (if c = CHR '':'' \<and> d = CHR '' '' then s # after_separators s else after_separators (d # s))"
| "after_separators _ = []"

definition clauses :: "string \<Rightarrow> string list" where "clauses message = message # after_separators message"

definition states :: "string \<Rightarrow> string \<Rightarrow> bool" where
  "states message lead \<longleftrightarrow> list_ex (\<lambda>clause. starts_with clause lead) (clauses message)"

fun placeholders_match :: "string list \<Rightarrow> string \<Rightarrow> bool" where
  "placeholders_match [] rest = True"
| "placeholders_match [part] rest =
     (if part = [] then rest \<noteq> [] else length part < length rest \<and> ends_with rest part)"
| "placeholders_match (part # next # parts) rest =
     (case Option.bind (get_from_1 rest) (\<lambda>tail. find_sub tail part) of
        Some at \<Rightarrow> placeholders_match (next # parts) (drop (1 + at + length part) rest)
      | None \<Rightarrow> False)"

definition renders :: "string \<Rightarrow> string \<Rightarrow> bool" where
  "renders form message =
     (case split_braces form of
        [] \<Rightarrow> False
      | first # placeholders \<Rightarrow>
          first \<noteq> [] \<and>
          list_ex (\<lambda>clause. case strip_prefix clause first of None \<Rightarrow> False | Some rest \<Rightarrow> placeholders_match placeholders rest)
            (clauses message))"

definition refusal_of :: "(error_code \<Rightarrow> string) \<Rightarrow> error_code \<Rightarrow> string \<Rightarrow> error_code option" where
  "refusal_of raw code message =
     (if code \<in> set REFUSALS then Some code
      else if \<not> (code = RemoteConnectFailed \<or> code = GenericError) then None
      else find (\<lambda>r. renders (raw r) message) REFUSALS)"

definition classify_failure :: "(error_code \<Rightarrow> string) \<Rightarrow> error_code \<Rightarrow> string \<Rightarrow> failure_kind" where
  "classify_failure raw code message =
     (if code \<in> set REFUSALS then FkRefused
      else if states message SERVER_HOLDS_SESSION then FkServerHoldsSession
      else if refusal_of raw code message \<noteq> None then FkRefused
      else FkTransient)"

datatype failure_reason = AdmissionRequired | AdmissionFailed

definition failure_reason_of :: "error_code \<Rightarrow> failure_reason option" where
  "failure_reason_of code =
     (case code of
        PqSignInAdmissionRequired \<Rightarrow> Some AdmissionRequired
      | PqSignInAdmissionFailed \<Rightarrow> Some AdmissionFailed
      | _ \<Rightarrow> None)"

section \<open>Which session a report is about (instance.rs)\<close>

definition names_this_instance :: "'i option \<Rightarrow> 'i option \<Rightarrow> bool" where
  "names_this_instance current reported =
     (case (current, reported) of (Some c, Some r) \<Rightarrow> c = r | _ \<Rightarrow> True)"

definition on_reported_drop :: "link_state \<Rightarrow> 'i \<Rightarrow> 'i option \<Rightarrow> drop_action option" where
  "on_reported_drop link current reported =
     (if names_this_instance (Some current) reported then Some (on_unrequested_drop link) else None)"

datatype 'i peer_end = PeRequested | PeReported "'i option" | PeGone

definition reported_end :: "'i option \<Rightarrow> bool \<Rightarrow> 'i peer_end" where
  "reported_end reported sdk_holds_peer = (if sdk_holds_peer then PeReported reported else PeGone)"

definition ends_this_connection :: "'i option \<Rightarrow> 'i peer_end \<Rightarrow> bool" where
  "ends_this_connection current e =
     (case (e, current) of
        (PeRequested, _) \<Rightarrow> True
      | (PeGone, _) \<Rightarrow> True
      | (PeReported _, None) \<Rightarrow> True
      | (PeReported (Some reported), Some current) \<Rightarrow> reported = current
      | (PeReported None, Some _) \<Rightarrow> False)"

datatype ('i, 'p) peer_report = PrRemoved 'p | PrKept "'i option" | PrAbsent

definition take_reported_peer ::
  "('p \<Rightarrow> 'i option) \<Rightarrow> cid \<Rightarrow> 'i peer_end \<Rightarrow> (cid, 'p) hmap \<Rightarrow> ('i, 'p) peer_report \<times> (cid, 'p) hmap" where
  "take_reported_peer instance_of peer e peers =
     (case hm_get peers peer of
        None \<Rightarrow> (PrAbsent, peers)
      | Some p \<Rightarrow>
          if \<not> ends_this_connection (instance_of p) e then (PrKept (instance_of p), peers)
          else (PrRemoved p, hm_remove peer peers))"

definition probed_link_is_current :: "(link_state \<times> 'i) option \<Rightarrow> 'i \<Rightarrow> bool" where
  "probed_link_is_current current probed \<longleftrightarrow> current = Some (LkUp, probed)"

section \<open>A sign-in to a tracked session (sign\_in.rs)\<close>

datatype tracked = TrLive | TrReconnecting | TrStale

definition tracked_as :: "link_state \<Rightarrow> bool \<Rightarrow> tracked" where
  "tracked_as link sdk_holds =
     (if link = LkReconnecting \<or> link = LkSigningIn then TrReconnecting
      else if sdk_holds then TrLive else TrStale)"

datatype sign_in = SiRefuse | SiAlreadyActive | SiTakeOverReconnect | SiReplaceStale

definition on_sign_in :: "tracked \<Rightarrow> bool \<Rightarrow> sign_in" where
  "on_sign_in t authorized =
     (case t of
        TrStale \<Rightarrow> SiReplaceStale
      | TrLive \<Rightarrow> if authorized then SiAlreadyActive else SiRefuse
      | TrReconnecting \<Rightarrow> if authorized then SiTakeOverReconnect else SiRefuse)"

definition may_take_over :: "link_state \<Rightarrow> bool" where "may_take_over link \<longleftrightarrow> link = LkReconnecting"

definition attempt_wanted :: "link_state \<Rightarrow> 64 word \<Rightarrow> 64 word \<Rightarrow> bool" where
  "attempt_wanted link current_run run \<longleftrightarrow> link = LkReconnecting \<and> current_run = run"

definition attempt_installs :: "link_state \<Rightarrow> 64 word \<Rightarrow> 64 word \<Rightarrow> bool" where
  "attempt_installs link current_run run \<longleftrightarrow> (link = LkReconnecting \<or> link = LkSigningIn) \<and> current_run = run"

section \<open>Sessions given up, peers lost (signed\_out.rs, lost\_peers.rs)\<close>

record signed_out_session =
  so_cid :: cid
  so_username :: string
  so_reason :: string
  so_reason_code :: "failure_reason option"

type_synonym signed_out = "(cid, signed_out_session) btree"

definition record_signed_out :: "cid \<Rightarrow> string \<Rightarrow> string \<Rightarrow> failure_reason option \<Rightarrow> signed_out \<Rightarrow> signed_out" where
  "record_signed_out c username reason code =
     bt_insert c \<lparr>so_cid = c, so_username = username, so_reason = reason, so_reason_code = code\<rparr>"

definition clear_signed_out :: "cid \<Rightarrow> signed_out \<Rightarrow> signed_out" where "clear_signed_out c = bt_remove c"
definition list_signed_out :: "signed_out \<Rightarrow> signed_out_session list" where "list_signed_out m = map snd m"

definition take_lost_peers :: "(cid, 'p) hmap \<Rightarrow> cid list \<times> (cid, 'p) hmap" where
  "take_lost_peers peers = (sort (map fst peers), [])"

record peer_lost =
  pl_cid :: cid
  pl_peer_cid :: cid

definition lost_notices :: "cid \<Rightarrow> cid list \<Rightarrow> peer_lost list" where
  "lost_notices c lost = map (\<lambda>p. \<lparr>pl_cid = c, pl_peer_cid = p\<rparr>) lost"

section \<open>A run of failed attempts (task.rs)\<close>

text \<open>
  What a run makes of a failed attempt: the number and delay of the next, or why it gives up. A run's clock starts
  with it; the first component of a failure is the time since then.
\<close>

datatype run_reason = RefusedWith string | StillHeld duration string | NoAnswer duration string

definition attempt_failed ::
  "(error_code \<Rightarrow> string) \<Rightarrow> reconnect_policy \<Rightarrow> nat \<Rightarrow> duration \<Rightarrow> error_code \<Rightarrow> string \<Rightarrow>
     (run_reason \<times> failure_reason option) + (nat \<times> duration)" where
  "attempt_failed raw p attempt elapsed code message =
     (let kind = classify_failure raw code message
      in case after_failure p attempt elapsed kind of
           RetryAfter delay \<Rightarrow> Inr (sat_add u32_max attempt 1, delay)
         | GiveUp GuRefused \<Rightarrow>
             Inl (RefusedWith message, Option.bind (refusal_of raw code message) failure_reason_of)
         | GiveUp GuOutOfTime \<Rightarrow>
             let budget = retry_limit p kind
             in Inl (if kind = FkServerHoldsSession then StillHeld budget message else NoAnswer budget message, None))"

fun run_failures ::
  "(error_code \<Rightarrow> string) \<Rightarrow> reconnect_policy \<Rightarrow> nat \<Rightarrow> (duration \<times> error_code \<times> string) list \<Rightarrow>
     (run_reason \<times> failure_reason option) + (nat \<times> duration)" where
  "run_failures raw p attempt [] = Inr (attempt, delay_before p attempt)"
| "run_failures raw p attempt ((elapsed, code, message) # fs) =
     (case attempt_failed raw p attempt elapsed code message of
        Inl r \<Rightarrow> Inl r
      | Inr (attempt, _) \<Rightarrow> run_failures raw p attempt fs)"

section \<open>The delays\<close>

lemma reconnect_delay_le_max: "delay_before p a \<le> max_delay p"
  by (simp add: delay_before_def Let_def)

lemma delay_saturated [simp]: "delay_before p (sat_add u32_max a (Suc 0) + i) = delay_before p (Suc (a + i))"
  by (simp add: delay_before_def shl_or_max_def sat_add_def min_def u32_max_def)

lemmas delay_saturated_0 [simp] = delay_saturated [where i = 0, simplified]

section \<open>A run ends\<close>

text \<open>
  An attempt starts its delay after the failure before it (the run slept that long), and takes at
  most \<^verbatim>\<open>w\<close>, the wait for the session's handoff and the attempt's own time-out together.
\<close>

fun timely :: "reconnect_policy \<Rightarrow> duration \<Rightarrow> nat \<Rightarrow> duration \<Rightarrow> (duration \<times> error_code \<times> string) list \<Rightarrow> bool" where
  "timely p w a prev [] = True"
| "timely p w a prev ((e, _, _) # fs) =
     (prev + delay_before p a \<le> e \<and> e \<le> prev + delay_before p a + w \<and> timely p w (sat_add u32_max a 1) e fs)"

lemma timely_take: "timely p w a t fs \<Longrightarrow> timely p w a t (take n fs)"
  by (induction fs arbitrary: a t n) (auto simp: take_Cons split: nat.split)

lemma attempt_failed_retries:
  assumes "attempt_failed raw p a e code message = Inr (b, d)"
    and "retry_limit p (classify_failure raw code message) \<le> L" and "L < duration_max"
  shows "b = sat_add u32_max a 1 \<and> e + delay_before p (Suc a) \<le> L"
  using assms
  by (auto simp: attempt_failed_def after_failure_def Let_def sat_add_def [of duration_max] split: if_splits give_up_reason.splits)

lemma retries_spaced:
  assumes "\<forall>(e, code, message) \<in> set fs. retry_limit p (classify_failure raw code message) \<le> L" and "L < duration_max"
    and "run_failures raw p a fs = Inr r" and "timely p w a t fs" and "fs \<noteq> []"
  shows "t + (\<Sum>i \<le> length fs. delay_before p (a + i)) \<le> L"
  using assms
proof (induction fs arbitrary: a t)
  case (Cons f fs)
  obtain e code message where f: "f = (e, code, message)" by (cases f)
  from Cons.prems(3) f obtain b d where att: "attempt_failed raw p a e code message = Inr (b, d)"
    and rest: "run_failures raw p b fs = Inr r" by (auto split: sum.splits)
  from attempt_failed_retries [OF att _ Cons.prems(2)] Cons.prems(1) f
  have b: "b = sat_add u32_max a 1" and e: "e + delay_before p (Suc a) \<le> L" by auto
  from Cons.prems(4) f have t: "t + delay_before p a \<le> e" "timely p w b e fs" by (auto simp: b)
  show ?case
  proof (cases "fs = []")
    case True
    then show ?thesis using e t(1) by simp
  next
    case False
    from Cons.IH [OF _ Cons.prems(2) rest t(2) False] Cons.prems(1)
    have "e + (\<Sum>i \<le> length fs. delay_before p (Suc (a + i))) \<le> L" by (simp add: b)
    then show ?thesis using t(1) by (simp add: sum.atMost_Suc_shift del: sum.atMost_Suc)
  qed
qed simp

lemma agent_delays:
  fixes chk ka def
  defines "p \<equiv> for_keep_alive chk ka (SERVER_RECONNECT chk def)"
  shows "from_secs 30 * n \<le> (\<Sum>i \<le> n + 5. delay_before p i)"
proof (induction n)
  case (Suc n)
  have "shl_or_max 6 \<le> shl_or_max (Suc n + 5)" by (rule shl_or_max_mono) simp
  then have "64 \<le> shl_or_max (Suc n + 5)" by (simp add: shl_or_max_def)
  then have "delay_before p (Suc n + 5) = from_secs 30"
    by (auto simp: p_def delay_before_def for_keep_alive_def SERVER_RECONNECT_def from_secs_def from_millis_def Let_def
        min_def split: option.split)
  then have "from_secs 30 * Suc n \<le> (\<Sum>i \<le> n + 5. delay_before p i) + delay_before p (Suc (n + 5))" using Suc by simp
  then show ?case by (simp only: add_Suc sum.atMost_Suc)
qed simp

lemma run_failures_append: "run_failures raw p a fs = Inl r \<Longrightarrow> run_failures raw p a (fs @ gs) = Inl r"
  by (induction fs arbitrary: a) (auto split: sum.splits)

text \<open>The failure at which a run gives up, and that its attempt did not start after the limit.\<close>

lemma gives_up_at:
  assumes "\<forall>(e, code, message) \<in> set fs. retry_limit p (classify_failure raw code message) \<le> L" and "L < duration_max"
    and "run_failures raw p a fs = Inl r" and "timely p w a t fs" and "t + delay_before p a \<le> L"
  shows "\<exists>n b e code message. n < length fs \<and> fs ! n = (e, code, message) \<and>
    run_failures raw p a (take n fs) = Inr (b, delay_before p b) \<and>
    attempt_failed raw p b e code message = Inl r \<and> e \<le> L + w"
  using assms
proof (induction fs arbitrary: a t)
  case (Cons f fs)
  obtain e code message where f: "f = (e, code, message)" by (cases f)
  show ?case
  proof (cases "attempt_failed raw p a e code message")
    case (Inl r')
    with Cons.prems(3-5) f show ?thesis by (intro exI [of _ 0] exI [of _ a] exI [of _ e]) simp
  next
    case (Inr bd)
    obtain b d where bd: "bd = (b, d)" by (cases bd)
    from attempt_failed_retries [OF Inr [unfolded bd] _ Cons.prems(2)] Cons.prems(1) f
    have b: "b = sat_add u32_max a 1" and e: "e + delay_before p (Suc a) \<le> L" by auto
    have "run_failures raw p b fs = Inl r" "timely p w b e fs" "e + delay_before p b \<le> L"
      using Cons.prems(3,4) f Inr bd b e by simp_all
    from Cons.IH [OF _ Cons.prems(2) this] Cons.prems(1)
    obtain n b' e' code' message' where "n < length fs" "fs ! n = (e', code', message')"
      "run_failures raw p b (take n fs) = Inr (b', delay_before p b')"
      "attempt_failed raw p b' e' code' message' = Inl r" "e' \<le> L + w" by auto
    then show ?thesis using f Inr bd by (intro exI [of _ "Suc n"] exI [of _ b'] exI [of _ e']) auto
  qed
qed simp

lemma run_must_end:
  assumes "p = for_keep_alive chk ka (SERVER_RECONNECT chk def)" and "timely p w 0 0 fs"
    and "\<forall>(e, code, message) \<in> set fs. retry_limit p (classify_failure raw code message) \<le> L" and "L < duration_max"
    and "6 + L div from_secs 30 \<le> length fs"
  shows "\<exists>r. run_failures raw p 0 fs = Inl r"
proof (rule ccontr)
  assume "\<nexists>r. run_failures raw p 0 fs = Inl r"
  then obtain r where "run_failures raw p 0 fs = Inr r" by (cases "run_failures raw p 0 fs") auto
  from retries_spaced [OF assms(3,4) this assms(2)] assms(5)
  have "(\<Sum>i \<le> length fs. delay_before p i) \<le> L" by force
  moreover have "from_secs 30 * (length fs - 5) \<le> (\<Sum>i \<le> length fs. delay_before p i)"
    using agent_delays [of "length fs - 5" chk ka "def"] assms(1,5) by simp
  moreover have "from_secs 30 * Suc (L div from_secs 30) \<le> from_secs 30 * (length fs - 5)"
    using assms(5) by (intro mult_le_mono2) simp
  moreover have "L < from_secs 30 * Suc (L div from_secs 30)"
    using mod_less_divisor [of "from_secs 30" L] div_mult_mod_eq [of L "from_secs 30"]
    by (simp add: from_secs_def mult.commute)
  ultimately show False by linarith
qed

lemma gave_up_because:
  assumes "attempt_failed raw p b e code message = Inl r"
  shows "let kind = classify_failure raw code message
    in if kind = FkRefused then r = (RefusedWith message, Option.bind (refusal_of raw code message) failure_reason_of)
       else r = (if kind = FkServerHoldsSession then StillHeld (retry_limit p kind) message
                 else NoAnswer (retry_limit p kind) message, None) \<and>
         retry_limit p kind < e + delay_before p (Suc b)"
  using assms
  by (auto simp: attempt_failed_def after_failure_def Let_def sat_add_def [of duration_max] split: if_splits)

text \<open>
  C33. Bringing a session back ends, in time and for a reason. Under the agent's policy, whatever
  keep-alive the session was opened with, take any run whose attempts all fail, each starting its
  delay after the failure before and taking at most \<open>w\<close>, and let \<open>L\<close> be the longest limit its
  failures allow (ten minutes, or as long as the server may hold the session, when it says so).
  Then the run gives up, at one of its first \<open>6 + L / 30s\<close> failures and at most \<open>L + w\<close> after
  it began, every failure before having been retried; and it says why: the failure was a refusal,
  and the reason is its message with its code; or the next attempt would have come after that
  failure's limit, and the reason names the limit and whether the server still held the session.
\<close>

theorem reconnect_run_gives_up:
  assumes "p = for_keep_alive chk ka (SERVER_RECONNECT chk def)" and "timely p w 0 0 fs"
    and "\<forall>(e, code, message) \<in> set fs. retry_limit p (classify_failure raw code message) \<le> L" and "L < duration_max"
    and "6 + L div from_secs 30 \<le> length fs"
  shows "\<exists>n b e code message r. n < 6 + L div from_secs 30 \<and> fs ! n = (e, code, message) \<and>
    run_failures raw p 0 (take n fs) = Inr (b, delay_before p b) \<and>
    run_failures raw p 0 (take (Suc n) fs) = Inl r \<and> run_failures raw p 0 fs = Inl r \<and> e \<le> L + w \<and>
    (let kind = classify_failure raw code message
     in if kind = FkRefused then r = (RefusedWith message, Option.bind (refusal_of raw code message) failure_reason_of)
        else r = (if kind = FkServerHoldsSession then StillHeld (retry_limit p kind) message
                  else NoAnswer (retry_limit p kind) message, None) \<and>
          retry_limit p kind < e + delay_before p (Suc b))"
proof -
  have from_secs_mono: "from_secs 30 \<le> from_secs 600" by (simp add: from_secs_def)
  let ?N = "6 + L div from_secs 30" and ?fs = "take (6 + L div from_secs 30) fs"
  have lim: "\<forall>(e, code, message) \<in> set ?fs. retry_limit p (classify_failure raw code message) \<le> L"
    using assms(3) by (auto dest: in_set_takeD)
  have t: "timely p w 0 0 ?fs" by (rule timely_take [OF assms(2)])
  from run_must_end [OF assms(1) t lim assms(4)] assms(5) obtain r where r: "run_failures raw p 0 ?fs = Inl r" by auto
  obtain f fs' where fs: "fs = f # fs'" using assms(5) by (cases fs) simp_all
  have "give_up_after p \<le> retry_limit p k" for k by (cases k) (simp_all add: retry_limit_def)
  moreover have policy: "give_up_after p = from_secs 600" "max_delay p = from_secs 30"
    by (simp_all add: assms(1) for_keep_alive_def SERVER_RECONNECT_def split: option.split)
  moreover have "delay_before p 0 \<le> from_secs 30" using reconnect_delay_le_max [of p 0] policy(2) by simp
  moreover obtain e code message where "f = (e, code, message)" by (cases f)
  with assms(3) fs have "retry_limit p (classify_failure raw code message) \<le> L" by simp
  ultimately have "0 + delay_before p 0 \<le> L"
    by (metis add_0 from_secs_mono le_trans)
  from gives_up_at [OF lim assms(4) r t this] obtain n b e code message where
    n: "n < length ?fs" "?fs ! n = (e, code, message)" "run_failures raw p 0 (take n ?fs) = Inr (b, delay_before p b)"
      "attempt_failed raw p b e code message = Inl r" "e \<le> L + w" by blast
  then have n': "n < ?N" "fs ! n = (e, code, message)" "take n ?fs = take n fs" "n < length fs" by simp_all
  have "run_failures raw p a (xs @ [(e, code, message)]) = Inl r"
    if "run_failures raw p a xs = Inr (b, delay_before p b)" for a xs
    using that n(4) by (induction xs arbitrary: a) (auto split: sum.splits)
  then have "run_failures raw p 0 (take (Suc n) fs) = Inl r"
    using n(3) n' by (simp add: take_Suc_conv_app_nth)
  moreover have "run_failures raw p 0 fs = Inl r" using run_failures_append [OF r, of "drop ?N fs"] by simp
  ultimately show ?thesis using n' n(3,5) gave_up_because [OF n(4)] by metis
qed

theorem reconnect_run_gives_up_witness:
  "\<exists>r. run_failures (\<lambda>_. ''Invalid password'') (SERVER_RECONNECT (from_secs 60) (from_secs 3600)) 0
     (map (\<lambda>i. (from_secs (30 * i), OtherError 0, ''timed out'')) [1..<27]) = Inl (NoAnswer (from_secs 600) r, None)"
proof -
  let ?p = "SERVER_RECONNECT (from_secs 60) (from_secs 3600)" and ?raw = "\<lambda>_. ''Invalid password''"
  let ?fs = "map (\<lambda>i. (from_secs (30 * i), OtherError 0, ''timed out'')) [1..<27]"
  have k: "classify_failure raw (OtherError 0) ''timed out'' = FkTransient" for raw
    by (simp add: classify_failure_def REFUSALS_def states_def clauses_def SERVER_HOLDS_SESSION_def starts_with_def refusal_of_def)
  have step: "timely ?p (from_secs 30) a (from_secs (30 * i)) (map (\<lambda>i. (from_secs (30 * i), OtherError 0, ''timed out'')) [Suc i..<Suc i + n])" for a i n
  proof (induction n arbitrary: a i)
    case (Suc n)
    have "delay_before ?p a \<le> from_secs 30" using reconnect_delay_le_max [of ?p a] by (simp add: SERVER_RECONNECT_def)
    moreover have "[Suc i..<Suc i + Suc n] = Suc i # [Suc (Suc i)..<Suc (Suc i) + n]"
      by (subst upt_conv_Cons) simp_all
    ultimately show ?case using Suc [of _ "Suc i"] by (simp add: from_secs_def del: upt_Suc)
  qed simp
  have t: "timely ?p (from_secs 30) 0 0 ?fs" using step [of 0 0 26] by (simp add: from_secs_def del: upt_Suc)
  have lim: "\<forall>(e, code, message) \<in> set ?fs. retry_limit ?p (classify_failure ?raw code message) \<le> from_secs 600"
    by (auto simp: k retry_limit_def SERVER_RECONNECT_def simp del: upt_Suc)
  have p: "?p = for_keep_alive (from_secs 60) None (SERVER_RECONNECT (from_secs 60) (from_secs 3600))"
    by (simp add: for_keep_alive_def)
  have "from_secs 600 < duration_max" "6 + from_secs 600 div from_secs 30 \<le> length ?fs"
    by (simp_all add: from_secs_def duration_max_def u64_max_def del: upt_Suc)
  from reconnect_run_gives_up [OF p t lim this] obtain n b e code message r where
    n: "n < 6 + from_secs 600 div from_secs 30" "?fs ! n = (e, code, message)" "run_failures ?raw ?p 0 ?fs = Inl r"
    and because: "let kind = classify_failure ?raw code message
     in if kind = FkRefused then r = (RefusedWith message, Option.bind (refusal_of ?raw code message) failure_reason_of)
        else r = (if kind = FkServerHoldsSession then StillHeld (retry_limit ?p kind) message
                  else NoAnswer (retry_limit ?p kind) message, None) \<and> retry_limit ?p kind < e + delay_before ?p (Suc b)"
    by blast
  from n(1) have "n < 26" by (simp add: from_secs_def)
  with n(2) have "code = OtherError 0" "message = ''timed out''" by (simp_all del: upt_Suc)
  with because have "r = (NoAnswer (from_secs 600) ''timed out'', None)"
    by (simp add: k Let_def retry_limit_def SERVER_RECONNECT_def)
  with n(3) show ?thesis by blast
qed

section \<open>What counts as a refusal\<close>

text \<open>
  The comment on \<^verbatim>\<open>renders\<close> says that a form ending in literal text must end the message. One without a
  placeholder need not: a message that only begins with it counts as that refusal, and the session is given up.
\<close>

theorem refusal_by_prefix:
  assumes "raw AccountInvalidPassword = ''Invalid password''"
    and "raw AccountClientNonExists = ''a {}''" and "raw AccountServerNonExists = ''b {}''"
    and "raw AccountInvalidUsername = ''c {}''"
  shows "classify_failure raw GenericError ''Invalid password cache, retry later'' = FkRefused"
  using assms
  by (simp add: classify_failure_def REFUSALS_def states_def clauses_def SERVER_HOLDS_SESSION_def starts_with_def refusal_of_def
      renders_def strip_prefix_def)

end
