(* ===== verification/Reconnect_Handoff.thy ===== *)
theory Reconnect_Handoff
  imports Reconnect_Policy
begin

text \<open>
  Who may connect a session again, and when (\<^verbatim>\<open>kernel/reconnect/{mod,task,takeover,link,report,force}.rs\<close> and
  the abandon of \<^verbatim>\<open>supervisor/adapters/server_link.rs\<close>): the entries of the connection map, the handoff each
  shares with the tasks at work on it (its attempt lock and its run number), and the tasks. An
  operation here is a section under the map's lock; awaits are the points where the step
  relation \<^verbatim>\<open>handoff_step\<close> interleaves. What the SDK answers is left open.
\<close>

section \<open>Entries, handoffs and tasks\<close>

datatype reauth = Password | NeedsUser string

record ('i, 'p) conn =
  cn_link :: link_state
  cn_instance :: 'i
  cn_handoff :: nat
  cn_username :: string
  cn_reauth :: reauth
  cn_peers :: "(cid, 'p) hmap"
  cn_groups :: "string list"
  cn_transfers :: "64 word list"

text \<open>Where a task is with the attempt lock of the handoff it has: asleep, waiting, holding it, or calling the SDK under it.\<close>

datatype phase = Asleep | Waiting nat | Holding nat | InFlight nat

datatype 'i task =
    Spawning cid
  | RunTask cid "64 word" phase
  | SignInTask cid phase
  | AbandonTask cid 'i phase
  | RestartTask cid

record ('i, 'p) hand =
  hs_map :: "cid \<Rightarrow> ('i, 'p) conn option"
  hs_generation :: "nat \<Rightarrow> 64 word"
  hs_lock :: "nat \<Rightarrow> nat option"
  hs_tasks :: "nat \<Rightarrow> 'i task option"
  hs_signed_out :: signed_out

fun task_cid :: "'i task \<Rightarrow> cid" where
  "task_cid (Spawning c) = c"
| "task_cid (RunTask c _ _) = c"
| "task_cid (SignInTask c _) = c"
| "task_cid (AbandonTask c _ _) = c"
| "task_cid (RestartTask c) = c"

fun task_phase :: "'i task \<Rightarrow> phase" where
  "task_phase (RunTask _ _ ph) = ph"
| "task_phase (SignInTask _ ph) = ph"
| "task_phase (AbandonTask _ _ ph) = ph"
| "task_phase _ = Asleep"

fun with_phase :: "phase \<Rightarrow> 'i task \<Rightarrow> 'i task" where
  "with_phase ph (RunTask c g _) = RunTask c g ph"
| "with_phase ph (SignInTask c _) = SignInTask c ph"
| "with_phase ph (AbandonTask c i _) = AbandonTask c i ph"
| "with_phase ph k = k"

section \<open>The locked sections\<close>

definition generation_of :: "('i, 'p) conn \<Rightarrow> ('i, 'p) hand \<Rightarrow> 64 word" where
  "generation_of e s = hs_generation s (cn_handoff e)"

definition next_generation :: "('i, 'p) conn \<Rightarrow> ('i, 'p) hand \<Rightarrow> ('i, 'p) hand" where
  "next_generation e s = s\<lparr>hs_generation := (hs_generation s)(cn_handoff e := hs_generation s (cn_handoff e) + 1)\<rparr>"

abbreviation put_conn :: "cid \<Rightarrow> ('i, 'p) conn \<Rightarrow> ('i, 'p) hand \<Rightarrow> ('i, 'p) hand" where
  "put_conn c e s \<equiv> s\<lparr>hs_map := (hs_map s)(c \<mapsto> e)\<rparr>"

datatype began = BgReconnecting "cid list" | BgAlreadyReconnecting | BgNotThisLink | BgRemove | BgNotTracked

definition begin_reconnect :: "cid \<Rightarrow> 'i option \<Rightarrow> ('i, 'p) hand \<Rightarrow> began \<times> ('i, 'p) hand" where
  "begin_reconnect c reported s =
     (case hs_map s c of
        None \<Rightarrow> (BgNotTracked, s)
      | Some e \<Rightarrow>
          (case on_reported_drop (cn_link e) (cn_instance e) reported of
             None \<Rightarrow> (BgNotThisLink, s)
           | Some DaAlreadyReconnecting \<Rightarrow> (BgAlreadyReconnecting, s)
           | Some DaRemove \<Rightarrow> (BgRemove, s)
           | Some DaReconnect \<Rightarrow>
               (let (lost, peers) = take_lost_peers (cn_peers e)
                in (BgReconnecting lost,
                    put_conn c (e\<lparr>cn_link := LkReconnecting, cn_peers := peers, cn_groups := [], cn_transfers := []\<rparr>)
                      (next_generation e s)))))"

definition attempt_gate :: "cid \<Rightarrow> ('i, 'p) hand \<Rightarrow> nat option" where
  "attempt_gate c s = map_option cn_handoff (hs_map s c)"

definition still_reconnecting :: "cid \<Rightarrow> 64 word \<Rightarrow> ('i, 'p) hand \<Rightarrow> (string \<times> reauth) option" where
  "still_reconnecting c run s =
     Option.bind (hs_map s c) (\<lambda>e.
       if attempt_wanted (cn_link e) (generation_of e s) run then Some (cn_username e, cn_reauth e) else None)"

definition put_link :: "cid \<Rightarrow> 'i \<Rightarrow> (('i, 'p) conn \<Rightarrow> ('i, 'p) conn option) \<Rightarrow> ('i, 'p) hand \<Rightarrow> bool \<times> ('i, 'p) hand" where
  "put_link c i admit s =
     (case Option.bind (hs_map s c) admit of
        Some e \<Rightarrow> (True, put_conn c (e\<lparr>cn_instance := i, cn_link := LkUp\<rparr>) s)
      | None \<Rightarrow> (False, s))"

definition install_link :: "cid \<Rightarrow> 64 word \<Rightarrow> 'i \<Rightarrow> ('i, 'p) hand \<Rightarrow> bool \<times> ('i, 'p) hand" where
  "install_link c run i s =
     put_link c i (\<lambda>e. if attempt_installs (cn_link e) (generation_of e s) run then Some e else None) s"

definition fail_run :: "cid \<Rightarrow> 64 word \<Rightarrow> string \<Rightarrow> failure_reason option \<Rightarrow> ('i, 'p) hand \<Rightarrow> ('i, 'p) hand" where
  "fail_run c run reason code s =
     (case hs_map s c of
        Some e \<Rightarrow>
          if cn_link e = LkReconnecting \<and> generation_of e s = run
          then s\<lparr>hs_map := (hs_map s)(c := None),
                 hs_signed_out := record_signed_out c (cn_username e) reason code (hs_signed_out s)\<rparr>
          else s
      | None \<Rightarrow> s)"

definition mark_signing_in :: "cid \<Rightarrow> ('i, 'p) hand \<Rightarrow> (nat \<times> ('i, 'p) hand) option" where
  "mark_signing_in c s =
     Option.bind (hs_map s c) (\<lambda>e.
       if may_take_over (cn_link e) then Some (cn_handoff e, put_conn c (e\<lparr>cn_link := LkSigningIn\<rparr>) s) else None)"

definition sign_in_lands :: "cid \<Rightarrow> reauth \<Rightarrow> 'i \<Rightarrow> ('i, 'p) hand \<Rightarrow> bool \<times> ('i, 'p) hand" where
  "sign_in_lands c reauth i s =
     put_link c i (\<lambda>e. if cn_link e = LkSigningIn then Some (e\<lparr>cn_reauth := reauth\<rparr>) else None) s"

definition hand_back :: "cid \<Rightarrow> ('i, 'p) hand \<Rightarrow> 64 word option \<times> ('i, 'p) hand" where
  "hand_back c s =
     (case hs_map s c of
        Some e \<Rightarrow>
          if cn_link e = LkSigningIn
          then (let s = next_generation e s
                in (Some (generation_of e s), put_conn c (e\<lparr>cn_link := LkReconnecting\<rparr>) s))
          else (None, s)
      | None \<Rightarrow> (None, s))"

definition move_link :: "cid \<Rightarrow> link_state \<Rightarrow> link_state \<Rightarrow> ('i, 'p) hand \<Rightarrow> bool \<times> ('i, 'p) hand" where
  "move_link c frm to s =
     (case hs_map s c of
        Some e \<Rightarrow> if cn_link e = frm then (True, put_conn c (e\<lparr>cn_link := to\<rparr>) s) else (False, s)
      | None \<Rightarrow> (False, s))"

definition new_connection :: "cid \<Rightarrow> ('i, 'p) conn \<Rightarrow> nat \<Rightarrow> ('i, 'p) hand \<Rightarrow> ('i, 'p) hand" where
  "new_connection c e h s =
     s\<lparr>hs_map := (hs_map s)(c \<mapsto> e\<lparr>cn_link := LkUp, cn_handoff := h\<rparr>), hs_generation := (hs_generation s)(h := 0),
       hs_signed_out := clear_signed_out c (hs_signed_out s)\<rparr>"

definition hand_start :: "('i, 'p) hand" where
  "hand_start = \<lparr>hs_map = Map.empty, hs_generation = (\<lambda>_. 0), hs_lock = (\<lambda>_. None), hs_tasks = Map.empty, hs_signed_out = []\<rparr>"

section \<open>Interleavings\<close>

abbreviation set_task :: "nat \<Rightarrow> 'i task option \<Rightarrow> ('i, 'p) hand \<Rightarrow> ('i, 'p) hand" where
  "set_task t k s \<equiv> s\<lparr>hs_tasks := (hs_tasks s)(t := k)\<rparr>"

abbreviation set_lock :: "nat \<Rightarrow> nat option \<Rightarrow> ('i, 'p) hand \<Rightarrow> ('i, 'p) hand" where
  "set_lock h v s \<equiv> s\<lparr>hs_lock := (hs_lock s)(h := v)\<rparr>"

text \<open>A new handoff is one no entry and no task has.\<close>

definition unused :: "nat \<Rightarrow> ('i, 'p) hand \<Rightarrow> bool" where
  "unused h s \<longleftrightarrow>
     (\<forall>c e. hs_map s c = Some e \<longrightarrow> cn_handoff e \<noteq> h) \<and> hs_lock s h = None \<and>
     (\<forall>t k. hs_tasks s t = Some k \<longrightarrow> task_phase k \<notin> {Waiting h, Holding h, InFlight h})"

definition no_task :: "cid \<Rightarrow> ('i, 'p) hand \<Rightarrow> bool" where
  "no_task c s \<longleftrightarrow> (\<forall>t k. hs_tasks s t = Some k \<longrightarrow> task_cid k \<noteq> c)"

text \<open>
  With \<^verbatim>\<open>settled\<close> a session is opened only when no task of an earlier session of the account is left; without it,
  as the code allows, at any time.
\<close>

inductive handoff_step :: "bool \<Rightarrow> ('i, 'p) hand \<Rightarrow> ('i, 'p) hand \<Rightarrow> bool" for settled where
  opens: "\<lbrakk>settled \<longrightarrow> no_task c s; unused h s\<rbrakk> \<Longrightarrow> handoff_step settled s (new_connection c e h s)"
| removes: "handoff_step settled s (s\<lparr>hs_map := (hs_map s)(c := None)\<rparr>)"
| ends: "handoff_step settled s (snd (move_link c LkUp LkEnding s))"
| stays: "handoff_step settled s (snd (move_link c LkEnding LkUp s))"
| drops: "\<lbrakk>begin_reconnect c reported s = (BgReconnecting lost, s'); hs_tasks s t = None\<rbrakk> \<Longrightarrow>
    handoff_step settled s (set_task t (Some (Spawning c)) s')"
| spawned: "hs_tasks s t = Some (Spawning c) \<Longrightarrow>
    handoff_step settled s (set_task t (map_option (\<lambda>e. RunTask c (generation_of e s) Asleep) (hs_map s c)) s)"
| wakes: "hs_tasks s t = Some (RunTask c g Asleep) \<Longrightarrow>
    handoff_step settled s (set_task t (map_option (\<lambda>h. RunTask c g (Waiting h)) (attempt_gate c s)) s)"
| locks: "\<lbrakk>hs_tasks s t = Some k; task_phase k = Waiting h; hs_lock s h = None\<rbrakk> \<Longrightarrow>
    handoff_step settled s (set_task t (Some (with_phase (Holding h) k)) (set_lock h (Some t) s))"
| run_dials: "\<lbrakk>hs_tasks s t = Some (RunTask c g (Holding h)); still_reconnecting c g s = Some (u, Password)\<rbrakk> \<Longrightarrow>
    handoff_step settled s (set_task t (Some (RunTask c g (InFlight h))) s)"
| run_needs_user: "\<lbrakk>hs_tasks s t = Some (RunTask c g (Holding h)); still_reconnecting c g s = Some (u, NeedsUser reason)\<rbrakk> \<Longrightarrow>
    handoff_step settled s (set_task t None (set_lock h None (fail_run c g reason None s)))"
| run_stops: "\<lbrakk>hs_tasks s t = Some (RunTask c g (Holding h)); still_reconnecting c g s = None\<rbrakk> \<Longrightarrow>
    handoff_step settled s (set_task t None (set_lock h None s))"
| run_retries: "hs_tasks s t = Some (RunTask c g (InFlight h)) \<Longrightarrow>
    handoff_step settled s (set_task t (Some (RunTask c g Asleep)) (set_lock h None s))"
| run_gives_up: "hs_tasks s t = Some (RunTask c g (InFlight h)) \<Longrightarrow>
    handoff_step settled s (set_task t None (set_lock h None (fail_run c g reason code s)))"
| run_lands: "hs_tasks s t = Some (RunTask c g (InFlight h)) \<Longrightarrow>
    handoff_step settled s (set_task t None (set_lock h None (snd (install_link c g i s))))"
| sign_in_begins: "\<lbrakk>mark_signing_in c s = Some (h, s'); hs_tasks s t = None\<rbrakk> \<Longrightarrow>
    handoff_step settled s (set_task t (Some (SignInTask c (Waiting h))) s')"
| sign_in_dials: "\<lbrakk>hs_tasks s t = Some (SignInTask c (Holding h)); map_option cn_link (hs_map s c) = Some LkSigningIn\<rbrakk> \<Longrightarrow>
    handoff_step settled s (set_task t (Some (SignInTask c (InFlight h))) s)"
| sign_in_answered: "\<lbrakk>hs_tasks s t = Some (SignInTask c (Holding h)); map_option cn_link (hs_map s c) \<noteq> Some LkSigningIn\<rbrakk> \<Longrightarrow>
    handoff_step settled s (set_task t None (set_lock h None s))"
| sign_in_fails: "\<lbrakk>hs_tasks s t = Some (SignInTask c (InFlight h)); hand_back c s = (g, s')\<rbrakk> \<Longrightarrow>
    handoff_step settled s (set_task t (map_option (\<lambda>g. RunTask c g Asleep) g) (set_lock h None s'))"
| sign_in_succeeds: "hs_tasks s t = Some (SignInTask c (InFlight h)) \<Longrightarrow>
    handoff_step settled s (set_task t None (set_lock h None (snd (sign_in_lands c reauth i s))))"
| abandon_begins: "\<lbrakk>attempt_gate c s = Some h; hs_tasks s t = None\<rbrakk> \<Longrightarrow>
    handoff_step settled s (set_task t (Some (AbandonTask c probed (Waiting h))) s)"
| abandon_calls: "\<lbrakk>hs_tasks s t = Some (AbandonTask c probed (Holding h));
      probed_link_is_current (map_option (\<lambda>e. (cn_link e, cn_instance e)) (hs_map s c)) probed\<rbrakk> \<Longrightarrow>
    handoff_step settled s (set_task t (Some (AbandonTask c probed (InFlight h))) s)"
| abandon_stops: "\<lbrakk>hs_tasks s t = Some (AbandonTask c probed ph); ph = Holding h \<or> ph = InFlight h\<rbrakk> \<Longrightarrow>
    handoff_step settled s (set_task t None (set_lock h None s))"
| abandoned: "hs_tasks s t = Some (AbandonTask c probed (InFlight h)) \<Longrightarrow>
    handoff_step settled s (set_task t (Some (RestartTask c)) (set_lock h None s))"
| restarts: "\<lbrakk>hs_tasks s t = Some (RestartTask c); begin_reconnect c None s = (b, s')\<rbrakk> \<Longrightarrow>
    handoff_step settled s (set_task t (case b of BgReconnecting _ \<Rightarrow> Some (Spawning c) | _ \<Rightarrow> None) s')"

end
