(* ===== verification/Reconnect_Safety.thy ===== *)
theory Reconnect_Safety
  imports Reconnect_Handoff
begin

text \<open>
  However the reconnect runs, the sign-ins and the supervisor's abandons interleave: who holds a handoff's
  attempt lock, which lock guards an account's entry, and that what a call in flight leaves behind is what its own
  task may leave.
\<close>

section \<open>What the sections leave alone\<close>

lemmas section_defs = begin_reconnect_def put_link_def install_link_def fail_run_def mark_signing_in_def sign_in_lands_def
  hand_back_def move_link_def new_connection_def next_generation_def take_lost_peers_def

lemma same_tasks [simp]:
  "hs_tasks (snd (begin_reconnect c r s)) = hs_tasks s" "hs_lock (snd (begin_reconnect c r s)) = hs_lock s"
  "hs_tasks (snd (move_link c x y s)) = hs_tasks s" "hs_lock (snd (move_link c x y s)) = hs_lock s"
  "hs_tasks (snd (install_link c g i s)) = hs_tasks s" "hs_lock (snd (install_link c g i s)) = hs_lock s"
  "hs_tasks (snd (sign_in_lands c ra i s)) = hs_tasks s" "hs_lock (snd (sign_in_lands c ra i s)) = hs_lock s"
  "hs_tasks (snd (hand_back c s)) = hs_tasks s" "hs_lock (snd (hand_back c s)) = hs_lock s"
  "hs_tasks (fail_run c g reason code s) = hs_tasks s" "hs_lock (fail_run c g reason code s) = hs_lock s"
  "hs_tasks (new_connection c e h s) = hs_tasks s" "hs_lock (new_connection c e h s) = hs_lock s"
  by (simp_all add: section_defs Let_def split: option.split drop_action.split)

lemma same_tasks_eq:
  "begin_reconnect c r s = (b, s') \<Longrightarrow> hs_tasks s' = hs_tasks s \<and> hs_lock s' = hs_lock s"
  "hand_back c s = (g, s') \<Longrightarrow> hs_tasks s' = hs_tasks s \<and> hs_lock s' = hs_lock s"
  "mark_signing_in c s = Some (h, s') \<Longrightarrow> hs_tasks s' = hs_tasks s \<and> hs_lock s' = hs_lock s"
  using same_tasks(1,2) [of c r s] same_tasks(9,10) [of c s]
  by (auto simp: mark_signing_in_def split: option.splits if_splits)

text \<open>The entry of an account after a section: gone, or with the handoff it had.\<close>

definition keeps_handoffs :: "('i, 'p) hand \<Rightarrow> ('i, 'p) hand \<Rightarrow> bool" where
  "keeps_handoffs s s' \<longleftrightarrow>
     (\<forall>c e'. hs_map s' c = Some e' \<longrightarrow> (\<exists>e. hs_map s c = Some e \<and> cn_handoff e = cn_handoff e'))"

lemma keeps_handoffs_intros [simp, intro]:
  "keeps_handoffs s s" "keeps_handoffs s (s\<lparr>hs_map := (hs_map s)(c := None)\<rparr>)"
  "keeps_handoffs s (snd (move_link c x y s))" "keeps_handoffs s (snd (install_link c g i s))"
  "keeps_handoffs s (snd (sign_in_lands c ra i s))" "keeps_handoffs s (fail_run c g reason code s)"
  "keeps_handoffs s (snd (begin_reconnect c r s))" "keeps_handoffs s (snd (hand_back c s))"
  by (auto simp: keeps_handoffs_def section_defs Let_def split: option.splits drop_action.splits if_splits)

lemma keeps_handoffs_eq:
  "begin_reconnect c r s = (b, s') \<Longrightarrow> keeps_handoffs s s'"
  "hand_back c s = (g, s') \<Longrightarrow> keeps_handoffs s s'"
  "mark_signing_in c s = Some (h, s') \<Longrightarrow> keeps_handoffs s s'"
  using keeps_handoffs_intros(7) [of s c r] keeps_handoffs_intros(8) [of s c]
  by (auto simp: keeps_handoffs_def mark_signing_in_def split: if_splits)

lemma keeps_handoffs_more [simp]:
  "keeps_handoffs s (s'\<lparr>hs_tasks := ts\<rparr>) = keeps_handoffs s s'" "keeps_handoffs s (s'\<lparr>hs_lock := ls\<rparr>) = keeps_handoffs s s'"
  by (simp_all add: keeps_handoffs_def)

section \<open>The locks\<close>

definition locks_ok :: "('i, 'p) hand \<Rightarrow> bool" where
  "locks_ok s \<longleftrightarrow>
     (\<forall>h t. hs_lock s h = Some t \<longleftrightarrow> (\<exists>k. hs_tasks s t = Some k \<and> (task_phase k = Holding h \<or> task_phase k = InFlight h)))"

lemma phase_of_with_phase: "task_phase k = Waiting h \<Longrightarrow> task_phase (with_phase ph k) = ph" "task_cid (with_phase ph k) = task_cid k"
  by (cases k, simp_all)+

lemma locks_iff:
  "locks_ok s \<Longrightarrow> hs_lock s h = Some t \<longleftrightarrow> (\<exists>k. hs_tasks s t = Some k \<and> (task_phase k = Holding h \<or> task_phase k = InFlight h))"
  by (simp add: locks_ok_def)

lemma lock_holder:
  "locks_ok s \<Longrightarrow> hs_tasks s t = Some k \<Longrightarrow> task_phase k = Holding h \<or> task_phase k = InFlight h \<Longrightarrow> hs_lock s h = Some t"
  unfolding locks_ok_def by blast

lemma locks_frame: "locks_ok s \<Longrightarrow> hs_tasks s' = hs_tasks s \<Longrightarrow> hs_lock s' = hs_lock s \<Longrightarrow> locks_ok s'"
  by (simp add: locks_ok_def)

lemma locks_unlocked:
  assumes "locks_ok s" and "hs_tasks s' = (hs_tasks s)(t := k)" and "hs_lock s' = hs_lock s"
    and "\<And>k h. hs_tasks s t = Some k \<Longrightarrow> task_phase k \<noteq> Holding h \<and> task_phase k \<noteq> InFlight h"
    and "\<And>k' h. k = Some k' \<Longrightarrow> task_phase k' \<noteq> Holding h \<and> task_phase k' \<noteq> InFlight h"
  shows "locks_ok s'"
  using assms by (auto simp: locks_ok_def)

lemma locks_released:
  assumes "locks_ok s" and k: "hs_tasks s t = Some k" "task_phase k = Holding h \<or> task_phase k = InFlight h"
    and s': "hs_tasks s' = (hs_tasks s)(t := k2)" "hs_lock s' = (hs_lock s)(h := None)"
    and k2: "\<And>k' h. k2 = Some k' \<Longrightarrow> task_phase k' \<noteq> Holding h \<and> task_phase k' \<noteq> InFlight h"
  shows "locks_ok s'"
proof -
  have t: "hs_lock s h = Some t" using lock_holder [OF assms(1) k] .
  have other: "hs_lock s h' \<noteq> Some t" if "h' \<noteq> h" for h' using assms(1) k that by (auto simp: locks_ok_def)
  show ?thesis unfolding locks_ok_def
  proof (intro allI)
    fix h' t'
    show "(hs_lock s' h' = Some t') = (\<exists>k. hs_tasks s' t' = Some k \<and> (task_phase k = Holding h' \<or> task_phase k = InFlight h'))"
    proof (cases "t' = t")
      case True
      then show ?thesis using other k2 by (cases "h' = h") (auto simp: s')
    next
      case False
      then show ?thesis using t lock_holder [OF assms(1), of t' _ h] assms(1) by (cases "h' = h") (auto simp: locks_ok_def s')
    qed
  qed
qed

lemma locks_step: "handoff_step b s s' \<Longrightarrow> locks_ok s \<Longrightarrow> locks_ok s'"
proof (induction rule: handoff_step.induct)
  case (locks s t k h)
  then have w: "task_phase (with_phase (Holding h) k) = Holding h" by (simp add: phase_of_with_phase)
  have no: "task_phase k' \<noteq> Holding h \<and> task_phase k' \<noteq> InFlight h" if "hs_tasks s t' = Some k'" for t' k'
    using locks.hyps(3) lock_holder [OF locks.prems that, of h] by auto
  have mine: "hs_lock s h' \<noteq> Some t" for h' using locks by (auto simp: locks_ok_def)
  show ?case unfolding locks_ok_def
  proof (intro allI)
    fix h' t'
    show "(hs_lock (set_task t (Some (with_phase (Holding h) k)) (set_lock h (Some t) s)) h' = Some t') =
      (\<exists>k'. hs_tasks (set_task t (Some (with_phase (Holding h) k)) (set_lock h (Some t) s)) t' = Some k' \<and>
         (task_phase k' = Holding h' \<or> task_phase k' = InFlight h'))"
    proof (cases "t' = t")
      case True
      then show ?thesis using mine w by auto
    next
      case False
      then show ?thesis using no [of t'] locks_iff [OF locks.prems, of h' t'] by (cases "h' = h") auto
    qed
  qed
next
  case (run_dials s t c g h u)
  then show ?case by (auto simp: locks_ok_def)
next
  case (sign_in_dials s t c h)
  then show ?case by (auto simp: locks_ok_def)
next
  case (abandon_calls s t c probed h)
  then show ?case by (auto simp: locks_ok_def)
next
  case (run_needs_user s t c g h u reason)
  then show ?case by - (rule locks_released [of s t _ h], auto)
next
  case (run_stops s t c g h)
  then show ?case by - (rule locks_released [of s t _ h], auto)
next
  case (run_retries s t c g h)
  then show ?case by - (rule locks_released [of s t _ h], auto)
next
  case (run_gives_up s t c g h reason code)
  then show ?case by - (rule locks_released [of s t _ h], auto)
next
  case (run_lands s t c g h i)
  then show ?case by - (rule locks_released [of s t _ h], auto)
next
  case (sign_in_answered s t c h)
  then show ?case by - (rule locks_released [of s t _ h], auto)
next
  case (sign_in_succeeds s t c h reauth i)
  then show ?case by - (rule locks_released [of s t _ h], auto)
next
  case (abandon_stops s t c probed ph h)
  then show ?case by - (rule locks_released [of s t _ h], auto)
next
  case (abandoned s t c probed h)
  then show ?case by - (rule locks_released [of s t _ h], auto)
next
  case (sign_in_fails s t c h g s')
  then show ?case by - (rule locks_released [of s t _ h], auto dest: same_tasks_eq(2))
next
  case (drops c reported s lost s' t)
  then show ?case by - (rule locks_unlocked [of s _ t], auto dest: same_tasks_eq(1))
next
  case (spawned s t c)
  then show ?case by - (rule locks_unlocked [of s _ t], auto)
next
  case (wakes s t c g)
  then show ?case by - (rule locks_unlocked [of s _ t], auto)
next
  case (sign_in_begins c s h s' t)
  then show ?case by - (rule locks_unlocked [of s _ t], auto dest: same_tasks_eq(3))
next
  case (abandon_begins c s h t probed)
  then show ?case by - (rule locks_unlocked [of s _ t], auto)
next
  case (restarts s t c b s')
  then show ?case by - (rule locks_unlocked [of s _ t "case b of BgReconnecting _ \<Rightarrow> Some (Spawning c) | _ \<Rightarrow> None"], auto dest: same_tasks_eq(1) split: began.splits)
qed (auto intro: locks_frame)

section \<open>The gates\<close>

definition gate_of :: "'i task \<Rightarrow> nat option" where
  "gate_of k = (case task_phase k of Asleep \<Rightarrow> None | Waiting h \<Rightarrow> Some h | Holding h \<Rightarrow> Some h | InFlight h \<Rightarrow> Some h)"

definition gates_ok :: "('i, 'p) hand \<Rightarrow> bool" where
  "gates_ok s \<longleftrightarrow>
     (\<forall>t k h e. hs_tasks s t = Some k \<longrightarrow> gate_of k = Some h \<longrightarrow> hs_map s (task_cid k) = Some e \<longrightarrow> cn_handoff e = h) \<and>
     (\<forall>t k h t' k' h'. hs_tasks s t = Some k \<longrightarrow> hs_tasks s t' = Some k' \<longrightarrow> task_cid k = task_cid k' \<longrightarrow>
        gate_of k = Some h \<longrightarrow> gate_of k' = Some h' \<longrightarrow> h = h') \<and>
     (\<forall>c e c' e'. hs_map s c = Some e \<longrightarrow> hs_map s c' = Some e' \<longrightarrow> cn_handoff e = cn_handoff e' \<longrightarrow> c = c')"

lemma gates_entry: "gates_ok s \<Longrightarrow> hs_tasks s t = Some k \<Longrightarrow> gate_of k = Some h \<Longrightarrow> hs_map s (task_cid k) = Some e \<Longrightarrow> cn_handoff e = h"
  by (simp add: gates_ok_def)

lemma gates_pair:
  "gates_ok s \<Longrightarrow> hs_tasks s t = Some k \<Longrightarrow> hs_tasks s t' = Some k' \<Longrightarrow> task_cid k = task_cid k' \<Longrightarrow>
   gate_of k = Some h \<Longrightarrow> gate_of k' = Some h' \<Longrightarrow> h = h'"
  unfolding gates_ok_def by blast

lemma gates_distinct:
  "gates_ok s \<Longrightarrow> hs_map s c = Some e \<Longrightarrow> hs_map s c' = Some e' \<Longrightarrow> cn_handoff e = cn_handoff e' \<Longrightarrow> c = c'"
  unfolding gates_ok_def by blast

text \<open>
  A step that keeps the handoffs and changes one task: the task it changes to has no gate, or the gate it had, or
  the handoff of its account's entry.
\<close>

lemma gates_frame:
  assumes ok: "gates_ok s" and keep: "keeps_handoffs s s'" and tasks: "hs_tasks s' = (hs_tasks s)(t := k2)"
    and k2: "\<And>k h. k2 = Some k \<Longrightarrow> gate_of k = Some h \<Longrightarrow>
      (\<exists>k0. hs_tasks s t = Some k0 \<and> task_cid k0 = task_cid k \<and> gate_of k0 = Some h) \<or>
      (\<exists>e. hs_map s (task_cid k) = Some e \<and> cn_handoff e = h)"
  shows "gates_ok s'"
proof -
  have src: "(\<exists>t0 k0. hs_tasks s t0 = Some k0 \<and> task_cid k0 = task_cid k \<and> gate_of k0 = Some h) \<or>
      (\<exists>e. hs_map s (task_cid k) = Some e \<and> cn_handoff e = h)"
    if "hs_tasks s' t' = Some k" "gate_of k = Some h" for t' k h
    using that k2 [of k h] by (cases "t' = t") (auto simp: tasks)
  have old: "\<exists>e. hs_map s c = Some e \<and> cn_handoff e = cn_handoff e'" if "hs_map s' c = Some e'" for c e'
    using keep that by (simp add: keeps_handoffs_def)
  have one: "h = h'"
    if "hs_tasks s' t1 = Some k1" "gate_of k1 = Some h" "hs_tasks s' t2 = Some k2" "gate_of k2 = Some h'" "task_cid k1 = task_cid k2"
    for t1 k1 t2 k2 h h'
  proof -
    { fix t0 k0 t0' k0' assume "hs_tasks s t0 = Some k0" "task_cid k0 = task_cid k1" "gate_of k0 = Some h"
        and "hs_tasks s t0' = Some k0'" "task_cid k0' = task_cid k2" "gate_of k0' = Some h'"
      then have ?thesis using gates_pair [OF ok, of t0 k0 t0' k0' h h'] that(5) by simp }
    moreover
    { fix t0 k0 e assume "hs_tasks s t0 = Some k0" "task_cid k0 = task_cid k1" "gate_of k0 = Some h"
        and "hs_map s (task_cid k2) = Some e" "cn_handoff e = h'"
      then have ?thesis using gates_entry [OF ok, of t0 k0 h e] that(5) by simp }
    moreover
    { fix t0 k0 e assume "hs_tasks s t0 = Some k0" "task_cid k0 = task_cid k2" "gate_of k0 = Some h'"
        and "hs_map s (task_cid k1) = Some e" "cn_handoff e = h"
      then have ?thesis using gates_entry [OF ok, of t0 k0 h' e] that(5) by simp }
    moreover have ?thesis if "\<exists>e. hs_map s (task_cid k1) = Some e \<and> cn_handoff e = h" "\<exists>e. hs_map s (task_cid k2) = Some e \<and> cn_handoff e = h'"
      using that \<open>task_cid k1 = task_cid k2\<close> by auto
    ultimately show ?thesis using src [OF that(1,2)] src [OF that(3,4)] by blast
  qed
  have entry: "cn_handoff e = h" if "hs_tasks s' t' = Some k" "gate_of k = Some h" "hs_map s' (task_cid k) = Some e" for t' k h e
  proof -
    from old [OF that(3)] obtain e0 where e0: "hs_map s (task_cid k) = Some e0" "cn_handoff e0 = cn_handoff e" by auto
    from src [OF that(1,2)] show ?thesis
    proof
      assume "\<exists>t0 k0. hs_tasks s t0 = Some k0 \<and> task_cid k0 = task_cid k \<and> gate_of k0 = Some h"
      then obtain t0 k0 where "hs_tasks s t0 = Some k0" "task_cid k0 = task_cid k" "gate_of k0 = Some h" by auto
      then show ?thesis using gates_entry [OF ok, of t0 k0 h e0] e0 by simp
    qed (use e0 in auto)
  qed
  have distinct: "c = c'" if "hs_map s' c = Some e" "hs_map s' c' = Some e'" "cn_handoff e = cn_handoff e'" for c e c' e'
    using old [OF that(1)] old [OF that(2)] that(3) by (auto intro: gates_distinct [OF ok])
  show ?thesis unfolding gates_ok_def
    by (intro conjI allI impI) (fact entry | fact one | fact distinct | rule one entry distinct; assumption)+
qed

lemma gates_opens:
  assumes "gates_ok s" and "no_task c s" and "unused h s"
  shows "gates_ok (new_connection c e h s)"
  using assms unfolding gates_ok_def no_task_def unused_def
  by (simp add: new_connection_def) blast

lemma gate_simps [simp]:
  "gate_of (Spawning c) = None" "gate_of (RestartTask c) = None"
  "gate_of (RunTask c g Asleep) = None" "gate_of (RunTask c g (Waiting h)) = Some h"
  "gate_of (RunTask c g (Holding h)) = Some h" "gate_of (RunTask c g (InFlight h)) = Some h"
  "gate_of (SignInTask c (Waiting h)) = Some h" "gate_of (SignInTask c (Holding h)) = Some h"
  "gate_of (SignInTask c (InFlight h)) = Some h" "gate_of (AbandonTask c i (Waiting h)) = Some h"
  "gate_of (AbandonTask c i (Holding h)) = Some h" "gate_of (AbandonTask c i (InFlight h)) = Some h"
  by (simp_all add: gate_of_def)

lemma gates_map_only: "gates_ok s \<Longrightarrow> keeps_handoffs s s' \<Longrightarrow> hs_tasks s' = hs_tasks s \<Longrightarrow> gates_ok s'"
  by (rule gates_frame [of s s' 0 "hs_tasks s 0"]) auto

lemma gates_step: "handoff_step True s s' \<Longrightarrow> gates_ok s \<Longrightarrow> gates_ok s'"
proof (induction rule: handoff_step.induct)
  case (opens c s h e)
  then show ?case by (simp add: gates_opens)
next
  case (locks s t k h)
  then show ?case
    by - (rule gates_frame [of s _ t "Some (with_phase (Holding h) k)"], auto simp: gate_of_def phase_of_with_phase)
next
  case (drops c reported s lost s' t)
  then show ?case
    by - (rule gates_frame [of s _ t "Some (Spawning c)"], auto dest: same_tasks_eq(1) keeps_handoffs_eq(1))
next
  case (sign_in_begins c s h s' t)
  then show ?case
    by - (rule gates_frame [of s _ t "Some (SignInTask c (Waiting h))"],
      auto simp: mark_signing_in_def keeps_handoffs_def split: if_splits)
next
  case (sign_in_fails s t c h g s')
  then show ?case
    by - (rule gates_frame [of s _ t "map_option (\<lambda>g. RunTask c g Asleep) g"], auto dest: same_tasks_eq(2) keeps_handoffs_eq(2))
next
  case (restarts s t c b s')
  then show ?case
    by - (rule gates_frame [of s _ t "case b of BgReconnecting _ \<Rightarrow> Some (Spawning c) | _ \<Rightarrow> None"],
      auto dest: same_tasks_eq(1) keeps_handoffs_eq(1) split: began.splits)
next
  case (spawned s t c)
  then show ?case
    by - (rule gates_frame [of s _ t "map_option (\<lambda>e. RunTask c (generation_of e s) Asleep) (hs_map s c)"], auto)
next
  case (wakes s t c g)
  then show ?case
    by - (rule gates_frame [of s _ t "map_option (\<lambda>h. RunTask c g (Waiting h)) (attempt_gate c s)"], auto simp: attempt_gate_def)
next
  case (run_dials s t c g h u)
  then show ?case by - (rule gates_frame [of s _ t "Some (RunTask c g (InFlight h))"], auto)
next
  case (run_retries s t c g h)
  then show ?case by - (rule gates_frame [of s _ t "Some (RunTask c g Asleep)"], auto)
next
  case (sign_in_dials s t c h)
  then show ?case by - (rule gates_frame [of s _ t "Some (SignInTask c (InFlight h))"], auto)
next
  case (abandon_begins c s h t probed)
  then show ?case by - (rule gates_frame [of s _ t "Some (AbandonTask c probed (Waiting h))"], auto simp: attempt_gate_def)
next
  case (abandon_calls s t c probed h)
  then show ?case by - (rule gates_frame [of s _ t "Some (AbandonTask c probed (InFlight h))"], auto)
next
  case (abandoned s t c probed h)
  then show ?case by - (rule gates_frame [of s _ t "Some (RestartTask c)"], auto)
next
  case (run_needs_user s t c g h u reason)
  then show ?case by - (rule gates_frame [of s _ t None], auto)
next
  case (run_stops s t c g h)
  then show ?case by - (rule gates_frame [of s _ t None], auto)
next
  case (run_gives_up s t c g h reason code)
  then show ?case by - (rule gates_frame [of s _ t None], auto)
next
  case (run_lands s t c g h i)
  then show ?case by - (rule gates_frame [of s _ t None], auto)
next
  case (sign_in_answered s t c h)
  then show ?case by - (rule gates_frame [of s _ t None], auto)
next
  case (sign_in_succeeds s t c h reauth i)
  then show ?case by - (rule gates_frame [of s _ t None], auto)
next
  case (abandon_stops s t c probed ph h)
  then show ?case by - (rule gates_frame [of s _ t None], auto)
qed (auto intro: gates_map_only)

section \<open>What a call in flight finds when it returns\<close>

definition may_land :: "('i, 'p) hand \<Rightarrow> ('i, 'p) conn \<Rightarrow> 'i task \<Rightarrow> bool" where
  "may_land s e k =
     (case k of
        RunTask c g ph \<Rightarrow> attempt_installs (cn_link e) (generation_of e s) g
      | SignInTask c ph \<Rightarrow> cn_link e = LkSigningIn
      | AbandonTask c probed ph \<Rightarrow> cn_instance e = probed
      | _ \<Rightarrow> True)"

definition flight_ok :: "('i, 'p) hand \<Rightarrow> bool" where
  "flight_ok s \<longleftrightarrow>
     (\<forall>t k h e. hs_tasks s t = Some k \<longrightarrow> task_phase k = InFlight h \<longrightarrow> hs_map s (task_cid k) = Some e \<longrightarrow> may_land s e k)"

lemma flight_okD: "flight_ok s \<Longrightarrow> hs_tasks s t = Some k \<Longrightarrow> task_phase k = InFlight h \<Longrightarrow> hs_map s (task_cid k) = Some e \<Longrightarrow> may_land s e k"
  by (simp add: flight_ok_def)

lemma one_in_flight:
  assumes "locks_ok s" and "gates_ok s" and "hs_tasks s t = Some k" and "hs_tasks s t' = Some k'" and "task_cid k = task_cid k'"
    and "task_phase k = Holding h \<or> task_phase k = InFlight h" and "task_phase k' = Holding h' \<or> task_phase k' = InFlight h'"
  shows "t = t'"
proof -
  have "gate_of k = Some h" "gate_of k' = Some h'" using assms(6,7) by (auto simp: gate_of_def)
  then have "h = h'" using gates_pair [OF assms(2-5)] by simp
  then show ?thesis using lock_holder [OF assms(1,3,6)] lock_holder [OF assms(1,4,7)] by simp
qed

text \<open>What a section does to the entries of other accounts, and to the run number they see: nothing.\<close>

definition only_touches :: "cid \<Rightarrow> ('i, 'p) hand \<Rightarrow> ('i, 'p) hand \<Rightarrow> bool" where
  "only_touches c s s' \<longleftrightarrow>
     (\<forall>d e. d \<noteq> c \<longrightarrow> hs_map s' d = Some e \<longrightarrow> hs_map s d = Some e \<and> generation_of e s' = generation_of e s)"

lemma generation_put [simp]: "generation_of e (s\<lparr>hs_map := m\<rparr>) = generation_of e s"
  "generation_of e (s\<lparr>hs_tasks := ts\<rparr>) = generation_of e s" "generation_of e (s\<lparr>hs_lock := ls\<rparr>) = generation_of e s"
  by (simp_all add: generation_of_def)

lemma only_touches_put [simp]: "only_touches c s (put_conn c e s)" "only_touches c s (s\<lparr>hs_map := (hs_map s)(c := None)\<rparr>)"
  by (simp_all add: only_touches_def)

lemma only_touches_sections:
  assumes "gates_ok s"
  shows "only_touches c s (snd (move_link c x y s))" "only_touches c s (snd (install_link c g i s))"
    "only_touches c s (snd (sign_in_lands c ra i s))" "only_touches c s (fail_run c g reason code s)"
    "only_touches c s (snd (begin_reconnect c r s))" "only_touches c s (snd (hand_back c s))"
    "mark_signing_in c s = Some (h, s2) \<Longrightarrow> only_touches c s s2"
  using gates_distinct [OF assms]
  by (auto simp: only_touches_def section_defs generation_of_def Let_def split: option.splits drop_action.splits if_splits)

lemma allowed_cong: "generation_of e s' = generation_of e s \<Longrightarrow> may_land s' e k = may_land s e k"
  by (simp add: may_land_def split: task.split)

lemma flight_frame:
  assumes ok: "flight_ok s" and touch: "only_touches c s s'" and tasks: "hs_tasks s' = (hs_tasks s)(t := k2)"
    and k2: "\<And>k. k2 = Some k \<Longrightarrow> task_cid k = c \<or> hs_tasks s t = Some k"
    and own: "\<And>t' k h e. hs_tasks s' t' = Some k \<Longrightarrow> task_cid k = c \<Longrightarrow> task_phase k = InFlight h \<Longrightarrow> hs_map s' c = Some e \<Longrightarrow> may_land s' e k"
  shows "flight_ok s'"
  unfolding flight_ok_def
proof (intro allI impI)
  fix t' k h e assume k: "hs_tasks s' t' = Some k" "task_phase k = InFlight h" "hs_map s' (task_cid k) = Some e"
  show "may_land s' e k"
  proof (cases "task_cid k = c")
    case True
    then show ?thesis using own k by simp
  next
    case False
    then have "hs_tasks s t' = Some k" using k(1) k2 tasks by (cases "t' = t") auto
    moreover have "hs_map s (task_cid k) = Some e" "generation_of e s' = generation_of e s"
      using touch False k(3) by (auto simp: only_touches_def)
    ultimately show ?thesis using flight_okD [OF ok _ k(2)] allowed_cong by blast
  qed
qed

lemma flight_alone:
  assumes "flight_ok s" and "locks_ok s" and "gates_ok s"
    and k0: "hs_tasks s t = Some k0" "task_cid k0 = c" "task_phase k0 = Holding h \<or> task_phase k0 = InFlight h"
    and "only_touches c s s'" and tasks: "hs_tasks s' = (hs_tasks s)(t := k2)"
    and k2: "\<And>k. k2 = Some k \<Longrightarrow> task_cid k = c"
    and own: "\<And>k h e. k2 = Some k \<Longrightarrow> task_phase k = InFlight h \<Longrightarrow> hs_map s' c = Some e \<Longrightarrow> may_land s' e k"
  shows "flight_ok s'"
proof (rule flight_frame [OF assms(1,7) tasks])
  show "task_cid k = c \<or> hs_tasks s t = Some k" if "k2 = Some k" for k using k2 [OF that] by simp
next
  fix t' k h' e
  assume k: "hs_tasks s' t' = Some k" "task_cid k = c" "task_phase k = InFlight h'" "hs_map s' c = Some e"
  have "t' = t"
  proof (rule ccontr)
    assume "t' \<noteq> t"
    then have "hs_tasks s t' = Some k" using k(1) tasks by simp
    from one_in_flight [OF assms(2,3) this k0(1) _ _ k0(3)] k \<open>t' \<noteq> t\<close> show False by (auto simp: k0(2))
  qed
  then show "may_land s' e k" using k own tasks by simp
qed

text \<open>Sections anyone may run: they leave what is in flight may_land.\<close>

lemma flight_section:
  assumes ok: "flight_ok s" and touch: "only_touches c s s'" and tasks: "hs_tasks s' = (hs_tasks s)(t := k2)"
    and k2: "\<And>k. k2 = Some k \<Longrightarrow> task_cid k = c \<and> (\<forall>h. task_phase k \<noteq> InFlight h) \<or> hs_tasks s t = Some k"
    and own: "\<And>k h e'. task_phase k = InFlight h \<Longrightarrow> hs_map s' c = Some e' \<Longrightarrow>
      (\<And>e. hs_map s c = Some e \<Longrightarrow> may_land s e k) \<Longrightarrow> may_land s' e' k"
  shows "flight_ok s'"
proof (rule flight_frame [OF ok touch tasks])
  show "task_cid k = c \<or> hs_tasks s t = Some k" if "k2 = Some k" for k using k2 [OF that] by auto
next
  fix t' k h e assume k: "hs_tasks s' t' = Some k" "task_cid k = c" "task_phase k = InFlight h" "hs_map s' c = Some e"
  then have "hs_tasks s t' = Some k" using tasks k2 by (cases "t' = t") auto
  then show "may_land s' e k" using own [OF k(3,4)] flight_okD [OF ok _ k(3)] k(2) by auto
qed

lemma allowed_not_up:
  "may_land s e k \<Longrightarrow> task_phase k = InFlight h \<Longrightarrow> cn_link e = LkUp \<or> cn_link e = LkEnding \<Longrightarrow> \<exists>c. k = AbandonTask c (cn_instance e) (InFlight h)"
  by (cases k) (auto simp: may_land_def attempt_installs_def)

lemma allowed_same_instance: "may_land s' e' (AbandonTask c i ph) \<longleftrightarrow> cn_instance e' = i"
  by (simp add: may_land_def)

lemma own_move:
  assumes "task_phase k = InFlight h" and "hs_map (snd (move_link c x y s)) c = Some e'" and "x = LkUp \<or> x = LkEnding"
    and "\<And>e. hs_map s c = Some e \<Longrightarrow> may_land s e k"
  shows "may_land (snd (move_link c x y s)) e' k"
proof (cases "hs_map s c")
  case None
  then show ?thesis using assms(2) by (simp add: move_link_def)
next
  case (Some e)
  show ?thesis
  proof (cases "cn_link e = x")
    case True
    from allowed_not_up [OF assms(4) [OF Some] assms(1)] True assms(3) obtain d where "k = AbandonTask d (cn_instance e) (InFlight h)" by auto
    then show ?thesis using True Some assms(2) by (auto simp: move_link_def allowed_same_instance)
  next
    case False
    then show ?thesis using Some assms(2) assms(4) [OF Some] by (auto simp: move_link_def)
  qed
qed

lemma own_begin:
  assumes "task_phase k = InFlight h" and "hs_map (snd (begin_reconnect c r s)) c = Some e'"
    and "\<And>e. hs_map s c = Some e \<Longrightarrow> may_land s e k"
  shows "may_land (snd (begin_reconnect c r s)) e' k"
proof (cases "hs_map s c")
  case None
  then show ?thesis using assms(2) by (simp add: begin_reconnect_def)
next
  case (Some e)
  show ?thesis
  proof (cases "on_reported_drop (cn_link e) (cn_instance e) r = Some DaReconnect")
    case True
    then have "cn_link e = LkUp" by (auto simp: on_reported_drop_def on_unrequested_drop_def split: if_splits link_state.splits)
    from allowed_not_up [OF assms(3) [OF Some] assms(1)] this obtain d where "k = AbandonTask d (cn_instance e) (InFlight h)" by auto
    then show ?thesis using True Some assms(2) by (auto simp: begin_reconnect_def take_lost_peers_def allowed_same_instance)
  next
    case False
    then have "snd (begin_reconnect c r s) = s" using Some
      by (auto simp: begin_reconnect_def split: option.split drop_action.split)
    then show ?thesis using Some assms(2) assms(3) [OF Some] by simp
  qed
qed

lemma own_mark:
  assumes "task_phase k = InFlight h" and "mark_signing_in c s = Some (h', s')" and "hs_map s' c = Some e'"
    and ok: "\<And>e. hs_map s c = Some e \<Longrightarrow> may_land s e k"
  shows "may_land s' e' k"
proof -
  from assms(2) obtain e where e: "hs_map s c = Some e" "cn_link e = LkReconnecting"
      "s' = put_conn c (e\<lparr>cn_link := LkSigningIn\<rparr>) s" by (auto simp: mark_signing_in_def may_take_over_def split: if_splits)
  with assms(3) have e': "e' = e\<lparr>cn_link := LkSigningIn\<rparr>" by simp
  show ?thesis using ok [OF e(1)] e(2) unfolding e(3) e'
    by (cases k) (simp_all add: may_land_def attempt_installs_def generation_of_def)
qed

lemma touches_more [simp]:
  "only_touches c s (s'\<lparr>hs_tasks := ts\<rparr>) = only_touches c s s'" "only_touches c s (s'\<lparr>hs_lock := ls\<rparr>) = only_touches c s s'"
  "only_touches c s s"
  by (simp_all add: only_touches_def)

lemma allowed_more [simp]:
  "may_land (s\<lparr>hs_tasks := ts\<rparr>) e k = may_land s e k" "may_land (s\<lparr>hs_lock := ls\<rparr>) e k = may_land s e k"
  by (rule allowed_cong, simp)+

lemmas flight_map_section = flight_section [of s c _ 0 "hs_tasks s 0" for s c]

lemma flight_step:
  "handoff_step True s s' \<Longrightarrow> locks_ok s \<Longrightarrow> gates_ok s \<Longrightarrow> flight_ok s \<Longrightarrow> flight_ok s'"
proof (induction rule: handoff_step.induct)
  case (opens c s h e)
  then have n: "task_cid k \<noteq> c" if "hs_tasks s t = Some k" for t k using that by (auto simp: no_task_def)
  have "only_touches c s (new_connection c e h s)"
    using opens.hyps(2) by (auto simp: only_touches_def new_connection_def generation_of_def unused_def)
  then show ?case using opens.prems(3) n by - (rule flight_frame [of s c _ 0 "hs_tasks s 0"], auto)
next
  case (removes s c)
  then show ?case by - (rule flight_map_section [of s c], auto)
next
  case (ends s c)
  then show ?case by - (rule flight_map_section [of s c], auto simp: only_touches_sections intro: own_move)
next
  case (stays s c)
  then show ?case by - (rule flight_map_section [of s c], auto simp: only_touches_sections intro: own_move)
next
  case (drops c reported s lost s' t)
  then have s': "s' = snd (begin_reconnect c reported s)" by simp
  show ?case using drops.prems drops.hyps(2) unfolding s'
    by - (rule flight_section [of s c _ t "Some (Spawning c)"], auto simp: touches_more only_touches_sections allowed_more intro: own_begin)
next
  case (restarts s t c b s')
  then have s': "s' = snd (begin_reconnect c None s)" by simp
  show ?case using restarts.prems restarts.hyps(1) unfolding s'
    by - (rule flight_section [of s c _ t "case b of BgReconnecting _ \<Rightarrow> Some (Spawning c) | _ \<Rightarrow> None"],
      auto simp: touches_more only_touches_sections allowed_more intro: own_begin split: began.splits)
next
  case (sign_in_begins c s h s' t)
  then show ?case
    by - (rule flight_section [of s c _ t "Some (SignInTask c (Waiting h))"],
      auto simp: touches_more allowed_more dest: same_tasks_eq(3) intro: own_mark only_touches_sections(7))
next
  case (sign_in_fails s t c h g s')
  then have s': "s' = snd (hand_back c s)" by simp
  show ?case using sign_in_fails.prems sign_in_fails.hyps(1) unfolding s'
    by - (rule flight_alone [of s t _ c h _ "map_option (\<lambda>g. RunTask c g Asleep) g"], auto simp: touches_more only_touches_sections)
next
  case (spawned s t c)
  then show ?case by - (rule flight_section [of s c _ t "map_option (\<lambda>e. RunTask c (generation_of e s) Asleep) (hs_map s c)"], auto simp: touches_more allowed_more only_touches_sections)
next
  case (wakes s t c g)
  then show ?case by - (rule flight_section [of s c _ t "map_option (\<lambda>h. RunTask c g (Waiting h)) (attempt_gate c s)"], auto simp: touches_more allowed_more only_touches_sections)
next
  case (locks s t k h)
  then show ?case by - (rule flight_section [of s "task_cid k" _ t "Some (with_phase (Holding h) k)"], auto simp: touches_more allowed_more only_touches_sections phase_of_with_phase)
next
  case (abandon_begins c s h t probed)
  then show ?case by - (rule flight_section [of s c _ t "Some (AbandonTask c probed (Waiting h))"], auto simp: touches_more allowed_more only_touches_sections)
next
  case (run_dials s t c g h u)
  then show ?case by - (rule flight_alone [of s t _ c h _ "Some (RunTask c g (InFlight h))"], auto simp: touches_more allowed_more only_touches_sections may_land_def still_reconnecting_def attempt_wanted_def attempt_installs_def split: if_splits)
next
  case (sign_in_dials s t c h)
  then show ?case by - (rule flight_alone [of s t _ c h _ "Some (SignInTask c (InFlight h))"], auto simp: touches_more allowed_more only_touches_sections may_land_def)
next
  case (abandon_calls s t c probed h)
  then show ?case by - (rule flight_alone [of s t _ c h _ "Some (AbandonTask c probed (InFlight h))"], auto simp: touches_more allowed_more only_touches_sections may_land_def probed_link_is_current_def)
next
  case (run_retries s t c g h)
  then show ?case by - (rule flight_alone [of s t _ c h _ "Some (RunTask c g Asleep)"], auto simp: touches_more allowed_more only_touches_sections)
next
  case (abandoned s t c probed h)
  then show ?case by - (rule flight_alone [of s t _ c h _ "Some (RestartTask c)"], auto simp: touches_more allowed_more only_touches_sections)
next
  case (run_needs_user s t c g h u reason)
  then show ?case by - (rule flight_alone [of s t _ c h _ "None"], auto simp: touches_more allowed_more only_touches_sections)
next
  case (run_stops s t c g h)
  then show ?case by - (rule flight_alone [of s t _ c h _ "None"], auto simp: touches_more allowed_more only_touches_sections)
next
  case (run_gives_up s t c g h reason code)
  then show ?case by - (rule flight_alone [of s t _ c h _ "None"], auto simp: touches_more allowed_more only_touches_sections)
next
  case (run_lands s t c g h i)
  then show ?case by - (rule flight_alone [of s t _ c h _ "None"], auto simp: touches_more allowed_more only_touches_sections)
next
  case (sign_in_answered s t c h)
  then show ?case by - (rule flight_alone [of s t _ c h _ "None"], auto simp: touches_more allowed_more only_touches_sections)
next
  case (sign_in_succeeds s t c h reauth i)
  then show ?case by - (rule flight_alone [of s t _ c h _ "None"], auto simp: touches_more allowed_more only_touches_sections)
next
  case (abandon_stops s t c probed ph h)
  then show ?case by - (rule flight_alone [of s t _ c h _ "None"], auto simp: touches_more allowed_more only_touches_sections)
qed

section \<open>The handoff is exclusive\<close>

lemma hand_start_ok: "locks_ok hand_start \<and> gates_ok hand_start \<and> flight_ok hand_start"
  by (simp add: hand_start_def locks_ok_def gates_ok_def flight_ok_def)

lemma hand_reachable_ok: "(handoff_step True)\<^sup>*\<^sup>* hand_start s \<Longrightarrow> locks_ok s \<and> gates_ok s \<and> flight_ok s"
  by (induction rule: rtranclp_induct) (use hand_start_ok locks_step gates_step flight_step in blast)+

lemma hand_reachable_locks: "(handoff_step b)\<^sup>*\<^sup>* hand_start s \<Longrightarrow> locks_ok s"
  by (induction rule: rtranclp_induct) (use hand_start_ok locks_step in blast)+

text \<open>
  C34. The reconnect, a sign-in taking it over and the supervisor's abandon exclude one another on a handoff: however
  they interleave with sessions opened, dropped, ended and removed, a task that calls the SDK holds the lock of
  its handoff, and no other task calls, or is about to, under that handoff. In the executions in which a session is opened
  only once no task of the account's earlier session is left (\<open>settled\<close>; the code does not enforce it, and
  \<open>stale_run_gives_up_new_session\<close> shows what happens otherwise) that is so for the whole account: at
  most one task calls the SDK for it; a link a reconnect or a sign-in opens is installed unless the session
  has been removed; and the link an abandon ends is the one it probed.
\<close>

theorem reconnect_handoff_exclusive:
  fixes s :: "('i, 'p) hand"
  assumes "(handoff_step settled)\<^sup>*\<^sup>* hand_start s" and "hs_tasks s t = Some k" and "task_phase k = InFlight h"
  shows "hs_lock s h = Some t \<and>
    (\<forall>t' k'. hs_tasks s t' = Some k' \<and> task_phase k' \<in> {Holding h, InFlight h} \<longrightarrow> t' = t) \<and>
    (settled \<longrightarrow>
      (\<forall>t' k' h'. hs_tasks s t' = Some k' \<and> task_cid k' = task_cid k \<and> task_phase k' = InFlight h' \<longrightarrow> t' = t) \<and>
      (hs_map s (task_cid k) = None \<or>
        (case k of
           RunTask c g _ \<Rightarrow> fst (install_link c g i s)
         | SignInTask c _ \<Rightarrow> fst (sign_in_lands c ra i s)
         | AbandonTask c probed _ \<Rightarrow> map_option cn_instance (hs_map s c) = Some probed
         | _ \<Rightarrow> False)))"
proof (intro conjI impI allI)
  note locks = hand_reachable_locks [OF assms(1)]
  show held: "hs_lock s h = Some t" using lock_holder [OF locks assms(2)] assms(3) by simp
  show "t' = t" if "hs_tasks s t' = Some k' \<and> task_phase k' \<in> {Holding h, InFlight h}" for t' k'
    using lock_holder [OF locks, of t' k' h] that held by auto
next
  assume settled
  with hand_reachable_ok [of s] assms(1) have ok: "locks_ok s" "gates_ok s" "flight_ok s" by simp_all
  show "t' = t" if "hs_tasks s t' = Some k' \<and> task_cid k' = task_cid k \<and> task_phase k' = InFlight h'" for t' k' h'
    using one_in_flight [OF ok(1,2) _ assms(2)] that assms(3) by blast
  show "hs_map s (task_cid k) = None \<or>
      (case k of
         RunTask c g _ \<Rightarrow> fst (install_link c g i s)
       | SignInTask c _ \<Rightarrow> fst (sign_in_lands c ra i s)
       | AbandonTask c probed _ \<Rightarrow> map_option cn_instance (hs_map s c) = Some probed
       | _ \<Rightarrow> False)"
  proof (cases "hs_map s (task_cid k)")
    case (Some e)
    from flight_okD [OF ok(3) assms(2,3) Some] Some assms(3) show ?thesis
      by (cases k) (simp_all add: may_land_def install_link_def sign_in_lands_def put_link_def)
  qed simp
qed

section \<open>A run of an ended session\<close>

definition demo_conn :: "(nat, unit) conn" where
  "demo_conn = \<lparr>cn_link = LkUp, cn_instance = 1, cn_handoff = 0, cn_username = ''ann'', cn_reauth = Password, cn_peers = [],
     cn_groups = [], cn_transfers = []\<rparr>"

text \<open>Opened, dropped, and the run at its first attempt.\<close>

definition demo_dropped :: "nat \<Rightarrow> nat \<Rightarrow> (nat, unit) hand \<Rightarrow> (nat, unit) hand" where
  "demo_dropped h t s = set_task t (Some (Spawning 7)) (snd (begin_reconnect 7 None (new_connection 7 demo_conn h s)))"

definition demo_in_flight :: "nat \<Rightarrow> nat \<Rightarrow> (nat, unit) hand \<Rightarrow> (nat, unit) hand" where
  "demo_in_flight h t s = set_task t (Some (RunTask 7 1 (InFlight h))) (set_lock h (Some t) s)"

lemma demo_begin:
  "begin_reconnect 7 None (new_connection 7 demo_conn h s) =
     (BgReconnecting [],
      new_connection 7 demo_conn h s
        \<lparr>hs_map := (hs_map s)(7 \<mapsto> demo_conn\<lparr>cn_link := LkReconnecting, cn_handoff := h\<rparr>), hs_generation := (hs_generation s)(h := 1)\<rparr>)"
  by (simp add: begin_reconnect_def new_connection_def demo_conn_def on_reported_drop_def names_this_instance_def
      on_unrequested_drop_def take_lost_peers_def next_generation_def)

lemma demo_drops:
  assumes "b \<longrightarrow> no_task 7 s" and "unused h s" and "hs_tasks s t = None"
  shows "(handoff_step b)\<^sup>*\<^sup>* s (demo_dropped h t s)"
proof -
  have "handoff_step b s (new_connection 7 demo_conn h s)" using assms(1,2) by (rule handoff_step.opens)
  moreover have "handoff_step b (new_connection 7 demo_conn h s) (demo_dropped h t s)"
    unfolding demo_dropped_def
    by (rule handoff_step.drops [where lost = "[]" and reported = None]) (simp_all add: demo_begin assms(3))
  ultimately show ?thesis by (meson converse_rtranclp_into_rtranclp rtranclp.rtrancl_refl)
qed

text \<open>A run asleep reaches its call whenever its account's entry is waiting for its number.\<close>

lemma demo_flies:
  assumes "hs_tasks s t = Some (RunTask 7 1 Asleep)" and "hs_map s 7 = Some e" and "cn_link e = LkReconnecting"
    and "cn_reauth e = Password" and "hs_generation s (cn_handoff e) = 1" and "hs_lock s (cn_handoff e) = None"
  shows "(handoff_step b)\<^sup>*\<^sup>* s (demo_in_flight (cn_handoff e) t s)"
proof -
  let ?h = "cn_handoff e"
  let ?w = "set_task t (Some (RunTask 7 1 (Waiting ?h))) s"
  let ?l = "set_task t (Some (RunTask 7 1 (Holding ?h))) (set_lock ?h (Some t) s)"
  have "handoff_step b s ?w" using handoff_step.wakes [OF assms(1), of b] assms(2) by (simp add: attempt_gate_def)
  moreover have "handoff_step b ?w ?l" using handoff_step.locks [of ?w t "RunTask 7 1 (Waiting ?h)" ?h b] assms(6) by simp
  moreover have "handoff_step b ?l (demo_in_flight ?h t s)"
    using handoff_step.run_dials [of ?l t 7 1 ?h "cn_username e" b] assms
    by (simp add: still_reconnecting_def attempt_wanted_def generation_of_def demo_in_flight_def)
  ultimately show ?thesis by (meson converse_rtranclp_into_rtranclp rtranclp.rtrancl_refl)
qed

definition demo_asleep :: "nat \<Rightarrow> nat \<Rightarrow> (nat, unit) hand \<Rightarrow> (nat, unit) hand" where
  "demo_asleep h t s = set_task t (Some (RunTask 7 1 Asleep)) (demo_dropped h t s)"

lemma demo_state:
  "hs_map (demo_dropped h t s) 7 = Some (demo_conn\<lparr>cn_link := LkReconnecting, cn_handoff := h\<rparr>)"
  "hs_generation (demo_dropped h t s) h = 1" "hs_lock (demo_dropped h t s) = hs_lock s"
  "hs_tasks (demo_dropped h t s) = (hs_tasks s)(t \<mapsto> Spawning 7)"
  unfolding demo_dropped_def demo_begin by simp_all

lemma demo_sleeps:
  assumes "b \<longrightarrow> no_task 7 s" and "unused h s" and "hs_tasks s t = None"
  shows "(handoff_step b)\<^sup>*\<^sup>* s (demo_asleep h t s)"
proof -
  have "handoff_step b (demo_dropped h t s) (demo_asleep h t s)"
    using handoff_step.spawned [of "demo_dropped h t s" t 7 b] by (simp add: demo_state generation_of_def demo_asleep_def)
  with demo_drops [OF assms] show ?thesis by (rule rtranclp.rtrancl_into_rtrancl)
qed

theorem reconnect_handoff_exclusive_witness:
  "hs_lock (demo_in_flight 0 0 (demo_asleep 0 0 hand_start)) 0 = Some 0 \<and>
   fst (install_link 7 1 5 (demo_in_flight 0 0 (demo_asleep 0 0 hand_start)))"
proof -
  let ?s = "demo_asleep 0 0 hand_start" and ?f = "demo_in_flight 0 0 (demo_asleep 0 0 hand_start)"
  have "(handoff_step True)\<^sup>*\<^sup>* hand_start ?s" by (rule demo_sleeps) (simp_all add: no_task_def unused_def hand_start_def)
  moreover have "(handoff_step True)\<^sup>*\<^sup>* ?s ?f"
    using demo_flies [of ?s 0 "demo_conn\<lparr>cn_link := LkReconnecting, cn_handoff := 0\<rparr>" True]
    by (simp add: demo_asleep_def demo_state demo_conn_def hand_start_def)
  ultimately have "(handoff_step True)\<^sup>*\<^sup>* hand_start ?f" by simp
  from reconnect_handoff_exclusive [OF this, of 0 "RunTask 7 1 (InFlight 0)" 0 5]
  show ?thesis by (simp add: demo_in_flight_def demo_asleep_def demo_state)
qed

text \<open>
  Without the premise the code does break its promise that an older run \<^emph>\<open>sees the number moved and stops\<close>: a new entry's
  handoff starts at zero again, so the sleeping run of a session that was ended matches the first run of the
  account's next session. Here it is at its attempt for that session, whose own run has not begun, and giving up, which
  it decides by the time since the drop of the ended session, removes the new session.
\<close>

theorem stale_run_gives_up_new_session:
  "\<exists>old new :: (nat, unit) hand.
     (handoff_step False)\<^sup>*\<^sup>* hand_start old \<and> hs_tasks old 0 = Some (RunTask 7 1 Asleep) \<and> hs_map old 7 = None \<and>
     (handoff_step False)\<^sup>*\<^sup>* old new \<and> hs_tasks new 0 = Some (RunTask 7 1 (InFlight 1)) \<and> hs_tasks new 1 = Some (Spawning 7) \<and>
     hs_map new 7 \<noteq> None \<and> hs_map (fail_run 7 1 reason code new) 7 = None"
proof -
  let ?a = "demo_asleep 0 0 hand_start"
  let ?old = "?a\<lparr>hs_map := (hs_map ?a)(7 := None)\<rparr>"
  let ?d = "demo_dropped 1 1 ?old" and ?e = "demo_conn\<lparr>cn_link := LkReconnecting, cn_handoff := 1\<rparr>"
  let ?new = "demo_in_flight 1 0 ?d"
  have "(handoff_step False)\<^sup>*\<^sup>* hand_start ?a" by (rule demo_sleeps) (simp_all add: unused_def hand_start_def)
  then have old: "(handoff_step False)\<^sup>*\<^sup>* hand_start ?old" by (rule rtranclp.rtrancl_into_rtrancl) (rule handoff_step.removes)
  have m: "hs_map ?a = (Map.empty)(7 \<mapsto> demo_conn\<lparr>cn_link := LkReconnecting, cn_handoff := 0\<rparr>)"
    by (simp add: demo_asleep_def demo_dropped_def demo_begin hand_start_def)
  have t: "hs_tasks ?old = [0 \<mapsto> RunTask 7 1 Asleep]" "hs_lock ?old = (\<lambda>_. None)"
    by (simp_all add: demo_asleep_def demo_state hand_start_def)
  have "(handoff_step False)\<^sup>*\<^sup>* ?old ?d" by (rule demo_drops) (use t m in \<open>auto simp: unused_def split: if_splits\<close>)
  moreover have "(handoff_step False)\<^sup>*\<^sup>* ?d ?new"
    using demo_flies [of ?d 0 ?e False] t by (simp add: demo_state demo_conn_def)
  ultimately have new: "(handoff_step False)\<^sup>*\<^sup>* ?old ?new" by simp
  have "hs_map (fail_run 7 1 reason code ?new) 7 = None"
    by (simp add: fail_run_def demo_in_flight_def demo_state generation_of_def)
  with old new t show ?thesis
    by (intro exI [of _ ?old] exI [of _ ?new]) (simp add: demo_in_flight_def demo_state m)
qed

end
