(* ===== verification/Redact.thy ===== *)
theory Redact
  imports Byte_Strings "HOL-Library.Product_Lexorder"
begin

text \<open>
  The redaction of a log message before it leaves the machine
  (\<^verbatim>\<open>telemetry/redact/{mod,rules}.rs\<close>). A text is the list of its characters' code points and a range is counted in
  characters, where the code counts bytes: every range the code forms lies on character boundaries.
  Arguments: \<^verbatim>\<open>alnum\<close>, the alphanumeric characters of Unicode; \<^verbatim>\<open>patterns\<close>, what the
  regular expressions and the address parsers find; \<^verbatim>\<open>mac\<close>, the keyed hash. A slice out of range
  panics, which is \<^term>\<open>None\<close>.
\<close>

type_synonym utext32 = "nat list"

datatype redaction_kind = RkUsername | RkFullName | RkSecret | RkEmail | RkHost | RkPath | RkFile | RkIp | RkSession

definition codes :: "string \<Rightarrow> utext32" where "codes s = map of_char s"

definition kind_label :: "redaction_kind \<Rightarrow> utext32" where
  "kind_label k = codes
     (case k of RkUsername \<Rightarrow> ''user'' | RkFullName \<Rightarrow> ''name'' | RkSecret \<Rightarrow> ''secret'' | RkEmail \<Rightarrow> ''email''
      | RkHost \<Rightarrow> ''host'' | RkPath \<Rightarrow> ''path'' | RkFile \<Rightarrow> ''file'' | RkIp \<Rightarrow> ''ip'' | RkSession \<Rightarrow> ''session'')"

definition folds_case :: "redaction_kind \<Rightarrow> bool" where
  "folds_case k \<longleftrightarrow> k = RkUsername \<or> k = RkFullName \<or> k = RkEmail \<or> k = RkHost"

record known_value =
  kw_kind :: redaction_kind
  kw_value :: utext32

record hit =
  h_start :: nat
  h_end :: nat
  h_kind :: redaction_kind

definition lower_char :: "nat \<Rightarrow> nat" where "lower_char c = (if 65 \<le> c \<and> c \<le> 90 then c + 32 else c)"
abbreviation lower :: "utext32 \<Rightarrow> utext32" where "lower \<equiv> map lower_char"

definition placeholder :: "('s \<Rightarrow> utext32 \<Rightarrow> utext32) \<Rightarrow> redaction_kind \<Rightarrow> utext32 \<Rightarrow> 's \<Rightarrow> utext32" where
  "placeholder mac kind v salt =
     (let v = (if folds_case kind then lower v else v)
      in codes ''<'' @ kind_label kind @ codes '':'' @ mac salt (kind_label kind @ [0] @ v) @ codes ''>'')"

section \<open>The rules (rules.rs)\<close>

definition is_word :: "(nat \<Rightarrow> bool) \<Rightarrow> nat \<Rightarrow> bool" where "is_word alnum c \<longleftrightarrow> alnum c \<or> c = 95"

definition bounded :: "(nat \<Rightarrow> bool) \<Rightarrow> utext32 \<Rightarrow> nat \<Rightarrow> nat \<Rightarrow> bool" where
  "bounded alnum input a b \<longleftrightarrow>
     (a = 0 \<or> \<not> is_word alnum (input ! (a - 1))) \<and> (length input \<le> b \<or> \<not> is_word alnum (input ! b))"

text \<open>\<^verbatim>\<open>str::trim\<close>: the characters with Unicode's property White\_Space.\<close>

definition is_whitespace :: "nat \<Rightarrow> bool" where
  "is_whitespace c \<longleftrightarrow>
     9 \<le> c \<and> c \<le> 13 \<or> 0x2000 \<le> c \<and> c \<le> 0x200a \<or>
     c \<in> {0x20, 0x85, 0xa0, 0x1680, 0x2028, 0x2029, 0x202f, 0x205f, 0x3000}"

definition trim_text :: "utext32 \<Rightarrow> utext32" where
  "trim_text s = rev (dropWhile is_whitespace (rev (dropWhile is_whitespace s)))"

text \<open>\<^verbatim>\<open>match_indices\<close>: the occurrences of a text, from the left, each after the end of the one before.\<close>

function match_indices :: "nat \<Rightarrow> utext32 \<Rightarrow> utext32 \<Rightarrow> nat list" where
  "match_indices at s needle =
     (if s = [] \<or> needle = [] then []
      else if take (length needle) s = needle
      then at # match_indices (at + length needle) (drop (length needle) s) needle
      else match_indices (Suc at) (tl s) needle)"
  by pat_completeness auto
termination by (relation "measure (\<lambda>(_, s, _). length s)") auto

declare match_indices.simps [simp del]

definition known_value_hits :: "(nat \<Rightarrow> bool) \<Rightarrow> utext32 \<Rightarrow> known_value list \<Rightarrow> hit list" where
  "known_value_hits alnum input known =
     concat (map (\<lambda>k.
       let needle = lower (trim_text (kw_value k))
       in if needle = [] then []
          else map (\<lambda>a. \<lparr>h_start = a, h_end = a + length needle, h_kind = kw_kind k\<rparr>)
            (filter (\<lambda>a. bounded alnum input a (a + length needle)) (match_indices 0 (lower input) needle))) known)"

text \<open>The runs of ASCII digits (\<^verbatim>\<open>DIGITS.find_iter\<close>), and those that are a number of 64 bits.\<close>

definition is_digit :: "nat \<Rightarrow> bool" where "is_digit c \<longleftrightarrow> 48 \<le> c \<and> c \<le> 57"

function digit_runs :: "nat \<Rightarrow> utext32 \<Rightarrow> (nat \<times> utext32) list" where
  "digit_runs at s =
     (if s = [] then []
      else if is_digit (hd s)
      then (at, takeWhile is_digit s) # digit_runs (at + length (takeWhile is_digit s)) (dropWhile is_digit s)
      else digit_runs (Suc at) (tl s))"
  by pat_completeness auto
termination
proof (relation "measure (\<lambda>(_, s). length s)")
  fix at :: nat and s :: utext32
  assume "s \<noteq> []" "is_digit (hd s)"
  then show "((at + length (takeWhile is_digit s), dropWhile is_digit s), at, s) \<in> measure (\<lambda>(_, s). length s)"
    by (cases s) (auto simp: less_Suc_eq_le length_dropWhile_le)
qed auto

declare digit_runs.simps [simp del]

definition digits_value :: "utext32 \<Rightarrow> nat" where "digits_value s = foldl (\<lambda>n c. n * 10 + (c - 48)) 0 s"

definition parse_cid :: "utext32 \<Rightarrow> nat option" where
  "parse_cid s = (if s \<noteq> [] \<and> digits_value s \<le> u64_max then Some (digits_value s) else None)"

definition session_cid_hits :: "utext32 \<Rightarrow> nat list \<Rightarrow> hit list" where
  "session_cid_hits input cids =
     (if cids = [] then []
      else concat (map (\<lambda>(a, run).
        case parse_cid run of
          Some c \<Rightarrow> if c \<in> set cids \<and> a < a + length run then [\<lparr>h_start = a, h_end = a + length run, h_kind = RkSession\<rparr>] else []
        | None \<Rightarrow> []) (digit_runs 0 input)))"

definition cid_tokens :: "utext32 \<Rightarrow> nat list" where
  "cid_tokens input = List.map_filter (\<lambda>(_, run). parse_cid run) (digit_runs 0 input)"

section \<open>Merging and rewriting (mod.rs)\<close>

fun merge_from :: "hit \<Rightarrow> hit list \<Rightarrow> hit list" where
  "merge_from l [] = [l]"
| "merge_from l (h # hs) =
     (if h_start h < h_end l then merge_from (l\<lparr>h_end := max (h_end l) (h_end h)\<rparr>) hs else l # merge_from h hs)"

definition merge_hits :: "hit list \<Rightarrow> hit list" where
  "merge_hits hits =
     (case sort_key (\<lambda>h. (int (h_start h), - int (h_end h))) hits of [] \<Rightarrow> [] | h # hs \<Rightarrow> merge_from h hs)"

definition slice :: "utext32 \<Rightarrow> nat \<Rightarrow> nat \<Rightarrow> utext32 option" where
  "slice s a b = (if a \<le> b \<and> b \<le> length s then Some (take (b - a) (drop a s)) else None)"

fun rewrite :: "(redaction_kind \<Rightarrow> utext32 \<Rightarrow> utext32) \<Rightarrow> utext32 \<Rightarrow> nat \<Rightarrow> hit list \<Rightarrow> utext32 option" where
  "rewrite ph input cursor [] = slice input cursor (length input)"
| "rewrite ph input cursor (h # hs) =
     do {
       kept \<leftarrow> slice input cursor (h_start h);
       v \<leftarrow> slice input (h_start h) (h_end h);
       rest \<leftarrow> rewrite ph input (h_end h) hs;
       Some (kept @ ph (h_kind h) v @ rest)
     }"

definition all_hits :: "(nat \<Rightarrow> bool) \<Rightarrow> (utext32 \<Rightarrow> hit list) \<Rightarrow> utext32 \<Rightarrow> known_value list \<Rightarrow> nat list \<Rightarrow> hit list" where
  "all_hits alnum patterns input known other_sessions =
     known_value_hits alnum input known @ patterns input @ session_cid_hits input other_sessions"

definition redact_with_sessions ::
  "(nat \<Rightarrow> bool) \<Rightarrow> (utext32 \<Rightarrow> hit list) \<Rightarrow> ('s \<Rightarrow> utext32 \<Rightarrow> utext32) \<Rightarrow> utext32 \<Rightarrow> known_value list \<Rightarrow> nat list \<Rightarrow> 's \<Rightarrow>
     utext32 option" where
  "redact_with_sessions alnum patterns mac input known other_sessions salt =
     (let hits = all_hits alnum patterns input known other_sessions
      in if hits = [] then Some input
         else rewrite (\<lambda>kind v. placeholder mac kind v salt) input 0 (merge_hits hits))"

definition redact where
  "redact alnum patterns mac input known salt = redact_with_sessions alnum patterns mac input known [] salt"

section \<open>Merging keeps what is covered\<close>

definition covers :: "hit list \<Rightarrow> nat \<Rightarrow> bool" where
  "covers hs i \<longleftrightarrow> (\<exists>h \<in> set hs. h_start h \<le> i \<and> i < h_end h)"

text \<open>Non-empty ranges one after another, from a position on and up to another.\<close>

fun apart :: "nat \<Rightarrow> nat \<Rightarrow> hit list \<Rightarrow> bool" where
  "apart c n [] = (c \<le> n)"
| "apart c n (h # hs) = (c \<le> h_start h \<and> h_start h < h_end h \<and> apart (h_end h) n hs)"

lemma covers_simps [simp]: "covers [] i = False" "covers (h # hs) i = (h_start h \<le> i \<and> i < h_end h \<or> covers hs i)"
  by (auto simp: covers_def)

lemma apart_mono: "apart c n hs \<Longrightarrow> c' \<le> c \<Longrightarrow> apart c' n hs"
  by (cases hs) auto

lemma apart_le: "apart c n hs \<Longrightarrow> c \<le> n"
  by (induction c n hs rule: apart.induct) auto

lemma apart_covers: "apart c n hs \<Longrightarrow> covers hs i \<Longrightarrow> c \<le> i \<and> i < n"
  by (induction c n hs rule: apart.induct) (auto dest: apart_le)

abbreviation in_range :: "nat \<Rightarrow> hit \<Rightarrow> bool" where "in_range n h \<equiv> h_start h < h_end h \<and> h_end h \<le> n"

lemma merge_from_ok:
  "in_range n l \<Longrightarrow> \<forall>h \<in> set hs. in_range n h \<and> h_start l \<le> h_start h \<Longrightarrow> sorted (map h_start hs) \<Longrightarrow>
   apart (h_start l) n (merge_from l hs) \<and> (\<forall>i. covers (merge_from l hs) i = covers (l # hs) i)"
proof (induction l hs rule: merge_from.induct)
  case (2 l h hs)
  show ?case
  proof (cases "h_start h < h_end l")
    case True
    let ?l = "l\<lparr>h_end := max (h_end l) (h_end h)\<rparr>"
    from 2(1) [OF True] 2(3-) have "apart (h_start ?l) n (merge_from ?l hs)"
      "\<forall>i. covers (merge_from ?l hs) i = covers (?l # hs) i" by auto
    then show ?thesis using True 2(4) by auto
  next
    case False
    from 2(2) [OF False] 2(3-) have "apart (h_start h) n (merge_from h hs)"
      "\<forall>i. covers (merge_from h hs) i = covers (h # hs) i" by auto
    then show ?thesis using False 2(3) by (auto intro: apart_mono)
  qed
qed simp

lemma merge_hits_ok:
  assumes "\<forall>h \<in> set hits. in_range n h"
  shows "apart 0 n (merge_hits hits)" and "covers (merge_hits hits) i = covers hits i"
proof -
  define key :: "hit \<Rightarrow> int \<times> int" where "key = (\<lambda>h. (int (h_start h), - int (h_end h)))"
  have sorted: "sorted (map h_start (sort_key key hits))"
  proof -
    have "sorted (map key (sort_key key hits))" by simp
    then show ?thesis unfolding sorted_map by (rule sorted_wrt_mono_rel [rotated]) (auto simp: key_def less_eq_prod_def)
  qed
  have same: "covers (sort_key key hits) i = covers hits i" for i by (simp add: covers_def)
  show "apart 0 n (merge_hits hits)" and "covers (merge_hits hits) i = covers hits i"
  proof -
    have "apart 0 n (merge_hits hits) \<and> (\<forall>i. covers (merge_hits hits) i = covers hits i)"
    proof (cases "sort_key key hits")
      case Nil
      then have "hits = []" by (metis set_empty set_sort)
      then show ?thesis by (simp add: merge_hits_def)
    next
      case (Cons h hs)
      have "set (h # hs) = set hits" using Cons by (metis set_sort)
      then have "in_range n h" "\<forall>h' \<in> set hs. in_range n h' \<and> h_start h \<le> h_start h'" "sorted (map h_start hs)"
        using assms sorted Cons by auto
      from merge_from_ok [OF this] same Cons show ?thesis
        by (auto simp: merge_hits_def key_def [symmetric] intro: apart_mono)
    qed
    then show "apart 0 n (merge_hits hits)" and "covers (merge_hits hits) i = covers hits i" by simp_all
  qed
qed

section \<open>What is written\<close>

definition hit_place :: "(redaction_kind \<Rightarrow> utext32 \<Rightarrow> utext32) \<Rightarrow> utext32 \<Rightarrow> hit list \<Rightarrow> nat \<Rightarrow> utext32" where
  "hit_place ph input hs i =
     (case List.find (\<lambda>h. h_start h = i) hs of
        Some h \<Rightarrow> ph (h_kind h) (take (h_end h - h_start h) (drop (h_start h) input)) | None \<Rightarrow> [])"

definition shown :: "(redaction_kind \<Rightarrow> utext32 \<Rightarrow> utext32) \<Rightarrow> utext32 \<Rightarrow> hit list \<Rightarrow> nat \<Rightarrow> utext32" where
  "shown ph input hs i = hit_place ph input hs i @ (if covers hs i then [] else [input ! i])"

lemma upt_split: "a \<le> b \<Longrightarrow> b \<le> c \<Longrightarrow> [a..<c] = [a..<b] @ [b..<c]"
  using upt_add_eq_append [of a b "c - b"] by simp

lemma slice_upt: "a \<le> b \<Longrightarrow> b \<le> length s \<Longrightarrow> slice s a b = Some (concat (map (\<lambda>i. [s ! i]) [a..<b]))"
proof -
  assume "a \<le> b" "b \<le> length s"
  moreover have "take (b - a) (drop a s) = map (\<lambda>i. s ! i) [a..<b]" using calculation by (intro nth_equalityI) simp_all
  moreover have "concat (map (\<lambda>i. [s ! i]) [a..<b]) = map (\<lambda>i. s ! i) [a..<b]" by (induction "[a..<b]") simp_all
  ultimately show ?thesis by (simp add: slice_def)
qed

lemma place_outside: "apart c n hs \<Longrightarrow> i < c \<Longrightarrow> hit_place ph input hs i = []"
  by (induction c n hs rule: apart.induct) (auto simp: hit_place_def)

lemma rewrite_shown:
  "apart c (length input) hs \<Longrightarrow>
   rewrite ph input c hs = Some (concat (map (shown ph input hs) [c..<length input]))"
proof (induction hs arbitrary: c)
  case Nil
  have "shown ph input [] = (\<lambda>i. [input ! i])" by (simp add: fun_eq_iff shown_def hit_place_def)
  then show ?case using Nil by (simp only: rewrite.simps apart.simps slice_upt [of c "length input" input] order.refl)
next
  case (Cons h hs)
  let ?a = "h_start h" and ?b = "h_end h" and ?n = "length input"
  from Cons.prems have ab: "c \<le> ?a" "?a < ?b" "apart ?b ?n hs" by auto
  have b: "?b \<le> ?n" using apart_le [OF ab(3)] .
  have not: "\<not> covers hs i" if "i < ?b" for i using apart_covers [OF ab(3)] that by fastforce
  have before: "map (shown ph input (h # hs)) [c..<?a] = map (\<lambda>i. [input ! i]) [c..<?a]"
    using not ab(2) place_outside [OF ab(3), of _ ph input] by (auto simp: shown_def hit_place_def)
  have inside: "concat (map (shown ph input (h # hs)) [?a..<?b]) = ph (h_kind h) (take (?b - ?a) (drop ?a input))"
  proof -
    have "[?a..<?b] = ?a # [Suc ?a..<?b]" using ab(2) by (simp add: upt_conv_Cons)
    moreover have "concat (map (shown ph input (h # hs)) [Suc ?a..<?b]) = []"
      using place_outside [OF ab(3), of _ ph input] by (auto simp: shown_def hit_place_def)
    ultimately show ?thesis using ab(2) by (simp add: shown_def hit_place_def)
  qed
  have after: "map (shown ph input (h # hs)) [?b..<?n] = map (shown ph input hs) [?b..<?n]"
    using ab(2) by (auto simp: shown_def hit_place_def)
  have "[c..<?n] = [c..<?a] @ [?a..<?b] @ [?b..<?n]"
    using ab(1,2) b upt_split [of c ?a ?n] upt_split [of ?a ?b ?n] by simp
  then have "concat (map (shown ph input (h # hs)) [c..<?n]) =
      concat (map (\<lambda>i. [input ! i]) [c..<?a]) @ ph (h_kind h) (take (?b - ?a) (drop ?a input)) @ concat (map (shown ph input hs) [?b..<?n])"
    by (simp add: before inside after)
  moreover have "slice input ?a ?b = Some (take (?b - ?a) (drop ?a input))" using ab(2) b by (simp add: slice_def)
  ultimately show ?case using Cons.IH [OF ab(3)] ab(1,2) b by (simp add: slice_upt)
qed

section \<open>Known values\<close>

text \<open>A text none of whose proper beginnings is also its end: two of its occurrences never overlap.\<close>

definition borderless :: "utext32 \<Rightarrow> bool" where
  "borderless w \<longleftrightarrow> (\<forall>d. 0 < d \<and> d < length w \<longrightarrow> drop d w \<noteq> take (length w - d) w)"

definition occurs :: "utext32 \<Rightarrow> utext32 \<Rightarrow> nat \<Rightarrow> bool" where "occurs w s p \<longleftrightarrow> take (length w) (drop p s) = w"

lemma no_overlap:
  assumes "borderless w" and "occurs w s 0" and "occurs w s p" and "0 < p"
  shows "length w \<le> p"
proof (rule ccontr)
  assume "\<not> length w \<le> p"
  then have p: "p < length w" by simp
  have w: "take (length w) s = w" "take (length w) (drop p s) = w" using assms(2,3) by (simp_all add: occurs_def)
  have "drop p w = take (length w - p) (drop p s)" using w(1) p by (metis drop_take)
  also have "\<dots> = take (length w - p) w" using w(2) by (metis diff_le_self min.absorb1 take_take)
  finally show False using assms(1,4) p by (simp add: borderless_def)
qed

lemma match_indices_complete:
  "borderless w \<Longrightarrow> w \<noteq> [] \<Longrightarrow> occurs w s p \<Longrightarrow> at + p \<in> set (match_indices at s w)"
proof (induction at s w arbitrary: p rule: match_indices.induct)
  case (1 at s w)
  have s: "s \<noteq> []" using 1(4,5) by (auto simp: occurs_def)
  show ?case
  proof (cases "take (length w) s = w")
    case True
    show ?thesis
    proof (cases "p = 0")
      case True
      then show ?thesis using \<open>take (length w) s = w\<close> s 1(4) by (subst match_indices.simps) simp
    next
      case False
      with no_overlap [OF 1(3) _ 1(5)] True have "length w \<le> p" by (auto simp: occurs_def)
      moreover from this have "occurs w (drop (length w) s) (p - length w)" using 1(5) by (simp add: occurs_def)
      ultimately have "at + length w + (p - length w) \<in> set (match_indices (at + length w) (drop (length w) s) w)"
        using 1(1) [OF _ True 1(3,4)] s 1(4) by blast
      then show ?thesis using True s 1(4) \<open>length w \<le> p\<close> by (subst match_indices.simps) (simp add: add.assoc)
    qed
  next
    case False
    then have "0 < p" using 1(5) by (cases p) (auto simp: occurs_def)
    then have "occurs w (tl s) (p - 1)" using 1(5) s by (cases s; cases p) (auto simp: occurs_def)
    then have "Suc at + (p - 1) \<in> set (match_indices (Suc at) (tl s) w)" using 1(2) [OF _ False 1(3,4)] s 1(4) by blast
    then show ?thesis using False s 1(4) \<open>0 < p\<close> by (subst match_indices.simps) simp
  qed
qed

lemma match_indices_sound:
  "p \<in> set (match_indices at s w) \<Longrightarrow> w \<noteq> [] \<and> at \<le> p \<and> p - at + length w \<le> length s"
proof (induction at s w rule: match_indices.induct)
  case (1 at s w)
  show ?case
  proof (cases "s = [] \<or> w = []")
    case True
    then show ?thesis using 1(3) by (subst (asm) match_indices.simps) auto
  next
    case ne: False
    show ?thesis
    proof (cases "take (length w) s = w")
      case True
      then have "length w \<le> length s" by (metis length_take min.absorb_iff2 nat_le_linear take_all)
      moreover from 1(3) ne True have "p = at \<or> p \<in> set (match_indices (at + length w) (drop (length w) s) w)"
        by (subst (asm) match_indices.simps) auto
      ultimately show ?thesis using 1(1) [OF ne True] ne by auto
    next
      case False
      with 1(3) ne have "p \<in> set (match_indices (Suc at) (tl s) w)" by (subst (asm) match_indices.simps) auto
      from 1(2) [OF ne False this] ne show ?thesis by (cases s) auto
    qed
  qed
qed

lemma known_hits_in_range: "h \<in> set (known_value_hits alnum input known) \<Longrightarrow> in_range (length input) h"
  by (auto simp: known_value_hits_def Let_def dest!: match_indices_sound split: if_splits)

lemma digit_runs_sound:
  "(p, run) \<in> set (digit_runs at s) \<Longrightarrow> at \<le> p \<and> run \<noteq> [] \<and> p - at + length run \<le> length s"
proof (induction at s rule: digit_runs.induct)
  case (1 at s)
  show ?case
  proof (cases "s = []")
    case True
    then show ?thesis using 1(3) by (subst (asm) digit_runs.simps) simp
  next
    case ne: False
    let ?n = "length (takeWhile is_digit s)"
    have len: "?n + length (dropWhile is_digit s) = length s" by (metis length_append takeWhile_dropWhile_id)
    show ?thesis
    proof (cases "is_digit (hd s)")
      case True
      with 1(3) ne have "(p, run) = (at, takeWhile is_digit s) \<or> (p, run) \<in> set (digit_runs (at + ?n) (dropWhile is_digit s))"
        by (subst (asm) digit_runs.simps) auto
      then show ?thesis using 1(1) [OF ne True] len True ne by (cases s) auto
    next
      case False
      with 1(3) ne have "(p, run) \<in> set (digit_runs (Suc at) (tl s))" by (subst (asm) digit_runs.simps) auto
      from 1(2) [OF ne False this] ne show ?thesis by (cases s) auto
    qed
  qed
qed

lemma session_hits_in_range: "h \<in> set (session_cid_hits input cids) \<Longrightarrow> in_range (length input) h"
  by (auto simp: session_cid_hits_def dest!: digit_runs_sound split: if_splits option.splits)

text \<open>
  C35. A redacted message is the message with every marked range replaced: each character outside all of them is kept,
  in order, none inside any of them is, and where a merged range begins stands its placeholder; and every
  standalone occurrence of a known value, whatever its case, is inside a marked range if the value cannot overlap itself.
\<close>

theorem redact_exact:
  assumes "\<forall>h \<in> set (patterns input). h_start h < h_end h \<and> h_end h \<le> length input"
  shows "redact_with_sessions alnum patterns mac input known others salt =
      (let hits = all_hits alnum patterns input known others
       in Some (concat (map (\<lambda>i. hit_place (\<lambda>kind v. placeholder mac kind v salt) input (merge_hits hits) i @
            (if covers hits i then [] else [input ! i])) [0..<length input]))) \<and>
    (\<forall>k \<in> set known. \<forall>p.
       (let w = lower (trim_text (kw_value k))
        in w \<noteq> [] \<and> borderless w \<and> occurs w (lower input) p \<and> bounded alnum input p (p + length w) \<longrightarrow>
           (\<forall>i \<in> {p..<p + length w}. covers (all_hits alnum patterns input known others) i)))"
proof -
  let ?hits = "all_hits alnum patterns input known others" and ?ph = "\<lambda>kind v. placeholder mac kind v salt"
  have rng: "\<forall>h \<in> set ?hits. in_range (length input) h"
    using assms known_hits_in_range session_hits_in_range by (fastforce simp: all_hits_def)
  note ok = merge_hits_ok [OF rng]
  have sh: "shown ?ph input (merge_hits ?hits) = (\<lambda>i. hit_place ?ph input (merge_hits ?hits) i @ (if covers ?hits i then [] else [input ! i]))"
    by (simp add: fun_eq_iff shown_def ok(2))
  have "redact_with_sessions alnum patterns mac input known others salt =
      Some (concat (map (shown ?ph input (merge_hits ?hits)) [0..<length input]))"
  proof (cases "?hits = []")
    case True
    have "shown ?ph input [] = (\<lambda>i. [input ! i])" by (simp add: fun_eq_iff shown_def hit_place_def)
    moreover have "concat (map (\<lambda>i. [input ! i]) [0..<length input]) = input"
      using slice_upt [of 0 "length input" input] by (simp add: slice_def)
    ultimately show ?thesis using True by (simp add: redact_with_sessions_def merge_hits_def)
  next
    case False
    then show ?thesis using rewrite_shown [OF ok(1), of ?ph] by (simp add: redact_with_sessions_def Let_def)
  qed
  moreover have "covers ?hits i"
    if "k \<in> set known" "w = lower (trim_text (kw_value k))" "w \<noteq> []" "borderless w" "occurs w (lower input) p"
      "bounded alnum input p (p + length w)" "i \<in> {p..<p + length w}" for k w p i
  proof -
    have "p \<in> set (match_indices 0 (lower input) w)" using match_indices_complete [OF that(4,3,5), of 0] by simp
    with that have "\<lparr>h_start = p, h_end = p + length w, h_kind = kw_kind k\<rparr> \<in> set (known_value_hits alnum input known)"
      by (force simp: known_value_hits_def Let_def)
    then show ?thesis using that(7) unfolding covers_def all_hits_def by force
  qed
  ultimately show ?thesis unfolding sh Let_def by blast
qed

definition demo_alnum :: "nat \<Rightarrow> bool" where "demo_alnum c \<longleftrightarrow> 97 \<le> c \<and> c \<le> 122 \<or> 65 \<le> c \<and> c \<le> 90"

lemmas redact_eval = codes_def demo_alnum_def all_hits_def known_value_hits_def session_cid_hits_def trim_text_def is_whitespace_def
  lower_char_def match_indices.simps bounded_def is_word_def Let_def

lemma demo_hits:
  "all_hits demo_alnum (\<lambda>_. []) (codes ''hi Ann, anna'') [\<lparr>kw_kind = RkUsername, kw_value = codes ''ann''\<rparr>] [] =
     [\<lparr>h_start = 3, h_end = 6, h_kind = RkUsername\<rparr>]"
  by (simp add: redact_eval)

theorem redact_exact_witness:
  "redact_with_sessions demo_alnum (\<lambda>_. []) (\<lambda>_ _. codes ''2f'') (codes ''hi Ann, anna'')
     [\<lparr>kw_kind = RkUsername, kw_value = codes ''ann''\<rparr>] [] () = Some (codes ''hi <user:2f>, anna'')"
proof -
  have n: "[0..<length (codes ''hi Ann, anna'')] = [0, 1, 2, 3, 4, 5, 6, 7, 8, 9, 10, 11]" by (simp add: codes_def upt_rec)
  have m: "merge_hits [\<lparr>h_start = 3, h_end = 6, h_kind = RkUsername\<rparr>] = [\<lparr>h_start = 3, h_end = 6, h_kind = RkUsername\<rparr>]"
    by (simp add: merge_hits_def)
  show ?thesis
    by (rule trans [OF conjunct1 [OF redact_exact]], simp, simp only: Let_def demo_hits m n)
      (simp add: hit_place_def placeholder_def kind_label_def codes_def folds_case_def lower_char_def)
qed

text \<open>
  A value that can overlap itself is missed where it follows an occurrence inside a longer word, because the search goes
  on after the end of that one: here the name is in the message, standing alone, and nothing is replaced.
\<close>

theorem overlapping_name_survives:
  "redact demo_alnum (\<lambda>_. []) mac (codes ''xan an an'') [\<lparr>kw_kind = RkFullName, kw_value = codes ''an an''\<rparr>] salt =
     Some (codes ''xan an an'')"
  "occurs (codes ''an an'') (codes ''xan an an'') 4 \<and> bounded demo_alnum (codes ''xan an an'') 4 9"
  by (simp_all add: redact_def redact_with_sessions_def redact_eval occurs_def)

text \<open>Ranges that only touch are not merged, whatever the comment on \<^verbatim>\<open>merge\<close> says: each gets its placeholder.\<close>

lemma touching_hits_stay:
  "merge_hits [\<lparr>h_start = 0, h_end = 2, h_kind = k\<rparr>, \<lparr>h_start = 2, h_end = 3, h_kind = k'\<rparr>] =
     [\<lparr>h_start = 0, h_end = 2, h_kind = k\<rparr>, \<lparr>h_start = 2, h_end = 3, h_kind = k'\<rparr>]"
  by (simp add: merge_hits_def)

end
