(* ===== verification/App_Abi.thy ===== *)
theory App_Abi
  imports Prelude
begin

text \<open>
  What a Citadel app may be: the capabilities and the calls they admit, the lifecycle of an instance
  (\<^verbatim>\<open>citadel-app-sdk-types/src/{capability,lifecycle}.rs, ops/mod.rs\<close>), and the rules that decide
  whether a module may be instantiated at all (\<^verbatim>\<open>citadel-app-abi-inspect\<close>). The WebAssembly validator and
  parser are a crate's: a module is given by what they answer, the validator's two verdicts and the
  sections the parser yields.
\<close>

section \<open>Groups, capabilities and calls\<close>

datatype import_group =
    GrCanvas | GrUi | GrEvents | GrNavigate | GrNodes | GrMd | GrFiles | GrChat | GrMembers | GrStorage | GrNet
  | GrIhttp | GrClipboard | GrNotify | GrDocuments | GrLog | GrTopic

datatype capability =
    CapCanvas | CapUi | CapEvents | CapNavigate | CapLog | CapNodesRead | CapNodesWrite | CapMdEdit | CapFilesRead
  | CapFilesWrite | CapChatRead | CapChatSend | CapMembersList | CapStorageUser | CapStorageScope | CapStorageNode
  | CapStorageBlob | CapStorageFiles | CapStorageLocal | CapNetHost | CapNetHostPrivate | CapNetServer
  | CapIhttpServe | CapIhttpCall | CapIhttpP2pServe | CapIhttpP2pCall | CapClipboardRead | CapClipboardWrite
  | CapNotifications | CapDocuments | CapGroupTopicSubscribe | CapGroupTopicPublish

definition group_names :: "(import_group \<times> string) list" where
  "group_names =
     [(GrCanvas, ''canvas''), (GrUi, ''ui''), (GrEvents, ''events''), (GrNavigate, ''navigate''),
      (GrNodes, ''nodes''), (GrMd, ''md''), (GrFiles, ''files''), (GrChat, ''chat''), (GrMembers, ''members''),
      (GrStorage, ''storage''), (GrNet, ''net''), (GrIhttp, ''ihttp''), (GrClipboard, ''clipboard''),
      (GrNotify, ''notify''), (GrDocuments, ''documents''), (GrLog, ''log''), (GrTopic, ''topic'')]"

definition CAPABILITIES :: "(capability \<times> string \<times> import_group) list" where
  "CAPABILITIES =
     [(CapCanvas, ''canvas'', GrCanvas), (CapUi, ''ui'', GrUi), (CapEvents, ''events'', GrEvents),
      (CapNavigate, ''navigate'', GrNavigate), (CapLog, ''log'', GrLog), (CapNodesRead, ''nodes.read'', GrNodes),
      (CapNodesWrite, ''nodes.write'', GrNodes), (CapMdEdit, ''md.edit'', GrMd),
      (CapFilesRead, ''files.read'', GrFiles), (CapFilesWrite, ''files.write'', GrFiles),
      (CapChatRead, ''chat.read'', GrChat), (CapChatSend, ''chat.send'', GrChat),
      (CapMembersList, ''members.list'', GrMembers), (CapStorageUser, ''storage.user'', GrStorage),
      (CapStorageScope, ''storage.scope'', GrStorage), (CapStorageNode, ''storage.node'', GrStorage),
      (CapStorageBlob, ''storage.blob'', GrStorage), (CapStorageFiles, ''storage.files'', GrStorage),
      (CapStorageLocal, ''storage.local'', GrStorage), (CapNetHost, ''net.host'', GrNet),
      (CapNetHostPrivate, ''net.host.private'', GrNet), (CapNetServer, ''net.server'', GrNet),
      (CapIhttpServe, ''ihttp.serve'', GrIhttp), (CapIhttpCall, ''ihttp.call'', GrIhttp),
      (CapIhttpP2pServe, ''ihttp.p2p.serve'', GrIhttp), (CapIhttpP2pCall, ''ihttp.p2p.call'', GrIhttp),
      (CapClipboardRead, ''clipboard.read'', GrClipboard), (CapClipboardWrite, ''clipboard.write'', GrClipboard),
      (CapNotifications, ''notifications'', GrNotify), (CapDocuments, ''documents'', GrDocuments),
      (CapGroupTopicSubscribe, ''group.topic.subscribe'', GrTopic),
      (CapGroupTopicPublish, ''group.topic.publish'', GrTopic)]"

definition OPS :: "(import_group \<times> nat \<times> string \<times> capability list option) list" where
  "OPS =
     [(GrCanvas, 1, ''CanvasMeasure'', Some [CapCanvas]), (GrCanvas, 2, ''CanvasDraw'', Some [CapCanvas]),
      (GrCanvas, 3, ''MeasureText'', Some [CapCanvas]), (GrUi, 1, ''SetToolbar'', Some [CapUi]),
      (GrUi, 2, ''OpenMenu'', Some [CapUi]), (GrUi, 3, ''ShowDialog'', Some [CapUi]),
      (GrUi, 4, ''ShowToast'', Some [CapUi]), (GrUi, 5, ''RequestHeight'', Some [CapUi]),
      (GrEvents, 1, ''Subscribe'', Some [CapEvents]), (GrEvents, 2, ''RequestFrames'', Some [CapEvents]),
      (GrNavigate, 1, ''NavigateOpen'', Some [CapNavigate]), (GrNodes, 1, ''NodeGet'', Some [CapNodesRead]),
      (GrNodes, 2, ''NodeChildren'', Some [CapNodesRead]), (GrNodes, 3, ''NodeReadMdx'', Some [CapNodesRead]),
      (GrNodes, 4, ''NodeCreate'', Some [CapNodesWrite]), (GrNodes, 5, ''NodeRename'', Some [CapNodesWrite]),
      (GrNodes, 6, ''NodeMove'', Some [CapNodesWrite]), (GrMd, 1, ''MdReadZone'', Some [CapMdEdit]),
      (GrMd, 2, ''MdReplaceZone'', Some [CapMdEdit]), (GrMd, 3, ''MdAppend'', Some [CapMdEdit]),
      (GrFiles, 1, ''FilesList'', Some [CapFilesRead]), (GrFiles, 2, ''FilesRead'', Some [CapFilesRead]),
      (GrFiles, 3, ''FilesWrite'', Some [CapFilesWrite]), (GrFiles, 4, ''FilesDelete'', Some [CapFilesWrite]),
      (GrChat, 1, ''ChatRecent'', Some [CapChatRead]), (GrChat, 2, ''ChatSend'', Some [CapChatSend]),
      (GrMembers, 1, ''MembersList'', Some [CapMembersList]), (GrStorage, 1, ''KvGet'', None),
      (GrStorage, 2, ''KvSet'', None), (GrStorage, 3, ''KvSetMany'', None), (GrStorage, 4, ''KvDelete'', None),
      (GrStorage, 5, ''KvList'', None), (GrStorage, 6, ''BlobPut'', Some [CapStorageBlob]),
      (GrStorage, 7, ''BlobGet'', Some [CapStorageBlob]), (GrStorage, 8, ''BlobDelete'', Some [CapStorageBlob]),
      (GrStorage, 9, ''StoreFileWrite'', Some [CapStorageFiles]),
      (GrStorage, 10, ''StoreFileRead'', Some [CapStorageFiles]),
      (GrStorage, 11, ''StoreFileList'', Some [CapStorageFiles]), (GrNet, 1, ''HostFetch'', Some [CapNetHost]),
      (GrNet, 2, ''ServerFetch'', Some [CapNetServer]), (GrNet, 3, ''HostFetchOpen'', Some [CapNetHost]),
      (GrNet, 4, ''NetStreamRead'', Some [CapNetHost]), (GrNet, 5, ''NetStreamClose'', Some [CapNetHost]),
      (GrIhttp, 1, ''IhttpServe'', Some [CapIhttpServe, CapIhttpP2pServe]),
      (GrIhttp, 2, ''IhttpRespond'', Some [CapIhttpServe, CapIhttpP2pServe]),
      (GrIhttp, 3, ''IhttpCall'', Some [CapIhttpCall, CapIhttpP2pCall]),
      (GrIhttp, 4, ''IhttpConsumed'', Some [CapIhttpServe, CapIhttpCall, CapIhttpP2pServe, CapIhttpP2pCall]),
      (GrClipboard, 1, ''ClipboardReadText'', Some [CapClipboardRead]),
      (GrClipboard, 2, ''ClipboardWriteText'', Some [CapClipboardWrite]),
      (GrNotify, 1, ''Notify'', Some [CapNotifications]), (GrDocuments, 1, ''DocOpen'', Some [CapDocuments]),
      (GrDocuments, 2, ''DocApply'', Some [CapDocuments]), (GrDocuments, 3, ''DocPull'', Some [CapDocuments]),
      (GrLog, 1, ''LogWrite'', Some [CapLog]),
      (GrTopic, 1, ''TopicOpen'', Some [CapGroupTopicSubscribe, CapGroupTopicPublish]),
      (GrTopic, 2, ''TopicPublish'', Some [CapGroupTopicPublish]),
      (GrTopic, 3, ''TopicClose'', Some [CapGroupTopicSubscribe, CapGroupTopicPublish])]"

definition group_index :: "import_group \<Rightarrow> nat" where
  "group_index g = length (takeWhile (\<lambda>(g', _). g' \<noteq> g) group_names)"

definition import_name :: "import_group \<Rightarrow> string" where "import_name g = the (map_of group_names g)"

definition from_import_name :: "string \<Rightarrow> import_group option" where
  "from_import_name name = map_option fst (find (\<lambda>(_, n). n = name) group_names)"

definition capability_name :: "capability \<Rightarrow> string" where "capability_name c = fst (the (map_of CAPABILITIES c))"
definition capability_group :: "capability \<Rightarrow> import_group" where "capability_group c = snd (the (map_of CAPABILITIES c))"

definition from_name :: "string \<Rightarrow> capability option" where
  "from_name name = map_option fst (find (\<lambda>(_, n, _). n = name) CAPABILITIES)"

definition INTRINSIC :: "capability list" where "INTRINSIC = [CapCanvas, CapUi, CapEvents, CapNavigate, CapLog]"
definition is_intrinsic :: "capability \<Rightarrow> bool" where "is_intrinsic c \<longleftrightarrow> c \<in> set INTRINSIC"

definition capabilities_opening :: "import_group \<Rightarrow> capability list" where
  "capabilities_opening g = map fst (filter (\<lambda>(_, _, g'). g' = g) CAPABILITIES)"

text \<open>Whether an install holding some capabilities may make a call of the table whose grant its arguments do not decide.\<close>

definition is_granted :: "(capability \<Rightarrow> bool) \<Rightarrow> capability list \<Rightarrow> bool" where
  "is_granted owns granted_by \<longleftrightarrow> list_ex owns granted_by"

section \<open>The lifecycle (lifecycle.rs)\<close>

datatype lifecycle_state = LsCreated | LsInitialised | LsRunning | LsSuspended | LsClosing | LsClosed
datatype lifecycle_step = StInitialised | StStart | StSuspend | StResume | StClose | StSettled | StAbort

definition after_step :: "lifecycle_state \<Rightarrow> lifecycle_step \<Rightarrow> lifecycle_state option" where
  "after_step s e =
     (case (s, e) of
        (LsClosed, _) \<Rightarrow> None
      | (_, StAbort) \<Rightarrow> Some LsClosed
      | (LsCreated, StInitialised) \<Rightarrow> Some LsInitialised
      | (LsInitialised, StStart) \<Rightarrow> Some LsRunning
      | (LsRunning, StSuspend) \<Rightarrow> Some LsSuspended
      | (LsSuspended, StResume) \<Rightarrow> Some LsRunning
      | (LsInitialised, StClose) \<Rightarrow> Some LsClosing
      | (LsRunning, StClose) \<Rightarrow> Some LsClosing
      | (LsSuspended, StClose) \<Rightarrow> Some LsClosing
      | (LsClosing, StSettled) \<Rightarrow> Some LsClosed
      | _ \<Rightarrow> None)"

definition CLOSING_GROUPS :: "import_group list" where "CLOSING_GROUPS = [GrStorage, GrLog]"

definition refusal_for :: "lifecycle_state \<Rightarrow> import_group \<Rightarrow> string option" where
  "refusal_for s g =
     (if s = LsClosed then Some ''closed''
      else if s = LsClosing \<and> g \<notin> set CLOSING_GROUPS then Some ''closing''
      else None)"

section \<open>What a module declares (model.rs)\<close>

datatype val_kind = VkI32 | VkI64 | VkF32 | VkF64 | VkV128 | VkRef

record func_sig =
  fs_params :: "val_kind list"
  fs_results :: "val_kind list"

record memory_decl =
  md_initial_pages :: nat
  md_maximum_pages :: "nat option"
  md_shared :: bool
  md_memory64 :: bool

datatype import_kind = IkFunc func_sig | IkMemory memory_decl | IkTable | IkGlobal | IkTag
datatype export_kind = EkFunc func_sig | EkMemory | EkTable | EkGlobal | EkTag

record import_decl =
  im_module :: string
  im_name :: string
  im_kind :: import_kind

record inspection =
  in_imports :: "import_decl list"
  in_exports :: "(string \<times> export_kind) list"
  in_defined_memories :: "memory_decl list"
  in_has_start :: bool
  in_uses_threads :: bool

datatype rejection =
    RjMalformed string | RjThreads | RjForeignImport string string | RjUnknownImport string | RjWrongImportKind string
  | RjWrongImportSignature string | RjUndeclaredGroup import_group | RjMemoryNotImported | RjMemoryDefined | RjSharedMemory
  | RjMemory64 | RjMemoryInitialTooLarge nat nat | RjMissingExport string | RjWrongExportSignature string | RjStartFunction

definition ABI_NAMESPACE :: string where "ABI_NAMESPACE = ''citadel_app_abi_1''"

definition imported_memory :: "inspection \<Rightarrow> memory_decl option" where
  "imported_memory insp =
     (case List.map_filter (\<lambda>i. case im_kind i of IkMemory m \<Rightarrow> if im_module i = ABI_NAMESPACE then Some m else None | _ \<Rightarrow> None)
        (in_imports insp) of
        [] \<Rightarrow> None | m # _ \<Rightarrow> Some m)"

section \<open>Reading the module (parse.rs)\<close>

datatype type_ref = TrFunc nat | TrMemory memory_decl | TrTable | TrGlobal | TrTag
datatype external_kind = XkFunc | XkMemory | XkTable | XkGlobal | XkTag

datatype payload =
    PlComponent
  | PlTypes "(string + func_sig option) list"
  | PlImports "(string + string \<times> string \<times> type_ref) list"
  | PlFunctions "(string + nat) list"
  | PlMemories "(string + memory_decl) list"
  | PlExports "(string + string \<times> external_kind \<times> nat) list"
  | PlStart
  | PlOther

record wasm_module =
  wm_valid :: "string + unit"
  wm_valid_with_threads :: "string + unit"
  wm_payloads :: "(string + payload) list"

definition uses_threads :: "wasm_module \<Rightarrow> rejection + bool" where
  "uses_threads w =
     (case wm_valid w of
        Inr _ \<Rightarrow> Inr False
      | Inl e \<Rightarrow> (case wm_valid_with_threads w of Inr _ \<Rightarrow> Inr True | Inl _ \<Rightarrow> Inl (RjMalformed e)))"

record reading =
  rd_types :: "func_sig option list"
  rd_func_types :: "nat list"
  rd_imports :: "import_decl list"
  rd_exports :: "(string \<times> external_kind \<times> nat) list"
  rd_memories :: "memory_decl list"
  rd_start :: bool

definition sig_at :: "func_sig option list \<Rightarrow> nat \<Rightarrow> rejection + func_sig" where
  "sig_at types i =
     (if i < length types then (case types ! i of Some sig \<Rightarrow> Inr sig | None \<Rightarrow> Inl (RjMalformed ''not a function type''))
      else Inl (RjMalformed ''not a function type''))"

fun each :: "('s \<Rightarrow> 'a \<Rightarrow> rejection + 's) \<Rightarrow> 's \<Rightarrow> (string + 'a) list \<Rightarrow> rejection + 's" where
  "each f s [] = Inr s"
| "each f s (Inl e # xs) = Inl (RjMalformed e)"
| "each f s (Inr x # xs) = and_then (f s x) (\<lambda>s. each f s xs)"

definition read_import :: "reading \<Rightarrow> string \<times> string \<times> type_ref \<Rightarrow> rejection + reading" where
  "read_import r i =
     (case i of (module, name, ty) \<Rightarrow>
        let put = (\<lambda>kind r. r\<lparr>rd_imports := rd_imports r @ [\<lparr>im_module = module, im_name = name, im_kind = kind\<rparr>]\<rparr>)
        in case ty of
             TrFunc t \<Rightarrow>
               and_then (sig_at (rd_types r) t) (\<lambda>sig. Inr (put (IkFunc sig) (r\<lparr>rd_func_types := rd_func_types r @ [t]\<rparr>)))
           | TrMemory m \<Rightarrow> Inr (put (IkMemory m) r)
           | TrTable \<Rightarrow> Inr (put IkTable r)
           | TrGlobal \<Rightarrow> Inr (put IkGlobal r)
           | TrTag \<Rightarrow> Inr (put IkTag r))"

definition read_payload :: "reading \<Rightarrow> payload \<Rightarrow> rejection + reading" where
  "read_payload r p =
     (case p of
        PlComponent \<Rightarrow> Inl (RjMalformed ''a component, not a core module'')
      | PlTypes ts \<Rightarrow> each (\<lambda>r t. Inr (r\<lparr>rd_types := rd_types r @ [t]\<rparr>)) r ts
      | PlImports is \<Rightarrow> each read_import r is
      | PlFunctions fs \<Rightarrow> each (\<lambda>r t. Inr (r\<lparr>rd_func_types := rd_func_types r @ [t]\<rparr>)) r fs
      | PlMemories ms \<Rightarrow> each (\<lambda>r m. Inr (r\<lparr>rd_memories := rd_memories r @ [m]\<rparr>)) r ms
      | PlExports es \<Rightarrow> each (\<lambda>r e. Inr (r\<lparr>rd_exports := rd_exports r @ [e]\<rparr>)) r es
      | PlStart \<Rightarrow> Inr (r\<lparr>rd_start := True\<rparr>)
      | PlOther \<Rightarrow> Inr r)"

definition read_export :: "reading \<Rightarrow> (string \<times> export_kind) list \<Rightarrow> string \<times> external_kind \<times> nat \<Rightarrow> rejection + (string \<times> export_kind) list" where
  "read_export r out e =
     (case e of (name, kind, i) \<Rightarrow>
        case kind of
          XkFunc \<Rightarrow>
            if i < length (rd_func_types r)
            then and_then (sig_at (rd_types r) (rd_func_types r ! i)) (\<lambda>sig. Inr (out @ [(name, EkFunc sig)]))
            else Inl (RjMalformed ''names no function'')
        | XkMemory \<Rightarrow> Inr (out @ [(name, EkMemory)])
        | XkTable \<Rightarrow> Inr (out @ [(name, EkTable)])
        | XkGlobal \<Rightarrow> Inr (out @ [(name, EkGlobal)])
        | XkTag \<Rightarrow> Inr (out @ [(name, EkTag)]))"

definition inspect :: "wasm_module \<Rightarrow> rejection + inspection" where
  "inspect w =
     and_then (uses_threads w) (\<lambda>threads.
     and_then (each read_payload \<lparr>rd_types = [], rd_func_types = [], rd_imports = [], rd_exports = [], rd_memories = [], rd_start = False\<rparr>
         (wm_payloads w)) (\<lambda>r.
     and_then (each (read_export r) [] (map Inr (rd_exports r))) (\<lambda>exports.
       Inr \<lparr>in_imports = rd_imports r, in_exports = exports, in_defined_memories = rd_memories r, in_has_start = rd_start r,
            in_uses_threads = threads\<rparr>)))"

section \<open>The rules (rules.rs)\<close>

record abi_policy =
  po_declared :: "capability list"
  po_max_memory_pages :: nat

definition sig_of :: "nat \<Rightarrow> nat \<Rightarrow> func_sig" where
  "sig_of params results = \<lparr>fs_params = replicate params VkI32, fs_results = replicate results VkI32\<rparr>"

definition group_sig :: func_sig where "group_sig = sig_of 3 1"
definition reply_len_sig :: func_sig where "reply_len_sig = sig_of 1 1"
definition frame_sig :: func_sig where "frame_sig = sig_of 1 0"

definition required_exports :: "(string \<times> func_sig) list" where
  "required_exports =
     [(''app_alloc'', sig_of 1 1), (''app_free'', sig_of 2 0), (''app_init'', sig_of 2 1), (''app_event'', sig_of 2 0),
      (''app_close'', sig_of 1 1)]"

definition push_once :: "rejection \<Rightarrow> rejection list \<Rightarrow> rejection list" where
  "push_once r out = (if r \<in> set out then out else out @ [r])"

definition expect_func :: "import_kind \<Rightarrow> func_sig \<Rightarrow> string \<Rightarrow> rejection list \<Rightarrow> rejection list" where
  "expect_func kind want name out =
     (case kind of
        IkFunc sig \<Rightarrow> if sig = want then out else push_once (RjWrongImportSignature name) out
      | _ \<Rightarrow> push_once (RjWrongImportKind name) out)"

definition check_memory :: "abi_policy \<Rightarrow> memory_decl \<Rightarrow> rejection list \<Rightarrow> rejection list" where
  "check_memory policy m out =
     (let out = (if md_shared m then push_once RjSharedMemory out else out);
          out = (if md_memory64 m then push_once RjMemory64 out else out)
      in if po_max_memory_pages policy < md_initial_pages m
         then push_once (RjMemoryInitialTooLarge (md_initial_pages m) (po_max_memory_pages policy)) out else out)"

definition check_import :: "abi_policy \<Rightarrow> import_decl \<Rightarrow> rejection list \<Rightarrow> rejection list" where
  "check_import policy imp out =
     (if im_module imp \<noteq> ABI_NAMESPACE then push_once (RjForeignImport (im_module imp) (im_name imp)) out
      else if im_name imp = ''memory'' then
        (case im_kind imp of IkMemory m \<Rightarrow> check_memory policy m out | _ \<Rightarrow> push_once (RjWrongImportKind (im_name imp)) out)
      else if im_name imp = ''reply_len'' then expect_func (im_kind imp) reply_len_sig (im_name imp) out
      else if im_name imp = ''reply_read'' then expect_func (im_kind imp) group_sig (im_name imp) out
      else
        (case from_import_name (im_name imp) of
           None \<Rightarrow> push_once (RjUnknownImport (im_name imp)) out
         | Some g \<Rightarrow>
             let out = expect_func (im_kind imp) group_sig (im_name imp) out
             in if list_ex (\<lambda>c. capability_group c = g) (po_declared policy @ INTRINSIC) then out
                else push_once (RjUndeclaredGroup g) out))"

definition check_imports :: "abi_policy \<Rightarrow> inspection \<Rightarrow> rejection list \<Rightarrow> rejection list" where
  "check_imports policy insp out = fold (check_import policy) (in_imports insp) out"

definition export_named :: "inspection \<Rightarrow> string \<Rightarrow> export_kind option" where
  "export_named insp name = map_option snd (find (\<lambda>(n, _). n = name) (in_exports insp))"

definition check_exports :: "inspection \<Rightarrow> rejection list \<Rightarrow> rejection list" where
  "check_exports insp out =
     (let out = fold (\<lambda>(name, want) out.
            case export_named insp name of
              None \<Rightarrow> out @ [RjMissingExport name]
            | Some k \<Rightarrow> if k = EkFunc want then out else out @ [RjWrongExportSignature name]) required_exports out
      in case export_named insp ''app_frame'' of
           None \<Rightarrow> out
         | Some k \<Rightarrow> if k = EkFunc frame_sig then out else out @ [RjWrongExportSignature ''app_frame''])"

definition verdict_of :: "inspection \<Rightarrow> abi_policy \<Rightarrow> rejection list" where
  "verdict_of insp policy =
     (let out = (if in_uses_threads insp then [RjThreads] else []);
          out = check_imports policy insp out;
          out = (if imported_memory insp = None then out @ [RjMemoryNotImported] else out);
          out = (if in_defined_memories insp \<noteq> [] then out @ [RjMemoryDefined] else out);
          out = (if in_has_start insp then out @ [RjStartFunction] else out)
      in check_exports insp out)"

datatype abi_verdict = Accepted inspection | Rejected "inspection option" "rejection list"

definition check_module :: "wasm_module \<Rightarrow> abi_policy \<Rightarrow> abi_verdict" where
  "check_module w policy =
     (case inspect w of
        Inl reason \<Rightarrow> Rejected None [reason]
      | Inr insp \<Rightarrow>
          let reasons = verdict_of insp policy
          in if reasons = [] then Accepted insp else Rejected (Some insp) reasons)"

section \<open>The tables agree\<close>

text \<open>Names are read back, and every call is admitted only by capabilities that open its own group.\<close>

lemma from_name_name: "from_name (capability_name c) = Some c"
  by (cases c) (simp_all add: from_name_def capability_name_def CAPABILITIES_def)

lemma from_import_name_name: "from_import_name (import_name g) = Some g"
  by (cases g) (simp_all add: from_import_name_def import_name_def group_names_def)

lemma capabilities_distinct: "distinct (map fst CAPABILITIES)"
  by (simp add: CAPABILITIES_def)

lemma capability_listed: "map_of CAPABILITIES c \<noteq> None"
  by (cases c) (simp_all add: CAPABILITIES_def)

lemma opening_iff: "c \<in> set (capabilities_opening g) \<longleftrightarrow> capability_group c = g"
proof -
  obtain n g' where m: "map_of CAPABILITIES c = Some (n, g')" using capability_listed [of c] by auto
  have "(c, x) \<in> set CAPABILITIES \<longleftrightarrow> x = (n, g')" for x
    using m map_of_eq_Some_iff [OF capabilities_distinct, of c x] by auto
  moreover have "c \<in> set (capabilities_opening g) \<longleftrightarrow> (\<exists>x. (c, x) \<in> set CAPABILITIES \<and> snd x = g)"
    unfolding capabilities_opening_def by (auto simp: image_iff)
  ultimately show ?thesis using m by (simp add: capability_group_def)
qed

lemma calls_in_group:
  "\<forall>(g, op, name, granted_by) \<in> set OPS. 0 < op \<and>
     (case granted_by of None \<Rightarrow> g = GrStorage | Some cs \<Rightarrow> cs \<noteq> [] \<and> (\<forall>c \<in> set cs. capability_group c = g))"
  by (simp add: OPS_def capability_group_def CAPABILITIES_def)

section \<open>What is accepted\<close>

definition import_ok :: "abi_policy \<Rightarrow> import_decl \<Rightarrow> bool" where
  "import_ok policy imp \<longleftrightarrow>
     im_module imp = ABI_NAMESPACE \<and>
     (if im_name imp = ''memory'' then
        \<exists>m. im_kind imp = IkMemory m \<and> \<not> md_shared m \<and> \<not> md_memory64 m \<and> md_initial_pages m \<le> po_max_memory_pages policy
      else if im_name imp = ''reply_len'' then im_kind imp = IkFunc (sig_of 1 1)
      else if im_name imp = ''reply_read'' then im_kind imp = IkFunc (sig_of 3 1)
      else im_kind imp = IkFunc (sig_of 3 1) \<and>
        (\<exists>c \<in> set (po_declared policy) \<union> set INTRINSIC. from_import_name (im_name imp) = Some (capability_group c)))"

definition acceptable :: "abi_policy \<Rightarrow> inspection \<Rightarrow> bool" where
  "acceptable policy insp \<longleftrightarrow>
     \<not> in_uses_threads insp \<and> \<not> in_has_start insp \<and> in_defined_memories insp = [] \<and>
     (\<forall>imp \<in> set (in_imports insp). import_ok policy imp) \<and>
     (\<exists>imp \<in> set (in_imports insp). im_name imp = ''memory'') \<and>
     (\<forall>(name, want) \<in> set required_exports. export_named insp name = Some (EkFunc want)) \<and>
     export_named insp ''app_frame'' \<in> {None, Some (EkFunc (sig_of 1 0))}"

lemma push_once_ne [simp]: "push_once r out \<noteq> []"
  by (auto simp: push_once_def)

lemma expect_func_Nil: "expect_func kind want name out = [] \<longleftrightarrow> out = [] \<and> kind = IkFunc want"
  by (auto simp: expect_func_def split: import_kind.split)

lemma check_memory_Nil:
  "check_memory policy m out = [] \<longleftrightarrow>
     out = [] \<and> \<not> md_shared m \<and> \<not> md_memory64 m \<and> md_initial_pages m \<le> po_max_memory_pages policy"
  by (auto simp: check_memory_def Let_def)

lemma check_import_Nil: "check_import policy imp out = [] \<longleftrightarrow> out = [] \<and> import_ok policy imp"
proof (cases "from_import_name (im_name imp)")
  case None
  then show ?thesis
    by (auto simp: check_import_def import_ok_def expect_func_Nil check_memory_Nil reply_len_sig_def group_sig_def
        split: import_kind.split)
next
  case (Some g)
  then show ?thesis
    by (auto simp: check_import_def import_ok_def expect_func_Nil check_memory_Nil reply_len_sig_def group_sig_def Let_def
        list_ex_iff split: import_kind.split)
qed

lemma check_imports_Nil: "check_imports policy insp out = [] \<longleftrightarrow> out = [] \<and> (\<forall>imp \<in> set (in_imports insp). import_ok policy imp)"
proof -
  have "fold (check_import policy) imps out = [] \<longleftrightarrow> out = [] \<and> (\<forall>imp \<in> set imps. import_ok policy imp)" for imps out
    by (induction imps arbitrary: out) (auto simp: check_import_Nil)
  then show ?thesis by (simp add: check_imports_def)
qed

lemma imported_memory_ok:
  assumes "\<forall>imp \<in> set (in_imports insp). import_ok policy imp"
  shows "imported_memory insp \<noteq> None \<longleftrightarrow> (\<exists>imp \<in> set (in_imports insp). im_name imp = ''memory'')"
proof -
  let ?f = "\<lambda>i. case im_kind i of IkMemory m \<Rightarrow> if im_module i = ABI_NAMESPACE then Some m else None | _ \<Rightarrow> None"
  have one: "?f imp \<noteq> None \<longleftrightarrow> im_name imp = ''memory''" if "import_ok policy imp" for imp
    using that by (auto simp: import_ok_def split: import_kind.split if_splits)
  have "List.map_filter ?f imps \<noteq> [] \<longleftrightarrow> (\<exists>imp \<in> set imps. im_name imp = ''memory'')" if "\<forall>imp \<in> set imps. import_ok policy imp" for imps
    using that
  proof (induction imps)
    case (Cons i imps)
    then show ?case using one [of i] by (auto simp: map_filter_simps)
  qed (simp add: map_filter_simps)
  from this [OF assms] show ?thesis by (auto simp: imported_memory_def split: list.split)
qed

lemma check_exports_Nil:
  "check_exports insp out = [] \<longleftrightarrow>
     out = [] \<and> (\<forall>(name, want) \<in> set required_exports. export_named insp name = Some (EkFunc want)) \<and>
     export_named insp ''app_frame'' \<in> {None, Some (EkFunc (sig_of 1 0))}"
proof -
  let ?f = "\<lambda>(name, want) out. case export_named insp name of
      None \<Rightarrow> out @ [RjMissingExport name]
    | Some k \<Rightarrow> if k = EkFunc want then out else out @ [RjWrongExportSignature name]"
  have "fold ?f es out = [] \<longleftrightarrow> out = [] \<and> (\<forall>(name, want) \<in> set es. export_named insp name = Some (EkFunc want))" for es out
    by (induction es arbitrary: out) (auto split: option.splits if_splits)
  then show ?thesis by (auto simp: check_exports_def frame_sig_def Let_def split: option.split)
qed

section \<open>What a module's bytes declare\<close>

text \<open>
  The specification of reading, from the sections alone: a section is readable when it is not the
  header of a component and every item in it reads; the types, the function index space, the
  exports and the memories are those of all sections in order; an import of a function refers to
  the types of the sections before it, an export of one to all of them.
\<close>

definition readable_items :: "(string + 'a) list \<Rightarrow> bool" where "readable_items xs \<longleftrightarrow> list_all (\<lambda>x. \<not> isl x) xs"

definition readable :: "payload \<Rightarrow> bool" where
  "readable q \<longleftrightarrow>
     (case q of
        PlComponent \<Rightarrow> False
      | PlTypes ts \<Rightarrow> readable_items ts
      | PlImports is \<Rightarrow> readable_items is
      | PlFunctions fs \<Rightarrow> readable_items fs
      | PlMemories ms \<Rightarrow> readable_items ms
      | PlExports es \<Rightarrow> readable_items es
      | _ \<Rightarrow> True)"

definition types_in :: "payload \<Rightarrow> func_sig option list" where
  "types_in q = (case q of PlTypes ts \<Rightarrow> map projr ts | _ \<Rightarrow> [])"

definition imports_in :: "payload \<Rightarrow> (string \<times> string \<times> type_ref) list" where
  "imports_in q = (case q of PlImports is \<Rightarrow> map projr is | _ \<Rightarrow> [])"

definition funcs_in :: "payload \<Rightarrow> nat list" where
  "funcs_in q =
     (case q of PlFunctions fs \<Rightarrow> map projr fs
      | _ \<Rightarrow> concat (map (\<lambda>(_, _, ty). case ty of TrFunc t \<Rightarrow> [t] | _ \<Rightarrow> []) (imports_in q)))"

definition memories_in :: "payload \<Rightarrow> memory_decl list" where
  "memories_in q = (case q of PlMemories ms \<Rightarrow> map projr ms | _ \<Rightarrow> [])"

definition exports_in :: "payload \<Rightarrow> (string \<times> external_kind \<times> nat) list" where
  "exports_in q = (case q of PlExports es \<Rightarrow> map projr es | _ \<Rightarrow> [])"

definition type_named :: "func_sig option list \<Rightarrow> nat \<Rightarrow> func_sig option" where
  "type_named ts t = (if t < length ts then ts ! t else None)"

definition import_declared :: "func_sig option list \<Rightarrow> string \<times> string \<times> type_ref \<Rightarrow> import_decl option" where
  "import_declared ts i =
     (case i of (module, name, ty) \<Rightarrow>
        map_option (\<lambda>kind. \<lparr>im_module = module, im_name = name, im_kind = kind\<rparr>)
          (case ty of
             TrFunc t \<Rightarrow> map_option IkFunc (type_named ts t)
           | TrMemory m \<Rightarrow> Some (IkMemory m)
           | TrTable \<Rightarrow> Some IkTable
           | TrGlobal \<Rightarrow> Some IkGlobal
           | TrTag \<Rightarrow> Some IkTag))"

fun imports_declared :: "func_sig option list \<Rightarrow> payload list \<Rightarrow> import_decl option list" where
  "imports_declared ts [] = []"
| "imports_declared ts (q # qs) = map (import_declared ts) (imports_in q) @ imports_declared (ts @ types_in q) qs"

definition export_declared :: "func_sig option list \<Rightarrow> nat list \<Rightarrow> string \<times> external_kind \<times> nat \<Rightarrow> (string \<times> export_kind) option" where
  "export_declared ts fs e =
     (case e of (name, kind, i) \<Rightarrow>
        map_option (Pair name)
          (case kind of
             XkFunc \<Rightarrow> if i < length fs then map_option EkFunc (type_named ts (fs ! i)) else None
           | XkMemory \<Rightarrow> Some EkMemory
           | XkTable \<Rightarrow> Some EkTable
           | XkGlobal \<Rightarrow> Some EkGlobal
           | XkTag \<Rightarrow> Some EkTag))"

definition declares :: "payload list \<Rightarrow> inspection \<Rightarrow> bool" where
  "declares qs insp \<longleftrightarrow>
     imports_declared [] qs = map Some (in_imports insp) \<and>
     map (export_declared (concat (map types_in qs)) (concat (map funcs_in qs))) (concat (map exports_in qs)) =
       map Some (in_exports insp) \<and>
     in_defined_memories insp = concat (map memories_in qs) \<and> (in_has_start insp \<longleftrightarrow> PlStart \<in> set qs)"

subsection \<open>Reading follows the specification\<close>

lemma readable_items_simps [simp]:
  "readable_items []" "\<not> readable_items (Inl e # xs)" "readable_items (Inr x # xs) \<longleftrightarrow> readable_items xs"
  by (simp_all add: readable_items_def)

lemma each_total: "each (\<lambda>r x. Inr (f x r)) r xs = Inr r' \<longleftrightarrow> readable_items xs \<and> r' = fold f (map projr xs) r"
proof (induction xs arbitrary: r)
  case (Cons x xs)
  then show ?case by (cases x) auto
qed auto

lemma fold_appends:
  "fold (\<lambda>t r. r\<lparr>rd_types := rd_types r @ [t]\<rparr>) ts r = r\<lparr>rd_types := rd_types r @ ts\<rparr>"
  "fold (\<lambda>t r. r\<lparr>rd_func_types := rd_func_types r @ [t]\<rparr>) fs r = r\<lparr>rd_func_types := rd_func_types r @ fs\<rparr>"
  "fold (\<lambda>m r. r\<lparr>rd_memories := rd_memories r @ [m]\<rparr>) ms r = r\<lparr>rd_memories := rd_memories r @ ms\<rparr>"
  "fold (\<lambda>e r. r\<lparr>rd_exports := rd_exports r @ [e]\<rparr>) es r = r\<lparr>rd_exports := rd_exports r @ es\<rparr>"
proof -
  show "fold (\<lambda>t r. r\<lparr>rd_types := rd_types r @ [t]\<rparr>) ts r = r\<lparr>rd_types := rd_types r @ ts\<rparr>"
    by (induction ts arbitrary: r) simp_all
  show "fold (\<lambda>t r. r\<lparr>rd_func_types := rd_func_types r @ [t]\<rparr>) fs r = r\<lparr>rd_func_types := rd_func_types r @ fs\<rparr>"
    by (induction fs arbitrary: r) simp_all
  show "fold (\<lambda>m r. r\<lparr>rd_memories := rd_memories r @ [m]\<rparr>) ms r = r\<lparr>rd_memories := rd_memories r @ ms\<rparr>"
    by (induction ms arbitrary: r) simp_all
  show "fold (\<lambda>e r. r\<lparr>rd_exports := rd_exports r @ [e]\<rparr>) es r = r\<lparr>rd_exports := rd_exports r @ es\<rparr>"
    by (induction es arbitrary: r) simp_all
qed

lemma sig_at_Inr: "sig_at ts t = Inr sig \<longleftrightarrow> type_named ts t = Some sig"
  by (auto simp: sig_at_def type_named_def split: option.split)

lemma sig_at_Inl: "sig_at ts t = Inl e \<Longrightarrow> type_named ts t = None"
  by (auto simp: sig_at_def type_named_def split: if_splits option.splits)

definition add_imports :: "(string \<times> string \<times> type_ref) list \<Rightarrow> reading \<Rightarrow> reading" where
  "add_imports is r =
     r\<lparr>rd_func_types := rd_func_types r @ concat (map (\<lambda>(_, _, ty). case ty of TrFunc t \<Rightarrow> [t] | _ \<Rightarrow> []) is),
       rd_imports := rd_imports r @ map (\<lambda>i. the (import_declared (rd_types r) i)) is\<rparr>"

lemma read_import_Inr:
  "read_import r i = Inr r' \<longleftrightarrow> import_declared (rd_types r) i \<noteq> None \<and> r' = add_imports [i] r"
proof -
  obtain module name ty where i: "i = (module, name, ty)" by (cases i)
  show ?thesis
  proof (cases ty)
    case (TrFunc t)
    then show ?thesis
      by (cases "sig_at (rd_types r) t")
        (auto simp: i read_import_def Let_def import_declared_def add_imports_def sig_at_Inr dest: sig_at_Inl)
  qed (auto simp: i read_import_def Let_def import_declared_def add_imports_def)
qed

lemma add_imports_Cons: "add_imports is (add_imports [i] r) = add_imports (i # is) r"
  by (simp add: add_imports_def)

lemma read_imports:
  "each read_import r is = Inr r' \<longleftrightarrow>
     readable_items is \<and> (\<forall>i \<in> set (map projr is). import_declared (rd_types r) i \<noteq> None) \<and> r' = add_imports (map projr is) r"
proof (induction "is" arbitrary: r)
  case (Cons i "is")
  show ?case
  proof (cases i)
    case (Inr x)
    have same: "rd_types (add_imports [x] r) = rd_types r" by (simp add: add_imports_def)
    show ?thesis
    proof (cases "read_import r x")
      case (Inl e)
      then have "import_declared (rd_types r) x = None" using read_import_Inr [of r x "add_imports [x] r"] by auto
      with Inr Inl show ?thesis by simp
    next
      case (Inr r1)
      with read_import_Inr [of r x r1] have "import_declared (rd_types r) x \<noteq> None" "r1 = add_imports [x] r" by simp_all
      with Inr Cons [of r1] \<open>i = Inr x\<close> show ?thesis by (simp add: same add_imports_Cons)
    qed
  qed simp
qed (auto simp: add_imports_def)

definition read_after :: "payload list \<Rightarrow> reading \<Rightarrow> reading" where
  "read_after qs r =
     r\<lparr>rd_types := rd_types r @ concat (map types_in qs),
       rd_func_types := rd_func_types r @ concat (map funcs_in qs),
       rd_imports := rd_imports r @ map the (imports_declared (rd_types r) qs),
       rd_exports := rd_exports r @ concat (map exports_in qs),
       rd_memories := rd_memories r @ concat (map memories_in qs),
       rd_start := rd_start r \<or> PlStart \<in> set qs\<rparr>"

lemma read_payload_Inr:
  "read_payload r q = Inr r' \<longleftrightarrow>
     readable q \<and> (\<forall>i \<in> set (imports_in q). import_declared (rd_types r) i \<noteq> None) \<and> r' = read_after [q] r"
  by (cases q)
    (auto simp: read_payload_def readable_def read_after_def types_in_def imports_in_def funcs_in_def memories_in_def
      exports_in_def each_total fold_appends read_imports add_imports_def comp_def)

lemma read_after_Cons: "read_after qs (read_after [q] r) = read_after (q # qs) r"
  by (simp add: read_after_def)

lemma none_map: "None \<notin> set (map f xs) \<longleftrightarrow> (\<forall>x \<in> set xs. f x \<noteq> None)"
proof (induction xs)
  case (Cons x xs)
  then show ?case by (cases "f x") auto
qed simp

lemma read_payloads:
  "each read_payload r ps = Inr r' \<longleftrightarrow>
     (\<exists>qs. ps = map Inr qs \<and> list_all readable qs \<and> None \<notin> set (imports_declared (rd_types r) qs) \<and> r' = read_after qs r)"
proof (induction ps arbitrary: r)
  case Nil
  show ?case by (auto simp: read_after_def)
next
  case (Cons p ps)
  show ?case
  proof (cases p)
    case (Inl e)
    then show ?thesis by auto
  next
    case (Inr q)
    have types: "rd_types (read_after [q] r) = rd_types r @ types_in q" by (simp add: read_after_def)
    have none: "None \<notin> set (imports_declared ts (q # qs)) \<longleftrightarrow>
        (\<forall>i \<in> set (imports_in q). import_declared ts i \<noteq> None) \<and> None \<notin> set (imports_declared (ts @ types_in q) qs)" for ts qs
      unfolding imports_declared.simps set_append Un_iff de_Morgan_disj none_map ..
    have "each read_payload r (p # ps) = Inr r' \<longleftrightarrow>
        readable q \<and> (\<forall>i \<in> set (imports_in q). import_declared (rd_types r) i \<noteq> None) \<and>
        each read_payload (read_after [q] r) ps = Inr r'"
    proof (cases "read_payload r q")
      case (Inl e)
      with read_payload_Inr [of r q "read_after [q] r"] \<open>p = Inr q\<close> show ?thesis by auto
    next
      case (Inr r1)
      with read_payload_Inr [of r q r1] \<open>p = Inr q\<close> show ?thesis by auto
    qed
    also have "\<dots> \<longleftrightarrow> (\<exists>qs. ps = map Inr qs \<and> list_all readable (q # qs) \<and>
        None \<notin> set (imports_declared (rd_types r) (q # qs)) \<and> r' = read_after (q # qs) r)"
      unfolding Cons.IH types read_after_Cons none by auto
    also have "\<dots> \<longleftrightarrow> (\<exists>qs. p # ps = map Inr qs \<and> list_all readable qs \<and>
        None \<notin> set (imports_declared (rd_types r) qs) \<and> r' = read_after qs r)"
      unfolding Inr by (auto simp: Cons_eq_map_conv)
    finally show ?thesis .
  qed
qed

lemma read_exports:
  "each (read_export r) out (map Inr es) = Inr out' \<longleftrightarrow>
     None \<notin> set (map (export_declared (rd_types r) (rd_func_types r)) es) \<and>
     out' = out @ map (\<lambda>e. the (export_declared (rd_types r) (rd_func_types r) e)) es"
proof (induction es arbitrary: out)
  case (Cons e es)
  obtain name kind i where e: "e = (name, kind, i)" by (cases e)
  have one: "read_export r out e = Inr out1 \<longleftrightarrow> export_declared (rd_types r) (rd_func_types r) e \<noteq> None \<and>
      out1 = out @ [the (export_declared (rd_types r) (rd_func_types r) e)]" for out1
  proof (cases kind)
    case XkFunc
    then show ?thesis
      by (cases "sig_at (rd_types r) (rd_func_types r ! i)")
        (auto simp: e read_export_def export_declared_def sig_at_Inr dest: sig_at_Inl)
  qed (auto simp: e read_export_def export_declared_def)
  show ?case
  proof (cases "read_export r out e")
    case (Inl x)
    with one [of "out @ [the (export_declared (rd_types r) (rd_func_types r) e)]"]
    show ?thesis by (cases "export_declared (rd_types r) (rd_func_types r) e") auto
  next
    case (Inr out1)
    with one [of out1] Cons [of out1] show ?thesis by auto
  qed
qed auto

lemma map_Some_iff: "map Some ys = xs \<longleftrightarrow> None \<notin> set xs \<and> ys = map the xs"
proof (induction xs arbitrary: ys)
  case (Cons x xs)
  show ?case using Cons by (cases ys; cases x) auto
qed simp

text \<open>Reading yields a boundary exactly when there is one, and it is the declared one.\<close>

lemma inspect_Inr:
  "inspect w = Inr insp \<longleftrightarrow>
     uses_threads w = Inr (in_uses_threads insp) \<and>
     (\<exists>qs. wm_payloads w = map Inr qs \<and> list_all readable qs \<and> declares qs insp)"
proof -
  let ?r0 = "\<lparr>rd_types = [], rd_func_types = [], rd_imports = [], rd_exports = [], rd_memories = [], rd_start = False\<rparr>"
  have "inspect w = Inr insp \<longleftrightarrow>
      (\<exists>t r exports. uses_threads w = Inr t \<and> each read_payload ?r0 (wm_payloads w) = Inr r \<and>
        each (read_export r) [] (map Inr (rd_exports r)) = Inr exports \<and>
        insp = \<lparr>in_imports = rd_imports r, in_exports = exports, in_defined_memories = rd_memories r,
          in_has_start = rd_start r, in_uses_threads = t\<rparr>)"
    unfolding inspect_def
    by (cases "uses_threads w"; cases "each read_payload ?r0 (wm_payloads w)") (auto split: sum.splits elim!: and_thenE)
  also have "\<dots> \<longleftrightarrow> uses_threads w = Inr (in_uses_threads insp) \<and>
      (\<exists>qs. wm_payloads w = map Inr qs \<and> list_all readable qs \<and> declares qs insp)"
    unfolding read_payloads read_exports declares_def
    by (cases insp) (auto simp: read_after_def eq_commute [of _ "map Some _"] map_Some_iff comp_def)
  finally show ?thesis .
qed

text \<open>
  C36. A module is accepted exactly when it may run, and with the boundary its sections declare. The validator
  takes it without threads; every section and every item of one reads, and it is no component; what is
  reported are all the imports of all its import sections and all its exports, each function with the
  signature its type index names, its memories and whether it has a start function; it has no start function
  and no memory of its own; everything it imports is the ABI's memory, unshared, 32-bit and within the
  ceiling, a reply function, or the function of a group that a declared or intrinsic capability opens, with
  the right signature; and it exports every required function with its signature.
\<close>

theorem abi_accepts_exactly:
  "check_module w policy = Accepted insp \<longleftrightarrow>
     wm_valid w = Inr () \<and> \<not> in_uses_threads insp \<and>
     (\<exists>qs. wm_payloads w = map Inr qs \<and> list_all readable qs \<and> declares qs insp) \<and>
     acceptable policy insp"
proof -
  have "verdict_of insp policy = [] \<longleftrightarrow> acceptable policy insp" for insp
    using imported_memory_ok [of insp policy]
    by (auto simp: verdict_of_def acceptable_def check_exports_Nil check_imports_Nil Let_def)
  then have "check_module w policy = Accepted insp \<longleftrightarrow> inspect w = Inr insp \<and> acceptable policy insp"
    by (auto simp: check_module_def Let_def split: sum.split)
  moreover have "uses_threads w = Inr False \<longleftrightarrow> wm_valid w = Inr ()"
    by (auto simp: uses_threads_def split: sum.split)
  ultimately show ?thesis unfolding inspect_Inr by (auto simp: acceptable_def)
qed

text \<open>A call an install may make is one whose group the accepted module may import.\<close>

lemma granted_call_importable:
  assumes "(g, op, name, Some cs) \<in> set OPS" and "is_granted (\<lambda>c. c \<in> set (po_declared policy) \<union> set INTRINSIC) cs"
  shows "import_ok policy \<lparr>im_module = ABI_NAMESPACE, im_name = import_name g, im_kind = IkFunc (sig_of 3 1)\<rparr>"
proof -
  from assms(2) obtain c where c: "c \<in> set cs" "c \<in> set (po_declared policy) \<union> set INTRINSIC"
    by (auto simp: is_granted_def list_ex_iff)
  have "capability_group c = g" using calls_in_group assms(1) c(1) by fastforce
  moreover have "import_name g \<noteq> ''memory''" "import_name g \<noteq> ''reply_len''" "import_name g \<noteq> ''reply_read''"
    by (cases g; simp add: import_name_def group_names_def)+
  ultimately show ?thesis using c(2) from_import_name_name [of g] by (auto simp: import_ok_def)
qed

section \<open>The lifecycle ends\<close>

fun lifecycle_run :: "lifecycle_state \<Rightarrow> lifecycle_step list \<Rightarrow> lifecycle_state option" where
  "lifecycle_run s [] = Some s"
| "lifecycle_run s (e # es) = Option.bind (after_step s e) (\<lambda>s. lifecycle_run s es)"

fun stage :: "lifecycle_state \<Rightarrow> nat" where
  "stage LsCreated = 0" | "stage LsInitialised = 1" | "stage LsRunning = 2" | "stage LsSuspended = 2"
| "stage LsClosing = 3" | "stage LsClosed = 4"

lemma stage_step: "after_step s e = Some s' \<Longrightarrow> (if e = StSuspend \<or> e = StResume then stage s' = stage s else stage s < stage s')"
  by (cases s; cases e) (auto simp: after_step_def)

text \<open>An instance takes at most four steps besides being suspended and resumed, and none once it is closed.\<close>

lemma lifecycle_ends:
  "lifecycle_run s es = Some s' \<Longrightarrow> stage s + length (filter (\<lambda>e. e \<noteq> StSuspend \<and> e \<noteq> StResume) es) \<le> stage s'"
proof (induction es arbitrary: s)
  case (Cons e es)
  then obtain s1 where "after_step s e = Some s1" "lifecycle_run s1 es = Some s'" by auto
  with Cons.IH [of s1] stage_step [of s e s1] show ?case by (auto split: if_splits)
qed simp

end
