(* ===== verification/Release_Signature.thy ===== *)
theory Release_Signature
  imports Byte_Strings
begin

text \<open>
  The signature on a release asset (\<^verbatim>\<open>citadel-release-signature/src/lib.rs\<close>): the message
  that is signed, the reading of keys and signatures, and their verification. The \<^verbatim>\<open>hex\<close> and
  \<^verbatim>\<open>ml_dsa\<close> crates are parameters. Strings are their UTF-8 bytes, as are the signed bytes.
\<close>

section \<open>Trimming (str::trim)\<close>

text \<open>The characters of Unicode's White_Space property, as UTF-8.\<close>

definition white_space :: "string list" where
  "white_space =
     [[CHR 0x09], [CHR 0x0A], [CHR 0x0B], [CHR 0x0C], [CHR 0x0D], [CHR 0x20],
      [CHR 0xC2, CHR 0x85], [CHR 0xC2, CHR 0xA0], [CHR 0xE1, CHR 0x9A, CHR 0x80],
      [CHR 0xE2, CHR 0x80, CHR 0x80], [CHR 0xE2, CHR 0x80, CHR 0x81], [CHR 0xE2, CHR 0x80, CHR 0x82],
      [CHR 0xE2, CHR 0x80, CHR 0x83], [CHR 0xE2, CHR 0x80, CHR 0x84], [CHR 0xE2, CHR 0x80, CHR 0x85],
      [CHR 0xE2, CHR 0x80, CHR 0x86], [CHR 0xE2, CHR 0x80, CHR 0x87], [CHR 0xE2, CHR 0x80, CHR 0x88],
      [CHR 0xE2, CHR 0x80, CHR 0x89], [CHR 0xE2, CHR 0x80, CHR 0x8A], [CHR 0xE2, CHR 0x80, CHR 0xA8],
      [CHR 0xE2, CHR 0x80, CHR 0xA9], [CHR 0xE2, CHR 0x80, CHR 0xAF], [CHR 0xE2, CHR 0x81, CHR 0x9F],
      [CHR 0xE3, CHR 0x80, CHR 0x80]]"

fun strip_any :: "string list \<Rightarrow> string \<Rightarrow> string option" where
  "strip_any [] s = None"
| "strip_any (w # ws) s =
     (if w \<noteq> [] \<and> take (length w) s = w then Some (drop (length w) s) else strip_any ws s)"

lemma strip_any_shorter: "strip_any ws s = Some t \<Longrightarrow> length t < length s"
proof (induction ws s rule: strip_any.induct)
  case (2 w ws s)
  show ?case
  proof (cases "w \<noteq> [] \<and> take (length w) s = w")
    case True
    then have "length w \<le> length s" by (metis length_take min.absorb_iff1 min.commute)
    moreover from True have "0 < length w" by simp
    moreover from 2(2) True have "length t = length s - length w" by auto
    ultimately show ?thesis by linarith
  next
    case False
    with 2 show ?thesis by auto
  qed
qed simp

function strip_all :: "string list \<Rightarrow> string \<Rightarrow> string" where
  "strip_all ws s = (case strip_any ws s of Some t \<Rightarrow> strip_all ws t | None \<Rightarrow> s)"
  by pat_completeness auto

termination by (relation "measure (\<lambda>(_, s). length s)") (auto dest: strip_any_shorter)

declare strip_all.simps [simp del]

definition trim_start :: "string \<Rightarrow> string" where "trim_start s = strip_all white_space s"
definition trim_end :: "string \<Rightarrow> string" where "trim_end s = rev (strip_all (map rev white_space) (rev s))"
definition trim :: "string \<Rightarrow> string" where "trim s = trim_start (trim_end s)"

section \<open>Messages and keys\<close>

definition DOMAIN :: string where "DOMAIN = ''citadel-agent-release-v1'' @ [CHR 0x00]"
definition SIGNATURE_SUFFIX :: string where "SIGNATURE_SUFFIX = ''.mldsa.sig''"
definition PLACEHOLDER_PUBLIC_KEY :: string where
  "PLACEHOLDER_PUBLIC_KEY =
     ''PLACEHOLDER: no release key yet. Replace this line with the public key `release-sign keygen` prints.''"
definition PUBLIC_KEY_LEN :: nat where "PUBLIC_KEY_LEN = 1952"
definition SIGNATURE_LEN :: nat where "SIGNATURE_LEN = 3309"

datatype sign_refusal =
  PlaceholderKey | MalformedKey string | MalformedSignature string | BadField string | InvalidSignature

text \<open>The crates: hex decoding into a slice, and ML-DSA-65's keys, signatures and verification.\<close>

record ('k, 's) mldsa =
  hex_decode :: "string \<Rightarrow> string + string"
  key_decode :: "string \<Rightarrow> string + 'k"
  signature_decode :: "string \<Rightarrow> string + 's"
  key_verify :: "'k \<Rightarrow> string \<Rightarrow> 's \<Rightarrow> bool"

definition field_ok :: "string \<Rightarrow> bool" where
  "field_ok value \<longleftrightarrow> value \<noteq> [] \<and> CHR 0x00 \<notin> set value"

definition signed_message :: "string \<Rightarrow> string \<Rightarrow> string \<Rightarrow> sign_refusal + string" where
  "signed_message tag asset_name sha256 =
     (if \<not> field_ok tag then Inl (BadField tag)
      else if \<not> field_ok asset_name then Inl (BadField asset_name)
      else Inr (DOMAIN @ tag @ [CHR 0x00] @ asset_name @ [CHR 0x00] @ sha256))"

definition decode_exact :: "('k, 's) mldsa \<Rightarrow> nat \<Rightarrow> string \<Rightarrow> string + string" where
  "decode_exact c n s =
     (if length s \<noteq> n * 2 then Inl ''hex characters''
      else hex_decode c s)"

definition map_err :: "('a \<Rightarrow> 'b) \<Rightarrow> 'a + 'r \<Rightarrow> 'b + 'r" where
  "map_err f r = (case r of Inl e \<Rightarrow> Inl (f e) | Inr x \<Rightarrow> Inr x)"

definition sha256_from_hex :: "('k, 's) mldsa \<Rightarrow> string \<Rightarrow> sign_refusal + string" where
  "sha256_from_hex c s = map_err BadField (decode_exact c 32 (trim s))"

definition parse_public_key :: "('k, 's) mldsa \<Rightarrow> string \<Rightarrow> sign_refusal + 'k" where
  "parse_public_key c s =
     (let s = trim s
      in if s = trim PLACEHOLDER_PUBLIC_KEY \<or> starts_with s ''PLACEHOLDER'' then Inl PlaceholderKey
         else and_then (map_err MalformedKey (decode_exact c PUBLIC_KEY_LEN s)) (\<lambda>bytes.
                map_err MalformedKey (key_decode c bytes)))"

definition verify :: "('k, 's) mldsa \<Rightarrow> string \<Rightarrow> string \<Rightarrow> string \<Rightarrow> string \<Rightarrow> string \<Rightarrow> sign_refusal + unit" where
  "verify c public_key tag asset_name sha256 signature =
     and_then (parse_public_key c public_key) (\<lambda>key.
     and_then (signed_message tag asset_name sha256) (\<lambda>message.
     and_then (map_err MalformedSignature (decode_exact c SIGNATURE_LEN (trim signature))) (\<lambda>bytes.
     and_then (map_err MalformedSignature (signature_decode c bytes)) (\<lambda>sig.
       if key_verify c key message sig then Inr () else Inl InvalidSignature))))"

section \<open>Binding\<close>

lemma map_err_Inr [simp]: "map_err f r = Inr x \<longleftrightarrow> r = Inr x"
  by (cases r) (simp_all add: map_err_def)

lemma split_at_nul:
  "CHR 0x00 \<notin> set a \<Longrightarrow> CHR 0x00 \<notin> set b \<Longrightarrow> a @ CHR 0x00 # x = b @ CHR 0x00 # y \<Longrightarrow> a = b \<and> x = y"
proof (induction a arbitrary: b)
  case Nil
  then show ?case by (cases b) simp_all
next
  case (Cons c a)
  then show ?case by (cases b) auto
qed

lemma signed_message_inject:
  assumes "signed_message tag name d = Inr m" and "signed_message tag' name' d' = Inr m"
  shows "tag = tag' \<and> name = name' \<and> d = d'"
proof -
  from assms have ok: "field_ok tag" "field_ok name" "field_ok tag'" "field_ok name'"
      and eq: "tag @ CHR 0x00 # (name @ CHR 0x00 # d) = tag' @ CHR 0x00 # (name' @ CHR 0x00 # d')"
    by (auto simp: signed_message_def split: if_splits)
  from split_at_nul [OF _ _ eq] ok have "tag = tag'" and eq': "name @ CHR 0x00 # d = name' @ CHR 0x00 # d'"
    by (auto simp: field_ok_def)
  from split_at_nul [OF _ _ eq'] ok \<open>tag = tag'\<close> show ?thesis by (auto simp: field_ok_def)
qed

lemma verifyE:
  assumes "verify c public_key tag name d signature = Inr ()"
  obtains key m bytes sig where "parse_public_key c public_key = Inr key" "signed_message tag name d = Inr m"
    "decode_exact c SIGNATURE_LEN (trim signature) = Inr bytes" "signature_decode c bytes = Inr sig"
    "key_verify c key m sig"
  using assms by (auto simp: verify_def split: if_splits)

lemma placeholder_refused:
  "starts_with (trim public_key) ''PLACEHOLDER'' \<Longrightarrow> verify c public_key tag name d signature = Inl PlaceholderKey"
  by (simp add: verify_def parse_public_key_def Let_def)

section \<open>Properties\<close>

text \<open>
  C22. A signature cannot be moved: if two accepted uses of a release key checked the same signed
  bytes, they were for the same tag, the same asset name and the same digest; an accepted use
  checked exactly the message of its own tag, name and digest, with the signature it was given, against the embedded key, both
  fields non-empty and free of NUL; and with the placeholder for a key nothing is accepted.
\<close>

theorem release_signature_binds:
  assumes "verify c public_key tag name d signature = Inr ()"
  shows "field_ok tag \<and> field_ok name \<and> \<not> starts_with (trim public_key) ''PLACEHOLDER'' \<and>
    length (trim signature) = 6618 \<and>
    (\<exists>key bytes sig m. parse_public_key c public_key = Inr key \<and> signed_message tag name d = Inr m \<and>
       decode_exact c SIGNATURE_LEN (trim signature) = Inr bytes \<and> signature_decode c bytes = Inr sig \<and> key_verify c key m sig \<and>
       (\<forall>tag' name' d'. signed_message tag' name' d' = Inr m \<longrightarrow> tag' = tag \<and> name' = name \<and> d' = d))"
proof -
  from assms obtain key m bytes sig where v: "parse_public_key c public_key = Inr key" "signed_message tag name d = Inr m"
      "decode_exact c SIGNATURE_LEN (trim signature) = Inr bytes" "signature_decode c bytes = Inr sig" "key_verify c key m sig"
    by (rule verifyE)
  have "field_ok tag \<and> field_ok name" using v(2) by (auto simp: signed_message_def split: if_splits)
  moreover have "\<not> starts_with (trim public_key) ''PLACEHOLDER''" using assms placeholder_refused [of public_key c tag name d signature] by auto
  moreover have "length (trim signature) = 6618"
    using v(3) by (auto simp: decode_exact_def SIGNATURE_LEN_def split: if_splits)
  ultimately show ?thesis using v signed_message_inject [OF _ v(2)] by blast
qed

text \<open>A toy crate for evaluation: hex pairs are kept as text, every key accepts the signature it is.\<close>

definition toy_mldsa :: "(string, string) mldsa" where
  "toy_mldsa = \<lparr>hex_decode = Inr, key_decode = Inr, signature_decode = Inr, key_verify = (\<lambda>k m s. True)\<rparr>"

lemma strip_all_none: "strip_any ws s = None \<Longrightarrow> strip_all ws s = s"
  by (subst strip_all.simps) simp

lemma trim_replicate: "trim (replicate n (CHR ''a'')) = replicate n (CHR ''a'')"
proof -
  have "strip_any white_space (CHR ''a'' # s) = None" "strip_any (map rev white_space) (CHR ''a'' # s) = None"
      "strip_any white_space [] = None" "strip_any (map rev white_space) [] = None" for s
    by (simp_all add: white_space_def)
  then have "strip_all white_space (replicate n (CHR ''a'')) = replicate n (CHR ''a'')"
      "strip_all (map rev white_space) (replicate n (CHR ''a'')) = replicate n (CHR ''a'')"
    by (cases n; simp add: strip_all_none)+
  then show ?thesis by (simp add: trim_def trim_start_def trim_end_def)
qed

lemma toy_verify:
  assumes "field_ok tag" and "field_ok name"
  shows "verify toy_mldsa (replicate 3904 (CHR ''a'')) tag name d (replicate 6618 (CHR ''a'')) = Inr ()"
proof -
  have p: "trim (replicate 3904 (CHR ''a'')) \<noteq> trim PLACEHOLDER_PUBLIC_KEY"
    unfolding trim_replicate
  proof
    assume "replicate 3904 (CHR ''a'') = trim PLACEHOLDER_PUBLIC_KEY"
    moreover have "trim PLACEHOLDER_PUBLIC_KEY = PLACEHOLDER_PUBLIC_KEY"
      by (simp add: trim_def trim_start_def trim_end_def PLACEHOLDER_PUBLIC_KEY_def strip_all_none white_space_def)
    ultimately have "hd (replicate 3904 (CHR ''a'')) = hd PLACEHOLDER_PUBLIC_KEY" by simp
    then show False by (simp add: PLACEHOLDER_PUBLIC_KEY_def)
  qed
  have s: "\<not> starts_with (replicate 3904 (CHR ''a'')) ''PLACEHOLDER''"
    by (simp add: starts_with_def numeral_eq_Suc)
  show ?thesis
    using p s assms unfolding verify_def parse_public_key_def Let_def
    by (simp add: trim_replicate decode_exact_def toy_mldsa_def PUBLIC_KEY_LEN_def SIGNATURE_LEN_def map_err_def
        signed_message_def)
qed

theorem release_signature_binds_witness:
  "verify toy_mldsa (replicate 3904 (CHR ''a'')) ''agent-v1.0.0'' ''Citadel-Agent.dmg'' ''d'' (replicate 6618 (CHR ''a'')) = Inr () \<and>
   field_ok ''agent-v1.0.0''"
proof -
  have v: "verify toy_mldsa (replicate 3904 (CHR ''a'')) ''agent-v1.0.0'' ''Citadel-Agent.dmg'' ''d''
      (replicate 6618 (CHR ''a'')) = Inr ()"
    by (rule toy_verify) (simp_all add: field_ok_def)
  with release_signature_binds [OF v] show ?thesis by blast
qed

end
