(* ===== verification/App_Signature.thy ===== *)
theory App_Signature
  imports App_Id Release_Signature
begin

text \<open>
  The signature a publisher makes over an app (\<^verbatim>\<open>citadel-app-signature/src/lib.rs\<close>), over the same
  crates as a release's signature (theory \<^verbatim>\<open>Release_Signature\<close>), with signing and the hash as further
  arguments. A digest is its 32 bytes.
\<close>

definition APP_DOMAIN :: string where "APP_DOMAIN = ''citadel-app-v1'' @ [CHR 0x00]"
definition SEED_LEN :: nat where "SEED_LEN = 32"
definition FINGERPRINT_HEX_CHARS :: nat where "FINGERPRINT_HEX_CHARS = 16"

record artifact_digests =
  ad_manifest :: string
  ad_wasm :: string

definition digests_of :: "(string \<Rightarrow> string) \<Rightarrow> string \<Rightarrow> string \<Rightarrow> artifact_digests" where
  "digests_of sha256 manifest wasm = \<lparr>ad_manifest = sha256 manifest, ad_wasm = sha256 wasm\<rparr>"

definition app_signed_message :: "string \<Rightarrow> string \<Rightarrow> artifact_digests \<Rightarrow> sign_refusal + string" where
  "app_signed_message app_id version digests =
     and_then (map_err (\<lambda>_. BadField app_id) (validate_app_id app_id)) (\<lambda>_.
     and_then (map_err (\<lambda>_. BadField version) (version_parse version)) (\<lambda>_.
       Inr (APP_DOMAIN @ app_id @ [CHR 0x00] @ version @ [CHR 0x00] @ ad_manifest digests @ ad_wasm digests)))"

definition app_sign :: "(string \<Rightarrow> string) \<Rightarrow> ('g \<Rightarrow> string \<Rightarrow> string) \<Rightarrow> 'g \<Rightarrow> string \<Rightarrow> string \<Rightarrow> artifact_digests \<Rightarrow> sign_refusal + string" where
  "app_sign hex sign key app_id version digests =
     and_then (app_signed_message app_id version digests) (\<lambda>message. Inr (hex (sign key message)))"

definition from_seed_hex :: "('k, 's) mldsa \<Rightarrow> (string \<Rightarrow> 'g) \<Rightarrow> string \<Rightarrow> sign_refusal + 'g" where
  "from_seed_hex c from_seed s = and_then (map_err MalformedKey (decode_exact c SEED_LEN (trim s))) (\<lambda>seed. Inr (from_seed seed))"

definition app_public_key :: "('k, 's) mldsa \<Rightarrow> string \<Rightarrow> sign_refusal + 'k" where
  "app_public_key c s =
     and_then (map_err MalformedKey (decode_exact c PUBLIC_KEY_LEN (trim s))) (\<lambda>bytes. map_err MalformedKey (key_decode c bytes))"

definition app_verify ::
  "('k, 's) mldsa \<Rightarrow> string \<Rightarrow> string \<Rightarrow> string \<Rightarrow> artifact_digests \<Rightarrow> string \<Rightarrow> sign_refusal + unit" where
  "app_verify c public_key app_id version digests signature =
     and_then (app_public_key c public_key) (\<lambda>key.
     and_then (app_signed_message app_id version digests) (\<lambda>message.
     and_then (map_err MalformedSignature (decode_exact c SIGNATURE_LEN (trim signature))) (\<lambda>bytes.
     and_then (map_err MalformedSignature (signature_decode c bytes)) (\<lambda>sig.
       if key_verify c key message sig then Inr () else Inl InvalidSignature))))"

text \<open>The fingerprint's hexadecimal digits in groups of four.\<close>

fun join_groups :: "string list \<Rightarrow> string" where
  "join_groups [] = []"
| "join_groups [g] = g"
| "join_groups (g # gs) = g @ '' '' @ join_groups gs"

definition fingerprint :: "('k, 's) mldsa \<Rightarrow> (string \<Rightarrow> string) \<Rightarrow> (string \<Rightarrow> string) \<Rightarrow> string \<Rightarrow> sign_refusal + string" where
  "fingerprint c hex sha256 public_key =
     and_then (map_err MalformedKey (decode_exact c PUBLIC_KEY_LEN (trim public_key))) (\<lambda>bytes.
       let digest = hex (sha256 bytes)
       in Inr (join_groups (map (\<lambda>i. take 4 (drop (i * 4) digest)) [0..<FINGERPRINT_HEX_CHARS div 4])))"

section \<open>Binding\<close>

lemma app_id_no_nul: "validate_app_id s = Inr u \<Longrightarrow> CHR 0x00 \<notin> set s"
proof
  assume ok: "validate_app_id s = Inr u" and nul: "CHR 0x00 \<in> set s"
  from ok obtain k where "validate_labels 0 (split_on CHR ''.'' s) = Inr k"
    by (auto simp: validate_app_id_def split: if_splits sum.splits)
  then have labels: "list_all label_ok (split_on CHR ''.'' s)" by (simp add: validate_labels_Inr list_all_iff)
  from split_on_set [OF nul, of "CHR ''.''"] obtain p where p: "p \<in> set (split_on CHR ''.'' s)" "CHR 0x00 \<in> set p" by auto
  moreover have "\<not> label_first_ok CHR 0x00" "\<not> label_byte_ok CHR 0x00"
    by (simp_all add: label_first_ok_def label_byte_ok_def char_class_defs)
  moreover from p(1) labels have "label_ok p" by (simp add: list_all_iff)
  ultimately show False by (auto simp: label_ok_def)
qed

lemma version_no_nul: "version_parse s = Inr v \<Longrightarrow> CHR 0x00 \<notin> set s"
proof
  assume ok: "version_parse s = Inr v" and nul: "CHR 0x00 \<in> set s"
  from split_on_set [OF nul, of "CHR ''.''"] obtain p where "p \<in> set (split_on CHR ''.'' s)" "CHR 0x00 \<in> set p" by auto
  moreover from this(1) ok have "decimal_ok p" by (auto simp: version_parse_Inr)
  ultimately show False by (auto simp: decimal_ok_def list_all_iff char_class_defs)
qed

lemma app_signed_messageE:
  assumes "app_signed_message app_id version d = Inr m"
  obtains "CHR 0x00 \<notin> set app_id" "CHR 0x00 \<notin> set version" "m = APP_DOMAIN @ app_id @ CHR 0x00 # (version @ CHR 0x00 # (ad_manifest d @ ad_wasm d))"
proof (rule that)
  from assms obtain u v where "validate_app_id app_id = Inr u" "version_parse version = Inr v"
    by (auto simp: app_signed_message_def and_then_def split: sum.splits)
  then show "CHR 0x00 \<notin> set app_id" "CHR 0x00 \<notin> set version" using app_id_no_nul version_no_nul by blast+
  show "m = APP_DOMAIN @ app_id @ CHR 0x00 # (version @ CHR 0x00 # (ad_manifest d @ ad_wasm d))"
    using assms by (auto simp: app_signed_message_def and_then_def split: sum.splits)
qed

text \<open>
  C37. An app's signature cannot be moved: an accepted use checked exactly the message of its own id, version and
  two digests, with the signature it was given, against the publisher's key, no other id, version or pair of digests has that message, and no
  message of an agent release is one, so no signature over the one serves for the other.
\<close>

theorem app_signature_binds:
  assumes "app_verify c public_key app_id version d signature = Inr ()"
    and "length (ad_manifest d) = 32" and "length (ad_wasm d) = 32"
  shows "\<exists>key bytes sig m. app_public_key c public_key = Inr key \<and> app_signed_message app_id version d = Inr m \<and>
    decode_exact c SIGNATURE_LEN (trim signature) = Inr bytes \<and> signature_decode c bytes = Inr sig \<and> key_verify c key m sig \<and>
    (\<forall>app_id' version' d'. length (ad_manifest d') = 32 \<longrightarrow> app_signed_message app_id' version' d' = Inr m \<longrightarrow>
       app_id' = app_id \<and> version' = version \<and> d' = d) \<and>
    (\<forall>tag name sha. signed_message tag name sha \<noteq> Inr m)"
proof -
  from assms(1) obtain key bytes sig m where v: "app_public_key c public_key = Inr key" "app_signed_message app_id version d = Inr m"
      "decode_exact c SIGNATURE_LEN (trim signature) = Inr bytes" "signature_decode c bytes = Inr sig"
      "key_verify c key m sig" by (auto simp: app_verify_def split: if_splits)
  from v(2) obtain mid: "CHR 0x00 \<notin> set app_id" "CHR 0x00 \<notin> set version"
      "m = APP_DOMAIN @ app_id @ CHR 0x00 # (version @ CHR 0x00 # (ad_manifest d @ ad_wasm d))" by (rule app_signed_messageE)
  have "app_id' = app_id \<and> version' = version \<and> d' = d"
    if "length (ad_manifest d') = 32" "app_signed_message app_id' version' d' = Inr m" for app_id' version' d'
  proof -
    from that(2) obtain m': "CHR 0x00 \<notin> set app_id'" "CHR 0x00 \<notin> set version'"
      "m = APP_DOMAIN @ app_id' @ CHR 0x00 # (version' @ CHR 0x00 # (ad_manifest d' @ ad_wasm d'))" by (rule app_signed_messageE)
    with mid have "app_id' @ CHR 0x00 # (version' @ CHR 0x00 # (ad_manifest d' @ ad_wasm d')) =
        app_id @ CHR 0x00 # (version @ CHR 0x00 # (ad_manifest d @ ad_wasm d))" by simp
    from split_at_nul [OF m'(1) mid(1) this] have "app_id' = app_id"
      and "version' @ CHR 0x00 # (ad_manifest d' @ ad_wasm d') = version @ CHR 0x00 # (ad_manifest d @ ad_wasm d)" by auto
    moreover from split_at_nul [OF m'(2) mid(2) this(2)] have "version' = version" "ad_manifest d' @ ad_wasm d' = ad_manifest d @ ad_wasm d"
      by auto
    ultimately show ?thesis using that(1) assms(2) by simp
  qed
  moreover have "signed_message tag name sha \<noteq> Inr m" for tag name sha
    using mid(3) by (auto simp: signed_message_def APP_DOMAIN_def DOMAIN_def)
  ultimately show ?thesis using v by blast
qed

theorem app_signature_binds_witness:
  "\<exists>m. app_signed_message ''com.acme.kanban'' ''1.4.0'' \<lparr>ad_manifest = replicate 32 (CHR ''m''), ad_wasm = replicate 32 (CHR ''w'')\<rparr> = Inr m \<and>
     (\<forall>tag name sha. signed_message tag name sha \<noteq> Inr m)"
proof -
  let ?d = "\<lparr>ad_manifest = replicate 32 (CHR ''m''), ad_wasm = replicate 32 (CHR ''w'')\<rparr>"
  have m: "app_signed_message ''com.acme.kanban'' ''1.4.0'' ?d =
      Inr (APP_DOMAIN @ ''com.acme.kanban'' @ [CHR 0x00] @ ''1.4.0'' @ [CHR 0x00] @ ad_manifest ?d @ ad_wasm ?d)"
    by (simp add: app_signed_message_def validate_app_id_def MAX_APP_ID_CHARS_def label_first_ok_def label_byte_ok_def
        version_parse_def parse_part_def map_err_def string_eval u32_max_def)
  have "app_verify toy_mldsa (replicate 3904 (CHR ''a'')) ''com.acme.kanban'' ''1.4.0'' ?d (replicate 6618 (CHR ''a'')) = Inr ()"
    by (simp add: app_verify_def app_public_key_def m trim_replicate decode_exact_def toy_mldsa_def PUBLIC_KEY_LEN_def SIGNATURE_LEN_def map_err_def)
  from app_signature_binds [OF this] show ?thesis by auto
qed

end
