(* ===== verification/Ihttp.thy ===== *)
theory Ihttp
  imports App_Id Cbor Commands Hash_Map
begin

text \<open>
  Internal HTTP between apps of two members: what a frame must be
  (\<^verbatim>\<open>citadel-ihttp-types/src/{lib,validate,codec}.rs\<close>) and the agent's relay of frames
  (\<^verbatim>\<open>kernel/apps/ihttp/{mod,envelope}.rs\<close>), whose envelope is written and read by the agent's own CBOR codec
  (theory \<^verbatim>\<open>Cbor\<close>). A frame's own CBOR is the ciborium crate's: \<^verbatim>\<open>fc_read\<close> and \<^verbatim>\<open>fc_write\<close>. The
  strings of a frame are their bytes.
\<close>

section \<open>Frames (lib.rs)\<close>

definition IHTTP_VERSION :: nat where "IHTTP_VERSION = 1"
definition ENVELOPE_KIND :: string where "ENVELOPE_KIND = ''citadel-ihttp/1''"
definition MAX_PATH_BYTES :: nat where "MAX_PATH_BYTES = 2 * 1024"
definition IHTTP_MAX_HEADERS :: nat where "IHTTP_MAX_HEADERS = 32"
definition IHTTP_MAX_HEADER_BYTES :: nat where "IHTTP_MAX_HEADER_BYTES = 1024"
definition IHTTP_MAX_BODY_CHUNK_BYTES :: nat where "IHTTP_MAX_BODY_CHUNK_BYTES = 64 * 1024"
definition MAX_FRAME_BYTES :: nat where "MAX_FRAME_BYTES = IHTTP_MAX_BODY_CHUNK_BYTES + 4 * 1024"
definition IHTTP_MAX_REQUEST_BODY_BYTES :: nat where "IHTTP_MAX_REQUEST_BODY_BYTES = 4 * 1024 * 1024"
definition IHTTP_MAX_RESPONSE_BODY_BYTES :: nat where "IHTTP_MAX_RESPONSE_BODY_BYTES = 16 * 1024 * 1024"
definition IHTTP_MAX_CREDIT_GRANT :: nat where "IHTTP_MAX_CREDIT_GRANT = 64"
definition IHTTP_MAX_SCOPE_KEY_BYTES :: nat where "IHTTP_MAX_SCOPE_KEY_BYTES = 256"

datatype ihttp_method = IhGet | IhPost | IhPut | IhDelete | IhPatch | IhHead

record ihttp_header =
  ih_name :: string
  ih_value :: string

datatype cancel_reason =
    CrCaller | CrTimeout | CrTooLarge | CrBusy | CrRateLimited | CrNoRoute | CrRefused | CrFailed | CrClosed | CrProtocol
  | CrUnavailable

datatype ihttp_frame_kind =
    RequestHead ihttp_method string "string option" "ihttp_header list" "nat option" string string
  | ResponseHead nat "ihttp_header list" "nat option"
  | BodyChunk "octet list"
  | EndOfBody
  | CancelStream cancel_reason
  | CreditGrant nat

record ihttp_frame =
  if_v :: nat
  if_stream :: nat
  if_kind :: ihttp_frame_kind

section \<open>What a frame must be (validate.rs)\<close>

datatype frame_error =
    FeTooLarge | FeMalformed string | FeVersion nat | FePath | FeQuery | FeHeaders | FeBody | FeAppId | FeScopeKey | FeStatus
  | FeCredit

definition FRAMING_HEADERS :: "string list" where
  "FRAMING_HEADERS =
     [''connection'', ''content-length'', ''host'', ''keep-alive'', ''te'', ''trailer'', ''transfer-encoding'', ''upgrade'']"

definition RESERVED_PATH_PREFIX :: string where "RESERVED_PATH_PREFIX = ''/_citadel/''"

definition is_reserved_path :: "string \<Rightarrow> bool" where
  "is_reserved_path path \<longleftrightarrow> starts_with path RESERVED_PATH_PREFIX \<or> path = butlast RESERVED_PATH_PREFIX"

definition graphic :: "string \<Rightarrow> bool" where "graphic s \<longleftrightarrow> list_all is_ascii_graphic s"

fun has_double_slash :: "string \<Rightarrow> bool" where
  "has_double_slash (c # d # s) \<longleftrightarrow> c = CHR ''/'' \<and> d = CHR ''/'' \<or> has_double_slash (d # s)"
| "has_double_slash _ \<longleftrightarrow> False"

definition path_ok :: "string \<Rightarrow> bool" where
  "path_ok path \<longleftrightarrow>
     starts_with path ''/'' \<and> graphic path \<and> \<not> list_ex (\<lambda>c. c \<in> {CHR ''?'', CHR ''#'', CHR 0x5C}) path \<and>
     \<not> has_double_slash path \<and> list_all (\<lambda>seg. seg \<noteq> ''.'' \<and> seg \<noteq> ''..'') (split_on CHR ''/'' path)"

definition header_ok :: "ihttp_header \<Rightarrow> bool" where
  "header_ok h \<longleftrightarrow>
     length (ih_name h) + length (ih_value h) \<le> IHTTP_MAX_HEADER_BYTES \<and> ih_name h \<noteq> [] \<and>
     list_all (\<lambda>c. is_ascii_lowercase c \<or> is_ascii_digit c \<or> c = CHR ''-'') (ih_name h) \<and>
     ih_name h \<notin> set FRAMING_HEADERS \<and>
     list_all (\<lambda>c. byte c = 9 \<or> 0x20 \<le> byte c \<and> byte c \<le> 0x7e) (ih_value h)"

definition headers_ok :: "ihttp_header list \<Rightarrow> frame_error + unit" where
  "headers_ok hs = (if IHTTP_MAX_HEADERS < length hs \<or> \<not> list_all header_ok hs then Inl FeHeaders else Inr ())"

definition too_long :: "nat \<Rightarrow> nat option \<Rightarrow> bool" where "too_long limit len = is_some_and len (\<lambda>n. limit < n)"

definition validate_request ::
  "string \<Rightarrow> string option \<Rightarrow> ihttp_header list \<Rightarrow> nat option \<Rightarrow> string \<Rightarrow> string \<Rightarrow> frame_error + unit" where
  "validate_request path query headers body_len app_id scope_key =
     (let query_len = (case query of None \<Rightarrow> 0 | Some q \<Rightarrow> length q)
      in if \<not> path_ok path \<or> MAX_PATH_BYTES < length path + query_len then Inl FePath
         else if is_some_and query (\<lambda>q. \<not> graphic q \<or> CHR ''#'' \<in> set q) then Inl FeQuery
         else and_then (headers_ok headers) (\<lambda>_.
           if too_long IHTTP_MAX_REQUEST_BODY_BYTES body_len then Inl FeBody
           else case validate_app_id app_id of
                  Inl _ \<Rightarrow> Inl FeAppId
                | Inr _ \<Rightarrow>
                    if scope_key \<noteq> [] \<and> length scope_key \<le> IHTTP_MAX_SCOPE_KEY_BYTES \<and> graphic scope_key then Inr ()
                    else Inl FeScopeKey))"

definition validate_frame :: "ihttp_frame \<Rightarrow> frame_error + unit" where
  "validate_frame f =
     (if if_v f \<noteq> IHTTP_VERSION then Inl (FeVersion (if_v f))
      else
        (case if_kind f of
           RequestHead _ path query headers body_len app_id scope_key \<Rightarrow>
             validate_request path query headers body_len app_id scope_key
         | ResponseHead status headers body_len \<Rightarrow>
             if \<not> (100 \<le> status \<and> status \<le> 599) then Inl FeStatus
             else and_then (headers_ok headers) (\<lambda>_. if too_long IHTTP_MAX_RESPONSE_BODY_BYTES body_len then Inl FeBody else Inr ())
         | BodyChunk bytes \<Rightarrow> if bytes = [] \<or> IHTTP_MAX_BODY_CHUNK_BYTES < length bytes then Inl FeBody else Inr ()
         | CreditGrant n \<Rightarrow> if n = 0 \<or> IHTTP_MAX_CREDIT_GRANT < n then Inl FeCredit else Inr ()
         | EndOfBody \<Rightarrow> Inr ()
         | CancelStream _ \<Rightarrow> Inr ()))"

definition within_frame_size :: "octet list \<Rightarrow> frame_error + unit" where
  "within_frame_size bytes = (if MAX_FRAME_BYTES < length bytes then Inl FeTooLarge else Inr ())"

section \<open>In and out (codec.rs)\<close>

record frame_codec =
  fc_write :: "ihttp_frame \<Rightarrow> string + octet list"
  fc_read :: "octet list \<Rightarrow> string + ihttp_frame \<times> octet list"

definition encode_frame :: "frame_codec \<Rightarrow> ihttp_frame \<Rightarrow> frame_error + octet list" where
  "encode_frame C f =
     and_then (validate_frame f) (\<lambda>_.
       case fc_write C f of
         Inl why \<Rightarrow> Inl (FeMalformed why)
       | Inr out \<Rightarrow> and_then (within_frame_size out) (\<lambda>_. Inr out))"

definition decode_frame :: "frame_codec \<Rightarrow> octet list \<Rightarrow> frame_error + ihttp_frame" where
  "decode_frame C bytes =
     and_then (within_frame_size bytes) (\<lambda>_.
       case fc_read C bytes of
         Inl why \<Rightarrow> Inl (FeMalformed why)
       | Inr (f, rest) \<Rightarrow>
           if rest \<noteq> [] then Inl (FeMalformed ''bytes after the frame'')
           else and_then (validate_frame f) (\<lambda>_. Inr f))"

section \<open>The envelope (envelope.rs)\<close>

definition ENVELOPE_OVERHEAD_BYTES :: nat where "ENVELOPE_OVERHEAD_BYTES = 64"

datatype ihttp_inbound = InOther | InMalformed | InFrame "octet list"

definition wrap_frame :: "frame_codec \<Rightarrow> ihttp_frame \<Rightarrow> frame_error + octet list" where
  "wrap_frame C f =
     and_then (encode_frame C f) (\<lambda>bytes.
       Inr (encode (object [(lit ''type'', Text (lit ENVELOPE_KIND)), (lit ''payload'', Bytes bytes)])))"

definition envelope_prefix :: "octet list" where
  "envelope_prefix = [0xb9, 0x00, 0x02] @ encode (Text (lit ''type'')) @ encode (Text (lit ENVELOPE_KIND))"

definition is_envelope :: "octet list \<Rightarrow> bool" where
  "is_envelope bytes \<longleftrightarrow> take (length envelope_prefix) bytes = envelope_prefix"

definition read_envelope :: "nan_choice \<Rightarrow> frame_codec \<Rightarrow> octet list \<Rightarrow> ihttp_inbound" where
  "read_envelope N C bytes =
     (if \<not> is_envelope bytes then InOther
      else if MAX_FRAME_BYTES + ENVELOPE_OVERHEAD_BYTES < length bytes then InMalformed
      else
        (case decode N bytes of
           Inr (Map entries _) \<Rightarrow>
             (case entries of
                [_, (Text key, Bytes payload)] \<Rightarrow>
                  if key \<noteq> lit ''payload'' then InMalformed
                  else (case and_then (decode_frame C payload) (encode_frame C) of
                          Inr canonical \<Rightarrow> InFrame canonical | Inl _ \<Rightarrow> InMalformed)
              | _ \<Rightarrow> InMalformed)
         | _ \<Rightarrow> InMalformed))"

section \<open>The relay (mod.rs)\<close>

record ihttp_counts =
  ic_sent :: "64 word"
  ic_received :: "64 word"
  ic_malformed_in :: "64 word"
  ic_malformed_out :: "64 word"
  ic_not_advertised :: "64 word"
  ic_no_receiver :: "64 word"

datatype ihttp_count = CtSent | CtReceived | CtMalformedIn | CtMalformedOut | CtNotAdvertised | CtNoReceiver

definition add_count :: "ihttp_count \<Rightarrow> ihttp_counts \<Rightarrow> ihttp_counts" where
  "add_count what c =
     (case what of
        CtSent \<Rightarrow> c\<lparr>ic_sent := ic_sent c + 1\<rparr>
      | CtReceived \<Rightarrow> c\<lparr>ic_received := ic_received c + 1\<rparr>
      | CtMalformedIn \<Rightarrow> c\<lparr>ic_malformed_in := ic_malformed_in c + 1\<rparr>
      | CtMalformedOut \<Rightarrow> c\<lparr>ic_malformed_out := ic_malformed_out c + 1\<rparr>
      | CtNotAdvertised \<Rightarrow> c\<lparr>ic_not_advertised := ic_not_advertised c + 1\<rparr>
      | CtNoReceiver \<Rightarrow> c\<lparr>ic_no_receiver := ic_no_receiver c + 1\<rparr>)"

datatype ihttp_refusal = IrMalformed | IrNotAdvertised | IrNotHosted | IrQueue | IrSession

record client_capabilities =
  ca_agent_ilm :: bool
  ca_ihttp :: bool

definition outbound_frame ::
  "frame_codec \<Rightarrow> octet list \<Rightarrow> bool \<Rightarrow> ihttp_counts \<Rightarrow> (ihttp_refusal + octet list) \<times> ihttp_counts" where
  "outbound_frame C frame peer_carries_internal_http counts =
     (case decode_frame C frame of
        Inl _ \<Rightarrow> (Inl IrMalformed, add_count CtMalformedOut counts)
      | Inr f \<Rightarrow>
          if \<not> peer_carries_internal_http then (Inl IrNotAdvertised, add_count CtNotAdvertised counts)
          else (case wrap_frame C f of
                  Inl _ \<Rightarrow> (Inl IrMalformed, counts)
                | Inr wrapped \<Rightarrow> (Inr wrapped, add_count CtSent counts)))"

definition receivers :: "'c list \<Rightarrow> ('c, client_capabilities) hmap \<Rightarrow> 'c list" where
  "receivers attached capabilities = filter (\<lambda>c. is_some_and (hm_get capabilities c) ca_ihttp) attached"

definition unclaimed_answer :: "frame_codec \<Rightarrow> octet list \<Rightarrow> octet list option" where
  "unclaimed_answer C frame =
     (case decode_frame C frame of
        Inl _ \<Rightarrow> None
      | Inr f \<Rightarrow>
          (case if_kind f of
             RequestHead _ _ _ _ _ _ _ \<Rightarrow>
               (case wrap_frame C \<lparr>if_v = IHTTP_VERSION, if_stream = if_stream f, if_kind = CancelStream CrRefused\<rparr> of
                  Inr w \<Rightarrow> Some w | Inl _ \<Rightarrow> None)
           | _ \<Rightarrow> None))"

definition smuggled :: "octet list \<Rightarrow> bool" where "smuggled message = is_envelope message"

section \<open>The relay lets only valid frames through\<close>

text \<open>What is relied on of the frames' CBOR: a frame that was written is read back, and what follows it is left.\<close>

definition codec_ok :: "frame_codec \<Rightarrow> bool" where
  "codec_ok C \<longleftrightarrow> (\<forall>f bs rest. fc_write C f = Inr bs \<longrightarrow> fc_read C (bs @ rest) = Inr (f, rest))"

lemma encode_frameE:
  assumes "encode_frame C f = Inr bs"
  obtains "validate_frame f = Inr ()" "fc_write C f = Inr bs" "length bs \<le> MAX_FRAME_BYTES"
  using assms by (auto simp: encode_frame_def within_frame_size_def and_then_def split: sum.splits if_splits)

lemma decode_encode_frame: "codec_ok C \<Longrightarrow> encode_frame C f = Inr bs \<Longrightarrow> decode_frame C bs = Inr f"
proof -
  assume C: "codec_ok C" and e: "encode_frame C f = Inr bs"
  from e obtain v: "validate_frame f = Inr ()" "fc_write C f = Inr bs" "length bs \<le> MAX_FRAME_BYTES" by (rule encode_frameE)
  have "fc_read C (bs @ []) = Inr (f, [])" using C v(2) unfolding codec_ok_def by blast
  then show ?thesis using v by (simp add: decode_frame_def within_frame_size_def)
qed

lemma decoded_frame_valid: "decode_frame C bs = Inr f \<Longrightarrow> validate_frame f = Inr ()"
  by (auto simp: decode_frame_def and_then_def split: sum.splits if_splits)

abbreviation ihttp_envelope :: "octet list \<Rightarrow> cvalue" where
  "ihttp_envelope bytes \<equiv> object [(lit ''type'', Text (lit ENVELOPE_KIND)), (lit ''payload'', Bytes bytes)]"

lemma ascii_ok: "utf8_ok (lit ''type'')" "utf8_ok (lit ''payload'')" "utf8_ok (lit ENVELOPE_KIND)"
  by (simp_all add: lit_def ENVELOPE_KIND_def)

lemma envelope_value_ok: "length bytes \<le> MAX_FRAME_BYTES \<Longrightarrow> value_ok 0 (ihttp_envelope bytes)"
  using ascii_ok
  by (simp add: value_ok_object MAX_DEPTH_def MAX_FRAME_BYTES_def IHTTP_MAX_BODY_CHUNK_BYTES_def lit_def ENVELOPE_KIND_def)

lemma map_head: "head 5 (word_of_nat 2) Two = [0xb9, 0x00, 0x02]"
proof -
  have "be_bytes 2 n = [word_of_nat (n div 256), word_of_nat n]" for n by (simp add: numeral_2_eq_2)
  moreover have "push_bit 5 (5 :: octet) OR 25 = 0xb9" by code_simp
  ultimately show ?thesis by (simp add: head_def)
qed

lemma envelope_bytes:
  "encode (ihttp_envelope bytes) = envelope_prefix @ encode (Text (lit ''payload'')) @ encode (Bytes bytes)"
  using map_head by (simp add: envelope_prefix_def object_def)

lemma wrapped_is_envelope: "wrap_frame C f = Inr w \<Longrightarrow> is_envelope w"
  by (auto simp: wrap_frame_def and_then_def is_envelope_def envelope_bytes simp del: encode.simps split: sum.splits)

lemma head_len_le: "length (head_len m n) \<le> 9"
  by (auto simp: head_len_def head_def Let_def split: width.split)

lemma head_len_small: "n \<le> 0xffffffff \<Longrightarrow> length (head_len m n) \<le> 5"
  using unat_len [of n] by (auto simp: head_len_def head_def minimal_def Let_def)

lemma envelope_small: "length bytes \<le> MAX_FRAME_BYTES \<Longrightarrow> length (encode (ihttp_envelope bytes)) \<le> MAX_FRAME_BYTES + ENVELOPE_OVERHEAD_BYTES"
proof -
  assume b: "length bytes \<le> MAX_FRAME_BYTES"
  then have "length (head_len 2 (length bytes)) \<le> 5"
    by (intro head_len_small) (simp add: MAX_FRAME_BYTES_def IHTTP_MAX_BODY_CHUNK_BYTES_def)
  moreover have k: "length ENVELOPE_KIND = 15" by (simp add: ENVELOPE_KIND_def)
  moreover have "length (head_len 3 (length (lit ''type''))) \<le> 5" "length (head_len 3 (length (lit ''payload''))) \<le> 5"
      "length (head_len 3 (length (lit ENVELOPE_KIND))) \<le> 5" by (rule head_len_small, simp add: k)+
  ultimately show ?thesis using b unfolding envelope_bytes
    by (simp add: envelope_prefix_def ENVELOPE_OVERHEAD_BYTES_def)
qed

lemma read_wrapped:
  assumes "codec_ok C" and "encode_frame C f = Inr bytes"
  shows "read_envelope N C (encode (ihttp_envelope bytes)) = InFrame bytes"
proof -
  from assms(2) have len: "length bytes \<le> MAX_FRAME_BYTES" by (rule encode_frameE)
  have "is_envelope (encode (ihttp_envelope bytes))" by (simp add: is_envelope_def envelope_bytes del: encode.simps)
  moreover have "decode N (encode (ihttp_envelope bytes)) = Inr (ihttp_envelope bytes)" using envelope_value_ok [OF len] by (rule decode_encode)
  ultimately show ?thesis using envelope_small [OF len] decode_encode_frame [OF assms] assms(2)
    by (simp add: read_envelope_def object_def)
qed

text \<open>
  C38. The relay passes on only valid frames, and recognises its own envelopes: what a window sends reaches the wire
  only as the envelope of a frame within every limit and only to a peer that said it reads them; that
  envelope is read back as the same frame's bytes, and would be caught if sent as an ordinary
  message; and whatever bytes arrive, what is handed to a window is the canonical form of a valid frame.
\<close>

theorem ihttp_relay_checked:
  assumes "codec_ok C"
  shows "(fst (outbound_frame C frame advertised counts) = Inr w \<longrightarrow>
      advertised \<and> smuggled w \<and>
      (\<exists>f bytes. validate_frame f = Inr () \<and> decode_frame C frame = Inr f \<and> encode_frame C f = Inr bytes \<and>
        read_envelope N C w = InFrame bytes)) \<and>
    (read_envelope N C received = InFrame canonical \<longrightarrow>
      (\<exists>f. validate_frame f = Inr () \<and> encode_frame C f = Inr canonical \<and> decode_frame C canonical = Inr f))"
proof (intro conjI impI)
  assume "fst (outbound_frame C frame advertised counts) = Inr w"
  then obtain f where f: "decode_frame C frame = Inr f" "advertised" "wrap_frame C f = Inr w"
    by (auto simp: outbound_frame_def split: sum.splits if_splits)
  then obtain bytes where b: "encode_frame C f = Inr bytes" "w = encode (ihttp_envelope bytes)"
    by (auto simp: wrap_frame_def and_then_def simp del: encode.simps split: sum.splits)
  show "advertised" by (rule f)
  show "smuggled w" using wrapped_is_envelope [OF f(3)] by (simp add: smuggled_def)
  show "\<exists>f bytes. validate_frame f = Inr () \<and> decode_frame C frame = Inr f \<and> encode_frame C f = Inr bytes \<and>
        read_envelope N C w = InFrame bytes"
    using read_wrapped [OF assms b(1)] f(1) b decoded_frame_valid [OF f(1)] by blast
next
  assume "read_envelope N C received = InFrame canonical"
  then obtain payload f where "decode_frame C payload = Inr f" and e: "encode_frame C f = Inr canonical"
    by (auto simp: read_envelope_def and_then_def split: if_splits sum.splits cvalue.splits list.splits prod.splits)
  from e have "validate_frame f = Inr ()" by (rule encode_frameE)
  with e decode_encode_frame [OF assms e] show "\<exists>f. validate_frame f = Inr () \<and> encode_frame C f = Inr canonical \<and> decode_frame C canonical = Inr f"
    by blast
qed

text \<open>A codec for evaluation: a frame's bytes are its stream number, and every other frame is not written.\<close>

definition toy_codec :: frame_codec where
  "toy_codec =
     \<lparr>fc_write = (\<lambda>f. if if_v f = 1 \<and> if_kind f = EndOfBody \<and> if_stream f < 256 then Inr [word_of_nat (if_stream f)] else Inl ''no''),
      fc_read = (\<lambda>bs. case bs of [] \<Rightarrow> Inl ''empty'' | b # rest \<Rightarrow> Inr (\<lparr>if_v = 1, if_stream = unat b, if_kind = EndOfBody\<rparr>, rest))\<rparr>"

lemma toy_codec_ok: "codec_ok toy_codec"
  by (auto simp: codec_ok_def toy_codec_def split: if_splits)

definition no_counts :: ihttp_counts where
  "no_counts = \<lparr>ic_sent = 0, ic_received = 0, ic_malformed_in = 0, ic_malformed_out = 0, ic_not_advertised = 0, ic_no_receiver = 0\<rparr>"

theorem ihttp_relay_checked_witness:
  "\<exists>w. fst (outbound_frame toy_codec [7] True no_counts) = Inr w \<and> smuggled w \<and> read_envelope quiet_nans toy_codec w = InFrame [7]"
proof -
  have d: "decode_frame toy_codec [7] = Inr \<lparr>if_v = 1, if_stream = 7, if_kind = EndOfBody\<rparr>"
    by (simp add: decode_frame_def within_frame_size_def MAX_FRAME_BYTES_def IHTTP_MAX_BODY_CHUNK_BYTES_def toy_codec_def validate_frame_def IHTTP_VERSION_def)
  have e: "encode_frame toy_codec \<lparr>if_v = 1, if_stream = 7, if_kind = EndOfBody\<rparr> = Inr [7]"
    by (simp add: encode_frame_def within_frame_size_def MAX_FRAME_BYTES_def IHTTP_MAX_BODY_CHUNK_BYTES_def toy_codec_def validate_frame_def IHTTP_VERSION_def)
  have "fst (outbound_frame toy_codec [7] True no_counts) = Inr (encode (ihttp_envelope [7]))"
    by (simp add: outbound_frame_def d e [simplified] wrap_frame_def del: encode.simps)
  with ihttp_relay_checked [OF toy_codec_ok, of "[7]" True no_counts "encode (ihttp_envelope [7])" quiet_nans "[]" "[]"] d e
  show ?thesis by auto
qed

end
