(* ===== verification/Request_Gate.thy ===== *)
theory Request_Gate
  imports App_Storage_Safety Ihttp Ilm_Registry Sessions
begin

text \<open>
  What a window's request passes before the agent acts on it (\<^verbatim>\<open>kernel/requests/mod.rs\<close>), and the
  requests for the key-value store behind it (\<^verbatim>\<open>kernel/requests/local_db\<close>): which session a request
  names, who is attached to it, which records are the agent's own, and what a refused request is
  answered. The other handlers are the argument \<^verbatim>\<open>en_handle\<close>; of a request they get all its data, of
  which what this code does not read is of the type \<^verbatim>\<open>'x\<close>. The account lookup (\<^verbatim>\<open>propose_target\<close>) and the
  rule on recovery sessions are the SDK's. The uuid of a handled request is the connection's.
\<close>

type_synonym request_uuid = "128 word"

section \<open>Requests and answers (citadel-internal-service-types/src/lib.rs)\<close>

text \<open>The variants that name a session and of which the gate reads nothing else, and those that name none.\<close>

datatype session_op =
    Disconnect | MediaOpen | MediaSend | MediaClose | Deregister | SendFile | ReadPulledFileChunk
  | RespondFileTransfer | DownloadFile | DeleteVirtualFile | PickFile | ListAllPeers | ListRegisteredPeers
  | PeerConnect | PeerDisconnect | PeerRegister | PeerRegisterRespond | GroupCreate | GroupCreateAppTopic
  | GroupLeave | GroupEnd | GroupMessage | GroupInvite | GroupRespondRequest | GroupKick | GroupListGroupsFor
  | GroupListJoined | GroupRequestJoin | ConversationSend | ConversationResend | ConversationEdit
  | ConversationDelete | ConversationReact | ConversationMarkRead | ConversationRecord | ConversationPatch
  | ConversationClear | ConversationList | ConversationPage | SetAccountPreferences | GetAccountPreferences
  | BrowserConsole | AppFetch | AppFetchCredit | AppFetchCancel | GetAppNetUsage | AppKv | AppsGetAgentSettings
  | AppsSetAgentSettings

datatype spanning_op =
    Connect | Register | GetSessions | GetAccountInformation | ConnectionManagement | NoticeSubscribe
  | NoticeSetMuted | UpdateGetStatus | UpdateCheckNow | UpdateApply | UpdateSetSettings | UpdateInstallResult
  | SecurityKeyAnswer | SecurityKeyDecline

datatype 'x window_request =
    LocalDBGetKV request_uuid cid "cid option" string
  | LocalDBSetKV request_uuid cid "cid option" string "octet list"
  | LocalDBDeleteKV request_uuid cid "cid option" string
  | LocalDBGetAllKV request_uuid cid "cid option"
  | LocalDBClearAllKV request_uuid cid "cid option"
  | MessageRequest request_uuid cid "octet list" 'x
  | SendReliable request_uuid cid "octet list" 'x
  | StageUploadChunk request_uuid cid request_uuid 'x
  | PeerConnectAccept request_uuid cid cid 'x
  | IhttpSend request_uuid cid cid 'x
  | SignInManagement request_uuid cid 'x
  | OnSession session_op request_uuid cid 'x
  | Spanning spanning_op request_uuid 'x
  | Batched request_uuid "'x window_request list"

datatype failure_variant =
    ConversationFailure | PeerDisconnectFailure | DeregisterFailure | DeleteVirtualFileFailure
  | DownloadFileFailure | GroupCreateFailure | GroupEndFailure | GroupInviteFailure | GroupKickFailure
  | GroupLeaveFailure | GroupMessageFailure | GroupRequestJoinFailure | GroupRespondRequestFailure
  | ListAllPeersFailure | ListRegisteredPeersFailure | PeerConnectFailure | PeerRegisterFailure
  | PickFileFailure | SendFileRequestFailure | ReadPulledFileChunkFailure | AppsAgentSettingsFailure
  | GroupListJoinedFailure | MessageSendFailure | SignInManagementFailure

text \<open>\<^verbatim>\<open>Failure\<close> holds the variants of a session, a message and the request they answer; \<^verbatim>\<open>Handled\<close> is another handler's answer.\<close>

datatype 'y window_response =
    GetKVSuccess cid "cid option" string "octet list" "request_uuid option"
  | GetKVFailure cid "cid option" string "request_uuid option"
  | SetKVSuccess cid "cid option" string "request_uuid option"
  | SetKVFailure cid "cid option" string "request_uuid option"
  | DeleteKVSuccess cid "cid option" string "request_uuid option"
  | DeleteKVFailure cid "cid option" string "request_uuid option"
  | GetAllKVSuccess cid "cid option" "string \<Rightarrow> octet list option" "request_uuid option"
  | GetAllKVFailure cid "cid option" string "request_uuid option"
  | ClearAllKVSuccess cid "cid option" "request_uuid option"
  | ClearAllKVFailure cid "cid option" string "request_uuid option"
  | Failure failure_variant cid string "request_uuid option"
  | StageUploadChunkFailure cid request_uuid string "request_uuid option"
  | PeerConnectAcceptFailure cid cid string "request_uuid option"
  | AppFetchUnavailableSession cid "request_uuid option"
  | AppKvFailure cid "request_uuid option" app_kv_refusal
  | IhttpSendFailure cid cid "request_uuid option" ihttp_refusal
  | BatchedResponse cid "request_uuid option" "'y window_response list"
  | Handled 'y

fun request_id_of :: "'x window_request \<Rightarrow> request_uuid" where
  "request_id_of (LocalDBGetKV r _ _ _) = r"
| "request_id_of (LocalDBSetKV r _ _ _ _) = r"
| "request_id_of (LocalDBDeleteKV r _ _ _) = r"
| "request_id_of (LocalDBGetAllKV r _ _) = r"
| "request_id_of (LocalDBClearAllKV r _ _) = r"
| "request_id_of (MessageRequest r _ _ _) = r"
| "request_id_of (SendReliable r _ _ _) = r"
| "request_id_of (StageUploadChunk r _ _ _) = r"
| "request_id_of (PeerConnectAccept r _ _ _) = r"
| "request_id_of (IhttpSend r _ _ _) = r"
| "request_id_of (SignInManagement r _ _) = r"
| "request_id_of (OnSession _ r _ _) = r"
| "request_id_of (Spanning _ r _) = r"
| "request_id_of (Batched r _) = r"

fun session_cid :: "'x window_request \<Rightarrow> cid option" where
  "session_cid (LocalDBGetKV _ c _ _) = Some c"
| "session_cid (LocalDBSetKV _ c _ _ _) = Some c"
| "session_cid (LocalDBDeleteKV _ c _ _) = Some c"
| "session_cid (LocalDBGetAllKV _ c _) = Some c"
| "session_cid (LocalDBClearAllKV _ c _) = Some c"
| "session_cid (MessageRequest _ c _ _) = Some c"
| "session_cid (SendReliable _ c _ _) = Some c"
| "session_cid (StageUploadChunk _ c _ _) = Some c"
| "session_cid (PeerConnectAccept _ c _ _) = Some c"
| "session_cid (IhttpSend _ c _ _) = Some c"
| "session_cid (SignInManagement _ c _) = Some c"
| "session_cid (OnSession _ _ c _) = Some c"
| "session_cid (Spanning _ _ _) = None"
| "session_cid (Batched _ _) = None"

section \<open>The ownership gate (requests/mod.rs)\<close>

definition ILM_KEY_PREFIXES :: "string list" where
  "ILM_KEY_PREFIXES = [''inbound_messages-'', ''outbound_messages-'', ''last_acked-'', ''last_sent-'', ''next_unique_id-'',
     ''received_messages-'', ''last_received_from-'']"

definition is_ilm_key_for :: "string \<Rightarrow> cid \<Rightarrow> bool" where
  "is_ilm_key_for key c =
     list_ex (\<lambda>prefix. case strip_prefix key prefix of
         None \<Rightarrow> False
       | Some tail \<Rightarrow> tail \<noteq> [] \<and> list_all is_ascii_digit tail \<and> tail = show_nat (unat c)) ILM_KEY_PREFIXES"

definition is_exempt_from_ownership_gate :: "'x window_request \<Rightarrow> bool" where
  "is_exempt_from_ownership_gate rq = (case rq of LocalDBGetKV _ c _ key \<Rightarrow> is_ilm_key_for key c | _ \<Rightarrow> False)"

definition is_conversation_op :: "session_op \<Rightarrow> bool" where
  "is_conversation_op v \<longleftrightarrow> v \<in>
     {ConversationSend, ConversationResend, ConversationEdit, ConversationDelete, ConversationReact
      , ConversationMarkRead, ConversationRecord, ConversationPatch, ConversationClear, ConversationList
      , ConversationPage, SetAccountPreferences, GetAccountPreferences}"

definition requires_owned_session :: "'x window_request \<Rightarrow> bool" where
  "requires_owned_session rq =
     (case rq of
        LocalDBGetKV _ _ _ _ \<Rightarrow> True | LocalDBSetKV _ _ _ _ _ \<Rightarrow> True | LocalDBDeleteKV _ _ _ _ \<Rightarrow> True
      | LocalDBGetAllKV _ _ _ \<Rightarrow> True | LocalDBClearAllKV _ _ _ \<Rightarrow> True | IhttpSend _ _ _ _ \<Rightarrow> True
      | OnSession v _ _ _ \<Rightarrow>
          v \<in> {ReadPulledFileChunk, BrowserConsole, AppFetch, AppFetchCredit, AppFetchCancel, GetAppNetUsage
             , AppKv, AppsGetAgentSettings, AppsSetAgentSettings, Deregister} \<or>
          is_conversation_op v
      | _ \<Rightarrow> False)"

datatype gate_decision = Proceed | Refuse string

definition gate_decision_for :: "'x window_request \<Rightarrow> bool option \<Rightarrow> gate_decision" where
  "gate_decision_for rq caller_attached =
     (if session_cid rq = Some 0 then Proceed
      else case caller_attached of
             Some False \<Rightarrow> Refuse ''the connection does not own it''
           | Some True \<Rightarrow> Proceed
           | None \<Rightarrow>
               if requires_owned_session rq then Refuse ''no mapped session, so ownership cannot be established'' else Proceed)"

section \<open>The agent's own records (local\_db/mod.rs, store\_keys.rs)\<close>

definition AUTO_INSTALL_KEY :: string where "AUTO_INSTALL_KEY = ''agent_update_auto_install''"
definition APP_STORAGE_REFUSED :: string where "APP_STORAGE_REFUSED = ''app: keys are the agent's apps storage''"
definition AGENT_SETTINGS_REFUSED :: string where "AGENT_SETTINGS_REFUSED = ''agent: keys are the agent's own settings''"

definition reserved_key :: "string \<Rightarrow> string option" where
  "reserved_key key =
     (if starts_with key APP_STORAGE_PREFIX then Some APP_STORAGE_REFUSED
      else if starts_with key AGENT_KEY_PREFIX \<or> key = AUTO_INSTALL_KEY then Some AGENT_SETTINGS_REFUSED
      else None)"

definition names_reserved_key :: "'x window_request \<Rightarrow> string option" where
  "names_reserved_key rq =
     (case rq of
        LocalDBGetKV _ _ _ key \<Rightarrow> reserved_key key
      | LocalDBSetKV _ _ _ key _ \<Rightarrow> reserved_key key
      | LocalDBDeleteKV _ _ _ key \<Rightarrow> reserved_key key
      | _ \<Rightarrow> None)"

definition hide_reserved_keys :: "'y window_response \<Rightarrow> 'y window_response" where
  "hide_reserved_keys r =
     (case r of
        GetAllKVSuccess c p stored rid \<Rightarrow> GetAllKVSuccess c p (\<lambda>key. if reserved_key key = None then stored key else None) rid
      | _ \<Rightarrow> r)"

text \<open>A map's keys come in no particular order, here that of the argument \<^verbatim>\<open>order\<close>.\<close>

definition keys_a_window_clears :: "string list \<Rightarrow> (string \<Rightarrow> octet list option) \<Rightarrow> string list" where
  "keys_a_window_clears order stored = filter (\<lambda>key. reserved_key key = None) (filter (\<lambda>key. stored key \<noteq> None) order)"

fun split_once_str :: "string \<Rightarrow> string \<Rightarrow> (string \<times> string) option" where
  "split_once_str sep s =
     (if starts_with s sep then Some ([], drop (length sep) s)
      else case s of [] \<Rightarrow> None | c # cs \<Rightarrow> map_option (\<lambda>(a, b). (c # a, b)) (split_once_str sep cs))"

declare split_once_str.simps [simp del]

definition conversation_owner :: "string \<Rightarrow> cid option" where
  "conversation_owner key =
     Option.bind (strip_prefix key PAGINATED_PREFIX) (\<lambda>rest.
     Option.bind (split_once_str ''_with_'' rest) (\<lambda>(owner, _). map_option of_nat (parse_u64 (lit owner))))"

section \<open>The service\<close>

record open_session =
  os_subscribers :: attached
  os_recovery :: bool

text \<open>The store's buckets, by account and peer (0 when a request names none).\<close>

record service =
  sv_sessions :: "(cid, open_session) hmap"
  sv_capabilities :: "(client, client_capabilities) hmap"
  sv_hosts :: ilm_registry
  sv_db :: "cid \<Rightarrow> cid \<Rightarrow> kv"

record ('x, 'y) agent_env =
  en_target :: "cid \<Rightarrow> cid \<Rightarrow> string option"
  en_allowed_in_recovery :: "'x \<Rightarrow> bool"
  en_order :: "string list"
  en_handle :: "client \<Rightarrow> 'x window_request \<Rightarrow> service \<Rightarrow> 'y window_response option \<times> service"

definition is_recovery_session :: "service \<Rightarrow> cid \<Rightarrow> bool" where
  "is_recovery_session s c = is_some_and (hm_get (sv_sessions s) c) os_recovery"

definition attached_to :: "service \<Rightarrow> client \<Rightarrow> cid \<Rightarrow> bool option" where
  "attached_to s conn c = map_option (\<lambda>e. is_member conn (os_subscribers e)) (hm_get (sv_sessions s) c)"

definition recovery_allows :: "('x \<Rightarrow> bool) \<Rightarrow> 'x window_request \<Rightarrow> bool" where
  "recovery_allows allowed_in_recovery rq =
     (case rq of
        OnSession v _ _ _ \<Rightarrow> v = Disconnect
      | SignInManagement _ _ op \<Rightarrow> allowed_in_recovery op
      | _ \<Rightarrow> False)"

definition smuggles_internal_http :: "'x window_request \<Rightarrow> bool" where
  "smuggles_internal_http rq =
     (case rq of MessageRequest _ _ message _ \<Rightarrow> smuggled message | SendReliable _ _ message _ \<Rightarrow> smuggled message | _ \<Rightarrow> False)"

definition writes_hosted_conversation :: "service \<Rightarrow> 'x window_request \<Rightarrow> bool" where
  "writes_hosted_conversation s rq =
     (let owned = (\<lambda>key. is_some_and (conversation_owner key) (\<lambda>owner. is_hosted owner (sv_hosts s)))
      in case rq of
           LocalDBSetKV _ c _ key _ \<Rightarrow> c = 0 \<and> owned key
         | LocalDBDeleteKV _ c _ key \<Rightarrow> c = 0 \<and> owned key
         | _ \<Rightarrow> False)"

section \<open>Refusals\<close>

definition REFUSED :: string where "REFUSED = ''Session unavailable to this connection''"
definition RECOVERY_ONLY :: string where
  "RECOVERY_ONLY = ''This session signed in with a recovery code: it can only add a security key, set the sign-in policy, or sign out''"

fun failure_of :: "session_op \<Rightarrow> failure_variant option" where
  "failure_of Disconnect = Some PeerDisconnectFailure"
| "failure_of Deregister = Some DeregisterFailure"
| "failure_of DeleteVirtualFile = Some DeleteVirtualFileFailure"
| "failure_of DownloadFile = Some DownloadFileFailure"
| "failure_of GroupCreate = Some GroupCreateFailure"
| "failure_of GroupCreateAppTopic = Some GroupCreateFailure"
| "failure_of GroupEnd = Some GroupEndFailure"
| "failure_of GroupInvite = Some GroupInviteFailure"
| "failure_of GroupKick = Some GroupKickFailure"
| "failure_of GroupLeave = Some GroupLeaveFailure"
| "failure_of GroupMessage = Some GroupMessageFailure"
| "failure_of GroupRequestJoin = Some GroupRequestJoinFailure"
| "failure_of GroupRespondRequest = Some GroupRespondRequestFailure"
| "failure_of ListAllPeers = Some ListAllPeersFailure"
| "failure_of ListRegisteredPeers = Some ListRegisteredPeersFailure"
| "failure_of PeerConnect = Some PeerConnectFailure"
| "failure_of PeerDisconnect = Some PeerDisconnectFailure"
| "failure_of PeerRegister = Some PeerRegisterFailure"
| "failure_of PickFile = Some PickFileFailure"
| "failure_of SendFile = Some SendFileRequestFailure"
| "failure_of ReadPulledFileChunk = Some ReadPulledFileChunkFailure"
| "failure_of AppsGetAgentSettings = Some AppsAgentSettingsFailure"
| "failure_of AppsSetAgentSettings = Some AppsAgentSettingsFailure"
| "failure_of GroupListJoined = Some GroupListJoinedFailure"
| "failure_of _ = None"

definition refusal_response :: "'x window_request \<Rightarrow> string \<Rightarrow> 'y window_response option" where
  "refusal_response rq message =
     (case rq of
        LocalDBGetKV rid c p _ \<Rightarrow> Some (GetKVFailure c p message (Some rid))
      | LocalDBSetKV rid c p _ _ \<Rightarrow> Some (SetKVFailure c p message (Some rid))
      | LocalDBDeleteKV rid c p _ \<Rightarrow> Some (DeleteKVFailure c p message (Some rid))
      | LocalDBGetAllKV rid c p \<Rightarrow> Some (GetAllKVFailure c p message (Some rid))
      | LocalDBClearAllKV rid c p \<Rightarrow> Some (ClearAllKVFailure c p message (Some rid))
      | MessageRequest rid c _ _ \<Rightarrow> Some (Failure MessageSendFailure c message (Some rid))
      | SendReliable rid c _ _ \<Rightarrow> Some (Failure MessageSendFailure c message (Some rid))
      | StageUploadChunk rid c upload_id _ \<Rightarrow> Some (StageUploadChunkFailure c upload_id message (Some rid))
      | PeerConnectAccept rid c peer _ \<Rightarrow> Some (PeerConnectAcceptFailure c peer message (Some rid))
      | IhttpSend rid c peer _ \<Rightarrow> Some (IhttpSendFailure c peer (Some rid) IrSession)
      | SignInManagement rid c _ \<Rightarrow> Some (Failure SignInManagementFailure c message (Some rid))
      | OnSession v rid c _ \<Rightarrow>
          if is_conversation_op v then Some (Failure ConversationFailure c message (Some rid))
          else if v = AppFetch \<or> v = GetAppNetUsage then Some (AppFetchUnavailableSession c (Some rid))
          else if v = AppKv then Some (AppKvFailure c (Some rid) KvSession)
          else map_option (\<lambda>f. Failure f c message (Some rid)) (failure_of v)
      | Spanning _ _ _ \<Rightarrow> None
      | Batched _ _ \<Rightarrow> None)"

section \<open>The store's handlers (local\_db)\<close>

definition kv_get_all :: "(string \<Rightarrow> octet list option) kvm" where
  "kv_get_all s = (case next_fault s of (Fine, s) \<Rightarrow> (KOk (kv_map s), s) | (Fault e _, s) \<Rightarrow> (KErr (KvErr e), s))"

fun remove_each :: "string list \<Rightarrow> unit kvm" where
  "remove_each [] = kret ()"
| "remove_each (key # keys) = kbind (kv_delete key) (\<lambda>_. remove_each keys)"

definition clear_for_window :: "string list \<Rightarrow> unit kvm" where
  "clear_for_window order = kbind kv_get_all (\<lambda>stored. remove_each (keys_a_window_clears order stored))"

text \<open>A call's answer; the errors of the store's own codecs do not come from the backend.\<close>

definition answered :: "'a res \<Rightarrow> string + 'a" where
  "answered r = (case r of KOk x \<Rightarrow> Inr x | KErr (KvErr e) \<Rightarrow> Inl e | _ \<Rightarrow> Inl [])"

definition on_bucket :: "('x, 'y) agent_env \<Rightarrow> cid \<Rightarrow> cid option \<Rightarrow> 'a kvm \<Rightarrow> service \<Rightarrow> (string + 'a) \<times> service" where
  "on_bucket E c p call s =
     (let q = (case p of Some q \<Rightarrow> q | None \<Rightarrow> 0)
      in case en_target E c q of
           Some err \<Rightarrow> (Inl err, s)
         | None \<Rightarrow>
             let (r, b) = call (sv_db s c q)
             in (answered r, s\<lparr>sv_db := (sv_db s)(c := (sv_db s c)(q := b))\<rparr>))"

definition KEY_NOT_FOUND :: string where "KEY_NOT_FOUND = ''Key not found''"

definition get_kv :: "('x, 'y) agent_env \<Rightarrow> request_uuid \<Rightarrow> cid \<Rightarrow> cid option \<Rightarrow> string \<Rightarrow> service \<Rightarrow> 'y window_response \<times> service" where
  "get_kv E rid c p key s =
     (case on_bucket E c p (kv_get key) s of
        (Inl err, s) \<Rightarrow> (GetKVFailure c p err (Some rid), s)
      | (Inr (Some v), s) \<Rightarrow> (GetKVSuccess c p key v (Some rid), s)
      | (Inr None, s) \<Rightarrow> (GetKVFailure c p KEY_NOT_FOUND (Some rid), s))"

definition set_kv :: "('x, 'y) agent_env \<Rightarrow> request_uuid \<Rightarrow> cid \<Rightarrow> cid option \<Rightarrow> string \<Rightarrow> octet list \<Rightarrow> service \<Rightarrow> 'y window_response \<times> service" where
  "set_kv E rid c p key v s =
     (case on_bucket E c p (kv_set key v) s of
        (Inl err, s) \<Rightarrow> (SetKVFailure c p err (Some rid), s)
      | (Inr _, s) \<Rightarrow> (SetKVSuccess c p key (Some rid), s))"

definition delete_kv :: "('x, 'y) agent_env \<Rightarrow> request_uuid \<Rightarrow> cid \<Rightarrow> cid option \<Rightarrow> string \<Rightarrow> service \<Rightarrow> 'y window_response \<times> service" where
  "delete_kv E rid c p key s =
     (case on_bucket E c p (kv_delete key) s of
        (Inl err, s) \<Rightarrow> (DeleteKVFailure c p err (Some rid), s)
      | (Inr _, s) \<Rightarrow> (DeleteKVSuccess c p key (Some rid), s))"

definition get_all_kv :: "('x, 'y) agent_env \<Rightarrow> request_uuid \<Rightarrow> cid \<Rightarrow> cid option \<Rightarrow> service \<Rightarrow> 'y window_response \<times> service" where
  "get_all_kv E rid c p s =
     (case on_bucket E c p kv_get_all s of
        (Inl err, s) \<Rightarrow> (GetAllKVFailure c p err (Some rid), s)
      | (Inr stored, s) \<Rightarrow> (GetAllKVSuccess c p stored (Some rid), s))"

definition clear_all_kv :: "('x, 'y) agent_env \<Rightarrow> request_uuid \<Rightarrow> cid \<Rightarrow> cid option \<Rightarrow> service \<Rightarrow> 'y window_response \<times> service" where
  "clear_all_kv E rid c p s =
     (case on_bucket E c p (clear_for_window (en_order E)) s of
        (Inl err, s) \<Rightarrow> (ClearAllKVFailure c p err (Some rid), s)
      | (Inr _, s) \<Rightarrow> (ClearAllKVSuccess c p (Some rid), s))"

section \<open>A window's request (requests/mod.rs)\<close>

text \<open>Why a request goes no further, if it does not: the five checks, in their order.\<close>

definition turned_away :: "('x, 'y) agent_env \<Rightarrow> client \<Rightarrow> 'x window_request \<Rightarrow> service \<Rightarrow> string option" where
  "turned_away E conn rq s =
     (if is_some_and (session_cid rq) (\<lambda>c. gate_decision_for rq (attached_to s conn c) \<noteq> Proceed) then Some REFUSED
      else if is_some_and (session_cid rq) (\<lambda>c. is_recovery_session s c \<and> \<not> recovery_allows (en_allowed_in_recovery E) rq)
      then Some RECOVERY_ONLY
      else if smuggles_internal_http rq then Some ''internal HTTP is sent with IhttpSend''
      else case names_reserved_key rq of
             Some refused \<Rightarrow> Some refused
           | None \<Rightarrow> if writes_hosted_conversation s rq then Some REFUSED else None)"

definition dispatch :: "('x, 'y) agent_env \<Rightarrow> client \<Rightarrow> 'x window_request \<Rightarrow> service \<Rightarrow> 'y window_response option \<times> service" where
  "dispatch E conn rq s =
     (case rq of
        LocalDBGetKV rid c p key \<Rightarrow> map_prod Some id (get_kv E rid c p key s)
      | LocalDBSetKV rid c p key v \<Rightarrow> map_prod Some id (set_kv E rid c p key v s)
      | LocalDBDeleteKV rid c p key \<Rightarrow> map_prod Some id (delete_kv E rid c p key s)
      | LocalDBGetAllKV rid c p \<Rightarrow> map_prod (\<lambda>r. Some (hide_reserved_keys r)) id (get_all_kv E rid c p s)
      | LocalDBClearAllKV rid c p \<Rightarrow> map_prod Some id (clear_all_kv E rid c p s)
      | _ \<Rightarrow> en_handle E conn rq s)"

text \<open>
  A batch answers with its commands' answers in their order. Its commands are polled together; here each runs to
  its end before the next, which is one of the orders they may run in.
\<close>

fun handle_request :: "('x, 'y) agent_env \<Rightarrow> client \<Rightarrow> 'x window_request \<Rightarrow> service \<Rightarrow> 'y window_response option \<times> service"
and handle_all :: "('x, 'y) agent_env \<Rightarrow> client \<Rightarrow> 'x window_request list \<Rightarrow> service \<Rightarrow> 'y window_response list \<times> service" where
  "handle_request E conn (Batched rid commands) s =
     (case turned_away E conn (Batched rid commands) s of
        Some message \<Rightarrow> (refusal_response (Batched rid commands) message, s)
      | None \<Rightarrow> let (rs, s) = handle_all E conn commands s in (Some (BatchedResponse 0 (Some rid) rs), s))"
| "handle_request E conn rq s =
     (case turned_away E conn rq s of Some message \<Rightarrow> (refusal_response rq message, s) | None \<Rightarrow> dispatch E conn rq s)"
| "handle_all E conn [] s = ([], s)"
| "handle_all E conn (rq # rqs) s =
     (let (r, s) = handle_request E conn rq s; (rs, s) = handle_all E conn rqs s
      in (case r of Some r \<Rightarrow> r # rs | None \<Rightarrow> rs, s))"

section \<open>The agent's own requests (agent\_own.rs)\<close>

fun answer_local_db :: "('x, 'y) agent_env \<Rightarrow> 'x window_request \<Rightarrow> service \<Rightarrow> 'y window_response \<times> service"
and answer_all :: "('x, 'y) agent_env \<Rightarrow> 'x window_request list \<Rightarrow> service \<Rightarrow> 'y window_response list \<times> service" where
  "answer_local_db E (LocalDBGetKV rid c p key) s = get_kv E rid c p key s"
| "answer_local_db E (LocalDBSetKV rid c p key v) s = set_kv E rid c p key v s"
| "answer_local_db E (LocalDBDeleteKV rid c p key) s = delete_kv E rid c p key s"
| "answer_local_db E (LocalDBGetAllKV rid c p) s = get_all_kv E rid c p s"
| "answer_local_db E (Batched rid commands) s =
     (let (rs, s) = answer_all E commands s in (BatchedResponse 0 (Some rid) rs, s))"
| "answer_local_db E rq s =
     (GetKVFailure (case session_cid rq of Some c \<Rightarrow> c | None \<Rightarrow> 0) None ''not a request the agent's own ILM makes''
        (Some (request_id_of rq)), s)"
| "answer_all E [] s = ([], s)"
| "answer_all E (rq # rqs) s =
     (let (r, s) = answer_local_db E rq s; (rs, s) = answer_all E rqs s in (r # rs, s))"

section \<open>Claiming, releasing and leaving sessions\<close>

text \<open>Who may act on a session named in a management command (\<^verbatim>\<open>connection_management_auth.rs\<close>).\<close>

datatype session_owner = Live "client list" | Orphaned
datatype authorization = Allow | RefuseTo string

definition from_live_members :: "client list \<Rightarrow> session_owner" where
  "from_live_members ms = (if ms = [] then Orphaned else Live ms)"

definition owner_or_orphan :: "session_owner \<Rightarrow> client \<Rightarrow> cid \<Rightarrow> authorization" where
  "owner_or_orphan owner caller c =
     (case owner of
        Orphaned \<Rightarrow> Allow
      | Live at \<Rightarrow>
          if caller \<in> set at then Allow
          else RefuseTo (''Session '' @ show_nat (unat c) @ '' is in use by another connection''))"

definition may_claim :: "session_owner \<Rightarrow> client \<Rightarrow> cid \<Rightarrow> authorization" where "may_claim = owner_or_orphan"
definition may_release :: "session_owner \<Rightarrow> client \<Rightarrow> cid \<Rightarrow> authorization" where "may_release = owner_or_orphan"
definition may_disconnect :: "session_owner \<Rightarrow> client \<Rightarrow> cid \<Rightarrow> authorization" where "may_disconnect = owner_or_orphan"

text \<open>A page older than the agent's hosting (\<^verbatim>\<open>migration_guard.rs\<close>).\<close>

definition wants_agent_ilm :: "service \<Rightarrow> client \<Rightarrow> bool" where
  "wants_agent_ilm s conn = is_some_and (hm_get (sv_capabilities s) conn) ca_agent_ilm"

definition refuses_older_page :: "service \<Rightarrow> cid \<Rightarrow> client \<Rightarrow> bool" where
  "refuses_older_page s c conn \<longleftrightarrow> is_hosted c (sv_hosts s) \<and> \<not> wants_agent_ilm s conn"

definition displace_older_pages ::
  "client set \<Rightarrow> client set \<Rightarrow> cid \<Rightarrow> service \<Rightarrow> (client \<times> role_notice) list \<times> service" where
  "displace_older_pages clients opened c s =
     (case hm_get (sv_sessions s) c of
        None \<Rightarrow> ([], s)
      | Some e \<Rightarrow>
          let older = filter (\<lambda>m. \<not> wants_agent_ilm s m) (members (os_subscribers e));
              subs = foldl (\<lambda>a m. snd (release_session m a)) (os_subscribers e) older;
              s = s\<lparr>sv_sessions := hm_insert c (e\<lparr>os_subscribers := subs\<rparr>) (sv_sessions s)\<rparr>
          in (if older \<noteq> [] then announce_roles clients opened c subs older else [], s))"

end
