(* ===== verification/Request_Safety.thy ===== *)
theory Request_Safety
  imports Request_Gate
begin

text \<open>
  A window's requests are confined to what the window may see: which records those are, that every call a request makes
  depends on them alone and leaves the others, and what follows for whole requests and batches.
\<close>

section \<open>What a window may see\<close>

text \<open>
  The buckets of the sessions it is attached to, and the one of no session, when not signed in by a recovery
  code; and of those the records that are not the agent's.
\<close>

definition may_use :: "service \<Rightarrow> client \<Rightarrow> cid \<Rightarrow> bool" where
  "may_use s conn c \<longleftrightarrow> (c = 0 \<or> attached_to s conn c = Some True) \<and> \<not> is_recovery_session s c"

definition visible :: "service \<Rightarrow> client \<Rightarrow> cid \<Rightarrow> string \<Rightarrow> bool" where
  "visible s conn c key \<longleftrightarrow> may_use s conn c \<and> reserved_key key = None"

definition agree :: "kv \<Rightarrow> kv \<Rightarrow> bool" where
  "agree b b' \<longleftrightarrow> kv_faults b = kv_faults b' \<and> (\<forall>key. reserved_key key = None \<longrightarrow> kv_map b key = kv_map b' key)"

definition same_view :: "client \<Rightarrow> service \<Rightarrow> service \<Rightarrow> bool" where
  "same_view conn s s' \<longleftrightarrow>
     sv_sessions s = sv_sessions s' \<and> sv_hosts s = sv_hosts s' \<and>
     (\<forall>c p. may_use s conn c \<longrightarrow> agree (sv_db s c p) (sv_db s' c p))"

text \<open>The requests for the store, and batches of them.\<close>

fun local_only :: "'x window_request \<Rightarrow> bool" where
  "local_only (LocalDBGetKV _ _ _ _) = True"
| "local_only (LocalDBSetKV _ _ _ _ _) = True"
| "local_only (LocalDBDeleteKV _ _ _ _) = True"
| "local_only (LocalDBGetAllKV _ _ _) = True"
| "local_only (LocalDBClearAllKV _ _ _) = True"
| "local_only (Batched _ commands) = list_all local_only commands"
| "local_only _ = False"

fun clears_bucket :: "'x window_request \<Rightarrow> bool" where
  "clears_bucket (LocalDBClearAllKV _ _ _) = True"
| "clears_bucket (Batched _ commands) = list_ex clears_bucket commands"
| "clears_bucket _ = False"

section \<open>Calls on a bucket\<close>

text \<open>A call whose answer, as far as \<^verbatim>\<open>h\<close> shows it, and effect depend on the window's records only, and that leaves the others.\<close>

definition confined :: "((string + 'a) \<Rightarrow> 'b) \<Rightarrow> 'a kvm \<Rightarrow> bool" where
  "confined h m \<longleftrightarrow>
     (\<forall>b b'. agree b b' \<longrightarrow>
        h (answered (fst (m b))) = h (answered (fst (m b'))) \<and> agree (snd (m b)) (snd (m b')) \<and>
        (\<forall>key. reserved_key key \<noteq> None \<longrightarrow> kv_map (snd (m b)) key = kv_map b key))"

lemma agree_faults: "agree b b' \<Longrightarrow> kv_faults b = kv_faults b'"
  by (simp add: agree_def)

lemma agree_next: "agree b b' \<Longrightarrow> fst (next_fault b) = fst (next_fault b') \<and> agree (snd (next_fault b)) (snd (next_fault b'))"
  by (auto simp: agree_def next_fault_def split: list.splits)

lemma next_fault_map: "next_fault b = (f, t) \<Longrightarrow> kv_map t = kv_map b"
  by (auto simp: next_fault_def split: list.splits)

lemma confined_get: "reserved_key key = None \<Longrightarrow> confined h (kv_get key)"
  unfolding confined_def
proof (intro allI impI)
  fix b b'
  assume r: "reserved_key key = None" and ag: "agree b b'"
  obtain f t where n: "next_fault b = (f, t)" by fastforce
  with agree_next [OF ag] obtain t' where n': "next_fault b' = (f, t')" and ag': "agree t t'"
    by (cases "next_fault b'") auto
  show "h (answered (fst (kv_get key b))) = h (answered (fst (kv_get key b'))) \<and> agree (snd (kv_get key b)) (snd (kv_get key b')) \<and>
      (\<forall>k. reserved_key k \<noteq> None \<longrightarrow> kv_map (snd (kv_get key b)) k = kv_map b k)"
    using r ag' next_fault_map [OF n] by (cases f) (auto simp: kv_get_def n n' agree_def)
qed

lemma confined_put: "reserved_key key = None \<Longrightarrow> confined h (kv_put key v)"
  unfolding confined_def
proof (intro allI impI)
  fix b b'
  assume r: "reserved_key key = None" and ag: "agree b b'"
  obtain f t where n: "next_fault b = (f, t)" by fastforce
  with agree_next [OF ag] obtain t' where n': "next_fault b' = (f, t')" and ag': "agree t t'"
    by (cases "next_fault b'") auto
  show "h (answered (fst (kv_put key v b))) = h (answered (fst (kv_put key v b'))) \<and> agree (snd (kv_put key v b)) (snd (kv_put key v b')) \<and>
      (\<forall>k. reserved_key k \<noteq> None \<longrightarrow> kv_map (snd (kv_put key v b)) k = kv_map b k)"
    using r ag' next_fault_map [OF n] by (cases f) (auto simp: kv_put_def n n' agree_def)
qed

lemmas confined_writes = confined_put [where v = None, folded kv_delete_def] confined_put [where v = "Some x" for x, folded kv_set_def]

lemma answered_eq_KOk: "fst (m b) = KOk x \<Longrightarrow> answered (fst (m b)) = Inr x"
  by (simp add: answered_def)

lemma kv_put_result: "fst (kv_put key v b) \<in> {KOk ()} \<union> range (\<lambda>e. KErr (KvErr e))"
  by (auto simp: kv_put_def split: prod.splits fault.splits)

lemma same_result:
  assumes "agree b b'" "reserved_key key = None"
  shows "fst (kv_delete key b) = fst (kv_delete key b')"
proof -
  have "confined id (kv_delete key)" using assms(2) by (rule confined_writes)
  then have "answered (fst (kv_delete key b)) = answered (fst (kv_delete key b'))"
    using assms(1) by (auto simp: confined_def)
  then show ?thesis
    using kv_put_result [of key None b] kv_put_result [of key None b'] by (auto simp: kv_delete_def answered_def)
qed

lemma confined_remove_each: "\<forall>key \<in> set keys. reserved_key key = None \<Longrightarrow> confined h (remove_each keys)"
proof (induction keys)
  case Nil
  show ?case by (simp add: confined_def kret_def agree_def)
next
  case (Cons key keys)
  then have one: "confined (\<lambda>_. ()) (kv_delete key)" and rest: "confined h (remove_each keys)"
    by (simp_all add: confined_writes)
  show ?case unfolding confined_def
  proof (intro allI impI)
    fix b b'
    assume ag: "agree b b'"
    have k: "reserved_key key = None" using Cons.prems by simp
    obtain r t where d: "kv_delete key b = (r, t)" by fastforce
    with same_result [OF ag k] obtain t' where d': "kv_delete key b' = (r, t')" by (cases "kv_delete key b'") auto
    from one ag d d' have t: "agree t t'" "\<And>j. reserved_key j \<noteq> None \<Longrightarrow> kv_map t j = kv_map b j"
      unfolding confined_def by (metis snd_conv)+
    from rest t(1) have "h (answered (fst (remove_each keys t))) = h (answered (fst (remove_each keys t')))"
      "agree (snd (remove_each keys t)) (snd (remove_each keys t'))"
      "\<And>j. reserved_key j \<noteq> None \<Longrightarrow> kv_map (snd (remove_each keys t)) j = kv_map t j"
      unfolding confined_def by blast+
    with t show "h (answered (fst (remove_each (key # keys) b))) = h (answered (fst (remove_each (key # keys) b'))) \<and>
        agree (snd (remove_each (key # keys) b)) (snd (remove_each (key # keys) b')) \<and>
        (\<forall>j. reserved_key j \<noteq> None \<longrightarrow> kv_map (snd (remove_each (key # keys) b)) j = kv_map b j)"
      by (cases r) (simp_all add: kbind_def d d' answered_def)
  qed
qed

lemma cleared_unreserved: "\<forall>key \<in> set (keys_a_window_clears order stored). reserved_key key = None"
  by (simp add: keys_a_window_clears_def)

lemma cleared_cong:
  "\<forall>key. reserved_key key = None \<longrightarrow> stored key = stored' key \<Longrightarrow>
    keys_a_window_clears order stored = keys_a_window_clears order stored'"
  unfolding keys_a_window_clears_def by (induction order) auto

lemma confined_clear: "confined h (clear_for_window order)"
  unfolding confined_def
proof (intro allI impI)
  fix b b'
  assume ag: "agree b b'"
  obtain f t where n: "next_fault b = (f, t)" by fastforce
  with agree_next [OF ag] obtain t' where n': "next_fault b' = (f, t')" and ag': "agree t t'"
    by (cases "next_fault b'") auto
  let ?ks = "keys_a_window_clears order (kv_map t)"
  have ks: "keys_a_window_clears order (kv_map t') = ?ks"
    using ag' by (intro cleared_cong) (simp add: agree_def)
  have "confined h (remove_each ?ks)" by (rule confined_remove_each [OF cleared_unreserved])
  with ag' have rm: "h (answered (fst (remove_each ?ks t))) = h (answered (fst (remove_each ?ks t')))"
      "agree (snd (remove_each ?ks t)) (snd (remove_each ?ks t'))"
      "\<And>j. reserved_key j \<noteq> None \<Longrightarrow> kv_map (snd (remove_each ?ks t)) j = kv_map t j"
    unfolding confined_def by blast+
  show "h (answered (fst (clear_for_window order b))) = h (answered (fst (clear_for_window order b'))) \<and>
      agree (snd (clear_for_window order b)) (snd (clear_for_window order b')) \<and>
      (\<forall>j. reserved_key j \<noteq> None \<longrightarrow> kv_map (snd (clear_for_window order b)) j = kv_map b j)"
    using rm ag' next_fault_map [OF n]
    by (cases f) (simp_all add: clear_for_window_def kbind_def kv_get_all_def n n' ks)
qed

definition shown_records :: "string + (string \<Rightarrow> octet list option) \<Rightarrow> string + (string \<Rightarrow> octet list option)" where
  "shown_records = map_sum id (\<lambda>stored key. if reserved_key key = None then stored key else None)"

lemma confined_get_all: "confined shown_records kv_get_all"
  unfolding confined_def
proof (intro allI impI)
  fix b b'
  assume ag: "agree b b'"
  obtain f t where n: "next_fault b = (f, t)" by fastforce
  with agree_next [OF ag] obtain t' where n': "next_fault b' = (f, t')" and ag': "agree t t'"
    by (cases "next_fault b'") auto
  show "shown_records (answered (fst (kv_get_all b))) = shown_records (answered (fst (kv_get_all b'))) \<and>
      agree (snd (kv_get_all b)) (snd (kv_get_all b')) \<and>
      (\<forall>j. reserved_key j \<noteq> None \<longrightarrow> kv_map (snd (kv_get_all b)) j = kv_map b j)"
    using ag' next_fault_map [OF n]
    by (cases f) (auto simp: kv_get_all_def n n' agree_def answered_def shown_records_def fun_eq_iff)
qed

section \<open>A request confined\<close>

lemma may_use_cong: "sv_sessions t = sv_sessions s \<Longrightarrow> may_use t conn c = may_use s conn c"
  by (simp add: may_use_def attached_to_def is_recovery_session_def)

lemma may_use_db [simp]: "may_use (s\<lparr>sv_db := d\<rparr>) conn c = may_use s conn c"
  by (rule may_use_cong) simp

lemma turned_away_cong:
  "sv_sessions t = sv_sessions s \<Longrightarrow> sv_hosts t = sv_hosts s \<Longrightarrow> turned_away E conn rq t = turned_away E conn rq s"
  by (simp add: turned_away_def attached_to_def is_recovery_session_def writes_hosted_conversation_def)

text \<open>What a step of a window leaves: the sessions and hosts, and of the store what it does not see.\<close>

definition untouched :: "client \<Rightarrow> service \<Rightarrow> service \<Rightarrow> bool" where
  "untouched conn s t \<longleftrightarrow>
     sv_sessions t = sv_sessions s \<and> sv_hosts t = sv_hosts s \<and>
     (\<forall>c p key. \<not> visible s conn c key \<longrightarrow> kv_map (sv_db t c p) key = kv_map (sv_db s c p) key)"

lemma untouched_refl: "untouched conn s s"
  by (simp add: untouched_def)

lemma untouched_trans:
  assumes st: "untouched conn s t" and tu: "untouched conn t u"
  shows "untouched conn s u"
proof -
  have eq: "sv_sessions t = sv_sessions s" "sv_hosts t = sv_hosts s" using st by (simp_all add: untouched_def)
  have v: "visible t conn c key = visible s conn c key" for c key
    by (simp only: visible_def may_use_cong [OF eq(1)])
  show ?thesis unfolding untouched_def
  proof (intro conjI allI impI)
    show "sv_sessions u = sv_sessions s" "sv_hosts u = sv_hosts s" using tu eq by (simp_all add: untouched_def)
    fix c p key
    assume "\<not> visible s conn c key"
    then show "kv_map (sv_db u c p) key = kv_map (sv_db s c p) key"
      using st tu v by (simp add: untouched_def)
  qed
qed

lemma on_bucket_eq:
  "on_bucket E c p m s =
     (let q = (case p of Some q \<Rightarrow> q | None \<Rightarrow> 0)
      in case en_target E c q of
           Some err \<Rightarrow> (Inl err, s)
         | None \<Rightarrow> (answered (fst (m (sv_db s c q))), s\<lparr>sv_db := (sv_db s)(c := (sv_db s c)(q := snd (m (sv_db s c q))))\<rparr>))"
  by (simp add: on_bucket_def Let_def case_prod_beta split: option.split)

lemma on_bucket_confined:
  assumes use: "may_use s conn c" and view: "same_view conn s s'" and call: "confined h m"
  shows "h (fst (on_bucket E c p m s)) = h (fst (on_bucket E c p m s'))"
    and "same_view conn (snd (on_bucket E c p m s)) (snd (on_bucket E c p m s'))"
    and "untouched conn s (snd (on_bucket E c p m s))"
proof -
  let ?q = "case p of Some q \<Rightarrow> q | None \<Rightarrow> 0"
  let ?b = "sv_db s c ?q" and ?b' = "sv_db s' c ?q"
  from view use have "agree ?b ?b'" by (simp add: same_view_def)
  with call have c: "h (answered (fst (m ?b))) = h (answered (fst (m ?b')))" "agree (snd (m ?b)) (snd (m ?b'))"
      "\<And>key. reserved_key key \<noteq> None \<Longrightarrow> kv_map (snd (m ?b)) key = kv_map ?b key"
    unfolding confined_def by blast+
  show "h (fst (on_bucket E c p m s)) = h (fst (on_bucket E c p m s'))"
    using c(1) by (simp only: on_bucket_eq Let_def) (simp split: option.split)
  show "same_view conn (snd (on_bucket E c p m s)) (snd (on_bucket E c p m s'))"
    using c(2) view by (cases "en_target E c ?q") (auto simp: on_bucket_eq Let_def same_view_def)
  show "untouched conn s (snd (on_bucket E c p m s))"
    using c(3) use by (cases "en_target E c ?q") (auto simp: on_bucket_eq Let_def untouched_def visible_def)
qed

text \<open>A handler that answers from what the call shows.\<close>

lemma shown_answer:
  assumes "h a = h b" "\<And>x y. h x = h y \<Longrightarrow> g x = g y"
  shows "g a = g b"
  using assms by blast

definition window_step :: "client \<Rightarrow> (service \<Rightarrow> 'y window_response option \<times> service) \<Rightarrow> service \<Rightarrow> bool" where
  "window_step conn f s \<longleftrightarrow>
     untouched conn s (snd (f s)) \<and>
     (\<forall>s'. same_view conn s s' \<longrightarrow> fst (f s) = fst (f s') \<and> same_view conn (snd (f s)) (snd (f s')))"

lemma window_stepI:
  assumes use: "may_use s conn c" and call: "confined h m"
    and f: "\<And>s. f s = (g (fst (on_bucket E c p m s)), snd (on_bucket E c p m s))"
    and g: "\<And>x y. h x = h y \<Longrightarrow> g x = g y"
  shows "window_step conn f s"
  unfolding window_step_def f fst_conv snd_conv
proof (intro conjI allI impI)
  have "same_view conn s s" by (simp add: same_view_def agree_def)
  then show "untouched conn s (snd (on_bucket E c p m s))" by (rule on_bucket_confined(3) [OF use _ call])
  fix s'
  assume v: "same_view conn s s'"
  show "g (fst (on_bucket E c p m s)) = g (fst (on_bucket E c p m s'))"
    by (rule g [OF on_bucket_confined(1) [OF use v call]])
  show "same_view conn (snd (on_bucket E c p m s)) (snd (on_bucket E c p m s'))"
    by (rule on_bucket_confined(2) [OF use v call])
qed

lemma admitted_use:
  assumes "turned_away E conn rq s = None" "local_only rq" "session_cid rq = Some c"
  shows "may_use s conn c"
  using assms
  by (cases rq)
    (auto simp: turned_away_def may_use_def gate_decision_for_def requires_owned_session_def recovery_allows_def
      split: if_splits option.splits bool.splits)

lemma admitted_key: "turned_away E conn rq s = None \<Longrightarrow> names_reserved_key rq = None"
  by (auto simp: turned_away_def split: if_splits option.splits)

lemma dispatch_confined:
  assumes t: "turned_away E conn rq s = None" and l: "local_only rq" and c: "session_cid rq = Some c"
  shows "window_step conn (dispatch E conn rq) s"
proof -
  note use = admitted_use [OF t l c] and key = admitted_key [OF t]
  show ?thesis
  proof (cases rq)
    case (LocalDBGetKV rid d p k)
    with key have "confined id (kv_get k)" by (intro confined_get) (simp add: names_reserved_key_def)
    with LocalDBGetKV use c show ?thesis
      by (intro window_stepI [where h = id and m = "kv_get k" and c = c and p = p and E = E and
            g = "\<lambda>a. Some (case a of Inl e \<Rightarrow> GetKVFailure c p e (Some rid) | Inr (Some v) \<Rightarrow> GetKVSuccess c p k v (Some rid)
                        | Inr None \<Rightarrow> GetKVFailure c p KEY_NOT_FOUND (Some rid))"])
        (auto simp: dispatch_def get_kv_def split: sum.split option.split prod.split)
  next
    case (LocalDBSetKV rid d p k v)
    with key have "confined id (kv_set k v)" by (intro confined_writes) (simp add: names_reserved_key_def)
    with LocalDBSetKV use c show ?thesis
      by (intro window_stepI [where h = id and m = "kv_set k v" and c = c and p = p and E = E and
            g = "\<lambda>a. Some (case a of Inl e \<Rightarrow> SetKVFailure c p e (Some rid) | Inr _ \<Rightarrow> SetKVSuccess c p k (Some rid))"])
        (auto simp: dispatch_def set_kv_def split: sum.split prod.split)
  next
    case (LocalDBDeleteKV rid d p k)
    with key have "confined id (kv_delete k)" by (intro confined_writes) (simp add: names_reserved_key_def)
    with LocalDBDeleteKV use c show ?thesis
      by (intro window_stepI [where h = id and m = "kv_delete k" and c = c and p = p and E = E and
            g = "\<lambda>a. Some (case a of Inl e \<Rightarrow> DeleteKVFailure c p e (Some rid) | Inr _ \<Rightarrow> DeleteKVSuccess c p k (Some rid))"])
        (auto simp: dispatch_def delete_kv_def split: sum.split prod.split)
  next
    case (LocalDBGetAllKV rid d p)
    with use c confined_get_all show ?thesis
      by (intro window_stepI [where h = shown_records and m = kv_get_all and c = c and p = p and E = E and
            g = "\<lambda>a. Some (case shown_records a of Inl e \<Rightarrow> GetAllKVFailure c p e (Some rid) | Inr m \<Rightarrow> GetAllKVSuccess c p m (Some rid))"])
        (auto simp: dispatch_def get_all_kv_def hide_reserved_keys_def shown_records_def split: sum.split prod.split)
  next
    case (LocalDBClearAllKV rid d p)
    with use c confined_clear [of id "en_order E"] show ?thesis
      by (intro window_stepI [where h = id and m = "clear_for_window (en_order E)" and c = c and p = p and E = E and
            g = "\<lambda>a. Some (case a of Inl e \<Rightarrow> ClearAllKVFailure c p e (Some rid) | Inr _ \<Rightarrow> ClearAllKVSuccess c p (Some rid))"])
        (auto simp: dispatch_def clear_all_kv_def split: sum.split prod.split)
  qed (use l c in auto)
qed

lemma handle_leaf:
  "(\<And>rid cs. rq \<noteq> Batched rid cs) \<Longrightarrow>
    handle_request E conn rq s =
      (case turned_away E conn rq s of Some message \<Rightarrow> (refusal_response rq message, s) | None \<Rightarrow> dispatch E conn rq s)"
  by (cases rq; auto split: option.split)

lemma batch_admitted [simp]: "turned_away E conn (Batched rid cs) s = None"
  by (simp add: turned_away_def smuggles_internal_http_def names_reserved_key_def writes_hosted_conversation_def Let_def)

lemma same_view_turned: "same_view conn s s' \<Longrightarrow> turned_away E conn rq s' = turned_away E conn rq s"
  by (rule turned_away_cong) (simp_all add: same_view_def)

lemma leaf_step:
  assumes "local_only rq" "\<And>rid cs. rq \<noteq> Batched rid cs"
  shows "window_step conn (handle_request E conn rq) s"
proof (cases "turned_away E conn rq s")
  case None
  obtain c where "session_cid rq = Some c" using assms by (cases rq) auto
  from dispatch_confined [OF None assms(1) this] None same_view_turned [of conn s _ E rq] show ?thesis
    by (simp add: window_step_def handle_leaf [OF assms(2)])
next
  case (Some message)
  with same_view_turned [of conn s _ E rq] show ?thesis
    by (simp add: window_step_def handle_leaf [OF assms(2)] untouched_refl)
qed

lemma all_steps:
  assumes "\<And>rq s. rq \<in> set cs \<Longrightarrow> window_step conn (handle_request E conn rq) s"
  shows "untouched conn s (snd (handle_all E conn cs s)) \<and>
    (\<forall>s'. same_view conn s s' \<longrightarrow>
      fst (handle_all E conn cs s) = fst (handle_all E conn cs s') \<and>
      same_view conn (snd (handle_all E conn cs s)) (snd (handle_all E conn cs s')))"
  using assms
proof (induction cs arbitrary: s)
  case Nil
  show ?case by (simp add: untouched_refl)
next
  case (Cons rq cs)
  let ?t = "\<lambda>s. snd (handle_request E conn rq s)"
  have eq: "handle_all E conn (rq # cs) s =
      (case fst (handle_request E conn rq s) of Some r \<Rightarrow> r # fst (handle_all E conn cs (?t s)) | None \<Rightarrow> fst (handle_all E conn cs (?t s)),
       snd (handle_all E conn cs (?t s)))" for s
    by (simp add: Let_def case_prod_beta)
  have step: "window_step conn (handle_request E conn rq) s" by (rule Cons.prems) simp
  have rest: "untouched conn (?t s) (snd (handle_all E conn cs (?t s)))"
    "\<And>s'. same_view conn (?t s) s' \<Longrightarrow> fst (handle_all E conn cs (?t s)) = fst (handle_all E conn cs s') \<and>
       same_view conn (snd (handle_all E conn cs (?t s))) (snd (handle_all E conn cs s'))"
    using Cons.IH [of "?t s"] Cons.prems by simp_all
  show ?case
  proof (intro conjI allI impI)
    show "untouched conn s (snd (handle_all E conn (rq # cs) s))"
      using untouched_trans [OF _ rest(1), of s] step by (simp only: eq snd_conv window_step_def)
    fix s'
    assume "same_view conn s s'"
    with step have "fst (handle_request E conn rq s) = fst (handle_request E conn rq s')" "same_view conn (?t s) (?t s')"
      by (simp_all add: window_step_def)
    with rest(2) [of "?t s'"]
    show "fst (handle_all E conn (rq # cs) s) = fst (handle_all E conn (rq # cs) s')"
      "same_view conn (snd (handle_all E conn (rq # cs) s)) (snd (handle_all E conn (rq # cs) s'))"
      by (simp_all only: eq fst_conv snd_conv)
  qed
qed

lemma request_step: "local_only rq \<Longrightarrow> window_step conn (handle_request E conn rq) s"
proof (induction rq arbitrary: s)
  case (Batched rid cs s)
  then have "\<And>rq s. rq \<in> set cs \<Longrightarrow> window_step conn (handle_request E conn rq) s" by (simp add: list_all_iff)
  from all_steps [OF this, of cs s] show ?case
    by (simp add: window_step_def case_prod_beta Let_def)
qed (rule leaf_step; simp)+

section \<open>A hosted account's conversations\<close>

lemma kv_put_other: "j \<noteq> key \<Longrightarrow> kv_map (snd (kv_put key v b)) j = kv_map b j"
  by (cases "next_fault b") (auto simp: kv_put_def next_fault_map split: fault.split)

lemma kv_reads_keep: "kv_map (snd (kv_get key b)) = kv_map b" "kv_map (snd (kv_get_all b)) = kv_map b"
  by (cases "next_fault b"; auto simp: kv_get_def kv_get_all_def next_fault_map split: fault.split)+

lemma on_bucket_map:
  "(c = d \<Longrightarrow> \<forall>b. kv_map (snd (m b)) j = kv_map b j) \<Longrightarrow> kv_map (sv_db (snd (on_bucket E c p m s)) d q) j = kv_map (sv_db s d q) j"
  by (auto simp: on_bucket_eq Let_def split: option.split)

lemma handler_states:
  "snd (get_kv E rid c p key s) = snd (on_bucket E c p (kv_get key) s)"
  "snd (set_kv E rid c p key v s) = snd (on_bucket E c p (kv_set key v) s)"
  "snd (delete_kv E rid c p key s) = snd (on_bucket E c p (kv_delete key) s)"
  "snd (get_all_kv E rid c p s) = snd (on_bucket E c p kv_get_all s)"
  "snd (clear_all_kv E rid c p s) = snd (on_bucket E c p (clear_for_window (en_order E)) s)"
  by (auto simp: get_kv_def set_kv_def delete_kv_def get_all_kv_def clear_all_kv_def split: prod.split sum.split option.split)

lemma hosted_leaf:
  assumes l: "local_only rq" "\<not> clears_bucket rq" "\<And>rid cs. rq \<noteq> Batched rid cs"
    and k: "conversation_owner key = Some owner" "is_hosted owner (sv_hosts s)"
  shows "kv_map (sv_db (snd (handle_request E conn rq s)) 0 q) key = kv_map (sv_db s 0 q) key"
proof (cases "turned_away E conn rq s")
  case None
  then have w: "\<not> writes_hosted_conversation s rq" by (auto simp: turned_away_def split: if_splits option.splits)
  show ?thesis
  proof (cases rq)
    case (LocalDBSetKV rid c p j v)
    with w k have "c = 0 \<Longrightarrow> j \<noteq> key" by (auto simp: writes_hosted_conversation_def is_some_and_def)
    with None LocalDBSetKV show ?thesis
      by (auto simp: dispatch_def handler_states kv_set_def kv_put_other intro!: on_bucket_map)
  next
    case (LocalDBDeleteKV rid c p j)
    with w k have "c = 0 \<Longrightarrow> j \<noteq> key" by (auto simp: writes_hosted_conversation_def is_some_and_def)
    with None LocalDBDeleteKV show ?thesis
      by (auto simp: dispatch_def handler_states kv_delete_def kv_put_other intro!: on_bucket_map)
  qed (use l None in \<open>auto simp: dispatch_def handler_states kv_reads_keep intro!: on_bucket_map\<close>)
next
  case (Some message)
  then show ?thesis by (simp add: handle_leaf [OF l(3)])
qed

lemma hosted_kept:
  "local_only rq \<Longrightarrow> \<not> clears_bucket rq \<Longrightarrow> conversation_owner key = Some owner \<Longrightarrow> is_hosted owner (sv_hosts s) \<Longrightarrow>
    kv_map (sv_db (snd (handle_request E conn rq s)) 0 q) key = kv_map (sv_db s 0 q) key"
proof (induction rq arbitrary: s)
  case (Batched rid cs s)
  have "\<forall>rq \<in> set cs. local_only rq \<and> \<not> clears_bucket rq \<Longrightarrow> is_hosted owner (sv_hosts s) \<Longrightarrow>
      kv_map (sv_db (snd (handle_all E conn cs s)) 0 q) key = kv_map (sv_db s 0 q) key" for s
    using Batched.IH
  proof (induction cs arbitrary: s)
    case (Cons rq cs)
    let ?t = "snd (handle_request E conn rq s)"
    have "sv_hosts ?t = sv_hosts s"
      using request_step [of rq conn E s] Cons.prems(1) by (simp add: window_step_def untouched_def)
    then have "kv_map (sv_db (snd (handle_all E conn cs ?t)) 0 q) key = kv_map (sv_db ?t 0 q) key"
      using Cons.prems by (intro Cons.IH) simp_all
    moreover have "kv_map (sv_db ?t 0 q) key = kv_map (sv_db s 0 q) key"
      using Cons.prems Batched.prems(3) by simp
    ultimately show ?case by (simp add: Let_def case_prod_beta)
  qed simp
  with Batched.prems show ?case by (simp add: case_prod_beta Let_def list_all_iff list_ex_iff)
qed (rule hosted_leaf; simp)+

section \<open>Who gets past the gate\<close>

text \<open>What a handler relies on when it is asked for a session: the caller is attached to it, or it is no session's.\<close>

lemma admitted_owner:
  assumes "turned_away E conn rq s = None" "session_cid rq = Some c"
  shows "c = 0 \<or> attached_to s conn c = Some True \<or> attached_to s conn c = None \<and> \<not> requires_owned_session rq"
  using assms by (auto simp: turned_away_def gate_decision_for_def split: if_splits option.splits bool.splits)

text \<open>
  A refused request is answered under its own id, but for nine kinds that no caller waits for in this way.
\<close>

definition answer_id :: "'y window_response \<Rightarrow> request_uuid option" where
  "answer_id r =
     (case r of
        GetKVSuccess _ _ _ _ rid \<Rightarrow> rid | GetKVFailure _ _ _ rid \<Rightarrow> rid | SetKVSuccess _ _ _ rid \<Rightarrow> rid
      | SetKVFailure _ _ _ rid \<Rightarrow> rid | DeleteKVSuccess _ _ _ rid \<Rightarrow> rid | DeleteKVFailure _ _ _ rid \<Rightarrow> rid
      | GetAllKVSuccess _ _ _ rid \<Rightarrow> rid | GetAllKVFailure _ _ _ rid \<Rightarrow> rid | ClearAllKVSuccess _ _ rid \<Rightarrow> rid
      | ClearAllKVFailure _ _ _ rid \<Rightarrow> rid | Failure _ _ _ rid \<Rightarrow> rid | StageUploadChunkFailure _ _ _ rid \<Rightarrow> rid
      | PeerConnectAcceptFailure _ _ _ rid \<Rightarrow> rid | AppFetchUnavailableSession _ rid \<Rightarrow> rid | AppKvFailure _ rid _ \<Rightarrow> rid
      | IhttpSendFailure _ _ rid _ \<Rightarrow> rid | BatchedResponse _ rid _ \<Rightarrow> rid | Handled _ \<Rightarrow> None)"

definition SILENT :: "session_op list" where
  "SILENT = [BrowserConsole, AppFetchCredit, AppFetchCancel, GroupListGroupsFor, MediaOpen, MediaClose, MediaSend,
     RespondFileTransfer, PeerRegisterRespond]"

lemma failure_of_None:
  "failure_of v = None \<longleftrightarrow> v \<in> set SILENT \<or> is_conversation_op v \<or> v = AppFetch \<or> v = GetAppNetUsage \<or> v = AppKv"
  by (cases v) (simp_all add: SILENT_def is_conversation_op_def)

lemma silent_op: "v \<in> set SILENT \<Longrightarrow> \<not> is_conversation_op v \<and> v \<noteq> AppFetch \<and> v \<noteq> GetAppNetUsage \<and> v \<noteq> AppKv"
  by (auto simp: SILENT_def is_conversation_op_def)

lemma refused_answered:
  assumes "session_cid rq = Some c"
  shows "case refusal_response rq message of
      None \<Rightarrow> (\<exists>v rid x. rq = OnSession v rid c x \<and> v \<in> set SILENT)
    | Some r \<Rightarrow> answer_id r = Some (request_id_of rq)"
proof (cases rq)
  case (OnSession v rid d x)
  with assms show ?thesis
    using failure_of_None [of v] by (cases "failure_of v") (auto simp: refusal_response_def answer_id_def)
qed (use assms in \<open>simp_all add: refusal_response_def answer_id_def\<close>)

section \<open>Pages older than the agent's hosting\<close>

lemma release_all:
  "distinct (at_order a) \<Longrightarrow>
    at_order (foldl (\<lambda>a m. snd (release_session m a)) a ms) = filter (\<lambda>m. m \<notin> set ms) (at_order a)"
proof (induction ms arbitrary: a)
  case (Cons m ms)
  have "at_order (snd (release_session m a)) = removeAll m (at_order a)"
    using Cons.prems by (simp add: release_session_def order_leave)
  with Cons show ?case
    by (simp add: distinct_removeAll removeAll_filter_not_eq) (auto intro: filter_cong)
qed simp

lemma older_pages_displaced:
  assumes "hm_get (sv_sessions s) c = Some e" "distinct (members (os_subscribers e))"
  shows "\<exists>e'. hm_get (sv_sessions (snd (displace_older_pages clients opened c s))) c = Some e' \<and>
    members (os_subscribers e') = filter (wants_agent_ilm s) (members (os_subscribers e))"
  using assms by (auto simp: displace_older_pages_def Let_def members_def release_all intro!: filter_cong)

section \<open>Windows are confined\<close>

lemma app_records_reserved:
  assumes "namespace_new hex a sc u = Inr ns"
  shows "reserved_key (ns_index ns) \<noteq> None" "ns_entry hex ns key = Inr k \<Longrightarrow> reserved_key k \<noteq> None"
    "reserved_key PRIVATE_NETWORK_KEY \<noteq> None"
proof -
  have "starts_with (ns_prefix ns @ t) APP_STORAGE_PREFIX" for t
    using namespace_prefix(1) [OF assms] by (simp add: starts_with_def APP_STORAGE_PREFIX_def)
  then show "reserved_key (ns_index ns) \<noteq> None" "ns_entry hex ns key = Inr k \<Longrightarrow> reserved_key k \<noteq> None"
    by (auto simp: reserved_key_def ns_index_def ns_entry_def split: if_splits)
  show "reserved_key PRIVATE_NETWORK_KEY \<noteq> None"
    by (simp add: reserved_key_def PRIVATE_NETWORK_KEY_def starts_with_def AGENT_KEY_PREFIX_def)
qed

text \<open>
  Every single-key read is behind the gate, whatever its key: for a session that is not the agent's own bucket and that the
  connection is not attached to it is refused, even for the keys that \<^verbatim>\<open>is_exempt_from_ownership_gate\<close> names.
  Three comments of the sources (\<^verbatim>\<open>requests/mod.rs\<close>, \<^verbatim>\<open>local_db/mod.rs\<close>) still say that \<^verbatim>\<open>LocalDBGetKV\<close> is exempt;
  \<^verbatim>\<open>handle_request\<close> computes the exemption and does not use it.
\<close>

lemma unowned_read_refused:
  fixes E :: "('x, 'y) agent_env"
  assumes "c \<noteq> 0" and "attached_to s conn c \<noteq> Some True"
  shows "handle_request E conn (LocalDBGetKV rid c p key) s =
    (refusal_response (LocalDBGetKV rid c p key :: 'x window_request) REFUSED, s)"
proof -
  have "gate_decision_for (LocalDBGetKV rid c p key :: 'x window_request) (attached_to s conn c) \<noteq> Proceed"
  proof (cases "attached_to s conn c")
    case (Some b)
    with assms show ?thesis by (cases b) (simp_all add: gate_decision_for_def)
  qed (use assms(1) in \<open>simp add: gate_decision_for_def requires_owned_session_def\<close>)
  then have "turned_away E conn (LocalDBGetKV rid c p key) s = Some REFUSED"
    by (simp add: turned_away_def is_some_and_def)
  then show ?thesis by simp
qed

lemma exempt_read_refused:
  fixes E :: "('x, 'y) agent_env"
  shows "is_exempt_from_ownership_gate (LocalDBGetKV rid 5 p ''last_sent-5'' :: 'x window_request) \<and>
   (attached_to s conn 5 \<noteq> Some True \<longrightarrow>
    handle_request E conn (LocalDBGetKV rid 5 p ''last_sent-5'') s =
      (refusal_response (LocalDBGetKV rid 5 p ''last_sent-5'' :: 'x window_request) REFUSED, s))"
proof
  show "is_exempt_from_ownership_gate (LocalDBGetKV rid 5 p ''last_sent-5'' :: 'x window_request)"
    by (simp add: is_exempt_from_ownership_gate_def is_ilm_key_for_def ILM_KEY_PREFIXES_def) code_simp
qed (use unowned_read_refused [of 5] in auto)

text \<open>
  C39. A window's requests for the store, alone or in a batch, reach only what the window may see: the records, other than the
  agent's own, of the sessions it is attached to and of the bucket of no session. Nothing else is changed; the answer and what
  the window sees afterwards are the same whatever else the store holds; every record of an app's storage is among what it cannot
  reach; and unless it clears a bucket it leaves the conversations of a hosted account alone. A read of one key of another
  session is refused like every other request, for every key (the exemption that comments of the sources still describe is
  computed and not applied).
\<close>

theorem window_confined:
  assumes "local_only rq" and "same_view conn s s'"
    and "handle_request E conn rq s = (r, t)" and "handle_request E conn rq s' = (r', t')"
    and "namespace_new hex a sc u = Inr ns"
  shows "r = r' \<and> same_view conn t t' \<and>
    (\<forall>c p key. \<not> visible s conn c key \<longrightarrow> kv_map (sv_db t c p) key = kv_map (sv_db s c p) key) \<and>
    (\<forall>c. \<not> visible s conn c (ns_index ns) \<and> (\<forall>key k. ns_entry hex ns key = Inr k \<longrightarrow> \<not> visible s conn c k)) \<and>
    (\<forall>p key owner. \<not> clears_bucket rq \<and> conversation_owner key = Some owner \<and> is_hosted owner (sv_hosts s) \<longrightarrow>
      kv_map (sv_db t 0 p) key = kv_map (sv_db s 0 p) key) \<and>
    (\<forall>rid c p key. rq = LocalDBGetKV rid c p key \<and> c \<noteq> 0 \<and> attached_to s conn c \<noteq> Some True \<longrightarrow>
      r = refusal_response rq REFUSED \<and> t = s)"
proof -
  have "window_step conn (handle_request E conn rq) s" by (rule request_step [OF assms(1)])
  with assms(2-4) have step: "r = r'" "same_view conn t t'" "untouched conn s t" by (auto simp: window_step_def)
  moreover have "kv_map (sv_db t 0 p) key = kv_map (sv_db s 0 p) key"
    if "\<not> clears_bucket rq" "conversation_owner key = Some owner" "is_hosted owner (sv_hosts s)" for p key owner
    using hosted_kept [OF assms(1) that, of E conn p] by (simp add: assms(3))
  moreover have "r = refusal_response rq REFUSED \<and> t = s"
    if "rq = LocalDBGetKV rid c p key" "c \<noteq> 0" "attached_to s conn c \<noteq> Some True" for rid c p key
    using unowned_read_refused [OF that(2,3), of E rid p key] assms(3) that(1) by simp
  ultimately show ?thesis
    using app_records_reserved(1,2) [OF assms(5)] by (auto simp: untouched_def visible_def simp del: handle_request.simps)
qed

text \<open>A service with a window on account 5, and what differs is an app's record: the answers do not.\<close>

definition demo_env :: "(unit, unit) agent_env" where
  "demo_env = \<lparr>en_target = (\<lambda>_ _. None), en_allowed_in_recovery = (\<lambda>_. False), en_order = [''app:a'', ''note''], en_handle = (\<lambda>_ _ s. (None, s))\<rparr>"

definition demo_service :: "octet list \<Rightarrow> service" where
  "demo_service app_record =
     \<lparr>sv_sessions = [(5, \<lparr>os_subscribers = new_subscribers 1, os_recovery = False\<rparr>)], sv_capabilities = [], sv_hosts = new_registry,
      sv_db = (\<lambda>_ _. \<lparr>kv_map = [''app:a'' \<mapsto> app_record, ''note'' \<mapsto> [7]], kv_faults = []\<rparr>)\<rparr>"

lemma demo_reserved: "reserved_key ''app:a'' = Some APP_STORAGE_REFUSED" "reserved_key ''note'' = None"
  by (simp_all add: reserved_key_def starts_with_def APP_STORAGE_PREFIX_def AGENT_KEY_PREFIX_def AUTO_INSTALL_KEY_def)

theorem window_confined_witness:
  "fst (handle_request demo_env 1 (Batched 9 [LocalDBGetAllKV 2 5 None, LocalDBSetKV 3 5 None ''app:a'' []]) (demo_service [1])) =
   fst (handle_request demo_env 1 (Batched 9 [LocalDBGetAllKV 2 5 None, LocalDBSetKV 3 5 None ''app:a'' []]) (demo_service [2]))"
proof -
  have view: "same_view 1 (demo_service [1]) (demo_service [2])"
    by (auto simp: same_view_def demo_service_def agree_def demo_reserved)
  obtain r t where 1: "handle_request demo_env 1 (Batched 9 [LocalDBGetAllKV 2 5 None, LocalDBSetKV 3 5 None ''app:a'' []]) (demo_service [1]) = (r, t)"
    by fastforce
  obtain r' t' where 2: "handle_request demo_env 1 (Batched 9 [LocalDBGetAllKV 2 5 None, LocalDBSetKV 3 5 None ''app:a'' []]) (demo_service [2]) = (r', t')"
    by fastforce
  have ns: "namespace_new hex_encode ''a.b'' ''x'' ''y'' = Inr demo_ns" by code_simp
  show ?thesis using window_confined [OF _ view 1 2 ns] unfolding 1 2 by simp
qed

section \<open>What the gate lets through\<close>

text \<open>
  The bucket of no session holds every account's conversations, and any connection may read and clear it: the refusal of writes
  to a hosted account's conversations, of which the agent is to be the only writer, names single keys only.
\<close>

lemma remove_each_fine:
  "kv_faults b = [] \<Longrightarrow> remove_each ks b = (KOk (), b\<lparr>kv_map := (\<lambda>key. if key \<in> set ks then None else kv_map b key)\<rparr>)"
proof (induction ks arbitrary: b)
  case Nil
  show ?case by (simp add: kret_def)
next
  case (Cons k ks)
  then show ?case by (auto simp: kbind_def kv_delete_def kv_put_def next_fault_def fun_eq_iff intro!: arg_cong [where f = "\<lambda>m. b\<lparr>kv_map := m\<rparr>"])
qed

theorem any_connection_clears_conversations:
  assumes "sv_sessions s = []" and "en_target E 0 0 = None" and "kv_faults (sv_db s 0 0) = []"
    and "key \<in> set (en_order E)" and "reserved_key key = None"
    and "conversation_owner key = Some owner" and "is_hosted owner (sv_hosts s)"
    and "kv_map (sv_db s 0 0) key = Some v"
  shows "(\<exists>m. fst (handle_request E conn (LocalDBGetAllKV rid 0 None) s) = Some (GetAllKVSuccess 0 None m (Some rid)) \<and> m key = Some v) \<and>
    kv_map (sv_db (snd (handle_request E conn (LocalDBClearAllKV rid 0 None) s)) 0 0) key = None"
proof -
  have in_: "turned_away E conn (LocalDBGetAllKV rid 0 None) s = None" "turned_away E conn (LocalDBClearAllKV rid 0 None) s = None"
    by (simp_all add: turned_away_def gate_decision_for_def is_recovery_session_def assms(1) smuggles_internal_http_def
        names_reserved_key_def writes_hosted_conversation_def is_some_and_def)
  have all: "kv_get_all (sv_db s 0 0) = (KOk (kv_map (sv_db s 0 0)), sv_db s 0 0)"
    using assms(3) by (simp add: kv_get_all_def next_fault_def)
  have "snd (clear_for_window (en_order E) (sv_db s 0 0)) = (sv_db s 0 0)\<lparr>kv_map := (\<lambda>k. if k \<in> set (keys_a_window_clears (en_order E) (kv_map (sv_db s 0 0))) then None else kv_map (sv_db s 0 0) k)\<rparr>"
    using remove_each_fine [OF assms(3)] by (simp add: clear_for_window_def kbind_def all)
  with in_ assms all show ?thesis
    by (auto simp: dispatch_def get_all_kv_def handler_states on_bucket_eq answered_def hide_reserved_keys_def keys_a_window_clears_def)
qed

end
