(* ===== verification/Inbound_Connect.thy ===== *)
theory Inbound_Connect
  imports Request_Gate Preferences
begin

text \<open>
  How the agent answers a peer's offer of a connection for an account it hosts
  (\<^verbatim>\<open>kernel/inbound_connect/{decide,mod}.rs\<close>, \<^verbatim>\<open>kernel/requests/peer/answer.rs\<close>,
  \<^verbatim>\<open>chat_level.rs\<close>). The SDK's levels and the value each is ranked by (\<^verbatim>\<open>rank\<close>), its list of an
  account's peers and the outcomes of its calls are arguments.
\<close>

section \<open>The decision (decide.rs)\<close>

datatype pause_record = PauseAbsent | Paused | PauseUnreadable

definition PAUSED_MARKER :: "octet list" where "PAUSED_MARKER = lit ''paused''"

definition pause_from_read :: "string + octet list option \<Rightarrow> pause_record" where
  "pause_from_read stored =
     (case stored of
        Inr None \<Rightarrow> PauseAbsent
      | Inr (Some v) \<Rightarrow> if v = PAUSED_MARKER then Paused else PauseUnreadable
      | Inl _ \<Rightarrow> PauseUnreadable)"

datatype agent_answer = AnswerAccept | AnswerDecline | NoAnswerSent | LeaveToWindows

definition agent_has_it :: "agent_answer \<Rightarrow> bool" where "agent_has_it a \<longleftrightarrow> a \<noteq> LeaveToWindows"

record 'l offer_facts =
  fa_registered :: "bool option"
  fa_pause :: pause_record
  fa_offered :: 'l
  fa_minimum :: "'l option"

definition decide_offer :: "('l \<Rightarrow> nat) \<Rightarrow> 'l offer_facts \<Rightarrow> agent_answer" where
  "decide_offer rank facts =
     (if fa_registered facts \<noteq> Some True then LeaveToWindows
      else case fa_pause facts of
             Paused \<Rightarrow> AnswerDecline
           | PauseUnreadable \<Rightarrow> NoAnswerSent
           | PauseAbsent \<Rightarrow>
               (case fa_minimum facts of
                  None \<Rightarrow> NoAnswerSent
                | Some minimum \<Rightarrow> if rank (fa_offered facts) < rank minimum then AnswerDecline else AnswerAccept))"

section \<open>A chat's level (chat\_level.rs)\<close>

text \<open>The four levels of the SDK that a chat's level stands for.\<close>

record 'l sdk_levels =
  sl_standard :: 'l
  sl_reinforced :: 'l
  sl_high :: 'l
  sl_extreme :: 'l

definition chat_level_sdk :: "'l sdk_levels \<Rightarrow> chat_level \<Rightarrow> 'l" where
  "chat_level_sdk L level =
     (case level of
        Standard \<Rightarrow> sl_standard L
      | Reinforced \<Rightarrow> sl_reinforced L
      | High \<Rightarrow> sl_high L
      | Extreme \<Rightarrow> sl_extreme L)"

definition level_admits :: "'l sdk_levels \<Rightarrow> ('l \<Rightarrow> nat) \<Rightarrow> chat_level \<Rightarrow> 'l \<Rightarrow> bool" where
  "level_admits L rank level offered \<longleftrightarrow> rank (chat_level_sdk L level) \<le> rank offered"

section \<open>What the agent reads (mod.rs)\<close>

definition pause_key :: "cid \<Rightarrow> string" where "pause_key peer = ''p2p_paused_peer_'' @ show_nat (unat peer)"

definition session_kv_get ::
  "('x, 'y) agent_env \<Rightarrow> request_uuid \<Rightarrow> cid \<Rightarrow> string \<Rightarrow> service \<Rightarrow> (string + octet list option) \<times> service" where
  "session_kv_get E rid c key s =
     (case answer_local_db E (LocalDBGetKV rid c None key) s of
        (GetKVSuccess _ _ _ v _, s) \<Rightarrow> (Inr (Some v), s)
      | (GetKVFailure _ _ message _, s) \<Rightarrow> (if message = KEY_NOT_FOUND then Inr None else Inl message, s)
      | (_, s) \<Rightarrow> (Inl ''unexpected answer'', s))"

definition registered_with :: "string + cid list option \<Rightarrow> cid \<Rightarrow> bool option" where
  "registered_with peers peer =
     (case peers of Inr found \<Rightarrow> Some (is_some_and found (\<lambda>ps. peer \<in> set ps)) | Inl _ \<Rightarrow> None)"

definition agent_answer_for ::
  "('x, 'y) agent_env \<Rightarrow> json_text \<Rightarrow> 'l sdk_levels \<Rightarrow> ('l \<Rightarrow> nat) \<Rightarrow> string + cid list option \<Rightarrow> request_uuid \<Rightarrow>
    cid \<Rightarrow> cid \<Rightarrow> 'l \<Rightarrow> service \<Rightarrow> agent_answer \<times> service" where
  "agent_answer_for E J L rank peers rid c peer offered s =
     (if \<not> is_hosted c (sv_hosts s) then (LeaveToWindows, s)
      else
        let (paused, s) = session_kv_get E rid c (pause_key peer) s;
            (prefs, s) = on_bucket E 0 None (preferences J c) s;
            minimum = (case prefs of Inr p \<Rightarrow> Some (chat_level_sdk L (security_minimum_for p peer)) | Inl _ \<Rightarrow> None)
        in (decide_offer rank \<lparr>fa_registered = registered_with peers peer, fa_pause = pause_from_read paused,
              fa_offered = offered, fa_minimum = minimum\<rparr>, s))"

section \<open>Sending the answer (answer.rs)\<close>

record 'g offers =
  po_connected :: "(cid \<times> cid) set"
  po_pending :: "(cid \<times> cid, 'g) hmap"

definition store_offer :: "cid \<Rightarrow> cid \<Rightarrow> 'g \<Rightarrow> 'g offers \<Rightarrow> 'g offers" where
  "store_offer c peer signal s = s\<lparr>po_pending := hm_insert (c, peer) signal (po_pending s)\<rparr>"

text \<open>What is sent: nothing, or the answer to the pending signal with the relay configuration set for it.\<close>

definition answer_offer ::
  "cid \<Rightarrow> cid \<Rightarrow> bool \<Rightarrow> 't option \<Rightarrow> ('t option \<Rightarrow> string option) \<Rightarrow> ('g \<Rightarrow> bool \<Rightarrow> string option) \<Rightarrow> 'g offers \<Rightarrow>
    (string + ('g \<times> bool \<times> 't option) option) \<times> 'g offers" where
  "answer_offer c peer accept turn set_peer_turn peer_connect s =
     (let already_connected = ((c, peer) \<in> po_connected s);
          offer_waiting = (hm_get (po_pending s) (c, peer) \<noteq> None)
      in if accept \<and> already_connected \<and> \<not> offer_waiting then (Inr None, s)
         else case hm_get (po_pending s) (c, peer) of
                None \<Rightarrow> (Inl (''No pending connection request from peer '' @ show_nat (unat peer)), s)
              | Some signal \<Rightarrow>
                  let s = s\<lparr>po_pending := hm_remove (c, peer) (po_pending s)\<rparr>; turn = (if accept then turn else None)
                  in case set_peer_turn turn of
                       Some err \<Rightarrow> (Inl err, s)
                     | None \<Rightarrow>
                         (case peer_connect signal accept of
                            Some err \<Rightarrow> (Inl err, s)
                          | None \<Rightarrow> (Inr (Some (signal, accept, turn)), s)))"

definition answer_as_agent ::
  "cid \<Rightarrow> cid \<Rightarrow> agent_answer \<Rightarrow> 't option \<Rightarrow> ('t option \<Rightarrow> string option) \<Rightarrow> ('g \<Rightarrow> bool \<Rightarrow> string option) \<Rightarrow> 'g offers \<Rightarrow>
    ('g \<times> bool \<times> 't option) option \<times> 'g offers" where
  "answer_as_agent c peer answer window_relay set_peer_turn peer_connect s =
     (let send = (\<lambda>accept. case answer_offer c peer accept window_relay set_peer_turn peer_connect s of
                     (Inr sent, s) \<Rightarrow> (sent, s) | (Inl _, s) \<Rightarrow> (None, s))
      in case answer of
           AnswerAccept \<Rightarrow> send True
         | AnswerDecline \<Rightarrow> send False
         | _ \<Rightarrow> (None, s))"

section \<open>An offer is answered once\<close>

text \<open>What was sent answers the offer that was waiting, which waits no longer; with none waiting nothing is sent.\<close>

lemma answered_once:
  assumes "hm_wf (po_pending s)"
  shows "case answer_offer c peer accept turn st pc s of
      (Inr (Some (signal, a, u)), t) \<Rightarrow> hm_get (po_pending s) (c, peer) = Some signal \<and> a = accept \<and> hm_get (po_pending t) (c, peer) = None
    | (_, t) \<Rightarrow> hm_get (po_pending t) (c, peer) = None"
  using assms
  by (auto simp: answer_offer_def Let_def split: option.splits if_splits)

lemma other_offers_kept:
  assumes "hm_wf (po_pending s)" "k \<noteq> (c, peer)"
  shows "hm_get (po_pending (snd (answer_offer c peer accept turn st pc s))) k = hm_get (po_pending s) k"
  using assms by (auto simp: answer_offer_def Let_def split: option.splits if_splits)

lemma no_decline_swallowed:
  "fst (answer_offer c peer False turn st pc s) \<noteq> Inr None"
  by (auto simp: answer_offer_def Let_def split: option.splits)

section \<open>What is accepted\<close>

lemma decide_accept:
  "decide_offer rank f = AnswerAccept \<longleftrightarrow>
    fa_registered f = Some True \<and> fa_pause f = PauseAbsent \<and>
    (\<exists>m. fa_minimum f = Some m \<and> rank m \<le> rank (fa_offered f))"
  by (auto simp: decide_offer_def split: pause_record.splits option.splits)

text \<open>The store's failures are told apart from a key it does not hold by their text.\<close>

definition told_apart :: "('x, 'y) agent_env \<Rightarrow> service \<Rightarrow> cid \<Rightarrow> bool" where
  "told_apart E s c \<longleftrightarrow>
     en_target E c 0 \<noteq> Some KEY_NOT_FOUND \<and> (\<forall>e a. Fault e a \<in> set (kv_faults (sv_db s c 0)) \<longrightarrow> e \<noteq> KEY_NOT_FOUND)"

lemma absent_read:
  assumes "told_apart E s c" "session_kv_get E rid c key s = (Inr None, t)"
  shows "kv_map (sv_db s c 0) key = None"
proof (cases "en_target E c 0")
  case None
  obtain f b where n: "next_fault (sv_db s c 0) = (f, b)" by fastforce
  have m: "kv_map b = kv_map (sv_db s c 0)" and f: "f = Fine \<or> f \<in> set (kv_faults (sv_db s c 0))"
    using n by (auto simp: next_fault_def split: list.splits)
  from assms None n m f show ?thesis
    by (cases f; cases "kv_map b key")
      (auto simp: session_kv_get_def get_kv_def on_bucket_def kv_get_def answered_def told_apart_def split: if_splits)
next
  case (Some err)
  with assms show ?thesis
    by (auto simp: session_kv_get_def get_kv_def on_bucket_def told_apart_def split: if_splits)
qed

text \<open>
  C40. The agent accepts an offer only for an account it hosts, from a peer registered with that account, for which the session's
  own store holds no pause record, and at a level no lower than the minimum that the account's stored preferences set for that peer.
  When it accepts or declines, the answer it sends is to the offer waiting, and no other answer is sent to it.
\<close>

theorem agent_accepts_only_wanted:
  assumes "told_apart E s c"
    and "agent_answer_for E J L rank peers rid c peer offered s = (answer, t)"
    and "hm_wf (po_pending q)"
    and "answer_as_agent c peer answer turn set_peer_turn peer_connect q = (sent, q')"
  shows "(answer = AnswerAccept \<longrightarrow>
      is_hosted c (sv_hosts s) \<and> (\<exists>ps. peers = Inr (Some ps) \<and> peer \<in> set ps) \<and>
      kv_map (sv_db s c 0) (pause_key peer) = None \<and>
      (\<exists>p. fst (on_bucket E 0 None (preferences J c) (snd (session_kv_get E rid c (pause_key peer) s))) = Inr p \<and>
        level_admits L rank (security_minimum_for p peer) offered)) \<and>
    (case sent of
       Some (signal, accept, _) \<Rightarrow>
         hm_get (po_pending q) (c, peer) = Some signal \<and> accept = (answer = AnswerAccept) \<and> answer \<in> {AnswerAccept, AnswerDecline} \<and>
         hm_get (po_pending q') (c, peer) = None
     | None \<Rightarrow> answer \<in> {NoAnswerSent, LeaveToWindows} \<longrightarrow> q' = q)"
proof (rule conjI)
  show "answer = AnswerAccept \<longrightarrow>
      is_hosted c (sv_hosts s) \<and> (\<exists>ps. peers = Inr (Some ps) \<and> peer \<in> set ps) \<and>
      kv_map (sv_db s c 0) (pause_key peer) = None \<and>
      (\<exists>p. fst (on_bucket E 0 None (preferences J c) (snd (session_kv_get E rid c (pause_key peer) s))) = Inr p \<and>
        level_admits L rank (security_minimum_for p peer) offered)"
  proof
    assume acc: "answer = AnswerAccept"
    obtain read s1 where r: "session_kv_get E rid c (pause_key peer) s = (read, s1)" by fastforce
    obtain prefs s2 where p: "on_bucket E 0 None (preferences J c) s1 = (prefs, s2)" by fastforce
    from acc assms(2) have h: "is_hosted c (sv_hosts s)" by (auto simp: agent_answer_for_def split: if_splits)
    from acc assms(2) h have d: "registered_with peers peer = Some True" "pause_from_read read = PauseAbsent"
        "\<exists>q. prefs = Inr q \<and> rank (chat_level_sdk L (security_minimum_for q peer)) \<le> rank offered"
      by (auto simp: agent_answer_for_def r p decide_accept split: sum.splits)
    from d(2) have "read = Inr None" by (auto simp: pause_from_read_def split: sum.splits option.splits if_splits)
    with absent_read [OF assms(1)] r have "kv_map (sv_db s c 0) (pause_key peer) = None" by blast
    moreover from d(1) have "\<exists>ps. peers = Inr (Some ps) \<and> peer \<in> set ps"
      by (auto simp: registered_with_def is_some_and_def split: sum.splits option.splits)
    ultimately show "is_hosted c (sv_hosts s) \<and> (\<exists>ps. peers = Inr (Some ps) \<and> peer \<in> set ps) \<and>
      kv_map (sv_db s c 0) (pause_key peer) = None \<and>
      (\<exists>p. fst (on_bucket E 0 None (preferences J c) (snd (session_kv_get E rid c (pause_key peer) s))) = Inr p \<and>
        level_admits L rank (security_minimum_for p peer) offered)"
      using h d(3) p r by (auto simp: level_admits_def)
  qed
next
  show "case sent of
       Some (signal, accept, _) \<Rightarrow>
         hm_get (po_pending q) (c, peer) = Some signal \<and> accept = (answer = AnswerAccept) \<and> answer \<in> {AnswerAccept, AnswerDecline} \<and>
         hm_get (po_pending q') (c, peer) = None
     | None \<Rightarrow> answer \<in> {NoAnswerSent, LeaveToWindows} \<longrightarrow> q' = q"
    using assms(4) answered_once [OF assms(3), of c peer "answer = AnswerAccept" turn set_peer_turn peer_connect]
    by (cases answer) (auto simp: answer_as_agent_def Let_def split: prod.splits sum.splits option.splits)
qed

text \<open>Account 5 is hosted, with nothing stored, and peer 9 offers a connection.\<close>

definition hosting_env :: "(unit, unit) agent_env" where
  "hosting_env = \<lparr>en_target = (\<lambda>_ _. None), en_allowed_in_recovery = (\<lambda>_. False), en_order = [], en_handle = (\<lambda>_ _ s. (None, s))\<rparr>"

definition hosting_service :: service where
  "hosting_service =
     \<lparr>sv_sessions = [], sv_capabilities = [], sv_hosts = \<lparr>ir_hosts = [(5, Running 0)], ir_tickets = 1\<rparr>,
      sv_db = (\<lambda>_ _. \<lparr>kv_map = (\<lambda>_. None), kv_faults = []\<rparr>)\<rparr>"

definition demo_levels :: "nat sdk_levels" where
  "demo_levels = \<lparr>sl_standard = 0, sl_reinforced = 1, sl_high = 2, sl_extreme = 4\<rparr>"

theorem agent_accepts_only_wanted_witness:
  "\<exists>t. agent_answer_for hosting_env text_codec demo_levels id (Inr (Some [9])) 1 5 9 0 hosting_service = (AnswerAccept, t) \<and>
    kv_map (sv_db hosting_service 5 0) (pause_key 9) = None \<and>
    answer_as_agent 5 9 AnswerAccept (None :: unit option) (\<lambda>_. None) (\<lambda>_ _. None) \<lparr>po_connected = {}, po_pending = [((5, 9), ())]\<rparr> =
      (Some ((), True, None), \<lparr>po_connected = {}, po_pending = []\<rparr>)"
proof -
  have told: "told_apart hosting_env hosting_service 5" by (simp add: told_apart_def hosting_env_def hosting_service_def)
  have low: "chat_level_sdk demo_levels (security_minimum_for UI_DEFAULTS 9) = 0"
    by (simp add: chat_level_sdk_def demo_levels_def security_minimum_for_def UI_DEFAULTS_def)
  have a: "agent_answer_for hosting_env text_codec demo_levels id (Inr (Some [9])) 1 5 9 0 hosting_service = (AnswerAccept, hosting_service)"
    by (simp add: agent_answer_for_def hosting_env_def hosting_service_def is_hosted_def session_kv_get_def get_kv_def on_bucket_def
        kv_get_def next_fault_def answered_def preferences_def kbind_def kret_def registered_with_def is_some_and_def
        pause_from_read_def decide_offer_def Let_def fun_upd_idem low)
  have sent: "answer_as_agent 5 9 AnswerAccept (None :: unit option) (\<lambda>_. None) (\<lambda>_ _. None) \<lparr>po_connected = {}, po_pending = [((5, 9), ())]\<rparr> =
      (Some ((), True, None), \<lparr>po_connected = {}, po_pending = []\<rparr>)"
    by (simp add: answer_as_agent_def answer_offer_def Let_def)
  show ?thesis using agent_accepts_only_wanted [OF told a _ sent] a sent by simp
qed

end
