(* ===== verification/Origin_Policy.thy ===== *)
theory Origin_Policy
  imports Release_Signature
begin

text \<open>
  Which browser origins may open a connection to the agent
  (\<^verbatim>\<open>citadel-internal-service-connector/src/io_interface/origin_policy.rs\<close>). Strings are their bytes.
\<close>

datatype origin_policy = AllowOrigins "string list" | AnyOrigin

datatype origin_error = NoOrigins | WildcardCombined | TrailingSlash string | NoScheme string

definition origin_entries :: "string \<Rightarrow> string list" where
  "origin_entries spec = filter (\<lambda>e. e \<noteq> []) (map trim (split_on CHR '','' spec))"

definition parse_origins :: "string \<Rightarrow> origin_error + origin_policy" where
  "parse_origins spec =
     (let entries = origin_entries spec
      in if entries = [] then Inl NoOrigins
         else if ''*'' \<in> set entries then (if 1 < length entries then Inl WildcardCombined else Inr AnyOrigin)
         else case List.find (\<lambda>e. ends_with e ''/'') entries of
                Some bad \<Rightarrow> Inl (TrailingSlash bad)
              | None \<Rightarrow>
                  (case List.find (\<lambda>e. \<not> starts_with e ''http://'' \<and> \<not> starts_with e ''https://'') entries of
                     Some bad \<Rightarrow> Inl (NoScheme bad)
                   | None \<Rightarrow> Inr (AllowOrigins entries)))"

definition permits_origin :: "origin_policy \<Rightarrow> string option \<Rightarrow> bool" where
  "permits_origin policy origin =
     (case policy of
        AnyOrigin \<Rightarrow> True
      | AllowOrigins allowed \<Rightarrow> (case origin of None \<Rightarrow> True | Some o' \<Rightarrow> list_ex (\<lambda>e. e = o') allowed))"

text \<open>
  A page is let in only if the specification is the wildcard alone or names its origin exactly; then the origin has a scheme
  and no trailing slash.
\<close>

lemma find_None: "List.find P xs = None \<longleftrightarrow> (\<forall>x \<in> set xs. \<not> P x)"
  by (induction xs) auto

lemma single_entry: "x \<in> set es \<Longrightarrow> \<not> 1 < length es \<Longrightarrow> es = [x]"
  by (cases es) auto

theorem page_permitted_only_if_listed:
  assumes "parse_origins spec = Inr policy" "permits_origin policy (Some origin)"
  shows "origin_entries spec = [''*''] \<or>
    origin \<in> set (origin_entries spec) \<and> \<not> ends_with origin ''/'' \<and>
    (starts_with origin ''http://'' \<or> starts_with origin ''https://'')"
proof (cases "''*'' \<in> set (origin_entries spec)")
  case True
  with assms single_entry [OF this] show ?thesis by (auto simp: parse_origins_def Let_def split: if_splits)
next
  case False
  with assms show ?thesis
    by (auto simp: parse_origins_def permits_origin_def Let_def find_None list_ex_iff split: if_splits option.splits)
qed

end
