(* ===== verification/Updater.thy ===== *)
theory Updater
  imports Release_Signature
begin

text \<open>
  The self-updater (\<^verbatim>\<open>citadel-internal-service/src/updater\<close>): how this agent was installed and
  what may replace it (\<^verbatim>\<open>platform.rs\<close>), what a release offers (\<^verbatim>\<open>version.rs\<close>,
  \<^verbatim>\<open>release.rs\<close>), whether a download may be installed (\<^verbatim>\<open>verify.rs\<close>, \<^verbatim>\<open>fetch.rs\<close>),
  when it is (\<^verbatim>\<open>policy.rs\<close>) and the engine that sequences them (\<^verbatim>\<open>engine.rs\<close>,
  \<^verbatim>\<open>engine_status.rs\<close>). The \<^verbatim>\<open>semver\<close> and \<^verbatim>\<open>serde_json\<close> crates and the seams of
  \<^verbatim>\<open>io.rs\<close> are parameters; a call's answers are fields of the environment the operation runs
  in. The texts of refusals are reduced to what they report. An operation is atomic, as the
  engine's busy lock makes it against the others that change the offer.
\<close>

section \<open>How the agent was installed (platform.rs)\<close>

type_synonym path = "string list"

datatype os = MacOs | Linux | Windows | OtherOs
datatype arch = Arm64 | X64 | OtherArch

record host_facts =
  hf_os :: os
  hf_arch :: arch
  hf_exe :: path
  hf_appimage :: "path option"
  hf_dpkg_owned :: bool
  hf_launched_by_app :: bool
  hf_replaceable :: bool

datatype unknown_why = NotStartedByApp | CannotReplace path | NoBuildForOs

datatype install_kind =
    MacAppInstall path | BinaryInstall path | AppImageInstall path | DebInstall | MsiInstall
  | UnknownInstall unknown_why

datatype install_method = MacAppMethod | TarballMethod | AppImageMethod

datatype plan = Apply string install_method | LinkOnlyPlan "string option"

text \<open>\<^verbatim>\<open>Path::parent\<close>, \<^verbatim>\<open>file_name\<close> and \<^verbatim>\<open>extension\<close> on an absolute path's components.\<close>

definition parent :: "path \<Rightarrow> path option" where
  "parent p = (if p = [] then None else Some (butlast p))"

definition named :: "path \<Rightarrow> string \<Rightarrow> bool" where
  "named p name \<longleftrightarrow> p \<noteq> [] \<and> last p = name"

definition has_extension :: "path \<Rightarrow> string \<Rightarrow> bool" where
  "has_extension p e \<longleftrightarrow>
     p \<noteq> [] \<and> (case rsplit_once (CHR ''.'') (last p) of Some (stem, x) \<Rightarrow> stem \<noteq> [] \<and> x = e | None \<Rightarrow> False)"

definition mac_bundle_of :: "path \<Rightarrow> path option" where
  "mac_bundle_of exe =
     do {
       macos \<leftarrow> parent exe;
       contents \<leftarrow> parent macos;
       bundle \<leftarrow> parent contents;
       if named macos ''MacOS'' \<and> named contents ''Contents'' \<and> has_extension bundle ''app''
       then Some bundle else None
     }"

definition install_kind_of :: "host_facts \<Rightarrow> install_kind" where
  "install_kind_of f =
     (let unwritable = UnknownInstall (CannotReplace (hf_exe f))
      in case hf_os f of
           MacOs \<Rightarrow>
             (case mac_bundle_of (hf_exe f) of
                Some bundle \<Rightarrow>
                  if hf_launched_by_app f then MacAppInstall bundle else UnknownInstall NotStartedByApp
              | None \<Rightarrow> if hf_replaceable f then BinaryInstall (hf_exe f) else unwritable)
         | Linux \<Rightarrow>
             if hf_dpkg_owned f then DebInstall
             else (case hf_appimage f of
                     Some img \<Rightarrow> if hf_replaceable f then AppImageInstall img else unwritable
                   | None \<Rightarrow> if hf_replaceable f then BinaryInstall (hf_exe f) else unwritable)
         | Windows \<Rightarrow> MsiInstall
         | OtherOs \<Rightarrow> UnknownInstall NoBuildForOs)"

definition tarball_for :: "os \<Rightarrow> arch \<Rightarrow> string option" where
  "tarball_for os arch =
     (case (os, arch) of
        (MacOs, Arm64) \<Rightarrow> Some ''citadel-agent-macos-arm64.tar.gz''
      | (MacOs, X64) \<Rightarrow> Some ''citadel-agent-macos-x64.tar.gz''
      | (Linux, X64) \<Rightarrow> Some ''citadel-agent-linux-x64.tar.gz''
      | _ \<Rightarrow> None)"

definition plan_for :: "install_kind \<Rightarrow> os \<Rightarrow> arch \<Rightarrow> plan" where
  "plan_for kind os arch =
     (case kind of
        MacAppInstall _ \<Rightarrow> Apply ''Citadel-Agent.dmg'' MacAppMethod
      | BinaryInstall _ \<Rightarrow>
          (case tarball_for os arch of Some asset \<Rightarrow> Apply asset TarballMethod | None \<Rightarrow> LinkOnlyPlan None)
      | AppImageInstall _ \<Rightarrow>
          if arch = X64 then Apply ''Citadel-Agent-x86_64.AppImage'' AppImageMethod else LinkOnlyPlan None
      | DebInstall \<Rightarrow> LinkOnlyPlan (if arch = X64 then Some ''citadel-agent-linux-x64.deb'' else None)
      | MsiInstall \<Rightarrow> LinkOnlyPlan (Some ''Citadel-Agent-x64.msi'')
      | UnknownInstall _ \<Rightarrow> LinkOnlyPlan None)"

section \<open>Versions and releases (version.rs, release.rs)\<close>

text \<open>The \<^verbatim>\<open>semver\<close> crate: parsing, printing, the order, and whether a version is plain.\<close>

record 'v semver =
  sv_parse :: "string \<Rightarrow> 'v option"
  sv_plain :: "'v \<Rightarrow> bool"
  sv_less :: "'v \<Rightarrow> 'v \<Rightarrow> bool"
  sv_show :: "'v \<Rightarrow> string"

definition TAG_PREFIX :: string where "TAG_PREFIX = ''agent-v''"

definition version_of_tag :: "'v semver \<Rightarrow> string \<Rightarrow> 'v option" where
  "version_of_tag sv tag =
     do {
       rest \<leftarrow> strip_prefix tag TAG_PREFIX;
       v \<leftarrow> sv_parse sv rest;
       if sv_plain sv v then Some v else None
     }"

definition is_upgrade :: "'v semver \<Rightarrow> 'v \<Rightarrow> 'v \<Rightarrow> bool" where
  "is_upgrade sv current candidate \<longleftrightarrow> sv_less sv current candidate"

definition version_line :: "'v semver \<Rightarrow> 'v \<Rightarrow> string" where
  "version_line sv v = ''citadel-agent '' @ sv_show sv v"

definition DOWNLOAD_PREFIX :: string where
  "DOWNLOAD_PREFIX = ''https://github.com/Avarok-Cybersecurity/citadel-workspace/releases/download/''"
definition RELEASE_PAGE_PREFIX :: string where
  "RELEASE_PAGE_PREFIX = ''https://github.com/Avarok-Cybersecurity/citadel-workspace/releases/tag/''"
definition ALLOWED_HOSTS :: "string list" where
  "ALLOWED_HOSTS = [''api.github.com'', ''github.com'', ''objects.githubusercontent.com'',
     ''release-assets.githubusercontent.com'']"

record asset =
  as_name :: string
  as_url :: string
  as_size :: nat

record release =
  rl_tag :: string
  rl_draft :: bool
  rl_prerelease :: bool
  rl_assets :: "asset list"

datatype 'v candidate = NoCandidate | Upgrade 'v

definition candidate_of :: "'v semver \<Rightarrow> release \<Rightarrow> 'v \<Rightarrow> 'v candidate" where
  "candidate_of sv r current =
     (if rl_draft r \<or> rl_prerelease r then NoCandidate
      else case version_of_tag sv (rl_tag r) of
             None \<Rightarrow> NoCandidate
           | Some v \<Rightarrow> if is_upgrade sv current v then Upgrade v else NoCandidate)"

definition notes_url :: "release \<Rightarrow> string" where
  "notes_url r = RELEASE_PAGE_PREFIX @ rl_tag r"

text \<open>Why something was not installed.\<close>

datatype why =
    NoAsset string | WrongUrl string | MissingSignature | SignatureRefused sign_refusal | TooBig nat
  | NoChecksum string | BadChecksum string | NotUpgrade | ShaMismatch | AttestationFailed string
  | NoAttestation | NotRun | WrongVersion string | IoError string

definition asset_url :: "release \<Rightarrow> string \<Rightarrow> string" where
  "asset_url r name = DOWNLOAD_PREFIX @ rl_tag r @ ''/'' @ name"

definition find_asset :: "release \<Rightarrow> string \<Rightarrow> why + asset" where
  "find_asset r name =
     (case List.find (\<lambda>a. as_name a = name) (rl_assets r) of
        None \<Rightarrow> Inl (NoAsset name)
      | Some a \<Rightarrow> if as_url a \<noteq> asset_url r name then Inl (WrongUrl (as_url a)) else Inr a)"

text \<open>A parsed URL of the \<^verbatim>\<open>reqwest\<close> crate, as \<^verbatim>\<open>url_allowed\<close> reads it.\<close>

record req_url =
  ru_scheme :: string
  ru_username :: string
  ru_password :: "string option"
  ru_port :: "nat option"
  ru_host :: "string option"

definition url_allowed :: "req_url \<Rightarrow> bool" where
  "url_allowed u \<longleftrightarrow>
     ru_scheme u = ''https'' \<and> ru_username u = [] \<and> ru_password u = None \<and> ru_port u = None \<and>
     (case ru_host u of Some h \<Rightarrow> h \<in> set ALLOWED_HOSTS | None \<Rightarrow> False)"

section \<open>Verification (verify.rs)\<close>

datatype provenance = ProvenanceVerified | ProvenanceAbsent | ProvenanceFailed string

datatype release_signature = SigVerified | SigMissing | SigRefused sign_refusal

definition check_signature ::
  "('k, 's) mldsa \<Rightarrow> string \<Rightarrow> string \<Rightarrow> string \<Rightarrow> string \<Rightarrow> string option \<Rightarrow> release_signature" where
  "check_signature c release_key tag asset_name actual_sha signature =
     (case signature of
        None \<Rightarrow> SigMissing
      | Some s \<Rightarrow>
          (case and_then (sha256_from_hex c actual_sha) (\<lambda>digest. verify c release_key tag asset_name digest s) of
             Inr _ \<Rightarrow> SigVerified
           | Inl e \<Rightarrow> SigRefused e))"

text \<open>\<^verbatim>\<open>str::lines\<close>: lines end at a newline, one carriage return before it is dropped.\<close>

definition strip_cr :: "string \<Rightarrow> string" where
  "strip_cr s = (if s \<noteq> [] \<and> last s = CHR 0x0D then butlast s else s)"

definition str_lines :: "string \<Rightarrow> string list" where
  "str_lines s =
     (let parts = split_on (CHR 0x0A) s; ended = map strip_cr (butlast parts)
      in ended @ (if last parts = [] then [] else [last parts]))"

definition split_once :: "char \<Rightarrow> string \<Rightarrow> (string \<times> string) option" where
  "split_once c s = (if c \<in> set s then Some (takeWhile (\<lambda>x. x \<noteq> c) s, tl (dropWhile (\<lambda>x. x \<noteq> c) s)) else None)"

definition is_ascii_hexdigit :: "char \<Rightarrow> bool" where
  "is_ascii_hexdigit c \<longleftrightarrow> is_ascii_digit c \<or> 97 \<le> byte c \<and> byte c \<le> 102 \<or> 65 \<le> byte c \<and> byte c \<le> 70"

definition checksum_file :: "string \<Rightarrow> string option" where
  "checksum_file rest =
     (case strip_prefix rest '' '' of Some f \<Rightarrow> Some f | None \<Rightarrow> strip_prefix rest ''*'')"

fun expected_in :: "string list \<Rightarrow> string \<Rightarrow> why + string" where
  "expected_in [] name = Inl (NoChecksum name)"
| "expected_in (line # lines) name =
     (case split_once (CHR '' '') line of
        None \<Rightarrow> expected_in lines name
      | Some (digest, rest) \<Rightarrow>
          if map_option trim_end (checksum_file rest) \<noteq> Some name then expected_in lines name
          else if length digest = 64 \<and> list_all is_ascii_hexdigit digest then Inr (to_ascii_lowercase digest)
          else Inl (BadChecksum digest))"

definition expected_sha256 :: "string \<Rightarrow> string \<Rightarrow> why + string" where
  "expected_sha256 s name = expected_in (str_lines s) name"

datatype judgement = Accept | JudgeLinkOnly why | Refuse why

definition eq_ignore_case :: "string \<Rightarrow> string \<Rightarrow> bool" where
  "eq_ignore_case a b \<longleftrightarrow> to_ascii_lowercase a = to_ascii_lowercase b"

definition judge_download ::
  "'v semver \<Rightarrow> 'v \<Rightarrow> 'v \<Rightarrow> release_signature \<Rightarrow> string \<Rightarrow> string \<Rightarrow> provenance \<Rightarrow> install_method \<Rightarrow> judgement" where
  "judge_download sv current version signature expected actual prov meth =
     (case signature of
        SigMissing \<Rightarrow> Refuse MissingSignature
      | SigRefused e \<Rightarrow> Refuse (SignatureRefused e)
      | SigVerified \<Rightarrow>
          if \<not> is_upgrade sv current version then Refuse NotUpgrade
          else if \<not> eq_ignore_case expected actual then Refuse ShaMismatch
          else (case prov of
                  ProvenanceVerified \<Rightarrow> Accept
                | ProvenanceFailed e \<Rightarrow> Refuse (AttestationFailed e)
                | ProvenanceAbsent \<Rightarrow> if meth = MacAppMethod then Accept else JudgeLinkOnly NoAttestation))"

definition judge_staged :: "'v semver \<Rightarrow> 'v \<Rightarrow> string option \<Rightarrow> install_method \<Rightarrow> judgement" where
  "judge_staged sv version printed meth =
     (case printed of
        None \<Rightarrow> if meth = MacAppMethod then Accept else Refuse NotRun
      | Some line \<Rightarrow> if trim line = version_line sv version then Accept else Refuse (WrongVersion (trim line)))"

section \<open>When to install (policy.rs)\<close>

datatype trigger = UserAsked | Idle

record situation =
  s_trigger :: trigger
  s_ready :: bool
  s_signed_in :: nat
  s_auto_install :: bool
  s_failed_before :: bool

datatype wait_why = NothingReady | AutoOff | SignedIn | FailedBefore
datatype decision = Install | Wait wait_why

definition decide_install :: "situation \<Rightarrow> decision" where
  "decide_install s =
     (if \<not> s_ready s then Wait NothingReady
      else case s_trigger s of
             UserAsked \<Rightarrow> Install
           | Idle \<Rightarrow>
               if \<not> s_auto_install s then Wait AutoOff
               else if s_signed_in s > 0 then Wait SignedIn
               else if s_failed_before s then Wait FailedBefore
               else Install)"

end
