(* ===== verification/Updater_Engine.thy ===== *)
theory Updater_Engine
  imports Updater
begin

text \<open>
  The updater's engine: \<^verbatim>\<open>fetch_and_verify\<close> (\<^verbatim>\<open>fetch.rs\<close>), \<^verbatim>\<open>check\<close>, \<^verbatim>\<open>prepare\<close>
  and \<^verbatim>\<open>consider\<close> (\<^verbatim>\<open>engine.rs\<close>) and the changes from outside a check
  (\<^verbatim>\<open>engine_status.rs\<close>). What an operation asked of the world is a list of effects.
\<close>

definition MAX_ASSET_BYTES :: nat where "MAX_ASSET_BYTES = 512 * 1024 * 1024"
definition MAX_CHECKSUM_BYTES :: nat where "MAX_CHECKSUM_BYTES = 4096"
definition MAX_SIGNATURE_BYTES :: nat where "MAX_SIGNATURE_BYTES = SIGNATURE_LEN * 2 + 2"
definition AUTO_INSTALL_UNSET :: bool where "AUTO_INSTALL_UNSET = True"

datatype latest = NotModified | FetchedRelease string "string option"

text \<open>The seams of \<^verbatim>\<open>io.rs\<close> and the JSON parser, as they answer during one operation.\<close>

record 'v updater_io =
  io_latest :: "string option \<Rightarrow> string + latest"
  io_parse :: "string \<Rightarrow> string + release"
  io_text :: "string \<Rightarrow> nat \<Rightarrow> string + string"
  io_download_path :: "'v \<Rightarrow> string \<Rightarrow> string + string"
  io_download :: "string \<Rightarrow> string \<Rightarrow> nat \<Rightarrow> string + unit"
  io_sha256 :: "string \<Rightarrow> string + string"
  io_attestations :: "string \<Rightarrow> string + string list"
  io_attest :: "string \<Rightarrow> string list \<Rightarrow> string \<Rightarrow> provenance"
  io_stage :: "install_method \<Rightarrow> string \<Rightarrow> string + string"
  io_version_of :: "string \<Rightarrow> string + string"
  io_failed :: "'v \<Rightarrow> string option"
  io_can_install :: "string \<Rightarrow> string + unit"
  io_install :: "string \<Rightarrow> 'v \<Rightarrow> string + unit"
  io_signed_in :: nat
  io_auto_install :: "string + bool option"
  io_set_auto_install :: "bool \<Rightarrow> string + unit"

record ('v, 'k, 's) updater =
  up_semver :: "'v semver"
  up_crypto :: "('k, 's) mldsa"
  up_release_key :: string
  up_current :: 'v
  up_plan :: plan

section \<open>One asset (fetch.rs)\<close>

datatype upd_refusal = Transient why | RefusalLinkOnly why | Refused why

definition settle_verdict :: "judgement \<Rightarrow> upd_refusal + unit" where
  "settle_verdict j =
     (case j of Accept \<Rightarrow> Inr () | JudgeLinkOnly w \<Rightarrow> Inl (RefusalLinkOnly w) | Refuse w \<Rightarrow> Inl (Refused w))"

abbreviation transient :: "string + 'a \<Rightarrow> upd_refusal + 'a" where
  "transient r \<equiv> map_err (\<lambda>e. Transient (IoError e)) r"

definition consult ::
  "'v updater_io \<Rightarrow> release \<Rightarrow> release_signature \<Rightarrow> string \<Rightarrow> string \<Rightarrow> upd_refusal + provenance" where
  "consult io r signature expected actual =
     (if signature = SigVerified \<and> eq_ignore_case expected actual
      then and_then (transient (io_attestations io actual)) (\<lambda>bundles. Inr (io_attest io actual bundles (rl_tag r)))
      else Inr ProvenanceAbsent)"

definition run_staged :: "'v updater_io \<Rightarrow> install_method \<Rightarrow> string \<Rightarrow> upd_refusal + string option" where
  "run_staged io meth runnable =
     (case meth of
        MacAppMethod \<Rightarrow> Inr None
      | _ \<Rightarrow> and_then (map_err (\<lambda>e. Refused (IoError e)) (io_version_of io runnable)) (\<lambda>line. Inr (Some line)))"

definition fetch_and_verify ::
  "('v, 'k, 's) updater \<Rightarrow> 'v updater_io \<Rightarrow> release \<Rightarrow> 'v \<Rightarrow> string \<Rightarrow> install_method \<Rightarrow> upd_refusal + string" where
  "fetch_and_verify up io r version name meth =
     and_then (map_err Refused (find_asset r name)) (\<lambda>asset.
     if \<not> list_ex (\<lambda>a. as_name a = name @ SIGNATURE_SUFFIX) (rl_assets r) then Inl (Refused MissingSignature)
     else
     and_then (map_err Refused (find_asset r (name @ SIGNATURE_SUFFIX))) (\<lambda>signature.
     and_then (map_err Refused (find_asset r (name @ ''.sha256''))) (\<lambda>checksum.
     if as_size asset > MAX_ASSET_BYTES then Inl (Refused (TooBig (as_size asset)))
     else
     and_then (transient (io_text io (as_url checksum) MAX_CHECKSUM_BYTES)) (\<lambda>sums.
     and_then (map_err Refused (expected_sha256 sums name)) (\<lambda>expected.
     and_then (transient (io_text io (as_url signature) MAX_SIGNATURE_BYTES)) (\<lambda>signature.
     and_then (transient (io_download_path io version name)) (\<lambda>path.
     and_then (transient (io_download io (as_url asset) path (as_size asset))) (\<lambda>_.
     and_then (transient (io_sha256 io path)) (\<lambda>actual.
     let signature = check_signature (up_crypto up) (up_release_key up) (rl_tag r) name actual (Some signature) in
     and_then (consult io r signature expected actual) (\<lambda>prov.
     and_then (settle_verdict
       (judge_download (up_semver up) (up_current up) version signature expected actual prov meth)) (\<lambda>_.
     and_then (map_err (\<lambda>e. Refused (IoError e)) (io_stage io meth path)) (\<lambda>runnable.
     and_then (run_staged io meth runnable) (\<lambda>printed.
     and_then (settle_verdict (judge_staged (up_semver up) version printed meth)) (\<lambda>_.
       Inr runnable))))))))))))))"

section \<open>The engine (engine.rs)\<close>

record 'v offer =
  of_version :: 'v
  of_notes_url :: string
  of_download_url :: string
  of_staged :: "string option"
  of_settled :: bool

datatype 'v upd_error =
    CheckFailed string | ReleaseUnreadable string | NotInstalled why | FailedEarlier 'v string
  | InstallRefused string | AppCouldNotInstall string string

record 'v upd_state =
  st_etag :: "string option"
  st_release :: "release option"
  st_offer :: "'v offer option"
  st_auto_install :: "bool option"
  st_last_checked :: "nat option"
  st_last_error :: "'v upd_error option"

definition upd_init :: "'v upd_state" where
  "upd_init = \<lparr>st_etag = None, st_release = None, st_offer = None, st_auto_install = None,
     st_last_checked = None, st_last_error = None\<rparr>"

record 'v available =
  av_latest :: 'v
  av_notes_url :: string
  av_download_url :: string
  av_ready :: bool
  av_mldsa_verified :: bool

datatype 'v upd_effect =
  Announce "'v available" | Discard 'v | InstallCall string 'v | MarkFailed 'v string

definition available_of :: "'v updater_io \<Rightarrow> 'v offer \<Rightarrow> 'v available" where
  "available_of io o' =
     \<lparr>av_latest = of_version o', av_notes_url = of_notes_url o', av_download_url = of_download_url o',
      av_ready = (case of_staged o' of Some staged \<Rightarrow> io_can_install io staged = Inr () | None \<Rightarrow> False),
      av_mldsa_verified = (of_staged o' \<noteq> None)\<rparr>"

definition load_settings :: "'v updater_io \<Rightarrow> 'v upd_state \<Rightarrow> 'v upd_state" where
  "load_settings io st =
     st\<lparr>st_auto_install :=
         Some (case io_auto_install io of Inr (Some on) \<Rightarrow> on | _ \<Rightarrow> AUTO_INSTALL_UNSET)\<rparr>"

definition link_to :: "release \<Rightarrow> string option \<Rightarrow> string" where
  "link_to r name =
     (case name of
        None \<Rightarrow> notes_url r
      | Some n \<Rightarrow> (case find_asset r n of Inr a \<Rightarrow> as_url a | Inl _ \<Rightarrow> notes_url r))"

definition prepare ::
  "('v, 'k, 's) updater \<Rightarrow> 'v updater_io \<Rightarrow> release \<Rightarrow> 'v \<Rightarrow> 'v upd_state \<Rightarrow>
     'v offer \<times> 'v upd_state \<times> 'v upd_effect list" where
  "prepare up io r version st =
     (let offer = (\<lambda>url staged settled. \<lparr>of_version = version, of_notes_url = notes_url r,
                     of_download_url = url, of_staged = staged, of_settled = settled\<rparr>)
      in case up_plan up of
           LinkOnlyPlan name \<Rightarrow> (offer (link_to r name) None True, st, [])
         | Apply name meth \<Rightarrow>
             (case fetch_and_verify up io r version name meth of
                Inr staged \<Rightarrow>
                  (offer (link_to r (Some name)) (Some staged) True, st\<lparr>st_last_error := None\<rparr>, [])
              | Inl refusal \<Rightarrow>
                  (let (w, url, settled) =
                     (case refusal of
                        Transient w \<Rightarrow> (w, link_to r (Some name), False)
                      | RefusalLinkOnly w \<Rightarrow> (w, link_to r (Some name), True)
                      | Refused w \<Rightarrow> (w, notes_url r, True))
                   in (offer url None settled, st\<lparr>st_last_error := Some (NotInstalled w)\<rparr>, [Discard version]))))"

text \<open>The first half of \<^verbatim>\<open>check\<close>: which release, if any, is the latest.\<close>

definition check_release ::
  "'v updater_io \<Rightarrow> nat \<Rightarrow> 'v upd_state \<Rightarrow> 'v upd_state \<times> release option" where
  "check_release io now st =
     (let fetched = io_latest io (st_etag st); st = st\<lparr>st_last_checked := Some now\<rparr>
      in case fetched of
           Inl e \<Rightarrow> (st\<lparr>st_last_error := Some (CheckFailed e)\<rparr>, None)
         | Inr NotModified \<Rightarrow> (st, st_release st)
         | Inr (FetchedRelease body etag) \<Rightarrow>
             (case io_parse io body of
                Inr r \<Rightarrow> (st\<lparr>st_etag := etag, st_release := Some r\<rparr>, Some r)
              | Inl e \<Rightarrow> (st\<lparr>st_last_error := Some (ReleaseUnreadable e)\<rparr>, None)))"

definition check_offer ::
  "('v, 'k, 's) updater \<Rightarrow> 'v updater_io \<Rightarrow> release \<Rightarrow> 'v \<Rightarrow> 'v upd_state \<Rightarrow>
     'v offer \<times> 'v upd_state \<times> 'v upd_effect list" where
  "check_offer up io r version st =
     (case st_offer st of
        Some o' \<Rightarrow>
          if of_version o' = version \<and> of_settled o' then (o', st, [])
          else (let (o', st, effs) = prepare up io r version st in (o', st\<lparr>st_offer := Some o'\<rparr>, effs))
      | None \<Rightarrow> (let (o', st, effs) = prepare up io r version st in (o', st\<lparr>st_offer := Some o'\<rparr>, effs)))"

definition check_update ::
  "('v, 'k, 's) updater \<Rightarrow> 'v updater_io \<Rightarrow> nat \<Rightarrow> 'v upd_state \<Rightarrow> 'v upd_state \<times> 'v upd_effect list" where
  "check_update up io now st =
     (case check_release io now st of
        (st, None) \<Rightarrow> (st, [])
      | (st, Some r) \<Rightarrow>
          (case candidate_of (up_semver up) r (up_current up) of
             NoCandidate \<Rightarrow> (st\<lparr>st_offer := None, st_last_error := None\<rparr>, [])
           | Upgrade version \<Rightarrow>
               (let (o', st, effs) = check_offer up io r version st;
                    st = (case io_failed io (of_version o') of
                            Some w \<Rightarrow> st\<lparr>st_last_error := Some (FailedEarlier (of_version o') w)\<rparr>
                          | None \<Rightarrow> st)
                in (st, effs @ [Announce (available_of io o')]))))"

datatype consider_result = Considered | InstallError string | NothingInstalled "wait_why + string"

definition staged_of :: "'v upd_state \<Rightarrow> ('v offer \<times> string) option" where
  "staged_of st = Option.bind (st_offer st) (\<lambda>o'. map_option (\<lambda>p. (o', p)) (of_staged o'))"

definition installable_of :: "'v updater_io \<Rightarrow> 'v upd_state \<Rightarrow> (string + unit) option" where
  "installable_of io st = map_option (\<lambda>(_, p). io_can_install io p) (staged_of st)"

definition situation_of :: "'v updater_io \<Rightarrow> trigger \<Rightarrow> 'v upd_state \<Rightarrow> situation" where
  "situation_of io trig st =
     \<lparr>s_trigger = trig, s_ready = (installable_of io st = Some (Inr ())), s_signed_in = io_signed_in io,
      s_auto_install = (case st_auto_install st of Some on \<Rightarrow> on | None \<Rightarrow> AUTO_INSTALL_UNSET),
      s_failed_before = is_some_and (staged_of st) (\<lambda>(o', _). io_failed io (of_version o') \<noteq> None)\<rparr>"

definition consider_install ::
  "'v updater_io \<Rightarrow> trigger \<Rightarrow> 'v upd_state \<Rightarrow> 'v upd_state \<times> 'v upd_effect list \<times> consider_result" where
  "consider_install io trig st =
     (case (decide_install (situation_of io trig st), staged_of st) of
        (Install, Some (o', p)) \<Rightarrow>
          (case io_install io p (of_version o') of
             Inr _ \<Rightarrow> (st, [InstallCall p (of_version o')], Considered)
           | Inl e \<Rightarrow> (st\<lparr>st_last_error := Some (InstallRefused e)\<rparr>, [InstallCall p (of_version o')], InstallError e))
      | (Wait w, _) \<Rightarrow>
          if trig = UserAsked
          then (st, [], NothingInstalled (case installable_of io st of Some (Inl e) \<Rightarrow> Inr e | _ \<Rightarrow> Inl w))
          else (st, [], Considered)
      | _ \<Rightarrow> (st, [], Considered))"

section \<open>From outside a check (engine_status.rs)\<close>

definition set_auto_install :: "'v updater_io \<Rightarrow> bool \<Rightarrow> 'v upd_state \<Rightarrow> 'v upd_state \<times> (string + unit)" where
  "set_auto_install io on st =
     (case io_set_auto_install io on of
        Inl e \<Rightarrow> (st, Inl e)
      | Inr _ \<Rightarrow> (st\<lparr>st_auto_install := Some on\<rparr>, Inr ()))"

definition install_failed ::
  "('v, 'k, 's) updater \<Rightarrow> 'v updater_io \<Rightarrow> string \<Rightarrow> string \<Rightarrow> 'v upd_state \<Rightarrow> 'v upd_state \<times> 'v upd_effect list" where
  "install_failed up io version w st =
     (let marks = (case sv_parse (up_semver up) version of Some v \<Rightarrow> [MarkFailed v w] | None \<Rightarrow> []);
          st = st\<lparr>st_last_error := Some (AppCouldNotInstall version w)\<rparr>
      in (st, marks @ (case st_offer st of Some o' \<Rightarrow> [Announce (available_of io o')] | None \<Rightarrow> [])))"

section \<open>Histories\<close>

datatype 'v upd_op =
    OpLoad "'v updater_io" | OpCheck "'v updater_io" nat | OpConsider "'v updater_io" trigger
  | OpSetAuto "'v updater_io" bool | OpInstallFailed "'v updater_io" string string

fun upd_step :: "('v, 'k, 's) updater \<Rightarrow> 'v upd_state \<Rightarrow> 'v upd_op \<Rightarrow> 'v upd_state \<times> 'v upd_effect list" where
  "upd_step up st (OpLoad io) = (load_settings io st, [])"
| "upd_step up st (OpCheck io now) = check_update up io now st"
| "upd_step up st (OpConsider io trig) = (let (st, effs, _) = consider_install io trig st in (st, effs))"
| "upd_step up st (OpSetAuto io on) = (fst (set_auto_install io on st), [])"
| "upd_step up st (OpInstallFailed io version w) = install_failed up io version w st"

inductive upd_reaches :: "('v, 'k, 's) updater \<Rightarrow> 'v upd_op list \<Rightarrow> 'v upd_state \<Rightarrow> bool" for up where
  start: "upd_reaches up [] upd_init"
| step: "upd_reaches up ops st \<Longrightarrow> upd_step up st op = (st', effs) \<Longrightarrow> upd_reaches up (ops @ [op]) st'"

text \<open>
  A file that may replace this agent: an asset of a published release newer than this agent, at
  the release's own download address, downloaded in this check, signed by the release key for
  this tag, name and digest, with the published checksum, attested (or the notarised app), and
  answering with the release's version when it can be run.
\<close>

definition vetted_by :: "('v, 'k, 's) updater \<Rightarrow> 'v updater_io \<Rightarrow> 'v \<Rightarrow> string \<Rightarrow> bool" where
  "vetted_by up io v file \<longleftrightarrow>
     (\<exists>r name meth a path actual digest sig sums expected.
        up_plan up = Apply name meth \<and> \<not> rl_draft r \<and> \<not> rl_prerelease r \<and>
        version_of_tag (up_semver up) (rl_tag r) = Some v \<and> sv_less (up_semver up) (up_current up) v \<and>
        a \<in> set (rl_assets r) \<and> as_name a = name \<and> as_url a = asset_url r name \<and> as_size a \<le> 536870912 \<and>
        io_download_path io v name = Inr path \<and> io_download io (asset_url r name) path (as_size a) = Inr () \<and>
        io_sha256 io path = Inr actual \<and> sha256_from_hex (up_crypto up) actual = Inr digest \<and>
        io_text io (asset_url r (name @ ''.mldsa.sig'')) 6620 = Inr sig \<and>
        verify (up_crypto up) (up_release_key up) (rl_tag r) name digest sig = Inr () \<and>
        io_text io (asset_url r (name @ ''.sha256'')) 4096 = Inr sums \<and> expected_sha256 sums name = Inr expected \<and>
        to_ascii_lowercase expected = to_ascii_lowercase actual \<and>
        (meth = MacAppMethod \<or>
           (\<exists>bundles line. io_attestations io actual = Inr bundles \<and>
              io_attest io actual bundles (rl_tag r) = ProvenanceVerified \<and>
              io_version_of io file = Inr line \<and> trim line = ''citadel-agent '' @ sv_show (up_semver up) v)) \<and>
        io_stage io meth path = Inr file)"

definition vetted :: "('v, 'k, 's) updater \<Rightarrow> 'v upd_op list \<Rightarrow> 'v \<Rightarrow> string \<Rightarrow> bool" where
  "vetted up ops v file \<longleftrightarrow> (\<exists>io now. OpCheck io now \<in> set ops \<and> vetted_by up io v file)"

lemma find_asset_Inr: "find_asset r name = Inr a \<longleftrightarrow>
    List.find (\<lambda>a. as_name a = name) (rl_assets r) = Some a \<and> as_url a = asset_url r name"
  by (auto simp: find_asset_def split: option.splits if_splits)

lemma find_asset_facts:
  assumes "find_asset r name = Inr a"
  shows "a \<in> set (rl_assets r)" "as_name a = name" "as_url a = asset_url r name"
  using assms by (auto simp: find_asset_Inr find_Some_iff)

lemma settle_verdict_Inr [simp]: "settle_verdict j = Inr u \<longleftrightarrow> j = Accept"
  by (cases j) (simp_all add: settle_verdict_def)

lemma judge_download_Accept:
  "judge_download sv current v sig expected actual prov meth = Accept \<longleftrightarrow>
     sig = SigVerified \<and> is_upgrade sv current v \<and> eq_ignore_case expected actual \<and>
     (prov = ProvenanceVerified \<or> prov = ProvenanceAbsent \<and> meth = MacAppMethod)"
  by (auto simp: judge_download_def split: release_signature.splits provenance.splits if_splits)

lemma check_signature_Verified:
  "check_signature c key tag name actual (Some sig) = SigVerified \<longleftrightarrow>
     (\<exists>digest. sha256_from_hex c actual = Inr digest \<and> verify c key tag name digest sig = Inr ())"
  by (cases "sha256_from_hex c actual"; cases "verify c key tag name (projr (sha256_from_hex c actual)) sig")
     (simp_all add: check_signature_def)

lemma fetch_and_verify_vetted:
  assumes "fetch_and_verify up io r v name meth = Inr file" and "up_plan up = Apply name meth"
    and "candidate_of (up_semver up) r (up_current up) = Upgrade v"
  shows "vetted_by up io v file"
proof -
  from assms(1) obtain a sig_asset sum_asset sums expected sig path u actual prov printed where f:
      "find_asset r name = Inr a" "find_asset r (name @ SIGNATURE_SUFFIX) = Inr sig_asset"
      "find_asset r (name @ ''.sha256'') = Inr sum_asset" "as_size a \<le> MAX_ASSET_BYTES"
      "io_text io (as_url sum_asset) MAX_CHECKSUM_BYTES = Inr sums" "expected_sha256 sums name = Inr expected"
      "io_text io (as_url sig_asset) MAX_SIGNATURE_BYTES = Inr sig" "io_download_path io v name = Inr path"
      "io_download io (as_url a) path (as_size a) = Inr u" "io_sha256 io path = Inr actual"
    and c: "consult io r (check_signature (up_crypto up) (up_release_key up) (rl_tag r) name actual (Some sig))
        expected actual = Inr prov"
    and j: "judge_download (up_semver up) (up_current up) v
        (check_signature (up_crypto up) (up_release_key up) (rl_tag r) name actual (Some sig)) expected actual prov meth = Accept"
    and st: "io_stage io meth path = Inr file" "run_staged io meth file = Inr printed"
      "judge_staged (up_semver up) v printed meth = Accept"
    unfolding fetch_and_verify_def Let_def
    by (elim and_thenE guardE)
       (rule that; simp only: map_err_Inr settle_verdict_Inr not_less sum.inject)
  from j have sv: "check_signature (up_crypto up) (up_release_key up) (rl_tag r) name actual (Some sig) = SigVerified"
      "eq_ignore_case expected actual" "prov = ProvenanceVerified \<or> meth = MacAppMethod"
    by (auto simp: judge_download_Accept)
  from sv(1) obtain digest where d: "sha256_from_hex (up_crypto up) actual = Inr digest"
      "verify (up_crypto up) (up_release_key up) (rl_tag r) name digest sig = Inr ()"
    by (auto simp: check_signature_Verified)
  have m: "meth = MacAppMethod \<or> (\<exists>bundles line. io_attestations io actual = Inr bundles \<and>
      io_attest io actual bundles (rl_tag r) = ProvenanceVerified \<and> io_version_of io file = Inr line \<and>
      trim line = ''citadel-agent '' @ sv_show (up_semver up) v)"
  proof (cases "meth = MacAppMethod")
    case False
    from c sv obtain bundles where "io_attestations io actual = Inr bundles"
        "io_attest io actual bundles (rl_tag r) = ProvenanceVerified"
      using False by (auto simp: consult_def)
    moreover from st(2) False obtain line where "io_version_of io file = Inr line" "printed = Some line"
      by (cases meth) (auto simp: run_staged_def)
    ultimately show ?thesis using st(3)
      by (auto simp: judge_staged_def version_line_def split: if_splits)
  qed simp
  have r: "\<not> rl_draft r" "\<not> rl_prerelease r" "version_of_tag (up_semver up) (rl_tag r) = Some v"
      "sv_less (up_semver up) (up_current up) v"
    using assms(3) by (auto simp: candidate_of_def is_upgrade_def split: if_splits option.splits)
  note fa = find_asset_facts [OF f(1)] find_asset_facts(3) [OF f(2)] find_asset_facts(3) [OF f(3)]
  have limits: "as_size a \<le> 536870912" "io_download io (asset_url r name) path (as_size a) = Inr ()"
      "io_text io (asset_url r (name @ ''.mldsa.sig'')) 6620 = Inr sig"
      "io_text io (asset_url r (name @ ''.sha256'')) 4096 = Inr sums"
      "to_ascii_lowercase expected = to_ascii_lowercase actual"
    using f fa sv(2) by (simp_all add: MAX_ASSET_BYTES_def MAX_CHECKSUM_BYTES_def MAX_SIGNATURE_BYTES_def
        SIGNATURE_LEN_def SIGNATURE_SUFFIX_def eq_ignore_case_def)
  show ?thesis
    unfolding vetted_by_def
    by (intro exI [of _ r] exI [of _ name] exI [of _ meth] exI [of _ a] exI [of _ path] exI [of _ actual]
        exI [of _ digest] exI [of _ sig] exI [of _ sums] exI [of _ expected] conjI;
        fact assms(2) r f fa d m limits st(1))
qed

lemma prepare_vetted:
  assumes "prepare up io r v st = (o', st', effs)" and "of_staged o' = Some file"
    and "candidate_of (up_semver up) r (up_current up) = Upgrade v"
  shows "vetted_by up io (of_version o') file"
proof -
  show ?thesis
  proof (cases "up_plan up")
    case (LinkOnlyPlan name)
    with assms(1,2) show ?thesis by (auto simp: prepare_def)
  next
    case (Apply name meth)
    show ?thesis
    proof (cases "fetch_and_verify up io r v name meth")
      case (Inl e)
      with Apply assms(1,2) show ?thesis by (cases e) (auto simp: prepare_def)
    next
      case (Inr f)
      with Apply assms(1,2) have "of_version o' = v" "f = file" by (auto simp: prepare_def)
      with fetch_and_verify_vetted [OF Inr Apply assms(3)] show ?thesis by simp
    qed
  qed
qed

section \<open>What the engine holds\<close>

text \<open>Whatever is staged in the offer was vetted by a check of this history.\<close>

definition staged_vetted :: "('v, 'k, 's) updater \<Rightarrow> 'v upd_op list \<Rightarrow> 'v upd_state \<Rightarrow> bool" where
  "staged_vetted up ops st \<longleftrightarrow>
     (\<forall>o' file. st_offer st = Some o' \<longrightarrow> of_staged o' = Some file \<longrightarrow> vetted up ops (of_version o') file)"

lemma vetted_append: "vetted up ops v file \<Longrightarrow> vetted up (ops @ [op]) v file"
  by (auto simp: vetted_def)

lemma staged_vetted_same:
  "staged_vetted up ops st \<Longrightarrow> st_offer st' = st_offer st \<Longrightarrow> staged_vetted up (ops @ [op]) st'"
  by (auto simp: staged_vetted_def vetted_append)

lemma check_release_offer: "check_release io now st = (st', r) \<Longrightarrow> st_offer st' = st_offer st"
  by (auto simp: check_release_def Let_def split: sum.splits latest.splits)

lemma consider_effect:
  assumes "consider_install io trig st = (st', effs, res)"
  shows "st_offer st' = st_offer st"
    "InstallCall file v \<in> set effs \<Longrightarrow>
       decide_install (situation_of io trig st) = Install \<and> (\<exists>o'. staged_of st = Some (o', file) \<and> of_version o' = v)"
proof -
  have "st_offer st' = st_offer st \<and> (InstallCall file v \<in> set effs \<longrightarrow>
      decide_install (situation_of io trig st) = Install \<and> (\<exists>o'. staged_of st = Some (o', file) \<and> of_version o' = v))"
  proof (cases "decide_install (situation_of io trig st)")
    case (Wait w)
    with assms show ?thesis by (cases "trig = UserAsked") (auto simp: consider_install_def)
  next
    case Install
    show ?thesis
    proof (cases "staged_of st")
      case None
      with Install assms show ?thesis by (auto simp: consider_install_def)
    next
      case (Some op)
      obtain o' p where "op = (o', p)" by fastforce
      with Install Some assms show ?thesis
        by (cases "io_install io p (of_version o')") (auto simp: consider_install_def)
    qed
  qed
  then show "st_offer st' = st_offer st"
    "InstallCall file v \<in> set effs \<Longrightarrow>
       decide_install (situation_of io trig st) = Install \<and> (\<exists>o'. staged_of st = Some (o', file) \<and> of_version o' = v)"
    by blast+
qed

lemma staged_of_Some: "staged_of st = Some (o', file) \<longleftrightarrow> st_offer st = Some o' \<and> of_staged o' = Some file"
  by (cases "st_offer st") (auto simp: staged_of_def)

lemma set_auto_offer: "st_offer (fst (set_auto_install io on st)) = st_offer st"
  by (cases "io_set_auto_install io on") (simp_all add: set_auto_install_def)

lemma check_offer_vetted:
  assumes "check_offer up io r v st = (o', st', effs)" and "staged_vetted up ops st"
    and "candidate_of (up_semver up) r (up_current up) = Upgrade v" and "of_staged o' = Some file"
  shows "st_offer st' = Some o' \<and> vetted up (ops @ [OpCheck io now]) (of_version o') file"
proof (cases "\<exists>known. st_offer st = Some known \<and> of_version known = v \<and> of_settled known")
  case True
  with assms(1) have "st' = st" "st_offer st = Some o'" by (auto simp: check_offer_def)
  with assms(2,4) show ?thesis by (auto simp: staged_vetted_def vetted_append)
next
  case False
  then obtain o1 st1 e1 where p: "prepare up io r v st = (o1, st1, e1)" and o1: "o' = o1" "st_offer st' = Some o1"
    using assms(1) by (auto simp: check_offer_def split: option.splits prod.splits if_splits)
  with prepare_vetted [OF p _ assms(3)] assms(4) show ?thesis by (auto simp: vetted_def)
qed

lemma check_offer_sets: "check_offer up io r v st = (o', st', effs) \<Longrightarrow> st_offer st' = Some o'"
  by (auto simp: check_offer_def split: option.splits prod.splits if_splits)

lemma check_update_vetted:
  assumes "check_update up io now st = (st', effs)" and "staged_vetted up ops st"
  shows "staged_vetted up (ops @ [OpCheck io now]) st'"
proof -
  obtain st1 r where c: "check_release io now st = (st1, r)" by fastforce
  have same: "st_offer st1 = st_offer st" using check_release_offer [OF c] .
  show ?thesis
  proof (cases r)
    case None
    with assms(1) c have "st' = st1" by (simp add: check_update_def)
    with same assms(2) show ?thesis by (simp add: staged_vetted_same)
  next
    case (Some rel)
    show ?thesis
    proof (cases "candidate_of (up_semver up) rel (up_current up)")
      case NoCandidate
      with assms(1) c Some have "st_offer st' = None" by (auto simp: check_update_def)
      then show ?thesis by (simp add: staged_vetted_def)
    next
      case (Upgrade v)
      obtain o' st2 e2 where o: "check_offer up io rel v st1 = (o', st2, e2)" by (metis prod_cases3)
      with assms(1) c Some Upgrade have "st_offer st' = st_offer st2"
        by (auto simp: check_update_def Let_def split: option.splits)
      with check_offer_sets [OF o] have off: "st_offer st' = Some o'" by simp
      have "staged_vetted up ops st1" using same assms(2) by (simp add: staged_vetted_def)
      from check_offer_vetted [OF o this Upgrade] off show ?thesis by (simp add: staged_vetted_def)
    qed
  qed
qed

lemma upd_step_vetted:
  assumes "upd_step up st op = (st', effs)" and "staged_vetted up ops st"
  shows "staged_vetted up (ops @ [op]) st'"
proof (cases op)
  case (OpLoad io)
  with assms show ?thesis by (intro staged_vetted_same [OF assms(2)]) (auto simp: load_settings_def)
next
  case (OpCheck io now)
  with assms check_update_vetted show ?thesis by fastforce
next
  case (OpConsider io trig)
  obtain st1 e1 res where c: "consider_install io trig st = (st1, e1, res)" by (metis prod_cases3)
  with OpConsider assms(1) have "st' = st1" by simp
  with consider_effect(1) [OF c] assms(2) show ?thesis by (simp add: staged_vetted_same)
next
  case (OpSetAuto io on)
  with assms(1) have "st_offer st' = st_offer st" using set_auto_offer by force
  with assms(2) show ?thesis by (rule staged_vetted_same)
next
  case (OpInstallFailed io version w)
  with assms show ?thesis by (intro staged_vetted_same [OF assms(2)]) (auto simp: install_failed_def)
qed

lemma upd_reaches_vetted: "upd_reaches up ops st \<Longrightarrow> staged_vetted up ops st"
proof (induction rule: upd_reaches.induct)
  case start
  show ?case by (simp add: staged_vetted_def upd_init_def)
next
  case (step ops st op st' effs)
  from upd_step_vetted [OF step(2,3)] show ?case .
qed

lemma prepare_effects: "prepare up io r v st = (o', st', effs) \<Longrightarrow> InstallCall file w \<notin> set effs"
proof (cases "up_plan up")
  case (Apply name meth)
  assume p: "prepare up io r v st = (o', st', effs)"
  show ?thesis
  proof (cases "fetch_and_verify up io r v name meth")
    case (Inl e)
    with p Apply show ?thesis by (cases e) (auto simp: prepare_def)
  next
    case (Inr f)
    with p Apply show ?thesis by (auto simp: prepare_def)
  qed
qed (auto simp: prepare_def)

lemma check_offer_effects:
  assumes "check_offer up io r v st = (o', st', effs)"
  shows "InstallCall file w \<notin> set effs"
proof -
  obtain o1 st1 e1 where p: "prepare up io r v st = (o1, st1, e1)" by (metis prod_cases3)
  with assms have "effs = [] \<or> effs = e1" by (auto simp: check_offer_def split: option.splits if_splits)
  with prepare_effects [OF p] show ?thesis by auto
qed

lemma check_update_effects:
  assumes "check_update up io now st = (st', effs)"
  shows "InstallCall file w \<notin> set effs"
proof -
  obtain st1 r where c: "check_release io now st = (st1, r)" by fastforce
  show ?thesis
  proof (cases "\<exists>rel v. r = Some rel \<and> candidate_of (up_semver up) rel (up_current up) = Upgrade v")
    case True
    then obtain rel v where rel: "r = Some rel" "candidate_of (up_semver up) rel (up_current up) = Upgrade v" by blast
    obtain o' st2 e2 where o: "check_offer up io rel v st1 = (o', st2, e2)" by (metis prod_cases3)
    with assms c rel have "effs = e2 @ [Announce (available_of io o')]" by (auto simp: check_update_def)
    with check_offer_effects [OF o] show ?thesis by auto
  next
    case False
    with assms c have "effs = []" by (auto simp: check_update_def split: option.splits candidate.splits)
    then show ?thesis by simp
  qed
qed

section \<open>Properties\<close>

text \<open>
  C23. Only what was verified is installed: whenever the engine asks its installer to install a
  file, in any history of checks, settings, failures and installs, the file was vetted by an
  earlier check of that history (published, newer, from the release's own address, signed by the
  release key for its tag, name and digest, with the published checksum, attested or the
  notarised app, and answering with the release's version), the installer can install it, and
  either the user asked or nobody is signed in, automatic installs are not off and this version
  has not failed before.
\<close>

theorem updater_installs_only_verified:
  assumes "upd_reaches up ops st" and "upd_step up st op = (st', effs)" and "InstallCall file v \<in> set effs"
  shows "vetted up ops v file \<and>
    (\<exists>io trig. op = OpConsider io trig \<and> io_can_install io file = Inr () \<and>
       (trig = UserAsked \<or>
        st_auto_install st \<noteq> Some False \<and> io_signed_in io = 0 \<and> io_failed io v = None))"
proof -
  from assms(2,3) obtain io trig where op: "op = OpConsider io trig"
    by (cases op) (auto simp: install_failed_def check_update_effects split: option.splits)
  obtain st1 e1 res where c: "consider_install io trig st = (st1, e1, res)" by (metis prod_cases3)
  with assms(2,3) op have "InstallCall file v \<in> set e1" by simp
  from consider_effect(2) [OF c this] obtain o' where d: "decide_install (situation_of io trig st) = Install"
      and o: "staged_of st = Some (o', file)" "of_version o' = v" by blast
  from o have "vetted up ops v file"
    using upd_reaches_vetted [OF assms(1)] by (auto simp: staged_vetted_def staged_of_Some)
  moreover have "io_can_install io file = Inr ()"
    using d o by (auto simp: decide_install_def situation_of_def installable_of_def split: if_splits)
  moreover have "trig = UserAsked \<or> st_auto_install st \<noteq> Some False \<and> io_signed_in io = 0 \<and> io_failed io v = None"
    using d o by (cases trig) (auto simp: decide_install_def situation_of_def split: if_splits)
  ultimately show ?thesis using op by blast
qed

text \<open>A concrete agent at version 1 that finds version 2.\<close>

definition toy_semver :: "nat semver" where
  "toy_semver = \<lparr>sv_parse = (\<lambda>s. Some 2), sv_plain = (\<lambda>_. True), sv_less = (<), sv_show = show_nat\<rparr>"

definition toy_updater :: "(nat, string, string) updater" where
  "toy_updater = \<lparr>up_semver = toy_semver, up_crypto = toy_mldsa, up_release_key = replicate 3904 (CHR ''a''),
     up_current = 1, up_plan = Apply ''app'' MacAppMethod\<rparr>"

definition toy_asset :: "string \<Rightarrow> asset" where
  "toy_asset name = \<lparr>as_name = name, as_url = DOWNLOAD_PREFIX @ ''agent-v2'' @ ''/'' @ name, as_size = 10\<rparr>"

definition toy_release :: release where
  "toy_release = \<lparr>rl_tag = ''agent-v2'', rl_draft = False, rl_prerelease = False,
     rl_assets = [toy_asset ''app'', toy_asset ''app.mldsa.sig'', toy_asset ''app.sha256'']\<rparr>"

definition toy_sha :: string where
  "toy_sha = ''aaaaaaaaaaaaaaaaaaaaaaaaaaaaaaaaaaaaaaaaaaaaaaaaaaaaaaaaaaaaaaaa''"

definition toy_io :: "nat updater_io" where
  "toy_io = \<lparr>io_latest = (\<lambda>_. Inr (FetchedRelease [] None)), io_parse = (\<lambda>_. Inr toy_release),
     io_text = (\<lambda>url n. Inr (if n = 4096 then toy_sha @ ''  app'' else replicate 6618 (CHR ''a''))),
     io_download_path = (\<lambda>_ _. Inr ''p''), io_download = (\<lambda>_ _ _. Inr ()), io_sha256 = (\<lambda>_. Inr toy_sha),
     io_attestations = (\<lambda>_. Inr []), io_attest = (\<lambda>_ _ _. ProvenanceAbsent), io_stage = (\<lambda>_ _. Inr ''staged''),
     io_version_of = (\<lambda>_. Inl []), io_failed = (\<lambda>_. None), io_can_install = (\<lambda>_. Inr ()),
     io_install = (\<lambda>_ _. Inr ()), io_signed_in = 0, io_auto_install = Inr None, io_set_auto_install = (\<lambda>_. Inr ())\<rparr>"

lemma toy_expected: "expected_sha256 (toy_sha @ ''  app'') ''app'' = Inr toy_sha"
  by (simp add: expected_sha256_def str_lines_def split_once_def checksum_file_def strip_prefix_def starts_with_def
      trim_end_def strip_all_none white_space_def is_ascii_hexdigit_def string_eval toy_sha_def)

lemma toy_digest: "sha256_from_hex toy_mldsa toy_sha = Inr toy_sha"
proof -
  have "strip_any white_space (CHR ''a'' # s) = None" "strip_any (map rev white_space) (CHR ''a'' # s) = None" for s
    by (simp_all add: white_space_def)
  then have "trim toy_sha = toy_sha"
    by (simp add: toy_sha_def trim_def trim_start_def trim_end_def strip_all_none)
  then show ?thesis by (simp add: sha256_from_hex_def decode_exact_def toy_mldsa_def toy_sha_def map_err_def)
qed

lemma toy_assets:
  "find_asset toy_release ''app'' = Inr (toy_asset ''app'')"
  "find_asset toy_release ''app.mldsa.sig'' = Inr (toy_asset ''app.mldsa.sig'')"
  "find_asset toy_release ''app.sha256'' = Inr (toy_asset ''app.sha256'')"
  by (simp_all add: find_asset_def toy_release_def toy_asset_def asset_url_def)

lemma toy_fetched: "fetch_and_verify toy_updater toy_io toy_release 2 ''app'' MacAppMethod = Inr ''staged''"
proof -
  have ex: "list_ex (\<lambda>a. as_name a = ''app.mldsa.sig'') (rl_assets toy_release)"
    by (simp add: toy_release_def toy_asset_def)
  have sig: "check_signature toy_mldsa (replicate 3904 (CHR ''a'')) ''agent-v2'' ''app'' toy_sha
      (Some (replicate 6618 (CHR ''a''))) = SigVerified"
    unfolding check_signature_Verified using toy_digest toy_verify by (auto simp: field_ok_def)
  have tag: "rl_tag toy_release = ''agent-v2''" by (simp add: toy_release_def)
  have size: "as_size (toy_asset n) = 10" for n by (simp add: toy_asset_def)
  show ?thesis
    using ex sig
    by (simp add: fetch_and_verify_def toy_assets SIGNATURE_SUFFIX_def size MAX_ASSET_BYTES_def toy_io_def
        toy_updater_def MAX_CHECKSUM_BYTES_def MAX_SIGNATURE_BYTES_def SIGNATURE_LEN_def toy_expected map_err_def tag
        consult_def eq_ignore_case_def judge_download_def is_upgrade_def toy_semver_def settle_verdict_def
        run_staged_def judge_staged_def)
qed

lemma toy_candidate: "candidate_of (up_semver toy_updater) toy_release (up_current toy_updater) = Upgrade 2"
  by (simp add: candidate_of_def toy_release_def toy_updater_def version_of_tag_def strip_prefix_def starts_with_def
      TAG_PREFIX_def toy_semver_def is_upgrade_def)

lemma toy_staged:
  obtains st where "upd_reaches toy_updater [OpCheck toy_io 5] st" "st_auto_install st = None"
    "\<exists>o'. st_offer st = Some o' \<and> of_staged o' = Some ''staged'' \<and> of_version o' = 2"
proof -
  obtain st effs where s: "upd_step toy_updater upd_init (OpCheck toy_io 5) = (st, effs)" by fastforce
  have "check_release toy_io 5 upd_init = (upd_init\<lparr>st_last_checked := Some 5, st_etag := None, st_release := Some toy_release\<rparr>,
      Some toy_release)"
    by (simp add: check_release_def toy_io_def)
  moreover have "up_plan toy_updater = Apply ''app'' MacAppMethod" by (simp add: toy_updater_def)
  moreover have "io_failed toy_io v = None" for v by (simp add: toy_io_def)
  ultimately have "st_auto_install st = None \<and> (\<exists>o'. st_offer st = Some o' \<and> of_staged o' = Some ''staged'' \<and> of_version o' = 2)"
    using s toy_candidate toy_fetched
    by (auto simp: check_update_def check_offer_def prepare_def upd_init_def)
  with upd_reaches.step [OF upd_reaches.start s] that show thesis by auto
qed

theorem updater_installs_only_verified_witness:
  "\<exists>st st' effs. upd_reaches toy_updater [OpCheck toy_io 5] st \<and>
     upd_step toy_updater st (OpConsider toy_io Idle) = (st', effs) \<and> InstallCall ''staged'' 2 \<in> set effs \<and>
     vetted toy_updater [OpCheck toy_io 5] 2 ''staged''"
proof -
  from toy_staged obtain st o' where st: "upd_reaches toy_updater [OpCheck toy_io 5] st" "st_auto_install st = None"
    and o: "st_offer st = Some o'" "of_staged o' = Some ''staged''" "of_version o' = 2" by blast
  then have so: "staged_of st = Some (o', ''staged'')" by (simp add: staged_of_Some)
  then have "decide_install (situation_of toy_io Idle st) = Install"
    using st(2) o by (simp add: decide_install_def situation_of_def installable_of_def toy_io_def AUTO_INSTALL_UNSET_def)
  with so o have s: "upd_step toy_updater st (OpConsider toy_io Idle) = (st, [InstallCall ''staged'' 2])"
    by (simp add: consider_install_def toy_io_def)
  with updater_installs_only_verified [OF st(1) s, of "''staged''" 2] st(1) show ?thesis by auto
qed

end
