(* ===== verification/Update_Swap.thy ===== *)
theory Update_Swap
  imports Updater
begin

text \<open>
  Putting an update in place (\<^verbatim>\<open>updater/swap.rs\<close>) and the watchdog that keeps or undoes it
  (\<^verbatim>\<open>updater/watchdog.rs\<close>). The file system is a map from paths to contents; every call may
  fail, which call does being an argument. The watchdog's world answers its calls one after
  another: call number \<^verbatim>\<open>n\<close> is answered by the \<^verbatim>\<open>n\<close>-th answers, so that two calls in a row
  may see different worlds.
\<close>

section \<open>The swap\<close>

type_synonym fs = "path \<Rightarrow> string option"

text \<open>Which of the calls fail; a copy may fail before or after it has written something.\<close>

record swap_faults =
  copy_fault :: "string option option"
  chmod_fault :: bool
  sync_fault :: bool
  remove_fault :: bool
  link_fault :: bool
  rename_fault :: bool
  cleanup_fault :: bool

definition beside :: "path \<Rightarrow> (path \<times> path) option" where
  "beside target =
     (if target = [] then None
      else Some (butlast target @ [''.'' @ last target @ ''.incoming''],
                 butlast target @ [''.'' @ last target @ ''.previous'']))"

datatype swap_error =
  NoDirectory | CopyFailed | ChmodFailed | SyncFailed | RemoveFailed | LinkFailed | RenameFailed

definition fs_remove :: "fs \<Rightarrow> path \<Rightarrow> fs" where "fs_remove fs p = fs(p := None)"

text \<open>The closure \<^verbatim>\<open>fail\<close>: the incoming copy is removed, if it can be.\<close>

definition swap_fail :: "fs \<Rightarrow> swap_faults \<Rightarrow> path \<Rightarrow> swap_error \<Rightarrow> fs \<times> (swap_error + path)" where
  "swap_fail fs flt incoming e = (if cleanup_fault flt then fs else fs_remove fs incoming, Inl e)"

definition swap_in :: "fs \<Rightarrow> swap_faults \<Rightarrow> path \<Rightarrow> path \<Rightarrow> fs \<times> (swap_error + path)" where
  "swap_in fs flt staged target =
     (case beside target of
        None \<Rightarrow> (fs, Inl NoDirectory)
      | Some (incoming, backup) \<Rightarrow>
          (case (fs staged, copy_fault flt) of
             (Some content, None) \<Rightarrow>
               (let fs = fs(incoming := Some content)
                in if chmod_fault flt then swap_fail fs flt incoming ChmodFailed
                   else if sync_fault flt then swap_fail fs flt incoming SyncFailed
                   else if fs backup \<noteq> None \<and> remove_fault flt then swap_fail fs flt incoming RemoveFailed
                   else
                     (let fs = fs_remove fs backup
                      in if link_fault flt \<or> fs target = None then swap_fail fs flt incoming LinkFailed
                         else
                           (let fs = fs(backup := fs target)
                            in if rename_fault flt then swap_fail fs flt incoming RenameFailed
                               else ((fs(target := fs incoming))(incoming := None), Inr backup))))
           | (Some _, Some (Some partial)) \<Rightarrow> swap_fail (fs(incoming := Some partial)) flt incoming CopyFailed
           | _ \<Rightarrow> swap_fail fs flt incoming CopyFailed))"

datatype install_error = SwapFailed swap_error | PlanUnencodable | WatchdogNotStarted | RestoreFailed

record install_faults =
  if_swap :: swap_faults
  if_encode :: bool
  if_spawn :: bool
  if_restore :: bool

text \<open>
  \<^verbatim>\<open>SelfReplace::install\<close>: the swap, then the watchdog from the backup; without a watchdog the
  new version does not stay.
\<close>

definition install_self :: "fs \<Rightarrow> install_faults \<Rightarrow> path \<Rightarrow> path \<Rightarrow> fs \<times> (install_error + path)" where
  "install_self fs flt staged target =
     (case swap_in fs (if_swap flt) staged target of
        (fs, Inl e) \<Rightarrow> (fs, Inl (SwapFailed e))
      | (fs, Inr backup) \<Rightarrow>
          if if_encode flt then (fs, Inl PlanUnencodable)
          else if if_spawn flt then
            (if if_restore flt then (fs, Inl RestoreFailed)
             else ((fs(target := fs backup))(backup := None), Inl WatchdogNotStarted))
          else (fs, Inr backup))"

section \<open>The watchdog\<close>

definition PARENT_EXIT_MS :: nat where "PARENT_EXIT_MS = 30000"
definition HEALTHY_WITHIN_MS :: nat where "HEALTHY_WITHIN_MS = 60000"

record watch_plan =
  wp_target :: path
  wp_backup :: path
  wp_args :: "string list"
  wp_failed_marker :: path

datatype outcome = Healthy | RolledBack | ParentStuck
datatype watch_why = OldDidNotExit | NewDidNotStart string | NewExited | NewSilent

datatype watch_effect =
    Spawn path "string list" | Kill | Restore path path | Mark path watch_why

text \<open>The answer to the \<^verbatim>\<open>n\<close>-th call; times are milliseconds of the monotonic clock.\<close>

record world =
  w_alive :: "nat \<Rightarrow> bool"
  w_now :: "nat \<Rightarrow> nat"
  w_spawn :: "nat \<Rightarrow> string option"
  w_exited :: "nat \<Rightarrow> bool"
  w_healthy :: "nat \<Rightarrow> bool"

text \<open>The loop that waits for the old agent: whether it exited, and the number of the next call.\<close>

partial_function (option) wait_parent :: "world \<Rightarrow> nat \<Rightarrow> nat \<Rightarrow> (bool \<times> nat) option" where
  "wait_parent w deadline n =
     (if \<not> w_alive w n then Some (True, n + 1)
      else if w_now w (n + 1) \<ge> deadline then Some (False, n + 2)
      else wait_parent w deadline (n + 3))"

partial_function (option) healthy_loop :: "world \<Rightarrow> nat \<Rightarrow> nat \<Rightarrow> ((watch_why + unit) \<times> nat) option" where
  "healthy_loop w deadline n =
     (if w_exited w n then Some (Inl NewExited, n + 1)
      else if w_healthy w (n + 1) then Some (Inr (), n + 2)
      else if w_now w (n + 2) \<ge> deadline then Some (Inl NewSilent, n + 3)
      else healthy_loop w deadline (n + 4))"

definition wait_healthy :: "world \<Rightarrow> nat \<Rightarrow> ((watch_why + unit) \<times> nat) option" where
  "wait_healthy w n = healthy_loop w (w_now w n + HEALTHY_WITHIN_MS) (n + 1)"

definition restore_old :: "watch_plan \<Rightarrow> watch_why \<Rightarrow> watch_effect list" where
  "restore_old plan why = [Mark (wp_failed_marker plan) why, Restore (wp_backup plan) (wp_target plan)]"

definition roll_back :: "watch_plan \<Rightarrow> watch_effect list \<Rightarrow> watch_why \<Rightarrow> outcome \<times> watch_effect list" where
  "roll_back plan done_so_far why =
     (RolledBack, done_so_far @ restore_old plan why @ [Spawn (wp_target plan) (wp_args plan)])"

definition supervise :: "watch_plan \<Rightarrow> world \<Rightarrow> (outcome \<times> watch_effect list) option" where
  "supervise plan w =
     do {
       (exited, n) \<leftarrow> wait_parent w (w_now w 0 + PARENT_EXIT_MS) 1;
       if \<not> exited then Some (ParentStuck, restore_old plan OldDidNotExit)
       else
         let start = [Spawn (wp_target plan) (wp_args plan)] in
         case w_spawn w n of
           Some e \<Rightarrow> Some (roll_back plan start (NewDidNotStart e))
         | None \<Rightarrow>
             do {
               (answer, _) \<leftarrow> wait_healthy w (n + 1);
               case answer of
                 Inr _ \<Rightarrow> Some (Healthy, start)
               | Inl why \<Rightarrow> Some (roll_back plan (start @ [Kill]) why)
             }
     }"

section \<open>Loops that end\<close>

text \<open>A clock that never goes back and passes every moment.\<close>

definition clock_runs :: "world \<Rightarrow> bool" where
  "clock_runs w \<longleftrightarrow> mono (w_now w) \<and> (\<forall>t. \<exists>n. t \<le> w_now w n)"

lemma clock_late:
  assumes "clock_runs w"
  obtains k where "\<And>n. k \<le> n \<Longrightarrow> t \<le> w_now w n"
proof -
  from assms obtain k where "t \<le> w_now w k" by (auto simp: clock_runs_def)
  with assms that show thesis by (meson clock_runs_def monoD order_trans)
qed

lemma wait_parent_ends:
  assumes "clock_runs w"
  shows "\<exists>b m. wait_parent w deadline n = Some (b, m) \<and>
    (if b then \<not> w_alive w (m - 1) else deadline \<le> w_now w (m - 1) \<and> w_alive w (m - 2))"
proof -
  from clock_late [OF assms] obtain k where late: "\<And>m. k \<le> m \<Longrightarrow> deadline \<le> w_now w m" by blast
  show ?thesis
  proof (induction "k - n" arbitrary: n rule: less_induct)
    case less
    show ?case
    proof (cases "w_alive w n \<and> \<not> deadline \<le> w_now w (n + 1)")
      case True
      with late [of "n + 1"] have "n + 1 < k" by (meson not_le)
      with less [of "n + 3"] True show ?thesis by (subst wait_parent.simps) simp
    next
      case False
      then show ?thesis by (subst wait_parent.simps) auto
    qed
  qed
qed

text \<open>What a health check's answer rests on.\<close>

definition answer_ok :: "world \<Rightarrow> nat \<Rightarrow> watch_why + unit \<Rightarrow> nat \<Rightarrow> bool" where
  "answer_ok w deadline answer m \<longleftrightarrow>
     answer = Inr () \<and> w_healthy w (m - 1) \<and> \<not> w_exited w (m - 2) \<or>
     answer = Inl NewExited \<and> w_exited w (m - 1) \<or>
     answer = Inl NewSilent \<and> deadline \<le> w_now w (m - 1)"

lemma healthy_loop_ends:
  assumes "clock_runs w"
  shows "\<exists>answer m. healthy_loop w deadline n = Some (answer, m) \<and> answer_ok w deadline answer m"
proof -
  from clock_late [OF assms] obtain k where late: "\<And>m. k \<le> m \<Longrightarrow> deadline \<le> w_now w m" by blast
  show ?thesis
  proof (induction "k - n" arbitrary: n rule: less_induct)
    case less
    show ?case
    proof (cases "\<not> w_exited w n \<and> \<not> w_healthy w (n + 1) \<and> \<not> deadline \<le> w_now w (n + 2)")
      case True
      with late [of "n + 2"] have "n + 2 < k" by (meson not_le)
      with less [of "n + 4"] True show ?thesis by (subst healthy_loop.simps) simp
    next
      case False
      then show ?thesis by (subst healthy_loop.simps) (auto simp: answer_ok_def)
    qed
  qed
qed

text \<open>The watchdog's effects, by how it ended.\<close>

definition watch_effects :: "watch_plan \<Rightarrow> outcome \<Rightarrow> watch_effect list \<Rightarrow> bool" where
  "watch_effects plan out effs \<longleftrightarrow>
     (let start = Spawn (wp_target plan) (wp_args plan);
          undo = (\<lambda>why. [Mark (wp_failed_marker plan) why, Restore (wp_backup plan) (wp_target plan)])
      in case out of
           Healthy \<Rightarrow> effs = [start]
         | ParentStuck \<Rightarrow> effs = undo OldDidNotExit
         | RolledBack \<Rightarrow>
             (\<exists>e. effs = start # undo (NewDidNotStart e) @ [start]) \<or>
             (\<exists>why. why \<in> {NewExited, NewSilent} \<and> effs = [start, Kill] @ undo why @ [start]))"

lemma supervise_total:
  assumes "clock_runs w"
  shows "\<exists>out effs. supervise plan w = Some (out, effs) \<and> watch_effects plan out effs \<and>
    (out = Healthy \<longrightarrow> (\<exists>n. w_healthy w n)) \<and> (out \<noteq> ParentStuck \<longrightarrow> (\<exists>n. \<not> w_alive w n))"
proof -
  from wait_parent_ends [OF assms] obtain exited n where
    p: "wait_parent w (w_now w 0 + PARENT_EXIT_MS) 1 = Some (exited, n)" "exited \<Longrightarrow> \<not> w_alive w (n - 1)"
    by (metis (full_types))
  show ?thesis
  proof (cases exited)
    case False
    with p show ?thesis by (simp add: supervise_def watch_effects_def restore_old_def)
  next
    case True
    with p(2) have dead: "\<not> w_alive w (n - 1)" .
    show ?thesis
    proof (cases "w_spawn w n")
      case (Some e)
      with p True dead show ?thesis
        by (auto simp: supervise_def watch_effects_def restore_old_def roll_back_def)
    next
      case None
      from healthy_loop_ends [OF assms] obtain answer m where
        h: "healthy_loop w (w_now w (n + 1) + HEALTHY_WITHIN_MS) (n + 2) = Some (answer, m)"
          "answer_ok w (w_now w (n + 1) + HEALTHY_WITHIN_MS) answer m" by metis
      then have wh: "wait_healthy w (n + 1) = Some (answer, m)" by (simp add: wait_healthy_def)
      show ?thesis
      proof (cases answer)
        case (Inl why)
        with h(2) have "why \<in> {NewExited, NewSilent}" by (auto simp: answer_ok_def)
        with p True None wh Inl dead show ?thesis
          by (auto simp: supervise_def watch_effects_def restore_old_def roll_back_def)
      next
        case (Inr u)
        with h(2) have "w_healthy w (m - 1)" by (simp add: answer_ok_def)
        with p True None wh Inr dead show ?thesis by (auto simp: supervise_def watch_effects_def)
      qed
    qed
  qed
qed

section \<open>The swap's effect\<close>

lemma beside_distinct:
  assumes "beside target = Some (incoming, backup)"
  shows "incoming \<noteq> target" "backup \<noteq> target" "incoming \<noteq> backup"
proof -
  from assms have t: "target \<noteq> []" and i: "incoming = butlast target @ [''.'' @ last target @ ''.incoming'']"
      and b: "backup = butlast target @ [''.'' @ last target @ ''.previous'']"
    by (auto simp: beside_def split: if_splits)
  from t have last: "target = butlast target @ [last target]" by simp
  have "''.'' @ s @ x \<noteq> s" for s x :: string
  proof
    assume "''.'' @ s @ x = s"
    then have "length (''.'' @ s @ x) = length s" by (rule arg_cong)
    then show False by simp
  qed
  then show "incoming \<noteq> target" "backup \<noteq> target"
    unfolding i b by (metis last append_same_eq same_append_eq list.inject)+
  show "incoming \<noteq> backup" by (simp add: i b)
qed

lemma swap_fail_others:
  "swap_fail fs flt incoming e = (fs', r) \<Longrightarrow> r = Inl e \<and> (\<forall>p. p \<noteq> incoming \<longrightarrow> fs' p = fs p)"
  by (auto simp: swap_fail_def fs_remove_def split: if_splits)

lemma swap_in_effect:
  assumes "swap_in fs flt staged target = (fs', r)" and "beside target = Some (incoming, backup)"
  shows "(\<forall>p. p \<notin> {incoming, backup, target} \<longrightarrow> fs' p = fs p) \<and>
    (case r of
       Inl _ \<Rightarrow> fs' target = fs target
     | Inr b \<Rightarrow> b = backup \<and> fs staged \<noteq> None \<and> fs' target = fs staged \<and> fs' backup = fs target \<and>
         fs target \<noteq> None \<and> fs' incoming = None)"
proof -
  note d = beside_distinct [OF assms(2)]
  show ?thesis
  proof (cases "fs staged")
    case None
    with assms d show ?thesis by (auto simp: swap_in_def dest!: swap_fail_others)
  next
    case (Some content)
    show ?thesis
    proof (cases "copy_fault flt")
      case None
      with Some assms d show ?thesis
        by (auto simp: swap_in_def Let_def fs_remove_def dest!: swap_fail_others split: if_splits)
    next
      case (Some f)
      with \<open>fs staged = Some content\<close> assms d show ?thesis
        by (cases f) (auto simp: swap_in_def dest!: swap_fail_others)
    qed
  qed
qed

section \<open>Properties\<close>

text \<open>
  C24. The watchdog always ends and leaves one agent: on any clock that runs, it ends, and it
  ends in one of three ways. Either the new agent answered its health check and it is the only
  thing started; or the old agent never exited, nothing was started and the old binary was put
  back; or the new one did not start, exited or stayed silent, and then (after killing it if it
  was running) the failure is recorded, the old binary put back and only then started. The new
  agent is never started while the old one is alive.
\<close>

theorem watchdog_keeps_one_agent:
  assumes "clock_runs w"
  shows "\<exists>out effs. supervise plan w = Some (out, effs) \<and> watch_effects plan out effs \<and>
    (out = Healthy \<longrightarrow> (\<exists>n. w_healthy w n)) \<and> (out \<noteq> ParentStuck \<longrightarrow> (\<exists>n. \<not> w_alive w n)) \<and>
    (Restore (wp_backup plan) (wp_target plan) \<in> set effs \<longleftrightarrow> out \<noteq> Healthy)"
proof -
  from supervise_total [OF assms] obtain out effs where s: "supervise plan w = Some (out, effs)"
      "watch_effects plan out effs" "out = Healthy \<longrightarrow> (\<exists>n. w_healthy w n)" "out \<noteq> ParentStuck \<longrightarrow> (\<exists>n. \<not> w_alive w n)"
    by blast
  from s(2) have "Restore (wp_backup plan) (wp_target plan) \<in> set effs \<longleftrightarrow> out \<noteq> Healthy"
    by (cases out) (auto simp: watch_effects_def Let_def)
  with s show ?thesis by blast
qed

definition quick_world :: world where
  "quick_world = \<lparr>w_alive = (\<lambda>n. n < 4), w_now = (\<lambda>n. 1000 * n), w_spawn = (\<lambda>_. None), w_exited = (\<lambda>_. False),
     w_healthy = (\<lambda>n. 12 < n)\<rparr>"

definition quick_plan :: watch_plan where
  "quick_plan = \<lparr>wp_target = [''a''], wp_backup = [''b''], wp_args = [], wp_failed_marker = [''f'']\<rparr>"

theorem watchdog_keeps_one_agent_witness:
  "clock_runs quick_world \<and> (\<exists>out effs. supervise quick_plan quick_world = Some (out, effs) \<and> watch_effects quick_plan out effs)"
proof -
  have "clock_runs quick_world"
  proof -
    have "\<exists>n. t \<le> 1000 * n" for t :: nat by (rule exI [of _ t]) simp
    then show ?thesis by (auto simp: clock_runs_def quick_world_def mono_def)
  qed
  with watchdog_keeps_one_agent [OF this, of quick_plan] show ?thesis by blast
qed

text \<open>
  C25. Installing loses nothing: whatever call fails, an install that reports an error leaves the
  agent's file exactly as it was, except when the swap was complete and either the watchdog's
  plan could not be encoded or putting the old file back failed too, and then the old file is
  still kept as the backup; an install that succeeds has the new file in place and the old one as
  the backup; and no other file is touched.
\<close>

theorem install_keeps_a_working_agent:
  assumes "install_self fs flt staged target = (fs', r)" and "beside target = Some (incoming, backup)"
  shows "(\<forall>p. p \<notin> {incoming, backup, target} \<longrightarrow> fs' p = fs p) \<and>
    (case r of
       Inr b \<Rightarrow> b = backup \<and> fs' target = fs staged \<and> fs' target \<noteq> None \<and> fs' backup = fs target
     | Inl PlanUnencodable \<Rightarrow> fs' target = fs staged \<and> fs' backup = fs target
     | Inl RestoreFailed \<Rightarrow> fs' target = fs staged \<and> fs' backup = fs target
     | Inl _ \<Rightarrow> fs' target = fs target)"
proof -
  obtain fs1 r1 where s: "swap_in fs (if_swap flt) staged target = (fs1, r1)" by fastforce
  note e = swap_in_effect [OF s assms(2)] and d = beside_distinct [OF assms(2)]
  show ?thesis
  proof (cases r1)
    case (Inl err)
    with s assms(1) e show ?thesis by (auto simp: install_self_def)
  next
    case (Inr b)
    with s assms(1) e d show ?thesis by (auto simp: install_self_def split: if_splits)
  qed
qed

definition old_and_new :: fs where
  "old_and_new = (\<lambda>_. None)([''bin'', ''agent''] := Some ''old'', [''tmp'', ''agent''] := Some ''new'')"

definition spawn_fails :: install_faults where
  "spawn_fails = \<lparr>if_swap = \<lparr>copy_fault = None, chmod_fault = False, sync_fault = False, remove_fault = False,
     link_fault = False, rename_fault = False, cleanup_fault = False\<rparr>, if_encode = False, if_spawn = True, if_restore = False\<rparr>"

theorem install_keeps_a_working_agent_witness:
  "\<exists>fs'. install_self old_and_new spawn_fails [''tmp'', ''agent''] [''bin'', ''agent''] = (fs', Inl WatchdogNotStarted) \<and>
     fs' [''bin'', ''agent''] = Some ''old''"
proof -
  obtain fs' r where i: "install_self old_and_new spawn_fails [''tmp'', ''agent''] [''bin'', ''agent''] = (fs', r)" by fastforce
  then have r: "r = Inl WatchdogNotStarted"
    by (auto simp: install_self_def swap_in_def beside_def spawn_fails_def old_and_new_def fs_remove_def)
  have "beside [''bin'', ''agent''] = Some ([''bin'', ''.agent.incoming''], [''bin'', ''.agent.previous''])"
    by (simp add: beside_def)
  from install_keeps_a_working_agent [OF i this] r have "fs' [''bin'', ''agent''] = old_and_new [''bin'', ''agent'']" by simp
  with i r show ?thesis by (simp add: old_and_new_def)
qed

text \<open>
  A plan that cannot be encoded is reported as a failed install although the new file stays
  in place, with no watchdog started for it.
\<close>

theorem unencodable_plan_leaves_new_file:
  "\<exists>fs'. install_self old_and_new (spawn_fails\<lparr>if_encode := True\<rparr>) [''tmp'', ''agent''] [''bin'', ''agent''] =
       (fs', Inl PlanUnencodable) \<and> fs' [''bin'', ''agent''] = Some ''new''"
  by (simp add: install_self_def swap_in_def beside_def spawn_fails_def old_and_new_def fs_remove_def)

end
