(* ===== verification/Nonfinite_Times.thy ===== *)
theory Nonfinite_Times
  imports Conversation_Safety
begin

text \<open>
  Why the properties of the conversation store ask for whole numbers. A command from a peer, or a
  request of a window, may carry any \<^verbatim>\<open>f64\<close> as its time: \<^verbatim>\<open>command.rs\<close> takes what
  \<^verbatim>\<open>as_number\<close> gives and nothing checks that it is finite. serde_json writes such a number as
  \<^verbatim>\<open>null\<close>, \<^verbatim>\<open>js_numbers\<close> leaves a \<^verbatim>\<open>null\<close> field out, and the record then lacks a required
  field. One append of such a message succeeds and leaves the page it was put on, with every
  message there, and the conversation's metadata unreadable.
\<close>

section \<open>Records with a number that is not finite\<close>

definition nullable_whole :: "f64 \<Rightarrow> bool" where
  "nullable_whole x \<longleftrightarrow> f64_whole x \<or> \<not> is_finite x"

lemma json_whole_nullable: "nullable_whole x \<Longrightarrow> json_whole (js_numbers (json_f64 x))"
  unfolding nullable_whole_def by (auto simp: json_whole_js_f64) (simp add: json_f64_def)

lemma nullable_whole_simps: "f64_whole x \<Longrightarrow> nullable_whole x" "\<not> is_finite x \<Longrightarrow> nullable_whole x"
  by (simp_all add: nullable_whole_def)

lemma js_field_not_finite: "\<not> is_finite x \<Longrightarrow> js_field (json_f64 x) = None"
  by (simp add: json_f64_def)

lemma js_field_nullable:
  "nullable_whole x \<Longrightarrow> js_field (json_f64 x) = None \<or> js_field (json_f64 x) = Some (js_numbers (json_f64 x)) \<and> f64_whole x"
  unfolding nullable_whole_def by (auto simp: js_field_f64 js_field_not_finite)

lemma lacking_metadata:
  assumes "json_text_ok J" and "metadata_ok md" and "\<not> is_finite t" and "nullable_whole old"
  shows "\<exists>b. encode_metadata J (md\<lparr>md_newest := t, md_oldest := old\<rparr>) = Inr b \<and> decode_metadata J b = Inl Serde"
proof -
  let ?md = "md\<lparr>md_newest := t, md_oldest := old\<rparr>"
  have "js_whole (metadata_fields ?md)" unfolding metadata_fields_def
    using assms(2-4)
    by (intro js_whole_of_list)
      (simp add: metadata_ok_def json_whole_js_f64 u32_u64 json_whole_opt_str json_whole_opt_u64
        json_whole_nullable nullable_whole_simps)
  then have "js_whole (stored_metadata ?md)" unfolding stored_metadata_def Let_def
    by (auto intro!: js_whole_upd simp: utf8_lit_show split: option.split)
  from print_parse [OF assms(1) js_whole_obj [OF this] stored_within(1)]
  obtain b where b: "print_json J (js_numbers (JObj (stored_metadata ?md))) = Inr b"
      "parse_json J b = Inr (js_numbers (JObj (stored_metadata ?md)))" by blast
  have "and_then (cid_from_string (drop_nulls (fmmap js_numbers (stored_metadata ?md))) ''peerCid'')
      (\<lambda>ob. and_then (cid_from_string ob ''ownerCid'') metadata_of) = Inl Serde"
    using assms(2-4) js_field_nullable [OF assms(4)]
    by (cases "md_owner_cid md")
      (auto simp: read_back_simps js_field_not_finite stored_metadata_def metadata_fields_def metadata_ok_def
        opt_ok_def metadata_of_def de_opt_def)
  with b show ?thesis by (simp add: encode_metadata_eq decode_metadata_def as_object_def)
qed

lemma lacking_message:
  assumes "message_ok m" and "\<not> is_finite t"
  shows "message_of (back_fields (m\<lparr>m_timestamp := t\<rparr>)) = Inl Serde"
  using assms
  by (simp add: message_of_def de_field_def back_fields_lookup message_fields_lookup de_u64_json js_field_not_finite)

lemma lacking_canonical:
  assumes "message_ok m"
  shows "canonical_message nans (js_numbers (JObj (stored_fields (m\<lparr>m_timestamp := t\<rparr>)))) =
    Inr (JObj (back_fields (m\<lparr>m_timestamp := t\<rparr>)))"
proof (cases "m_reactions m")
  case None
  then show ?thesis
    by (simp add: canonical_message_def as_object_def CID_FIELDS_MESSAGE_def cid_from_string_def fmlookup_js_numbers
        stored_fields_lookup parse_u64_show cid_bound json_nat_cid canonical_reactions_def back_fields_def Let_def)
next
  case (Some rs)
  with assms have "rs \<noteq> []" "length rs < 2 ^ 64" "list_all reaction_ok rs"
    by (simp_all add: message_ok_def opt_ok_def)
  then obtain bytes where b: "encode_reactions rs = Some bytes" "decode_reactions nans bytes = Some rs"
    by (rule kept_reactions)
  with Some show ?thesis
    by (simp add: canonical_message_def as_object_def CID_FIELDS_MESSAGE_def cid_from_string_def fmlookup_js_numbers
        stored_fields_lookup parse_u64_show cid_bound json_nat_cid canonical_reactions_def back_fields_def Let_def
        de_bytes_back comp_def)
qed

lemma lacking_fields_whole:
  assumes "message_ok m" and "nullable_whole t"
  shows "js_whole (stored_fields (m\<lparr>m_timestamp := t\<rparr>))"
  unfolding js_whole_def
proof (intro allI impI)
  fix k v assume l: "fmlookup (stored_fields (m\<lparr>m_timestamp := t\<rparr>)) k = Some v"
  show "json_whole (js_numbers v)"
  proof (cases "k = ''timestamp''")
    case True
    with l assms(2) show ?thesis by (auto simp: stored_fields_lookup message_fields_lookup json_whole_nullable)
  next
    case False
    have "fmlookup (message_fields (m\<lparr>m_timestamp := t\<rparr>)) k = fmlookup (message_fields m) k"
      using False by (simp add: message_fields_def fmlookup_of_list)
    then have "fmlookup (stored_fields (m\<lparr>m_timestamp := t\<rparr>)) k = fmlookup (stored_fields m) k"
      by (cases "Option.bind (m_reactions m) encode_reactions") (simp_all add: stored_fields_def Let_def del: bind_eq_Some_conv)
    with l stored_fields_whole [OF assms(1)] show ?thesis by (simp add: js_whole_def)
  qed
qed

text \<open>A page one of whose messages has such a time: it is written, and no longer reads.\<close>

definition lacking :: "page \<Rightarrow> conv_message \<Rightarrow> f64 \<Rightarrow> bool" where
  "lacking p m t \<longleftrightarrow>
     m\<lparr>m_timestamp := t\<rparr> \<in> set (pg_messages p) \<and>
     (\<forall>x \<in> set (pg_messages p). x = m\<lparr>m_timestamp := t\<rparr> \<or> message_ok x) \<and> pg_number p \<le> u32_max \<and>
     nullable_whole (min_timestamp (pg_timestamps p)) \<and> nullable_whole (max_timestamp (pg_timestamps p))"

lemma de_all_stops:
  "\<lbrakk>x \<in> set xs; f x = Inl e; \<And>y. y \<in> set xs \<Longrightarrow> f y = Inl e \<or> (\<exists>z. f y = Inr z)\<rbrakk> \<Longrightarrow> de_all f xs = Inl e"
proof (induction xs)
  case (Cons y xs)
  from Cons.prems(3) [of y] consider "f y = Inl e" | z where "f y = Inr z" by auto
  then show ?case using Cons by cases auto
qed simp

lemma lacking_page:
  assumes J: "json_text_ok J" and m: "message_ok m" and t: "\<not> is_finite t" and p: "lacking p m t"
  shows "\<exists>b. encode_page J p = Inr b \<and> decode_page J nans b = Inl Serde"
proof -
  let ?ms = "pg_messages p" and ?bad = "m\<lparr>m_timestamp := t\<rparr>"
  have each: "x = ?bad \<or> message_ok x" if "x \<in> set ?ms" for x using p that by (simp add: lacking_def)
  have "opt_ok (list_all (\<lambda>r. is_finite (r_at r))) (m_reactions x)" if "x \<in> set ?ms" for x
    using each [OF that] message_ok_reactions m by auto
  then have enc: "encode_page J p = print_json J (js_numbers (JObj (stored_page p)))"
    by (intro encode_page_eq) (simp add: list_all_iff)
  have fields: "js_whole (stored_fields x)" if "x \<in> set ?ms" for x
    using each [OF that] stored_fields_whole lacking_fields_whole [OF m] t by (auto simp: nullable_whole_simps)
  have ms: "json_whole (js_numbers (JArr (map (\<lambda>m. JObj (stored_fields m)) ?ms)))"
    using json_whole_list [of ?ms "\<lambda>m. JObj (stored_fields m)"] js_whole_obj [OF fields]
    by (simp add: json_list_def del: js_numbers.simps(7))
  have rest: "json_whole (js_numbers v)" if "fmlookup (page_fields p) k = Some v" "k \<noteq> ''messages''" for k v
  proof -
    let ?ts = "[(''minTimestamp'', json_f64 (min_timestamp (pg_timestamps p))),
      (''maxTimestamp'', json_f64 (max_timestamp (pg_timestamps p)))]"
    have "json_whole (js_numbers (json_obj ?ts))" unfolding json_obj_def
      using p by (intro js_whole_obj js_whole_of_list) (simp add: lacking_def json_whole_nullable)
    with that p show ?thesis
      by (auto simp: page_fields_def fmlookup_of_list lacking_def u32_u64 simp del: js_numbers.simps(7) split: if_splits)
  qed
  have "js_whole (stored_page p)"
    using ms rest unfolding js_whole_def stored_page_def by (auto simp: utf8_lit_show simp del: js_numbers.simps(6,7))
  from print_parse [OF J js_whole_obj [OF this] stored_within(2)]
  obtain b where b: "print_json J (js_numbers (JObj (stored_page p))) = Inr b"
      "parse_json J b = Inr (js_numbers (JObj (stored_page p)))" by blast
  have canon: "de_all (canonical_message nans) (map (js_numbers \<circ> (\<lambda>m. JObj (stored_fields m))) ?ms) =
      Inr (map (\<lambda>m. JObj (back_fields m)) ?ms)"
  proof (rule de_all_map)
    fix x assume "x \<in> set ?ms"
    from each [OF this] show "canonical_message nans ((js_numbers \<circ> (\<lambda>m. JObj (stored_fields m))) x) = Inr (JObj (back_fields x))"
      using canonical_message_eq lacking_canonical [OF m] by (auto simp del: js_numbers.simps)
  qed
  have "de_all json_message_of (map (\<lambda>m. JObj (back_fields m)) ?ms) = Inl Serde"
  proof (rule de_all_stops)
    show "JObj (back_fields ?bad) \<in> set (map (\<lambda>m. JObj (back_fields m)) ?ms)" using p by (auto simp: lacking_def)
    show "json_message_of (JObj (back_fields ?bad)) = Inl Serde"
      by (simp add: json_message_of_def lacking_message [OF m t])
    fix y assume "y \<in> set (map (\<lambda>m. JObj (back_fields m)) ?ms)"
    then obtain x where "y = JObj (back_fields x)" "x \<in> set ?ms" by auto
    with each [of x] show "json_message_of y = Inl Serde \<or> (\<exists>z. json_message_of y = Inr z)"
      by (auto simp: json_message_of_def lacking_message [OF m t] message_back)
  qed
  then have read: "de_list json_message_of (JArr (map (\<lambda>m. JObj (back_fields m)) ?ms)) = Inl Serde"
    by (simp add: de_list_def)
  have "pg_number p \<le> u32_max" using p by (simp add: lacking_def)
  then have "and_then (cid_from_string (drop_nulls (fmmap js_numbers (stored_page p))) ''peerCid'')
      (\<lambda>ob. and_then (each_message (canonical_message nans) ob) page_of) = Inl Serde"
    by (simp add: cid_from_string_def fmlookup_js_numbers stored_page_def parse_u64_show cid_bound json_nat_cid
        each_message_def canon page_of_def de_field_def read page_fields_lookup de_u64_json de_nat_json
        del: js_numbers.simps(7))
  with b enc show ?thesis by (simp add: decode_page_def as_object_def)
qed

section \<open>One append makes a conversation unreadable\<close>

lemma lacking_place:
  assumes "page_ok p" and "\<not> is_finite t"
  shows "lacking (place p (m\<lparr>m_timestamp := t\<rparr>)) m t"
proof -
  let ?bad = "m\<lparr>m_timestamp := t\<rparr>"
  define ms where "ms = sort_key (\<lambda>m. f64_total_key (m_timestamp m)) (pg_messages p @ [?bad])"
  have all: "x = ?bad \<or> message_ok x" if "x \<in> set ms" for x
    using that assms(1) by (auto simp: ms_def page_ok_def list_all_iff)
  have ne: "ms \<noteq> []"
  proof -
    have "length ms = Suc (length (pg_messages p))" by (simp add: ms_def)
    then show ?thesis by auto
  qed
  have time: "nullable_whole (m_timestamp x)" if "x \<in> set ms" for x
    using all [OF that] assms(2) by (auto simp: nullable_whole_def message_ok_def)
  have "?bad \<in> set ms" by (simp add: ms_def)
  with all time [OF hd_in_set [OF ne]] time [OF last_in_set [OF ne]] assms(1) show ?thesis
    unfolding lacking_def place_def Let_def ms_def [symmetric] by (simp add: page_ok_def)
qed

text \<open>
  A message whose time is not a finite number, appended to a conversation whose newest page has
  room and which does not hold it yet, by an append no call of which fails: it reports success, and
  from then on neither the page nor the conversation's metadata can be read.
\<close>

theorem nonfinite_append_bricks:
  assumes J: "json_text_ok (st_json st)" and c: "conv st (kv_map s) peer md ps" and cnt: "counts md t u"
    and m: "message_ok m" and x: "\<not> is_finite x" and now: "f64_whole now" and fine: "fine s"
    and new: "\<not> redelivered ps (m_id m)" and room: "length (pg_messages (last ps)) < MESSAGES_PER_PAGE"
  shows "\<exists>md' s'. append_message st peer (m\<lparr>m_timestamp := x\<rparr>) username now s = (KOk (Some md'), s') \<and>
    meta_read st (kv_map s') peer = Inl Serde \<and> page_read st (kv_map s') peer (md_latest_page md) = Inl Serde"
proof -
  note D = convD [OF c] and N = conv_nonempty [OF c]
  let ?bad = "m\<lparr>m_timestamp := x\<rparr>" and ?M = "kv_map s"
  let ?pk = "page_key (scoped (st_own st) peer) (md_latest_page md)"
  let ?mk = "metadata_key (scoped (st_own st) peer)"
  define md0 where "md0 = md\<lparr>md_owner_cid := Some (case md_owner_cid md of None \<Rightarrow> st_own st | Some c \<Rightarrow> c)\<rparr>"
  have md0: "md_latest_page md0 = md_latest_page md" "metadata_ok md0" "counts md0 t u" "md_peer_cid md0 = peer"
    using D(2,3) cnt by (simp_all add: md0_def metadata_ok_def counts_def)
  define md' where "md' = record_append md0 ?bad False (st_own st) now"
  have last_ok: "page_ok (last ps)" "pg_peer_cid (last ps) = peer" "pg_number (last ps) = md_latest_page md"
    using D(6-8) N by simp_all
  obtain b where b: "encode_page (st_json st) (place (last ps) ?bad) = Inr b"
      "decode_page (st_json st) (st_nans st) b = Inl Serde"
    using lacking_page [OF J m x lacking_place [OF last_ok(1) x]] by blast
  have md'_eq: "md' = (record_append md0 m False (st_own st) now)\<lparr>md_newest := x, md_oldest := md_oldest md'\<rparr>"
    "nullable_whole (md_oldest md')" "md_peer_cid md' = peer"
    using md0(2,4) x by (simp_all add: md'_def record_append_def Let_def nullable_whole_def metadata_ok_def)
  have key: "md_peer_cid md' = pg_peer_cid (last ps)" using md'_eq(3) last_ok(2) by simp
  obtain d where d: "encode_metadata (st_json st) md' = Inr d" "decode_metadata (st_json st) d = Inl Serde"
    using lacking_metadata [OF J record_append_ok [OF md0(2,3) m now] x md'_eq(2)] md'_eq(1) by metis
  have "runs (at_map True ?M) (append_message st peer ?bad username now)
      (\<lambda>r s'. r = Some md' \<and> kv_map s' = ?M(?pk := Some b, ?mk := Some d)) (\<lambda>s. \<not> True \<and> False)"
    unfolding append_message_def Let_def
    apply (rule runs_bind_load_metadata [OF D(1)], simp)
    apply (simp only: option.simps md0_def [symmetric])
    apply (rule runs_bind_load_page [of _ _ _ _ "Some (last ps)"])
      apply (use D(5) N md0(1) in simp)
     apply simp
    apply (simp only: option.simps)
    apply (rule runs_already_stored [OF c md0(1)], simp)
    using new room b(1) d(1)
    by (auto simp: roll_over_def save_page_def save_metadata_def kv_set_def kbind_assoc md'_def [symmetric]
        last_ok(2,3) md'_eq(3) simp del: record_append_latest intro!: runs_bind_put runs_at_ret)
  from run_ok [OF this fine refl] obtain s' where a: "append_message st peer ?bad username now s = (KOk (Some md'), s')"
      "kv_map s' = ?M(?pk := Some b, ?mk := Some d)" by blast
  have "meta_read st (kv_map s') peer = Inl Serde" "page_read st (kv_map s') peer (md_latest_page md) = Inl Serde"
    using b(2) d(2) by (simp_all add: a(2) meta_read_def page_read_def decoded_def)
  with a(1) show ?thesis by blast
qed

theorem nonfinite_append_bricks_witness:
  "\<exists>md' s'. append_message demo_store 8 ((demo_message ''c'' f64_one)\<lparr>m_timestamp := f64_nan\<rparr>) None f64_one
      \<lparr>kv_map = demo_map, kv_faults = []\<rparr> = (KOk (Some md'), s') \<and>
    meta_read demo_store (kv_map s') 8 = Inl Serde \<and> page_read demo_store (kv_map s') 8 0 = Inl Serde"
proof -
  have "\<not> redelivered [demo_page] (m_id (demo_message ''c'' f64_one))"
    by (simp add: redelivered_def has_id_def demo_page_def demo_message_def lit_def)
  moreover have "\<not> is_finite f64_nan" by (simp add: is_finite_def f64_exponent_def f64_nan_def f64_make_def)
  ultimately show ?thesis
    using nonfinite_append_bricks [OF demo_json_ok _ demo_counts demo_message_ok [OF demo_ids(3) demo_numbers(2)] _ demo_numbers(2),
      of "\<lparr>kv_map = demo_map, kv_faults = []\<rparr>" 8 "[demo_page]" f64_nan None] demo_conv
    by (simp add: fine_def demo_page_def MESSAGES_PER_PAGE_def demo_metadata_def)
qed

end
