(* ===== verification/Spec2Isabelle.thy ===== *)
theory Spec2Isabelle
  imports Supervisor_Safety Host_Stream Engine_Peer App_Storage_Safety Sessions Media_Lane Ilm_Registry
    Reconnect_Safety Redact App_Abi App_Signature Ihttp Request_Safety Inbound_Connect Origin_Policy
    Updater_Engine Update_Swap Nonfinite_Times
begin

text \<open>
  A verification development of the Citadel agent, the background service that holds a user's
  sessions with the Citadel network and serves the windows and apps attached to it.

  \<^bold>\<open>The program.\<close> The agent (\<^verbatim>\<open>citadel-internal-service\<close>) keeps every signed-in account's link to
  its server and peers alive, stores its conversations, lets installed apps reach the network and
  their storage only as far as their grants allow, and replaces its own executable when a verified
  newer release exists. Windows talk to it over a local socket with the types of
  \<^verbatim>\<open>citadel-internal-service-types\<close>; the protocol itself is the Citadel SDK's, a library outside
  the repository. Below, \<^verbatim>\<open>kernel/\<close> is \<^verbatim>\<open>src/citadel-internal-service/src/kernel/\<close>.

  \<^bold>\<open>What models what.\<close>
  \<^item> \<^verbatim>\<open>kernel/supervisor/{types,policy}.rs, core/*.rs\<close>: \<^verbatim>\<open>Supervisor_Types\<close> (clock, inputs, commands,
    policy), \<^verbatim>\<open>Supervisor_Core\<close> (the core's state and its whole \<^verbatim>\<open>step\<close>), \<^verbatim>\<open>Supervisor_Frame\<close> and
    \<^verbatim>\<open>Supervisor_Props\<close> (what each handler keeps), \<^verbatim>\<open>Supervisor_Safety\<close> (the properties). Arithmetic
    that overflows panics in the release profile; a panic is \<^term>\<open>None\<close>, and no step reachable
    under the agent's policy is one.
  \<^item> \<^verbatim>\<open>kernel/reconnect/*.rs\<close>: \<^verbatim>\<open>Reconnect_Policy\<close> (when a dropped session is tried again and when the
    agent stops, which reports are about its link), \<^verbatim>\<open>Reconnect_Handoff\<close> (the locked sections of
    reconnect runs, sign-ins and the supervisor's abandon, and the step relation \<^verbatim>\<open>handoff_step\<close> that
    interleaves them at their awaits), \<^verbatim>\<open>Reconnect_Safety\<close> (its invariants).
  \<^item> \<^verbatim>\<open>kernel/session_subscribers.rs, session_route.rs\<close>: \<^verbatim>\<open>Sessions\<close>. \<^verbatim>\<open>kernel/media/lane.rs, udp_state.rs\<close>: \<^verbatim>\<open>Media_Lane\<close>. \<^verbatim>\<open>kernel/ilm/registry.rs\<close>: \<^verbatim>\<open>Ilm_Registry\<close>.
  \<^item> \<^verbatim>\<open>kernel/requests/mod.rs, requests/local_db, requests/agent_own.rs, migration_guard.rs\<close>:
    \<^verbatim>\<open>Request_Gate\<close> (the checks a window's request passes, the answers to refused ones, the handlers of
    the key-value store, batches), \<^verbatim>\<open>Request_Safety\<close> (what a window may see and that it is confined to
    it). \<^verbatim>\<open>kernel/inbound_connect, requests/peer/answer.rs\<close>
    and \<^verbatim>\<open>chat_level.rs\<close> of the types: \<^verbatim>\<open>Inbound_Connect\<close>. \<^verbatim>\<open>origin_policy.rs\<close> of
    the connector: \<^verbatim>\<open>Origin_Policy\<close>.
  \<^item> \<^verbatim>\<open>citadel-app-id\<close>: \<^verbatim>\<open>App_Id\<close>. \<^verbatim>\<open>citadel-app-net-policy\<close>: \<^verbatim>\<open>Net_Address\<close> (address classes), \<^verbatim>\<open>Net_Url\<close>
    (the URL parser), \<^verbatim>\<open>Net_Policy\<close> (grants, headers, decisions). \<^verbatim>\<open>citadel-app-signature\<close>:
    \<^verbatim>\<open>App_Signature\<close>. \<^verbatim>\<open>citadel-app-abi-inspect\<close> with the capabilities, calls and lifecycle of
    \<^verbatim>\<open>citadel-app-sdk-types\<close>: \<^verbatim>\<open>App_Abi\<close>. \<^verbatim>\<open>citadel-ihttp-types\<close> and \<^verbatim>\<open>kernel/apps/ihttp\<close>: \<^verbatim>\<open>Ihttp\<close>.
  \<^item> \<^verbatim>\<open>kernel/apps/net/*.rs\<close>: \<^verbatim>\<open>Rate_Limit\<close> (the sliding window and the meter), \<^verbatim>\<open>Grant_Cache\<close> (the
    server's grants as the agent remembers them, under any interleaving of its locked sections),
    \<^verbatim>\<open>Host_Fetch\<close> (authorisation, one hop, the redirect loop, a whole fetch), \<^verbatim>\<open>Host_Stream\<close> (streamed
    responses under credit, as a step relation of the pump). \<^verbatim>\<open>kernel/apps/{kv,settings}\<close>:
    \<^verbatim>\<open>App_Storage\<close> and \<^verbatim>\<open>App_Storage_Safety\<close> (an install's records, quota and grants).
  \<^item> \<^verbatim>\<open>kernel/conversations\<close>: \<^verbatim>\<open>Float64\<close> and \<^verbatim>\<open>Float64_Arith\<close> (the \<^verbatim>\<open>f64\<close> operations used there, on bit
    patterns), \<^verbatim>\<open>Cbor\<close> (the codec), \<^verbatim>\<open>Commands\<close> (the P2P commands), \<^verbatim>\<open>Reactions\<close>, \<^verbatim>\<open>Conversation_Types\<close>
    (messages, pages, metadata and the rules that keep them consistent), \<^verbatim>\<open>Json\<close> and
    \<^verbatim>\<open>Conversation_Stored\<close> (the bytes of the stored records), \<^verbatim>\<open>Conversation_Kv\<close> (the key-value store
    they are kept in, any call of which may fail, with the contract \<^verbatim>\<open>conversation_kv\<close> as a locale),
    \<^verbatim>\<open>Conversation_Keys\<close>, \<^verbatim>\<open>Conversation_Store\<close> (every operation of the store), \<^verbatim>\<open>Conversation_Reads\<close>,
    \<^verbatim>\<open>Conversation_Changes\<close>, \<^verbatim>\<open>Conversation_Retention\<close> and \<^verbatim>\<open>Conversation_Safety\<close> (what each operation
    does with and without failures), \<^verbatim>\<open>Nonfinite_Times\<close> (what a time that is not finite does to the stored
    records), \<^verbatim>\<open>Preferences\<close>, \<^verbatim>\<open>Conversation_Engine\<close> (requests and arriving
    commands over an environment), \<^verbatim>\<open>Engine_Frame\<close> (the locale \<^verbatim>\<open>engine_invariant\<close>), \<^verbatim>\<open>Engine_Safety\<close>
    and \<^verbatim>\<open>Engine_Peer\<close>. \<^verbatim>\<open>kernel/notices\<close>: \<^verbatim>\<open>Notices\<close>.
  \<^item> \<^verbatim>\<open>telemetry/redact\<close>: \<^verbatim>\<open>Redact\<close>.
  \<^item> \<^verbatim>\<open>citadel-release-signature\<close>: \<^verbatim>\<open>Release_Signature\<close>. \<^verbatim>\<open>updater/*.rs\<close>: \<^verbatim>\<open>Updater\<close> (the pure decisions),
    \<^verbatim>\<open>Updater_Engine\<close> (checking, preparing, installing over histories), \<^verbatim>\<open>Update_Swap\<close> (the swap of the
    executable and the watchdog).
  \<^item> Rust's own library: \<^verbatim>\<open>Prelude\<close> (integer limits, saturating and checked arithmetic, results),
    \<^verbatim>\<open>BTreeMap\<close> and \<^verbatim>\<open>Hash_Map\<close> (two interpretations of one interface, the locale \<^verbatim>\<open>key_map\<close>),
    \<^verbatim>\<open>Byte_Strings\<close> (strings as bytes).

  \<^bold>\<open>How the parts meet.\<close> \<^verbatim>\<open>Request_Gate\<close> rests on the attached connections of \<^verbatim>\<open>Sessions\<close>, the hosted
  accounts of \<^verbatim>\<open>Ilm_Registry\<close>, the keys of \<^verbatim>\<open>App_Storage\<close> and the envelope of \<^verbatim>\<open>Ihttp\<close>: the records of an
  app are out of reach of windows because their keys are reserved. \<^verbatim>\<open>Inbound_Connect\<close> decides from the
  same store and from \<^verbatim>\<open>Preferences\<close>. The engine composes the store, the commands, the preferences and
  the notices. The updater's engine rests on the signature. The supervisor's abandon appears in the
  reconnect's handoff as one of the tasks that exclude one another.

  \<^bold>\<open>What the theorems show.\<close> The supervisor never panics, dials only peers that are wanted and due, and
  forces a reconnect after exactly the policy's missed probes. A reconnect run that keeps failing
  gives up within the longest limit of its failures and one attempt, and says why; under one handoff
  runs, sign-ins and abandons never call the SDK together, and where an account's new session opens only
  when no task of its earlier one is left (the code does not enforce it), neither do they for the
  account. A notification reaches exactly the attached connections; a media lane keeps the latest
  frames, and in every fair execution a waiting reader with work is woken; an account has at most one
  hosted messaging layer. A window changes and learns of the store only what it may see; an offered
  connection is accepted only when the stored records want it. A grant answered from memory is the last
  the server gave for that install. A fetch contacts only hosts both the page and the server grant
  name, at addresses the policy permits; the rate limiter admits at most its limit in any window; an
  app's index stays within its quota, and what the app holds does too as long as no store call fails;
  its storage is apart from every other install's and behaves as a map; a module is accepted exactly
  when the boundary its sections declare is the ABI's; internal HTTP relays valid frames only. The
  codecs read back what they write, and the CBOR reader is total. For messages whose texts are UTF-8
  and whose numbers are whole (hence finite) and below \<open>2^53\<close>, in a conversation that exists, and
  whatever calls of the store fail: an append loses no message, what is acknowledged is stored, and a
  peer changes only its own messages. A status never retreats; pruning removes exactly what expired;
  reactions converge in any order, up to changes of one slot with one time; a notice shows no content
  the account hides. A redacted line is its input with exactly the matched parts replaced. The updater
  installs only what an earlier check verified; signatures bind what they are over; an interrupted
  install leaves a working agent, and the watchdog ends with one agent.

  \<^bold>\<open>What modelling showed.\<close> Theorems that state where the code falls short of its comments or aims:
  \<^verbatim>\<open>stale_run_gives_up_new_session\<close> and \<^verbatim>\<open>refusal_by_prefix\<close> (reconnect), \<^verbatim>\<open>overlapping_name_survives\<close> and
  \<^verbatim>\<open>touching_hits_stay\<close> (redaction), \<^verbatim>\<open>any_connection_clears_conversations\<close> and \<^verbatim>\<open>exempt_read_refused\<close> (the gate),
  \<^verbatim>\<open>withdrawn_grant_kept\<close> (app settings), \<^verbatim>\<open>shrinking_set_undercounts\<close> (app storage), \<^verbatim>\<open>offer_replaces_idle\<close>
  (media), \<^verbatim>\<open>nonfinite_append_bricks\<close>, \<^verbatim>\<open>first_append_lost\<close>, \<^verbatim>\<open>legacy_page_leaks\<close> and
  \<^verbatim>\<open>list_omits_legacy\<close> (conversations), \<^verbatim>\<open>tied_reactions_diverge\<close> (reactions).

  \<^bold>\<open>Bounds and termination.\<close> Loops over data are structural. The CBOR reader recurses to
  \<^verbatim>\<open>MAX_DEPTH\<close> 64, the code's own limit, and its termination measure is the depth left and the bytes
  left. The redirect loop ends because a hop counts against the limit of three. A reconnect run ends
  by its time budget, since every attempt comes at least its delay after the one before. The watchdog's
  loops wait for another process; they are \<^verbatim>\<open>partial_function (option)\<close> and are shown to end on every
  clock that runs. The commands of a batch of requests run one after the other in the model, one of
  the orders the agent may poll them in.

  \<^bold>\<open>Parameters.\<close> Code outside the repository is an argument of the definitions that use it: name
  resolution and HTTP exchanges, semantic versions, hex, hashes and ML-DSA, the text layer of
  serde_json, the CBOR of internal HTTP frames, regular expressions and the keyed hash of redaction,
  the WebAssembly validator and parser, the SDK's error texts, its levels and their ranks, account lookups and calls, and
  the calls of the updater's seams. What is relied on is a named hypothesis of the properties; that the text
  layer reads back what it prints (\<open>json_text_ok\<close>) is asked up to the nesting serde_json reads.

  \<^bold>\<open>Not modelled.\<close> The handlers behind the request gate that sign in, register, transfer files, run
  groups and dial peers, and the messenger, are almost statement by statement awaits of SDK or
  messenger-crate calls that are not in the repository; the supervisor's shell feeds the core its
  inputs; sockets, telemetry's uplink, the WebAssembly client and the TypeScript client are I/O and
  bindings; macros generate code at compile time.
\<close>

end
